(* ===== verification/Ids.thy ===== *)
theory Ids
  imports Prelude
begin

text \<open>
  Identifiers (\<open>deploy/src/ids.rs\<close>, with the clock and entropy seams of \<open>deploy/src/time.rs\<close>):
  the base-32 codec, the four identifier types, and the monotonic generator.

  The Rust newtypes hold the printed string. Their only constructors are \<open>from_raw\<close> and
  \<open>from_str\<close>, so the string is always the prefix, an underscore and the encoding of one 128-bit
  value; the model keeps that value and \<open>as_str\<close> prints it. The round-trip theorems below show
  that this loses nothing: parsing accepts exactly the printed strings.
\<close>

section \<open>The base-32 codec\<close>

definition alphabet :: string where
  "alphabet = ''0123456789ABCDEFGHJKMNPQRSTVWXYZ''"

definition body_len :: nat where "body_len = 26"
definition ts_mask :: u64 where "ts_mask = push_bit 48 1 - 1"
definition rand_mask :: u128 where "rand_mask = push_bit 80 1 - 1"

datatype parse_id_error = WrongPrefix string | BadLength | BadCharacter char | Overflow

text \<open>The loop of \<open>encode\<close> fills the 26 slots from the last to the first.\<close>

fun encode_loop :: "nat \<Rightarrow> u128 \<Rightarrow> string \<Rightarrow> string" where
  "encode_loop 0 v out = out"
| "encode_loop (Suc n) v out = encode_loop n (drop_bit 5 v) (alphabet ! unat (v AND 31) # out)"

definition encode :: "u128 \<Rightarrow> string" where
  "encode v = encode_loop body_len v []"

fun decode_loop :: "nat \<Rightarrow> u128 \<Rightarrow> string \<Rightarrow> parse_id_error + u128" where
  "decode_loop i v [] = Inr v"
| "decode_loop i v (c # cs) =
     (case position (\<lambda>a. a = c) alphabet of
        None \<Rightarrow> Inl (BadCharacter c)
      | Some d \<Rightarrow>
          if i = 0 \<and> 7 < d then Inl Overflow
          else decode_loop (Suc i) (push_bit 5 v OR of_nat d) cs)"

definition decode :: "string \<Rightarrow> parse_id_error + u128" where
  "decode body = (if length body \<noteq> body_len then Inl BadLength else decode_loop 0 0 body)"

subsection \<open>The codec on natural numbers\<close>

lemma or_push_bit_nat: "b < 2 ^ n \<Longrightarrow> push_bit n a OR b = a * 2 ^ n + b" for a b :: nat
proof -
  assume "b < 2 ^ n"
  then have b: "take_bit n b = b" by (simp add: take_bit_nat_eq_self)
  have "\<not> bit (push_bit n a) m \<or> \<not> bit b m" for m
    using b by (metis bit_push_bit_iff bit_take_bit_iff not_le)
  then show ?thesis by (simp add: disjunctive_add [symmetric] push_bit_eq_mult)
qed

lemma unat_push_or:
  fixes a b :: "'a::len word"
  assumes "unat b < 2 ^ n" and "unat a * 2 ^ n < 2 ^ LENGTH('a)"
  shows "unat (push_bit n a OR b) = unat a * 2 ^ n + unat b"
proof -
  have "push_bit n (unat a) < 2 ^ LENGTH('a)"
    using assms(2) by (simp add: push_bit_eq_mult)
  then have "unat (push_bit n a) = push_bit n (unat a)"
    by (simp only: unsigned_push_bit_eq take_bit_nat_eq_self)
  then show ?thesis using assms(1) by (simp add: unsigned_or_eq or_push_bit_nat)
qed

lemma unat_and_31: "unat (v AND 31) = unat v mod 32" for v :: u128
proof -
  have "v AND 31 = take_bit 5 v" by (simp add: take_bit_eq_mask mask_eq_exp_minus_1)
  moreover have "unat (take_bit 5 v) = take_bit 5 (unat v)" by (simp only: unsigned_take_bit_eq)
  ultimately show ?thesis by (simp add: take_bit_eq_mod)
qed

lemma unat_drop_5: "unat (drop_bit 5 v) = unat v div 32" for v :: u128
proof -
  have "unat (drop_bit 5 v) = drop_bit 5 (take_bit LENGTH(128) (unat v))"
    by (simp only: unsigned_drop_bit_eq)
  moreover have "take_bit LENGTH(128) (unat v) = unat v"
    by (rule take_bit_nat_eq_self) (rule unat_bound)
  ultimately show ?thesis by (simp add: drop_bit_eq_div)
qed

text \<open>The digits of a number, most significant first, and the value of a list of digits.\<close>

fun digits32 :: "nat \<Rightarrow> nat \<Rightarrow> nat list" where
  "digits32 0 x = []"
| "digits32 (Suc n) x = digits32 n (x div 32) @ [x mod 32]"

definition value32 :: "nat \<Rightarrow> nat list \<Rightarrow> nat" where
  "value32 v ds = foldl (\<lambda>a d. a * 32 + d) v ds"

lemma value32_simps [simp]:
  "value32 v [] = v"
  "value32 v (d # ds) = value32 (v * 32 + d) ds"
  "value32 v (ds @ [d]) = value32 v ds * 32 + d"
  by (simp_all add: value32_def)

lemma length_digits32 [simp]: "length (digits32 n x) = n"
  by (induction n arbitrary: x) auto

lemma digits32_less: "d \<in> set (digits32 n x) \<Longrightarrow> d < 32"
  by (induction n arbitrary: x) auto

lemma value32_digits32: "value32 0 (digits32 n x) = x mod 32 ^ n"
proof (induction n arbitrary: x)
  case 0
  then show ?case by simp
next
  case (Suc n)
  have "(x div 32) mod 32 ^ n * 32 + x mod 32 = x mod (32 * 32 ^ n)"
    by (metis add.commute mod_mult2_eq mult.commute)
  with Suc show ?case by simp
qed

lemma digits32_value32:
  "\<forall>d \<in> set ds. d < 32 \<Longrightarrow> digits32 (length ds) (value32 0 ds) = ds"
  by (induction ds rule: rev_induct) auto

lemma value32_mono: "value32 0 ds \<le> value32 v ds \<and> v * 32 ^ length ds \<le> value32 v ds"
proof (induction ds rule: rev_induct)
  case Nil
  then show ?case by simp
next
  case (snoc d ds)
  then show ?case by (auto simp: algebra_simps)
qed

lemma value32_less: "\<forall>d \<in> set ds. d < 32 \<Longrightarrow> value32 v ds < (v + 1) * 32 ^ length ds"
proof (induction ds arbitrary: v rule: rev_induct)
  case Nil
  then show ?case by simp
next
  case (snoc d ds)
  then have "value32 v ds + 1 \<le> (v + 1) * 32 ^ length ds" and "d < 32"
    by (simp_all add: Suc_le_eq)
  then have "(value32 v ds + 1) * 32 \<le> (v + 1) * 32 ^ length ds * 32" by simp
  with \<open>d < 32\<close> show ?case by (simp add: algebra_simps)
qed

lemma length_alphabet [simp]: "length alphabet = 32"
  by (simp add: alphabet_def)

lemma distinct_alphabet: "distinct alphabet"
  by (simp add: alphabet_def)

lemma position_nth: "distinct xs \<Longrightarrow> i < length xs \<Longrightarrow> position (\<lambda>a. a = xs ! i) xs = Some i"
proof (induction xs arbitrary: i)
  case Nil
  then show ?case by simp
next
  case (Cons x xs)
  then show ?case by (cases i) auto
qed

lemma position_alphabet: "d < 32 \<Longrightarrow> position (\<lambda>a. a = alphabet ! d) alphabet = Some d"
  using position_nth [OF distinct_alphabet, of d] by simp

lemma position_alphabet_Some:
  "position (\<lambda>a. a = c) alphabet = Some d \<Longrightarrow> d < 32 \<and> alphabet ! d = c"
  using position_Some [of "\<lambda>a. a = c" alphabet d] by simp

lemma encode_loop_digits:
  "encode_loop n v out = map (\<lambda>d. alphabet ! d) (digits32 n (unat v)) @ out"
  by (induction n arbitrary: v out) (simp_all add: unat_and_31 unat_drop_5)

lemma encode_digits: "encode v = map (\<lambda>d. alphabet ! d) (digits32 26 (unat v))"
  by (simp add: encode_def body_len_def encode_loop_digits)

lemma length_encode [simp]: "length (encode v) = 26"
  by (simp add: encode_digits)

text \<open>
  One pass of the decoder over digits: it succeeds when the first digit of the whole body is at
  most 7, and the bits never leave the 128-bit word.
\<close>

lemma decode_loop_digits:
  assumes "\<forall>d \<in> set ds. d < 32" and "value32 (unat v) ds < 2 ^ 128"
    and "i = 0 \<longrightarrow> (case ds of [] \<Rightarrow> True | d # _ \<Rightarrow> d \<le> 7)"
  shows "decode_loop i v (map (\<lambda>d. alphabet ! d) ds) = Inr (of_nat (value32 (unat v) ds))"
  using assms
proof (induction ds arbitrary: i v)
  case Nil
  then show ?case by simp
next
  case (Cons d ds)
  let ?w = "push_bit 5 v OR of_nat d :: u128"
  have d: "d < 32" using Cons.prems(1) by simp
  have "unat v * 32 + d \<le> (unat v * 32 + d) * 32 ^ length ds" by simp
  also have "\<dots> \<le> value32 (unat v) (d # ds)"
    using value32_mono [of ds "unat v * 32 + d"] by simp
  finally have le: "unat v * 32 + d \<le> value32 (unat v) (d # ds)" .
  have "unat (of_nat d :: u128) = d" using d by (simp add: unat_of_nat_small)
  then have w: "unat ?w = unat v * 32 + d"
    using unat_push_or [of "of_nat d :: u128" 5 v] d le Cons.prems(2) by simp
  have "decode_loop (Suc i) ?w (map (\<lambda>d. alphabet ! d) ds) = Inr (of_nat (value32 (unat ?w) ds))"
    using Cons.prems w by (intro Cons.IH) auto
  moreover have "\<not> (i = 0 \<and> 7 < d)" using Cons.prems(3) by auto
  ultimately show ?case using d w by (simp add: position_alphabet)
qed

lemma decode_loop_Inr:
  "decode_loop i v s = Inr u \<Longrightarrow>
   \<exists>ds. s = map (\<lambda>d. alphabet ! d) ds \<and> (\<forall>d \<in> set ds. d < 32) \<and>
     (i = 0 \<longrightarrow> (case ds of [] \<Rightarrow> True | d # _ \<Rightarrow> d \<le> 7))"
proof (induction i v s rule: decode_loop.induct)
  case (1 i v)
  then show ?case by (intro exI [of _ "[]"]) simp
next
  case (2 i v c cs)
  then obtain d where d: "position (\<lambda>a. a = c) alphabet = Some d" "\<not> (i = 0 \<and> 7 < d)"
    and "decode_loop (Suc i) (push_bit 5 v OR of_nat d) cs = Inr u"
    by (auto split: option.splits if_splits)
  with "2.IH" obtain ds where "cs = map (\<lambda>d. alphabet ! d) ds" "\<forall>d \<in> set ds. d < 32" by blast
  with d show ?case
    by (intro exI [of _ "d # ds"]) (auto dest: position_alphabet_Some)
qed

lemma first_digit_le_7: "unat v < 2 ^ 128 \<Longrightarrow> digits32 26 (unat v) = d # ds \<Longrightarrow> d \<le> 7" for v :: u128
proof -
  assume v: "unat v < 2 ^ 128" and e: "digits32 26 (unat v) = d # ds"
  then have len: "length ds = 25" using length_digits32 [of 26 "unat v"] by simp
  have "value32 0 (d # ds) = unat v"
    using value32_digits32 [of 26 "unat v"] v e by simp
  moreover have "d * 32 ^ 25 \<le> value32 d ds" using value32_mono [of ds d] len by simp
  ultimately have "d * 32 ^ 25 < 2 ^ 128" using v by simp
  then show "d \<le> 7" by simp
qed

lemma decode_encode: "decode (encode v) = Inr v"
proof -
  have v: "unat v < 2 ^ 128" using unsigned_less [of v] by simp
  then have val: "value32 0 (digits32 26 (unat v)) = unat v"
    by (simp add: value32_digits32)
  have "decode_loop 0 0 (encode v) = Inr (of_nat (unat v))"
    unfolding encode_digits
    using decode_loop_digits [of "digits32 26 (unat v)" 0 0] digits32_less [of _ 26 "unat v"]
      first_digit_le_7 [OF v] v val
    by (simp add: list.case_eq_if) (metis list.collapse)
  then show ?thesis by (simp add: decode_def body_len_def)
qed

lemma encode_decode: "decode s = Inr v \<Longrightarrow> encode v = s"
proof -
  assume s: "decode s = Inr v"
  then have len: "length s = 26" and loop: "decode_loop 0 0 s = Inr v"
    by (auto simp: decode_def body_len_def split: if_splits)
  from decode_loop_Inr [OF loop] obtain ds where
    ds: "s = map (\<lambda>d. alphabet ! d) ds" "\<forall>d \<in> set ds. d < 32" "case ds of [] \<Rightarrow> True | d # _ \<Rightarrow> d \<le> 7"
    by blast
  with len obtain d ds' where e: "ds = d # ds'" and d: "d \<le> 7" and l: "length ds' = 25"
    by (cases ds) auto
  have "value32 0 ds < (d + 1) * 32 ^ 25" using value32_less [of ds' d] ds(2) e l by simp
  also have "\<dots> \<le> 8 * 32 ^ 25" using d by simp
  finally have bound: "value32 0 ds < 2 ^ 128" by simp
  have "decode_loop 0 0 s = Inr (of_nat (value32 0 ds))"
    using decode_loop_digits [of ds 0 0] ds bound by simp
  with loop have "v = of_nat (value32 0 ds)" by simp
  then have "unat v = value32 0 ds" using bound by (simp add: unat_of_nat_small)
  then show "encode v = s" using digits32_value32 [OF ds(2)] ds(1) len by (simp add: encode_digits)
qed

section \<open>The identifier types\<close>

text \<open>\<open>from_str\<close> and the printed form, for a given prefix (the macro \<open>define_id!\<close>).\<close>

definition id_as_str :: "string \<Rightarrow> u128 \<Rightarrow> string" where
  "id_as_str prefix raw = prefix @ ''_'' @ encode raw"

definition id_from_str :: "string \<Rightarrow> string \<Rightarrow> parse_id_error + u128" where
  "id_from_str prefix s =
     bind_res (ok_or (Option.bind (strip_prefix prefix s) (strip_prefix ''_'')) (WrongPrefix prefix)) decode"

definition id_timestamp_ms :: "u128 \<Rightarrow> u64" where
  "id_timestamp_ms raw = ucast (drop_bit 80 raw)"

datatype project_id = ProjectId (prj_raw: u128)
datatype application_id = ApplicationId (app_raw: u128)
datatype deployment_id = DeploymentId (dep_raw: u128)
datatype release_id = ReleaseId (rel_raw: u128)

definition prj_str :: "project_id \<Rightarrow> string" where "prj_str i = id_as_str ''prj'' (prj_raw i)"
definition app_str :: "application_id \<Rightarrow> string" where "app_str i = id_as_str ''app'' (app_raw i)"
definition dep_str :: "deployment_id \<Rightarrow> string" where "dep_str i = id_as_str ''dep'' (dep_raw i)"
definition rel_str :: "release_id \<Rightarrow> string" where "rel_str i = id_as_str ''rel'' (rel_raw i)"

definition app_from_str :: "string \<Rightarrow> parse_id_error + application_id" where
  "app_from_str s = bind_res (id_from_str ''app'' s) (\<lambda>v. Inr (ApplicationId v))"

definition dep_from_str :: "string \<Rightarrow> parse_id_error + deployment_id" where
  "dep_from_str s = bind_res (id_from_str ''dep'' s) (\<lambda>v. Inr (DeploymentId v))"

definition rel_from_str :: "string \<Rightarrow> parse_id_error + release_id" where
  "rel_from_str s = bind_res (id_from_str ''rel'' s) (\<lambda>v. Inr (ReleaseId v))"

text \<open>A release shares its characters with the deployment that built it.\<close>

definition rel_from_deployment :: "deployment_id \<Rightarrow> release_id" where
  "rel_from_deployment d = ReleaseId (dep_raw d)"

definition rel_deployment :: "release_id \<Rightarrow> deployment_id" where
  "rel_deployment r = DeploymentId (rel_raw r)"

lemma rel_deployment_inverse [simp]:
  "rel_deployment (rel_from_deployment d) = d" "rel_from_deployment (rel_deployment r) = r"
  by (simp_all add: rel_deployment_def rel_from_deployment_def)

lemma rel_from_deployment_inj [simp]: "rel_from_deployment a = rel_from_deployment b \<longleftrightarrow> a = b"
  by (auto simp: rel_from_deployment_def deployment_id.expand)

subsection \<open>Parsing and printing\<close>

lemma id_from_as_str: "id_from_str p (id_as_str p v) = Inr v"
proof -
  have "strip_prefix p (id_as_str p v) = Some (''_'' @ encode v)"
    unfolding id_as_str_def by (subst strip_prefix_Some_iff) simp
  moreover have "strip_prefix ''_'' (''_'' @ encode v) = Some (encode v)"
    by (subst strip_prefix_Some_iff) simp
  ultimately show ?thesis by (simp add: id_from_str_def decode_encode)
qed

lemma id_as_from_str: "id_from_str p s = Inr v \<Longrightarrow> id_as_str p v = s"
  by (auto simp: id_from_str_def id_as_str_def bind_res_Inr_iff bind_eq_Some_conv strip_prefix_Some_iff
      dest!: encode_decode)

lemma dep_from_dep_str [simp]: "dep_from_str (dep_str d) = Inr d"
  by (simp add: dep_from_str_def dep_str_def id_from_as_str)

lemma app_from_app_str [simp]: "app_from_str (app_str a) = Inr a"
  by (simp add: app_from_str_def app_str_def id_from_as_str)

lemma rel_from_rel_str [simp]: "rel_from_str (rel_str r) = Inr r"
  by (simp add: rel_from_str_def rel_str_def id_from_as_str)

lemma dep_str_inj [simp]: "dep_str a = dep_str b \<longleftrightarrow> a = b"
  using dep_from_dep_str by (metis sum.inject(2))

lemma app_str_inj [simp]: "app_str a = app_str b \<longleftrightarrow> a = b"
  using app_from_app_str by (metis sum.inject(2))

lemma encode_chars: "c \<in> set (encode v) \<Longrightarrow> c \<in> set alphabet"
  by (auto simp: encode_digits dest!: digits32_less)

lemma id_chars:
  "c \<in> set (dep_str d) \<Longrightarrow> c \<in> set (''dep_'' @ alphabet)"
  "c \<in> set (app_str a) \<Longrightarrow> c \<in> set (''app_'' @ alphabet)"
  by (auto simp: dep_str_def app_str_def id_as_str_def dest: encode_chars)

text \<open>
  Parsing accepts exactly the printed identifiers, so an identifier is its 128-bit value.
  the printed form of a deployment identifier parses back to it, a string that parses
  prints as itself, and two identifiers with the same characters are equal.
\<close>

theorem deployment_id_roundtrip:
  "(dep_from_str s = Inr d \<longleftrightarrow> s = dep_str d) \<and> (dep_str d = dep_str e \<longleftrightarrow> d = e)"
proof
  show "dep_from_str s = Inr d \<longleftrightarrow> s = dep_str d"
    by (auto simp: dep_from_str_def bind_res_Inr_iff dep_str_def id_from_as_str dest!: id_as_from_str)
  show "dep_str d = dep_str e \<longleftrightarrow> d = e" by simp
qed

section \<open>Ordering\<close>

text \<open>
  The derived \<open>Ord\<close> of an identifier compares the printed strings byte by byte. All bodies have
  the same length and the alphabet is increasing, so this is the order of the 128-bit values.
\<close>

lemma alphabet_mono: "i < j \<Longrightarrow> j < 32 \<Longrightarrow> alphabet ! i < alphabet ! j"
proof -
  have "sorted_wrt (<) alphabet" by code_simp
  then show "i < j \<Longrightarrow> j < 32 \<Longrightarrow> alphabet ! i < alphabet ! j"
    by (simp add: sorted_wrt_iff_nth_less)
qed

lemma alphabet_less_iff: "i < 32 \<Longrightarrow> j < 32 \<Longrightarrow> alphabet ! i < alphabet ! j \<longleftrightarrow> i < j"
  by (metis alphabet_mono less_asym linorder_cases)

lemma value32_shift: "value32 v ds = v * 32 ^ length ds + value32 0 ds"
proof (induction ds arbitrary: v)
  case Nil
  then show ?case by simp
next
  case (Cons d ds)
  show ?case using Cons [of "v * 32 + d"] Cons [of d] by (simp add: algebra_simps)
qed

lemma lex_less_append: "(p @ xs :: 'a::order list) < p @ ys \<longleftrightarrow> xs < ys"
  by (induction p) auto

lemma lex_value32:
  "length ds = length es \<Longrightarrow> \<forall>d \<in> set ds. d < 32 \<Longrightarrow> \<forall>e \<in> set es. e < 32 \<Longrightarrow>
   map (\<lambda>d. alphabet ! d) ds < map (\<lambda>d. alphabet ! d) es \<longleftrightarrow> value32 0 ds < value32 0 es"
proof (induction ds es rule: list_induct2)
  case Nil
  then show ?case by simp
next
  case (Cons d ds e es)
  have lt: "value32 0 ds < 32 ^ length ds" "value32 0 es < 32 ^ length ds"
    using value32_less [of ds 0] value32_less [of es 0] Cons.prems Cons.hyps by simp_all
  have step: "a * 32 ^ length ds + x < b * 32 ^ length ds + y"
    if "a < b" "x < 32 ^ length ds" for a b x y :: nat
  proof -
    from that(1) have "Suc a * 32 ^ length ds \<le> b * 32 ^ length ds"
      by (intro mult_le_mono1) simp
    with that(2) show ?thesis by simp
  qed
  have "alphabet ! d = alphabet ! e \<longleftrightarrow> d = e"
    using Cons.prems distinct_alphabet by (simp add: nth_eq_iff_index_eq)
  with Cons lt step [of d e "value32 0 ds" "value32 0 es"] step [of e d "value32 0 es" "value32 0 ds"]
  show ?case
    by (cases d e rule: linorder_cases)
      (auto simp: alphabet_less_iff value32_shift [of d] value32_shift [of e])
qed

lemma encode_less_iff: "encode v < encode w \<longleftrightarrow> v < w"
  using lex_value32 [of "digits32 26 (unat v)" "digits32 26 (unat w)"]
    digits32_less [of _ 26 "unat v"] digits32_less [of _ 26 "unat w"] unat_bound [of v] unat_bound [of w]
  by (simp add: encode_digits value32_digits32 word_less_nat_alt)

lemma id_as_str_less_iff: "id_as_str p v < id_as_str p w \<longleftrightarrow> v < w"
  by (simp add: id_as_str_def lex_less_append encode_less_iff)

instantiation deployment_id :: linorder
begin

definition less_eq_deployment_id :: "deployment_id \<Rightarrow> deployment_id \<Rightarrow> bool" where
  "less_eq_deployment_id a b = (dep_str a \<le> dep_str b)"

definition less_deployment_id :: "deployment_id \<Rightarrow> deployment_id \<Rightarrow> bool" where
  "less_deployment_id a b = (dep_str a < dep_str b)"

instance
proof
  fix x y z :: deployment_id
  show "x < y \<longleftrightarrow> x \<le> y \<and> \<not> y \<le> x"
    unfolding less_eq_deployment_id_def less_deployment_id_def by (rule less_le_not_le)
  show "x \<le> x" "x \<le> y \<or> y \<le> x"
    by (auto simp: less_eq_deployment_id_def)
  show "x \<le> y \<Longrightarrow> y \<le> z \<Longrightarrow> x \<le> z"
    unfolding less_eq_deployment_id_def by (rule order_trans)
  show "x \<le> y \<Longrightarrow> y \<le> x \<Longrightarrow> x = y"
    unfolding less_eq_deployment_id_def by (metis dep_str_inj order_antisym)
qed

end

lemma dep_less_iff: "a < b \<longleftrightarrow> dep_raw a < dep_raw b"
  by (simp add: less_deployment_id_def dep_str_def id_as_str_less_iff)

section \<open>The generator\<close>

text \<open>
  \<open>IdGenerator\<close>. The clock and the entropy source are traits: a call takes the millisecond the
  clock shows and the ten bytes the entropy source answers with (or its error), which it asks for
  only when the counter cannot simply be increased.
\<close>

record id_generator =
  last_ms :: u64
  last_rand :: u128
  gen_started :: bool

definition id_generator_new :: id_generator where
  "id_generator_new = \<lparr>last_ms = 0, last_rand = 0, gen_started = False\<rparr>"

definition rand_of_bytes :: "u8 list \<Rightarrow> u128" where
  "rand_of_bytes bs = foldl (\<lambda>a x. push_bit 8 a OR ucast x) 0 bs"

definition id_compose :: "u64 \<Rightarrow> u128 \<Rightarrow> u128" where
  "id_compose ms rand = push_bit 80 (ucast ms) OR rand"

definition id_next_raw :: "id_generator \<Rightarrow> u64 \<Rightarrow> 'e + u8 list \<Rightarrow> ('e + u128) \<times> id_generator" where
  "id_next_raw g clock_ms entropy =
     (let now = clock_ms AND ts_mask;
          ms = (if gen_started g then max now (last_ms g) else now)
      in if gen_started g \<and> ms = last_ms g \<and> last_rand g < rand_mask
         then let rand = last_rand g + 1
              in (Inr (id_compose ms rand), g\<lparr>gen_started := True, last_ms := ms, last_rand := rand\<rparr>)
         else let ms' = (if gen_started g \<and> ms = last_ms g then (ms + 1) AND ts_mask else ms)
              in case entropy of
                   Inl e \<Rightarrow> (Inl e, g)
                 | Inr b \<Rightarrow>
                     let rand = rand_of_bytes b
                     in (Inr (id_compose ms' rand),
                         g\<lparr>gen_started := True, last_ms := ms', last_rand := rand\<rparr>))"

definition next_deployment_id ::
    "id_generator \<Rightarrow> u64 \<Rightarrow> 'e + u8 list \<Rightarrow> ('e + deployment_id) \<times> id_generator" where
  "next_deployment_id g clock_ms entropy =
     (case id_next_raw g clock_ms entropy of
        (Inl e, g') \<Rightarrow> (Inl e, g')
      | (Inr v, g') \<Rightarrow> (Inr (DeploymentId v), g'))"

text \<open>What the generator keeps true: the stored halves fit their fields.\<close>

definition id_generator_wf :: "id_generator \<Rightarrow> bool" where
  "id_generator_wf g \<longleftrightarrow> last_ms g \<le> ts_mask \<and> last_rand g \<le> rand_mask"

lemma unat_masks: "unat ts_mask = 2 ^ 48 - 1" "unat rand_mask = 2 ^ 80 - 1"
  by (simp_all add: ts_mask_def rand_mask_def)

lemma and_ts_mask_le: "x AND ts_mask \<le> ts_mask"
  by (simp add: word_and_le1)

lemma rand_of_bytes_bound: "unat (rand_of_bytes bs) < 2 ^ (8 * length bs)" if "length bs \<le> 15"
  using that
proof (induction bs rule: rev_induct)
  case Nil
  then show ?case by (simp add: rand_of_bytes_def)
next
  case (snoc x bs)
  let ?r = "rand_of_bytes bs"
  have r: "unat ?r < 2 ^ (8 * length bs)" using snoc by simp
  have x: "unat (ucast x :: u128) < 2 ^ 8"
    using unat_bound [of x] by (simp add: unsigned_ucast_eq take_bit_nat_eq_self)
  have "unat ?r * 2 ^ 8 < 2 ^ (8 * length bs) * 2 ^ 8" using r by simp
  also have "\<dots> = 2 ^ (8 * length bs + 8)" by (simp only: power_add)
  also have "\<dots> \<le> 2 ^ 128" using snoc.prems by (intro power_increasing) simp_all
  finally have "unat (push_bit 8 ?r OR ucast x :: u128) = unat ?r * 2 ^ 8 + unat (ucast x :: u128)"
    using unat_push_or [of "ucast x :: u128" 8 ?r] x by simp
  moreover have "unat ?r * 2 ^ 8 + unat (ucast x :: u128) < 2 ^ (8 * length bs) * 2 ^ 8"
    using r x by simp
  ultimately show ?case by (simp add: rand_of_bytes_def power_add)
qed

lemma unat_id_compose:
  assumes "ms \<le> ts_mask" and "rand \<le> rand_mask"
  shows "unat (id_compose ms rand) = unat ms * 2 ^ 80 + unat rand"
proof -
  have ms: "unat ms < 2 ^ 48" "unat rand < 2 ^ 80"
    using assms unat_masks by (simp_all add: word_le_nat_alt)
  have c: "unat (ucast ms :: u128) = unat ms"
    using ms by (simp add: unsigned_ucast_eq take_bit_nat_eq_self)
  show ?thesis
    using unat_push_or [of rand 80 "ucast ms :: u128"] ms c by (simp add: id_compose_def)
qed

lemma id_compose_less:
  assumes "a \<le> ts_mask" "r \<le> rand_mask" "b \<le> ts_mask" "s \<le> rand_mask"
    and "a < b \<or> (a = b \<and> r < s)"
  shows "id_compose a r < id_compose b s"
proof -
  have "unat r < 2 ^ 80" using assms(2) unat_masks by (simp add: word_le_nat_alt)
  moreover have "unat a * 2 ^ 80 + 2 ^ 80 \<le> unat b * 2 ^ 80" if "a < b"
  proof -
    from that have "Suc (unat a) * 2 ^ 80 \<le> unat b * 2 ^ 80"
      by (intro mult_le_mono1) (simp add: word_less_nat_alt)
    then show ?thesis by simp
  qed
  ultimately show ?thesis
    using assms by (auto simp: word_less_nat_alt [of "id_compose a r"] unat_id_compose word_less_nat_alt [of r])
qed

text \<open>
  One call: unless the counter and the clock field are both exhausted, the new value lies above
  the last one, and the generator stays well formed.
\<close>

lemma plus_one_le_mask: "x < m \<Longrightarrow> x < x + 1 \<and> x + 1 \<le> m" for x m :: "'a::len word"
proof -
  assume x: "x < m"
  then have "unat x + 1 \<le> unat m" by (simp add: word_less_nat_alt Suc_le_eq)
  also have "\<dots> < 2 ^ LENGTH('a)" by (rule unat_bound)
  finally have "unat x + 1 < 2 ^ LENGTH('a)" .
  then have "unat (x + 1) = unat x + 1" by (simp add: unat_word_ariths)
  with x show ?thesis by (simp add: word_less_nat_alt word_le_nat_alt)
qed

lemma and_ts_mask_id: "x \<le> ts_mask \<Longrightarrow> x AND ts_mask = x"
proof -
  assume "x \<le> ts_mask"
  then have "unat x < 2 ^ 48" using unat_masks by (simp add: word_le_nat_alt)
  have "ts_mask = mask 48" by (simp add: ts_mask_def mask_eq_exp_minus_1)
  then have "x AND ts_mask = take_bit 48 x" by (simp add: take_bit_eq_mask)
  moreover have "unat (take_bit 48 x) = unat x"
    using \<open>unat x < 2 ^ 48\<close> by (simp only: unsigned_take_bit_eq take_bit_nat_eq_self)
  ultimately show ?thesis by (metis word_unat_eq_iff)
qed

lemma rand_of_bytes_le: "length b = 10 \<Longrightarrow> rand_of_bytes b \<le> rand_mask"
  using rand_of_bytes_bound [of b] unat_masks by (simp add: word_le_nat_alt)

lemma id_next_raw_step:
  assumes wf: "id_generator_wf g" and room: "last_ms g < ts_mask"
    and ent: "\<forall>b. entropy = Inr b \<longrightarrow> length b = 10"
    and call: "id_next_raw g c entropy = (Inr v, g')"
  shows "id_generator_wf g' \<and> gen_started g' \<and> v = id_compose (last_ms g') (last_rand g') \<and>
    (gen_started g \<longrightarrow> id_compose (last_ms g) (last_rand g) < v) \<and>
    last_ms g' \<le> max (c AND ts_mask) (last_ms g + 1)"
proof -
  note bounds = wf [unfolded id_generator_wf_def] and_ts_mask_le [of c] plus_one_le_mask [OF room]
  have inc: "last_rand g < rand_mask \<Longrightarrow> last_rand g < last_rand g + 1 \<and> last_rand g + 1 \<le> rand_mask"
    by (rule plus_one_le_mask)
  have keep: "(last_ms g + 1) AND ts_mask = last_ms g + 1"
    using bounds by (intro and_ts_mask_id) simp
  consider (count) "gen_started g" "max (c AND ts_mask) (last_ms g) = last_ms g" "last_rand g < rand_mask"
    | (step) b where "gen_started g" "max (c AND ts_mask) (last_ms g) = last_ms g" "\<not> last_rand g < rand_mask"
        "entropy = Inr b"
    | (later) b where "gen_started g" "last_ms g < c AND ts_mask" "entropy = Inr b"
    | (first) b where "\<not> gen_started g" "entropy = Inr b"
    using call by (cases entropy) (auto simp: id_next_raw_def Let_def max_def split: if_splits)
  then show ?thesis
  proof cases
    case count
    with call bounds inc show ?thesis
      by (auto simp: id_next_raw_def Let_def id_generator_wf_def le_max_iff_disj intro!: id_compose_less)
  next
    case step
    with call bounds keep rand_of_bytes_le [of b] ent show ?thesis
      by (auto simp: id_next_raw_def Let_def id_generator_wf_def intro!: id_compose_less)
  next
    case later
    then have "max (c AND ts_mask) (last_ms g) = c AND ts_mask" "c AND ts_mask \<noteq> last_ms g" by auto
    with later call bounds rand_of_bytes_le [of b] ent show ?thesis
      by (auto simp: id_next_raw_def Let_def id_generator_wf_def intro!: id_compose_less)
  next
    case first
    with call bounds rand_of_bytes_le [of b] ent show ?thesis
      by (auto simp: id_next_raw_def Let_def id_generator_wf_def)
  qed
qed

text \<open>All identifiers a generator hands out over a sequence of calls, failed calls left out.\<close>

fun generate :: "id_generator \<Rightarrow> (u64 \<times> ('e + u8 list)) list \<Rightarrow> deployment_id list" where
  "generate g [] = []"
| "generate g ((c, entropy) # calls) =
     (case next_deployment_id g c entropy of
        (Inl e, g') \<Rightarrow> generate g' calls
      | (Inr d, g') \<Rightarrow> d # generate g' calls)"

lemma id_next_raw_error: "id_next_raw g c entropy = (Inl e, g') \<Longrightarrow> g' = g"
  by (auto simp: id_next_raw_def Let_def split: if_splits sum.splits)

lemma generate_above:
  assumes "id_generator_wf g" and "\<forall>(c, entropy) \<in> set calls. \<forall>b. entropy = Inr b \<longrightarrow> length b = 10"
    and "unat (last_ms g) \<le> m" and "\<forall>(c, entropy) \<in> set calls. unat (c AND ts_mask) \<le> m"
    and "m + length calls < 2 ^ 48"
  shows "sorted_wrt (<) (generate g calls) \<and>
    (gen_started g \<longrightarrow> (\<forall>d \<in> set (generate g calls). id_compose (last_ms g) (last_rand g) < dep_raw d))"
  using assms
proof (induction calls arbitrary: g m)
  case Nil
  then show ?case by simp
next
  case (Cons p calls)
  obtain c entropy where p: "p = (c, entropy)" by (cases p)
  obtain r g' where call: "id_next_raw g c entropy = (r, g')" by (cases "id_next_raw g c entropy")
  have more: "\<forall>(c, entropy) \<in> set calls. \<forall>b. entropy = Inr b \<longrightarrow> length b = 10"
    using Cons.prems(2) by simp
  show ?case
  proof (cases r)
    case (Inl e)
    with call have "g' = g" by (auto dest: id_next_raw_error)
    with Cons.IH [of g m] Cons.prems call Inl p show ?thesis
      by (auto simp: next_deployment_id_def)
  next
    case (Inr v)
    have "last_ms g < ts_mask"
      using Cons.prems(3,5) unat_masks by (simp add: word_less_nat_alt)
    with Cons.prems(1,2) call Inr p have step:
      "id_generator_wf g'" "gen_started g'" "v = id_compose (last_ms g') (last_rand g')"
      "gen_started g \<longrightarrow> id_compose (last_ms g) (last_rand g) < v"
      "last_ms g' \<le> max (c AND ts_mask) (last_ms g + 1)"
      using id_next_raw_step [of g entropy c v g'] by auto
    have "unat (last_ms g + 1) \<le> unat (last_ms g) + 1" by (simp add: unat_word_ariths)
    then have "unat (last_ms g') \<le> m + 1"
      using step(5) Cons.prems(3,4) p by (auto simp: word_le_nat_alt le_max_iff_disj)
    moreover have "\<forall>(c, entropy) \<in> set calls. unat (c AND ts_mask) \<le> m + 1"
      using Cons.prems(4) by fastforce
    ultimately have "sorted_wrt (<) (generate g' calls) \<and> (\<forall>d \<in> set (generate g' calls). v < dep_raw d)"
      using Cons.IH [of g' "m + 1"] step Cons.prems(5) more by simp
    with call Inr step(4) p show ?thesis
      by (auto simp: next_deployment_id_def dep_less_iff [of "DeploymentId v"])
  qed
qed

text \<open>
  Identifiers sort in creation order.
  Whatever the clock shows, backwards steps included, the identifiers of one generator
  are strictly increasing as printed strings, as long as the 48-bit millisecond field has room for
  one step per call.
\<close>

theorem generated_ids_sorted:
  assumes "\<forall>(c, entropy) \<in> set calls. (\<forall>b. entropy = Inr b \<longrightarrow> length b = 10) \<and> unat (c AND ts_mask) \<le> m"
    and "m + length calls < 2 ^ 48"
  shows "sorted_wrt (<) (map dep_str (generate id_generator_new calls))"
proof -
  have "id_generator_wf id_generator_new" by (simp add: id_generator_wf_def id_generator_new_def)
  then have "sorted_wrt (<) (generate id_generator_new calls)"
    using generate_above [of id_generator_new calls m] assms
    by (fastforce simp: id_generator_new_def)
  then show ?thesis by (simp add: sorted_wrt_map less_deployment_id_def [abs_def])
qed

theorem generated_ids_sorted_witness:
  "sorted_wrt (<) (map dep_str (generate id_generator_new
     [(1000, Inr (replicate 10 255)), (1000, Inr (replicate 10 7) :: unit + u8 list), (20, Inl ())]))"
proof (rule generated_ids_sorted [of _ 1000])
  show "\<forall>(c, entropy) \<in> set [(1000, Inr (replicate 10 255)), (1000, Inr (replicate 10 7) :: unit + u8 list), (20, Inl ())].
    (\<forall>b. entropy = Inr b \<longrightarrow> length b = 10) \<and> unat (c AND ts_mask) \<le> 1000"
    by (simp add: ts_mask_def)
qed simp

section \<open>Docker labels\<close>

definition label_managed :: string where "label_managed = ''io.harpoon.managed''"
definition label_app :: string where "label_app = ''io.harpoon.app''"
definition label_deployment :: string where "label_deployment = ''io.harpoon.deployment''"

definition labels_for_deployment :: "application_id \<Rightarrow> deployment_id \<Rightarrow> (string \<times> string) list" where
  "labels_for_deployment app dep =
     [(label_managed, ''true''), (label_app, app_str app), (label_deployment, dep_str dep)]"

end
