(* ===== verification/AppQueue.thy ===== *)
theory AppQueue
  imports Ids "HOL-Library.Multiset"
begin

text \<open>
  The per-application queue (\<open>deploy/src/queue.rs\<close>): one deployment runs, at most one waits, and
  a newer waiting request replaces an older one. The contract a caller may rely on is the locale
  \<open>serial_queue\<close>; the queue of the code interprets it.
\<close>

section \<open>The queue of the code\<close>

record app_queue =
  q_running :: "deployment_id option"
  q_queued :: "deployment_id option"

record enqueued =
  start_now :: bool
  superseded :: "deployment_id option"

definition queue_new :: app_queue where
  "queue_new = \<lparr>q_running = None, q_queued = None\<rparr>"

definition enqueue :: "app_queue \<Rightarrow> deployment_id \<Rightarrow> enqueued \<times> app_queue" where
  "enqueue q i =
     (if q_running q = None
      then (\<lparr>start_now = True, superseded = None\<rparr>, q\<lparr>q_running := Some i\<rparr>)
      else (\<lparr>start_now = False, superseded = q_queued q\<rparr>, q\<lparr>q_queued := Some i\<rparr>))"

definition finish_queue :: "app_queue \<Rightarrow> deployment_id \<Rightarrow> deployment_id option \<times> app_queue" where
  "finish_queue q i =
     (if q_running q \<noteq> Some i then (None, q)
      else (q_queued q, q\<lparr>q_running := q_queued q, q_queued := None\<rparr>))"

definition cancel_queued :: "app_queue \<Rightarrow> deployment_id \<Rightarrow> bool \<times> app_queue" where
  "cancel_queued q i = (if q_queued q = Some i then (True, q\<lparr>q_queued := None\<rparr>) else (False, q))"

section \<open>The contract\<close>

text \<open>
  A serial queue answers requests: \<open>step\<close> gives the requests that may start now, the requests that
  are dropped, and the next state. What a client relies on: requests are neither lost nor made
  up, and only the end of the running request replaces it.
\<close>

datatype queue_op = Enqueue deployment_id | Finish deployment_id | Cancel deployment_id

fun requests :: "queue_op list \<Rightarrow> deployment_id multiset" where
  "requests [] = {#}"
| "requests (Enqueue i # ops) = {#i#} + requests ops"
| "requests (op # ops) = requests ops"

locale serial_queue =
  fixes init :: 's
    and step :: "'s \<Rightarrow> queue_op \<Rightarrow> deployment_id list \<times> deployment_id list \<times> 's"
    and current :: "'s \<Rightarrow> deployment_id option"
    and waiting :: "'s \<Rightarrow> deployment_id multiset"
    and inv :: "'s \<Rightarrow> bool"
  assumes inv_init: "inv init" and waiting_init: "waiting init = {#}" and current_init: "current init = None"
    and inv_step: "inv s \<Longrightarrow> step s op = (st, dr, s') \<Longrightarrow> inv s'"
    and conserve: "inv s \<Longrightarrow> step s op = (st, dr, s') \<Longrightarrow>
      waiting s + requests [op] = mset st + mset dr + waiting s'"
    and keep_current: "inv s \<Longrightarrow> step s op = (st, dr, s') \<Longrightarrow> current s = Some r \<Longrightarrow> op \<noteq> Finish r \<Longrightarrow>
      current s' = Some r \<and> st = []"
    and start_current: "inv s \<Longrightarrow> step s op = (st, dr, s') \<Longrightarrow> st \<noteq> [] \<Longrightarrow> \<exists>i. st = [i] \<and> current s' = Some i"
begin

fun run :: "'s \<Rightarrow> queue_op list \<Rightarrow> deployment_id list \<times> deployment_id list \<times> 's" where
  "run s [] = ([], [], s)"
| "run s (op # ops) =
     (case step s op of (st, dr, s') \<Rightarrow>
        case run s' ops of (sts, drs, s'') \<Rightarrow> (st @ sts, dr @ drs, s''))"

lemma run_conserve:
  "inv s \<Longrightarrow> run s ops = (sts, drs, s') \<Longrightarrow>
   inv s' \<and> waiting s + requests ops = mset sts + mset drs + waiting s'"
proof (induction ops arbitrary: s sts drs)
  case Nil
  then show ?case by simp
next
  case (Cons op ops)
  obtain st dr t where step: "step s op = (st, dr, t)" by (cases "step s op") auto
  obtain sts' drs' where run: "run t ops = (sts', drs', s')" "sts = st @ sts'" "drs = dr @ drs'"
    using Cons.prems(2) step by (auto split: prod.splits)
  have "waiting t + requests ops = mset sts' + mset drs' + waiting s'" and "inv s'"
    using Cons.IH [OF inv_step [OF Cons.prems(1) step] run(1)] by auto
  moreover have "requests (op # ops) = requests [op] + requests ops" by (cases op) auto
  moreover note conserve [OF Cons.prems(1) step]
  ultimately show ?case using run(2,3)
    by (metis (no_types, lifting) add.assoc add.commute mset_append)
qed

lemma run_init: "run init ops = (sts, drs, s') \<Longrightarrow> requests ops = mset sts + mset drs + waiting s'"
  using run_conserve [OF inv_init] waiting_init by fastforce

end

section \<open>The code keeps the contract\<close>

text \<open>One operation on the queue: what its caller may start, and what it must record as dropped.\<close>

definition queue_step :: "app_queue \<Rightarrow> queue_op \<Rightarrow> deployment_id list \<times> deployment_id list \<times> app_queue" where
  "queue_step q op =
     (case op of
        Enqueue i \<Rightarrow>
          (case enqueue q i of (e, q') \<Rightarrow>
             (if start_now e then [i] else [], case superseded e of None \<Rightarrow> [] | Some j \<Rightarrow> [j], q'))
      | Finish i \<Rightarrow>
          (case finish_queue q i of (n, q') \<Rightarrow> (case n of None \<Rightarrow> [] | Some j \<Rightarrow> [j], [], q'))
      | Cancel i \<Rightarrow>
          (case cancel_queued q i of (ok, q') \<Rightarrow> ([], if ok then [i] else [], q')))"

definition queue_waiting :: "app_queue \<Rightarrow> deployment_id multiset" where
  "queue_waiting q = (case q_queued q of None \<Rightarrow> {#} | Some i \<Rightarrow> {#i#})"

definition queue_inv :: "app_queue \<Rightarrow> bool" where
  "queue_inv q \<longleftrightarrow> (q_running q = None \<longrightarrow> q_queued q = None)"

lemmas queue_defs = queue_step_def enqueue_def finish_queue_def cancel_queued_def
  queue_waiting_def queue_inv_def queue_new_def

interpretation aq: serial_queue queue_new queue_step q_running queue_waiting queue_inv
proof unfold_locales
  show "queue_inv queue_new" "queue_waiting queue_new = {#}" "q_running queue_new = None"
    by (simp_all add: queue_defs)
next
  fix s op st dr s'
  assume "queue_inv s" "queue_step s op = (st, dr, s')"
  then show "queue_inv s'"
    by (cases op) (auto simp: queue_defs split: if_splits option.splits)
next
  fix s op st dr s'
  assume "queue_inv s" "queue_step s op = (st, dr, s')"
  then show "queue_waiting s + requests [op] = mset st + mset dr + queue_waiting s'"
    by (cases op) (auto simp: queue_defs split: if_splits option.splits)
next
  fix s op st dr s' r
  assume "queue_inv s" "queue_step s op = (st, dr, s')" "q_running s = Some r" "op \<noteq> Finish r"
  then show "q_running s' = Some r \<and> st = []"
    by (cases op) (auto simp: queue_defs split: if_splits option.splits)
next
  fix s op st dr s'
  assume "queue_inv s" "queue_step s op = (st, dr, s')" "st \<noteq> []"
  then show "\<exists>i. st = [i] \<and> q_running s' = Some i"
    by (cases op) (auto simp: queue_defs split: if_splits option.splits)
qed

text \<open>The queue driven by a list of operations: started, dropped, and the final state.\<close>

fun queue_run :: "app_queue \<Rightarrow> queue_op list \<Rightarrow> deployment_id list \<times> deployment_id list \<times> app_queue" where
  "queue_run q [] = ([], [], q)"
| "queue_run q (op # ops) =
     (case queue_step q op of (st, dr, q') \<Rightarrow>
        case queue_run q' ops of (sts, drs, q'') \<Rightarrow> (st @ sts, dr @ drs, q''))"

lemma queue_run_eq: "queue_run q ops = aq.run q ops"
  by (induction ops arbitrary: q) (auto split: prod.splits)

text \<open>
  No request is lost and none is started twice.
  after any sequence of operations on a new queue, the requests made are exactly the
  ones started, the ones reported as superseded or cancelled, and the one still waiting.
\<close>

theorem queue_conserves_requests:
  "case queue_run queue_new ops of (sts, drs, q) \<Rightarrow>
     requests ops = mset sts + mset drs + queue_waiting q"
  by (cases "queue_run queue_new ops") (simp add: queue_run_eq aq.run_init)

text \<open>
  The queue never interrupts the running deployment and hands over only to the newest request.
  While \<open>r\<close> runs, no operation other than the end of \<open>r\<close> changes the running
  deployment or starts another one; and when \<open>r\<close> ends, the request that starts is the newest
  waiting one, of which there is at most one.
\<close>

theorem queue_running_undisturbed:
  assumes "queue_run queue_new ops = (sts, drs, q)" and "q_running q = Some r"
  shows "(\<forall>op. op \<noteq> Finish r \<longrightarrow> (case queue_step q op of (st, dr, q') \<Rightarrow> q_running q' = Some r \<and> st = [])) \<and>
    finish_queue (snd (enqueue q i)) r = (Some i, \<lparr>q_running = Some i, q_queued = None\<rparr>)"
proof -
  have "queue_inv q"
    using assms(1) aq.run_conserve [OF aq.inv_init] by (auto simp: queue_run_eq)
  then show ?thesis
    using aq.keep_current [of q] assms(2)
    by (auto simp: enqueue_def finish_queue_def split: prod.splits)
qed

theorem queue_running_undisturbed_witness:
  "finish_queue (snd (enqueue (\<lparr>q_running = Some (DeploymentId 1), q_queued = Some (DeploymentId 2)\<rparr>) (DeploymentId 3)))
     (DeploymentId 1) = (Some (DeploymentId 3), \<lparr>q_running = Some (DeploymentId 3), q_queued = None\<rparr>)"
  using queue_running_undisturbed [of "[Enqueue (DeploymentId 1), Enqueue (DeploymentId 2)]"
      "[DeploymentId 1]" "[]" "\<lparr>q_running = Some (DeploymentId 1), q_queued = Some (DeploymentId 2)\<rparr>"
      "DeploymentId 1" "DeploymentId 3"]
  by (simp add: queue_defs)

end
