(* ===== verification/Health.thy ===== *)
theory Health
  imports Prelude
begin

text \<open>
  Health checks (\<open>deploy/src/health.rs\<close>): what a check must show, the evidence it returns, the
  validation that re-derives the verdict from the observations, and the polling loop.
\<close>

section \<open>Data\<close>

datatype status_class = Success2xx | NotServerError

fun accepts :: "status_class \<Rightarrow> u16 \<Rightarrow> bool" where
  "accepts Success2xx status = (200 \<le> status \<and> status < 300)"
| "accepts NotServerError status = (status < 500)"

record health_spec =
  hs_path :: string
  hs_expect :: status_class
  interval_ms :: u64
  consecutive_ok :: u8
  startup_deadline_ms :: u64

definition health_spec_first_test :: "string \<Rightarrow> health_spec" where
  "health_spec_first_test path =
     \<lparr>hs_path = path, hs_expect = Success2xx, interval_ms = 500, consecutive_ok = 2,
      startup_deadline_ms = 60000\<rparr>"

datatype observation = Status u16 | ConnectFailed string | ContainerExited "32 word option"

record attempt =
  at_at_ms :: u64
  at_observation :: observation
  container_running :: bool

datatype verdict = Healthy | NotHealthy | Exited

record check_evidence =
  ev_target :: string
  ev_expected :: string
  ev_expect :: status_class
  ev_simulated :: bool
  ev_attempts :: "attempt list"
  consecutive_required :: u8
  consecutive_reached :: u8
  ev_elapsed_ms :: u64
  ev_verdict :: verdict
  ev_scope_note :: string

text \<open>The scope note, with its dash in UTF-8.\<close>

definition scope_note :: string where
  "scope_note = ''local container only '' @ [CHR 0xE2, CHR 0x80, CHR 0x94]
     @ '' not a guarantee of behaviour on Vercel or any other environment''"

definition attribution_marker :: string where "attribution_marker = ''marker-verified''"
definition attribution_path :: string where "attribution_path = ''path-verified''"

text \<open>\<open>Debug\<close> of the two enumerations, and the \<open>Display\<close> of an \<open>i32\<close>.\<close>

fun debug_status_class :: "status_class \<Rightarrow> string" where
  "debug_status_class Success2xx = ''Success2xx''"
| "debug_status_class NotServerError = ''NotServerError''"

fun debug_verdict :: "verdict \<Rightarrow> string" where
  "debug_verdict Healthy = ''Healthy''"
| "debug_verdict NotHealthy = ''NotHealthy''"
| "debug_verdict Exited = ''Exited''"

definition show_i32 :: "32 word \<Rightarrow> string" where
  "show_i32 x = (let i = sint x in if i < 0 then ''-'' @ show_nat (nat (- i)) else show_nat (nat i))"

section \<open>Validating evidence\<close>

definition accepted :: "status_class \<Rightarrow> attempt \<Rightarrow> bool" where
  "accepted expect a \<longleftrightarrow>
     container_running a \<and> (case at_observation a of Status s \<Rightarrow> accepts expect s | _ \<Rightarrow> False)"

text \<open>The trailing accepted observations made while the container was running.\<close>

definition trailing :: "status_class \<Rightarrow> attempt list \<Rightarrow> nat" where
  "trailing expect obs = length (takeWhile (accepted expect) (rev obs))"

definition validate :: "check_evidence \<Rightarrow> string + unit" where
  "validate ev =
     (if ev_verdict ev \<noteq> Healthy then Inl (''verdict is '' @ debug_verdict (ev_verdict ev))
      else if consecutive_required ev = 0
        then Inl ''no positive consecutive-success threshold configured''
      else if ev_attempts ev = [] then Inl ''no health observation was made''
      else
        let run = trailing (ev_expect ev) (ev_attempts ev)
        in if run < unat (consecutive_required ev)
           then Inl (''observations show '' @ show_nat run @ '' trailing successes while running, ''
                     @ show_word (consecutive_required ev) @ '' required'')
           else if unat (consecutive_reached ev) \<noteq> min run 255
           then Inl (''claims '' @ show_word (consecutive_reached ev)
                     @ '' consecutive successes but observations show '' @ show_nat run)
           else Inr ())"

definition is_healthy :: "check_evidence \<Rightarrow> bool" where
  "is_healthy ev = is_ok (validate ev)"

definition with_attribution :: "check_evidence \<Rightarrow> string \<Rightarrow> check_evidence" where
  "with_attribution ev label = ev\<lparr>ev_expected := ev_expected ev @ '' ['' @ label @ '']''\<rparr>"

definition ends_with :: "string \<Rightarrow> string \<Rightarrow> bool" where
  "ends_with s t \<longleftrightarrow> length t \<le> length s \<and> drop (length s - length t) s = t"

definition attribution :: "check_evidence \<Rightarrow> string option" where
  "attribution ev =
     (if \<not> is_healthy ev then None
      else List.find (\<lambda>l. ends_with (ev_expected ev) (''['' @ l @ '']''))
             [attribution_marker, attribution_path])"

definition last_observation :: "check_evidence \<Rightarrow> observation option" where
  "last_observation ev =
     (if ev_attempts ev = [] then None else Some (at_observation (last (ev_attempts ev))))"

definition evidence_summary :: "check_evidence \<Rightarrow> string" where
  "evidence_summary ev =
     (let last = (case last_observation ev of
          Some (Status s) \<Rightarrow> ''last response HTTP '' @ show_word s
        | Some (ConnectFailed e) \<Rightarrow> ''last attempt: '' @ e
        | Some (ContainerExited c) \<Rightarrow>
            ''container exited'' @ (case c of None \<Rightarrow> [] | Some c \<Rightarrow> '' with code '' @ show_i32 c)
        | None \<Rightarrow> ''no attempt completed'')
      in show_nat (length (ev_attempts ev)) @ '' attempts, '' @ show_word (consecutive_reached ev)
         @ ''/'' @ show_word (consecutive_required ev) @ '' consecutive successes over ''
         @ show_word (ev_elapsed_ms ev) @ '' ms; '' @ last)"

definition summary_with_attribution :: "check_evidence \<Rightarrow> string" where
  "summary_with_attribution ev =
     (case attribution ev of
        Some label \<Rightarrow> evidence_summary ev @ ''; attribution: '' @ label
      | None \<Rightarrow> evidence_summary ev)"

definition not_probed :: "string \<Rightarrow> check_evidence" where
  "not_probed target =
     \<lparr>ev_target = target, ev_expected = ''no probe configured'', ev_expect = Success2xx,
      ev_simulated = False, ev_attempts = [], consecutive_required = 0, consecutive_reached = 0,
      ev_elapsed_ms = 0, ev_verdict = NotHealthy, ev_scope_note = scope_note\<rparr>"

definition simulated_passing :: "string \<Rightarrow> health_spec \<Rightarrow> check_evidence" where
  "simulated_passing target spec =
     (let n = max (consecutive_ok spec) 1
      in \<lparr>ev_target = target,
          ev_expected = ''HTTP '' @ debug_status_class (hs_expect spec) @ '', '' @ show_word n
            @ '' consecutive (simulated)'',
          ev_expect = hs_expect spec, ev_simulated = True,
          ev_attempts = map (\<lambda>i. \<lparr>at_at_ms = of_nat i * interval_ms spec, at_observation = Status 200,
                                  container_running = True\<rparr>) [0 ..< unat n],
          consecutive_required = n, consecutive_reached = n,
          ev_elapsed_ms = ucast (n - 1) * interval_ms spec,
          ev_verdict = Healthy, ev_scope_note = scope_note\<rparr>)"

subsection \<open>What validation means\<close>

lemma validate_ok_iff:
  "is_healthy ev \<longleftrightarrow>
     ev_verdict ev = Healthy \<and> 0 < unat (consecutive_required ev) \<and>
     unat (consecutive_required ev) \<le> trailing (ev_expect ev) (ev_attempts ev) \<and>
     unat (consecutive_reached ev) = min (trailing (ev_expect ev) (ev_attempts ev)) 255"
proof -
  have "consecutive_required ev = 0 \<longleftrightarrow> unat (consecutive_required ev) = 0"
    by (simp add: unat_eq_zero)
  moreover have "ev_attempts ev = [] \<Longrightarrow> trailing (ev_expect ev) (ev_attempts ev) = 0"
    by (simp add: trailing_def)
  ultimately show ?thesis
    by (auto simp: is_healthy_def validate_def Let_def)
qed

lemma trailing_Nil [simp]: "trailing e [] = 0"
  by (simp add: trailing_def)

lemma trailing_snoc [simp]:
  "trailing e (obs @ [a]) = (if accepted e a then Suc (trailing e obs) else 0)"
  by (simp add: trailing_def)

lemma trailing_le_length: "trailing e obs \<le> length obs"
  by (metis length_rev length_takeWhile_le trailing_def)

lemma take_takeWhile:
  assumes "n \<le> length (takeWhile P ys)" and "a \<in> set (take n ys)"
  shows "P a"
proof -
  from assms(2) obtain i where i: "i < n" "i < length ys" "a = ys ! i"
    by (auto simp: in_set_conv_nth)
  have len: "i < length (takeWhile P ys)" using i(1) assms(1) by (rule order_less_le_trans)
  then have "takeWhile P ys ! i \<in> set (takeWhile P ys)" by (rule nth_mem)
  moreover have "takeWhile P ys ! i = a" using len i(3) by (simp add: takeWhile_nth)
  ultimately show ?thesis by (auto dest: set_takeWhileD)
qed

lemma trailing_suffix:
  assumes "n \<le> trailing e obs" and "a \<in> set (drop (length obs - n) obs)"
  shows "accepted e a"
proof (rule take_takeWhile [where P = "accepted e" and n = n and ys = "rev obs"])
  show "n \<le> length (takeWhile (accepted e) (rev obs))" using assms(1) by (simp add: trailing_def)
  have "drop (length obs - n) obs = rev (take n (rev obs))" by (simp only: rev_take rev_rev_ident length_rev)
  then show "a \<in> set (take n (rev obs))" using assms(2) by simp
qed

lemma accepted_iff:
  "accepted e a \<longleftrightarrow> container_running a \<and> (\<exists>s. at_observation a = Status s \<and> accepts e s)"
  by (auto simp: accepted_def split: observation.splits)

text \<open>
  A verdict alone establishes nothing.
  evidence that counts as healthy ends with at least as many observations as required,
  and at least one, each an accepted status seen while the container was running.
\<close>

theorem healthy_means_observed:
  assumes "is_healthy ev"
  shows "let n = unat (consecutive_required ev); tail = drop (length (ev_attempts ev) - n) (ev_attempts ev)
    in 0 < n \<and> length tail = n \<and> (\<forall>a \<in> set tail. container_running a \<and>
         (\<exists>s. at_observation a = Status s \<and> accepts (ev_expect ev) s))"
proof -
  let ?n = "unat (consecutive_required ev)"
  have n: "0 < ?n" "?n \<le> trailing (ev_expect ev) (ev_attempts ev)"
    using assms by (simp_all add: validate_ok_iff)
  then have "\<forall>a \<in> set (drop (length (ev_attempts ev) - ?n) (ev_attempts ev)). accepted (ev_expect ev) a"
    by (blast intro: trailing_suffix)
  moreover have "?n \<le> length (ev_attempts ev)"
    using n(2) trailing_le_length [of "ev_expect ev" "ev_attempts ev"] by simp
  ultimately show ?thesis
    using n(1) by (simp add: accepted_iff)
qed

lemma trailing_map_const:
  "(\<And>x. x \<in> set xs \<Longrightarrow> accepted e (f x)) \<Longrightarrow> trailing e (map f xs) = length xs"
  by (induction xs rule: rev_induct) auto

lemma simulated_passing_healthy: "is_healthy (simulated_passing t spec)"
proof -
  let ?n = "max (consecutive_ok spec) 1"
  have acc: "accepted (hs_expect spec) \<lparr>at_at_ms = m, at_observation = Status 200, container_running = True\<rparr>" for m
    by (cases "hs_expect spec") (simp_all add: accepted_def)
  have "1 \<le> ?n" by simp
  then have "0 < unat ?n" by (simp add: word_le_nat_alt)
  moreover have "unat ?n \<le> 255" using unat_bound [of ?n] by simp
  ultimately show ?thesis
    using acc by (simp add: validate_ok_iff simulated_passing_def Let_def trailing_map_const)
qed

theorem healthy_means_observed_witness:
  "let ev = simulated_passing ''x'' (health_spec_first_test ''/'') in
   \<forall>a \<in> set (drop (length (ev_attempts ev) - 2) (ev_attempts ev)). container_running a"
  using healthy_means_observed [OF simulated_passing_healthy, of "''x''" "health_spec_first_test ''/''"]
  by (simp add: Let_def simulated_passing_def health_spec_first_test_def)

section \<open>The polling loop\<close>

text \<open>
  The loop is given a probe, a clock and a waiter (three traits). Each is a function of a world:
  an attempt at a given time, the millisecond the clock shows (reading it may let time pass), and
  a wait. The loop need not end, so it is a partial function: \<open>None\<close> is a poll that never returns.
\<close>

record 'w health_env =
  he_probe :: "u64 \<Rightarrow> 'w \<Rightarrow> attempt \<times> 'w"
  he_now :: "'w \<Rightarrow> u64 \<times> 'w"
  he_wait :: "u64 \<Rightarrow> 'w \<Rightarrow> 'w"

record health_out =
  ho_verdict :: verdict
  ho_attempts :: "attempt list"
  ho_run :: u8
  ho_best :: u8

definition attempt_exited :: "attempt \<Rightarrow> bool" where
  "attempt_exited a \<longleftrightarrow>
     (case at_observation a of ContainerExited _ \<Rightarrow> True | _ \<Rightarrow> False) \<or> \<not> container_running a"

partial_function (option) health_loop ::
    "'w health_env \<Rightarrow> health_spec \<Rightarrow> u64 \<Rightarrow> attempt list \<Rightarrow> u8 \<Rightarrow> u8 \<Rightarrow> 'w \<Rightarrow> (health_out \<times> 'w) option" where
  "health_loop env spec start attempts run best w =
     (let (now, w1) = he_now env w;
          (a, w2) = he_probe env now w1;
          ok = accepted (hs_expect spec) a;
          attempts' = attempts @ [a]
      in if attempt_exited a
         then Some (\<lparr>ho_verdict = Exited, ho_attempts = attempts', ho_run = run, ho_best = best\<rparr>, w2)
         else
           let run' = (if ok then sat_add run 1 else 0);
               best' = max best run'
           in if 0 < consecutive_ok spec \<and> consecutive_ok spec \<le> run'
              then Some (\<lparr>ho_verdict = Healthy, ho_attempts = attempts', ho_run = run', ho_best = best'\<rparr>, w2)
              else
                let (now', w3) = he_now env w2
                in if startup_deadline_ms spec < sat_sub now' start + interval_ms spec
                   then Some (\<lparr>ho_verdict = NotHealthy, ho_attempts = attempts', ho_run = run',
                               ho_best = best'\<rparr>, w3)
                   else health_loop env spec start attempts' run' best' (he_wait env (interval_ms spec) w3))"

definition run_health ::
    "'w health_env \<Rightarrow> health_spec \<Rightarrow> string \<Rightarrow> 'w \<Rightarrow> (check_evidence \<times> 'w) option" where
  "run_health env spec target w =
     (let (start, w1) = he_now env w
      in case health_loop env spec start [] 0 0 w1 of
           None \<Rightarrow> None
         | Some (r, w2) \<Rightarrow>
             let (now, w3) = he_now env w2
             in Some
               (\<lparr>ev_target = target,
                 ev_expected = ''HTTP '' @ debug_status_class (hs_expect spec) @ '', ''
                   @ show_word (consecutive_ok spec) @ '' consecutive'',
                 ev_expect = hs_expect spec, ev_simulated = False, ev_attempts = ho_attempts r,
                 consecutive_required = consecutive_ok spec,
                 consecutive_reached = (if ho_verdict r = Healthy then ho_run r else ho_best r),
                 ev_elapsed_ms = sat_sub now start, ev_verdict = ho_verdict r,
                 ev_scope_note = scope_note\<rparr>, w3))"

subsection \<open>The verdict is backed by the observations\<close>

text \<open>
  The loop invariant: the counter is the trailing run of accepted observations, still below what
  is required, and nothing seen so far said that the container had exited.
\<close>

definition loop_inv :: "health_spec \<Rightarrow> attempt list \<Rightarrow> u8 \<Rightarrow> bool" where
  "loop_inv spec attempts run \<longleftrightarrow>
     unat run = min (trailing (hs_expect spec) attempts) 255 \<and>
     (0 < consecutive_ok spec \<longrightarrow> trailing (hs_expect spec) attempts < unat (consecutive_ok spec)) \<and>
     (\<forall>a \<in> set attempts. \<not> attempt_exited a)"

definition loop_post :: "health_spec \<Rightarrow> health_out \<Rightarrow> bool" where
  "loop_post spec r \<longleftrightarrow>
     ho_attempts r \<noteq> [] \<and> (\<forall>a \<in> set (butlast (ho_attempts r)). \<not> attempt_exited a) \<and>
     (ho_verdict r = Exited \<longleftrightarrow> attempt_exited (last (ho_attempts r))) \<and>
     (ho_verdict r = Healthy \<longrightarrow>
        0 < unat (consecutive_ok spec) \<and>
        trailing (hs_expect spec) (ho_attempts r) = unat (consecutive_ok spec) \<and>
        ho_run r = consecutive_ok spec) \<and>
     (ho_verdict r = NotHealthy \<longrightarrow>
        0 < unat (consecutive_ok spec) \<longrightarrow>
        trailing (hs_expect spec) (ho_attempts r) < unat (consecutive_ok spec))"

lemma accepted_not_exited: "accepted e a \<Longrightarrow> \<not> attempt_exited a"
  by (auto simp: accepted_iff attempt_exited_def)

lemma u8_le_255: "unat (x :: u8) \<le> 255"
  using unat_bound [of x] by simp

lemma unat_sat_add_one: "unat (sat_add x 1) = min (Suc (unat x)) 255" for x :: u8
  by (simp add: unat_sat_add)

lemma loop_inv_step:
  assumes "loop_inv spec attempts run" and "\<not> attempt_exited a"
    and "run' = (if accepted (hs_expect spec) a then sat_add run 1 else 0)"
    and "\<not> (0 < consecutive_ok spec \<and> consecutive_ok spec \<le> run')"
  shows "loop_inv spec (attempts @ [a]) run'"
  using assms u8_le_255 [of "consecutive_ok spec"]
  by (auto simp: loop_inv_def unat_sat_add_one word_le_nat_alt word_less_nat_alt not_le min_def split: if_splits)

lemma loop_inv_healthy:
  assumes "loop_inv spec attempts run"
    and "run' = (if accepted (hs_expect spec) a then sat_add run 1 else 0)"
    and "0 < consecutive_ok spec" and "consecutive_ok spec \<le> run'"
  shows "accepted (hs_expect spec) a \<and> run' = consecutive_ok spec \<and>
    trailing (hs_expect spec) (attempts @ [a]) = unat (consecutive_ok spec)"
proof -
  have acc: "accepted (hs_expect spec) a"
    using assms(2-4) by (auto split: if_splits)
  have "unat run' = unat (consecutive_ok spec)" "Suc (trailing (hs_expect spec) attempts) = unat (consecutive_ok spec)"
    using assms acc u8_le_255 [of "consecutive_ok spec"]
    by (auto simp: loop_inv_def unat_sat_add_one word_le_nat_alt min_def split: if_splits)
  with acc show ?thesis by (simp add: word_unat_eq_iff)
qed

lemma health_loop_post:
  assumes ret: "health_loop env spec start attempts run best w = Some (r, w')"
    and inv: "loop_inv spec attempts run"
  shows "loop_post spec r"
proof -
  have "loop_inv spec attempts run \<longrightarrow> loop_post spec (fst (r, w'))"
  proof (rule health_loop.raw_induct
      [where P = "\<lambda>env spec start attempts run best w r. loop_inv spec attempts run \<longrightarrow> loop_post spec (fst r)",
       OF _ ret])
    fix f :: "'a health_env \<Rightarrow> health_spec \<Rightarrow> u64 \<Rightarrow> attempt list \<Rightarrow> u8 \<Rightarrow> u8 \<Rightarrow> 'a \<Rightarrow> (health_out \<times> 'a) option"
    fix env :: "'a health_env" and spec :: health_spec
      and start :: u64 and attempts and run best :: u8 and w :: 'a and r :: "health_out \<times> 'a"
    assume IH: "\<And>env spec start attempts run best w r.
        f env spec start attempts run best w = Some r \<Longrightarrow> loop_inv spec attempts run \<longrightarrow> loop_post spec (fst r)"
    let ?now = "he_now env w"
    let ?p = "he_probe env (fst ?now) (snd ?now)"
    let ?a = "fst ?p"
    let ?run = "if accepted (hs_expect spec) ?a then sat_add run 1 else 0"
    let ?now' = "he_now env (snd ?p)"
    assume eq: "(let (now, w1) = he_now env w; (a, w2) = he_probe env now w1;
          ok = accepted (hs_expect spec) a; attempts' = attempts @ [a]
      in if attempt_exited a
         then Some (\<lparr>ho_verdict = Exited, ho_attempts = attempts', ho_run = run, ho_best = best\<rparr>, w2)
         else
           let run' = (if ok then sat_add run 1 else 0); best' = max best run'
           in if 0 < consecutive_ok spec \<and> consecutive_ok spec \<le> run'
              then Some (\<lparr>ho_verdict = Healthy, ho_attempts = attempts', ho_run = run', ho_best = best'\<rparr>, w2)
              else let (now', w3) = he_now env w2
                in if startup_deadline_ms spec < sat_sub now' start + interval_ms spec
                   then Some (\<lparr>ho_verdict = NotHealthy, ho_attempts = attempts', ho_run = run',
                               ho_best = best'\<rparr>, w3)
                   else f env spec start attempts' run' best' (he_wait env (interval_ms spec) w3)) = Some r"
    show "loop_inv spec attempts run \<longrightarrow> loop_post spec (fst r)"
    proof
      assume inv: "loop_inv spec attempts run"
      consider (exit) "attempt_exited ?a"
        | (healthy) "\<not> attempt_exited ?a" "0 < consecutive_ok spec" "consecutive_ok spec \<le> ?run"
        | (go) "\<not> attempt_exited ?a" "\<not> (0 < consecutive_ok spec \<and> consecutive_ok spec \<le> ?run)"
        by blast
      then show "loop_post spec (fst r)"
      proof cases
        case exit
        with eq inv show ?thesis
          by (auto simp: Let_def case_prod_beta loop_post_def loop_inv_def)
      next
        case healthy
        with loop_inv_healthy [OF inv refl healthy(2,3)] eq inv show ?thesis
          by (auto simp: Let_def case_prod_beta loop_post_def loop_inv_def unat_gt_0)
      next
        case go
        have inv': "loop_inv spec (attempts @ [?a]) ?run"
          using loop_inv_step [OF inv go(1) refl go(2)] .
        show ?thesis
        proof (cases "startup_deadline_ms spec < sat_sub (fst ?now') start + interval_ms spec")
          case True
          with eq go inv' show ?thesis
            by (auto simp: Let_def case_prod_beta loop_post_def loop_inv_def unat_gt_0 word_neq_0_conv split: if_splits)
        next
          case False
          with eq go have "f env spec start (attempts @ [?a]) ?run (max best ?run)
              (he_wait env (interval_ms spec) (snd ?now')) = Some r"
            by (simp add: Let_def case_prod_beta split: if_splits)
          with IH inv' show ?thesis by blast
        qed
      qed
    qed
  qed
  with inv show ?thesis by simp
qed

text \<open>
  The verdict the loop reports is the one validation re-derives.
  Whatever the probe, the clock and the waiter do, when the poll returns, its evidence
  is valid exactly when its verdict is \<open>Healthy\<close>; a healthy verdict is reached at the required
  number of consecutive successes, and an exited container always ends the check as \<open>Exited\<close>.
\<close>

theorem run_health_sound:
  assumes "run_health env spec target w = Some (ev, w')"
  shows "(is_healthy ev \<longleftrightarrow> ev_verdict ev = Healthy) \<and>
    (ev_verdict ev = Healthy \<longrightarrow> consecutive_reached ev = consecutive_ok spec) \<and>
    (ev_verdict ev = Exited \<longleftrightarrow> (\<exists>a \<in> set (ev_attempts ev). attempt_exited a))"
proof -
  obtain start w1 r w2 where loop: "health_loop env spec start [] 0 0 w1 = Some (r, w2)"
    and ev: "ev_verdict ev = ho_verdict r" "ev_attempts ev = ho_attempts r" "ev_expect ev = hs_expect spec"
      "consecutive_required ev = consecutive_ok spec"
      "consecutive_reached ev = (if ho_verdict r = Healthy then ho_run r else ho_best r)"
    using assms by (auto simp: run_health_def Let_def case_prod_beta split: option.splits)
  have "loop_inv spec [] 0" by (simp add: loop_inv_def word_less_nat_alt)
  with loop have post: "loop_post spec r" by (rule health_loop_post)
  have "set (ho_attempts r) = insert (last (ho_attempts r)) (set (butlast (ho_attempts r)))"
    using post by (metis append_butlast_last_id list.simps(15) loop_post_def rotate1.simps(2) set_rotate1)
  then have "ho_verdict r = Exited \<longleftrightarrow> (\<exists>a \<in> set (ho_attempts r). attempt_exited a)"
    using post by (auto simp: loop_post_def)
  moreover have "ho_verdict r = Healthy \<Longrightarrow> is_healthy ev"
    using post ev u8_le_255 [of "consecutive_ok spec"] by (simp add: validate_ok_iff loop_post_def)
  ultimately show ?thesis
    using post ev by (auto simp: validate_ok_iff loop_post_def)
qed

section \<open>The poll returns\<close>

text \<open>
  What the loop needs of its environment to stop: the clock is a \<open>u64\<close> reading of a time that never
  goes back, probes and clock reads take at most \<open>slack\<close> milliseconds each, and a wait of \<open>ms\<close>
  lasts at least \<open>ms\<close> and at most \<open>slack\<close> longer, short of the end of the 64-bit range.
\<close>

locale paced_env =
  fixes env :: "'w health_env" and time :: "'w \<Rightarrow> nat" and slack :: nat
  assumes now_time: "he_now env w = (t, w') \<Longrightarrow> t = of_nat (time w') \<and> time w \<le> time w' \<and> time w' \<le> time w + slack"
    and probe_time: "he_probe env at w = (a, w') \<Longrightarrow> time w \<le> time w' \<and> time w' \<le> time w + slack"
    and wait_time: "time w + unat ms + slack < 2 ^ 64 \<Longrightarrow>
      time w + unat ms \<le> time (he_wait env ms w) \<and> time (he_wait env ms w) \<le> time w + unat ms + slack"
begin

lemma loop_returns:
  assumes "0 < interval_ms spec" and "s \<le> time w" and "time w \<le> s + unat (startup_deadline_ms spec) + 4 * slack"
    and "s + unat (startup_deadline_ms spec) + unat (interval_ms spec) + 8 * slack < 2 ^ 64"
  shows "\<exists>r w'. health_loop env spec (of_nat s) attempts run best w = Some (r, w') \<and>
    length (ho_attempts r) \<le> length attempts
      + Suc ((s + unat (startup_deadline_ms spec) - time w) div unat (interval_ms spec))"
  using assms(2,3)
proof (induction "s + unat (startup_deadline_ms spec) - time w" arbitrary: attempts run best w rule: less_induct)
  case less
  let ?D = "unat (startup_deadline_ms spec)" and ?I = "unat (interval_ms spec)"
  obtain now w1 where now: "he_now env w = (now, w1)" by (cases "he_now env w")
  obtain a w2 where probe: "he_probe env now w1 = (a, w2)" by (cases "he_probe env now w1")
  obtain now' w3 where now': "he_now env w2 = (now', w3)" by (cases "he_now env w2")
  let ?run = "if accepted (hs_expect spec) a then sat_add run 1 else 0"
  have t: "time w \<le> time w3" "time w3 \<le> time w + 3 * slack" and n: "now' = of_nat (time w3)"
    using now_time [OF now] probe_time [OF probe] now_time [OF now'] by auto
  have I: "0 < ?I" using assms(1) by (simp add: unat_gt_0)
  have small: "time w3 < 2 ^ 64" "s < 2 ^ 64" using t less.prems assms(4) by linarith+
  have elapsed: "unat (sat_sub now' (of_nat s)) = time w3 - s"
    using small by (simp add: unat_sat_sub n unat_of_nat_small)
  have "time w3 - s + ?I < 2 ^ 64" using t less.prems assms(4) by linarith
  then have sum: "unat (sat_sub now' (of_nat s) + interval_ms spec) = time w3 - s + ?I"
    by (simp add: unat_word_ariths elapsed)
  show ?case
  proof (cases "attempt_exited a \<or> (0 < consecutive_ok spec \<and> consecutive_ok spec \<le> ?run) \<or> ?D < time w3 - s + ?I")
    case True
    then show ?thesis
      by (subst health_loop.simps) (auto simp: now probe now' Let_def word_less_nat_alt [of "startup_deadline_ms spec"] sum)
  next
    case False
    let ?w4 = "he_wait env (interval_ms spec) w3"
    have w: "time w3 + ?I \<le> time ?w4" "time ?w4 \<le> time w3 + ?I + slack"
      using wait_time [of w3 "interval_ms spec"] t less.prems assms(4) by linarith+
    have le: "time w + ?I \<le> time ?w4" "time w3 + ?I \<le> s + ?D"
      using w t False less.prems by linarith+
    have "s + ?D - time ?w4 < s + ?D - time w" using le I t by linarith
    moreover have "s \<le> time ?w4" "time ?w4 \<le> s + ?D + 4 * slack" using w le less.prems by linarith+
    ultimately obtain r w' where IH:
      "health_loop env spec (of_nat s) (attempts @ [a]) ?run (max best ?run) ?w4 = Some (r, w')"
      "length (ho_attempts r) \<le> length (attempts @ [a]) + Suc ((s + ?D - time ?w4) div ?I)"
      using less.hyps [of ?w4 "attempts @ [a]" ?run "max best ?run"] by blast
    have "Suc ((s + ?D - time ?w4) div ?I) = (s + ?D - time ?w4 + ?I) div ?I"
      by (subst div_add_self2) (use I in simp_all)
    also have "\<dots> \<le> (s + ?D - time w) div ?I"
      by (rule div_le_mono) (use le t w in linarith)
    finally have "length (ho_attempts r) \<le> length attempts + Suc ((s + ?D - time w) div ?I)"
      using IH(2) by simp
    moreover have "health_loop env spec (of_nat s) attempts run best w = Some (r, w')"
      using False IH(1)
      by (subst health_loop.simps)
        (auto simp: now probe now' Let_def word_less_nat_alt [of "startup_deadline_ms spec"] sum)
    ultimately show ?thesis by blast
  qed
qed

lemma run_returns:
  assumes "0 < interval_ms spec"
    and "time w + unat (startup_deadline_ms spec) + unat (interval_ms spec) + 9 * slack < 2 ^ 64"
  shows "\<exists>ev w'. run_health env spec target w = Some (ev, w') \<and>
    length (ev_attempts ev) \<le> Suc (unat (startup_deadline_ms spec) div unat (interval_ms spec))"
proof -
  obtain t w1 where now: "he_now env w = (t, w1)" by (cases "he_now env w")
  have "t = of_nat (time w1)" "time w1 \<le> time w + slack" using now_time [OF now] by auto
  with assms loop_returns [of spec "time w1" w1 "[]" 0 0]
  obtain r w2 where "health_loop env spec t [] 0 0 w1 = Some (r, w2)"
    "length (ho_attempts r) \<le> Suc (unat (startup_deadline_ms spec) div unat (interval_ms spec))"
    by fastforce
  then show ?thesis by (simp add: run_health_def now Let_def case_prod_beta)
qed

end

text \<open>
  The \<open>ManualClock\<close> of \<open>deploy/src/time.rs\<close>: reading shows the cell, waiting advances it. Here with a
  probe that answers from the time alone.
\<close>

definition manual_env :: "(u64 \<Rightarrow> attempt) \<Rightarrow> u64 health_env" where
  "manual_env f = \<lparr>he_probe = (\<lambda>at w. (f at, w)), he_now = (\<lambda>w. (w, w)), he_wait = (\<lambda>ms w. w + ms)\<rparr>"

interpretation manual: paced_env "manual_env f" unat 0 for f
  by unfold_locales (auto simp: manual_env_def unat_word_ariths)

text \<open>
  The poll always ends under the documented behaviour of its clock.
  Claim C14: in every environment whose clock advances by at least the time waited, a poll with a
  positive interval returns, after at most one attempt more than the deadline holds intervals.
\<close>

theorem run_health_returns:
  assumes "paced_env env time slack" and "0 < interval_ms spec"
    and "time w + unat (startup_deadline_ms spec) + unat (interval_ms spec) + 9 * slack < 2 ^ 64"
  shows "\<exists>ev w'. run_health env spec target w = Some (ev, w') \<and>
    length (ev_attempts ev) \<le> Suc (unat (startup_deadline_ms spec) div unat (interval_ms spec))"
  by (rule paced_env.run_returns [OF assms])

theorem run_health_returns_witness:
  "\<exists>ev w'. run_health (manual_env (\<lambda>t. \<lparr>at_at_ms = t, at_observation = Status 503, container_running = True\<rparr>))
      (health_spec_first_test ''/'') ''app'' 1000 = Some (ev, w') \<and> length (ev_attempts ev) \<le> 121"
  using run_health_returns [OF manual.paced_env_axioms, of "health_spec_first_test ''/''" 1000
      "\<lambda>t. \<lparr>at_at_ms = t, at_observation = Status 503, container_running = True\<rparr>" "''app''"]
  by (simp add: health_spec_first_test_def)

theorem run_health_sound_witness:
  "\<exists>ev w'. run_health (manual_env (\<lambda>t. \<lparr>at_at_ms = t, at_observation = Status 200, container_running = True\<rparr>))
      (health_spec_first_test ''/'') ''app'' 1000 = Some (ev, w') \<and> is_healthy ev"
proof -
  let ?env = "manual_env (\<lambda>t. \<lparr>at_at_ms = t, at_observation = Status 200, container_running = True\<rparr>)"
  let ?a = "\<lambda>t. \<lparr>at_at_ms = t, at_observation = Status 200, container_running = True\<rparr>"
  let ?r = "\<lparr>ho_verdict = Healthy, ho_attempts = [?a 1000, ?a 1500], ho_run = 2, ho_best = 2\<rparr>"
  have "health_loop ?env (health_spec_first_test ''/'') 1000 [] 0 0 1000 = Some (?r, 1500)"
    by (simp add: health_loop.simps manual_env_def health_spec_first_test_def attempt_exited_def
        accepted_def sat_add_def sat_sub_def Let_def word_le_nat_alt)
  then obtain ev w' where ev:
    "run_health ?env (health_spec_first_test ''/'') ''app'' 1000 = Some (ev, w')" "ev_verdict ev = Healthy"
    by (auto simp: run_health_def manual_env_def)
  with run_health_sound [OF ev(1)] show ?thesis by blast
qed

end
