(* ===== verification/Release.thy ===== *)
theory Release
  imports Health
begin

text \<open>
  The immutable configuration a release is pinned with (\<open>deploy/src/release.rs\<close>) and the reference
  to one saved secret version (\<open>deploy/src/secrets.rs\<close>). The text form of the pinned configuration is in
  \<^theory_text>\<open>ReleaseCodec\<close>.
\<close>

record secret_ref =
  sr_id :: string
  sr_version :: u32

record release_config =
  image_id :: string
  image_tag :: string
  container_port :: u16
  host_port :: u16
  rc_health :: health_spec
  memory_bytes :: "64 word"
  nano_cpus :: "64 word"
  pids :: "64 word"
  rc_env :: "(string \<times> string) list"
  rc_secrets :: "(string \<times> secret_ref) list"
  rc_snapshot :: "string option"
  rc_build :: "string option"

definition release_config_simulated :: "u16 \<Rightarrow> release_config" where
  "release_config_simulated port =
     \<lparr>image_id = ''sha256:'' @ replicate 64 (CHR ''0''), image_tag = ''simulated'',
      container_port = 8080, host_port = port, rc_health = health_spec_first_test ''/'',
      memory_bytes = 256 * 1024 * 1024, nano_cpus = 500000000, pids = 64,
      rc_env = [], rc_secrets = [], rc_snapshot = None, rc_build = None\<rparr>"

end
