(* ===== verification/Logs.thy ===== *)
theory Logs
  imports Prelude
begin

text \<open>
  The bounded, redacting log sink (\<open>deploy/src/logs.rs\<close>). The redactor masks the union of all
  matches of all secrets in one pass; on a stream it holds back the end of a chunk that could still
  be the start of a secret. Positions are byte offsets: a secret begins with the first byte of a
  character, so no match and no held-back prefix starts inside one.
\<close>

section \<open>The redactor\<close>

record redactor =
  red_secrets :: "(string \<times> string) list"
  red_fail :: bool

definition redactor_none :: redactor where
  "redactor_none = \<lparr>red_secrets = [], red_fail = False\<rparr>"

text \<open>\<open>Vec::dedup_by\<close>: of consecutive entries with the same secret the first is kept.\<close>

fun dedup_secrets :: "(string \<times> string) list \<Rightarrow> (string \<times> string) list" where
  "dedup_secrets [] = []"
| "dedup_secrets [a] = [a]"
| "dedup_secrets (a # b # ps) =
     (if fst a = fst b then dedup_secrets (a # ps) else a # dedup_secrets (b # ps))"

text \<open>
  \<open>(name, value)\<close> pairs become \<open>(value, name)\<close>, empty values left out, the longest first and then
  by value (two stable sorts, the secondary key first).
\<close>

definition redactor_new :: "(string \<times> string) list \<Rightarrow> redactor" where
  "redactor_new ps =
     (let v = map (\<lambda>(n, value). (value, n)) (filter (\<lambda>(_, value). value \<noteq> []) ps);
          v = sort_key (\<lambda>p. - int (length (fst p))) (sort_key fst v)
      in \<lparr>red_secrets = dedup_secrets v, red_fail = False\<rparr>)"

definition starts_with :: "string \<Rightarrow> string \<Rightarrow> bool" where
  "starts_with s p \<longleftrightarrow> take (length p) s = p"

type_synonym span = "nat \<times> nat \<times> string list"

definition match_spans :: "(string \<times> string) list \<Rightarrow> string \<Rightarrow> (nat \<times> nat \<times> string) list" where
  "match_spans ss buf =
     concat (map (\<lambda>i. map (\<lambda>(secret, name). (i, i + length secret, name))
                        (filter (\<lambda>(secret, name). starts_with (drop i buf) secret) ss))
               [0 ..< length buf])"

text \<open>One step of the merge; the accumulator holds the disjoint spans, the last one first.\<close>

fun merge_step :: "span list \<Rightarrow> nat \<times> nat \<times> string \<Rightarrow> span list" where
  "merge_step [] (s, e, name) = [(s, e, [name])]"
| "merge_step ((ms, me, names) # acc) (s, e, name) =
     (if s < me
      then (if me < e
            then (ms, e, if name \<in> set names then names else names @ [name]) # acc
            else (ms, me, names) # acc)
      else (s, e, [name]) # (ms, me, names) # acc)"

definition merge_spans :: "(nat \<times> nat \<times> string) list \<Rightarrow> span list" where
  "merge_spans spans = rev (foldl merge_step [] spans)"

text \<open>Where the safe prefix of an unfinished stream ends.\<close>

definition hold_from :: "(string \<times> string) list \<Rightarrow> string \<Rightarrow> nat" where
  "hold_from ss buf =
     (case List.find (\<lambda>i. \<exists>p \<in> set ss. length (drop i buf) < length (fst p) \<and> starts_with (fst p) (drop i buf))
             [0 ..< length buf] of
        None \<Rightarrow> length buf
      | Some i \<Rightarrow> i)"

fun pull_cut :: "nat \<Rightarrow> span list \<Rightarrow> nat" where
  "pull_cut stop [] = stop"
| "pull_cut stop ((s, e, names) # sp) = pull_cut (if s < stop \<and> stop < e then s else stop) sp"

definition scan_cut :: "(string \<times> string) list \<Rightarrow> string \<Rightarrow> bool \<Rightarrow> span list \<Rightarrow> nat" where
  "scan_cut ss buf fin merged =
     (if fin then length buf else pull_cut (hold_from ss buf) merged)"

definition slice :: "nat \<Rightarrow> nat \<Rightarrow> string \<Rightarrow> string" where
  "slice i j s = take (j - i) (drop i s)"

definition mark :: "string list \<Rightarrow> string" where
  "mark names = ''[REDACTED:'' @ join_with ''+'' names @ '']''"

fun emit :: "string \<Rightarrow> nat \<Rightarrow> nat \<Rightarrow> u32 \<Rightarrow> span list \<Rightarrow> string \<times> nat \<times> u32" where
  "emit buf stop at n [] = ((if at < stop then slice at stop buf else []), at, n)"
| "emit buf stop at n ((s, e, names) # sp) =
     (if stop \<le> s then ((if at < stop then slice at stop buf else []), at, n)
      else case emit buf stop e (n + 1) sp of
             (out, at', n') \<Rightarrow> (slice at s buf @ mark names @ out, at', n'))"

text \<open>
  \<open>scan\<close>: the result (the masked safe prefix and the number of masked spans, or the error) and the
  text held back for the next step.
\<close>

definition scan :: "redactor \<Rightarrow> string \<Rightarrow> string \<Rightarrow> bool \<Rightarrow> (string + string \<times> u32) \<times> string" where
  "scan r pending chunk fin =
     (if red_fail r then (Inl ''forced failure'', pending)
      else
        let buf = pending @ chunk
        in if red_secrets r = [] then (Inr (buf, 0), [])
           else
             let merged = merge_spans (match_spans (red_secrets r) buf);
                 stop = scan_cut (red_secrets r) buf fin merged
             in case emit buf stop 0 0 merged of
                  (out, at, n) \<Rightarrow> (Inr (out, n), drop (max stop at) buf))"

definition redact_apply :: "redactor \<Rightarrow> string \<Rightarrow> string \<times> u32" where
  "redact_apply r text =
     (case fst (scan r [] text True) of
        Inr res \<Rightarrow> res
      | Inl _ \<Rightarrow> (''[withheld: the redaction step failed]'', 0))"

section \<open>The sink\<close>

record log_limits =
  head_limit :: nat
  tail_limit :: nat

definition log_limits_default :: log_limits where
  "log_limits_default = \<lparr>head_limit = 256 * 1024, tail_limit = 768 * 1024\<rparr>"

record log_summary =
  lines_seen :: nat
  bytes_kept :: nat
  lines_dropped :: nat
  bytes_dropped :: nat
  redactions :: u32
  withheld :: bool

definition log_summary_default :: log_summary where
  "log_summary_default =
     \<lparr>lines_seen = 0, bytes_kept = 0, lines_dropped = 0, bytes_dropped = 0, redactions = 0,
      withheld = False\<rparr>"

definition log_truncated :: "log_summary \<Rightarrow> bool" where
  "log_truncated s \<longleftrightarrow> 0 < lines_dropped s"

definition max_stored_line :: nat where "max_stored_line = 16 * 1024"

definition withheld_text :: string where
  "withheld_text = ''[output withheld: the redaction step failed, so the raw text was not stored]''"

record log_sink =
  sink_limits :: log_limits
  sink_redactor :: redactor
  sink_pending :: string
  sink_partial :: string
  sink_head :: "string list"
  head_bytes :: nat
  sink_tail :: "string list"
  tail_bytes :: nat
  sink_summary :: log_summary

record log_capture =
  cap_text :: string
  cap_summary :: log_summary

definition sink_new :: "log_limits \<Rightarrow> redactor \<Rightarrow> log_sink" where
  "sink_new l r =
     \<lparr>sink_limits = l, sink_redactor = r, sink_pending = [], sink_partial = [], sink_head = [], head_bytes = 0,
      sink_tail = [], tail_bytes = 0, sink_summary = log_summary_default\<rparr>"

definition sink_redact :: "log_sink \<Rightarrow> string \<Rightarrow> string" where
  "sink_redact k text = fst (redact_apply (sink_redactor k) text)"

definition line_cost :: "string \<Rightarrow> nat" where
  "line_cost l = length l + 1"

text \<open>The inner loop of \<open>store\<close>: drop from the front of the tail while it is over its limit.\<close>

fun trim_tail :: "nat \<Rightarrow> string list \<Rightarrow> nat \<Rightarrow> log_summary \<Rightarrow> string list \<times> nat \<times> log_summary" where
  "trim_tail limit [] b s = ([], b, s)"
| "trim_tail limit (d # ds) b s =
     (if b \<le> limit then (d # ds, b, s)
      else trim_tail limit ds (b - line_cost d)
             (s\<lparr>lines_dropped := lines_dropped s + 1, bytes_dropped := bytes_dropped s + line_cost d\<rparr>))"

definition store :: "string \<Rightarrow> log_sink \<Rightarrow> log_sink" where
  "store clean k =
     (let s = (sink_summary k)\<lparr>lines_seen := lines_seen (sink_summary k) + 1\<rparr>;
          cost = line_cost clean
      in if head_bytes k + cost \<le> head_limit (sink_limits k) \<and> sink_tail k = []
         then k\<lparr>sink_summary := s, head_bytes := head_bytes k + cost, sink_head := sink_head k @ [clean]\<rparr>
         else case trim_tail (tail_limit (sink_limits k)) (sink_tail k @ [clean]) (tail_bytes k + cost) s of
                (t, b, s') \<Rightarrow> k\<lparr>sink_tail := t, tail_bytes := b, sink_summary := s'\<rparr>)"

text \<open>Whole lines first, then pieces of an over-long line, stop at a character boundary.\<close>

fun store_lines :: "string list \<Rightarrow> log_sink \<Rightarrow> log_sink" where
  "store_lines [] k = k"
| "store_lines [rest] k = k\<lparr>sink_partial := rest\<rparr>"
| "store_lines (l # m # ls) k = store_lines (m # ls) (store l k)"

definition is_continuation :: "char \<Rightarrow> bool" where
  "is_continuation c \<longleftrightarrow> 128 \<le> (of_char c :: nat) \<and> (of_char c :: nat) < 192"

fun char_boundary_back :: "string \<Rightarrow> nat \<Rightarrow> nat" where
  "char_boundary_back s 0 = 0"
| "char_boundary_back s (Suc i) =
     (if Suc i < length s \<and> is_continuation (s ! Suc i) then char_boundary_back s i else Suc i)"

text \<open>
  A Rust string has at most three continuation bytes in a row, so the boundary found is positive;
  the model stops where the loop of the code would spin on a byte string that is not UTF-8.
\<close>

function store_long :: "log_sink \<Rightarrow> log_sink" where
  "store_long k =
     (let at = char_boundary_back (sink_partial k) max_stored_line
      in if max_stored_line < length (sink_partial k) \<and> 0 < at
         then store_long (store (take at (sink_partial k)) (k\<lparr>sink_partial := drop at (sink_partial k)\<rparr>))
         else k)"
  by pat_completeness auto

lemma partial_store [simp]: "sink_partial (store l k) = sink_partial k"
  by (auto simp: store_def Let_def split: prod.splits)

termination store_long
  by (relation "measure (\<lambda>k. length (sink_partial k))") (auto simp: max_stored_line_def)

declare store_long.simps [simp del]

definition absorb :: "string \<Rightarrow> log_sink \<Rightarrow> log_sink" where
  "absorb safe k =
     store_long (store_lines (split_on (CHR 0x0A) (sink_partial k @ safe)) k)"

definition withhold :: "log_sink \<Rightarrow> log_sink" where
  "withhold k = k\<lparr>sink_summary := (sink_summary k)\<lparr>withheld := True\<rparr>, sink_pending := [], sink_partial := []\<rparr>"

definition add_redactions :: "u32 \<Rightarrow> log_sink \<Rightarrow> log_sink" where
  "add_redactions n k = k\<lparr>sink_summary := (sink_summary k)\<lparr>redactions := redactions (sink_summary k) + n\<rparr>\<rparr>"

definition push_chunk :: "string \<Rightarrow> log_sink \<Rightarrow> log_sink" where
  "push_chunk chunk k =
     (if withheld (sink_summary k) then k
      else case scan (sink_redactor k) (sink_pending k) chunk False of
             (Inr (safe, n), p) \<Rightarrow> absorb safe (add_redactions n (k\<lparr>sink_pending := p\<rparr>))
           | (Inl e, p) \<Rightarrow> withhold (k\<lparr>sink_pending := p\<rparr>))"

definition trim_line_end :: "string \<Rightarrow> string" where
  "trim_line_end l = rev (dropWhile (\<lambda>c. c = CHR 0x0D \<or> c = CHR 0x0A) (rev l))"

definition push_line :: "string \<Rightarrow> log_sink \<Rightarrow> log_sink" where
  "push_line line k = push_chunk [CHR 0x0A] (push_chunk (trim_line_end line) k)"

text \<open>\<open>str::lines\<close>: split at line feeds, a final empty piece dropped, one carriage return stripped.\<close>

definition str_lines :: "string \<Rightarrow> string list" where
  "str_lines s =
     (let ls = split_on (CHR 0x0A) s;
          ls = (if last ls = [] then butlast ls else ls)
      in map (\<lambda>l. if l \<noteq> [] \<and> last l = CHR 0x0D then butlast l else l) ls)"

definition push_text :: "string \<Rightarrow> log_sink \<Rightarrow> log_sink" where
  "push_text s k = fold push_line (str_lines s) k"

text \<open>
  The copy of the state that a capture shows: what is held back at the end of the stream is final.
\<close>

definition flushed :: "log_sink \<Rightarrow> log_sink" where
  "flushed v = (if sink_partial v \<noteq> [] then store (sink_partial v) (v\<lparr>sink_partial := []\<rparr>) else v)"

definition capture_view :: "log_sink \<Rightarrow> log_sink" where
  "capture_view k =
     (if withheld (sink_summary k) then k
      else case scan (sink_redactor k) (sink_pending k) [] True of
             (Inr (safe, n), p) \<Rightarrow> flushed (absorb safe (add_redactions n (k\<lparr>sink_pending := p\<rparr>)))
           | (Inl e, p) \<Rightarrow> withhold (k\<lparr>sink_pending := p\<rparr>))"

definition unlines :: "string list \<Rightarrow> string" where
  "unlines ls = concat (map (\<lambda>l. l @ [CHR 0x0A]) ls)"

definition truncation_marker :: "nat \<Rightarrow> nat \<Rightarrow> string" where
  "truncation_marker lines bytes =
     ''['' @ [CHR 0xE2, CHR 0x80, CHR 0xA6] @ '' '' @ show_nat lines @ '' lines ('' @ show_nat bytes
       @ '' bytes) truncated by Harpoon '' @ [CHR 0xE2, CHR 0x80, CHR 0xA6] @ '']'' @ [CHR 0x0A]"

definition shown :: "log_sink \<Rightarrow> string" where
  "shown v = unlines (sink_head v)
     @ (if log_truncated (sink_summary v)
        then truncation_marker (lines_dropped (sink_summary v)) (bytes_dropped (sink_summary v)) else [])
     @ unlines (sink_tail v)
     @ (if withheld (sink_summary v) then withheld_text @ [CHR 0x0A] else [])"

definition capture :: "log_sink \<Rightarrow> log_capture" where
  "capture k =
     (let view = capture_view k
      in \<lparr>cap_text = shown view,
          cap_summary = (sink_summary view)\<lparr>bytes_kept := head_bytes view + tail_bytes view\<rparr>\<rparr>)"

end
