(* ===== verification/DeployState.thy ===== *)
theory DeployState
  imports Ids Release
begin

text \<open>
  Deployment records and the state machine (\<open>deploy/src/state.rs\<close>): the statuses and their
  transition relation, the steps, the cutover journal, the recovery outcome, the operations on a
  record, and what startup makes of the records it finds.
\<close>

section \<open>Statuses, steps and outcomes\<close>

datatype deployment_status =
  Requested | Queued | Running | Succeeded | Failed | Cancelled | Interrupted | Superseded

definition status_all :: "deployment_status list" where
  "status_all = [Requested, Queued, Running, Succeeded, Failed, Cancelled, Interrupted, Superseded]"

fun status_str :: "deployment_status \<Rightarrow> string" where
  "status_str Requested = ''requested''"
| "status_str Queued = ''queued''"
| "status_str Running = ''running''"
| "status_str Succeeded = ''succeeded''"
| "status_str Failed = ''failed''"
| "status_str Cancelled = ''cancelled''"
| "status_str Interrupted = ''interrupted''"
| "status_str Superseded = ''superseded''"

definition is_terminal :: "deployment_status \<Rightarrow> bool" where
  "is_terminal s \<longleftrightarrow> \<not> (s = Requested \<or> s = Queued \<or> s = Running)"

fun can_transition_to :: "deployment_status \<Rightarrow> deployment_status \<Rightarrow> bool" where
  "can_transition_to Requested t = (t = Queued \<or> t = Cancelled \<or> t = Interrupted)"
| "can_transition_to Queued t = (t = Running \<or> t = Superseded \<or> t = Cancelled \<or> t = Interrupted)"
| "can_transition_to Running t = (t = Succeeded \<or> t = Failed \<or> t = Cancelled \<or> t = Interrupted)"
| "can_transition_to s t = False"

datatype trigger = Manual | Cli | Poll | Webhook | Rollback | Promote

datatype step = Source | Build | PreliminaryCheck | Cutover | FinalCheck | Recovery

definition step_order :: "step list" where
  "step_order = [Source, Build, PreliminaryCheck, Cutover, FinalCheck, Recovery]"

fun step_str :: "step \<Rightarrow> string" where
  "step_str Source = ''source''"
| "step_str Build = ''build''"
| "step_str PreliminaryCheck = ''preliminary_check''"
| "step_str Cutover = ''cutover''"
| "step_str FinalCheck = ''final_check''"
| "step_str Recovery = ''recovery''"

datatype step_status = SPending | SRunning | SSucceeded | SFailed | SSkipped | SInterrupted

record step_record =
  sr_step :: step
  sr_status :: step_status
  sr_started_ms :: "u64 option"
  sr_finished_ms :: "u64 option"
  sr_note :: string

datatype cutover_state = NotStarted | NotRequired | Begun u64 | Confirmed u64 | CutoverFailed u64

datatype reason =
  NoPreviousRelease | ConfigUnavailable | PortInUse | ReasonInterrupted | ImageMissing |
  SecretUnavailable | DockerUnreachable | Timeout | StartFailed | ReasonCancelled

datatype recovery_outcome =
  InProgress | Restored | RestoredUnverified | RestoreFailed reason | NotAttempted reason

fun outcome_str :: "recovery_outcome \<Rightarrow> string" where
  "outcome_str InProgress = ''in_progress''"
| "outcome_str Restored = ''restored''"
| "outcome_str RestoredUnverified = ''restored_unverified''"
| "outcome_str (RestoreFailed _) = ''restore_failed''"
| "outcome_str (NotAttempted _) = ''not_attempted''"

fun service_restored :: "recovery_outcome \<Rightarrow> bool" where
  "service_restored Restored = True"
| "service_restored RestoredUnverified = True"
| "service_restored _ = False"

record recovery =
  rec_outcome :: recovery_outcome
  rec_started_ms :: u64
  rec_finished_ms :: "u64 option"
  rec_budget_ms :: u64

record interruption =
  int_started_ms :: u64
  int_ended_ms :: "u64 option"

definition int_duration_ms :: "interruption \<Rightarrow> u64 option" where
  "int_duration_ms i = map_option (\<lambda>e. sat_sub e (int_started_ms i)) (int_ended_ms i)"

datatype failure_kind = FSource | FBuild | FPreliminaryCheck | FCutover | FFinalCheck

record failure =
  f_step :: step
  f_kind :: failure_kind
  f_message :: string
  f_timed_out :: bool

datatype transition_error =
    StatusError deployment_status deployment_status
  | CutoverError cutover_state string
  | StepTransitionError step step_status step_status

section \<open>The deployment record\<close>

record deployment =
  d_id :: deployment_id
  d_app :: application_id
  d_trigger :: trigger
  d_status :: deployment_status
  d_created_ms :: u64
  d_started_ms :: "u64 option"
  d_finished_ms :: "u64 option"
  d_steps :: "step_record list"
  d_cutover :: cutover_state
  d_failure :: "failure option"
  d_recovery :: "recovery option"
  d_interruption :: "interruption option"
  d_release :: "release_id option"
  d_pinned :: "release_config option"
  d_replaces :: "release_id option"
  d_rollback_to :: "release_id option"

definition deployment_new :: "deployment_id \<Rightarrow> application_id \<Rightarrow> trigger \<Rightarrow> u64 \<Rightarrow> deployment" where
  "deployment_new i app tr now =
     \<lparr>d_id = i, d_app = app, d_trigger = tr, d_status = Requested, d_created_ms = now,
      d_started_ms = None, d_finished_ms = None,
      d_steps = map (\<lambda>s. \<lparr>sr_step = s, sr_status = SPending, sr_started_ms = None,
                          sr_finished_ms = None, sr_note = []\<rparr>) step_order,
      d_cutover = NotStarted, d_failure = None, d_recovery = None, d_interruption = None,
      d_release = None, d_pinned = None, d_replaces = None, d_rollback_to = None\<rparr>"

text \<open>
  \<open>step\<close> finds the record of a step. The code expects it to exist; \<open>None\<close> is that panic, which the
  invariant below rules out. \<open>step_mut\<close> followed by an assignment is \<open>update_step\<close>.
\<close>

definition find_step :: "deployment \<Rightarrow> step \<Rightarrow> step_record option" where
  "find_step d s = List.find (\<lambda>r. sr_step r = s) (d_steps d)"

definition step_status_of :: "deployment \<Rightarrow> step \<Rightarrow> step_status option" where
  "step_status_of d s = map_option sr_status (find_step d s)"

definition update_step :: "step \<Rightarrow> (step_record \<Rightarrow> step_record) \<Rightarrow> deployment \<Rightarrow> deployment" where
  "update_step s f d = d\<lparr>d_steps := update_first (\<lambda>r. sr_step r = s) f (d_steps d)\<rparr>"

text \<open>
  The operations answer \<open>Inl\<close> with the error, or \<open>Inr\<close> with the changed record. \<open>None\<close> is a panic.
\<close>

type_synonym op_result = "(transition_error + deployment) option"

definition transition :: "deployment_status \<Rightarrow> u64 \<Rightarrow> deployment \<Rightarrow> transition_error + deployment" where
  "transition to now d =
     (if \<not> can_transition_to (d_status d) to then Inl (StatusError (d_status d) to)
      else
        let d = d\<lparr>d_status := to\<rparr>;
            d = (if to = Running then d\<lparr>d_started_ms := Some now\<rparr> else d)
        in Inr (if is_terminal to
                then d\<lparr>d_finished_ms := Some now,
                       d_steps := map (\<lambda>r. if sr_status r = SPending then r\<lparr>sr_status := SSkipped\<rparr> else r)
                                    (d_steps d)\<rparr>
                else d))"

definition start_step :: "step \<Rightarrow> u64 \<Rightarrow> deployment \<Rightarrow> op_result" where
  "start_step s now d =
     (case find_step d s of
        None \<Rightarrow> None
      | Some r \<Rightarrow> Some
          (if sr_status r \<noteq> SPending then Inl (StepTransitionError s (sr_status r) SRunning)
           else Inr (update_step s (\<lambda>r. r\<lparr>sr_status := SRunning, sr_started_ms := Some now\<rparr>) d)))"

definition finish_step :: "step \<Rightarrow> bool \<Rightarrow> string \<Rightarrow> u64 \<Rightarrow> deployment \<Rightarrow> op_result" where
  "finish_step s ok note now d =
     (let to = (if ok then SSucceeded else SFailed)
      in case find_step d s of
           None \<Rightarrow> None
         | Some r \<Rightarrow> Some
             (if sr_status r \<noteq> SRunning then Inl (StepTransitionError s (sr_status r) to)
              else Inr (update_step s
                     (\<lambda>r. r\<lparr>sr_status := to, sr_finished_ms := Some now, sr_note := note\<rparr>) d)))"

definition begin_cutover :: "u64 \<Rightarrow> deployment \<Rightarrow> transition_error + deployment" where
  "begin_cutover now d =
     (case d_cutover d of
        NotStarted \<Rightarrow> Inr (d\<lparr>d_cutover := Begun now,
            d_interruption := Some \<lparr>int_started_ms = now, int_ended_ms = None\<rparr>\<rparr>)
      | from \<Rightarrow> Inl (CutoverError from ''begin cutover''))"

definition cutover_not_required :: "deployment \<Rightarrow> transition_error + deployment" where
  "cutover_not_required d =
     (case d_cutover d of
        NotStarted \<Rightarrow> Inr (d\<lparr>d_cutover := NotRequired\<rparr>)
      | from \<Rightarrow> Inl (CutoverError from ''mark cutover not required''))"

definition end_interruption :: "u64 \<Rightarrow> deployment \<Rightarrow> deployment" where
  "end_interruption now d =
     d\<lparr>d_interruption := map_option (\<lambda>i. i\<lparr>int_ended_ms := Some now\<rparr>) (d_interruption d)\<rparr>"

definition confirm_cutover :: "u64 \<Rightarrow> deployment \<Rightarrow> transition_error + deployment" where
  "confirm_cutover now d =
     (case d_cutover d of
        Begun _ \<Rightarrow> Inr (end_interruption now (d\<lparr>d_cutover := Confirmed now\<rparr>))
      | from \<Rightarrow> Inl (CutoverError from ''confirm cutover''))"

definition fail_cutover :: "u64 \<Rightarrow> deployment \<Rightarrow> transition_error + deployment" where
  "fail_cutover now d =
     (case d_cutover d of
        Begun _ \<Rightarrow> Inr (d\<lparr>d_cutover := CutoverFailed now\<rparr>)
      | from \<Rightarrow> Inl (CutoverError from ''fail cutover''))"

definition start_recovery :: "u64 \<Rightarrow> u64 \<Rightarrow> deployment \<Rightarrow> transition_error + deployment" where
  "start_recovery budget now d =
     (case (d_cutover d, d_recovery d) of
        (CutoverFailed _, None) \<Rightarrow>
          Inr (d\<lparr>d_recovery := Some \<lparr>rec_outcome = InProgress, rec_started_ms = now,
                                    rec_finished_ms = None, rec_budget_ms = budget\<rparr>\<rparr>)
      | (from, _) \<Rightarrow> Inl (CutoverError from ''start recovery''))"

definition is_begun :: "cutover_state \<Rightarrow> bool" where
  "is_begun c \<longleftrightarrow> (case c of Begun _ \<Rightarrow> True | _ \<Rightarrow> False)"

definition is_failed :: "cutover_state \<Rightarrow> bool" where
  "is_failed c \<longleftrightarrow> (case c of CutoverFailed _ \<Rightarrow> True | _ \<Rightarrow> False)"

definition can_recover_explicitly :: "deployment \<Rightarrow> bool" where
  "can_recover_explicitly d \<longleftrightarrow>
     d_status d = Interrupted \<and> is_begun (d_cutover d) \<and> d_recovery d = None \<and>
     step_status_of d Recovery = Some SSkipped"

definition explicit_recovery_msg :: string where
  "explicit_recovery_msg =
     ''explicit recovery (needs an interrupted deployment whose cutover began and has no recovery yet)''"

definition begin_explicit_recovery :: "u64 \<Rightarrow> u64 \<Rightarrow> deployment \<Rightarrow> transition_error + deployment" where
  "begin_explicit_recovery budget now d =
     (if \<not> can_recover_explicitly d then Inl (CutoverError (d_cutover d) explicit_recovery_msg)
      else bind_res (fail_cutover now d)
        (\<lambda>d. start_recovery budget now
               (update_step Recovery
                  (\<lambda>r. r\<lparr>sr_status := SRunning, sr_started_ms := Some now, sr_finished_ms := None\<rparr>) d)))"

definition finish_recovery :: "recovery_outcome \<Rightarrow> u64 \<Rightarrow> deployment \<Rightarrow> transition_error + deployment" where
  "finish_recovery outcome now d =
     (case d_recovery d of
        Some r \<Rightarrow>
          if rec_outcome r = InProgress \<and> outcome \<noteq> InProgress
          then let d = d\<lparr>d_recovery := Some (r\<lparr>rec_outcome := outcome, rec_finished_ms := Some now\<rparr>)\<rparr>
               in Inr (if service_restored outcome then end_interruption now d else d)
          else Inl (CutoverError (d_cutover d) ''finish recovery'')
      | None \<Rightarrow> Inl (CutoverError (d_cutover d) ''finish recovery''))"

definition application_may_be_down :: "deployment \<Rightarrow> bool" where
  "application_may_be_down d =
     (case d_cutover d of
        Begun _ \<Rightarrow> True
      | CutoverFailed _ \<Rightarrow>
          \<not> (case d_recovery d of None \<Rightarrow> False | Some r \<Rightarrow> service_restored (rec_outcome r))
      | _ \<Rightarrow> False)"

section \<open>Startup\<close>

record startup_report =
  su_interrupted :: "deployment_id list"
  su_incomplete :: "deployment_id list"

definition close_unfinished_recovery :: "u64 \<Rightarrow> deployment \<Rightarrow> deployment" where
  "close_unfinished_recovery now d =
     d\<lparr>d_recovery := map_option
          (\<lambda>r. if rec_outcome r = InProgress
                then r\<lparr>rec_outcome := RestoreFailed ReasonInterrupted, rec_finished_ms := Some now\<rparr> else r)
          (d_recovery d),
        d_steps := map
          (\<lambda>s. if sr_step s = Recovery \<and> sr_status s = SRunning
                then s\<lparr>sr_status := SInterrupted, sr_finished_ms := Some now\<rparr> else s)
          (d_steps d)\<rparr>"

definition interrupt_running_steps :: "u64 \<Rightarrow> deployment \<Rightarrow> deployment" where
  "interrupt_running_steps now d =
     d\<lparr>d_steps := map
          (\<lambda>r. if sr_status r = SRunning then r\<lparr>sr_status := SInterrupted, sr_finished_ms := Some now\<rparr> else r)
          (d_steps d)\<rparr>"

text \<open>
  One iteration of the loop of \<open>recover_on_start\<close>. The transition to \<open>Interrupted\<close> is expected to
  succeed; the error case, a panic, keeps the record here and is unreachable
  (\<open>recover_one_transition\<close> below).
\<close>

definition recover_one :: "u64 \<Rightarrow> deployment \<Rightarrow> deployment" where
  "recover_one now d =
     (if is_terminal (d_status d)
      then (if d_status d = Interrupted then close_unfinished_recovery now d else d)
      else
        let d' = close_unfinished_recovery now (interrupt_running_steps now d)
        in case transition Interrupted now d' of Inr d'' \<Rightarrow> d'' | Inl _ \<Rightarrow> d')"

fun recover_on_start :: "u64 \<Rightarrow> deployment list \<Rightarrow> deployment list \<times> startup_report" where
  "recover_on_start now [] = ([], \<lparr>su_interrupted = [], su_incomplete = []\<rparr>)"
| "recover_on_start now (d # ds) =
     (let d' = recover_one now d; (ds', rep) = recover_on_start now ds
      in (d' # ds',
          if is_terminal (d_status d) then rep
          else \<lparr>su_interrupted = d_id d' # su_interrupted rep,
                su_incomplete = (if application_may_be_down d' then d_id d' # su_incomplete rep
                                 else su_incomplete rep)\<rparr>))"

section \<open>Trigger pauses\<close>

record trigger_pause =
  tp_application :: application_id
  tp_deployment :: deployment_id
  tp_recovery :: "recovery_outcome option"
  tp_incomplete :: bool
  tp_rollback :: "release_id option"

definition rolled_back :: "deployment \<Rightarrow> bool" where
  "rolled_back d \<longleftrightarrow> d_status d = Succeeded \<and> d_rollback_to d \<noteq> None"

definition causes_pause :: "deployment \<Rightarrow> bool" where
  "causes_pause d \<longleftrightarrow> is_begun (d_cutover d) \<or> is_failed (d_cutover d) \<or> rolled_back d"

definition pause_of :: "deployment \<Rightarrow> trigger_pause" where
  "pause_of d =
     \<lparr>tp_application = d_app d, tp_deployment = d_id d,
      tp_recovery = map_option rec_outcome (d_recovery d),
      tp_incomplete = is_begun (d_cutover d),
      tp_rollback = (if rolled_back d then d_rollback_to d else None)\<rparr>"

definition pause_step :: "trigger_pause list \<Rightarrow> deployment \<Rightarrow> trigger_pause list" where
  "pause_step out d =
     (if \<not> causes_pause d \<or> (\<exists>p \<in> set out. tp_application p = d_app d) then out
      else out @ [pause_of d])"

definition trigger_pauses :: "deployment list \<Rightarrow> trigger_pause list" where
  "trigger_pauses ds = foldl pause_step [] ds"

section \<open>Reachable records\<close>

text \<open>
  \<open>dep_op\<close> is one change of a record: an operation above that answered \<open>Ok\<close>, what startup does to
  it, or an assignment to one of the public fields the engine sets. Panics and errors change nothing
  and are no step. A record is reachable when such changes lead to it from \<open>deployment_new\<close>.
\<close>

inductive dep_op :: "deployment \<Rightarrow> deployment \<Rightarrow> bool" where
  op_transition: "transition to now d = Inr d' \<Longrightarrow> dep_op d d'"
| op_start_step: "start_step s now d = Some (Inr d') \<Longrightarrow> dep_op d d'"
| op_finish_step: "finish_step s ok note now d = Some (Inr d') \<Longrightarrow> dep_op d d'"
| op_begin_cutover: "begin_cutover now d = Inr d' \<Longrightarrow> dep_op d d'"
| op_not_required: "cutover_not_required d = Inr d' \<Longrightarrow> dep_op d d'"
| op_confirm: "confirm_cutover now d = Inr d' \<Longrightarrow> dep_op d d'"
| op_fail: "fail_cutover now d = Inr d' \<Longrightarrow> dep_op d d'"
| op_start_recovery: "start_recovery budget now d = Inr d' \<Longrightarrow> dep_op d d'"
| op_explicit: "begin_explicit_recovery budget now d = Inr d' \<Longrightarrow> dep_op d d'"
| op_finish_recovery: "finish_recovery outcome now d = Inr d' \<Longrightarrow> dep_op d d'"
| op_startup: "dep_op d (recover_one now d)"
| op_failure: "dep_op d (d\<lparr>d_failure := f\<rparr>)"
| op_release: "dep_op d (d\<lparr>d_release := r\<rparr>)"
| op_pinned: "dep_op d (d\<lparr>d_pinned := c\<rparr>)"
| op_replaces: "dep_op d (d\<lparr>d_replaces := r\<rparr>)"
| op_rollback_to: "dep_op d (d\<lparr>d_rollback_to := r\<rparr>)"

inductive reachable_record :: "deployment \<Rightarrow> bool" where
  rr_new: "reachable_record (deployment_new i app tr now)"
| rr_op: "reachable_record d \<Longrightarrow> dep_op d d' \<Longrightarrow> reachable_record d'"

inductive_cases dep_opE: "dep_op d d'"

text \<open>What holds of every reachable record, clause by clause.\<close>

definition steps_ok :: "deployment \<Rightarrow> bool" where
  "steps_ok d \<longleftrightarrow> map sr_step (d_steps d) = step_order"

definition skipped_ok :: "deployment \<Rightarrow> bool" where
  "skipped_ok d \<longleftrightarrow>
     is_terminal (d_status d) = (d_finished_ms d \<noteq> None) \<and>
     (is_terminal (d_status d) \<longrightarrow> (\<forall>r \<in> set (d_steps d). sr_status r \<noteq> SPending))"

definition interruption_open :: "deployment \<Rightarrow> bool" where
  "interruption_open d \<longleftrightarrow> (case d_interruption d of None \<Rightarrow> False | Some i \<Rightarrow> int_ended_ms i = None)"

definition was_restored :: "deployment \<Rightarrow> bool" where
  "was_restored d \<longleftrightarrow>
     (case d_recovery d of None \<Rightarrow> False | Some r \<Rightarrow> service_restored (rec_outcome r))"

definition cutover_ok :: "deployment \<Rightarrow> bool" where
  "cutover_ok d \<longleftrightarrow>
     (case d_cutover d of
        NotStarted \<Rightarrow> d_interruption d = None \<and> d_recovery d = None
      | NotRequired \<Rightarrow> d_interruption d = None \<and> d_recovery d = None
      | Begun _ \<Rightarrow> interruption_open d \<and> d_recovery d = None
      | Confirmed _ \<Rightarrow> d_interruption d \<noteq> None \<and> \<not> interruption_open d \<and> d_recovery d = None
      | CutoverFailed _ \<Rightarrow> d_interruption d \<noteq> None \<and> interruption_open d = (\<not> was_restored d))"

section \<open>Lemmas\<close>

lemmas record_op_defs =
  transition_def start_step_def finish_step_def begin_cutover_def cutover_not_required_def
  confirm_cutover_def fail_cutover_def start_recovery_def finish_recovery_def end_interruption_def
  update_step_def

lemma find_step_Some: "find_step d s = Some r \<Longrightarrow> r \<in> set (d_steps d) \<and> sr_step r = s"
  unfolding find_step_def by (rule find_Some_set)

lemma steps_ok_find: "steps_ok d \<Longrightarrow> find_step d s \<noteq> None"
proof
  assume ok: "steps_ok d" and none: "find_step d s = None"
  have "s \<in> set step_order" by (cases s) (simp_all add: step_order_def)
  with ok have "s \<in> sr_step ` set (d_steps d)" by (metis list.set_map steps_ok_def)
  with none show False by (auto simp: find_step_def find_None_iff)
qed

lemma begin_explicit_recovery_Inr:
  "begin_explicit_recovery budget now d = Inr d' \<Longrightarrow>
   can_recover_explicitly d \<and>
   d' = update_step Recovery
          (\<lambda>r. r\<lparr>sr_status := SRunning, sr_started_ms := Some now, sr_finished_ms := None\<rparr>)
          (d\<lparr>d_cutover := CutoverFailed now,
             d_recovery := Some \<lparr>rec_outcome = InProgress, rec_started_ms = now,
                                 rec_finished_ms = None, rec_budget_ms = budget\<rparr>\<rparr>)"
  by (auto simp: begin_explicit_recovery_def can_recover_explicitly_def is_begun_def record_op_defs
      split: if_splits cutover_state.splits)

lemma steps_ok_update:
  "(\<And>r. sr_step (f r) = sr_step r) \<Longrightarrow> steps_ok (update_step s f d) = steps_ok d"
  by (simp add: steps_ok_def update_step_def update_first_map)

lemma steps_ok_map:
  "(\<And>r. sr_step (f r) = sr_step r) \<Longrightarrow> steps_ok (d\<lparr>d_steps := map f (d_steps d)\<rparr>) = steps_ok d"
  by (simp add: steps_ok_def comp_def)

lemma not_terminal_iff: "\<not> is_terminal s \<longleftrightarrow> s = Requested \<or> s = Queued \<or> s = Running"
  by (cases s) (simp_all add: is_terminal_def)

lemma interrupt_allowed: "can_transition_to s Interrupted = (\<not> is_terminal s)"
  by (cases s) (simp_all add: is_terminal_def)

lemma transition_needs_open: "can_transition_to s t \<Longrightarrow> \<not> is_terminal s \<and> t \<noteq> Requested"
  by (cases s; cases t) (simp_all add: is_terminal_def)

text \<open>What startup makes of a record that had not ended.\<close>

definition interrupted_step :: "u64 \<Rightarrow> step_record \<Rightarrow> step_record" where
  "interrupted_step now r =
     (if sr_status r = SRunning then r\<lparr>sr_status := SInterrupted, sr_finished_ms := Some now\<rparr>
      else if sr_status r = SPending then r\<lparr>sr_status := SSkipped\<rparr> else r)"

definition closed_recovery :: "u64 \<Rightarrow> recovery option \<Rightarrow> recovery option" where
  "closed_recovery now = map_option
     (\<lambda>r. if rec_outcome r = InProgress
           then r\<lparr>rec_outcome := RestoreFailed ReasonInterrupted, rec_finished_ms := Some now\<rparr> else r)"

lemma recover_one_open:
  "\<not> is_terminal (d_status d) \<Longrightarrow>
   recover_one now d =
     d\<lparr>d_status := Interrupted, d_finished_ms := Some now,
       d_steps := map (interrupted_step now) (d_steps d),
       d_recovery := closed_recovery now (d_recovery d)\<rparr>"
  by (auto simp: recover_one_def transition_def interrupt_allowed close_unfinished_recovery_def
      interrupt_running_steps_def closed_recovery_def interrupted_step_def is_terminal_def)

lemma recover_one_other:
  "is_terminal (d_status d) \<Longrightarrow> d_status d \<noteq> Interrupted \<Longrightarrow> recover_one now d = d"
  by (simp add: recover_one_def)

lemma recover_one_interrupted:
  "d_status d = Interrupted \<Longrightarrow> recover_one now d = close_unfinished_recovery now d"
  by (simp add: recover_one_def is_terminal_def)

lemma recover_one_fields [simp]:
  "d_id (recover_one now d) = d_id d" "d_app (recover_one now d) = d_app d"
  "d_cutover (recover_one now d) = d_cutover d"
  "d_interruption (recover_one now d) = d_interruption d"
  "is_terminal (d_status (recover_one now d))"
  "was_restored (recover_one now d) = was_restored d"
  by (cases "is_terminal (d_status d)"; cases "d_status d = Interrupted";
      auto simp: recover_one_open recover_one_other recover_one_interrupted is_terminal_def
        close_unfinished_recovery_def closed_recovery_def was_restored_def split: option.splits)+

lemma recover_one_recovery:
  "d_recovery (recover_one now d) = None \<longleftrightarrow> d_recovery d = None"
  by (cases "is_terminal (d_status d)"; cases "d_status d = Interrupted";
      auto simp: recover_one_open recover_one_other recover_one_interrupted is_terminal_def
        close_unfinished_recovery_def closed_recovery_def)

lemma map_step_if:
  "(\<And>x. sr_step (f x) = sr_step x) \<Longrightarrow>
   map (\<lambda>x. sr_step (if P x then f x else x)) xs = map sr_step xs"
  by simp

lemma sr_step_interrupted [simp]: "sr_step (interrupted_step now r) = sr_step r"
  by (simp add: interrupted_step_def)

lemma steps_ok_recover_one: "steps_ok (recover_one now d) = steps_ok d"
  by (cases "is_terminal (d_status d)"; cases "d_status d = Interrupted")
    (simp_all add: recover_one_open recover_one_other recover_one_interrupted is_terminal_def
       close_unfinished_recovery_def steps_ok_def comp_def map_step_if)

lemma skipped_ok_recover_one: "skipped_ok d \<Longrightarrow> skipped_ok (recover_one now d)"
  by (cases "is_terminal (d_status d)"; cases "d_status d = Interrupted";
      auto simp: recover_one_open recover_one_other recover_one_interrupted is_terminal_def
        close_unfinished_recovery_def interrupted_step_def skipped_ok_def)

lemma skipped_ok_update:
  "skipped_ok d \<Longrightarrow> (\<And>r. sr_status (f r) \<noteq> SPending) \<Longrightarrow> skipped_ok (update_step s f d)"
  using set_update_first_subset [of "\<lambda>r. sr_step r = s" f "d_steps d"]
  by (auto simp: skipped_ok_def update_step_def)

lemma steps_ok_op: "dep_op d d' \<Longrightarrow> steps_ok d \<Longrightarrow> steps_ok d'"
proof (induction rule: dep_op.induct)
  case (op_startup d now)
  then show ?case by (simp add: steps_ok_recover_one)
next
  case (op_explicit budget now d d')
  then show ?case by (auto dest!: begin_explicit_recovery_Inr simp: steps_ok_update) (simp add: steps_ok_def)
next
  case (op_start_step s now d d')
  then show ?case by (auto simp: start_step_def steps_ok_update split: option.splits if_splits)
next
  case (op_finish_step s ok msg now d d')
  then show ?case by (auto simp: finish_step_def Let_def steps_ok_update split: option.splits if_splits)
qed (auto simp: record_op_defs steps_ok_recover_one Let_def steps_ok_def comp_def map_step_if
       split: option.splits if_splits cutover_state.splits)

lemma skipped_ok_op: "dep_op d d' \<Longrightarrow> skipped_ok d \<Longrightarrow> skipped_ok d'"
proof (induction rule: dep_op.induct)
  case (op_startup d now)
  then show ?case by (rule skipped_ok_recover_one)
next
  case (op_explicit budget now d d')
  then show ?case
    by (auto dest!: begin_explicit_recovery_Inr intro!: skipped_ok_update) (simp add: skipped_ok_def)
next
  case (op_start_step s now d d')
  then show ?case by (auto simp: start_step_def intro!: skipped_ok_update split: option.splits if_splits)
next
  case (op_finish_step s ok msg now d d')
  then show ?case
    by (auto simp: finish_step_def Let_def intro!: skipped_ok_update split: option.splits if_splits)
next
  case (op_transition to now d d')
  then show ?case
    using transition_needs_open [of "d_status d" to]
    by (auto simp: transition_def skipped_ok_def Let_def split: if_splits)
qed (auto simp: record_op_defs Let_def skipped_ok_recover_one skipped_ok_def
       split: option.splits if_splits cutover_state.splits)

lemma cutover_ok_other:
  "d_cutover d' = d_cutover d \<Longrightarrow> d_interruption d' = d_interruption d \<Longrightarrow>
   (d_recovery d' = None) = (d_recovery d = None) \<Longrightarrow> was_restored d' = was_restored d \<Longrightarrow>
   cutover_ok d' = cutover_ok d"
  by (auto simp: cutover_ok_def interruption_open_def split: cutover_state.splits)

lemmas cutover_state_defs = cutover_ok_def interruption_open_def was_restored_def

lemma cutover_ok_op: "dep_op d d' \<Longrightarrow> cutover_ok d \<Longrightarrow> cutover_ok d'"
proof (induction rule: dep_op.induct)
  case (op_startup d now)
  then show ?case
    using cutover_ok_other [of "recover_one now d" d] by (simp add: recover_one_recovery)
next
  case (op_explicit budget now d d')
  then show ?case
    by (auto dest!: begin_explicit_recovery_Inr simp: update_step_def can_recover_explicitly_def
        is_begun_def cutover_state_defs split: cutover_state.splits option.splits)
next
  case (op_transition to now d d')
  then show ?case
    using cutover_ok_other [of d' d] by (auto simp: transition_def Let_def was_restored_def split: if_splits)
next
  case (op_start_step s now d d')
  then show ?case
    using cutover_ok_other [of d' d]
    by (auto simp: start_step_def update_step_def was_restored_def split: if_splits option.splits)
next
  case (op_finish_step s ok msg now d d')
  then show ?case
    using cutover_ok_other [of d' d]
    by (auto simp: finish_step_def Let_def update_step_def was_restored_def
        split: if_splits option.splits)
next
  case (op_finish_recovery outcome now d d')
  then show ?case
    by (cases outcome) (auto simp: finish_recovery_def Let_def end_interruption_def cutover_state_defs
        split: if_splits option.splits cutover_state.splits)
qed (auto simp: record_op_defs cutover_state_defs split: option.splits cutover_state.splits)

lemma reachable_record_ok: "reachable_record d \<Longrightarrow> steps_ok d \<and> skipped_ok d \<and> cutover_ok d"
proof (induction rule: reachable_record.induct)
  case (rr_new i app tr now)
  then show ?case
    by (simp add: deployment_new_def steps_ok_def skipped_ok_def cutover_ok_def is_terminal_def
        step_order_def)
next
  case (rr_op d d')
  then show ?case using steps_ok_op skipped_ok_op cutover_ok_op by blast
qed

text \<open>What one change may do to the status, the cutover and the recovery.\<close>

lemma dep_op_status: "dep_op d d' \<Longrightarrow> d_status d' = d_status d \<or> can_transition_to (d_status d) (d_status d')"
proof (induction rule: dep_op.induct)
  case (op_startup d now)
  then show ?case
    by (cases "is_terminal (d_status d)"; cases "d_status d = Interrupted")
      (simp_all add: recover_one_open recover_one_other recover_one_interrupted interrupt_allowed
         close_unfinished_recovery_def is_terminal_def)
next
  case (op_explicit budget now d d')
  then show ?case by (auto dest!: begin_explicit_recovery_Inr simp: update_step_def)
qed (auto simp: record_op_defs Let_def split: option.splits if_splits cutover_state.splits)

lemma dep_op_confirmed: "dep_op d d' \<Longrightarrow> d_cutover d = Confirmed at \<Longrightarrow> d_cutover d' = Confirmed at"
proof (induction rule: dep_op.induct)
  case (op_explicit budget now d d')
  then show ?case
    by (auto dest!: begin_explicit_recovery_Inr simp: can_recover_explicitly_def is_begun_def)
qed (auto simp: record_op_defs Let_def split: option.splits if_splits cutover_state.splits)

lemma dep_op_recovery:
  "dep_op d d' \<Longrightarrow> d_recovery d = Some r \<Longrightarrow>
   d_recovery d' = Some r \<or> (rec_outcome r = InProgress \<and> d_recovery d' \<noteq> None)"
proof (induction rule: dep_op.induct)
  case (op_startup d now)
  then show ?case
    by (cases "is_terminal (d_status d)"; cases "d_status d = Interrupted")
      (auto simp: recover_one_open recover_one_other recover_one_interrupted closed_recovery_def
         close_unfinished_recovery_def is_terminal_def)
next
  case (op_explicit budget now d d')
  then show ?case by (auto dest!: begin_explicit_recovery_Inr simp: can_recover_explicitly_def)
qed (auto simp: record_op_defs Let_def split: option.splits if_splits cutover_state.splits)

lemma dep_ops_status: "dep_op\<^sup>*\<^sup>* d d' \<Longrightarrow> is_terminal (d_status d) \<Longrightarrow> d_status d' = d_status d"
  by (induction rule: rtranclp_induct) (use dep_op_status transition_needs_open in fastforce)+

lemma dep_ops_confirmed: "dep_op\<^sup>*\<^sup>* d d' \<Longrightarrow> d_cutover d = Confirmed at \<Longrightarrow> d_cutover d' = Confirmed at"
  by (induction rule: rtranclp_induct) (use dep_op_confirmed in blast)+

lemma dep_ops_recovery:
  "dep_op\<^sup>*\<^sup>* d d' \<Longrightarrow> d_recovery d = Some r \<Longrightarrow> rec_outcome r \<noteq> InProgress \<Longrightarrow> d_recovery d' = Some r"
  by (induction rule: rtranclp_induct) (use dep_op_recovery in blast)+

lemma dep_ops_recovery_made: "dep_op\<^sup>*\<^sup>* d d' \<Longrightarrow> d_recovery d \<noteq> None \<Longrightarrow> d_recovery d' \<noteq> None"
  by (induction rule: rtranclp_induct) (use dep_op_recovery in fastforce)+

lemma down_iff_open: "cutover_ok d \<Longrightarrow> application_may_be_down d = interruption_open d"
  by (auto simp: application_may_be_down_def cutover_ok_def was_restored_def interruption_open_def
      split: cutover_state.splits option.splits)

text \<open>Startup, record by record.\<close>

definition recovery_closed :: "deployment \<Rightarrow> bool" where
  "recovery_closed d \<longleftrightarrow>
     (\<forall>r. d_recovery d = Some r \<longrightarrow> rec_outcome r \<noteq> InProgress) \<and>
     (\<forall>s \<in> set (d_steps d). \<not> (sr_step s = Recovery \<and> sr_status s = SRunning))"

lemma close_closed: "recovery_closed d \<Longrightarrow> close_unfinished_recovery now d = d"
proof -
  assume closed: "recovery_closed d"
  then have "map (\<lambda>s. if sr_step s = Recovery \<and> sr_status s = SRunning
                then s\<lparr>sr_status := SInterrupted, sr_finished_ms := Some now\<rparr> else s) (d_steps d) = d_steps d"
    by (intro map_idI) (auto simp: recovery_closed_def)
  with closed show ?thesis
    by (cases "d_recovery d") (auto simp: close_unfinished_recovery_def recovery_closed_def)
qed

lemma closed_recovery_done: "closed_recovery now x = Some r \<Longrightarrow> rec_outcome r \<noteq> InProgress"
  by (cases x) (auto simp: closed_recovery_def split: if_split_asm)

lemma close_unfinished_fields:
  "d_recovery (close_unfinished_recovery now d) = closed_recovery now (d_recovery d)"
  "d_steps (close_unfinished_recovery now d) =
     map (\<lambda>s. if sr_step s = Recovery \<and> sr_status s = SRunning
               then s\<lparr>sr_status := SInterrupted, sr_finished_ms := Some now\<rparr> else s) (d_steps d)"
  by (simp_all add: close_unfinished_recovery_def closed_recovery_def)

lemma close_unfinished_closed: "recovery_closed (close_unfinished_recovery now d)"
  unfolding recovery_closed_def close_unfinished_fields
  by (auto dest: closed_recovery_done)

lemma interrupted_step_done: "sr_status (interrupted_step now r) \<noteq> SRunning"
  by (simp add: interrupted_step_def)

lemma recover_one_closed: "d_status (recover_one now d) = Interrupted \<Longrightarrow> recovery_closed (recover_one now d)"
proof (cases "is_terminal (d_status d)")
  case True
  moreover assume "d_status (recover_one now d) = Interrupted"
  ultimately have "d_status d = Interrupted"
    by (cases "d_status d = Interrupted") (simp_all add: recover_one_other)
  then show ?thesis by (simp add: recover_one_interrupted close_unfinished_closed)
next
  case False
  then show ?thesis
    using closed_recovery_done [of now "d_recovery d"] interrupted_step_done
    by (auto simp: recover_one_open recovery_closed_def)
qed

lemma recover_one_idem: "recover_one later (recover_one now d) = recover_one now d"
proof (cases "d_status (recover_one now d) = Interrupted")
  case True
  then show ?thesis using close_closed recover_one_closed by (simp add: recover_one_interrupted)
next
  case False
  then show ?thesis by (simp add: recover_one_other)
qed

lemma application_may_be_down_was:
  "application_may_be_down d =
     (is_begun (d_cutover d) \<or> (is_failed (d_cutover d) \<and> \<not> was_restored d))"
  by (simp add: application_may_be_down_def is_begun_def is_failed_def was_restored_def
      split: cutover_state.splits)

lemma recover_one_down [simp]: "application_may_be_down (recover_one now d) = application_may_be_down d"
  by (simp add: application_may_be_down_was)

lemma recover_on_start_map:
  "recover_on_start now ds =
     (map (recover_one now) ds,
      \<lparr>su_interrupted = map d_id (filter (\<lambda>d. \<not> is_terminal (d_status d)) ds),
       su_incomplete =
         map d_id (filter (\<lambda>d. \<not> is_terminal (d_status d) \<and> application_may_be_down d) ds)\<rparr>)"
  by (induction ds) (auto simp: Let_def)

text \<open>Pauses: the list grows by the first cause of each application.\<close>

lemma pause_of_app [simp]: "tp_application (pause_of d) = d_app d"
  by (simp add: pause_of_def)

definition pauses_inv :: "trigger_pause list \<Rightarrow> deployment list \<Rightarrow> bool" where
  "pauses_inv out ds \<longleftrightarrow>
     distinct (map tp_application out) \<and>
     (\<forall>a. List.find (\<lambda>p. tp_application p = a) out =
          map_option pause_of (List.find (\<lambda>d. d_app d = a \<and> causes_pause d) ds))"

lemma find_None_app: "(List.find (\<lambda>p. tp_application p = a) out = None) = (a \<notin> tp_application ` set out)"
  by (auto simp: find_None_iff)

definition cause_in :: "deployment list \<Rightarrow> application_id \<Rightarrow> deployment option" where
  "cause_in ds a = List.find (\<lambda>d. d_app d = a \<and> causes_pause d) ds"

definition pause_in :: "trigger_pause list \<Rightarrow> application_id \<Rightarrow> trigger_pause option" where
  "pause_in out a = List.find (\<lambda>p. tp_application p = a) out"

lemma cause_in_snoc:
  "cause_in (ds @ [d]) a =
     (case cause_in ds a of Some x \<Rightarrow> Some x
      | None \<Rightarrow> if d_app d = a \<and> causes_pause d then Some d else None)"
  by (simp add: cause_in_def find_append split: option.split)

lemma pause_in_snoc:
  "pause_in (out @ [pause_of d]) a =
     (case pause_in out a of Some x \<Rightarrow> Some x | None \<Rightarrow> if d_app d = a then Some (pause_of d) else None)"
  by (simp add: pause_in_def find_append split: option.split)

lemma pause_step_inv: "pauses_inv out ds \<Longrightarrow> pauses_inv (pause_step out d) (ds @ [d])"
proof -
  assume inv: "pauses_inv out ds"
  then have dist: "distinct (map tp_application out)"
    and same: "\<And>a. pause_in out a = map_option pause_of (cause_in ds a)"
    by (simp_all add: pauses_inv_def pause_in_def cause_in_def)
  have fresh: "pause_in out a = None \<longleftrightarrow> a \<notin> tp_application ` set out" for a
    unfolding pause_in_def by (rule find_None_app)
  have "distinct (map tp_application (pause_step out d))"
    using dist by (auto simp: pause_step_def)
  moreover have "pause_in (pause_step out d) a = map_option pause_of (cause_in (ds @ [d]) a)" for a
  proof (cases "causes_pause d \<and> d_app d \<notin> tp_application ` set out")
    case True
    then have "pause_step out d = out @ [pause_of d]" by (auto simp: pause_step_def image_iff)
    with True same [of a] show ?thesis
      by (simp add: pause_in_snoc cause_in_snoc split: option.split)
  next
    case False
    then have "pause_step out d = out" by (auto simp: pause_step_def)
    with False same [of a] fresh [of a] show ?thesis
      by (auto simp: cause_in_snoc split: option.split)
  qed
  ultimately show ?thesis by (simp add: pauses_inv_def pause_in_def cause_in_def)
qed

lemma trigger_pauses_inv: "pauses_inv (trigger_pauses ds) ds"
proof (induction ds rule: rev_induct)
  case Nil
  show ?case by (simp add: trigger_pauses_def pauses_inv_def)
next
  case (snoc d ds)
  then show ?case using pause_step_inv by (simp add: trigger_pauses_def)
qed

section \<open>Properties\<close>

text \<open>
  Claim C10. Every record that the operations, the engine's assignments and startup can produce has
  its six steps in order, is stamped finished exactly when its status is terminal and then has no
  pending step, and \<open>application_may_be_down\<close> answers true exactly while an interruption is open:
  a stopped application is never reported as up, nor an untouched one as down.
\<close>

theorem record_invariant:
  assumes "reachable_record d"
  shows "map sr_step (d_steps d) = step_order \<and>
    is_terminal (d_status d) = (d_finished_ms d \<noteq> None) \<and>
    (is_terminal (d_status d) \<longrightarrow> (\<forall>r \<in> set (d_steps d). sr_status r \<noteq> SPending)) \<and>
    application_may_be_down d =
      (\<exists>i. d_interruption d = Some i \<and> int_ended_ms i = None)"
  using reachable_record_ok [OF assms] down_iff_open [of d]
  by (auto simp: steps_ok_def skipped_ok_def interruption_open_def split: option.splits)

definition example_down :: deployment where
  "example_down =
     (deployment_new (DeploymentId 7) (ApplicationId 3) Manual 100)
       \<lparr>d_cutover := Begun 120, d_interruption := Some \<lparr>int_started_ms = 120, int_ended_ms = None\<rparr>\<rparr>"

lemma example_down_reachable: "reachable_record example_down"
proof (rule rr_op [OF rr_new op_begin_cutover])
  show "begin_cutover 120 (deployment_new (DeploymentId 7) (ApplicationId 3) Manual 100) =
    Inr example_down"
    by (simp add: begin_cutover_def example_down_def deployment_new_def)
qed

theorem record_invariant_witness: "application_may_be_down example_down"
  using record_invariant [OF example_down_reachable] by (simp add: example_down_def)

text \<open>
  What has been decided stays decided, whatever operations, assignments and restarts
  follow: a terminal status never changes, a confirmed cutover is never undone or failed, a recorded
  recovery outcome is never rewritten, and once a recovery has been started no explicit recovery is
  possible again.
\<close>

theorem settled_stays_settled:
  assumes "dep_op\<^sup>*\<^sup>* d d'"
  shows "(is_terminal (d_status d) \<longrightarrow> d_status d' = d_status d) \<and>
    (\<forall>at. d_cutover d = Confirmed at \<longrightarrow> d_cutover d' = Confirmed at) \<and>
    (\<forall>r. d_recovery d = Some r \<longrightarrow> rec_outcome r \<noteq> InProgress \<longrightarrow> d_recovery d' = Some r) \<and>
    (d_recovery d \<noteq> None \<longrightarrow> \<not> can_recover_explicitly d')"
proof (intro conjI allI impI)
  assume "d_recovery d \<noteq> None"
  with assms have "d_recovery d' \<noteq> None" by (rule dep_ops_recovery_made)
  then show "\<not> can_recover_explicitly d'" by (simp add: can_recover_explicitly_def)
qed (use assms dep_ops_status dep_ops_confirmed dep_ops_recovery in blast)+

theorem settled_stays_settled_witness:
  "d_status (recover_one 9 (recover_one 5 example_down)) = d_status (recover_one 5 example_down)"
  using settled_stays_settled [OF r_into_rtranclp [where r = dep_op, OF op_startup [of "recover_one 5 example_down" 9]]]
  by simp

text \<open>
  Startup marks interrupted exactly the deployments that had not ended and reports them in
  order, reports as incomplete exactly those of them whose application may be down, leaves every
  deployment terminal, changes no cutover and no interruption, never claims a service restored, and
  a second startup changes nothing and reports nothing.
\<close>

theorem startup_exact:
  "recover_on_start now ds = (ds', rep) \<Longrightarrow>
   ds' = map (recover_one now) ds \<and>
   list_all (\<lambda>d. is_terminal (d_status d)) ds' \<and>
   map d_cutover ds' = map d_cutover ds \<and> map d_interruption ds' = map d_interruption ds \<and>
   map was_restored ds' = map was_restored ds \<and>
   su_interrupted rep = map d_id (filter (\<lambda>d. \<not> is_terminal (d_status d)) ds) \<and>
   su_incomplete rep =
     map d_id (filter (\<lambda>d. \<not> is_terminal (d_status d) \<and> application_may_be_down d) ds) \<and>
   recover_on_start later ds' = (ds', \<lparr>su_interrupted = [], su_incomplete = []\<rparr>)"
  by (auto simp: recover_on_start_map list_all_iff recover_one_idem comp_def)

theorem startup_exact_witness:
  "su_incomplete (snd (recover_on_start 5 [example_down])) = [DeploymentId 7]"
  using startup_exact [of 5 "[example_down]" "fst (recover_on_start 5 [example_down])"
      "snd (recover_on_start 5 [example_down])" 6]
  by (simp add: example_down_def deployment_new_def is_terminal_def application_may_be_down_def)

text \<open>
  The trigger pauses hold one entry per application, and an application's entry is that of
  the first of its records, in the order given, that failed or left open a cutover or completed a
  manual rollback; an application without such a record is not paused.
\<close>

theorem trigger_pauses_exact:
  "distinct (map tp_application (trigger_pauses ds)) \<and>
   List.find (\<lambda>p. tp_application p = a) (trigger_pauses ds) =
     map_option pause_of (List.find (\<lambda>d. d_app d = a \<and> causes_pause d) ds)"
  using trigger_pauses_inv [of ds] by (simp add: pauses_inv_def)

end
