(* ===== verification/Ledger.thy ===== *)
theory Ledger
  imports Ids
begin

text \<open>
  The durable resource ledger (\<open>deploy/src/ledger.rs\<close>): the records that bracket the creation and the
  removal of every external object, and the state that replaying them gives. A locale states what
  any state rebuilt from a journal by an \<open>apply\<close> function has; the ledger is one, and the control state
  another.
\<close>

section \<open>States rebuilt from a journal\<close>

text \<open>
  \<open>replay\<close> applies the records in order and stops at the first that cannot apply, with its index.
\<close>

locale replayed =
  fixes init :: 's and step1 :: "'s \<Rightarrow> 'r \<Rightarrow> 'e + 's" and inv :: "'s \<Rightarrow> bool"
  assumes inv_init: "inv init"
    and inv_apply: "inv s \<Longrightarrow> step1 s r = Inr s' \<Longrightarrow> inv s'"
begin

fun replay_at :: "nat \<Rightarrow> 's \<Rightarrow> 'r list \<Rightarrow> (nat \<times> 'e) + 's" where
  "replay_at i s [] = Inr s"
| "replay_at i s (r # rs) =
     (case step1 s r of Inl e \<Rightarrow> Inl (i, e) | Inr s' \<Rightarrow> replay_at (Suc i) s' rs)"

lemma replay_at_append:
  "replay_at i s (xs @ ys) =
     (case replay_at i s xs of Inl e \<Rightarrow> Inl e | Inr s' \<Rightarrow> replay_at (i + length xs) s' ys)"
  by (induction xs arbitrary: i s) (auto split: sum.splits)

lemma replay_at_inv: "inv s \<Longrightarrow> replay_at i s rs = Inr s' \<Longrightarrow> inv s'"
  by (induction rs arbitrary: i s) (auto split: sum.splits intro: inv_apply)

lemma replay_inv: "replay_at i init rs = Inr s \<Longrightarrow> inv s"
  using inv_init replay_at_inv by blast

lemma replay_at_index: "replay_at i s rs = Inr s' \<Longrightarrow> replay_at j s rs = Inr s'"
  by (induction rs arbitrary: i j s) (auto split: sum.splits)

lemma replay_at_prefix:
  "replay_at i s (xs @ ys) = Inr s' \<Longrightarrow> \<exists>m. replay_at i s xs = Inr m \<and> replay_at 0 m ys = Inr s'"
  by (auto simp: replay_at_append split: sum.splits dest: replay_at_index)

lemma replay_at_stops:
  "replay_at i s rs = Inl (n, e) \<Longrightarrow>
   i \<le> n \<and> n < i + length rs \<and>
   (\<exists>m. replay_at i s (take (n - i) rs) = Inr m \<and> step1 m (rs ! (n - i)) = Inl e)"
proof (induction rs arbitrary: i s)
  case Nil
  then show ?case by simp
next
  case (Cons r rs)
  show ?case
  proof (cases "step1 s r")
    case (Inl f)
    with Cons.prems show ?thesis by simp
  next
    case (Inr s')
    with Cons.prems Cons.IH [of "Suc i" s'] have
      "Suc i \<le> n \<and> n < Suc i + length rs \<and>
       (\<exists>m. replay_at (Suc i) s' (take (n - Suc i) rs) = Inr m \<and> step1 m (rs ! (n - Suc i)) = Inl e)"
      by simp
    moreover from this have "n - i = Suc (n - Suc i)" by (auto simp: Suc_diff_Suc)
    ultimately show ?thesis using Inr by auto
  qed
qed

text \<open>A relation every applied record respects, and that chains, relates a state to what follows it.\<close>

lemma replay_at_rel:
  assumes "\<And>s. R s s" and "\<And>s t u. R s t \<Longrightarrow> R t u \<Longrightarrow> R s u"
    and "\<And>s r s'. inv s \<Longrightarrow> step1 s r = Inr s' \<Longrightarrow> R s s'"
  shows "inv s \<Longrightarrow> replay_at i s rs = Inr s' \<Longrightarrow> R s s'"
proof (induction rs arbitrary: i s)
  case Nil
  then show ?case using assms(1) by simp
next
  case (Cons r rs)
  then obtain m where m: "step1 s r = Inr m" "replay_at (Suc i) m rs = Inr s'"
    by (auto split: sum.splits)
  with Cons have "R m s'" using inv_apply by blast
  with m(1) Cons.prems(1) assms(2,3) show ?case by blast
qed

end

section \<open>Identity and records\<close>

datatype resource_kind = Image | Container | PortLease

fun kind_str :: "resource_kind \<Rightarrow> string" where
  "kind_str Image = ''image''"
| "kind_str Container = ''container''"
| "kind_str PortLease = ''port''"

definition kind_parse :: "string \<Rightarrow> resource_kind option" where
  "kind_parse s =
     (if s = ''image'' then Some Image
      else if s = ''container'' then Some Container
      else if s = ''port'' then Some PortLease else None)"

record resource_key =
  rk_kind :: resource_kind
  rk_name :: string

definition resource_key_new :: "resource_kind \<Rightarrow> string \<Rightarrow> resource_key" where
  "resource_key_new k n = \<lparr>rk_kind = k, rk_name = n\<rparr>"

datatype disposition = Retain | RemoveOnFailure | RemoveAlways

fun disposition_str :: "disposition \<Rightarrow> string" where
  "disposition_str Retain = ''retain''"
| "disposition_str RemoveOnFailure = ''remove_on_failure''"
| "disposition_str RemoveAlways = ''remove_always''"

definition disposition_parse :: "string \<Rightarrow> disposition option" where
  "disposition_parse s =
     (if s = ''retain'' then Some Retain
      else if s = ''remove_on_failure'' then Some RemoveOnFailure
      else if s = ''remove_always'' then Some RemoveAlways else None)"

interpretation kind_tok: token_codec kind_str kind_parse
proof
  fix x :: resource_kind
  show "kind_parse (kind_str x) = Some x" by (cases x) (simp_all add: kind_parse_def)
next
  fix s x
  show "kind_parse s = Some x \<Longrightarrow> kind_str x = s" by (auto simp: kind_parse_def split: if_splits)
qed

interpretation disposition_tok: token_codec disposition_str disposition_parse
proof
  fix x :: disposition
  show "disposition_parse (disposition_str x) = Some x"
    by (cases x) (simp_all add: disposition_parse_def)
next
  fix s x
  show "disposition_parse s = Some x \<Longrightarrow> disposition_str x = s"
    by (auto simp: disposition_parse_def split: if_splits)
qed

datatype conflict_cause = DockerRefused | NotExclusive

fun conflict_cause_str :: "conflict_cause \<Rightarrow> string" where
  "conflict_cause_str DockerRefused = ''docker-refused''"
| "conflict_cause_str NotExclusive = ''not-exclusive''"

datatype cleanup_outcome =
    ORemoved | OAlreadyAbsent | OFailed string | ORefused string | OConflict conflict_cause string

datatype ledger_record =
    Intent resource_key application_id deployment_id disposition u64
  | Receipt resource_key deployment_id string u64
  | CleanupAttempt resource_key deployment_id u64
  | CleanupResult resource_key deployment_id cleanup_outcome u64

fun lr_deployment :: "ledger_record \<Rightarrow> deployment_id" where
  "lr_deployment (Intent k a d p t) = d"
| "lr_deployment (Receipt k d i t) = d"
| "lr_deployment (CleanupAttempt k d t) = d"
| "lr_deployment (CleanupResult k d oc t) = d"

fun lr_key :: "ledger_record \<Rightarrow> resource_key" where
  "lr_key (Intent k a d p t) = k"
| "lr_key (Receipt k d i t) = k"
| "lr_key (CleanupAttempt k d t) = k"
| "lr_key (CleanupResult k d oc t) = k"

section \<open>The state\<close>

datatype released = RRemoved | RAlreadyAbsent

datatype entry_state =
    Intended | Created | Released released | CleanupFailed string
  | CleanupConflict conflict_cause string | Refused string

record entry =
  e_key :: resource_key
  e_app :: application_id
  e_deployment :: deployment_id
  e_disposition :: disposition
  e_id :: "string option"
  e_state :: entry_state
  e_attempts :: u32
  e_outstanding :: bool
  e_intent_ms :: u64

definition is_released :: "entry \<Rightarrow> bool" where
  "is_released e \<longleftrightarrow> (case e_state e of Released _ \<Rightarrow> True | _ \<Rightarrow> False)"

definition is_refused :: "entry \<Rightarrow> bool" where
  "is_refused e \<longleftrightarrow> (case e_state e of Refused _ \<Rightarrow> True | _ \<Rightarrow> False)"

definition is_conflict :: "entry \<Rightarrow> bool" where
  "is_conflict e \<longleftrightarrow> (case e_state e of CleanupConflict _ _ \<Rightarrow> True | _ \<Rightarrow> False)"

definition needs_attention :: "entry \<Rightarrow> bool" where
  "needs_attention e \<longleftrightarrow> e_outstanding e \<or>
     (case e_state e of CleanupFailed _ \<Rightarrow> True | CleanupConflict _ _ \<Rightarrow> True | Refused _ \<Rightarrow> True
      | _ \<Rightarrow> False)"

datatype ledger_error =
    DuplicateIntent resource_key
  | UnknownEntry resource_key
  | ReceiptConflict resource_key
  | OutOfOrder resource_key string
  | LeaseHeld string deployment_id

text \<open>The ledger is its only field, the entries in the order of their intents.\<close>

type_synonym ledger = "entry list"

datatype end_state = EndSucceeded | NotSucceeded | FailedCutover

definition is_entry :: "deployment_id \<Rightarrow> resource_key \<Rightarrow> entry \<Rightarrow> bool" where
  "is_entry d k e \<longleftrightarrow> e_deployment e = d \<and> e_key e = k"

definition led_find :: "ledger \<Rightarrow> deployment_id \<Rightarrow> resource_key \<Rightarrow> entry option" where
  "led_find l d k = List.find (is_entry d k) l"

definition led_update :: "deployment_id \<Rightarrow> resource_key \<Rightarrow> (entry \<Rightarrow> entry) \<Rightarrow> ledger \<Rightarrow> ledger" where
  "led_update d k f l = update_first (is_entry d k) f l"

definition deferred_image_conflict :: "ledger \<Rightarrow> entry \<Rightarrow> end_state option \<Rightarrow> bool" where
  "deferred_image_conflict l e end \<longleftrightarrow>
     rk_kind (e_key e) = Image \<and> e_disposition e = Retain \<and> e_id e \<noteq> None \<and>
     \<not> e_outstanding e \<and> is_conflict e \<and> end = Some NotSucceeded \<and>
     list_all is_released (filter (\<lambda>x. e_deployment x = e_deployment e \<and> e_key x \<noteq> e_key e) l)"

definition needing_attention :: "ledger \<Rightarrow> entry list" where
  "needing_attention l = filter needs_attention l"

definition cleanup_interrupted :: "ledger \<Rightarrow> entry list" where
  "cleanup_interrupted l = filter e_outstanding l"

definition unsettled :: "ledger \<Rightarrow> entry list" where
  "unsettled l = filter (\<lambda>e. \<not> is_released e \<and> \<not> is_refused e) l"

definition leased_ports :: "ledger \<Rightarrow> u16 list" where
  "leased_ports l =
     List.map_filter (\<lambda>e. parse_word (rk_name (e_key e)))
       (filter (\<lambda>e. rk_kind (e_key e) = PortLease \<and> \<not> is_released e) l)"

section \<open>Applying a record\<close>

definition apply_intent ::
  "resource_key \<Rightarrow> application_id \<Rightarrow> deployment_id \<Rightarrow> disposition \<Rightarrow> u64 \<Rightarrow> ledger \<Rightarrow> ledger_error + ledger"
  where
  "apply_intent k a d p t l =
     (if led_find l d k \<noteq> None then Inl (DuplicateIntent k)
      else
        case (if rk_kind k = PortLease
              then List.find (\<lambda>e. e_key e = k \<and> e_deployment e \<noteq> d \<and> \<not> is_released e) l else None) of
          Some h \<Rightarrow> Inl (LeaseHeld (rk_name k) (e_deployment h))
        | None \<Rightarrow> Inr (l @ [\<lparr>e_key = k, e_app = a, e_deployment = d, e_disposition = p, e_id = None,
                          e_state = Intended, e_attempts = 0, e_outstanding = False, e_intent_ms = t\<rparr>]))"

definition apply_receipt :: "resource_key \<Rightarrow> deployment_id \<Rightarrow> string \<Rightarrow> ledger \<Rightarrow> ledger_error + ledger"
  where
  "apply_receipt k d i l =
     (case led_find l d k of
        None \<Rightarrow> Inl (ReceiptConflict k)
      | Some e \<Rightarrow>
          (case (e_id e, e_state e) of
             (None, Intended) \<Rightarrow> Inr (led_update d k (\<lambda>e. e\<lparr>e_id := Some i, e_state := Created\<rparr>) l)
           | (Some x, _) \<Rightarrow> if x = i then Inr l else Inl (ReceiptConflict k)
           | _ \<Rightarrow> Inl (ReceiptConflict k)))"

definition apply_attempt :: "resource_key \<Rightarrow> deployment_id \<Rightarrow> ledger \<Rightarrow> ledger_error + ledger" where
  "apply_attempt k d l =
     (case led_find l d k of
        None \<Rightarrow> Inl (UnknownEntry k)
      | Some e \<Rightarrow>
          if is_released e \<or> is_refused e then Inl (OutOfOrder k ''cleanup attempt on a settled entry'')
          else Inr (led_update d k (\<lambda>e. e\<lparr>e_attempts := e_attempts e + 1, e_outstanding := True\<rparr>) l))"

fun outcome_state :: "cleanup_outcome \<Rightarrow> entry_state" where
  "outcome_state ORemoved = Released RRemoved"
| "outcome_state OAlreadyAbsent = Released RAlreadyAbsent"
| "outcome_state (OFailed m) = CleanupFailed m"
| "outcome_state (ORefused m) = Refused m"
| "outcome_state (OConflict c m) = CleanupConflict c m"

definition is_conflict_outcome :: "cleanup_outcome \<Rightarrow> bool" where
  "is_conflict_outcome oc \<longleftrightarrow> (case oc of OConflict _ _ \<Rightarrow> True | _ \<Rightarrow> False)"

definition may_conflict :: "entry \<Rightarrow> bool" where
  "may_conflict e \<longleftrightarrow> rk_kind (e_key e) = Image \<and> e_disposition e = Retain \<and> e_id e \<noteq> None"

definition apply_result ::
  "resource_key \<Rightarrow> deployment_id \<Rightarrow> cleanup_outcome \<Rightarrow> ledger \<Rightarrow> ledger_error + ledger" where
  "apply_result k d oc l =
     (case led_find l d k of
        None \<Rightarrow> Inl (UnknownEntry k)
      | Some e \<Rightarrow>
          if \<not> e_outstanding e
          then Inl (OutOfOrder k ''cleanup result without an outstanding attempt'')
          else if is_conflict_outcome oc \<and> \<not> may_conflict e
          then Inl (OutOfOrder k
                 ''a conflict outcome belongs only to a retained image that has a receipt'')
          else Inr (led_update d k (\<lambda>e. e\<lparr>e_outstanding := False, e_state := outcome_state oc\<rparr>) l))"

fun led_apply :: "ledger \<Rightarrow> ledger_record \<Rightarrow> ledger_error + ledger" where
  "led_apply l (Intent k a d p t) = apply_intent k a d p t l"
| "led_apply l (Receipt k d i t) = apply_receipt k d i l"
| "led_apply l (CleanupAttempt k d t) = apply_attempt k d l"
| "led_apply l (CleanupResult k d oc t) = apply_result k d oc l"

fun led_replay_from :: "nat \<Rightarrow> ledger \<Rightarrow> ledger_record list \<Rightarrow> (nat \<times> ledger_error) + ledger" where
  "led_replay_from i l [] = Inr l"
| "led_replay_from i l (r # rs) =
     (case led_apply l r of Inl e \<Rightarrow> Inl (i, e) | Inr l' \<Rightarrow> led_replay_from (Suc i) l' rs)"

definition led_replay :: "ledger_record list \<Rightarrow> (nat \<times> ledger_error) + ledger" where
  "led_replay rs = led_replay_from 0 [] rs"

section \<open>Lookup and update\<close>

lemma is_entry_self [simp]: "is_entry (e_deployment e) (e_key e) e"
  by (simp add: is_entry_def)

lemma led_find_Some: "led_find l d k = Some e \<Longrightarrow> e \<in> set l \<and> e_deployment e = d \<and> e_key e = k"
  unfolding led_find_def by (drule find_Some_set) (simp add: is_entry_def)

lemma led_find_None: "led_find l d k = None \<longleftrightarrow> (d, k) \<notin> (\<lambda>e. (e_deployment e, e_key e)) ` set l"
  by (auto simp: led_find_def find_None_iff is_entry_def)

lemma led_find_append:
  "led_find (l @ m) d k = (case led_find l d k of None \<Rightarrow> led_find m d k | Some e \<Rightarrow> Some e)"
  unfolding led_find_def by (rule find_append)

definition keeps_identity :: "(entry \<Rightarrow> entry) \<Rightarrow> bool" where
  "keeps_identity f \<longleftrightarrow> (\<forall>e. e_key (f e) = e_key e \<and> e_deployment (f e) = e_deployment e \<and>
     e_app (f e) = e_app e \<and> e_disposition (f e) = e_disposition e \<and> e_intent_ms (f e) = e_intent_ms e)"

lemma keeps_identity_entry: "keeps_identity f \<Longrightarrow> is_entry d k (f e) = is_entry d k e"
  by (simp add: keeps_identity_def is_entry_def)

lemma keeps_receipt: "keeps_identity (\<lambda>e. e\<lparr>e_id := i, e_state := s\<rparr>)"
  and keeps_attempt: "keeps_identity (\<lambda>e. e\<lparr>e_attempts := e_attempts e + 1, e_outstanding := True\<rparr>)"
  and keeps_result: "keeps_identity (\<lambda>e. e\<lparr>e_outstanding := b, e_state := s\<rparr>)"
  by (simp_all add: keeps_identity_def)

lemmas keeps = keeps_receipt keeps_attempt keeps_result

lemma led_find_update:
  assumes "keeps_identity f"
  shows "led_find (led_update d k f l) d' k' =
    (if d' = d \<and> k' = k then map_option f (led_find l d k) else led_find l d' k')"
proof (cases "d' = d \<and> k' = k")
  case True
  then show ?thesis
    using find_update_first [of "is_entry d k" f] keeps_identity_entry [OF assms]
    by (simp add: led_find_def led_update_def)
next
  case False
  then have "\<not> is_entry d' k' e \<and> \<not> is_entry d' k' (f e)" if "is_entry d k e" for e
    using that keeps_identity_entry [OF assms] by (auto simp: is_entry_def)
  then have "led_find (led_update d k f l) d' k' = led_find l d' k'"
    by (simp add: led_find_def led_update_def find_update_first_other)
  with False show ?thesis by auto
qed

lemma led_update_ids: "keeps_identity f \<Longrightarrow>
   map (\<lambda>e. (e_deployment e, e_key e)) (led_update d k f l) = map (\<lambda>e. (e_deployment e, e_key e)) l"
  unfolding led_update_def by (rule update_first_map) (simp add: keeps_identity_def)

lemma led_update_set:
  "e \<in> set (led_update d k f l) \<Longrightarrow> led_find l d k = Some x \<Longrightarrow>
   e \<in> set l \<or> e = f x"
  using update_first_split [of "is_entry d k" l x f] by (auto simp: led_find_def led_update_def)

section \<open>The invariant\<close>

definition entry_ok :: "entry \<Rightarrow> bool" where
  "entry_ok e \<longleftrightarrow>
     (e_state e = Intended \<longrightarrow> e_id e = None) \<and>
     (e_state e = Created \<longrightarrow> e_id e \<noteq> None) \<and>
     (is_released e \<or> is_refused e \<longrightarrow> \<not> e_outstanding e) \<and>
     (is_conflict e \<longrightarrow> may_conflict e)"

definition lease_unique :: "ledger \<Rightarrow> bool" where
  "lease_unique l \<longleftrightarrow>
     (\<forall>e \<in> set l. \<forall>f \<in> set l. rk_kind (e_key e) = PortLease \<longrightarrow> e_key f = e_key e \<longrightarrow>
        \<not> is_released e \<longrightarrow> \<not> is_released f \<longrightarrow> e_deployment f = e_deployment e)"

definition led_inv :: "ledger \<Rightarrow> bool" where
  "led_inv l \<longleftrightarrow>
     distinct (map (\<lambda>e. (e_deployment e, e_key e)) l) \<and> list_all entry_ok l \<and> lease_unique l"

lemma led_inv_update:
  assumes inv: "led_inv l" and found: "led_find l d k = Some x" and live: "\<not> is_released x"
    and keeps: "keeps_identity f" and ok: "entry_ok (f x)"
  shows "led_inv (led_update d k f l)"
proof -
  have x: "x \<in> set l" "e_deployment x = d" "e_key x = k" using led_find_Some [OF found] by auto
  have fx: "e_deployment (f x) = d" "e_key (f x) = k" using keeps x by (auto simp: keeps_identity_def)
  have sub: "e \<in> set l \<or> e = f x" if "e \<in> set (led_update d k f l)" for e
    using led_update_set [OF that found] .
  have "lease_unique (led_update d k f l)"
    unfolding lease_unique_def
  proof (intro ballI impI)
    fix e g
    assume e: "e \<in> set (led_update d k f l)" and g: "g \<in> set (led_update d k f l)"
      and port: "rk_kind (e_key e) = PortLease" and same: "e_key g = e_key e"
      and open_e: "\<not> is_released e" and open_g: "\<not> is_released g"
    define e' where "e' = (if e = f x then x else e)"
    define g' where "g' = (if g = f x then x else g)"
    have "e' \<in> set l" "g' \<in> set l" using sub [OF e] sub [OF g] x by (auto simp: e'_def g'_def)
    moreover have "\<not> is_released e'" "\<not> is_released g'" using open_e open_g live
      by (auto simp: e'_def g'_def)
    moreover have "e_key e' = e_key e" "e_key g' = e_key g" "e_deployment e' = e_deployment e"
      "e_deployment g' = e_deployment g" using x fx by (auto simp: e'_def g'_def)
    ultimately show "e_deployment g = e_deployment e"
      using inv port same by (metis led_inv_def lease_unique_def)
  qed
  moreover have "list_all entry_ok (led_update d k f l)"
    using inv sub ok by (auto simp: led_inv_def list_all_iff)
  moreover have "distinct (map (\<lambda>e. (e_deployment e, e_key e)) (led_update d k f l))"
    unfolding led_update_ids [OF keeps] using inv by (simp add: led_inv_def)
  ultimately show ?thesis by (simp add: led_inv_def)
qed

lemma led_inv_entry: "led_inv l \<Longrightarrow> led_find l d k = Some e \<Longrightarrow> entry_ok e"
  using led_find_Some by (fastforce simp: led_inv_def list_all_iff)

text \<open>What an accepted record did, kind by kind.\<close>

lemma apply_intent_Inr:
  "apply_intent k a d p t l = Inr l' \<longleftrightarrow>
     led_find l d k = None \<and>
     \<not> (rk_kind k = PortLease \<and> (\<exists>e \<in> set l. e_key e = k \<and> e_deployment e \<noteq> d \<and> \<not> is_released e)) \<and>
     l' = l @ [\<lparr>e_key = k, e_app = a, e_deployment = d, e_disposition = p, e_id = None,
                e_state = Intended, e_attempts = 0, e_outstanding = False, e_intent_ms = t\<rparr>]"
  by (auto simp: apply_intent_def find_None_iff find_Some_iff split: option.splits)

lemma apply_receipt_Inr:
  "apply_receipt k d i l = Inr l' \<longleftrightarrow>
     (\<exists>e. led_find l d k = Some e \<and>
        ((e_id e = None \<and> e_state e = Intended \<and>
          l' = led_update d k (\<lambda>e. e\<lparr>e_id := Some i, e_state := Created\<rparr>) l) \<or>
         (e_id e = Some i \<and> l' = l)))"
  by (auto simp: apply_receipt_def split: option.splits entry_state.splits)

lemma apply_attempt_Inr:
  "apply_attempt k d l = Inr l' \<longleftrightarrow>
     (\<exists>e. led_find l d k = Some e \<and> \<not> is_released e \<and> \<not> is_refused e \<and>
        l' = led_update d k (\<lambda>e. e\<lparr>e_attempts := e_attempts e + 1, e_outstanding := True\<rparr>) l)"
  by (auto simp: apply_attempt_def split: option.splits)

lemma apply_result_Inr:
  "apply_result k d oc l = Inr l' \<longleftrightarrow>
     (\<exists>e. led_find l d k = Some e \<and> e_outstanding e \<and> (is_conflict_outcome oc \<longrightarrow> may_conflict e) \<and>
        l' = led_update d k (\<lambda>e. e\<lparr>e_outstanding := False, e_state := outcome_state oc\<rparr>) l)"
  by (auto simp: apply_result_def split: option.splits if_splits)

lemmas apply_Inr = apply_intent_Inr apply_receipt_Inr apply_attempt_Inr apply_result_Inr

lemma outcome_conflict [simp]: "is_conflict (e\<lparr>e_outstanding := b, e_state := outcome_state oc\<rparr>) = is_conflict_outcome oc"
  by (cases oc) (simp_all add: is_conflict_def is_conflict_outcome_def)

lemma led_inv_intent:
  assumes inv: "led_inv l" and ok: "apply_intent k a d p t l = Inr l'"
  shows "led_inv l'"
proof -
  define n where "n = \<lparr>e_key = k, e_app = a, e_deployment = d, e_disposition = p, e_id = None,
      e_state = Intended, e_attempts = 0, e_outstanding = False, e_intent_ms = t\<rparr>"
  have n: "e_key n = k" "e_deployment n = d" "entry_ok n"
    by (simp_all add: n_def entry_ok_def is_released_def is_refused_def is_conflict_def)
  have conj: "led_find l d k = None \<and>
      \<not> (rk_kind k = PortLease \<and> (\<exists>e \<in> set l. e_key e = k \<and> e_deployment e \<noteq> d \<and> \<not> is_released e)) \<and>
      l' = l @ [n]"
    using ok unfolding apply_intent_Inr n_def .
  then have new: "led_find l d k = None" and l': "l' = l @ [n]" by blast+
  have lease: "e_deployment e = d"
    if "e \<in> set l" "e_key e = k" "rk_kind k = PortLease" "\<not> is_released e" for e
    using that conj by blast
  have "distinct (map (\<lambda>e. (e_deployment e, e_key e)) l')"
    using new inv n(1,2) by (simp add: l' led_find_None led_inv_def)
  moreover have "list_all entry_ok l'" using inv n(3) by (simp add: l' led_inv_def)
  moreover have "lease_unique l'"
    unfolding lease_unique_def
  proof (intro ballI impI)
    fix e f
    assume e: "e \<in> set l'" and f: "f \<in> set l'" and port: "rk_kind (e_key e) = PortLease"
      and same: "e_key f = e_key e" and live: "\<not> is_released e" "\<not> is_released f"
    from e f consider "e \<in> set l" "f \<in> set l" | "e \<in> set l" "f = n" | "e = n" "f \<in> set l" | "e = n" "f = n"
      unfolding l' by fastforce
    then show "e_deployment f = e_deployment e"
    proof cases
      case 1
      then show ?thesis using inv port same live unfolding led_inv_def lease_unique_def by blast
    next
      case 2
      then show ?thesis using lease [of e] n(1,2) same port live by simp
    next
      case 3
      then show ?thesis using lease [of f] n(1,2) same port live by simp
    next
      case 4
      then show ?thesis by simp
    qed
  qed
  ultimately show ?thesis by (simp add: led_inv_def)
qed

lemma led_inv_receipt:
  assumes inv: "led_inv l" and ok: "apply_receipt k d i l = Inr l'"
  shows "led_inv l'"
proof -
  obtain e where e: "led_find l d k = Some e"
    and cs: "(e_id e = None \<and> e_state e = Intended \<and>
        l' = led_update d k (\<lambda>e. e\<lparr>e_id := Some i, e_state := Created\<rparr>) l) \<or> l' = l"
    using ok by (auto simp: apply_receipt_Inr)
  from cs show ?thesis
  proof
    assume "l' = l"
    with inv show ?thesis by simp
  next
    assume c: "e_id e = None \<and> e_state e = Intended \<and>
      l' = led_update d k (\<lambda>e. e\<lparr>e_id := Some i, e_state := Created\<rparr>) l"
    have "\<not> is_released e" using c by (simp add: is_released_def)
    moreover have "entry_ok (e\<lparr>e_id := Some i, e_state := Created\<rparr>)"
      by (simp add: entry_ok_def is_released_def is_refused_def is_conflict_def)
    ultimately show ?thesis
      using led_inv_update [OF inv e _ keeps_receipt] c by simp
  qed
qed

lemma led_inv_attempt:
  assumes inv: "led_inv l" and ok: "apply_attempt k d l = Inr l'"
  shows "led_inv l'"
proof -
  obtain e where e: "led_find l d k = Some e" "\<not> is_released e" "\<not> is_refused e"
    and l': "l' = led_update d k (\<lambda>e. e\<lparr>e_attempts := e_attempts e + 1, e_outstanding := True\<rparr>) l"
    using ok by (auto simp: apply_attempt_Inr)
  have "entry_ok (e\<lparr>e_attempts := e_attempts e + 1, e_outstanding := True\<rparr>)"
    using led_inv_entry [OF inv e(1)] e(2,3)
    by (simp add: entry_ok_def is_released_def is_refused_def is_conflict_def may_conflict_def)
  then show ?thesis unfolding l' by (rule led_inv_update [OF inv e(1,2) keeps_attempt])
qed

lemma led_inv_result:
  assumes inv: "led_inv l" and ok: "apply_result k d oc l = Inr l'"
  shows "led_inv l'"
proof -
  obtain e where e: "led_find l d k = Some e" "e_outstanding e"
      "is_conflict_outcome oc \<longrightarrow> may_conflict e"
    and l': "l' = led_update d k (\<lambda>e. e\<lparr>e_outstanding := False, e_state := outcome_state oc\<rparr>) l"
    using ok by (auto simp: apply_result_Inr)
  have live: "\<not> is_released e" using led_inv_entry [OF inv e(1)] e(2) by (auto simp: entry_ok_def)
  have "entry_ok (e\<lparr>e_outstanding := False, e_state := outcome_state oc\<rparr>)"
    using e(3) by (cases oc)
      (simp_all add: entry_ok_def may_conflict_def is_conflict_def is_conflict_outcome_def)
  then show ?thesis unfolding l' by (rule led_inv_update [OF inv e(1) live keeps_result])
qed

lemma led_inv_apply: "led_inv l \<Longrightarrow> led_apply l r = Inr l' \<Longrightarrow> led_inv l'"
  by (cases r) (auto dest: led_inv_intent led_inv_receipt led_inv_attempt led_inv_result)

interpretation led: replayed "[]" led_apply led_inv
proof
  show "led_inv []" by (simp add: led_inv_def lease_unique_def)
next
  fix l l' r
  show "led_inv l \<Longrightarrow> led_apply l r = Inr l' \<Longrightarrow> led_inv l'" by (rule led_inv_apply)
qed

lemma led_replay_from_eq: "led_replay_from i l rs = led.replay_at i l rs"
  by (induction rs arbitrary: i l) (auto split: sum.splits)

lemma led_replay_inv: "led_replay rs = Inr l \<Longrightarrow> led_inv l"
  unfolding led_replay_def led_replay_from_eq by (rule led.replay_inv)

section \<open>The ledger as a function of each object's own records\<close>

text \<open>
  The abstract specification: an entry is read off the journal records that name it, without any
  state. Its identity is that of its intent, its id that of the first receipt, its state that of the
  last cleanup result (or what intent and receipt make it), and a cleanup is outstanding when the last
  cleanup record is an attempt.
\<close>

definition about :: "deployment_id \<Rightarrow> resource_key \<Rightarrow> ledger_record \<Rightarrow> bool" where
  "about d k r \<longleftrightarrow> lr_deployment r = d \<and> lr_key r = k"

fun is_intent :: "ledger_record \<Rightarrow> bool" where
  "is_intent (Intent _ _ _ _ _) = True"
| "is_intent _ = False"

fun receipt_id :: "ledger_record \<Rightarrow> string option" where
  "receipt_id (Receipt _ _ i _) = Some i"
| "receipt_id _ = None"

fun result_of :: "ledger_record \<Rightarrow> cleanup_outcome option" where
  "result_of (CleanupResult _ _ oc _) = Some oc"
| "result_of _ = None"

fun is_attempt :: "ledger_record \<Rightarrow> bool" where
  "is_attempt (CleanupAttempt _ _ _) = True"
| "is_attempt _ = False"

definition first_receipt :: "ledger_record list \<Rightarrow> string option" where
  "first_receipt h = (case List.map_filter receipt_id h of [] \<Rightarrow> None | i # _ \<Rightarrow> Some i)"

definition last_result :: "ledger_record list \<Rightarrow> cleanup_outcome option" where
  "last_result h = (case rev (List.map_filter result_of h) of [] \<Rightarrow> None | oc # _ \<Rightarrow> Some oc)"

definition attempt_pending :: "ledger_record list \<Rightarrow> bool" where
  "attempt_pending h =
     (case rev (filter (\<lambda>r. is_attempt r \<or> result_of r \<noteq> None) h) of [] \<Rightarrow> False | r # _ \<Rightarrow> is_attempt r)"

definition history_state :: "ledger_record list \<Rightarrow> entry_state" where
  "history_state h =
     (case last_result h of
        Some oc \<Rightarrow> outcome_state oc
      | None \<Rightarrow> if first_receipt h = None then Intended else Created)"

fun history_entry :: "ledger_record list \<Rightarrow> entry option" where
  "history_entry (Intent k a d p t # h) =
     Some \<lparr>e_key = k, e_app = a, e_deployment = d, e_disposition = p, e_id = first_receipt h,
           e_state = history_state h, e_attempts = of_nat (length (filter is_attempt h)),
           e_outstanding = attempt_pending h, e_intent_ms = t\<rparr>"
| "history_entry _ = None"

lemmas history_defs = first_receipt_def last_result_def attempt_pending_def history_state_def

lemma map_filter_append: "List.map_filter f (xs @ ys) = List.map_filter f xs @ List.map_filter f ys"
  by (simp add: List.map_filter_def)

lemma map_filter_single: "List.map_filter f [x] = (case f x of None \<Rightarrow> [] | Some y \<Rightarrow> [y])"
  by (simp add: List.map_filter_def split: option.split)

lemmas map_filter_snoc = map_filter_append map_filter_single

lemma first_receipt_snoc:
  "first_receipt (h @ [r]) = (case first_receipt h of Some i \<Rightarrow> Some i | None \<Rightarrow> receipt_id r)"
  by (simp add: first_receipt_def map_filter_snoc split: list.split option.split)

lemma last_result_snoc:
  "last_result (h @ [r]) = (case result_of r of Some oc \<Rightarrow> Some oc | None \<Rightarrow> last_result h)"
  by (simp add: last_result_def map_filter_snoc split: option.split)

lemma attempt_pending_snoc:
  "attempt_pending (h @ [r]) =
     (if is_attempt r then True else if result_of r \<noteq> None then False else attempt_pending h)"
  by (simp add: attempt_pending_def)

lemma outcome_not_intended [simp]: "outcome_state oc \<noteq> Intended" "outcome_state oc \<noteq> Created"
  by (cases oc; simp)+

lemma history_state_intended: "history_state h = Intended \<longleftrightarrow> last_result h = None \<and> first_receipt h = None"
  by (simp add: history_state_def split: option.split)

lemma led_replay_snoc:
  "led_replay (rs @ [r]) = Inr l' \<longleftrightarrow> (\<exists>l. led_replay rs = Inr l \<and> led_apply l r = Inr l')"
  by (auto simp: led_replay_def led_replay_from_eq led.replay_at_append split: sum.splits)

lemma history_Some: "history_entry h = Some e \<Longrightarrow> \<exists>k a d p t g. h = Intent k a d p t # g"
  by (cases h rule: history_entry.cases) auto

lemma history_receipt_new:
  "history_entry h = Some e \<Longrightarrow> e_id e = None \<Longrightarrow> e_state e = Intended \<Longrightarrow>
   history_entry (h @ [Receipt k d i t]) = Some (e\<lparr>e_id := Some i, e_state := Created\<rparr>)"
  by (cases h rule: history_entry.cases)
    (auto simp: first_receipt_snoc last_result_snoc attempt_pending_snoc history_state_def
      split: option.splits)

lemma history_receipt_again:
  "history_entry h = Some e \<Longrightarrow> e_id e = Some i \<Longrightarrow> history_entry (h @ [Receipt k d i t]) = Some e"
  by (cases h rule: history_entry.cases)
    (auto simp: first_receipt_snoc last_result_snoc attempt_pending_snoc history_state_def
      split: option.splits)

lemma history_attempt:
  "history_entry h = Some e \<Longrightarrow>
   history_entry (h @ [CleanupAttempt k d t]) =
     Some (e\<lparr>e_attempts := e_attempts e + 1, e_outstanding := True\<rparr>)"
  by (cases h rule: history_entry.cases)
    (auto simp: first_receipt_snoc last_result_snoc attempt_pending_snoc history_state_def
      split: option.splits)

lemma history_result:
  "history_entry h = Some e \<Longrightarrow>
   history_entry (h @ [CleanupResult k d oc t]) =
     Some (e\<lparr>e_outstanding := False, e_state := outcome_state oc\<rparr>)"
  by (cases h rule: history_entry.cases)
    (auto simp: first_receipt_snoc last_result_snoc attempt_pending_snoc history_state_def
      split: option.splits)

lemma led_update_other:
  "keeps_identity f \<Longrightarrow> \<not> (d' = d \<and> k' = k) \<Longrightarrow> led_find (led_update d k f l) d' k' = led_find l d' k'"
  by (auto simp: led_find_update)

lemma led_find_single: "led_find [n] d k = (if is_entry d k n then Some n else None)"
  by (simp add: led_find_def)

lemmas led_find_snoc = led_find_append led_find_single

lemma led_apply_other:
  assumes "led_apply l r = Inr l'" and "\<not> about d k r"
  shows "led_find l' d k = led_find l d k"
proof (cases r)
  case (Intent k0 a d0 p t)
  with assms show ?thesis
    by (auto simp: apply_intent_Inr led_find_snoc about_def is_entry_def split: option.split)
next
  case (Receipt k0 d0 i t)
  with assms show ?thesis
    by (auto simp: apply_receipt_Inr about_def intro!: led_update_other keeps)
next
  case (CleanupAttempt k0 d0 t)
  with assms show ?thesis
    by (auto simp: apply_attempt_Inr about_def intro!: led_update_other keeps)
next
  case (CleanupResult k0 d0 oc t)
  with assms show ?thesis
    by (auto simp: apply_result_Inr about_def intro!: led_update_other keeps)
qed

lemma led_apply_about:
  assumes ok: "led_apply l r = Inr l'" and ab: "about d k r" and h: "led_find l d k = history_entry h"
    and empty: "led_find l d k = None \<Longrightarrow> h = []"
  shows "led_find l' d k = history_entry (h @ [r])"
proof (cases r)
  case (Intent k0 a d0 p t)
  with ok ab have new: "led_find l d k = None" and l': "l' = l @ [\<lparr>e_key = k, e_app = a, e_deployment = d,
      e_disposition = p, e_id = None, e_state = Intended, e_attempts = 0, e_outstanding = False,
      e_intent_ms = t\<rparr>]"
    by (simp_all add: apply_intent_Inr about_def)
  with empty have "h = []" by simp
  then show ?thesis
    using Intent ab new
    by (simp add: l' led_find_snoc about_def is_entry_def history_defs List.map_filter_def)
next
  case (Receipt k0 d0 i t)
  with ok ab obtain e where e: "led_find l d k = Some e"
    and cs: "(e_id e = None \<and> e_state e = Intended \<and>
        l' = led_update d k (\<lambda>e. e\<lparr>e_id := Some i, e_state := Created\<rparr>) l) \<or> (e_id e = Some i \<and> l' = l)"
    by (auto simp: apply_receipt_Inr about_def)
  then show ?thesis
    using h Receipt history_receipt_new [of h e k0 d0 i t] history_receipt_again [of h e i k0 d0 t]
    by (auto simp: led_find_update [OF keeps_receipt])
next
  case (CleanupAttempt k0 d0 t)
  with ok ab obtain e where e: "led_find l d k = Some e"
    and l': "l' = led_update d k (\<lambda>e. e\<lparr>e_attempts := e_attempts e + 1, e_outstanding := True\<rparr>) l"
    by (auto simp: apply_attempt_Inr about_def)
  then show ?thesis
    using h CleanupAttempt history_attempt [of h e k0 d0 t]
    by (simp add: led_find_update [OF keeps_attempt])
next
  case (CleanupResult k0 d0 oc t)
  with ok ab obtain e where e: "led_find l d k = Some e"
    and l': "l' = led_update d k (\<lambda>e. e\<lparr>e_outstanding := False, e_state := outcome_state oc\<rparr>) l"
    by (auto simp: apply_result_Inr about_def)
  then show ?thesis
    using h CleanupResult history_result [of h e k0 d0 oc t]
    by (simp add: led_find_update [OF keeps_result])
qed

lemma led_apply_finds: "led_apply l r = Inr l' \<Longrightarrow> about d k r \<Longrightarrow> led_find l' d k \<noteq> None"
  by (cases r)
    (auto simp: apply_Inr about_def led_find_snoc led_find_update [OF keeps_receipt]
      led_find_update [OF keeps_attempt] led_find_update [OF keeps_result] is_entry_def)

lemma led_replay_history:
  "led_replay rs = Inr l \<Longrightarrow>
   led_find l d k = history_entry (filter (about d k) rs) \<and>
   (led_find l d k = None \<longrightarrow> filter (about d k) rs = [])"
proof (induction rs arbitrary: l rule: rev_induct)
  case Nil
  then show ?case by (simp add: led_replay_def led_find_def)
next
  case (snoc r rs)
  then obtain m where m: "led_replay rs = Inr m" "led_apply m r = Inr l"
    by (auto simp: led_replay_snoc)
  note IH = snoc.IH [OF m(1)]
  show ?case
  proof (cases "about d k r")
    case True
    then show ?thesis
      using led_apply_about [OF m(2) True] led_apply_finds [OF m(2) True] IH by simp
  next
    case False
    then show ?thesis using led_apply_other [OF m(2) False] IH by simp
  qed
qed

section \<open>What later records leave alone\<close>

text \<open>\<open>follows l m\<close>: \<open>m\<close> keeps every entry of \<open>l\<close>, its identity, its receipt, and it if it is settled.\<close>

definition follows :: "ledger \<Rightarrow> ledger \<Rightarrow> bool" where
  "follows l m \<longleftrightarrow> (\<forall>d k e. led_find l d k = Some e \<longrightarrow>
     (\<exists>f. led_find m d k = Some f \<and> e_app f = e_app e \<and> e_disposition f = e_disposition e \<and>
        e_intent_ms f = e_intent_ms e \<and> (e_id e \<noteq> None \<longrightarrow> e_id f = e_id e) \<and>
        (is_released e \<or> is_refused e \<longrightarrow> f = e)))"

lemma followsD:
  "follows l m \<Longrightarrow> led_find l d k = Some e \<Longrightarrow>
   \<exists>f. led_find m d k = Some f \<and> e_app f = e_app e \<and> e_disposition f = e_disposition e \<and>
     e_intent_ms f = e_intent_ms e \<and> (e_id e \<noteq> None \<longrightarrow> e_id f = e_id e) \<and>
     (is_released e \<or> is_refused e \<longrightarrow> f = e)"
  unfolding follows_def by blast

lemma follows_refl: "follows l l"
  unfolding follows_def by blast

lemma follows_trans:
  assumes "follows l m" and "follows m n"
  shows "follows l n"
  unfolding follows_def
proof (intro allI impI)
  fix d k e
  assume "led_find l d k = Some e"
  from followsD [OF assms(1) this] obtain f where f: "led_find m d k = Some f" "e_app f = e_app e"
      "e_disposition f = e_disposition e" "e_intent_ms f = e_intent_ms e"
      "e_id e \<noteq> None \<longrightarrow> e_id f = e_id e" "is_released e \<or> is_refused e \<longrightarrow> f = e" by blast
  from followsD [OF assms(2) f(1)] obtain g where g: "led_find n d k = Some g" "e_app g = e_app f"
      "e_disposition g = e_disposition f" "e_intent_ms g = e_intent_ms f"
      "e_id f \<noteq> None \<longrightarrow> e_id g = e_id f" "is_released f \<or> is_refused f \<longrightarrow> g = f" by blast
  from f g show "\<exists>g. led_find n d k = Some g \<and> e_app g = e_app e \<and> e_disposition g = e_disposition e \<and>
      e_intent_ms g = e_intent_ms e \<and> (e_id e \<noteq> None \<longrightarrow> e_id g = e_id e) \<and>
      (is_released e \<or> is_refused e \<longrightarrow> g = e)"
    by (intro exI [of _ g]) simp
qed

lemma follows_update:
  assumes x: "led_find l d k = Some x" and f: "keeps_identity f"
    and id: "e_id x \<noteq> None \<longrightarrow> e_id (f x) = e_id x" and live: "\<not> is_released x" "\<not> is_refused x"
  shows "follows l (led_update d k f l)"
  unfolding follows_def
proof (intro allI impI)
  fix d' k' e
  assume e: "led_find l d' k' = Some e"
  show "\<exists>g. led_find (led_update d k f l) d' k' = Some g \<and> e_app g = e_app e \<and>
      e_disposition g = e_disposition e \<and> e_intent_ms g = e_intent_ms e \<and>
      (e_id e \<noteq> None \<longrightarrow> e_id g = e_id e) \<and> (is_released e \<or> is_refused e \<longrightarrow> g = e)"
  proof (cases "d' = d \<and> k' = k")
    case True
    with e x have "e = x" by simp
    with True x f id live show ?thesis
      by (intro exI [of _ "f x"]) (simp add: led_find_update keeps_identity_def)
  next
    case False
    with e show ?thesis by (intro exI [of _ e]) (simp add: led_update_other [OF f])
  qed
qed

lemma follows_intent: "apply_intent k a d p t l = Inr l' \<Longrightarrow> follows l l'"
  unfolding apply_intent_Inr follows_def by (elim conjE) (simp add: led_find_append)

lemma follows_receipt: "apply_receipt k d i l = Inr l' \<Longrightarrow> follows l l'"
proof -
  assume "apply_receipt k d i l = Inr l'"
  then obtain e where e: "led_find l d k = Some e"
    and cs: "(e_id e = None \<and> e_state e = Intended \<and>
        l' = led_update d k (\<lambda>e. e\<lparr>e_id := Some i, e_state := Created\<rparr>) l) \<or> l' = l"
    by (auto simp: apply_receipt_Inr)
  from cs show ?thesis
  proof
    assume c: "e_id e = None \<and> e_state e = Intended \<and>
      l' = led_update d k (\<lambda>e. e\<lparr>e_id := Some i, e_state := Created\<rparr>) l"
    then have "\<not> is_released e" "\<not> is_refused e" by (simp_all add: is_released_def is_refused_def)
    with c follows_update [OF e keeps_receipt] show ?thesis by simp
  next
    assume "l' = l"
    then show ?thesis using follows_refl by simp
  qed
qed

lemma follows_attempt: "apply_attempt k d l = Inr l' \<Longrightarrow> follows l l'"
  unfolding apply_attempt_Inr by (auto intro: follows_update [OF _ keeps_attempt])

lemma follows_result:
  assumes inv: "led_inv l" and ok: "apply_result k d oc l = Inr l'"
  shows "follows l l'"
proof -
  obtain e where e: "led_find l d k = Some e" "e_outstanding e"
    and l': "l' = led_update d k (\<lambda>e. e\<lparr>e_outstanding := False, e_state := outcome_state oc\<rparr>) l"
    using ok by (auto simp: apply_result_Inr)
  have "\<not> is_released e" "\<not> is_refused e"
    using led_inv_entry [OF inv e(1)] e(2) by (auto simp: entry_ok_def)
  then show ?thesis unfolding l' by (intro follows_update [OF e(1) keeps_result]) simp_all
qed

lemma follows_apply: "led_inv l \<Longrightarrow> led_apply l r = Inr l' \<Longrightarrow> follows l l'"
  by (cases r) (auto dest: follows_intent follows_receipt follows_attempt follows_result)

lemma led_replay_append:
  "led_replay (xs @ ys) = Inr m \<Longrightarrow> \<exists>l. led_replay xs = Inr l \<and> led_replay_from 0 l ys = Inr m"
  unfolding led_replay_def led_replay_from_eq by (rule led.replay_at_prefix)

lemma replay_follows:
  assumes "led_inv l" and "led_replay_from i l rs = Inr m"
  shows "follows l m"
proof (rule led.replay_at_rel [where R = follows])
  show "led.replay_at i l rs = Inr m" using assms(2) by (simp add: led_replay_from_eq)
qed (use assms(1) follows_refl follows_trans follows_apply in blast)+

lemma results_within_attempts:
  "led_replay rs = Inr l \<Longrightarrow>
   length (filter (\<lambda>r. about d k r \<and> result_of r \<noteq> None) rs) +
     (case led_find l d k of None \<Rightarrow> 0 | Some e \<Rightarrow> of_bool (e_outstanding e))
   \<le> length (filter (\<lambda>r. about d k r \<and> is_attempt r) rs)"
proof (induction rs arbitrary: l rule: rev_induct)
  case Nil
  then show ?case by (simp add: led_replay_def led_find_def)
next
  case (snoc r rs)
  then obtain m where m: "led_replay rs = Inr m" "led_apply m r = Inr l"
    by (auto simp: led_replay_snoc)
  note IH = snoc.IH [OF m(1)]
  show ?case
  proof (cases "about d k r")
    case False
    then show ?thesis using IH led_apply_other [OF m(2) False] by simp
  next
    case True
    then show ?thesis
      using IH m(2) by (cases r)
        (auto simp: apply_Inr about_def led_find_snoc led_find_update [OF keeps_receipt]
          led_find_update [OF keeps_attempt] led_find_update [OF keeps_result] is_entry_def of_bool_def
          split: option.splits if_splits)
  qed
qed

section \<open>Properties\<close>

text \<open>
  in a ledger rebuilt from a journal every object has one entry per deployment, a host port
  is held by at most one deployment at a time, an entry that counts as created has its receipt and one
  that is only intended has none, a settled entry has no outstanding attempt, and a conflict is recorded only for a
  retained image whose receipt is known.
\<close>

theorem ledger_invariant:
  assumes "led_replay rs = Inr l"
  shows "distinct (map (\<lambda>e. (e_deployment e, e_key e)) l) \<and>
    (\<forall>e \<in> set l. \<forall>f \<in> set l. rk_kind (e_key e) = PortLease \<and> e_key f = e_key e \<and>
       \<not> is_released e \<and> \<not> is_released f \<longrightarrow> f = e) \<and>
    (\<forall>e \<in> set l. (e_state e = Intended \<longrightarrow> e_id e = None) \<and> (e_state e = Created \<longrightarrow> e_id e \<noteq> None) \<and>
       (is_released e \<or> is_refused e \<longrightarrow> \<not> e_outstanding e) \<and>
       (is_conflict e \<longrightarrow> rk_kind (e_key e) = Image \<and> e_disposition e = Retain \<and> e_id e \<noteq> None))"
proof -
  from assms have inv: "led_inv l" by (rule led_replay_inv)
  then have dist: "distinct (map (\<lambda>e. (e_deployment e, e_key e)) l)" by (simp add: led_inv_def)
  have "f = e" if "e \<in> set l" "f \<in> set l" "rk_kind (e_key e) = PortLease" "e_key f = e_key e"
      "\<not> is_released e" "\<not> is_released f" for e f
  proof -
    have "e_deployment f = e_deployment e"
      using inv that unfolding led_inv_def lease_unique_def by blast
    moreover have "inj_on (\<lambda>e. (e_deployment e, e_key e)) (set l)"
      using dist by (simp add: distinct_map)
    ultimately show "f = e"
      using that by (intro inj_onD [of "\<lambda>e. (e_deployment e, e_key e)" "set l" f e]) simp_all
  qed
  then have one: "\<forall>e \<in> set l. \<forall>f \<in> set l. rk_kind (e_key e) = PortLease \<and> e_key f = e_key e \<and>
       \<not> is_released e \<and> \<not> is_released f \<longrightarrow> f = e" by blast
  have "\<forall>e \<in> set l. entry_ok e" using inv by (simp add: led_inv_def list_all_iff)
  with dist one show ?thesis unfolding entry_ok_def may_conflict_def by blast
qed

definition example_key :: resource_key where
  "example_key = \<lparr>rk_kind = PortLease, rk_name = ''21000''\<rparr>"

definition example_log :: "ledger_record list" where
  "example_log =
     [Intent example_key (ApplicationId 3) (DeploymentId 7) RemoveOnFailure 100,
      Receipt example_key (DeploymentId 7) ''21000'' 101,
      CleanupAttempt example_key (DeploymentId 7) 200,
      CleanupResult example_key (DeploymentId 7) ORemoved 201]"

definition example_more :: "ledger_record list" where
  "example_more = [Intent example_key (ApplicationId 4) (DeploymentId 9) RemoveOnFailure 300]"

definition example_released :: entry where
  "example_released = \<lparr>e_key = example_key, e_app = ApplicationId 3, e_deployment = DeploymentId 7,
     e_disposition = RemoveOnFailure, e_id = Some ''21000'', e_state = Released RRemoved,
     e_attempts = 1, e_outstanding = False, e_intent_ms = 100\<rparr>"

definition example_taken :: entry where
  "example_taken = \<lparr>e_key = example_key, e_app = ApplicationId 4, e_deployment = DeploymentId 9,
     e_disposition = RemoveOnFailure, e_id = None, e_state = Intended, e_attempts = 0,
     e_outstanding = False, e_intent_ms = 300\<rparr>"

lemmas example_led_defs = example_log_def example_more_def example_key_def example_released_def
  example_taken_def led_replay_def apply_intent_def apply_receipt_def apply_attempt_def
  apply_result_def led_find_def led_update_def is_entry_def is_released_def is_refused_def
  is_conflict_outcome_def

lemma example_log_replay: "led_replay example_log = Inr [example_released]"
  by (simp add: example_led_defs)

lemma example_more_replay: "led_replay (example_log @ example_more) = Inr [example_released, example_taken]"
  by (simp add: example_led_defs)

theorem ledger_invariant_witness:
  "distinct (map (\<lambda>e. (e_deployment e, e_key e)) [example_released, example_taken])"
  using ledger_invariant [OF example_more_replay] by blast

text \<open>
  Claim C11: the ledger implements its specification: what a lookup answers after any accepted journal
  is a function of the records that name that deployment and object alone, whatever else the journal
  interleaves with them.
\<close>

theorem ledger_refines_history:
  assumes "led_replay rs = Inr l"
  shows "led_find l d k = history_entry (filter (about d k) rs)"
  using led_replay_history [OF assms] by simp

theorem ledger_refines_history_witness:
  "history_entry (filter (about (DeploymentId 7) example_key) (example_log @ example_more)) =
     Some example_released"
  using ledger_refines_history [OF example_more_replay, of "DeploymentId 7" example_key]
  by (simp add: led_find_def is_entry_def example_released_def)

text \<open>
  Nothing a journal has recorded is lost or rewritten by what follows: an entry never
  disappears, keeps its owner, disposition and the id of its receipt, and once it is released or
  refused no accepted record changes it.
\<close>

theorem recorded_stays_recorded:
  assumes "led_replay rs = Inr l" and "led_replay (rs @ later) = Inr m" and "led_find l d k = Some e"
  shows "\<exists>f. led_find m d k = Some f \<and> e_app f = e_app e \<and> e_disposition f = e_disposition e \<and>
    e_intent_ms f = e_intent_ms e \<and> (e_id e \<noteq> None \<longrightarrow> e_id f = e_id e) \<and>
    (is_released e \<or> is_refused e \<longrightarrow> f = e)"
proof -
  from led_replay_append [OF assms(2)] assms(1) have "led_replay_from 0 l later = Inr m" by auto
  with replay_follows [OF led_replay_inv [OF assms(1)]] have "follows l m" by blast
  then show ?thesis using assms(3) by (rule followsD)
qed

theorem recorded_stays_recorded_witness:
  "led_find [example_released, example_taken] (DeploymentId 7) example_key = Some example_released"
  using recorded_stays_recorded [OF example_log_replay example_more_replay,
      of "DeploymentId 7" example_key example_released]
  by (simp add: led_find_def is_entry_def example_released_def is_released_def)

text \<open>
  Every cleanup result consumes an attempt of its own: in an accepted journal an object has
  at most as many results as attempts, and one fewer at least while its entry shows an attempt as
  outstanding, so an attempt without a result is never forgotten.
\<close>

theorem results_consume_attempts:
  assumes "led_replay rs = Inr l"
  shows "length (filter (\<lambda>r. about d k r \<and> result_of r \<noteq> None) rs) +
      (case led_find l d k of None \<Rightarrow> 0 | Some e \<Rightarrow> of_bool (e_outstanding e))
    \<le> length (filter (\<lambda>r. about d k r \<and> is_attempt r) rs)"
  using assms by (rule results_within_attempts)

theorem results_consume_attempts_witness:
  "length (filter (\<lambda>r. about (DeploymentId 7) example_key r \<and> result_of r \<noteq> None) example_log) +
     (case led_find [example_released] (DeploymentId 7) example_key of
        None \<Rightarrow> 0 | Some e \<Rightarrow> of_bool (e_outstanding e)) \<le> (1::nat)"
  using results_consume_attempts [OF example_log_replay, of "DeploymentId 7" example_key]
  by (simp add: example_log_def about_def)

end
