(* ===== verification/LedgerPlan.thy ===== *)
theory LedgerPlan
  imports Ledger
begin

text \<open>
  What recovery decides to do with the objects the runtime reports (\<open>Observed\<close> and \<open>plan\<close> of
  \<open>deploy/src/ledger.rs\<close>): a pure function of the ledger, the reported objects and the deployments
  known to have ended.
\<close>

section \<open>What the runtime reports\<close>

record observed =
  ob_kind :: resource_kind
  ob_name :: string
  ob_id :: string
  ob_labels :: "(string \<times> string) list"

definition ob_label :: "observed \<Rightarrow> string \<Rightarrow> string option" where
  "ob_label ob k = map_option snd (List.find (\<lambda>p. fst p = k) (ob_labels ob))"

definition labelled_for :: "observed \<Rightarrow> application_id \<Rightarrow> deployment_id \<Rightarrow> bool" where
  "labelled_for ob a d \<longleftrightarrow>
     ob_label ob label_managed = Some ''true'' \<and>
     ob_label ob label_app = Some (app_str a) \<and>
     ob_label ob label_deployment = Some (dep_str d)"

definition harpoon_deployment :: "observed \<Rightarrow> string option" where
  "harpoon_deployment ob =
     (if ob_label ob label_managed = Some ''true'' then ob_label ob label_deployment else None)"

record remove_request =
  rq_kind :: resource_kind
  rq_id :: string
  rq_name :: string
  rq_app :: application_id
  rq_deployment :: deployment_id

datatype remove_result =
  RemRemoved | RemAlreadyAbsent | RemRefused string | RemConflict conflict_cause string

type_synonym entry_ref = "deployment_id \<times> resource_key"

datatype action =
    Remove entry_ref observed bool
  | Adopt entry_ref observed
  | ReleaseLease entry_ref
  | MarkAbsent entry_ref
  | Refuse entry_ref string
  | ReportOnly observed string

section \<open>The decision\<close>

fun should_clean :: "disposition \<Rightarrow> end_state \<Rightarrow> bool" where
  "should_clean Retain end = False"
| "should_clean RemoveOnFailure end = (end = NotSucceeded)"
| "should_clean RemoveAlways end = True"

definition ended_as :: "(deployment_id \<times> end_state) list \<Rightarrow> deployment_id \<Rightarrow> end_state option" where
  "ended_as ended d = map_option snd (List.find (\<lambda>p. fst p = d) ended)"

definition refuse_reason :: "entry \<Rightarrow> string" where
  "refuse_reason e =
     ''a '' @ kind_str (rk_kind (e_key e)) @ '' named '' @ rk_name (e_key e) @
     '' exists but does not carry this deployment's Harpoon labels; not touched''"

definition report_reason :: string where
  "report_reason = ''labelled for a finished deployment but absent from the ledger; not removed''"

text \<open>The object an entry is matched with: by its receipted id, or by name while it has none.\<close>

definition find_object :: "observed list \<Rightarrow> entry \<Rightarrow> observed option" where
  "find_object obs e =
     (case e_id e of
        Some i \<Rightarrow> List.find (\<lambda>ob. ob_kind ob = rk_kind (e_key e) \<and> ob_id ob = i) obs
      | None \<Rightarrow> List.find (\<lambda>ob. ob_kind ob = rk_kind (e_key e) \<and> ob_name ob = rk_name (e_key e)) obs)"

definition plan_entry ::
  "observed list \<Rightarrow> (deployment_id \<times> end_state) list \<Rightarrow> entry \<Rightarrow> action option" where
  "plan_entry obs ended e =
     (case ended_as ended (e_deployment e) of
        None \<Rightarrow> None
      | Some end \<Rightarrow>
          if is_released e \<or> is_refused e then None
          else
            let clean = should_clean (e_disposition e) end;
                unresolved = (e_id e = None);
                ref = (e_deployment e, e_key e)
            in if \<not> clean \<and> \<not> unresolved then None
               else if rk_kind (e_key e) = PortLease then Some (ReleaseLease ref)
               else case find_object obs e of
                   Some ob \<Rightarrow>
                     if labelled_for ob (e_app e) (e_deployment e)
                     then Some (if clean then Remove ref ob unresolved else Adopt ref ob)
                     else Some (Refuse ref (refuse_reason e))
                 | None \<Rightarrow> Some (MarkAbsent ref))"

definition known_to :: "ledger \<Rightarrow> string \<Rightarrow> observed \<Rightarrow> bool" where
  "known_to l dep ob \<longleftrightarrow>
     (\<exists>e \<in> set l. dep_str (e_deployment e) = dep \<and> rk_kind (e_key e) = ob_kind ob \<and>
        (rk_name (e_key e) = ob_name ob \<or> e_id e = Some (ob_id ob)))"

definition plan_observed ::
  "ledger \<Rightarrow> (deployment_id \<times> end_state) list \<Rightarrow> observed \<Rightarrow> action option" where
  "plan_observed l ended ob =
     (case harpoon_deployment ob of
        None \<Rightarrow> None
      | Some dep \<Rightarrow>
          if \<not> (\<exists>p \<in> set ended. dep_str (fst p) = dep) then None
          else if known_to l dep ob then None
          else Some (ReportOnly ob report_reason))"

definition plan :: "ledger \<Rightarrow> observed list \<Rightarrow> (deployment_id \<times> end_state) list \<Rightarrow> action list" where
  "plan l obs ended =
     List.map_filter (plan_entry obs ended) l @ List.map_filter (plan_observed l ended) obs"

section \<open>Lemmas\<close>

lemma in_map_filter: "x \<in> set (List.map_filter f xs) \<longleftrightarrow> (\<exists>y \<in> set xs. f y = Some x)"
  by (force simp: List.map_filter_def)

lemma map_filter_comp:
  "List.map_filter g (List.map_filter f xs) =
   List.map_filter (\<lambda>x. case f x of None \<Rightarrow> None | Some y \<Rightarrow> g y) xs"
  by (induction xs) (auto simp: List.map_filter_def split: option.split)

lemma map_filter_as_filter:
  "(\<And>x. x \<in> set xs \<Longrightarrow> f x = (if P x then Some (g x) else None)) \<Longrightarrow>
   List.map_filter f xs = map g (filter P xs)"
  by (induction xs) (auto simp: List.map_filter_def)

lemma map_filter_none: "(\<And>x. x \<in> set xs \<Longrightarrow> f x = None) \<Longrightarrow> List.map_filter f xs = []"
  by (induction xs) (auto simp: List.map_filter_def)

fun action_entry :: "action \<Rightarrow> entry_ref option" where
  "action_entry (Remove r ob b) = Some r"
| "action_entry (Adopt r ob) = Some r"
| "action_entry (ReleaseLease r) = Some r"
| "action_entry (MarkAbsent r) = Some r"
| "action_entry (Refuse r w) = Some r"
| "action_entry (ReportOnly ob w) = None"

text \<open>Whether recovery has to decide about an entry at all.\<close>

definition needs_decision :: "(deployment_id \<times> end_state) list \<Rightarrow> entry \<Rightarrow> bool" where
  "needs_decision ended e \<longleftrightarrow>
     (case ended_as ended (e_deployment e) of
        None \<Rightarrow> False
      | Some end \<Rightarrow> \<not> is_released e \<and> \<not> is_refused e \<and>
          (should_clean (e_disposition e) end \<or> e_id e = None))"

lemma plan_entry_ref:
  "(case plan_entry obs ended e of None \<Rightarrow> None | Some x \<Rightarrow> action_entry x) =
   (if needs_decision ended e then Some (e_deployment e, e_key e) else None)"
  by (simp add: plan_entry_def needs_decision_def Let_def split: option.split)

lemma plan_observed_ref:
  "(case plan_observed l ended ob of None \<Rightarrow> None | Some x \<Rightarrow> action_entry x) = None"
  by (simp add: plan_observed_def split: option.split)

lemma find_object_Some:
  "find_object obs e = Some ob \<Longrightarrow>
   ob \<in> set obs \<and> ob_kind ob = rk_kind (e_key e) \<and>
   (case e_id e of Some i \<Rightarrow> ob_id ob = i | None \<Rightarrow> ob_name ob = rk_name (e_key e))"
  by (auto simp: find_object_def dest!: find_Some_set split: option.splits)

lemma plan_observed_not_remove: "plan_observed l ended ob \<noteq> Some (Remove r x b)"
  by (simp add: plan_observed_def split: option.split)

lemma plan_entry_Remove:
  "plan_entry obs ended e = Some (Remove r ob adopt) \<Longrightarrow>
   r = (e_deployment e, e_key e) \<and> \<not> is_released e \<and> \<not> is_refused e \<and>
   (\<exists>end. ended_as ended (e_deployment e) = Some end \<and> should_clean (e_disposition e) end) \<and>
   rk_kind (e_key e) \<noteq> PortLease \<and> find_object obs e = Some ob \<and>
   labelled_for ob (e_app e) (e_deployment e) \<and> adopt = (e_id e = None)"
  by (auto simp: plan_entry_def Let_def split: option.splits if_splits)

lemma should_clean_iff:
  "should_clean p end \<longleftrightarrow> p = RemoveAlways \<or> p = RemoveOnFailure \<and> end = NotSucceeded"
  by (cases p) auto

section \<open>Properties\<close>

text \<open>
  Claim C5: recovery removes an object only when the ledger has an unsettled entry of a deployment
  known to have ended, whose disposition asks for it (a retained object never), and the runtime reports
  the object with that kind, with the receipted id (or, only while there is no receipt, with the
  intended name), and with exactly the labels managed, application and deployment of the entry.
\<close>

theorem plan_removes_only_owned:
  assumes "Remove (d, k) ob adopt \<in> set (plan l obs ended)"
  shows "ob \<in> set obs \<and> ob_kind ob = rk_kind k \<and> rk_kind k \<noteq> PortLease \<and>
    (\<exists>e \<in> set l. e_deployment e = d \<and> e_key e = k \<and> \<not> is_released e \<and> \<not> is_refused e \<and>
       (e_disposition e = RemoveAlways \<and> ended_as ended d \<noteq> None \<or>
        e_disposition e = RemoveOnFailure \<and> ended_as ended d = Some NotSucceeded) \<and>
       (case e_id e of Some i \<Rightarrow> ob_id ob = i \<and> \<not> adopt | None \<Rightarrow> ob_name ob = rk_name k \<and> adopt) \<and>
       ob_label ob ''io.harpoon.managed'' = Some ''true'' \<and>
       ob_label ob ''io.harpoon.app'' = Some (app_str (e_app e)) \<and>
       ob_label ob ''io.harpoon.deployment'' = Some (dep_str d))"
proof -
  from assms obtain e where e: "e \<in> set l" "plan_entry obs ended e = Some (Remove (d, k) ob adopt)"
    by (auto simp: plan_def in_map_filter plan_observed_not_remove)
  note r = plan_entry_Remove [OF e(2)]
  from r find_object_Some [of obs e ob] have ob: "ob \<in> set obs" "ob_kind ob = rk_kind (e_key e)"
    "case e_id e of Some i \<Rightarrow> ob_id ob = i | None \<Rightarrow> ob_name ob = rk_name (e_key e)" by auto
  from r obtain en where "ended_as ended d = Some en" "should_clean (e_disposition e) en" by auto
  with r ob e(1) show ?thesis
    by (auto simp: should_clean_iff labelled_for_def label_managed_def label_app_def
        label_deployment_def split: option.splits intro!: bexI [of _ e])
qed

text \<open>
  Recovery decides exactly once, in ledger order, about every entry of an ended deployment
  that is not settled and is either to be cleaned or still without a receipt, and about no other entry:
  a deployment that may be running is never touched and no obligation is dropped.
\<close>

theorem plan_decides_each_once:
  "List.map_filter action_entry (plan l obs ended) =
   map (\<lambda>e. (e_deployment e, e_key e)) (filter (needs_decision ended) l)"
proof -
  have "List.map_filter action_entry (List.map_filter (plan_entry obs ended) l) =
    map (\<lambda>e. (e_deployment e, e_key e)) (filter (needs_decision ended) l)"
    unfolding map_filter_comp by (rule map_filter_as_filter) (rule plan_entry_ref)
  moreover have "List.map_filter action_entry (List.map_filter (plan_observed l ended) obs) = []"
    unfolding map_filter_comp by (rule map_filter_none) (rule plan_observed_ref)
  ultimately show ?thesis by (simp add: plan_def map_filter_append)
qed

definition example_labels :: "(string \<times> string) list" where
  "example_labels = labels_for_deployment (ApplicationId 3) (DeploymentId 7)"

definition example_container :: observed where
  "example_container = \<lparr>ob_kind = Container, ob_name = ''web'', ob_id = ''c1'', ob_labels = example_labels\<rparr>"

definition example_web :: resource_key where
  "example_web = \<lparr>rk_kind = Container, rk_name = ''web''\<rparr>"

definition example_entry :: entry where
  "example_entry = \<lparr>e_key = example_web, e_app = ApplicationId 3, e_deployment = DeploymentId 7,
     e_disposition = RemoveOnFailure, e_id = None, e_state = Intended, e_attempts = 0,
     e_outstanding = False, e_intent_ms = 100\<rparr>"

lemma example_labelled: "labelled_for example_container (ApplicationId 3) (DeploymentId 7)"
  by (simp add: labelled_for_def ob_label_def example_container_def example_labels_def
      labels_for_deployment_def label_managed_def label_app_def label_deployment_def)

lemma example_planned:
  "Remove (DeploymentId 7, example_web) example_container True
    \<in> set (plan [example_entry] [example_container] [(DeploymentId 7, NotSucceeded)])"
proof -
  have "plan_entry [example_container] [(DeploymentId 7, NotSucceeded)] example_entry =
    Some (Remove (DeploymentId 7, example_web) example_container True)"
    using example_labelled
    by (simp add: plan_entry_def ended_as_def example_entry_def is_released_def is_refused_def
        find_object_def example_web_def example_container_def)
  then show ?thesis by (auto simp: plan_def in_map_filter)
qed

theorem plan_removes_only_owned_witness:
  "ob_label example_container ''io.harpoon.deployment'' = Some (dep_str (DeploymentId 7))"
  using plan_removes_only_owned [OF example_planned] by blast

end
