(* ===== verification/LedgerCodec.thy ===== *)
theory LedgerCodec
  imports Ledger
begin

text \<open>
  The durable line format of the ledger (module \<open>codec\<close> of \<open>deploy/src/ledger.rs\<close>): checksum, escaping,
  encoding and decoding of one record, and the recovery of a byte stream with a torn tail.
\<close>

section \<open>Checksum\<close>

definition crc_bit :: "u32 \<Rightarrow> u32" where
  "crc_bit c = (if c AND 1 \<noteq> 0 then drop_bit 1 c XOR 0xEDB88320 else drop_bit 1 c)"

definition crc_byte :: "u32 \<Rightarrow> char \<Rightarrow> u32" where
  "crc_byte c b = (crc_bit ^^ 8) (c XOR of_nat (of_char b))"

definition crc32 :: "string \<Rightarrow> u32" where
  "crc32 bs = NOT (foldl crc_byte 0xFFFFFFFF bs)"

section \<open>Escaping\<close>

abbreviation TAB :: char where "TAB \<equiv> CHR 0x09"
abbreviation NL :: char where "NL \<equiv> CHR 0x0A"
abbreviation CR :: char where "CR \<equiv> CHR 0x0D"
abbreviation BSL :: char where "BSL \<equiv> CHR 0x5C"

definition esc_char :: "char \<Rightarrow> string" where
  "esc_char c =
     (if c = BSL then [BSL, BSL]
      else if c = TAB then [BSL, CHR ''t'']
      else if c = NL then [BSL, CHR ''n'']
      else if c = CR then [BSL, CHR ''r''] else [c])"

definition esc :: "string \<Rightarrow> string" where
  "esc s = concat (map esc_char s)"

definition unesc_char :: "char \<Rightarrow> char option" where
  "unesc_char c =
     (if c = BSL then Some BSL
      else if c = CHR ''t'' then Some TAB
      else if c = CHR ''n'' then Some NL
      else if c = CHR ''r'' then Some CR else None)"

fun unesc :: "string \<Rightarrow> string option" where
  "unesc [] = Some []"
| "unesc [c] = (if c = BSL then None else Some [c])"
| "unesc (c # d # cs) =
     (if c = BSL
      then (case unesc_char d of None \<Rightarrow> None | Some x \<Rightarrow> map_option ((#) x) (unesc cs))
      else map_option ((#) c) (unesc (d # cs)))"

section \<open>One record\<close>

fun conflict_token :: "conflict_cause \<Rightarrow> string" where
  "conflict_token DockerRefused = ''conflict-docker-refused''"
| "conflict_token NotExclusive = ''conflict-not-exclusive''"

fun outcome_fields :: "cleanup_outcome \<Rightarrow> string \<times> string" where
  "outcome_fields ORemoved = (''removed'', [])"
| "outcome_fields OAlreadyAbsent = (''absent'', [])"
| "outcome_fields (OFailed m) = (''failed'', esc m)"
| "outcome_fields (ORefused m) = (''refused'', esc m)"
| "outcome_fields (OConflict c m) = (conflict_token c, esc m)"

definition key_fields :: "resource_key \<Rightarrow> string list" where
  "key_fields k = [kind_str (rk_kind k), esc (rk_name k)]"

fun record_fields :: "ledger_record \<Rightarrow> string list" where
  "record_fields (Intent k a d p t) =
     ''intent'' # key_fields k @ [app_str a, dep_str d, disposition_str p, show_word t]"
| "record_fields (Receipt k d i t) = ''receipt'' # key_fields k @ [dep_str d, esc i, show_word t]"
| "record_fields (CleanupAttempt k d t) = ''attempt'' # key_fields k @ [dep_str d, show_word t]"
| "record_fields (CleanupResult k d oc t) =
     ''result'' # key_fields k @ [dep_str d, fst (outcome_fields oc), snd (outcome_fields oc), show_word t]"

definition record_body :: "ledger_record \<Rightarrow> string" where
  "record_body r = join_with [TAB] (record_fields r)"

definition encode_record :: "ledger_record \<Rightarrow> string" where
  "encode_record r = show_hex 8 (unat (crc32 (record_body r))) @ TAB # record_body r"

text \<open>A decode error is its text.\<close>

definition dec_kind :: "string \<Rightarrow> string + resource_kind" where
  "dec_kind s = ok_or (kind_parse s) ''bad kind''"

definition dec_num :: "string \<Rightarrow> string + u64" where
  "dec_num s = ok_or (parse_word s) ''bad number''"

definition dec_dep :: "string \<Rightarrow> string + deployment_id" where
  "dec_dep s = map_err (\<lambda>_. ''bad deployment id'') (dep_from_str s)"

definition dec_app :: "string \<Rightarrow> string + application_id" where
  "dec_app s = map_err (\<lambda>_. ''bad application id'') (app_from_str s)"

definition dec_text :: "string \<Rightarrow> string + string" where
  "dec_text s = ok_or (unesc s) ''bad escape''"

definition dec_key :: "string \<Rightarrow> string \<Rightarrow> string + resource_key" where
  "dec_key a b = bind_res (dec_kind a) (\<lambda>k. bind_res (dec_text b) (\<lambda>n. Inr (resource_key_new k n)))"

definition dec_outcome :: "string \<Rightarrow> string \<Rightarrow> string + cleanup_outcome" where
  "dec_outcome tk m =
     (if tk = ''removed'' then Inr ORemoved
      else if tk = ''absent'' then Inr OAlreadyAbsent
      else if tk = ''failed'' then bind_res (dec_text m) (\<lambda>m. Inr (OFailed m))
      else if tk = ''refused'' then bind_res (dec_text m) (\<lambda>m. Inr (ORefused m))
      else if tk = ''conflict-docker-refused''
        then bind_res (dec_text m) (\<lambda>m. Inr (OConflict DockerRefused m))
      else if tk = ''conflict-not-exclusive''
        then bind_res (dec_text m) (\<lambda>m. Inr (OConflict NotExclusive m))
      else Inl ''bad outcome'')"

text \<open>The tag and the number of fields select the record; every other shape is unknown.\<close>

fun decode_fields :: "string list \<Rightarrow> string + ledger_record" where
  "decode_fields [f0, f1, f2, f3, f4, f5, f6] =
     (if f0 = ''intent'' then
        bind_res (dec_key f1 f2) (\<lambda>k. bind_res (dec_app f3) (\<lambda>a. bind_res (dec_dep f4) (\<lambda>d.
        bind_res (ok_or (disposition_parse f5) ''bad disposition'') (\<lambda>p. bind_res (dec_num f6) (\<lambda>t.
        Inr (Intent k a d p t))))))
      else if f0 = ''result'' then
        bind_res (dec_key f1 f2) (\<lambda>k. bind_res (dec_dep f3) (\<lambda>d. bind_res (dec_outcome f4 f5) (\<lambda>oc.
        bind_res (dec_num f6) (\<lambda>t. Inr (CleanupResult k d oc t)))))
      else Inl ''unknown record'')"
| "decode_fields [f0, f1, f2, f3, f4, f5] =
     (if f0 = ''receipt'' then
        bind_res (dec_key f1 f2) (\<lambda>k. bind_res (dec_dep f3) (\<lambda>d. bind_res (dec_text f4) (\<lambda>i.
        bind_res (dec_num f5) (\<lambda>t. Inr (Receipt k d i t)))))
      else Inl ''unknown record'')"
| "decode_fields [f0, f1, f2, f3, f4] =
     (if f0 = ''attempt'' then
        bind_res (dec_key f1 f2) (\<lambda>k. bind_res (dec_dep f3) (\<lambda>d. bind_res (dec_num f4) (\<lambda>t.
        Inr (CleanupAttempt k d t))))
      else Inl ''unknown record'')"
| "decode_fields fs = Inl ''unknown record''"

definition decode_record :: "string \<Rightarrow> string + ledger_record" where
  "decode_record line =
     (case split_once TAB line of
        None \<Rightarrow> Inl ''no checksum''
      | Some (crc, body) \<Rightarrow>
          (case parse_hex 32 crc of
             None \<Rightarrow> Inl ''bad checksum field''
           | Some want \<Rightarrow>
               if length crc \<noteq> 8 \<or> unat (crc32 body) \<noteq> want then Inl ''checksum mismatch''
               else decode_fields (split_on TAB body)))"

section \<open>A stream of records\<close>

datatype tail = Clean | PartialDiscarded nat

datatype recover_error = Corrupt nat string

record recovered =
  rv_records :: "ledger_record list"
  rv_valid_len :: nat
  rv_tail :: tail

text \<open>
  \<open>str::from_utf8\<close> accepts exactly the well-formed byte sequences of the Unicode standard: no
  overlong form, no surrogate, nothing above the last code point.
\<close>

definition byte :: "char \<Rightarrow> nat" where "byte c = of_char c"

definition between :: "nat \<Rightarrow> char \<Rightarrow> nat \<Rightarrow> bool" where
  "between lo c hi \<longleftrightarrow> lo \<le> byte c \<and> byte c \<le> hi"

definition cont :: "char \<Rightarrow> bool" where "cont c = between 0x80 c 0xBF"

definition utf8_2 :: "char \<Rightarrow> char \<Rightarrow> bool" where
  "utf8_2 a b \<longleftrightarrow> between 0xC2 a 0xDF \<and> cont b"

definition utf8_3 :: "char \<Rightarrow> char \<Rightarrow> char \<Rightarrow> bool" where
  "utf8_3 a b c \<longleftrightarrow>
     (byte a = 0xE0 \<and> between 0xA0 b 0xBF \<or> between 0xE1 a 0xEC \<and> cont b \<or>
      byte a = 0xED \<and> between 0x80 b 0x9F \<or> between 0xEE a 0xEF \<and> cont b) \<and> cont c"

definition utf8_4 :: "char \<Rightarrow> char \<Rightarrow> char \<Rightarrow> char \<Rightarrow> bool" where
  "utf8_4 a b c d \<longleftrightarrow>
     (byte a = 0xF0 \<and> between 0x90 b 0xBF \<or> between 0xF1 a 0xF3 \<and> cont b \<or>
      byte a = 0xF4 \<and> between 0x80 b 0x8F) \<and> cont c \<and> cont d"

text \<open>What follows the first character, when there is a well-formed one.\<close>

fun utf8_rest :: "string \<Rightarrow> string option" where
  "utf8_rest [] = None"
| "utf8_rest (a # s) =
     (if byte a < 0x80 then Some s
      else case s of
          [] \<Rightarrow> None
        | b # t \<Rightarrow>
            if utf8_2 a b then Some t
            else case t of
                [] \<Rightarrow> None
              | c # u \<Rightarrow>
                  if utf8_3 a b c then Some u
                  else case u of [] \<Rightarrow> None | d # v \<Rightarrow> if utf8_4 a b c d then Some v else None)"

lemma utf8_rest_char:
  "utf8_rest s = Some t \<Longrightarrow>
   \<exists>p. s = p @ t \<and> p \<noteq> [] \<and> (\<forall>x. utf8_rest (p @ x) = Some x) \<and>
     ((\<exists>c. p = [c] \<and> byte c < 0x80) \<or> (\<forall>c \<in> set p. 0x80 \<le> byte c))"
proof -
  assume r: "utf8_rest s = Some t"
  consider (one) a where "s = a # t" "byte a < 0x80"
    | (two) a b where "s = [a, b] @ t" "\<not> byte a < 0x80" "utf8_2 a b"
    | (three) a b c where "s = [a, b, c] @ t" "\<not> byte a < 0x80" "\<not> utf8_2 a b" "utf8_3 a b c"
    | (four) a b c d where "s = [a, b, c, d] @ t" "\<not> byte a < 0x80" "\<not> utf8_2 a b"
        "\<not> utf8_3 a b c" "utf8_4 a b c d"
    using r by (cases s) (auto split: list.splits if_splits)
  then show ?thesis
  proof cases
    case one
    then show ?thesis by (intro exI [of _ "[a]"]) simp
  next
    case two
    moreover from two have "0x80 \<le> byte b" by (simp add: utf8_2_def cont_def between_def)
    ultimately show ?thesis by (intro exI [of _ "[a, b]"]) simp
  next
    case three
    moreover from three have "0x80 \<le> byte b" "0x80 \<le> byte c"
      by (auto simp: utf8_3_def cont_def between_def)
    ultimately show ?thesis by (intro exI [of _ "[a, b, c]"]) simp
  next
    case four
    moreover from four have "0x80 \<le> byte b" "0x80 \<le> byte c" "0x80 \<le> byte d"
      by (auto simp: utf8_4_def cont_def between_def)
    ultimately show ?thesis by (intro exI [of _ "[a, b, c, d]"]) simp
  qed
qed

lemma utf8_rest_shorter: "utf8_rest s = Some t \<Longrightarrow> length t < length s"
  using utf8_rest_char by fastforce

function utf8_valid :: "string \<Rightarrow> bool" where
  "utf8_valid s = (s = [] \<or> (case utf8_rest s of None \<Rightarrow> False | Some t \<Rightarrow> utf8_valid t))"
  by pat_completeness auto

termination
  by (relation "measure length") (auto simp del: utf8_rest.simps dest: utf8_rest_shorter)

declare utf8_valid.simps [simp del]

lemma split_once_shorter: "split_once c s = Some (a, b) \<Longrightarrow> length b < length s"
  by (drule split_once_Some) auto

text \<open>
  The loop of \<open>recover\<close>: the rest of the stream, the position it starts at, the number of the last
  line and the records decoded so far.
\<close>

function (sequential) recover_from ::
  "string \<Rightarrow> nat \<Rightarrow> nat \<Rightarrow> ledger_record list \<Rightarrow> recover_error + recovered" where
  "recover_from [] pos n rs = Inr \<lparr>rv_records = rs, rv_valid_len = pos, rv_tail = Clean\<rparr>"
| "recover_from bs pos n rs =
     (case split_once NL bs of
        None \<Rightarrow> Inr \<lparr>rv_records = rs, rv_valid_len = pos, rv_tail = PartialDiscarded (length bs)\<rparr>
      | Some (line, later) \<Rightarrow>
          if \<not> utf8_valid line then Inl (Corrupt (n + 1) ''not utf-8'')
          else (case decode_record line of
                  Inl w \<Rightarrow> Inl (Corrupt (n + 1) w)
                | Inr r \<Rightarrow> recover_from later (pos + length line + 1) (n + 1) (rs @ [r])))"
  by pat_completeness auto

termination
  by (relation "measure (\<lambda>(bs, _). length bs)") (auto simp del: split_once.simps dest: split_once_shorter)

definition recover :: "string \<Rightarrow> recover_error + recovered" where
  "recover bs = recover_from bs 0 0 []"

section \<open>Escaping undone\<close>

lemma esc_Nil [simp]: "esc [] = []"
  by (simp add: esc_def)

lemma esc_Cons: "esc (c # s) = esc_char c @ esc s"
  by (simp add: esc_def)

lemma unesc_plain: "c \<noteq> BSL \<Longrightarrow> unesc (c # s) = map_option ((#) c) (unesc s)"
  by (cases s) auto

lemma unesc_esc: "unesc (esc s) = Some s"
proof (induction s)
  case Nil
  show ?case by simp
next
  case (Cons c s)
  then show ?case by (simp add: esc_Cons esc_char_def unesc_plain unesc_char_def)
qed

lemma esc_clean: "c \<in> set (esc s) \<Longrightarrow> c \<noteq> TAB \<and> c \<noteq> NL \<and> c \<noteq> CR"
  by (auto simp: esc_def esc_char_def split: if_splits)

section \<open>Round trip of a record\<close>

definition field_clean :: "string \<Rightarrow> bool" where
  "field_clean s \<longleftrightarrow> TAB \<notin> set s \<and> NL \<notin> set s"

lemma field_clean_esc: "field_clean (esc s)"
  using esc_clean by (fastforce simp: field_clean_def)

lemma field_clean_range:
  "(\<And>c. c \<in> set s \<Longrightarrow> 32 < (of_char c :: nat)) \<Longrightarrow> field_clean s"
  by (force simp: field_clean_def)

lemma field_clean_word: "field_clean (show_word x)"
  by (rule field_clean_range) (auto dest: show_word_no_special)

lemma field_clean_id: "field_clean (dep_str d)" "field_clean (app_str a)"
  by (rule field_clean_range, drule id_chars, auto simp: alphabet_def)+

lemma record_fields_clean: "list_all field_clean (record_fields r)"
proof -
  have tok: "field_clean (kind_str k)" for k by (cases k) (simp_all add: field_clean_def)
  have key: "list_all field_clean (key_fields k)" for k
    by (simp add: key_fields_def tok field_clean_esc)
  have disp: "field_clean (disposition_str p)" for p by (cases p) (simp_all add: field_clean_def)
  have oc: "field_clean (fst (outcome_fields oc)) \<and> field_clean (snd (outcome_fields oc))" for oc
  proof (cases oc)
    case (OConflict c m)
    then show ?thesis by (cases c) (simp_all add: field_clean_esc, simp_all add: field_clean_def)
  qed (simp_all add: field_clean_esc, simp_all add: field_clean_def)
  have tags: "field_clean ''intent''" "field_clean ''receipt''" "field_clean ''attempt''"
    "field_clean ''result''"
    by (simp_all add: field_clean_def)
  show ?thesis
    by (cases r) (simp_all add: tags key disp oc field_clean_esc field_clean_word field_clean_id)
qed

lemma record_fields_ne [simp]: "record_fields r \<noteq> []"
  by (cases r) simp_all

lemma split_record_body: "split_on TAB (record_body r) = record_fields r"
  unfolding record_body_def
  using record_fields_clean [of r] by (intro split_on_join) (auto simp: list_all_iff field_clean_def)

lemma key_roundtrip: "dec_key (kind_str (rk_kind k)) (esc (rk_name k)) = Inr k"
  by (simp add: dec_key_def dec_kind_def dec_text_def kind_tok.parse_tok unesc_esc resource_key_new_def)

lemma outcome_roundtrip: "dec_outcome (fst (outcome_fields oc)) (snd (outcome_fields oc)) = Inr oc"
proof (cases oc)
  case (OConflict c m)
  then show ?thesis by (cases c) (simp_all add: dec_outcome_def dec_text_def unesc_esc)
qed (simp_all add: dec_outcome_def dec_text_def unesc_esc)

lemma scalar_roundtrip:
  "dec_num (show_word t) = Inr t" "dec_dep (dep_str d) = Inr d" "dec_app (app_str a) = Inr a"
  by (simp_all add: dec_num_def dec_dep_def dec_app_def dep_from_dep_str app_from_app_str)

lemma decode_record_fields: "decode_fields (record_fields r) = Inr r"
  by (cases r)
    (simp_all add: key_fields_def key_roundtrip outcome_roundtrip scalar_roundtrip dec_text_def
       unesc_esc disposition_tok.parse_tok)

lemma crc_field: "parse_hex 32 (show_hex 8 (unat (c :: u32))) = Some (unat c)"
  using unat_bound [of c] by (intro parse_hex_show_hex) simp_all

lemma show_hex_clean: "field_clean (show_hex k n)"
  by (rule field_clean_range) (auto dest: show_hex_chars)

lemma split_encoded:
  "split_once TAB (show_hex 8 n @ TAB # body) = Some (show_hex 8 n, body)"
  using show_hex_clean [of 8 n] by (intro split_once_append) (simp add: field_clean_def)

lemma decode_encode_record: "decode_record (encode_record r) = Inr r"
  by (simp add: decode_record_def encode_record_def split_encoded crc_field split_record_body
      decode_record_fields)

section \<open>A line holds no line break and is UTF-8\<close>

lemma set_join: "c \<in> set (join_with sep fs) \<Longrightarrow> c \<in> set sep \<or> (\<exists>f \<in> set fs. c \<in> set f)"
  by (induction sep fs rule: join_with.induct) auto

lemma encode_one_line: "NL \<notin> set (encode_record r)"
proof
  assume "NL \<in> set (encode_record r)"
  then have "NL \<in> set (record_body r)"
    using show_hex_clean [of 8 "unat (crc32 (record_body r))"]
    by (auto simp: encode_record_def field_clean_def)
  then show False
    using set_join record_fields_clean [of r] unfolding record_body_def
    by (fastforce simp: list_all_iff field_clean_def)
qed

lemma utf8_Nil [simp]: "utf8_valid []"
  by (simp add: utf8_valid.simps)

lemma utf8_step: "utf8_rest s = Some t \<Longrightarrow> utf8_valid s = utf8_valid t"
  by (subst utf8_valid.simps) auto

lemma utf8_ascii_Cons: "byte c < 0x80 \<Longrightarrow> utf8_valid (c # s) = utf8_valid s"
  by (rule utf8_step) simp

lemma utf8_ascii: "\<forall>c \<in> set s. byte c < 0x80 \<Longrightarrow> utf8_valid s"
  by (induction s) (simp_all add: utf8_ascii_Cons)

text \<open>Induction over the characters of a well-formed string.\<close>

lemma utf8_induct [consumes 1, case_names Nil Ascii Multi]:
  assumes valid: "utf8_valid s" and nil: "P []"
    and ascii: "\<And>c t. byte c < 0x80 \<Longrightarrow> utf8_valid t \<Longrightarrow> P t \<Longrightarrow> P (c # t)"
    and multi: "\<And>p t. \<forall>x. utf8_rest (p @ x) = Some x \<Longrightarrow> \<forall>c \<in> set p. 0x80 \<le> byte c \<Longrightarrow>
      utf8_valid t \<Longrightarrow> P t \<Longrightarrow> P (p @ t)"
  shows "P s"
  using valid
proof (induction s rule: length_induct)
  case (1 s)
  show ?case
  proof (cases "utf8_rest s")
    case None
    with 1(2) have "s = []" by (subst (asm) utf8_valid.simps) simp
    with nil show ?thesis by simp
  next
    case (Some t)
    with 1(2) have t: "utf8_valid t" by (simp add: utf8_step)
    with 1(1) utf8_rest_shorter [OF Some] have IH: "P t" by blast
    from utf8_rest_char [OF Some] obtain p where p: "s = p @ t" "\<forall>x. utf8_rest (p @ x) = Some x"
      "(\<exists>c. p = [c] \<and> byte c < 0x80) \<or> (\<forall>c \<in> set p. 0x80 \<le> byte c)" by blast
    from p(3) show ?thesis
    proof
      assume "\<exists>c. p = [c] \<and> byte c < 0x80"
      with p(1) ascii t IH show ?thesis by auto
    next
      assume "\<forall>c \<in> set p. 0x80 \<le> byte c"
      with p(1,2) multi t IH show ?thesis by blast
    qed
  qed
qed

lemma utf8_append: "utf8_valid s \<Longrightarrow> utf8_valid t \<Longrightarrow> utf8_valid (s @ t)"
proof (induction s rule: utf8_induct)
  case (Ascii c s)
  then show ?case by (simp add: utf8_ascii_Cons)
next
  case (Multi p s)
  then show ?case using utf8_step [of "p @ s @ t" "s @ t"] by simp
qed simp

lemma esc_append: "esc (s @ t) = esc s @ esc t"
  by (simp add: esc_def)

lemma esc_high: "\<forall>c \<in> set p. 0x80 \<le> byte c \<Longrightarrow> esc p = p"
  by (induction p) (auto simp: esc_Cons esc_char_def byte_def)

lemma utf8_esc: "utf8_valid s \<Longrightarrow> utf8_valid (esc s)"
proof (induction s rule: utf8_induct)
  case (Ascii c s)
  moreover have "\<forall>x \<in> set (esc_char c). byte x < 0x80"
    using Ascii by (auto simp: esc_char_def byte_def)
  ultimately show ?case by (simp add: esc_Cons utf8_append utf8_ascii)
next
  case (Multi p s)
  then show ?case using utf8_step [of "p @ esc s" "esc s"] by (simp add: esc_append esc_high)
qed simp

definition outcome_text :: "cleanup_outcome \<Rightarrow> string" where
  "outcome_text oc =
     (case oc of OFailed m \<Rightarrow> m | ORefused m \<Rightarrow> m | OConflict c m \<Rightarrow> m | _ \<Rightarrow> [])"

text \<open>Every text of a record is UTF-8, as every \<open>String\<close> of the program is.\<close>

fun record_utf8 :: "ledger_record \<Rightarrow> bool" where
  "record_utf8 (Intent k a d p t) = utf8_valid (rk_name k)"
| "record_utf8 (Receipt k d i t) = (utf8_valid (rk_name k) \<and> utf8_valid i)"
| "record_utf8 (CleanupAttempt k d t) = utf8_valid (rk_name k)"
| "record_utf8 (CleanupResult k d oc t) = (utf8_valid (rk_name k) \<and> utf8_valid (outcome_text oc))"

lemma utf8_low: "(\<And>c. c \<in> set s \<Longrightarrow> (of_char c :: nat) < 128) \<Longrightarrow> utf8_valid s"
  by (rule utf8_ascii) (simp add: byte_def)

lemma utf8_word: "utf8_valid (show_word x)"
  by (rule utf8_low) (drule show_word_no_special, simp)

lemma utf8_id: "utf8_valid (dep_str d)" "utf8_valid (app_str a)"
  by (rule utf8_low, drule id_chars, auto simp: alphabet_def)+

lemma utf8_hex: "utf8_valid (show_hex k n)"
  by (rule utf8_low) (drule show_hex_chars, auto)

lemma utf8_join: "utf8_valid sep \<Longrightarrow> list_all utf8_valid fs \<Longrightarrow> utf8_valid (join_with sep fs)"
  by (induction sep fs rule: join_with.induct) (simp_all add: utf8_append)

lemma utf8_fields: "record_utf8 r \<Longrightarrow> list_all utf8_valid (record_fields r)"
proof -
  assume r: "record_utf8 r"
  have kind: "utf8_valid (kind_str k)" for k by (rule utf8_low) (cases k; auto)
  have disp: "utf8_valid (disposition_str p)" for p by (rule utf8_low) (cases p; auto)
  have oc: "utf8_valid (fst (outcome_fields oc))" for oc
  proof (cases oc)
    case (OConflict c m)
    then show ?thesis by (cases c) (auto intro!: utf8_low)
  qed (auto intro!: utf8_low)
  have oct: "utf8_valid (outcome_text oc) \<Longrightarrow> utf8_valid (snd (outcome_fields oc))" for oc
    by (cases oc) (simp_all add: outcome_text_def utf8_esc)
  have tags: "utf8_valid ''intent''" "utf8_valid ''receipt''" "utf8_valid ''attempt''"
    "utf8_valid ''result''" by (rule utf8_low, auto)+
  show ?thesis
    using r by (cases r) (simp_all add: key_fields_def kind disp oc oct tags utf8_esc utf8_word utf8_id)
qed

lemma utf8_encode: "record_utf8 r \<Longrightarrow> utf8_valid (encode_record r)"
proof -
  assume "record_utf8 r"
  then have "utf8_valid (record_body r)"
    unfolding record_body_def by (intro utf8_join utf8_fields utf8_ascii) (simp_all add: byte_def)
  then show ?thesis
    by (simp add: encode_record_def utf8_append utf8_hex utf8_ascii_Cons byte_def)
qed

section \<open>Recovering a stream\<close>

definition stream :: "ledger_record list \<Rightarrow> string" where
  "stream rs = concat (map (\<lambda>r. encode_record r @ [NL]) rs)"

lemma stream_simps [simp]:
  "stream [] = []" "stream (r # rs) = encode_record r @ NL # stream rs"
  "stream (rs @ rs') = stream rs @ stream rs'"
  by (simp_all add: stream_def)

lemma recover_from_line:
  "NL \<notin> set line \<Longrightarrow>
   recover_from (line @ NL # later) pos n acc =
     (if \<not> utf8_valid line then Inl (Corrupt (n + 1) ''not utf-8'')
      else (case decode_record line of
              Inl w \<Rightarrow> Inl (Corrupt (n + 1) w)
            | Inr r \<Rightarrow> recover_from later (pos + length line + 1) (n + 1) (acc @ [r])))"
proof -
  assume "NL \<notin> set line"
  then have s: "split_once NL (line @ NL # later) = Some (line, later)" by (rule split_once_append)
  obtain b bs where "line @ NL # later = b # bs" by (cases "line @ NL # later") auto
  with s show ?thesis by simp
qed

lemma recover_from_stream:
  "list_all record_utf8 rs \<Longrightarrow>
   recover_from (stream rs @ bs) pos n acc =
   recover_from bs (pos + length (stream rs)) (n + length rs) (acc @ rs)"
proof (induction rs arbitrary: pos n acc)
  case Nil
  then show ?case by simp
next
  case (Cons r rs)
  then show ?case
    using encode_one_line [of r] by (simp add: recover_from_line utf8_encode decode_encode_record add.assoc)
qed

lemma split_once_None: "c \<notin> set s \<Longrightarrow> split_once c s = None"
  by (induction s) auto

lemma recover_from_torn:
  "NL \<notin> set part \<Longrightarrow>
   recover_from part pos n acc =
     Inr \<lparr>rv_records = acc, rv_valid_len = pos,
          rv_tail = (if part = [] then Clean else PartialDiscarded (length part))\<rparr>"
  by (cases part) (auto simp: split_once_None)

lemma recover_torn:
  "list_all record_utf8 rs \<Longrightarrow> NL \<notin> set part \<Longrightarrow>
   recover (stream rs @ part) =
     Inr \<lparr>rv_records = rs, rv_valid_len = length (stream rs),
          rv_tail = (if part = [] then Clean else PartialDiscarded (length part))\<rparr>"
  by (simp add: recover_def recover_from_stream recover_from_torn)

text \<open>A stream cut anywhere is whole lines and the beginning of one more.\<close>

lemma take_stream:
  "\<exists>m part. m \<le> length rs \<and> take k (stream rs) = stream (take m rs) @ part \<and> NL \<notin> set part \<and>
     (m < length rs \<longrightarrow> length part \<le> length (encode_record (rs ! m)))"
proof (induction rs arbitrary: k)
  case Nil
  show ?case by (intro exI [of _ 0] exI [of _ "[]"]) simp
next
  case (Cons r rs)
  show ?case
  proof (cases "k \<le> length (encode_record r)")
    case True
    then have "take k (stream (r # rs)) = take k (encode_record r)" by simp
    moreover have "NL \<notin> set (take k (encode_record r))"
      using encode_one_line by (metis in_set_takeD)
    ultimately show ?thesis
      by (intro exI [of _ 0] exI [of _ "take k (encode_record r)"]) simp
  next
    case False
    define j where "j = k - Suc (length (encode_record r))"
    from Cons.IH [of j] obtain m part where IH: "m \<le> length rs"
      "take j (stream rs) = stream (take m rs) @ part" "NL \<notin> set part"
      "m < length rs \<longrightarrow> length part \<le> length (encode_record (rs ! m))" by blast
    from False have k: "k = length (encode_record r) + Suc j" by (simp add: j_def)
    have "take k (stream (r # rs)) = encode_record r @ NL # take j (stream rs)"
      unfolding k by simp
    with IH show ?thesis by (intro exI [of _ "Suc m"] exI [of _ part]) simp
  qed
qed

section \<open>The checksum detects a damaged byte\<close>

lemma crc_bit_top: "bit (crc_bit c) 31 = odd c"
  using bit_imp_le_length [of c 32]
  by (auto simp: crc_bit_def bit_simps and_one_eq odd_iff_mod_2_eq_one)

lemma xor_cancel: "a XOR x = b XOR x \<Longrightarrow> a = b" for a b :: u32
  by (metis xor.assoc xor_self_eq xor.right_neutral)

lemma crc_bit_inj: "crc_bit a = crc_bit b \<Longrightarrow> a = b"
proof (rule bit_word_eqI)
  fix n
  assume eq: "crc_bit a = crc_bit b" and "n < LENGTH(32)"
  have par: "odd a = odd b" using crc_bit_top eq by metis
  have "drop_bit 1 a = drop_bit 1 b"
    using eq par
    by (auto simp: crc_bit_def and_one_eq odd_iff_mod_2_eq_one dest: xor_cancel split: if_splits)
  then have drop: "bit a (Suc m) = bit b (Suc m)" for m
    by (metis bit_drop_bit_eq comp_apply plus_1_eq_Suc)
  show "bit a n = bit b n"
    using par drop by (cases n) (simp_all add: bit_0)
qed

lemma crc_bits_inj: "(crc_bit ^^ n) a = (crc_bit ^^ n) b \<Longrightarrow> a = b"
  by (induction n) (auto dest: crc_bit_inj)

lemma word_of_char_inj: "(of_nat (of_char b) :: u32) = of_nat (of_char c) \<Longrightarrow> b = c"
proof -
  assume eq: "(of_nat (of_char b) :: u32) = of_nat (of_char c)"
  have small: "(of_char x :: nat) < 2 ^ LENGTH(32)" for x :: char
  proof -
    have "(of_char x :: nat) < 256" by (metis mod_less_divisor of_char_mod_256 zero_less_numeral)
    then show ?thesis by (rule less_le_trans) simp
  qed
  from eq have "unat (of_nat (of_char b) :: u32) = unat (of_nat (of_char c) :: u32)" by simp
  then have "(of_char b :: nat) = of_char c" using small by (simp only: unat_of_nat_small)
  then show ?thesis by simp
qed

lemma crc_byte_inj_state: "crc_byte a x = crc_byte b x \<Longrightarrow> a = b"
  unfolding crc_byte_def by (drule crc_bits_inj) (rule xor_cancel)

lemma crc_byte_inj_byte: "crc_byte a x = crc_byte a y \<Longrightarrow> x = y"
  unfolding crc_byte_def
  by (drule crc_bits_inj) (metis word_of_char_inj xor_cancel xor.commute)

lemma crc_rest_inj: "foldl crc_byte a ys = foldl crc_byte b ys \<Longrightarrow> a = b"
  by (induction ys arbitrary: a b) (auto dest: crc_byte_inj_state)

lemma crc_detects_byte:
  assumes "b \<noteq> c"
  shows "crc32 (xs @ b # ys) \<noteq> crc32 (xs @ c # ys)"
proof
  assume "crc32 (xs @ b # ys) = crc32 (xs @ c # ys)"
  then have "foldl crc_byte 0xFFFFFFFF (xs @ b # ys) = foldl crc_byte 0xFFFFFFFF (xs @ c # ys)"
    unfolding crc32_def by (metis bit.double_compl)
  then have "crc_byte (foldl crc_byte 0xFFFFFFFF xs) b = crc_byte (foldl crc_byte 0xFFFFFFFF xs) c"
    by (simp add: crc_rest_inj)
  then show False using crc_byte_inj_byte assms by blast
qed

lemma decode_damaged:
  assumes "b \<noteq> c"
  shows "decode_record (show_hex 8 (unat (crc32 (xs @ b # ys))) @ TAB # xs @ c # ys) = Inl ''checksum mismatch''"
  using crc_detects_byte [OF assms, of xs ys]
  by (simp add: decode_record_def split_encoded crc_field word_unat_eq_iff)

section \<open>Properties\<close>

text \<open>
  every record of the ledger survives its line: decoding what was encoded gives the record
  back, and the line holds no line break, whatever tabs, line breaks and backslashes its names and
  messages contain.
\<close>

theorem record_line_roundtrip: "decode_record (encode_record r) = Inr r \<and> NL \<notin> set (encode_record r)"
  using decode_encode_record encode_one_line by simp

text \<open>
  a crash may cut the journal at any byte. Recovery then answers without an error with the
  longest sequence of whole lines that were written, the length to truncate the file to, and the number
  of torn bytes, if any; records written before the cut are never lost and none is invented.
\<close>

theorem recover_after_any_cut:
  assumes "list_all record_utf8 rs"
  shows "\<exists>m part. m \<le> length rs \<and> take k (stream rs) = stream (take m rs) @ part \<and>
    (m < length rs \<longrightarrow> length part \<le> length (encode_record (rs ! m))) \<and>
    recover (take k (stream rs)) =
      Inr \<lparr>rv_records = take m rs, rv_valid_len = length (stream (take m rs)),
           rv_tail = (if part = [] then Clean else PartialDiscarded (length part))\<rparr>"
proof -
  obtain m part where m: "m \<le> length rs" "take k (stream rs) = stream (take m rs) @ part"
    "NL \<notin> set part" "m < length rs \<longrightarrow> length part \<le> length (encode_record (rs ! m))"
    using take_stream by blast
  have "list_all record_utf8 (take m rs)" using assms by (auto simp: list_all_iff dest: in_set_takeD)
  from recover_torn [OF this m(3)] m show ?thesis by (intro exI [of _ m] exI [of _ part]) simp
qed

definition example_attempt :: ledger_record where
  "example_attempt = CleanupAttempt example_key (DeploymentId 7) 200"

lemma example_attempt_utf8: "list_all record_utf8 [example_attempt]"
  by (simp add: example_attempt_def example_key_def) (rule utf8_ascii, simp add: byte_def)

theorem recover_after_any_cut_witness: "\<exists>rv. recover (take 9 (stream [example_attempt])) = Inr rv"
  using recover_after_any_cut [OF example_attempt_utf8, of 9] by blast

text \<open>
  damage to a line that was completely written is an error, never a different record: after
  any valid records, a line in which one byte of the checksummed text was changed (to anything but a
  line break) makes recovery stop with corruption at exactly that line.
\<close>

theorem damaged_byte_is_corruption:
  assumes "list_all record_utf8 rs" and "record_body r = xs @ b # ys" and "c \<noteq> b" and "c \<noteq> NL"
  shows "\<exists>why. recover (stream rs @ show_hex 8 (unat (crc32 (record_body r))) @ TAB # xs @ c # ys @ NL # later) =
    Inl (Corrupt (length rs + 1) why)"
proof -
  define line where "line = show_hex 8 (unat (crc32 (record_body r))) @ TAB # xs @ c # ys"
  have "NL \<notin> set (encode_record r)" by (rule encode_one_line)
  then have "NL \<notin> set line" using assms by (auto simp: line_def encode_record_def)
  moreover have "decode_record line = Inl ''checksum mismatch''"
    using decode_damaged [of b c xs ys] assms(2,3) by (simp add: line_def)
  ultimately have "\<exists>why. recover (stream rs @ line @ NL # later) = Inl (Corrupt (length rs + 1) why)"
    using assms(1) by (simp add: recover_def recover_from_stream recover_from_line)
  then show ?thesis by (simp add: line_def)
qed

lemma example_attempt_body: "record_body example_attempt = [] @ CHR ''a'' # tl (record_body example_attempt)"
  by (simp add: record_body_def example_attempt_def key_fields_def)

theorem damaged_byte_is_corruption_witness:
  "\<exists>why. recover (stream [example_attempt] @ show_hex 8 (unat (crc32 (record_body example_attempt))) @
     TAB # [] @ CHR ''b'' # tl (record_body example_attempt) @ NL # []) = Inl (Corrupt 2 why)"
  using damaged_byte_is_corruption [OF example_attempt_utf8 example_attempt_body, of "CHR ''b''" "[]"]
  by (simp add: numeral_2_eq_2)

end
