(* ===== verification/Ports.thy ===== *)
theory Ports
  imports Ledger
begin

text \<open>
  Host port leases (\<open>deploy/src/ports.rs\<close>): the ranges, what is known to be taken, the cyclic search
  for a free port, a fixed request, and the single replacement after a collision.
\<close>

datatype purpose = Application | Test

record port_range =
  pr_start :: u16
  pr_end :: u16

definition range_applications :: port_range where
  "range_applications = \<lparr>pr_start = 38000, pr_end = 38999\<rparr>"

definition range_tests :: port_range where
  "range_tests = \<lparr>pr_start = 39000, pr_end = 39099\<rparr>"

fun for_purpose :: "purpose \<Rightarrow> port_range" where
  "for_purpose Application = range_applications"
| "for_purpose Test = range_tests"

definition range_contains :: "port_range \<Rightarrow> u16 \<Rightarrow> bool" where
  "range_contains r p \<longleftrightarrow> pr_start r \<le> p \<and> p \<le> pr_end r"

record port_lease =
  pl_host_port :: u16
  pl_container_port :: u16
  pl_purpose :: purpose

record occupancy =
  host_listeners :: "u16 set"
  docker_mappings :: "u16 set"
  journaled_leases :: "u16 set"

datatype taken = HostListener | DockerMapping | JournaledLease

datatype port_error =
    Exhausted port_range
  | OutOfRange u16 purpose
  | CollisionRepeated u16 u16
  | Occupied u16 taken

definition with_ledger :: "occupancy \<Rightarrow> ledger \<Rightarrow> occupancy" where
  "with_ledger occ l = occ\<lparr>journaled_leases := journaled_leases occ \<union> set (leased_ports l)\<rparr>"

definition taken_by :: "occupancy \<Rightarrow> u16 \<Rightarrow> taken option" where
  "taken_by occ p =
     (if p \<in> host_listeners occ then Some HostListener
      else if p \<in> docker_mappings occ then Some DockerMapping
      else if p \<in> journaled_leases occ then Some JournaledLease else None)"

text \<open>
  The search: \<open>port_at\<close> is the port tried at turn \<open>i\<close> of the loop, computed at the widths of the code,
  and \<open>allocate_from\<close> runs through the turns.
\<close>

definition range_size :: "port_range \<Rightarrow> u32" where
  "range_size r = ucast (pr_end r - pr_start r) + 1"

definition port_at :: "port_range \<Rightarrow> u16 \<Rightarrow> u32 \<Rightarrow> u16" where
  "port_at r first i =
     pr_start r + (ucast (ucast (first - pr_start r) + i) :: u16) mod ucast (range_size r)"

fun allocate_from :: "(u16 \<Rightarrow> bool) \<Rightarrow> port_range \<Rightarrow> u16 \<Rightarrow> nat list \<Rightarrow> u16 option" where
  "allocate_from free r first [] = None"
| "allocate_from free r first (i # is) =
     (let p = port_at r first (of_nat i)
      in if free p then Some p else allocate_from free r first is)"

definition search_first :: "port_range \<Rightarrow> u16 option \<Rightarrow> u16" where
  "search_first r hint = (case hint of Some h \<Rightarrow> if range_contains r h then h else pr_start r | None \<Rightarrow> pr_start r)"

definition allocate ::
  "purpose \<Rightarrow> u16 \<Rightarrow> occupancy \<Rightarrow> u16 option \<Rightarrow> u16 list \<Rightarrow> port_error + port_lease" where
  "allocate purpose cport occ hint exclude =
     (let r = for_purpose purpose;
          size = range_size r;
          first = search_first r hint
      in case allocate_from (\<lambda>p. taken_by occ p = None \<and> p \<notin> set exclude) r first [0 ..< unat size] of
           Some p \<Rightarrow> Inr \<lparr>pl_host_port = p, pl_container_port = cport, pl_purpose = purpose\<rparr>
         | None \<Rightarrow> Inl (Exhausted r))"

definition request_port :: "purpose \<Rightarrow> u16 \<Rightarrow> u16 \<Rightarrow> occupancy \<Rightarrow> port_error + port_lease" where
  "request_port purpose cport port occ =
     (if \<not> range_contains (for_purpose purpose) port then Inl (OutOfRange port purpose)
      else case taken_by occ port of
          Some t \<Rightarrow> Inl (Occupied port t)
        | None \<Rightarrow> Inr \<lparr>pl_host_port = port, pl_container_port = cport, pl_purpose = purpose\<rparr>)"

definition reallocate_after_collision ::
  "port_lease \<Rightarrow> u16 option \<Rightarrow> occupancy \<Rightarrow> port_error + port_lease" where
  "reallocate_after_collision prev already occ =
     (case already of
        Some first \<Rightarrow> Inl (CollisionRepeated first (pl_host_port prev))
      | None \<Rightarrow> allocate (pl_purpose prev) (pl_container_port prev) occ
                  (Some (pl_host_port prev + 1)) [pl_host_port prev])"

section \<open>Lemmas\<close>

definition size_of :: "port_range \<Rightarrow> nat" where
  "size_of r = unat (pr_end r) - unat (pr_start r) + 1"

definition range_ok :: "port_range \<Rightarrow> bool" where
  "range_ok r \<longleftrightarrow> pr_start r \<le> pr_end r \<and> 2 * size_of r < 2 ^ 16"

lemma for_purpose_ok: "range_ok (for_purpose p)"
  by (cases p) (simp_all add: range_ok_def size_of_def range_applications_def range_tests_def)

lemma range_contains_unat: "range_contains r p \<longleftrightarrow> unat (pr_start r) \<le> unat p \<and> unat p \<le> unat (pr_end r)"
  by (simp add: range_contains_def word_le_nat_alt)

lemma unat_ucast_up: "unat (ucast (x :: u16) :: u32) = unat x"
  using unat_bound [of x] by (simp add: unsigned_ucast_eq take_bit_nat_eq_self)

lemma unat_ucast_down: "unat (x :: u32) < 2 ^ 16 \<Longrightarrow> unat (ucast x :: u16) = unat x"
  by (simp add: unsigned_ucast_eq take_bit_nat_eq_self)

lemma range_size_unat: "range_ok r \<Longrightarrow> unat (range_size r) = size_of r"
proof -
  assume ok: "range_ok r"
  then have "unat (pr_end r - pr_start r) = unat (pr_end r) - unat (pr_start r)"
    by (simp add: range_ok_def unat_sub word_le_nat_alt)
  then show ?thesis using ok
    by (simp add: range_size_def unat_word_ariths unat_ucast_up size_of_def range_ok_def)
qed

lemma port_at_unat:
  assumes ok: "range_ok r" and first: "range_contains r first" and i: "i < size_of r"
  shows "unat (port_at r first (of_nat i)) =
    unat (pr_start r) + (unat first - unat (pr_start r) + i) mod size_of r"
proof -
  let ?s = "size_of r" and ?o = "unat first - unat (pr_start r)"
  have small: "2 * ?s < 2 ^ 16" "pr_start r \<le> pr_end r" using ok by (simp_all add: range_ok_def)
  have o: "?o < ?s" using first by (auto simp: range_contains_unat size_of_def)
  have io: "unat (of_nat i :: u32) = i" using i small by (intro unat_of_nat_small) simp
  have fo: "unat (first - pr_start r) = ?o"
    using first by (intro unat_sub) (simp add: range_contains_def)
  have sum: "unat (ucast (first - pr_start r) + of_nat i :: u32) = ?o + i"
    using o i small by (simp add: unat_word_ariths unat_ucast_up fo io)
  have cut: "unat (ucast (ucast (first - pr_start r) + of_nat i :: u32) :: u16) = ?o + i"
    using o i small sum by (subst unat_ucast_down) simp_all
  have sz: "unat (ucast (range_size r) :: u16) = ?s"
    using small range_size_unat [OF ok] by (subst unat_ucast_down) simp_all
  define m where "m = (ucast (ucast (first - pr_start r) + of_nat i :: u32) :: u16) mod ucast (range_size r)"
  have md: "unat m = (?o + i) mod ?s" unfolding m_def by (simp add: unat_mod cut sz)
  have "(?o + i) mod ?s < ?s" using i by (intro mod_less_divisor) simp
  moreover have "unat (pr_start r) + ?s \<le> 2 ^ 16"
    using small unat_bound [of "pr_end r"] by (auto simp: size_of_def word_le_nat_alt)
  ultimately have "unat (pr_start r) + (?o + i) mod ?s < 2 ^ 16" by linarith
  then have "unat (pr_start r + m) = unat (pr_start r) + (?o + i) mod ?s"
    by (simp add: unat_word_ariths md)
  then show ?thesis by (simp add: port_at_def m_def)
qed

lemma search_first_in: "range_ok r \<Longrightarrow> range_contains r (search_first r hint)"
  by (auto simp: search_first_def range_ok_def range_contains_def split: option.split)

lemma port_at_in:
  assumes "range_ok r" and "range_contains r first" and "i < size_of r"
  shows "range_contains r (port_at r first (of_nat i))"
proof -
  have "(unat first - unat (pr_start r) + i) mod size_of r < size_of r"
    using assms(3) by (intro mod_less_divisor) simp
  moreover have "unat (pr_start r) \<le> unat (pr_end r)"
    using assms(1) by (simp add: range_ok_def word_le_nat_alt)
  ultimately have "unat (pr_start r) + (unat first - unat (pr_start r) + i) mod size_of r \<le> unat (pr_end r)"
    unfolding size_of_def by linarith
  with port_at_unat [OF assms] show ?thesis by (simp add: range_contains_unat)
qed

text \<open>The turns of the loop run through the whole range.\<close>

lemma port_at_onto:
  assumes ok: "range_ok r" and first: "range_contains r first" and p: "range_contains r p"
  shows "\<exists>i < size_of r. port_at r first (of_nat i) = p"
proof -
  let ?s = "size_of r" and ?o = "unat first - unat (pr_start r)" and ?q = "unat p - unat (pr_start r)"
  have o: "?o < ?s" and q: "?q < ?s" using first p by (auto simp: range_contains_unat size_of_def)
  define i where "i = (if ?o \<le> ?q then ?q - ?o else ?s - ?o + ?q)"
  have i: "i < ?s" using o q by (auto simp: i_def)
  have "(?o + i) mod ?s = ?q" using o q by (auto simp: i_def)
  then have "unat (port_at r first (of_nat i)) = unat p"
    using port_at_unat [OF ok first i] p by (simp add: range_contains_unat)
  with i show ?thesis by (auto simp: word_unat_eq_iff)
qed

lemma allocate_from_Some:
  "allocate_from free r first is = Some p \<Longrightarrow>
   \<exists>us i vs. is = us @ i # vs \<and> p = port_at r first (of_nat i) \<and> free p \<and>
     (\<forall>j \<in> set us. \<not> free (port_at r first (of_nat j)))"
proof (induction "is")
  case Nil
  then show ?case by simp
next
  case (Cons i "is")
  show ?case
  proof (cases "free (port_at r first (of_nat i))")
    case True
    with Cons.prems show ?thesis by (intro exI [of _ "[]"]) (auto simp: Let_def)
  next
    case False
    with Cons obtain us k vs where "is = us @ k # vs" "p = port_at r first (of_nat k)" "free p"
      "\<forall>j \<in> set us. \<not> free (port_at r first (of_nat j))" by (auto simp: Let_def)
    with False show ?thesis by (intro exI [of _ "i # us"] exI [of _ k] exI [of _ vs]) simp
  qed
qed

lemma allocate_from_None:
  "allocate_from free r first is = None \<Longrightarrow> i \<in> set is \<Longrightarrow> \<not> free (port_at r first (of_nat i))"
  by (induction "is") (auto simp: Let_def split: if_splits)

text \<open>How far \<open>p\<close> is from \<open>first\<close>, going up and round the range.\<close>

definition cyclic_distance :: "port_range \<Rightarrow> u16 \<Rightarrow> u16 \<Rightarrow> nat" where
  "cyclic_distance r first p =
     (if unat first \<le> unat p then unat p - unat first else unat p + size_of r - unat first)"

lemma port_at_distance:
  assumes ok: "range_ok r" and first: "range_contains r first" and i: "i < size_of r"
  shows "cyclic_distance r first (port_at r first (of_nat i)) = i"
proof -
  let ?s = "size_of r" and ?o = "unat first - unat (pr_start r)"
  have o: "?o < ?s" and b: "unat (pr_start r) \<le> unat first"
    using first by (auto simp: range_contains_unat size_of_def)
  have u: "unat (port_at r first (of_nat i)) = unat (pr_start r) + (?o + i) mod ?s"
    by (rule port_at_unat [OF ok first i])
  show ?thesis
  proof (cases "?o + i < ?s")
    case True
    with u b show ?thesis by (simp add: cyclic_distance_def)
  next
    case False
    then have "(?o + i) mod ?s = ?o + i - ?s" using o i by (simp add: le_mod_geq)
    with u have "unat (port_at r first (of_nat i)) = unat first + i - ?s" using b False by simp
    with False b o i show ?thesis by (auto simp: cyclic_distance_def)
  qed
qed

lemma allocate_sound:
  assumes "allocate purpose cport occ hint exclude = Inr lease"
  shows "pl_purpose lease = purpose \<and> pl_container_port lease = cport \<and>
    range_contains (for_purpose purpose) (pl_host_port lease) \<and>
    taken_by occ (pl_host_port lease) = None \<and> pl_host_port lease \<notin> set exclude"
proof -
  define r where "r = for_purpose purpose"
  have ok: "range_ok r" unfolding r_def by (rule for_purpose_ok)
  from assms obtain q where q: "allocate_from (\<lambda>p. taken_by occ p = None \<and> p \<notin> set exclude) r
      (search_first r hint) [0 ..< unat (range_size r)] = Some q"
    and lease: "lease = \<lparr>pl_host_port = q, pl_container_port = cport, pl_purpose = purpose\<rparr>"
    by (auto simp: allocate_def Let_def r_def split: option.splits)
  from allocate_from_Some [OF q] obtain us i vs where i: "[0 ..< unat (range_size r)] = us @ i # vs"
    "q = port_at r (search_first r hint) (of_nat i)" "taken_by occ q = None \<and> q \<notin> set exclude" by blast
  have "i \<in> set [0 ..< unat (range_size r)]" unfolding i(1) by simp
  then have "i < size_of r" by (simp add: range_size_unat [OF ok])
  with port_at_in [OF ok search_first_in [OF ok]] i show ?thesis by (simp add: lease r_def)
qed

lemma allocate_error: "allocate purpose cport occ hint exclude = Inl e \<Longrightarrow> e = Exhausted (for_purpose purpose)"
  by (auto simp: allocate_def Let_def split: option.splits)

lemma leased_port_listed:
  assumes "e \<in> set l" and "e_key e = \<lparr>rk_kind = PortLease, rk_name = show_word p\<rparr>" and "\<not> is_released e"
  shows "p \<in> set (leased_ports l)"
  using assms by (force simp: leased_ports_def List.map_filter_def)

section \<open>Properties\<close>

text \<open>
  the search for a port answers the free port nearest to the hint going up and wrapping round
  the range of its purpose: it lies in that range, nothing known holds it, it is not excluded, and
  no free port of the range is nearer. It reports exhaustion only when no port of the range is free.
\<close>

theorem allocate_nearest_free:
  "case allocate purpose cport occ hint exclude of
     Inr lease \<Rightarrow>
       pl_purpose lease = purpose \<and> pl_container_port lease = cport \<and>
       range_contains (for_purpose purpose) (pl_host_port lease) \<and>
       taken_by occ (pl_host_port lease) = None \<and> pl_host_port lease \<notin> set exclude \<and>
       (\<forall>p. range_contains (for_purpose purpose) p \<and> taken_by occ p = None \<and> p \<notin> set exclude \<longrightarrow>
          cyclic_distance (for_purpose purpose) (search_first (for_purpose purpose) hint) (pl_host_port lease)
          \<le> cyclic_distance (for_purpose purpose) (search_first (for_purpose purpose) hint) p)
   | Inl e \<Rightarrow>
       e = Exhausted (for_purpose purpose) \<and>
       (\<forall>p. range_contains (for_purpose purpose) p \<longrightarrow> taken_by occ p \<noteq> None \<or> p \<in> set exclude)"
proof -
  define r where "r = for_purpose purpose"
  define first where "first = search_first r hint"
  define free where "free = (\<lambda>p. taken_by occ p = None \<and> p \<notin> set exclude)"
  have ok: "range_ok r" unfolding r_def by (rule for_purpose_ok)
  have first: "range_contains r first" unfolding first_def by (rule search_first_in [OF ok])
  have size: "unat (range_size r) = size_of r" by (rule range_size_unat [OF ok])
  have al: "allocate purpose cport occ hint exclude =
      (case allocate_from free r first [0 ..< size_of r] of
         Some p \<Rightarrow> Inr \<lparr>pl_host_port = p, pl_container_port = cport, pl_purpose = purpose\<rparr>
       | None \<Rightarrow> Inl (Exhausted r))"
    by (simp add: allocate_def Let_def r_def [symmetric] first_def [symmetric] free_def [symmetric] size)
  show ?thesis
  proof (cases "allocate_from free r first [0 ..< size_of r]")
    case None
    have "\<not> free p" if "range_contains r p" for p
      using port_at_onto [OF ok first that] allocate_from_None [OF None] by force
    then show ?thesis unfolding al None by (simp add: free_def r_def)
  next
    case (Some q)
    from allocate_from_Some [OF Some] obtain us i vs where split: "[0 ..< size_of r] = us @ i # vs"
      and q: "q = port_at r first (of_nat i)" "free q"
      and before: "\<forall>j \<in> set us. \<not> free (port_at r first (of_nat j))" by blast
    have i: "i < size_of r" using split by (metis in_set_conv_decomp atLeastLessThan_iff set_upt)
    have us: "j \<in> set us" if "j < i" for j
    proof -
      have "i = length us" using split i
        by (metis append_Cons length_append length_upt minus_nat.diff_0 nth_append_length nth_upt
            plus_nat.add_0 add_lessD1 length_Cons less_add_Suc1 add_Suc_right)
      moreover have "us = take (length us) [0 ..< size_of r]" using split by simp
      ultimately have "us = [0 ..< i]" using i by simp
      with that show ?thesis by simp
    qed
    have near: "cyclic_distance r first q \<le> cyclic_distance r first p" if p: "range_contains r p" "free p" for p
    proof -
      from port_at_onto [OF ok first p(1)] obtain j where j: "j < size_of r" "p = port_at r first (of_nat j)"
        by blast
      have "\<not> j < i" using us before p(2) j(2) by blast
      with port_at_distance [OF ok first] i j q(1) show ?thesis by simp
    qed
    show ?thesis
      using q(2) near port_at_in [OF ok first i] q(1)
      unfolding al Some by (simp add: free_def r_def first_def)
  qed
qed

definition example_occupancy :: occupancy where
  "example_occupancy = \<lparr>host_listeners = {39000}, docker_mappings = {39001}, journaled_leases = {}\<rparr>"

theorem allocate_nearest_free_witness:
  "\<exists>lease. allocate Test 80 example_occupancy None [] = Inr lease \<and> range_contains range_tests (pl_host_port lease)"
proof -
  have "range_contains range_tests 39002" "taken_by example_occupancy 39002 = None"
    by (simp_all add: range_contains_def range_tests_def taken_by_def example_occupancy_def)
  then show ?thesis
    using allocate_nearest_free [where purpose = Test and cport = 80 and occ = example_occupancy and hint = None and exclude = "[]"]
    by (cases "allocate Test 80 example_occupancy None []") auto
qed

text \<open>
  a port chosen with the ledger's leases counted as taken can be leased: whatever the
  listeners, the mappings, the hint and the exclusions, the ledger does not answer that another deployment
  holds it.
\<close>

theorem allocated_port_is_leasable:
  assumes "allocate purpose cport (with_ledger occ l) hint exclude = Inr lease"
  shows "led_apply l (Intent \<lparr>rk_kind = PortLease, rk_name = show_word (pl_host_port lease)\<rparr> a d p t)
    \<noteq> Inl (LeaseHeld n h)"
proof -
  let ?k = "\<lparr>rk_kind = PortLease, rk_name = show_word (pl_host_port lease)\<rparr>"
  have "taken_by (with_ledger occ l) (pl_host_port lease) = None"
    using allocate_sound [OF assms] by simp
  then have free: "pl_host_port lease \<notin> set (leased_ports l)"
    by (auto simp: taken_by_def with_ledger_def split: if_splits)
  have "List.find (\<lambda>e. e_key e = ?k \<and> e_deployment e \<noteq> d \<and> \<not> is_released e) l = None"
    using leased_port_listed [of _ l "pl_host_port lease"] free by (auto simp: find_None_iff)
  then show ?thesis by (simp add: apply_intent_def)
qed

text \<open>
  A collision gets at most one replacement: it is never the contested port, it is free and in
  the range of the lease's purpose, and a deployment that already had its replacement gets an error that
  names both ports.
\<close>

theorem replacement_at_most_once:
  "case reallocate_after_collision prev already occ of
     Inr lease \<Rightarrow> already = None \<and> pl_host_port lease \<noteq> pl_host_port prev \<and>
       taken_by occ (pl_host_port lease) = None \<and> pl_purpose lease = pl_purpose prev \<and>
       range_contains (for_purpose (pl_purpose prev)) (pl_host_port lease)
   | Inl e \<Rightarrow> (case already of Some first \<Rightarrow> e = CollisionRepeated first (pl_host_port prev)
              | None \<Rightarrow> e = Exhausted (for_purpose (pl_purpose prev)))"
proof (cases already)
  case (Some first)
  then show ?thesis by (simp add: reallocate_after_collision_def)
next
  case None
  let ?al = "allocate (pl_purpose prev) (pl_container_port prev) occ (Some (pl_host_port prev + 1)) [pl_host_port prev]"
  show ?thesis
  proof (cases ?al)
    case (Inl e)
    with None allocate_error [OF Inl] show ?thesis by (simp add: reallocate_after_collision_def)
  next
    case (Inr lease)
    with None allocate_sound [OF Inr] show ?thesis by (simp add: reallocate_after_collision_def)
  qed
qed

theorem allocated_port_is_leasable_witness:
  "led_apply [example_released] (Intent \<lparr>rk_kind = PortLease, rk_name = show_word (39000 :: u16)\<rparr>
     (ApplicationId 3) (DeploymentId 9) RemoveAlways 5) \<noteq> Inl (LeaseHeld ''39000'' (DeploymentId 7))"
proof -
  have al: "allocate Test 80 (with_ledger \<lparr>host_listeners = {}, docker_mappings = {}, journaled_leases = {}\<rparr>
      [example_released]) None [] = Inr \<lparr>pl_host_port = 39000, pl_container_port = 80, pl_purpose = Test\<rparr>"
  proof -
    have "unat (range_size range_tests) = 100"
      using range_size_unat [OF for_purpose_ok [of Test]] by (simp add: range_tests_def size_of_def)
    then show ?thesis
      by (simp add: allocate_def Let_def upt_conv_Cons search_first_def port_at_def range_tests_def
          taken_by_def with_ledger_def leased_ports_def List.map_filter_def example_released_def
          is_released_def)
  qed
  show ?thesis using allocated_port_is_leasable [OF al] by simp
qed

end
