(* ===== verification/Serving.thy ===== *)
theory Serving
  imports DeployState Ledger "HOL-Library.Product_Lexorder"
begin

text \<open>
  Which release an application serves (\<open>deploy/src/serving.rs\<close>) and which earlier ones it could be
  rolled back to (\<open>deploy/src/rollback.rs\<close>), both read off the durable records.
\<close>

section \<open>The serving release\<close>

definition restored_container_name :: "deployment_id \<Rightarrow> string" where
  "restored_container_name failed = ''hp-'' @ dep_str failed @ ''-restored''"

datatype served_by = Original | RestoredBy deployment_id | RolledBackBy deployment_id

record serving =
  sv_application :: application_id
  sv_release :: release_id
  sv_deployment :: deployment_id
  sv_container_owner :: deployment_id
  sv_container_name :: string
  sv_via :: served_by
  sv_since_ms :: u64
  sv_config :: "release_config option"

definition is_live_container :: "application_id \<Rightarrow> deployment_id \<Rightarrow> string option \<Rightarrow> entry \<Rightarrow> bool" where
  "is_live_container app owner only e \<longleftrightarrow>
     e_deployment e = owner \<and> e_app e = app \<and> rk_kind (e_key e) = Container \<and> \<not> is_released e \<and>
     e_id e \<noteq> None \<and> (case only of None \<Rightarrow> True | Some n \<Rightarrow> rk_name (e_key e) = n)"

definition live_container ::
  "ledger \<Rightarrow> application_id \<Rightarrow> deployment_id \<Rightarrow> string option \<Rightarrow> string option" where
  "live_container l app owner only =
     map_option (\<lambda>e. rk_name (e_key e)) (List.find (is_live_container app owner only) l)"

definition own_serving :: "ledger \<Rightarrow> application_id \<Rightarrow> deployment \<Rightarrow> serving option" where
  "own_serving l app d =
     (if d_status d \<noteq> Succeeded then None
      else case (d_release d, live_container l app (d_id d) None) of
        (Some rel, Some name) \<Rightarrow>
          (let (release, dep, via) =
             (case d_rollback_to d of
                Some target \<Rightarrow> (target, rel_deployment target, RolledBackBy (d_id d))
              | None \<Rightarrow> (rel, d_id d, Original))
           in Some \<lparr>sv_application = app, sv_release = release, sv_deployment = dep,
                    sv_container_owner = d_id d, sv_container_name = name, sv_via = via,
                    sv_since_ms = (case d_finished_ms d of None \<Rightarrow> d_created_ms d | Some t \<Rightarrow> t),
                    sv_config = d_pinned d\<rparr>)
      | _ \<Rightarrow> None)"

definition recovery_restored :: "deployment \<Rightarrow> recovery option" where
  "recovery_restored d =
     (case d_recovery d of
        Some r \<Rightarrow> if rec_outcome r = Restored \<or> rec_outcome r = RestoredUnverified then Some r else None
      | None \<Rightarrow> None)"

definition pinned_of :: "deployment list \<Rightarrow> deployment_id \<Rightarrow> release_config option" where
  "pinned_of ds i = Option.bind (List.find (\<lambda>x. d_id x = i) ds) d_pinned"

definition restored_serving :: "ledger \<Rightarrow> deployment list \<Rightarrow> application_id \<Rightarrow> deployment \<Rightarrow> serving option"
  where
  "restored_serving l ds app d =
     (case (recovery_restored d, d_replaces d) of
        (Some r, Some rel) \<Rightarrow>
          (case live_container l app (d_id d) (Some (restored_container_name (d_id d))) of
             Some name \<Rightarrow>
               Some \<lparr>sv_application = app, sv_release = rel, sv_deployment = rel_deployment rel,
                     sv_container_owner = d_id d, sv_container_name = name, sv_via = RestoredBy (d_id d),
                     sv_since_ms = (case rec_finished_ms r of None \<Rightarrow> rec_started_ms r | Some t \<Rightarrow> t),
                     sv_config = pinned_of ds (rel_deployment rel)\<rparr>
           | None \<Rightarrow> None)
      | _ \<Rightarrow> None)"

text \<open>The candidate that began serving last wins, ties broken by the owner's identifier.\<close>

definition serving_key :: "serving \<Rightarrow> u64 \<times> deployment_id" where
  "serving_key s = (sv_since_ms s, sv_container_owner s)"

fun consider_serving :: "serving option \<Rightarrow> serving \<Rightarrow> serving option" where
  "consider_serving None c = Some c"
| "consider_serving (Some b) c = (if serving_key b < serving_key c then Some c else Some b)"

definition candidates :: "ledger \<Rightarrow> deployment list \<Rightarrow> application_id \<Rightarrow> serving list" where
  "candidates l ds app =
     concat (map (\<lambda>d. List.map_filter id [own_serving l app d, restored_serving l ds app d])
               (filter (\<lambda>d. d_app d = app) ds))"

definition serving_release :: "ledger \<Rightarrow> deployment list \<Rightarrow> application_id \<Rightarrow> serving option" where
  "serving_release l ds app = foldl consider_serving None (candidates l ds app)"

definition containers_of_release :: "ledger \<Rightarrow> deployment list \<Rightarrow> deployment_id \<Rightarrow> entry list" where
  "containers_of_release l ds dep =
     (let release = rel_from_deployment dep
      in filter (\<lambda>e. rk_kind (e_key e) = Container \<and>
           (e_deployment e = dep \<or>
            (\<exists>f \<in> set ds. d_id f = e_deployment e \<and> d_rollback_to f = Some release \<and>
               d_status f = Succeeded) \<or>
            (\<exists>f \<in> set ds. d_id f = e_deployment e \<and> d_replaces f = Some release \<and>
               rk_name (e_key e) = restored_container_name (d_id f) \<and> recovery_restored f \<noteq> None))) l)"

section \<open>Rollback targets\<close>

record retained_release =
  rr_release :: release_id
  rr_deployment :: deployment_id
  rr_finished_ms :: u64
  rr_config :: "release_config option"
  rr_serving :: bool
  rr_problems :: "string list"

definition eligible :: "retained_release \<Rightarrow> bool" where
  "eligible r \<longleftrightarrow> rr_problems r = []"

definition finished_or_created :: "deployment \<Rightarrow> u64" where
  "finished_or_created d = (case d_finished_ms d of None \<Rightarrow> d_created_ms d | Some t \<Rightarrow> t)"

definition order_problem :: "serving option \<Rightarrow> u64 option \<Rightarrow> bool \<Rightarrow> u64 \<Rightarrow> string list" where
  "order_problem sv sf is_serving finished =
     (case (sv, sf) of
        (None, _) \<Rightarrow> [''the application has no serving release recorded'']
      | (Some _, None) \<Rightarrow> [''the serving release's deployment is not in the journal'']
      | (Some _, Some t) \<Rightarrow>
          if is_serving then [''this is the release serving now'']
          else if t \<le> finished
          then [''this release is not earlier than the serving one (moving forward is a replacement, not a rollback)'']
          else [])"

text \<open>The debug form of a string: quotes and backslashes escaped, as far as image ids need it.\<close>

definition debug_string :: "string \<Rightarrow> string" where
  "debug_string s =
     [CHR 0x22] @ concat (map (\<lambda>c. if c = CHR 0x22 \<or> c = CHR 0x5C then [CHR 0x5C, c] else [c]) s) @ [CHR 0x22]"

definition pin_problem :: "deployment \<Rightarrow> string list" where
  "pin_problem d =
     (case d_pinned d of
        None \<Rightarrow> [''no pinned configuration was stored for it (it predates pinning)'']
      | Some c \<Rightarrow>
          if strip_prefix ''sha256:'' (image_id c) = None
          then [''its pinned image '' @ debug_string (image_id c) @ '' is not an immutable image id''] else [])"

definition has_retained_image :: "ledger \<Rightarrow> application_id \<Rightarrow> deployment \<Rightarrow> bool" where
  "has_retained_image l app d \<longleftrightarrow>
     (\<exists>e \<in> set l. e_deployment e = d_id d \<and> e_app e = app \<and> rk_kind (e_key e) = Image \<and>
        e_id e \<noteq> None \<and> \<not> is_released e)"

definition retained_of ::
  "ledger \<Rightarrow> application_id \<Rightarrow> serving option \<Rightarrow> u64 option \<Rightarrow> deployment \<Rightarrow> release_id \<Rightarrow> retained_release" where
  "retained_of l app sv sf d release =
     (let finished = finished_or_created d;
          is_serving = (case sv of None \<Rightarrow> False | Some s \<Rightarrow> sv_release s = release)
      in \<lparr>rr_release = release, rr_deployment = d_id d, rr_finished_ms = finished, rr_config = d_pinned d,
          rr_serving = is_serving,
          rr_problems = order_problem sv sf is_serving finished @ pin_problem d @
            (if has_retained_image l app d then []
             else [''its retained image is not recorded as present (removed, or never recorded)''])\<rparr>)"

definition is_release_of :: "application_id \<Rightarrow> deployment \<Rightarrow> bool" where
  "is_release_of app d \<longleftrightarrow> d_app d = app \<and> d_status d = Succeeded \<and> d_release d \<noteq> None \<and> d_rollback_to d = None"

text \<open>\<open>sort_by\<close> with the arguments swapped is a stable sort, newest first.\<close>

definition newest_first :: "retained_release list \<Rightarrow> retained_release list" where
  "newest_first rs = rev (sort_key (\<lambda>r. (rr_finished_ms r, rr_deployment r)) (rev rs))"

definition retained_releases :: "ledger \<Rightarrow> deployment list \<Rightarrow> application_id \<Rightarrow> retained_release list" where
  "retained_releases l ds app =
     (let sv = serving_release l ds app;
          sf = Option.bind sv (\<lambda>s. map_option finished_or_created (List.find (\<lambda>d. d_id d = sv_deployment s) ds))
      in newest_first
           (map (\<lambda>d. retained_of l app sv sf d (the (d_release d))) (filter (is_release_of app) ds)))"

definition select_target ::
  "ledger \<Rightarrow> deployment list \<Rightarrow> application_id \<Rightarrow> release_id \<Rightarrow> string list + retained_release" where
  "select_target l ds app target =
     (case List.find (\<lambda>r. rr_release r = target) (retained_releases l ds app) of
        None \<Rightarrow> Inl [''release '' @ rel_str target @ '' is not a succeeded release of application '' @
                       app_str app @ '' in the journal'']
      | Some r \<Rightarrow> if \<not> eligible r then Inl (rr_problems r) else Inr r)"

section \<open>Lemmas\<close>

lemma foldl_consider:
  "case foldl consider_serving b cs of
     None \<Rightarrow> b = None \<and> cs = []
   | Some s \<Rightarrow> (s \<in> set cs \<or> b = Some s) \<and> (\<forall>c \<in> set cs. serving_key c \<le> serving_key s) \<and>
       (\<forall>x. b = Some x \<longrightarrow> serving_key x \<le> serving_key s)"
proof (induction cs arbitrary: b)
  case Nil
  show ?case by (cases b) auto
next
  case (Cons c cs)
  show ?case
  proof (cases b)
    case None
    with Cons.IH [of "Some c"] show ?thesis by (auto split: option.splits)
  next
    case (Some x)
    show ?thesis
    proof (cases "serving_key x < serving_key c")
      case True
      with Cons.IH [of "Some c"] Some show ?thesis by (fastforce split: option.splits)
    next
      case False
      with Cons.IH [of "Some x"] Some show ?thesis by (fastforce split: option.splits)
    qed
  qed
qed

lemma candidate_source:
  "s \<in> set (candidates l ds app) \<Longrightarrow>
   \<exists>d \<in> set ds. d_app d = app \<and> (own_serving l app d = Some s \<or> restored_serving l ds app d = Some s)"
  by (auto simp: candidates_def List.map_filter_def split: if_splits)

lemma live_container_Some:
  "live_container l app owner only = Some n \<Longrightarrow>
   \<exists>e \<in> set l. is_live_container app owner only e \<and> rk_name (e_key e) = n"
  by (auto simp: live_container_def dest: find_Some_set)

lemma own_serving_Some:
  "own_serving l app d = Some s \<Longrightarrow>
   d_status d = Succeeded \<and> sv_application s = app \<and> sv_container_owner s = d_id d \<and>
   live_container l app (d_id d) None = Some (sv_container_name s)"
  by (auto simp: own_serving_def Let_def split: if_splits option.splits)

lemma restored_serving_Some:
  "restored_serving l ds app d = Some s \<Longrightarrow>
   recovery_restored d \<noteq> None \<and> sv_application s = app \<and> sv_container_owner s = d_id d \<and>
   d_replaces d = Some (sv_release s) \<and>
   live_container l app (d_id d) (Some (restored_container_name (d_id d))) = Some (sv_container_name s)"
  by (auto simp: restored_serving_def split: option.splits)

lemma recovery_restored_iff: "recovery_restored d \<noteq> None \<longleftrightarrow> was_restored d"
proof (cases "d_recovery d")
  case (Some r)
  then show ?thesis by (cases "rec_outcome r") (simp_all add: recovery_restored_def was_restored_def)
qed (simp add: recovery_restored_def was_restored_def)

lemma set_newest_first [simp]: "set (newest_first rs) = set rs"
  by (simp add: newest_first_def)

lemma retained_releases_source:
  "r \<in> set (retained_releases l ds app) \<Longrightarrow>
   \<exists>d rel. d \<in> set ds \<and> is_release_of app d \<and> d_release d = Some rel \<and>
     r = retained_of l app (serving_release l ds app)
           (Option.bind (serving_release l ds app)
              (\<lambda>s. map_option finished_or_created (List.find (\<lambda>d. d_id d = sv_deployment s) ds))) d rel"
  by (auto simp: retained_releases_def Let_def is_release_of_def)

lemma order_problem_none:
  "order_problem sv sf b f = [] \<Longrightarrow> \<exists>s t. sv = Some s \<and> sf = Some t \<and> \<not> b \<and> f < t"
  by (auto simp: order_problem_def split: option.splits if_splits)

lemma pin_problem_none:
  "pin_problem d = [] \<Longrightarrow> \<exists>c rest. d_pinned d = Some c \<and> image_id c = ''sha256:'' @ rest"
proof -
  assume "pin_problem d = []"
  then obtain c rest where c: "d_pinned d = Some c" "strip_prefix ''sha256:'' (image_id c) = Some rest"
    by (auto simp: pin_problem_def split: option.splits if_splits)
  have "image_id c = ''sha256:'' @ rest" by (rule iffD1 [OF strip_prefix_Some_iff c(2)])
  with c(1) show ?thesis by blast
qed

section \<open>Properties\<close>

text \<open>
  what an application is said to serve is provable from the records: the container named is a
  recorded, receipted, unreleased container of the deployment that owns it, that deployment of the
  application succeeded or restored its predecessor, and no recorded candidate began serving later.
  Nothing is served exactly when the records hold no candidate.
\<close>

theorem serving_is_recorded:
  "case serving_release l ds app of
     None \<Rightarrow> candidates l ds app = []
   | Some s \<Rightarrow>
       sv_application s = app \<and>
       (\<exists>d \<in> set ds. d_app d = app \<and> d_id d = sv_container_owner s \<and> (d_status d = Succeeded \<or> was_restored d)) \<and>
       (\<exists>e \<in> set l. e_deployment e = sv_container_owner s \<and> e_app e = app \<and> rk_kind (e_key e) = Container \<and>
          rk_name (e_key e) = sv_container_name s \<and> e_id e \<noteq> None \<and> \<not> is_released e) \<and>
       (\<forall>c \<in> set (candidates l ds app). serving_key c \<le> serving_key s)"
proof (cases "serving_release l ds app")
  case None
  then show ?thesis
    using foldl_consider [of None "candidates l ds app"] by (simp add: serving_release_def)
next
  case (Some s)
  then have s: "s \<in> set (candidates l ds app)"
    and best: "\<forall>c \<in> set (candidates l ds app). serving_key c \<le> serving_key s"
    using foldl_consider [of None "candidates l ds app"] by (simp_all add: serving_release_def)
  from candidate_source [OF s] obtain d where d: "d \<in> set ds" "d_app d = app"
    and cs: "own_serving l app d = Some s \<or> restored_serving l ds app d = Some s" by blast
  from cs obtain only where f: "sv_application s = app" "sv_container_owner s = d_id d"
    "d_status d = Succeeded \<or> was_restored d" "live_container l app (d_id d) only = Some (sv_container_name s)"
    using own_serving_Some restored_serving_Some recovery_restored_iff by metis
  from live_container_Some [OF f(4)] obtain e where
    "e \<in> set l" "is_live_container app (d_id d) only e" "rk_name (e_key e) = sv_container_name s" by blast
  with d f best Some show ?thesis by (auto simp: is_live_container_def)
qed

text \<open>
  Claim C12: a release is accepted as a rollback target only when everything needed to serve it again is
  recorded: a succeeded deployment of the application built it, is not itself a rollback, finished before the
  deployment that serves, has a pinned configuration naming an immutable image, and its image is in
  the ledger with a receipt and not released. The release serving now is never accepted.
\<close>

theorem rollback_target_provable:
  assumes "select_target l ds app target = Inr r"
  shows "rr_release r = target \<and>
    (\<exists>s t. serving_release l ds app = Some s \<and> sv_release s \<noteq> target \<and>
       (\<exists>x \<in> set ds. d_id x = sv_deployment s \<and> finished_or_created x = t) \<and>
    (\<exists>d \<in> set ds. d_app d = app \<and> d_status d = Succeeded \<and> d_release d = Some target \<and>
       d_rollback_to d = None \<and> finished_or_created d < t \<and>
       (\<exists>c rest. rr_config r = Some c \<and> d_pinned d = Some c \<and> image_id c = ''sha256:'' @ rest) \<and>
       (\<exists>e \<in> set l. e_deployment e = d_id d \<and> e_app e = app \<and> rk_kind (e_key e) = Image \<and>
          e_id e \<noteq> None \<and> \<not> is_released e)))"
proof -
  define sv where "sv = serving_release l ds app"
  define sf where "sf = Option.bind sv
    (\<lambda>s. map_option finished_or_created (List.find (\<lambda>d. d_id d = sv_deployment s) ds))"
  from assms have r: "List.find (\<lambda>r. rr_release r = target) (retained_releases l ds app) = Some r" "eligible r"
    by (auto simp: select_target_def split: option.splits if_splits)
  from find_Some_set [OF r(1)] have "r \<in> set (retained_releases l ds app)" and rel: "rr_release r = target" by auto
  from retained_releases_source [OF this(1)] obtain d rl where d: "d \<in> set ds" "is_release_of app d"
    "d_release d = Some rl" "r = retained_of l app sv sf d rl" unfolding sv_def sf_def by blast
  from d(4) rel have rl: "rl = target" by (simp add: retained_of_def Let_def)
  let ?b = "case sv of None \<Rightarrow> False | Some s \<Rightarrow> sv_release s = rl"
  from r(2) d(4) have op: "order_problem sv sf ?b (finished_or_created d) = []" and pp: "pin_problem d = []"
    and img: "has_retained_image l app d"
    by (auto simp: eligible_def retained_of_def Let_def split: if_splits)
  from order_problem_none [OF op] obtain s t where st: "sv = Some s" "sf = Some t" "\<not> ?b" "finished_or_created d < t"
    by blast
  from st(1,2) obtain x where x: "List.find (\<lambda>d. d_id d = sv_deployment s) ds = Some x" "finished_or_created x = t"
    by (auto simp: sf_def)
  from pin_problem_none [OF pp] obtain c rest where c: "d_pinned d = Some c" "image_id c = ''sha256:'' @ rest"
    by blast
  have cfg: "rr_config r = Some c" using d(4) c(1) by (simp add: retained_of_def Let_def)
  have dd: "d_app d = app" "d_status d = Succeeded" "d_rollback_to d = None" "d_release d = Some target"
    using d(2,3) rl by (auto simp: is_release_of_def)
  have "sv_release s \<noteq> target" using st(1,3) rl by simp
  moreover have "\<exists>x \<in> set ds. d_id x = sv_deployment s \<and> finished_or_created x = t"
    using find_Some_set [OF x(1)] x(2) by blast
  moreover have "\<exists>e \<in> set l. e_deployment e = d_id d \<and> e_app e = app \<and> rk_kind (e_key e) = Image \<and>
      e_id e \<noteq> None \<and> \<not> is_released e" using img by (simp add: has_retained_image_def)
  ultimately show ?thesis using rel st(1,4) d(1) dd cfg c unfolding sv_def by blast
qed

section \<open>A concrete instance\<close>

definition example_done :: "deployment_id \<Rightarrow> u64 \<Rightarrow> deployment" where
  "example_done i t =
     (deployment_new i (ApplicationId 3) Manual 1)
       \<lparr>d_status := Succeeded, d_finished_ms := Some t, d_release := Some (rel_from_deployment i),
        d_pinned := Some (release_config_simulated 38000)\<rparr>"

definition example_object :: "deployment_id \<Rightarrow> resource_kind \<Rightarrow> entry" where
  "example_object i k =
     \<lparr>e_key = \<lparr>rk_kind = k, rk_name = ''x''\<rparr>, e_app = ApplicationId 3, e_deployment = i,
      e_disposition = Retain, e_id = Some ''id'', e_state = Created, e_attempts = 0,
      e_outstanding = False, e_intent_ms = 1\<rparr>"

definition example_ds :: "deployment list" where
  "example_ds = [example_done (DeploymentId 7) 10, example_done (DeploymentId 9) 20]"

definition example_ledger :: ledger where
  "example_ledger = [example_object (DeploymentId 7) Image, example_object (DeploymentId 9) Container]"

lemma example_serving_defs:
  "d_app (example_done i t) = ApplicationId 3" "d_id (example_done i t) = i"
  "d_status (example_done i t) = Succeeded" "d_finished_ms (example_done i t) = Some t"
  "d_release (example_done i t) = Some (rel_from_deployment i)" "d_rollback_to (example_done i t) = None"
  "d_pinned (example_done i t) = Some (release_config_simulated 38000)"
  "d_recovery (example_done i t) = None" "d_replaces (example_done i t) = None"
  by (simp_all add: example_done_def deployment_new_def)

lemma example_candidates:
  "candidates example_ledger example_ds (ApplicationId 3) =
     [\<lparr>sv_application = ApplicationId 3, sv_release = rel_from_deployment (DeploymentId 9),
       sv_deployment = DeploymentId 9, sv_container_owner = DeploymentId 9, sv_container_name = ''x'',
       sv_via = Original, sv_since_ms = 20, sv_config = Some (release_config_simulated 38000)\<rparr>]"
  by (simp add: candidates_def example_ds_def example_serving_defs own_serving_def restored_serving_def
      recovery_restored_def live_container_def example_ledger_def is_live_container_def
      example_object_def is_released_def List.map_filter_def)

theorem serving_is_recorded_witness:
  "\<exists>s. serving_release example_ledger example_ds (ApplicationId 3) = Some s \<and>
     sv_container_owner s = DeploymentId 9 \<and> rk_kind (e_key (example_object (DeploymentId 9) Container)) = Container"
  using serving_is_recorded [of example_ledger example_ds "ApplicationId 3"]
  by (simp add: serving_release_def example_candidates example_object_def)

lemma example_target:
  "\<exists>r. select_target example_ledger example_ds (ApplicationId 3) (rel_from_deployment (DeploymentId 7)) = Inr r"
proof -
  let ?rel = "rel_from_deployment (DeploymentId 7)"
  have sv: "serving_release example_ledger example_ds (ApplicationId 3) =
      Some \<lparr>sv_application = ApplicationId 3, sv_release = rel_from_deployment (DeploymentId 9),
       sv_deployment = DeploymentId 9, sv_container_owner = DeploymentId 9, sv_container_name = ''x'',
       sv_via = Original, sv_since_ms = 20, sv_config = Some (release_config_simulated 38000)\<rparr>"
    by (simp add: serving_release_def example_candidates)
  have "List.find (\<lambda>d. d_id d = DeploymentId 9) example_ds = Some (example_done (DeploymentId 9) 20)"
    by (simp add: example_ds_def example_serving_defs)
  then have rs: "retained_releases example_ledger example_ds (ApplicationId 3) =
      newest_first (map (\<lambda>d. retained_of example_ledger (ApplicationId 3)
        (serving_release example_ledger example_ds (ApplicationId 3)) (Some 20) d (the (d_release d))) example_ds)"
  proof -
    have "filter (is_release_of (ApplicationId 3)) example_ds = example_ds"
      by (simp add: example_ds_def is_release_of_def example_serving_defs)
    moreover have "finished_or_created (example_done (DeploymentId 9) 20) = 20"
      by (simp add: finished_or_created_def example_serving_defs)
    ultimately show ?thesis
      using \<open>List.find (\<lambda>d. d_id d = DeploymentId 9) example_ds = _\<close>
      by (simp add: retained_releases_def Let_def sv)
  qed
  have "\<forall>r \<in> set (retained_releases example_ledger example_ds (ApplicationId 3)). rr_release r = ?rel \<longrightarrow> eligible r"
    unfolding rs sv
    by (auto simp: example_ds_def example_serving_defs retained_of_def Let_def eligible_def order_problem_def
        finished_or_created_def pin_problem_def release_config_simulated_def has_retained_image_def
        example_ledger_def example_object_def is_released_def rel_from_deployment_def)
  moreover have "\<exists>r \<in> set (retained_releases example_ledger example_ds (ApplicationId 3)). rr_release r = ?rel"
    unfolding rs by (auto simp: example_ds_def example_serving_defs retained_of_def Let_def)
  then have "\<exists>r. List.find (\<lambda>r. rr_release r = ?rel) (retained_releases example_ledger example_ds (ApplicationId 3)) = Some r"
    by (auto simp: find_None_iff dest!: not_None_eq [THEN iffD1, OF notI])
      (metis (mono_tags, lifting) find_None_iff not_None_eq)
  ultimately show ?thesis
    by (auto simp: select_target_def dest: find_Some_set)
qed

theorem rollback_target_provable_witness:
  "\<exists>s. serving_release example_ledger example_ds (ApplicationId 3) = Some s \<and>
     sv_release s \<noteq> rel_from_deployment (DeploymentId 7)"
proof -
  obtain r where "select_target example_ledger example_ds (ApplicationId 3) (rel_from_deployment (DeploymentId 7)) = Inr r"
    using example_target by blast
  from rollback_target_provable [OF this] show ?thesis by blast
qed

end
