(* ===== verification/Backend.thy ===== *)
theory Backend
  imports LedgerPlan Ports Health Release Logs DeployState
begin

text \<open>
  The execution seam of the engine (\<open>deploy/src/backend.rs\<close>) and what the engine gives it
  (\<open>StepIo\<close> of \<open>deploy/src/engine.rs\<close>), with the in-memory journal the engine writes to.

  A backend is code the engine does not know. Its state, the clock's and everything else outside the
  engine is one world of type \<open>'w\<close>. A backend operation is a program that may change the world and may
  use \<open>StepIo\<close>: it is a tree whose nodes are those two things, so that an arbitrary backend can be
  quantified over and can still touch the ledger and the journal through \<open>StepIo\<close> only. The tree may ask
  for a receipt without the token of an intent; the types of the code forbid that, so the model allows
  more backends than the code does.
\<close>

section \<open>Errors and results of a step\<close>

datatype journal_error = Crash | JournalIo string

record step_error =
  se_message :: string
  se_timed_out :: bool
  se_evidence :: "check_evidence option"
  se_fatal :: "journal_error option"

definition step_error_new :: "string \<Rightarrow> step_error" where
  "step_error_new m = \<lparr>se_message = m, se_timed_out = False, se_evidence = None, se_fatal = None\<rparr>"

definition step_error_timeout :: "string \<Rightarrow> step_error" where
  "step_error_timeout m = (step_error_new m)\<lparr>se_timed_out := True\<rparr>"

definition with_evidence :: "step_error \<Rightarrow> check_evidence \<Rightarrow> step_error" where
  "with_evidence e ev = e\<lparr>se_evidence := Some ev\<rparr>"

definition from_journal_error :: "journal_error \<Rightarrow> step_error" where
  "from_journal_error j = (step_error_new ''journal write failed'')\<lparr>se_fatal := Some j\<rparr>"

datatype restore_result =
  RHealthy | RStartedUnverified | RFailed reason | RNotAttempted reason

record container_ref =
  cr_owner :: deployment_id
  cr_name :: string

record previous_release =
  pv_release :: release_id
  pv_deployment :: deployment_id
  pv_config :: "release_config option"
  pv_container :: "container_ref option"

section \<open>Programs over \<open>StepIo\<close>\<close>

text \<open>The methods of \<open>StepIo\<close> that read or change something; the others are its context below.\<close>

datatype io_call =
    IoIntend resource_key disposition
  | IoReceipt resource_key string
  | IoAttempt resource_key
  | IoResult resource_key cleanup_outcome
  | IoNow
  | IoLedger
  | IoPushChunk string
  | IoPushLine string
  | IoPushText string

datatype io_answer = AnsWritten "step_error + unit" | AnsTime u64 | AnsLedger ledger | AnsDone

record io_ctx =
  io_budget_ms :: u64
  io_app :: application_id
  io_deployment :: deployment_id

datatype ('w, 'a) prog =
    Return 'a
  | World "'w \<Rightarrow> ('w, 'a) prog \<times> 'w"
  | Io io_call "io_answer \<Rightarrow> ('w, 'a) prog"

type_synonym ('w, 'a) step_prog = "('w, step_error + 'a) prog"

text \<open>Sequencing of programs, and the question mark on a step result.\<close>

primrec prog_bind :: "('w, 'a) prog \<Rightarrow> ('a \<Rightarrow> ('w, 'b) prog) \<Rightarrow> ('w, 'b) prog" where
  "prog_bind (Return x) f = f x"
| "prog_bind (World g) f = World (\<lambda>w. map_prod (\<lambda>p. prog_bind p f) id (g w))"
| "prog_bind (Io c k) f = Io c (\<lambda>a. prog_bind (k a) f)"

definition step_bind :: "('w, 'a) step_prog \<Rightarrow> ('a \<Rightarrow> ('w, 'b) step_prog) \<Rightarrow> ('w, 'b) step_prog" where
  "step_bind p f = prog_bind p (\<lambda>r. case r of Inl e \<Rightarrow> Return (Inl e) | Inr x \<Rightarrow> f x)"

definition written :: "io_answer \<Rightarrow> step_error + unit" where
  "written a = (case a of AnsWritten r \<Rightarrow> r | _ \<Rightarrow> Inr ())"

text \<open>\<open>StepIo::intend\<close> answers the token that \<open>receipt\<close> needs: the key it was made for.\<close>

definition io_intend :: "resource_key \<Rightarrow> disposition \<Rightarrow> ('w, resource_key) step_prog" where
  "io_intend k p = Io (IoIntend k p) (\<lambda>a. Return (bind_res (written a) (\<lambda>_. Inr k)))"

definition io_receipt :: "resource_key \<Rightarrow> string \<Rightarrow> ('w, unit) step_prog" where
  "io_receipt k i = Io (IoReceipt k i) (\<lambda>a. Return (written a))"

definition io_cleanup_attempt :: "resource_key \<Rightarrow> ('w, unit) step_prog" where
  "io_cleanup_attempt k = Io (IoAttempt k) (\<lambda>a. Return (written a))"

definition io_cleanup_result :: "resource_key \<Rightarrow> cleanup_outcome \<Rightarrow> ('w, unit) step_prog" where
  "io_cleanup_result k oc = Io (IoResult k oc) (\<lambda>a. Return (written a))"

definition io_release_lease :: "u16 \<Rightarrow> ('w, unit) step_prog" where
  "io_release_lease p =
     (let k = resource_key_new PortLease (show_word p)
      in step_bind (io_cleanup_attempt k) (\<lambda>_. io_cleanup_result k ORemoved))"

definition io_lease_port :: "port_lease \<Rightarrow> ('w, resource_key) step_prog" where
  "io_lease_port lease =
     step_bind (io_intend (resource_key_new PortLease (show_word (pl_host_port lease))) RemoveOnFailure)
       (\<lambda>k. step_bind (io_receipt k (show_word (pl_host_port lease))) (\<lambda>_. Return (Inr k)))"

section \<open>The journal\<close>

text \<open>
  \<open>MemoryJournal\<close>: every write is kept, and the write with index \<open>j_crash_at\<close> fails and is not stored,
  as does every later one. Quantifying over \<open>j_crash_at\<close> is quantifying over the moment the process
  dies. The records of the other kinds do not occur in a run.
\<close>

record journal =
  j_snapshots :: "deployment list"
  j_ledger_records :: "ledger_record list"
  j_writes :: nat
  j_crash_at :: "nat option"

definition journal_new :: journal where
  "journal_new = \<lparr>j_snapshots = [], j_ledger_records = [], j_writes = 0, j_crash_at = None\<rparr>"

definition journal_crash_at :: "nat \<Rightarrow> journal" where
  "journal_crash_at n = journal_new\<lparr>j_crash_at := Some n\<rparr>"

definition j_gate :: "'m journal_scheme \<Rightarrow> journal_error + 'm journal_scheme" where
  "j_gate j = (if j_crash_at j = Some (j_writes j) then Inl Crash
               else Inr (j\<lparr>j_writes := j_writes j + 1\<rparr>))"

definition j_persist :: "deployment \<Rightarrow> journal \<Rightarrow> journal_error + journal" where
  "j_persist d j = bind_res (j_gate j) (\<lambda>j. Inr (j\<lparr>j_snapshots := j_snapshots j @ [d]\<rparr>))"

definition j_record :: "ledger_record \<Rightarrow> journal \<Rightarrow> journal_error + journal" where
  "j_record r j = bind_res (j_gate j) (\<lambda>j. Inr (j\<lparr>j_ledger_records := j_ledger_records j @ [r]\<rparr>))"

section \<open>The state a write changes\<close>

text \<open>
  What happened, in order: the writes that became durable and the calls made to the backend. The
  journal and the fake of the code record the same in their traces; here the trace is kept for every
  backend, and nothing reads it.
\<close>

datatype call =
    CallPrepareSource | CallBuild | CallPreliminaryCheck | CallStopCurrent previous_release
  | CallPlanRelease | CallStartNew | CallFinalCheck | CallStopNew | CallRestoreBlockers
  | CallRestorePrevious u64

datatype event =
    EvPersist deployment
  | EvRecord ledger_record
  | EvCall call
  | EvList
  | EvRemove resource_kind string

record 'w core =
  c_world :: 'w
  c_journal :: journal
  c_ledger :: ledger
  c_trace :: "event list"

definition trace_add :: "event \<Rightarrow> ('w, 'm) core_scheme \<Rightarrow> ('w, 'm) core_scheme" where
  "trace_add e s = s\<lparr>c_trace := c_trace s @ [e]\<rparr>"

definition read_clock ::
  "('w \<Rightarrow> u64 \<times> 'w) \<Rightarrow> ('w, 'm) core_scheme \<Rightarrow> u64 \<times> ('w, 'm) core_scheme" where
  "read_clock now s = (case now (c_world s) of (t, w) \<Rightarrow> (t, s\<lparr>c_world := w\<rparr>))"

fun show_ledger_error :: "ledger_error \<Rightarrow> string" where
  "show_ledger_error (DuplicateIntent k) =
     ''ledger: duplicate intent for '' @ kind_str (rk_kind k) @ '' '' @ rk_name k"
| "show_ledger_error (UnknownEntry k) =
     ''ledger: no entry for '' @ kind_str (rk_kind k) @ '' '' @ rk_name k"
| "show_ledger_error (ReceiptConflict k) =
     ''ledger: conflicting receipt for '' @ kind_str (rk_kind k) @ '' '' @ rk_name k"
| "show_ledger_error (LeaseHeld port holder) =
     ''ledger: port '' @ port @ '' is already leased by deployment '' @ dep_str holder @ '' and not released''"
| "show_ledger_error (OutOfOrder k what) =
     ''ledger: '' @ what @ '' (out of order) for '' @ kind_str (rk_kind k) @ '' '' @ rk_name k"

definition io_write ::
  "ledger_record \<Rightarrow> ('w, 'm) core_scheme \<Rightarrow> (step_error + unit) \<times> ('w, 'm) core_scheme" where
  "io_write r s =
     (case led_apply (c_ledger s) r of
        Inl e \<Rightarrow> (Inl (step_error_new (show_ledger_error e)), s)
      | Inr l \<Rightarrow>
          (case j_record r (c_journal s) of
             Inl j \<Rightarrow> (Inl (from_journal_error j), s)
           | Inr j \<Rightarrow> (Inr (), trace_add (EvRecord r) (s\<lparr>c_journal := j, c_ledger := l\<rparr>))))"

definition io_stamped ::
  "('w \<Rightarrow> u64 \<times> 'w) \<Rightarrow> (u64 \<Rightarrow> ledger_record) \<Rightarrow> log_sink \<Rightarrow> ('w, 'm) core_scheme \<Rightarrow>
   io_answer \<times> log_sink \<times> ('w, 'm) core_scheme" where
  "io_stamped now r k s =
     (case read_clock now s of (t, s) \<Rightarrow>
      case io_write (r t) s of (res, s) \<Rightarrow> (AnsWritten res, k, s))"

fun io_step ::
  "('w \<Rightarrow> u64 \<times> 'w) \<Rightarrow> io_ctx \<Rightarrow> io_call \<Rightarrow> log_sink \<Rightarrow> ('w, 'm) core_scheme \<Rightarrow>
   io_answer \<times> log_sink \<times> ('w, 'm) core_scheme" where
  "io_step now x (IoIntend key p) k s =
     io_stamped now (\<lambda>t. Intent key (io_app x) (io_deployment x) p t) k s"
| "io_step now x (IoReceipt key i) k s = io_stamped now (\<lambda>t. Receipt key (io_deployment x) i t) k s"
| "io_step now x (IoAttempt key) k s = io_stamped now (\<lambda>t. CleanupAttempt key (io_deployment x) t) k s"
| "io_step now x (IoResult key oc) k s =
     io_stamped now (\<lambda>t. CleanupResult key (io_deployment x) oc t) k s"
| "io_step now x IoNow k s = (case read_clock now s of (t, s) \<Rightarrow> (AnsTime t, k, s))"
| "io_step now x IoLedger k s = (AnsLedger (c_ledger s), k, s)"
| "io_step now x (IoPushChunk c) k s = (AnsDone, push_chunk c k, s)"
| "io_step now x (IoPushLine l) k s = (AnsDone, push_line l k, s)"
| "io_step now x (IoPushText l) k s = (AnsDone, push_text l k, s)"

primrec run_prog ::
  "('w \<Rightarrow> u64 \<times> 'w) \<Rightarrow> io_ctx \<Rightarrow> ('w, 'a) prog \<Rightarrow> log_sink \<Rightarrow> ('w, 'm) core_scheme \<Rightarrow>
   'a \<times> log_sink \<times> ('w, 'm) core_scheme" where
  "run_prog now x (Return r) = (\<lambda>k s. (r, k, s))"
| "run_prog now x (World g) =
     (\<lambda>k s. case map_prod (run_prog now x) id (g (c_world s)) of (m, w) \<Rightarrow> m k (s\<lparr>c_world := w\<rparr>))"
| "run_prog now x (Io c f) =
     (\<lambda>k s. case io_step now x c k s of (a, k, s) \<Rightarrow> run_prog now x (f a) k s)"

section \<open>The backend\<close>

text \<open>
  The traits \<open>ResourceOps\<close> and \<open>Backend\<close>. The methods with a default body are fields like the others;
  \<open>default_plan_release\<close> and the constants below it are the defaults.
\<close>

record 'w backend =
  bk_list_resources :: "'w \<Rightarrow> (step_error + observed list) \<times> 'w"
  bk_remove_resource :: "remove_request \<Rightarrow> 'w \<Rightarrow> (step_error + remove_result) \<times> 'w"
  bk_prepare_source :: "io_ctx \<Rightarrow> ('w, unit) step_prog"
  bk_build :: "io_ctx \<Rightarrow> ('w, unit) step_prog"
  bk_preliminary_check :: "io_ctx \<Rightarrow> ('w, check_evidence) step_prog"
  bk_stop_current :: "io_ctx \<Rightarrow> previous_release \<Rightarrow> ('w, unit) step_prog"
  bk_plan_release :: "io_ctx \<Rightarrow> ('w, release_config option) step_prog"
  bk_pinned_config :: "'w \<Rightarrow> release_config option"
  bk_restore_blockers :: "io_ctx \<Rightarrow> previous_release \<Rightarrow> ('w, string list) step_prog"
  bk_start_new :: "io_ctx \<Rightarrow> ('w, unit) step_prog"
  bk_final_check :: "io_ctx \<Rightarrow> ('w, check_evidence) step_prog"
  bk_stop_new :: "io_ctx \<Rightarrow> ('w, unit) step_prog"
  bk_accepts_simulated :: "'w \<Rightarrow> bool"
  bk_supports_cutover :: "'w \<Rightarrow> bool"
  bk_restore_previous :: "io_ctx \<Rightarrow> previous_release \<Rightarrow> u64 \<Rightarrow> ('w, restore_result) step_prog"

definition default_plan_release :: "io_ctx \<Rightarrow> ('w, release_config option) step_prog" where
  "default_plan_release x = Return (Inr None)"

definition default_pinned_config :: "'w \<Rightarrow> release_config option" where
  "default_pinned_config w = None"

definition default_restore_blockers :: "io_ctx \<Rightarrow> previous_release \<Rightarrow> ('w, string list) step_prog" where
  "default_restore_blockers x p = Return (Inr [])"

definition default_accepts_simulated :: "'w \<Rightarrow> bool" where "default_accepts_simulated w = False"
definition default_supports_cutover :: "'w \<Rightarrow> bool" where "default_supports_cutover w = True"

end
