(* ===== verification/Engine.thy ===== *)
theory Engine
  imports Backend Serving
begin

text \<open>
  The parts of \<open>deploy/src/engine.rs\<close> that a run and startup share: the write-ahead ledger write, carrying
  out a recovery plan, and reconciling the ledger with the runtime.

  An engine computation maps a state to an outcome and a state. The outcome is a value, an
  \<open>EngineError\<close> that ends the computation (the question mark), or a panic (an \<open>expect\<close> that fails).
\<close>

section \<open>Computations\<close>

datatype engine_error = EJournal journal_error | ETransition transition_error | ELedger ledger_error

datatype 'a result = Ok 'a | Fail engine_error | Panic

type_synonym ('s, 'a) eng = "'s \<Rightarrow> 'a result \<times> 's"

definition ret :: "'a \<Rightarrow> ('s, 'a) eng" where
  "ret x = (\<lambda>s. (Ok x, s))"

definition fail :: "engine_error \<Rightarrow> ('s, 'a) eng" where
  "fail e = (\<lambda>s. (Fail e, s))"

definition panic :: "('s, 'a) eng" where
  "panic = (\<lambda>s. (Panic, s))"

definition bnd :: "('s, 'a) eng \<Rightarrow> ('a \<Rightarrow> ('s, 'b) eng) \<Rightarrow> ('s, 'b) eng" where
  "bnd m f = (\<lambda>s. case m s of (Ok x, t) \<Rightarrow> f x t | (Fail e, t) \<Rightarrow> (Fail e, t) | (Panic, t) \<Rightarrow> (Panic, t))"

definition thn :: "('s, 'a) eng \<Rightarrow> ('s, 'b) eng \<Rightarrow> ('s, 'b) eng" where
  "thn m n = bnd m (\<lambda>_. n)"

definition gets :: "('s \<Rightarrow> 'a) \<Rightarrow> ('s, 'a) eng" where
  "gets f = (\<lambda>s. (Ok (f s), s))"

definition modify :: "('s \<Rightarrow> 's) \<Rightarrow> ('s, unit) eng" where
  "modify f = (\<lambda>s. (Ok (), f s))"

section \<open>Ledger writes\<close>

definition clock_now :: "('w \<Rightarrow> u64 \<times> 'w) \<Rightarrow> (('w, 'm) core_scheme, u64) eng" where
  "clock_now now = (\<lambda>s. case read_clock now s of (t, s') \<Rightarrow> (Ok t, s'))"

definition write_record :: "ledger_record \<Rightarrow> (('w, 'm) core_scheme, unit) eng" where
  "write_record r = (\<lambda>s.
     case led_apply (c_ledger s) r of
       Inl e \<Rightarrow> (Fail (ELedger e), s)
     | Inr l \<Rightarrow>
         (case j_record r (c_journal s) of
            Inl j \<Rightarrow> (Fail (EJournal j), s)
          | Inr j \<Rightarrow> (Ok (), trace_add (EvRecord r) (s\<lparr>c_journal := j, c_ledger := l\<rparr>))))"

definition attempt_cleanup :: "('w \<Rightarrow> u64 \<times> 'w) \<Rightarrow> entry_ref \<Rightarrow> (('w, 'm) core_scheme, unit) eng" where
  "attempt_cleanup now ref =
     bnd (clock_now now) (\<lambda>t. write_record (CleanupAttempt (snd ref) (fst ref) t))"

definition settle ::
  "('w \<Rightarrow> u64 \<times> 'w) \<Rightarrow> entry_ref \<Rightarrow> cleanup_outcome \<Rightarrow> (('w, 'm) core_scheme, unit) eng" where
  "settle now ref oc =
     bnd (clock_now now) (\<lambda>t. write_record (CleanupResult (snd ref) (fst ref) oc t))"

definition adopt_receipt ::
  "('w \<Rightarrow> u64 \<times> 'w) \<Rightarrow> entry_ref \<Rightarrow> observed \<Rightarrow> (('w, 'm) core_scheme, unit) eng" where
  "adopt_receipt now ref ob =
     bnd (clock_now now) (\<lambda>t. write_record (Receipt (snd ref) (fst ref) (ob_id ob) t))"

section \<open>Carrying out a plan\<close>

definition request_for :: "entry \<Rightarrow> string \<Rightarrow> remove_request" where
  "request_for e i =
     \<lparr>rq_kind = rk_kind (e_key e), rq_id = i, rq_name = rk_name (e_key e), rq_app = e_app e,
      rq_deployment = e_deployment e\<rparr>"

definition call_list :: "'w backend \<Rightarrow> (('w, 'm) core_scheme, step_error + observed list) eng" where
  "call_list bk = (\<lambda>s. case bk_list_resources bk (c_world s) of
     (r, w) \<Rightarrow> (Ok r, trace_add EvList (s\<lparr>c_world := w\<rparr>)))"

definition call_remove ::
  "'w backend \<Rightarrow> remove_request \<Rightarrow> (('w, 'm) core_scheme, step_error + remove_result) eng" where
  "call_remove bk rq = (\<lambda>s. case bk_remove_resource bk rq (c_world s) of
     (r, w) \<Rightarrow> (Ok r, trace_add (EvRemove (rq_kind rq) (rq_id rq)) (s\<lparr>c_world := w\<rparr>)))"

fun removal_outcome :: "entry \<Rightarrow> step_error + remove_result \<Rightarrow> cleanup_outcome" where
  "removal_outcome e (Inr RemRemoved) = ORemoved"
| "removal_outcome e (Inr RemAlreadyAbsent) = OAlreadyAbsent"
| "removal_outcome e (Inr (RemRefused why)) = ORefused why"
| "removal_outcome e (Inr (RemConflict cause why)) =
     (if rk_kind (e_key e) = Image \<and> e_disposition e = Retain \<and> e_id e \<noteq> None
      then OConflict cause why
      else OFailed (''conflict ('' @ conflict_cause_str cause @ ''): '' @ why))"
| "removal_outcome e (Inl err) = OFailed (se_message err)"

fun execute_action ::
  "'w backend \<Rightarrow> ('w \<Rightarrow> u64 \<times> 'w) \<Rightarrow> action \<Rightarrow> (('w, 'm) core_scheme, observed list) eng" where
  "execute_action bk now (ReportOnly ob why) = ret [ob]"
| "execute_action bk now (Adopt ref ob) = thn (adopt_receipt now ref ob) (ret [])"
| "execute_action bk now (ReleaseLease ref) =
     thn (attempt_cleanup now ref) (thn (settle now ref ORemoved) (ret []))"
| "execute_action bk now (MarkAbsent ref) =
     thn (attempt_cleanup now ref) (thn (settle now ref OAlreadyAbsent) (ret []))"
| "execute_action bk now (Refuse ref why) =
     thn (attempt_cleanup now ref) (thn (settle now ref (ORefused why)) (ret []))"
| "execute_action bk now (Remove ref ob adopt) =
     thn (if adopt then adopt_receipt now ref ob else ret ())
     (thn (attempt_cleanup now ref)
     (bnd (gets (\<lambda>s. led_find (c_ledger s) (fst ref) (snd ref))) (\<lambda>found.
      case found of
        None \<Rightarrow> panic
      | Some e \<Rightarrow>
          bnd (call_remove bk (request_for e (ob_id ob))) (\<lambda>r.
          thn (settle now ref (removal_outcome e r)) (ret [])))))"

fun execute_actions ::
  "'w backend \<Rightarrow> ('w \<Rightarrow> u64 \<times> 'w) \<Rightarrow> action list \<Rightarrow> (('w, 'm) core_scheme, observed list) eng" where
  "execute_actions bk now [] = ret []"
| "execute_actions bk now (a # as) =
     bnd (execute_action bk now a) (\<lambda>u. bnd (execute_actions bk now as) (\<lambda>us. ret (u @ us)))"

section \<open>Reconciling\<close>

definition is_release_lease :: "action \<Rightarrow> bool" where
  "is_release_lease a \<longleftrightarrow> (case a of ReleaseLease _ \<Rightarrow> True | _ \<Rightarrow> False)"

definition containers_settled :: "ledger \<Rightarrow> deployment_id \<Rightarrow> bool" where
  "containers_settled l d \<longleftrightarrow>
     list_all is_released
       (filter (\<lambda>e. e_deployment e = d \<and> rk_kind (e_key e) = Container \<and>
                 rk_name (e_key e) \<noteq> restored_container_name d) l)"

fun release_leases ::
  "'w backend \<Rightarrow> ('w \<Rightarrow> u64 \<times> 'w) \<Rightarrow> action list \<Rightarrow> (('w, 'm) core_scheme, observed list) eng" where
  "release_leases bk now [] = ret []"
| "release_leases bk now (a # as) =
     bnd (case a of
            ReleaseLease ref \<Rightarrow>
              bnd (gets (\<lambda>s. containers_settled (c_ledger s) (fst ref))) (\<lambda>ok.
                if ok then execute_actions bk now [a] else ret [])
          | _ \<Rightarrow> panic)
       (\<lambda>u. bnd (release_leases bk now as) (\<lambda>us. ret (u @ us)))"

definition list_failure :: "step_error \<Rightarrow> string" where
  "list_failure e = ''could not list the runtime: '' @ se_message e"

text \<open>The runtime cannot be listed: what would need cleanup is recorded as failed.\<close>

fun fail_honestly ::
  "('w \<Rightarrow> u64 \<times> 'w) \<Rightarrow> step_error \<Rightarrow> action list \<Rightarrow> (('w, 'm) core_scheme, unit) eng" where
  "fail_honestly now e [] = ret ()"
| "fail_honestly now e (a # as) =
     thn (case a of
            ReleaseLease ref \<Rightarrow> thn (attempt_cleanup now ref) (settle now ref ORemoved)
          | MarkAbsent ref \<Rightarrow> thn (attempt_cleanup now ref) (settle now ref (OFailed (list_failure e)))
          | _ \<Rightarrow> ret ())
       (fail_honestly now e as)"

definition reconcile ::
  "'w backend \<Rightarrow> ('w \<Rightarrow> u64 \<times> 'w) \<Rightarrow> (deployment_id \<times> end_state) list \<Rightarrow>
   (('w, 'm) core_scheme, observed list) eng" where
  "reconcile bk now ended =
     bnd (call_list bk) (\<lambda>listed.
     bnd (gets c_ledger) (\<lambda>l.
       case listed of
         Inr obs \<Rightarrow>
           (let actions = plan l obs ended;
                leases = filter is_release_lease actions;
                objects = filter (\<lambda>a. \<not> is_release_lease a) actions
            in bnd (execute_actions bk now objects) (\<lambda>u.
               bnd (release_leases bk now leases) (\<lambda>us. ret (u @ us))))
       | Inl e \<Rightarrow> thn (fail_honestly now e (plan l [] ended)) (ret [])))"

definition end_state_of :: "deployment_status \<Rightarrow> end_state option" where
  "end_state_of st =
     (if st = Succeeded then Some EndSucceeded
      else if is_terminal st then Some NotSucceeded else None)"

end
