(* ===== verification/EngineRun.thy ===== *)
theory EngineRun
  imports Engine
begin

text \<open>
  One deployment run (\<open>Run\<close>, \<open>run_deployment_confirmed\<close> and \<open>recover_cutover\<close> of
  \<open>deploy/src/engine.rs\<close>): the steps in order with their budgets, what is persisted before each side
  effect, the cutover, its one bounded restoration, and the cleanup. The backend, the clock, the
  cancellation poll and the confirmation are parameters that act on the world.
\<close>

section \<open>Configuration and reports\<close>

record budgets =
  source_ms :: u64
  build_ms :: u64
  preliminary_ms :: u64
  cutover_ms :: u64
  final_ms :: u64
  cleanup_ms :: u64

definition budgets_default :: budgets where
  "budgets_default = \<lparr>source_ms = 120000, build_ms = 600000, preliminary_ms = 60000, cutover_ms = 60000,
     final_ms = 60000, cleanup_ms = 60000\<rparr>"

fun budget_for_step :: "budgets \<Rightarrow> step \<Rightarrow> u64" where
  "budget_for_step b Source = source_ms b"
| "budget_for_step b Build = build_ms b"
| "budget_for_step b PreliminaryCheck = preliminary_ms b"
| "budget_for_step b Cutover = cutover_ms b"
| "budget_for_step b FinalCheck = final_ms b"
| "budget_for_step b Recovery = cleanup_ms b"

record policy =
  restore_budget_ms :: u64

definition policy_default :: policy where "policy_default = \<lparr>restore_budget_ms = 60000\<rparr>"

record run_config =
  cfg_policy :: policy
  cfg_budgets :: budgets
  cfg_log_limits :: log_limits
  cfg_redactor :: redactor
  cfg_prior_ledger :: ledger
  cfg_previous :: "release_config option"
  cfg_previous_container :: "container_ref option"

definition run_config_default :: run_config where
  "run_config_default =
     \<lparr>cfg_policy = policy_default, cfg_budgets = budgets_default, cfg_log_limits = log_limits_default,
      cfg_redactor = redactor_none, cfg_prior_ledger = [], cfg_previous = None,
      cfg_previous_container = None\<rparr>"

datatype pause_reason = PausedFailedCutover

record cutover_plan =
  cp_application :: application_id
  cp_previous :: release_id
  cp_candidate :: release_id
  cp_max_interruption_ms :: u64
  cp_restore_budget_ms :: u64
  cp_restorable :: bool
  cp_rollback :: bool

definition cutover_plan_new ::
  "application_id \<Rightarrow> release_id \<Rightarrow> deployment_id \<Rightarrow> run_config \<Rightarrow> cutover_plan" where
  "cutover_plan_new app previous candidate cfg =
     \<lparr>cp_application = app, cp_previous = previous, cp_candidate = rel_from_deployment candidate,
      cp_max_interruption_ms =
        sat_add (sat_mul (cutover_ms (cfg_budgets cfg)) 2) (final_ms (cfg_budgets cfg)),
      cp_restore_budget_ms = restore_budget_ms (cfg_policy cfg),
      cp_restorable = (cfg_previous cfg \<noteq> None), cp_rollback = False\<rparr>"

datatype not_cut_over = NotConfirmed | Unsupported

record prepared =
  pp_plan :: cutover_plan
  pp_why :: not_cut_over

record report =
  rp_deployment :: deployment_id
  rp_prepared :: "prepared option"
  rp_blocked :: "string list"
  rp_status :: deployment_status
  rp_pause :: "pause_reason option"
  rp_ledger :: ledger
  rp_evidence :: "(step \<times> check_evidence) list"
  rp_logs :: "(step \<times> log_capture) list"
  rp_warnings :: "string list"
  rp_unaccounted :: "observed list"

definition cleanup_problems :: "report \<Rightarrow> entry list" where
  "cleanup_problems r = filter (\<lambda>e. e_deployment e = rp_deployment r) (needing_attention (rp_ledger r))"

definition is_clean :: "report \<Rightarrow> bool" where
  "is_clean r \<longleftrightarrow> cleanup_problems r = [] \<and> rp_unaccounted r = [] \<and> rp_warnings r = []"

section \<open>The state of a run\<close>

record 'w run = "'w core" +
  r_d :: deployment
  r_evidence :: "(step \<times> check_evidence) list"
  r_logs :: "(step \<times> log_capture) list"
  r_warnings :: "string list"
  r_unaccounted :: "observed list"
  r_prepared :: "prepared option"
  r_previous :: "previous_release option"

record 'w env =
  en_backend :: "'w backend"
  en_now :: "'w \<Rightarrow> u64 \<times> 'w"
  en_cancel :: "'w \<Rightarrow> bool \<times> 'w"
  en_confirm :: "cutover_plan \<Rightarrow> 'w \<Rightarrow> bool \<times> 'w"
  en_cfg :: run_config

definition run_now :: "'w env \<Rightarrow> ('w run, u64) eng" where
  "run_now en = clock_now (en_now en)"

definition ask :: "('w \<Rightarrow> 'a \<times> 'w) \<Rightarrow> ('w run, 'a) eng" where
  "ask q = (\<lambda>s. case q (c_world s) of (b, w) \<Rightarrow> (Ok b, s\<lparr>c_world := w\<rparr>))"

definition peek :: "('w \<Rightarrow> 'a) \<Rightarrow> ('w run, 'a) eng" where
  "peek q = gets (\<lambda>s. q (c_world s))"

text \<open>An operation on the record: an error ends the run, a missing step is a panic.\<close>

definition on_d :: "(deployment \<Rightarrow> transition_error + deployment) \<Rightarrow> ('w run, unit) eng" where
  "on_d f = (\<lambda>s. case f (r_d s) of Inl e \<Rightarrow> (Fail (ETransition e), s) | Inr d \<Rightarrow> (Ok (), s\<lparr>r_d := d\<rparr>))"

definition on_step :: "(deployment \<Rightarrow> op_result) \<Rightarrow> ('w run, unit) eng" where
  "on_step f = (\<lambda>s. case f (r_d s) of
     None \<Rightarrow> (Panic, s)
   | Some (Inl e) \<Rightarrow> (Fail (ETransition e), s)
   | Some (Inr d) \<Rightarrow> (Ok (), s\<lparr>r_d := d\<rparr>))"

definition set_failure :: "failure \<Rightarrow> ('w run, unit) eng" where
  "set_failure f = modify (\<lambda>s. s\<lparr>r_d := (r_d s)\<lparr>d_failure := Some f\<rparr>\<rparr>)"

definition set_pinned :: "release_config \<Rightarrow> ('w run, unit) eng" where
  "set_pinned c = modify (\<lambda>s. s\<lparr>r_d := (r_d s)\<lparr>d_pinned := Some c\<rparr>\<rparr>)"

definition set_replaces :: "release_id \<Rightarrow> ('w run, unit) eng" where
  "set_replaces r = modify (\<lambda>s. s\<lparr>r_d := (r_d s)\<lparr>d_replaces := Some r\<rparr>\<rparr>)"

definition set_release :: "('w run, unit) eng" where
  "set_release = modify (\<lambda>s. s\<lparr>r_d := (r_d s)\<lparr>d_release := Some (rel_from_deployment (d_id (r_d s)))\<rparr>\<rparr>)"

definition warn :: "string list \<Rightarrow> ('w run, unit) eng" where
  "warn ws = modify (\<lambda>s. s\<lparr>r_warnings := r_warnings s @ ws\<rparr>)"

definition push_evidence :: "step \<Rightarrow> check_evidence \<Rightarrow> ('w run, unit) eng" where
  "push_evidence st ev = modify (\<lambda>s. s\<lparr>r_evidence := r_evidence s @ [(st, ev)]\<rparr>)"

definition push_evidence_opt :: "step \<Rightarrow> check_evidence option \<Rightarrow> ('w run, unit) eng" where
  "push_evidence_opt st ev = (case ev of None \<Rightarrow> ret () | Some e \<Rightarrow> push_evidence st e)"

definition save :: "('w run, unit) eng" where
  "save = (\<lambda>s. case j_persist (r_d s) (c_journal s) of
     Inl j \<Rightarrow> (Fail (EJournal j), s)
   | Inr j \<Rightarrow> (Ok (), trace_add (EvPersist (r_d s)) (s\<lparr>c_journal := j\<rparr>)))"

section \<open>One backend call\<close>

definition late_message :: "u64 \<Rightarrow> u64 \<Rightarrow> string" where
  "late_message elapsed budget =
     ''the step finished after '' @ show_word elapsed @ '' ms, past its '' @ show_word budget @
     '' ms budget; its result is not trusted''"

text \<open>
  \<open>exec\<close> answers what the backend returned, what the engine makes of it (a late success is a timeout),
  and the time it took. The first is what the closures of the code store in a variable of their caller.
\<close>

definition exec ::
  "'w env \<Rightarrow> step \<Rightarrow> u64 \<Rightarrow> call \<Rightarrow> (io_ctx \<Rightarrow> ('w, 'a) step_prog) \<Rightarrow>
   ('w run, (step_error + 'a) \<times> (step_error + 'a) \<times> u64) eng" where
  "exec en st budget c f = (\<lambda>s0.
     case read_clock (en_now en) s0 of (start, s1) \<Rightarrow>
     let x = \<lparr>io_budget_ms = budget, io_app = d_app (r_d s1), io_deployment = d_id (r_d s1)\<rparr>;
         sink = sink_new (cfg_log_limits (en_cfg en)) (cfg_redactor (en_cfg en))
     in case run_prog (en_now en) x (f x) sink (trace_add (EvCall c) s1) of (raw, k, s2) \<Rightarrow>
        case read_clock (en_now en) s2 of (stop, s3) \<Rightarrow>
        let elapsed = sat_sub stop start;
            cap = capture k;
            s4 = (if 0 < lines_seen (cap_summary cap) \<or> withheld (cap_summary cap)
                  then s3\<lparr>r_logs := r_logs s3 @ [(st, cap)]\<rparr> else s3)
        in case raw of
             Inl e \<Rightarrow> (case se_fatal e of
                         Some j \<Rightarrow> (Fail (EJournal j), s4)
                       | None \<Rightarrow> (Ok (raw, raw, elapsed), s4))
           | Inr v \<Rightarrow>
               if budget < elapsed
               then (Ok (raw, Inl (step_error_timeout (late_message elapsed budget)), elapsed), s4)
               else (Ok (raw, raw, elapsed), s4))"

definition judge :: "step_error + check_evidence \<Rightarrow> bool \<Rightarrow> step_error + check_evidence option" where
  "judge res accepts_simulated =
     (case res of
        Inr ev \<Rightarrow>
          if ev_simulated ev \<and> \<not> accepts_simulated
          then Inl (with_evidence (step_error_new
                 ''the check returned simulated evidence; a real backend cannot establish health from it'') ev)
          else (case validate ev of
                  Inr _ \<Rightarrow> Inr (Some ev)
                | Inl why \<Rightarrow> Inl (with_evidence (step_error_new
                    (''the check did not establish health: '' @ why)) ev))
      | Inl e \<Rightarrow> Inl e)"

fun contains :: "string \<Rightarrow> string \<Rightarrow> bool" where
  "contains s t = (starts_with s t \<or> (case s of [] \<Rightarrow> False | _ # s' \<Rightarrow> contains s' t))"

definition redact :: "'w env \<Rightarrow> string \<Rightarrow> string" where
  "redact en m = fst (redact_apply (cfg_redactor (en_cfg en)) m)"

definition failure_message :: "'w env \<Rightarrow> step_error \<Rightarrow> u64 \<Rightarrow> u64 \<Rightarrow> string" where
  "failure_message en e elapsed budget =
     (let msg = redact en (se_message e);
          msg = (if se_timed_out e
                 then ''timed out after '' @ show_word elapsed @ '' ms (budget '' @ show_word budget
                      @ '' ms): '' @ msg
                 else msg)
      in case se_evidence e of
           Some ev \<Rightarrow> if contains msg (evidence_summary ev) then msg
                      else msg @ '' ('' @ evidence_summary ev @ '')''
         | None \<Rightarrow> msg)"

definition describe :: "'w env \<Rightarrow> step \<Rightarrow> step_error \<Rightarrow> u64 \<Rightarrow> u64 \<Rightarrow> ('w run, string) eng" where
  "describe en st e elapsed budget =
     thn (push_evidence_opt st (se_evidence e)) (ret (failure_message en e elapsed budget))"

definition evidence_note :: "check_evidence \<Rightarrow> string" where
  "evidence_note ev =
     ''health evidence'' @ (if ev_simulated ev then '' (simulated)'' else []) @ '': '' @
     summary_with_attribution ev"

definition note_of :: "check_evidence option \<Rightarrow> string" where
  "note_of ev = (case ev of None \<Rightarrow> [] | Some e \<Rightarrow> evidence_note e)"

section \<open>Ending a run early\<close>

definition run_transition :: "'w env \<Rightarrow> deployment_status \<Rightarrow> ('w run, unit) eng" where
  "run_transition en st = bnd (run_now en) (\<lambda>now. on_d (transition st now))"

definition end_cancelled :: "'w env \<Rightarrow> ('w run, unit) eng" where
  "end_cancelled en = thn (run_transition en Cancelled) save"

definition succeed :: "'w env \<Rightarrow> ('w run, unit) eng" where
  "succeed en = thn (run_transition en Succeeded) save"

section \<open>The preliminary check's resources\<close>

definition preliminary_targets :: "nat \<Rightarrow> deployment_id \<Rightarrow> ledger \<Rightarrow> resource_key list" where
  "preliminary_targets first_new dep l =
     map e_key (filter (\<lambda>e. e_deployment e = dep \<and> e_disposition e = RemoveAlways) (drop first_new l))"

definition targets_action :: "resource_key list \<Rightarrow> action \<Rightarrow> bool" where
  "targets_action targets a \<longleftrightarrow> (case action_entry a of None \<Rightarrow> False | Some ref \<Rightarrow> snd ref \<in> set targets)"

fun fail_preliminary ::
  "'w backend \<Rightarrow> ('w \<Rightarrow> u64 \<times> 'w) \<Rightarrow> step_error \<Rightarrow> action list \<Rightarrow> (('w, 'm) core_scheme, unit) eng" where
  "fail_preliminary bk now e [] = ret ()"
| "fail_preliminary bk now e (a # as) =
     thn (case a of
            MarkAbsent ref \<Rightarrow> thn (attempt_cleanup now ref) (settle now ref (OFailed (list_failure e)))
          | Adopt ref ob \<Rightarrow> thn (attempt_cleanup now ref) (settle now ref (OFailed (list_failure e)))
          | Remove ref ob b \<Rightarrow> thn (attempt_cleanup now ref) (settle now ref (OFailed (list_failure e)))
          | other \<Rightarrow> thn (execute_actions bk now [other]) (ret ()))
       (fail_preliminary bk now e as)"

definition stuck_resources :: "deployment_id \<Rightarrow> resource_key list \<Rightarrow> ledger \<Rightarrow> string list" where
  "stuck_resources dep targets l =
     map (\<lambda>e. kind_str (rk_kind (e_key e)) @ '' '' @ rk_name (e_key e))
       (filter (\<lambda>e. \<not> is_released e) (List.map_filter (led_find l dep) targets))"

definition stuck_message :: "string list \<Rightarrow> string" where
  "stuck_message stuck =
     ''could not remove the preliminary check's resources before cutover ('' @ join_with '', '' stuck @
     ''); nothing was cut over''"

definition release_preliminary :: "'w env \<Rightarrow> nat \<Rightarrow> ('w run, string option) eng" where
  "release_preliminary en first_new =
     bnd (gets (\<lambda>s. (d_id (r_d s), preliminary_targets first_new (d_id (r_d s)) (c_ledger s)))) (\<lambda>(dep, targets).
     if targets = [] then ret None
     else
       bnd (call_list (en_backend en)) (\<lambda>listed.
       bnd (gets c_ledger) (\<lambda>l.
       let obs = (case listed of Inr obs \<Rightarrow> obs | Inl _ \<Rightarrow> []);
           actions = filter (targets_action targets) (plan l obs [(dep, EndSucceeded)])
       in thn (case listed of
                 Inl e \<Rightarrow> fail_preliminary (en_backend en) (en_now en) e actions
               | Inr _ \<Rightarrow> thn (execute_actions (en_backend en) (en_now en) actions) (ret ()))
          (bnd (gets (\<lambda>s. stuck_resources dep targets (c_ledger s))) (\<lambda>stuck.
             ret (if stuck = [] then None else Some (stuck_message stuck)))))))"

section \<open>A step before the cutover\<close>

definition merge_preliminary ::
  "string option \<Rightarrow> step_error + 'a \<Rightarrow> ('w run, step_error + 'a) eng" where
  "merge_preliminary problem res =
     (case (problem, res) of
        (Some p, Inr _) \<Rightarrow> ret (Inl (step_error_new p))
      | (Some p, Inl e) \<Rightarrow> thn (warn [p]) (ret (Inl e))
      | (None, r) \<Rightarrow> ret r)"

definition pre_step_failed ::
  "'w env \<Rightarrow> step \<Rightarrow> failure_kind \<Rightarrow> step_error \<Rightarrow> u64 \<Rightarrow> u64 \<Rightarrow> u64 \<Rightarrow> ('w run, bool) eng" where
  "pre_step_failed en st kind e elapsed budget now =
     bnd (describe en st e elapsed budget) (\<lambda>message.
     thn (on_step (finish_step st False message now))
     (thn (set_failure \<lparr>f_step = st, f_kind = kind, f_message = message, f_timed_out = se_timed_out e\<rparr>)
     (thn (on_d (transition Failed now))
     (thn save (ret False)))))"

definition pre_step_passed ::
  "step \<Rightarrow> check_evidence option \<Rightarrow> u64 \<Rightarrow> ('w run, bool) eng" where
  "pre_step_passed st ev now =
     thn (push_evidence_opt st ev)
     (thn (on_step (finish_step st True (note_of ev) now))
     (thn (if st = Build then set_release else ret ())
     (thn save (ret True))))"

definition pre_step ::
  "'w env \<Rightarrow> step \<Rightarrow> failure_kind \<Rightarrow> call \<Rightarrow> (io_ctx \<Rightarrow> ('w, check_evidence option) step_prog) \<Rightarrow>
   ('w run, bool) eng" where
  "pre_step en st kind c f =
     bnd (ask (en_cancel en)) (\<lambda>cancelled.
     if cancelled then thn (end_cancelled en) (ret False)
     else
       bnd (run_now en) (\<lambda>now.
       thn (on_step (start_step st now))
       (thn save
       (let budget = budget_for_step (cfg_budgets (en_cfg en)) st
        in bnd (gets (\<lambda>s. length (c_ledger s))) (\<lambda>first_new.
           bnd (exec en st budget c f) (\<lambda>(raw, res, elapsed).
           bnd (if st = PreliminaryCheck
                then bnd (release_preliminary en first_new) (\<lambda>problem. merge_preliminary problem res)
                else ret res) (\<lambda>res.
           bnd (run_now en) (\<lambda>now.
           case res of
             Inr ev \<Rightarrow> pre_step_passed st ev now
           | Inl e \<Rightarrow> pre_step_failed en st kind e elapsed budget now))))))))"

section \<open>The cutover and its restoration\<close>

definition stop_failed_new_release :: "'w env \<Rightarrow> ('w run, unit) eng" where
  "stop_failed_new_release en =
     bnd (exec en Cutover (cleanup_ms (cfg_budgets (en_cfg en))) CallStopNew (bk_stop_new (en_backend en)))
       (\<lambda>(raw, res, elapsed).
        case res of
          Inl e \<Rightarrow> warn [''could not stop the failed new release: '' @ redact en (se_message e)]
        | Inr _ \<Rightarrow> ret ())"

definition restore_outcome ::
  "restore_result option \<Rightarrow> step_error + restore_result \<Rightarrow> recovery_outcome" where
  "restore_outcome got res =
     (case (got, res) of
        (Some RHealthy, Inr _) \<Rightarrow> Restored
      | (Some RHealthy, Inl _) \<Rightarrow> RestoredUnverified
      | (Some RStartedUnverified, _) \<Rightarrow> RestoredUnverified
      | (Some (RFailed r), _) \<Rightarrow> RestoreFailed r
      | (Some (RNotAttempted r), _) \<Rightarrow> NotAttempted r
      | (None, Inl e) \<Rightarrow> if se_timed_out e then RestoreFailed Timeout else RestoreFailed StartFailed
      | (None, Inr _) \<Rightarrow> RestoreFailed StartFailed)"

definition ok_value :: "step_error + 'a \<Rightarrow> 'a option" where
  "ok_value r = (case r of Inl _ \<Rightarrow> None | Inr x \<Rightarrow> Some x)"

definition restore_call :: "'w env \<Rightarrow> previous_release \<Rightarrow> u64 \<Rightarrow> ('w run, recovery_outcome) eng" where
  "restore_call en prev budget =
     bnd (exec en Recovery budget (CallRestorePrevious budget)
            (\<lambda>x. bk_restore_previous (en_backend en) x prev budget)) (\<lambda>(raw, res, elapsed).
     thn (case (ok_value raw, res) of
            (None, Inl e) \<Rightarrow>
              if se_timed_out e then ret ()
              else warn [''restoration failed: '' @ redact en (se_message e)]
          | _ \<Rightarrow> ret ())
     (ret (restore_outcome (ok_value raw) res)))"

definition restore_phase :: "'w env \<Rightarrow> u64 \<Rightarrow> ('w run, recovery_outcome) eng" where
  "restore_phase en budget =
     bnd (gets r_previous) (\<lambda>previous.
     case previous of
       None \<Rightarrow> ret (NotAttempted NoPreviousRelease)
     | Some prev \<Rightarrow>
         if pv_config prev = None then ret (NotAttempted ConfigUnavailable)
         else
           bnd (exec en Recovery budget CallRestoreBlockers
                  (\<lambda>x. bk_restore_blockers (en_backend en) x prev)) (\<lambda>(raw, checked, elapsed).
           let found = (case raw of Inr bs \<Rightarrow> bs | Inl _ \<Rightarrow> [])
           in thn (case checked of
                     Inl e \<Rightarrow> warn [''could not check what holds the previous release's port: '' @
                                 redact en (se_message e)]
                   | Inr _ \<Rightarrow> ret ())
              (if found \<noteq> []
               then thn (warn (map (\<lambda>f. ''restoration blocked: '' @ f) found)) (ret (NotAttempted PortInUse))
               else restore_call en prev budget)))"

definition fail_after_cutover ::
  "'w env \<Rightarrow> step \<Rightarrow> failure_kind \<Rightarrow> string \<times> bool \<Rightarrow> bool \<Rightarrow> u64 \<Rightarrow> ('w run, unit) eng" where
  "fail_after_cutover en st kind failed new_started budget =
     bnd (run_now en) (\<lambda>now.
     thn (on_step (finish_step st False (fst failed) now))
     (thn (set_failure \<lparr>f_step = st, f_kind = kind, f_message = fst failed, f_timed_out = snd failed\<rparr>)
     (thn (on_d (fail_cutover now))
     (thn (on_step (start_step Recovery now))
     (thn (on_d (start_recovery budget now))
     (thn save
     (thn (if new_started then stop_failed_new_release en else ret ())
     (bnd (restore_phase en budget) (\<lambda>outcome.
     bnd (run_now en) (\<lambda>now.
     thn (on_d (finish_recovery outcome now))
     (thn (on_step (finish_step Recovery (service_restored outcome) (outcome_str outcome) now))
     (thn (on_d (transition Failed now)) save))))))))))))"

definition plan_and_pin :: "'w env \<Rightarrow> ('w run, bool) eng" where
  "plan_and_pin en =
     (let budget = cutover_ms (cfg_budgets (en_cfg en))
      in bnd (exec en Cutover budget CallPlanRelease (bk_plan_release (en_backend en))) (\<lambda>(raw, res, elapsed).
         case res of
           Inr (Some config) \<Rightarrow> thn (set_pinned config) (thn save (ret True))
         | Inr None \<Rightarrow> ret True
         | Inl e \<Rightarrow>
             bnd (describe en Cutover e elapsed budget) (\<lambda>message.
             bnd (run_now en) (\<lambda>now.
             thn (set_failure \<lparr>f_step = Cutover, f_kind = FCutover, f_message = message,
                               f_timed_out = se_timed_out e\<rparr>)
             (thn (on_d (transition Failed now)) (thn save (ret False)))))))"

definition repin :: "'w env \<Rightarrow> ('w run, unit) eng" where
  "repin en =
     bnd (peek (bk_pinned_config (en_backend en))) (\<lambda>actual.
     bnd (gets (\<lambda>s. d_pinned (r_d s))) (\<lambda>pinned.
     case actual of
       Some c \<Rightarrow> if pinned \<noteq> Some c then thn (set_pinned c) save else ret ()
     | None \<Rightarrow> ret ()))"

text \<open>\<open>Inl\<close> carries the described failure and whether it was a timeout.\<close>

definition cutover_call ::
  "'w env \<Rightarrow> call \<Rightarrow> (io_ctx \<Rightarrow> ('w, unit) step_prog) \<Rightarrow> ('w run, string \<times> bool + unit) eng" where
  "cutover_call en c f =
     (let budget = cutover_ms (cfg_budgets (en_cfg en))
      in bnd (exec en Cutover budget c f) (\<lambda>(raw, res, elapsed).
         case res of
           Inr _ \<Rightarrow> ret (Inr ())
         | Inl e \<Rightarrow> bnd (describe en Cutover e elapsed budget) (\<lambda>m. ret (Inl (m, se_timed_out e)))))"

definition final_check :: "'w env \<Rightarrow> ('w run, string \<times> bool + string) eng" where
  "final_check en =
     (let budget = final_ms (cfg_budgets (en_cfg en))
      in bnd (exec en FinalCheck budget CallFinalCheck (bk_final_check (en_backend en))) (\<lambda>(raw, res, elapsed).
         bnd (peek (bk_accepts_simulated (en_backend en))) (\<lambda>sim.
         case (case res of Inr ev \<Rightarrow> judge (Inr ev) sim | Inl e \<Rightarrow> Inl e) of
           Inr ev \<Rightarrow> thn (push_evidence_opt FinalCheck ev) (ret (Inr (note_of ev)))
         | Inl e \<Rightarrow> bnd (describe en FinalCheck e elapsed budget) (\<lambda>m. ret (Inl (m, se_timed_out e))))))"

section \<open>The whole run\<close>

definition run_cleanup :: "'w env \<Rightarrow> ('w run, unit) eng" where
  "run_cleanup en =
     bnd (gets (\<lambda>s. (r_d s, c_ledger s))) (\<lambda>(d, l).
     case end_state_of (d_status d) of
       None \<Rightarrow> ret ()
     | Some end \<Rightarrow>
         (let end = (if is_failed (d_cutover d) \<and> end = NotSucceeded then FailedCutover else end)
          in if \<not> (\<exists>e \<in> set l. e_deployment e = d_id d) then ret ()
             else bnd (reconcile (en_backend en) (en_now en) [(d_id d, end)]) (\<lambda>un.
                  modify (\<lambda>s. s\<lparr>r_unaccounted := r_unaccounted s @ un\<rparr>))))"

definition run_report :: "string list \<Rightarrow> pause_reason option \<Rightarrow> 'w run \<Rightarrow> report" where
  "run_report blocked pause s =
     \<lparr>rp_deployment = d_id (r_d s), rp_prepared = r_prepared s, rp_blocked = blocked,
      rp_status = d_status (r_d s), rp_pause = pause, rp_ledger = c_ledger s, rp_evidence = r_evidence s,
      rp_logs = r_logs s, rp_warnings = r_warnings s, rp_unaccounted = r_unaccounted s\<rparr>"

definition finish :: "'w env \<Rightarrow> ('w run, report) eng" where
  "finish en =
     thn (run_cleanup en)
     (gets (\<lambda>s. run_report [] (if is_failed (d_cutover (r_d s)) then Some PausedFailedCutover else None) s))"

definition judged_check :: "'w env \<Rightarrow> io_ctx \<Rightarrow> ('w, check_evidence option) step_prog" where
  "judged_check en x =
     prog_bind (bk_preliminary_check (en_backend en) x) (\<lambda>r.
       World (\<lambda>w. (Return (judge r (bk_accepts_simulated (en_backend en) w)), w)))"

definition no_evidence :: "(io_ctx \<Rightarrow> ('w, unit) step_prog) \<Rightarrow> io_ctx \<Rightarrow> ('w, check_evidence option) step_prog"
  where "no_evidence f x = step_bind (f x) (\<lambda>_. Return (Inr None))"

text \<open>The first deployment of an application: nothing to stop, nothing to restore.\<close>

definition first_start_failed :: "'w env \<Rightarrow> string \<times> bool \<Rightarrow> u64 \<Rightarrow> ('w run, report) eng" where
  "first_start_failed en failed now =
     thn (on_step (finish_step Cutover False (fst failed) now))
     (thn (set_failure \<lparr>f_step = Cutover, f_kind = FCutover, f_message = fst failed, f_timed_out = snd failed\<rparr>)
     (thn (on_d (transition Failed now)) (thn save (finish en))))"

definition first_check_failed :: "'w env \<Rightarrow> string \<times> bool \<Rightarrow> u64 \<Rightarrow> ('w run, unit) eng" where
  "first_check_failed en failed now =
     thn (on_step (finish_step FinalCheck False (fst failed) now))
     (thn (set_failure \<lparr>f_step = FinalCheck, f_kind = FFinalCheck, f_message = fst failed,
                       f_timed_out = snd failed\<rparr>)
     (thn (stop_failed_new_release en)
     (thn (run_transition en Failed) save)))"

definition first_deployment :: "'w env \<Rightarrow> ('w run, report) eng" where
  "first_deployment en =
     bnd (plan_and_pin en) (\<lambda>planned.
     if \<not> planned then finish en
     else
       thn (on_d cutover_not_required)
       (bnd (run_now en) (\<lambda>now.
       thn (on_step (start_step Cutover now))
       (thn save
       (bnd (cutover_call en CallStartNew (bk_start_new (en_backend en))) (\<lambda>started.
       bnd (run_now en) (\<lambda>now.
       case started of
         Inl failed \<Rightarrow> first_start_failed en failed now
       | Inr _ \<Rightarrow>
           thn (on_step (finish_step Cutover True [] now))
           (thn (on_step (start_step FinalCheck now))
           (thn (repin en)
           (thn save
           (bnd (final_check en) (\<lambda>chk.
           bnd (run_now en) (\<lambda>now.
           thn (case chk of
                  Inr note \<Rightarrow> thn (on_step (finish_step FinalCheck True note now)) (succeed en)
                | Inl failed \<Rightarrow> first_check_failed en failed now)
             (finish en))))))))))))))"

text \<open>Replacing the release that serves.\<close>

definition planned_cutover :: "'w env \<Rightarrow> release_id \<Rightarrow> deployment \<Rightarrow> cutover_plan" where
  "planned_cutover en previous d =
     (let p = cutover_plan_new (d_app d) previous (d_id d) (en_cfg en)
      in case d_rollback_to d of
           Some target \<Rightarrow> p\<lparr>cp_candidate := target, cp_rollback := True\<rparr>
         | None \<Rightarrow> p)"

definition why_not :: "'w env \<Rightarrow> cutover_plan \<Rightarrow> ('w run, not_cut_over option) eng" where
  "why_not en p =
     bnd (peek (bk_supports_cutover (en_backend en))) (\<lambda>supported.
     if \<not> supported then ret (Some Unsupported)
     else bnd (ask (en_confirm en p)) (\<lambda>confirmed.
       ret (if \<not> confirmed then Some NotConfirmed else None)))"

definition switch_over :: "'w env \<Rightarrow> previous_release \<Rightarrow> u64 \<Rightarrow> ('w run, report) eng" where
  "switch_over en prev budget =
     bnd (cutover_call en (CallStopCurrent prev) (\<lambda>x. bk_stop_current (en_backend en) x prev)) (\<lambda>stopped.
     case stopped of
       Inl failed \<Rightarrow> thn (fail_after_cutover en Cutover FCutover failed False budget) (finish en)
     | Inr _ \<Rightarrow>
         bnd (cutover_call en CallStartNew (bk_start_new (en_backend en))) (\<lambda>started.
         case started of
           Inl failed \<Rightarrow> thn (fail_after_cutover en Cutover FCutover failed False budget) (finish en)
         | Inr _ \<Rightarrow>
             thn (repin en)
             (bnd (run_now en) (\<lambda>now.
             thn (on_step (finish_step Cutover True [] now))
             (thn (on_step (start_step FinalCheck now))
             (thn save
             (bnd (final_check en) (\<lambda>chk.
             thn (case chk of
                    Inr note \<Rightarrow>
                      bnd (run_now en) (\<lambda>now.
                      thn (on_step (finish_step FinalCheck True note now))
                      (thn (on_d (confirm_cutover now)) (succeed en)))
                  | Inl failed \<Rightarrow> fail_after_cutover en FinalCheck FFinalCheck failed True budget)
               (finish en)))))))))"

definition replacement :: "'w env \<Rightarrow> release_id \<Rightarrow> ('w run, report) eng" where
  "replacement en previous =
     bnd (gets (\<lambda>s. planned_cutover en previous (r_d s))) (\<lambda>p.
     bnd (why_not en p) (\<lambda>why.
     case why of
       Some w \<Rightarrow>
         thn (modify (\<lambda>s. s\<lparr>r_prepared := Some \<lparr>pp_plan = p, pp_why = w\<rparr>\<rparr>))
         (thn (end_cancelled en) (finish en))
     | None \<Rightarrow>
         bnd (plan_and_pin en) (\<lambda>planned.
         if \<not> planned then finish en
         else
           bnd (run_now en) (\<lambda>now.
           thn (set_replaces previous)
           (thn (on_d (begin_cutover now))
           (thn (on_step (start_step Cutover now))
           (thn save
           (bnd (gets r_previous) (\<lambda>prev.
            case prev of
              None \<Rightarrow> panic
            | Some prev \<Rightarrow> switch_over en prev (restore_budget_ms (cfg_policy (en_cfg en))))))))))))"

definition run_confirmed :: "'w env \<Rightarrow> release_id option \<Rightarrow> ('w run, report) eng" where
  "run_confirmed en previous =
     thn (run_transition en Running)
     (thn save
     (bnd (pre_step en Source FSource CallPrepareSource (no_evidence (bk_prepare_source (en_backend en)))) (\<lambda>go.
      if \<not> go then finish en
      else bnd (pre_step en Build FBuild CallBuild (no_evidence (bk_build (en_backend en)))) (\<lambda>go.
      if \<not> go then finish en
      else bnd (pre_step en PreliminaryCheck FPreliminaryCheck CallPreliminaryCheck (judged_check en)) (\<lambda>go.
      if \<not> go then finish en
      else bnd (ask (en_cancel en)) (\<lambda>cancelled.
      if cancelled then thn (end_cancelled en) (finish en)
      else (case previous of
              None \<Rightarrow> first_deployment en
            | Some p \<Rightarrow> replacement en p)))))))"

definition previous_for :: "run_config \<Rightarrow> release_id \<Rightarrow> previous_release" where
  "previous_for cfg r =
     \<lparr>pv_release = r, pv_deployment = rel_deployment r, pv_config = cfg_previous cfg,
      pv_container = cfg_previous_container cfg\<rparr>"

definition run_start :: "'w env \<Rightarrow> deployment \<Rightarrow> previous_release option \<Rightarrow> 'w \<Rightarrow> journal \<Rightarrow> 'w run" where
  "run_start en d previous w j =
     \<lparr>c_world = w, c_journal = j, c_ledger = cfg_prior_ledger (en_cfg en), c_trace = [], r_d = d,
      r_evidence = [], r_logs = [], r_warnings = [], r_unaccounted = [], r_prepared = None,
      r_previous = previous\<rparr>"

definition run_deployment_confirmed ::
  "'w env \<Rightarrow> deployment \<Rightarrow> release_id option \<Rightarrow> 'w \<Rightarrow> journal \<Rightarrow> report result \<times> 'w run" where
  "run_deployment_confirmed en d previous w j =
     run_confirmed en previous (run_start en d (map_option (previous_for (en_cfg en)) previous) w j)"

definition run_deployment_with ::
  "'w env \<Rightarrow> deployment \<Rightarrow> release_id option \<Rightarrow> 'w \<Rightarrow> journal \<Rightarrow> report result \<times> 'w run" where
  "run_deployment_with en d previous w j =
     run_deployment_confirmed (en\<lparr>en_confirm := (\<lambda>p w. (True, w))\<rparr>) d previous w j"

definition run_deployment ::
  "'w env \<Rightarrow> policy \<Rightarrow> deployment \<Rightarrow> release_id option \<Rightarrow> 'w \<Rightarrow> journal \<Rightarrow> report result \<times> 'w run" where
  "run_deployment en pol d previous w j =
     run_deployment_with (en\<lparr>en_cfg := run_config_default\<lparr>cfg_policy := pol\<rparr>\<rparr>) d previous w j"

section \<open>The explicit recovery of an interrupted cutover\<close>

definition recover_mismatch_msg :: string where
  "recover_mismatch_msg = ''explicit recovery (the deployment does not record replacing that release)''"

definition restore_now :: "'w env \<Rightarrow> u64 \<Rightarrow> ('w run, report) eng" where
  "restore_now en budget =
     bnd (run_now en) (\<lambda>now.
     thn (on_d (begin_explicit_recovery budget now))
     (thn save
     (bnd (restore_phase en budget) (\<lambda>outcome.
     bnd (run_now en) (\<lambda>now.
     thn (on_d (finish_recovery outcome now))
     (thn (on_step (finish_step Recovery (service_restored outcome) (outcome_str outcome) now))
     (thn save (gets (run_report [] (Some PausedFailedCutover))))))))))"

definition recover_run :: "'w env \<Rightarrow> previous_release \<Rightarrow> ('w run, report) eng" where
  "recover_run en prev =
     (let budget = restore_budget_ms (cfg_policy (en_cfg en))
      in bnd (gets r_d) (\<lambda>d.
         if \<not> can_recover_explicitly d
         then fail (ETransition (CutoverError (d_cutover d) explicit_recovery_msg))
         else if d_replaces d = None \<or> d_replaces d \<noteq> Some (pv_release prev)
         then fail (ETransition (CutoverError (d_cutover d) recover_mismatch_msg))
         else if pv_config prev = None then restore_now en budget
         else
           bnd (exec en Recovery budget CallRestoreBlockers
                  (\<lambda>x. bk_restore_blockers (en_backend en) x prev)) (\<lambda>(raw, checked, elapsed).
           let found = (case raw of Inr bs \<Rightarrow> bs | Inl _ \<Rightarrow> []) @
                 (case checked of
                    Inl e \<Rightarrow> [''could not check what holds the previous release's port: '' @ se_message e]
                  | Inr _ \<Rightarrow> [])
           in if found \<noteq> [] then gets (run_report found (Some PausedFailedCutover))
              else restore_now en budget)))"

definition recover_cutover ::
  "'w env \<Rightarrow> deployment \<Rightarrow> previous_release \<Rightarrow> 'w \<Rightarrow> journal \<Rightarrow> report result \<times> 'w run" where
  "recover_cutover en d previous w j =
     (let prev = previous\<lparr>pv_config := cfg_previous (en_cfg en)\<rparr>
      in recover_run en prev (run_start en d (Some prev) w j))"

end
