(* ===== verification/FakeBackend.thy ===== *)
theory FakeBackend
  imports EngineRun
begin

text \<open>
  The deterministic backend of \<open>deploy/src/backend.rs\<close> (\<open>FakeRuntime\<close>, \<open>FakeBackend\<close>), the one
  backend the crate contains. It is an instance of the execution seam: its state, with the manual clock
  it moves, is the world of a run. The copies it writes into shared test traces are left out; the run's
  own trace holds them.
\<close>

section \<open>The fake runtime\<close>

record scripted =
  sc_result :: "step_error + unit"
  sc_takes_ms :: u64

definition scripted_ok :: "u64 \<Rightarrow> scripted" where
  "scripted_ok ms = \<lparr>sc_result = Inr (), sc_takes_ms = ms\<rparr>"

record fake_runtime =
  fr_objects :: "observed list"
  fr_listeners :: "u16 set"
  fr_mappings :: "u16 set"
  fr_next_id :: u32

definition fake_runtime_default :: fake_runtime where
  "fake_runtime_default = \<lparr>fr_objects = [], fr_listeners = {}, fr_mappings = {}, fr_next_id = 0\<rparr>"

definition pad4 :: "string \<Rightarrow> string" where
  "pad4 s = replicate (4 - length s) (CHR ''0'') @ s"

definition runtime_create ::
  "resource_kind \<Rightarrow> string \<Rightarrow> (string \<times> string) list \<Rightarrow> fake_runtime \<Rightarrow> string \<times> fake_runtime" where
  "runtime_create kind name labels rt =
     (let n = fr_next_id rt + 1;
          i = ''fake-'' @ pad4 (show_word n)
      in (i, rt\<lparr>fr_next_id := n,
               fr_objects := fr_objects rt @ [\<lparr>ob_kind = kind, ob_name = name, ob_id = i, ob_labels = labels\<rparr>]\<rparr>))"

definition runtime_has :: "string \<Rightarrow> fake_runtime \<Rightarrow> bool" where
  "runtime_has name rt \<longleftrightarrow> (\<exists>ob \<in> set (fr_objects rt). ob_name ob = name)"

section \<open>The backend's state\<close>

datatype fake_call =
    FCallPrepareSource | FCallBuild | FCallPreliminaryCheck | FCallStopCurrent | FCallStartNew
  | FCallFinalCheck | FCallStopNew | FCallRestorePrevious u64

datatype resource_call = RCallList | RCallRemove resource_kind string

record fake =
  fb_clock :: u64
  fb_source :: scripted
  fb_build :: scripted
  fb_preliminary :: scripted
  fb_stop_current :: scripted
  fb_start_new :: scripted
  fb_final_check :: scripted
  fb_stop_new :: scripted
  fb_restore :: "(restore_result \<times> u64) list"
  fb_calls :: "fake_call list"
  fb_resource_calls :: "resource_call list"
  fb_runtime :: "fake_runtime option"
  fb_create_fails :: "resource_kind option"
  fb_remove_fails :: "string list"
  fb_remove_refuses :: "string list"
  fb_list_fails :: bool
  fb_final_evidence :: "check_evidence option"
  fb_cutover_supported :: bool
  fb_restored :: "previous_release option"
  fb_restore_error :: "step_error option"
  fb_blockers :: "string list"
  fb_plan_error :: "step_error option"
  fb_rollback :: "release_config option"
  fb_env :: "(string \<times> string) list"
  fb_secrets :: "(string \<times> secret_ref) list"
  fb_snapshot :: "string option"
  fb_build_identity :: "string option"

definition fake_new :: "u64 \<Rightarrow> fake" where
  "fake_new clock =
     \<lparr>fb_clock = clock, fb_source = scripted_ok 10, fb_build = scripted_ok 1000,
      fb_preliminary = scripted_ok 100, fb_stop_current = scripted_ok 500, fb_start_new = scripted_ok 300,
      fb_final_check = scripted_ok 200, fb_stop_new = scripted_ok 100, fb_restore = [(RHealthy, 400)],
      fb_calls = [], fb_resource_calls = [], fb_runtime = None, fb_create_fails = None,
      fb_remove_fails = [], fb_remove_refuses = [], fb_list_fails = False, fb_final_evidence = None,
      fb_cutover_supported = True, fb_restored = None, fb_restore_error = None, fb_blockers = [],
      fb_plan_error = None, fb_rollback = None, fb_env = [], fb_secrets = [], fb_snapshot = None,
      fb_build_identity = None\<rparr>"

section \<open>Operations\<close>

text \<open>\<open>ManualClock::advance\<close>; an overflow panics in a debug build and wraps in a release build.\<close>

definition advance :: "u64 \<Rightarrow> fake \<Rightarrow> fake" where
  "advance ms f = f\<lparr>fb_clock := fb_clock f + ms\<rparr>"

definition fake_now :: "fake \<Rightarrow> u64 \<times> fake" where
  "fake_now f = (fb_clock f, f)"

definition fake_run :: "fake_call \<Rightarrow> (fake \<Rightarrow> scripted) \<Rightarrow> (fake, unit) step_prog" where
  "fake_run c pick = World (\<lambda>f.
     (Return (sc_result (pick f)),
      advance (sc_takes_ms (pick f)) (f\<lparr>fb_calls := fb_calls f @ [c]\<rparr>)))"

definition fake_create ::
  "io_ctx \<Rightarrow> resource_kind \<Rightarrow> string \<Rightarrow> disposition \<Rightarrow> (fake, unit) step_prog" where
  "fake_create x kind name disp = World (\<lambda>f.
     (case fb_runtime f of
        None \<Rightarrow> Return (Inr ())
      | Some _ \<Rightarrow>
          step_bind (io_intend (resource_key_new kind name) disp) (\<lambda>intent. World (\<lambda>f.
            case fb_runtime f of
              None \<Rightarrow> (Return (Inr ()), f)
            | Some rt \<Rightarrow>
                if fb_create_fails f = Some kind
                then (Return (Inl (step_error_new (''could not create '' @ name))), f)
                else if \<exists>ob \<in> set (fr_objects rt). ob_kind ob = kind \<and> ob_name ob = name
                then (Return (Inl (step_error_new (''name '' @ name @ '' is already in use''))), f)
                else
                  (case runtime_create kind name (labels_for_deployment (io_app x) (io_deployment x)) rt of
                     (i, rt') \<Rightarrow> (io_receipt intent i, f\<lparr>fb_runtime := Some rt'\<rparr>)))),
      f))"

definition fake_list_resources :: "fake \<Rightarrow> (step_error + observed list) \<times> fake" where
  "fake_list_resources f =
     (if fb_list_fails f then Inl (step_error_new ''runtime unreachable'')
      else Inr (case fb_runtime f of None \<Rightarrow> [] | Some rt \<Rightarrow> fr_objects rt),
      f\<lparr>fb_resource_calls := fb_resource_calls f @ [RCallList]\<rparr>)"

fun remove_at :: "nat \<Rightarrow> 'a list \<Rightarrow> 'a list" where
  "remove_at i [] = []"
| "remove_at 0 (x # xs) = xs"
| "remove_at (Suc i) (x # xs) = x # remove_at i xs"

definition fake_remove_resource :: "remove_request \<Rightarrow> fake \<Rightarrow> (step_error + remove_result) \<times> fake" where
  "fake_remove_resource rq f0 =
     (let f = f0\<lparr>fb_resource_calls := fb_resource_calls f0 @ [RCallRemove (rq_kind rq) (rq_id rq)]\<rparr>
      in if rq_name rq \<in> set (fb_remove_fails f)
         then (Inl (step_error_new (''could not remove '' @ rq_name rq)), f)
         else if rq_name rq \<in> set (fb_remove_refuses f)
         then (Inr (RemRefused ''labels changed since listing''), f)
         else case fb_runtime f of
             None \<Rightarrow> (Inr RemAlreadyAbsent, f)
           | Some rt \<Rightarrow>
               (case position (\<lambda>ob. ob_kind ob = rq_kind rq \<and> ob_id ob = rq_id rq) (fr_objects rt) of
                  None \<Rightarrow> (Inr RemAlreadyAbsent, f)
                | Some i \<Rightarrow>
                    if \<not> labelled_for (fr_objects rt ! i) (rq_app rq) (rq_deployment rq)
                    then (Inr (RemRefused ''object is not labelled for this deployment''), f)
                    else (Inr RemRemoved,
                          f\<lparr>fb_runtime := Some (rt\<lparr>fr_objects := remove_at i (fr_objects rt)\<rparr>)\<rparr>)))"

section \<open>The steps\<close>

definition fake_prepare_source :: "io_ctx \<Rightarrow> (fake, unit) step_prog" where
  "fake_prepare_source x = fake_run FCallPrepareSource fb_source"

definition fake_build :: "io_ctx \<Rightarrow> (fake, unit) step_prog" where
  "fake_build x =
     prog_bind (fake_run FCallBuild fb_build) (\<lambda>r. Io (IoPushLine ''fake build output'') (\<lambda>_.
       case r of
         Inl e \<Rightarrow> Return (Inl e)
       | Inr _ \<Rightarrow> World (\<lambda>f.
           (if fb_rollback f \<noteq> None then Return (Inr ())
            else fake_create x Image (''harpoon/'' @ app_str (io_app x) @ '':'' @ dep_str (io_deployment x)) Retain,
            f))))"

definition fake_preliminary_check :: "io_ctx \<Rightarrow> (fake, check_evidence) step_prog" where
  "fake_preliminary_check x =
     step_bind (fake_create x Container (''hp-'' @ dep_str (io_deployment x) @ ''-pre'') RemoveAlways) (\<lambda>_.
     step_bind (fake_run FCallPreliminaryCheck fb_preliminary) (\<lambda>_.
       Return (Inr (simulated_passing ''fake preliminary check'' (health_spec_first_test ''/'')))))"

definition fake_stop_current :: "io_ctx \<Rightarrow> previous_release \<Rightarrow> (fake, unit) step_prog" where
  "fake_stop_current x p = fake_run FCallStopCurrent fb_stop_current"

definition fake_pinned_config :: "fake \<Rightarrow> release_config option" where
  "fake_pinned_config f = Some
     (case fb_rollback f of
        Some t \<Rightarrow> t\<lparr>host_port := 39000\<rparr>
      | None \<Rightarrow> (release_config_simulated 39000)
          \<lparr>rc_env := fb_env f, rc_secrets := fb_secrets f, rc_snapshot := fb_snapshot f,
           rc_build := fb_build_identity f\<rparr>)"

definition fake_plan_release :: "io_ctx \<Rightarrow> (fake, release_config option) step_prog" where
  "fake_plan_release x = World (\<lambda>f.
     (Return (case fb_plan_error f of Some e \<Rightarrow> Inl e | None \<Rightarrow> Inr (fake_pinned_config f)), f))"

definition fake_restore_blockers :: "io_ctx \<Rightarrow> previous_release \<Rightarrow> (fake, string list) step_prog" where
  "fake_restore_blockers x p = World (\<lambda>f. (Return (Inr (fb_blockers f)), f))"

fun show_port_error :: "port_error \<Rightarrow> string" where
  "show_port_error (Exhausted r) =
     ''no free port in '' @ show_word (pr_start r) @ [CHR 0xE2, CHR 0x80, CHR 0x93] @ show_word (pr_end r)"
| "show_port_error (OutOfRange p purpose) =
     ''port '' @ show_word p @ '' is outside the '' @
     (case purpose of Application \<Rightarrow> ''Application'' | Test \<Rightarrow> ''Test'') @ '' range''"
| "show_port_error (CollisionRepeated a b) =
     ''ports '' @ show_word a @ '' and '' @ show_word b @ '' both collided; not trying again''"
| "show_port_error (Occupied p t) =
     ''port '' @ show_word p @ '' is occupied ('' @
     (case t of HostListener \<Rightarrow> ''HostListener'' | DockerMapping \<Rightarrow> ''DockerMapping''
      | JournaledLease \<Rightarrow> ''JournaledLease'') @ '')''"

definition fake_lease :: "fake_runtime \<Rightarrow> (fake, unit) step_prog" where
  "fake_lease rt = Io IoLedger (\<lambda>a.
     let l = (case a of AnsLedger l \<Rightarrow> l | _ \<Rightarrow> []);
         occ = with_ledger \<lparr>host_listeners = fr_listeners rt, docker_mappings = fr_mappings rt,
                            journaled_leases = {}\<rparr> l
     in case allocate Test 8080 occ None [] of
          Inl e \<Rightarrow> Return (Inl (step_error_new (show_port_error e)))
        | Inr lease \<Rightarrow> step_bind (io_lease_port lease) (\<lambda>_. Return (Inr ())))"

definition fake_start_new :: "io_ctx \<Rightarrow> (fake, unit) step_prog" where
  "fake_start_new x =
     step_bind (World (\<lambda>f. (case fb_runtime f of None \<Rightarrow> Return (Inr ()) | Some rt \<Rightarrow> fake_lease rt, f))) (\<lambda>_.
     step_bind (fake_create x Container (''hp-'' @ dep_str (io_deployment x)) RemoveOnFailure) (\<lambda>_.
       fake_run FCallStartNew fb_start_new))"

definition fake_final_check :: "io_ctx \<Rightarrow> (fake, check_evidence) step_prog" where
  "fake_final_check x =
     step_bind (fake_run FCallFinalCheck fb_final_check) (\<lambda>_. World (\<lambda>f.
       (Return (Inr (case fb_final_evidence f of
                       Some ev \<Rightarrow> ev
                     | None \<Rightarrow> simulated_passing ''fake final check'' (health_spec_first_test ''/''))), f)))"

definition fake_stop_new :: "io_ctx \<Rightarrow> (fake, unit) step_prog" where
  "fake_stop_new x = fake_run FCallStopNew fb_stop_new"

definition fake_restore_previous ::
  "io_ctx \<Rightarrow> previous_release \<Rightarrow> u64 \<Rightarrow> (fake, restore_result) step_prog" where
  "fake_restore_previous x p budget = World (\<lambda>f.
     (case (case fb_restore f of [] \<Rightarrow> ((RNotAttempted ImageMissing, 0), []) | y # ys \<Rightarrow> (y, ys)) of
        ((r, takes), left) \<Rightarrow>
          (step_bind
             (if (r = RHealthy \<or> r = RStartedUnverified) \<and> fb_restore_error f = None
              then fake_create x Container (restored_container_name (io_deployment x)) Retain
              else Return (Inr ()))
             (\<lambda>_. World (\<lambda>f. case fb_restore_error f of
                Some e \<Rightarrow> (Return (Inl e), f\<lparr>fb_restore_error := None\<rparr>)
              | None \<Rightarrow> (Return (Inr r), f))),
           advance takes (f\<lparr>fb_calls := fb_calls f @ [FCallRestorePrevious budget], fb_restored := Some p,
                           fb_restore := left\<rparr>))))"

definition fake_backend :: "fake backend" where
  "fake_backend =
     \<lparr>bk_list_resources = fake_list_resources, bk_remove_resource = fake_remove_resource,
      bk_prepare_source = fake_prepare_source, bk_build = fake_build,
      bk_preliminary_check = fake_preliminary_check, bk_stop_current = fake_stop_current,
      bk_plan_release = fake_plan_release, bk_pinned_config = fake_pinned_config,
      bk_restore_blockers = fake_restore_blockers, bk_start_new = fake_start_new,
      bk_final_check = fake_final_check, bk_stop_new = fake_stop_new, bk_accepts_simulated = (\<lambda>f. True),
      bk_supports_cutover = fb_cutover_supported, bk_restore_previous = fake_restore_previous\<rparr>"

end
