(* ===== verification/EngineRules.thy ===== *)
theory EngineRules
  imports EngineRun
begin

text \<open>
  Rules for reasoning about a run, once for every invariant. A triple \<open>triple I P m Q\<close> says that from
  a state with \<open>I\<close> and \<open>P\<close> the computation \<open>m\<close> keeps \<open>I\<close> whatever its outcome, establishes \<open>Q\<close> when it
  returns, never panics, and fails only with a journal or ledger error. The locale \<open>run_invariant\<close> lists
  what an invariant has to survive: the primitive changes of the state, each under the guard the
  engine guarantees. Inside it the triples of all parts of a run are proved.
\<close>

section \<open>What a trace shows\<close>

fun call_of :: "event \<Rightarrow> call option" where
  "call_of (EvCall c) = Some c"
| "call_of _ = None"

fun persist_of :: "event \<Rightarrow> deployment option" where
  "persist_of (EvPersist d) = Some d"
| "persist_of _ = None"

fun record_of :: "event \<Rightarrow> ledger_record option" where
  "record_of (EvRecord r) = Some r"
| "record_of _ = None"

definition calls :: "event list \<Rightarrow> call list" where
  "calls tr = List.map_filter call_of tr"

definition persists :: "event list \<Rightarrow> deployment list" where
  "persists tr = List.map_filter persist_of tr"

definition records :: "event list \<Rightarrow> ledger_record list" where
  "records tr = List.map_filter record_of tr"

lemma trace_views [simp]:
  "calls [] = []" "persists [] = []" "records [] = []"
  "calls (xs @ ys) = calls xs @ calls ys" "persists (xs @ ys) = persists xs @ persists ys"
  "records (xs @ ys) = records xs @ records ys"
  "calls [EvCall c] = [c]" "calls [EvPersist d] = []" "calls [EvRecord r] = []" "calls [EvList] = []"
  "calls [EvRemove k i] = []" "persists [EvCall c] = []" "persists [EvPersist d] = [d]"
  "persists [EvRecord r] = []" "persists [EvList] = []" "persists [EvRemove k i] = []"
  "records [EvCall c] = []" "records [EvPersist d] = []" "records [EvRecord r] = [r]"
  "records [EvList] = []" "records [EvRemove k i] = []"
  by (simp_all add: calls_def persists_def records_def List.map_filter_def)

definition is_stop :: "call \<Rightarrow> bool" where
  "is_stop c \<longleftrightarrow> (case c of CallStopCurrent _ \<Rightarrow> True | _ \<Rightarrow> False)"

definition is_restore :: "call \<Rightarrow> bool" where
  "is_restore c \<longleftrightarrow> (case c of CallRestorePrevious _ \<Rightarrow> True | _ \<Rightarrow> False)"

text \<open>The record that is on disk: the last one persisted in this run.\<close>

definition durable :: "event list \<Rightarrow> deployment option" where
  "durable tr = (if persists tr = [] then None else Some (last (persists tr)))"

section \<open>Triples\<close>

definition run_error :: "engine_error \<Rightarrow> bool" where
  "run_error e \<longleftrightarrow> (case e of ETransition _ \<Rightarrow> False | _ \<Rightarrow> True)"

definition triple :: "('s \<Rightarrow> bool) \<Rightarrow> ('s \<Rightarrow> bool) \<Rightarrow> ('s, 'a) eng \<Rightarrow> ('a \<Rightarrow> 's \<Rightarrow> bool) \<Rightarrow> bool" where
  "triple I P m Q \<longleftrightarrow> (\<forall>s. I s \<longrightarrow> P s \<longrightarrow>
     I (snd (m s)) \<and>
     (case fst (m s) of Ok x \<Rightarrow> Q x (snd (m s)) | Fail e \<Rightarrow> run_error e | Panic \<Rightarrow> False))"

lemma tripleI:
  "(\<And>s. I s \<Longrightarrow> P s \<Longrightarrow> I (snd (m s)) \<and>
     (case fst (m s) of Ok x \<Rightarrow> Q x (snd (m s)) | Fail e \<Rightarrow> run_error e | Panic \<Rightarrow> False)) \<Longrightarrow> triple I P m Q"
  unfolding triple_def by blast

lemma tripleD:
  "triple I P m Q \<Longrightarrow> I s \<Longrightarrow> P s \<Longrightarrow>
   I (snd (m s)) \<and> (case fst (m s) of Ok x \<Rightarrow> Q x (snd (m s)) | Fail e \<Rightarrow> run_error e | Panic \<Rightarrow> False)"
  unfolding triple_def by blast

lemma triple_pre: "(\<And>s. P' s \<Longrightarrow> P s) \<Longrightarrow> triple I P m Q \<Longrightarrow> triple I P' m Q"
  unfolding triple_def by blast

lemma triple_post: "triple I P m R \<Longrightarrow> (\<And>x s. R x s \<Longrightarrow> Q x s) \<Longrightarrow> triple I P m Q"
  unfolding triple_def by (fastforce split: result.split)

lemma triple_ret: "triple I (Q x) (ret x) Q"
  by (rule tripleI) (simp add: ret_def)

lemma triple_ret0: "triple I P (ret x) (\<lambda>_. P)"
  by (rule tripleI) (simp add: ret_def)

lemma triple_retI: "(\<And>s. P s \<Longrightarrow> Q x s) \<Longrightarrow> triple I P (ret x) Q"
  by (rule tripleI) (simp add: ret_def)

lemma triple_gets: "triple I (\<lambda>s. Q (f s) s) (gets f) Q"
  by (rule tripleI) (simp add: gets_def)

lemma triple_bnd:
  assumes m: "triple I P m R" and f: "\<And>x. triple I (R x) (f x) Q"
  shows "triple I P (bnd m f) Q"
proof (rule tripleI)
  fix s
  assume s: "I s" "P s"
  note m' = tripleD [OF m s]
  show "I (snd (bnd m f s)) \<and>
    (case fst (bnd m f s) of Ok x \<Rightarrow> Q x (snd (bnd m f s)) | Fail e \<Rightarrow> run_error e | Panic \<Rightarrow> False)"
  proof (cases "fst (m s)")
    case (Ok x)
    then have ms: "m s = (Ok x, snd (m s))" by (metis prod.collapse)
    have post: "I (snd (m s))" "R x (snd (m s))" using m' Ok by simp_all
    have eq: "bnd m f s = f x (snd (m s))" unfolding bnd_def by (subst ms) simp
    show ?thesis unfolding eq by (rule tripleD [OF f post])
  next
    case (Fail e)
    then have ms: "m s = (Fail e, snd (m s))" by (metis prod.collapse)
    have "bnd m f s = (Fail e, snd (m s))" unfolding bnd_def by (subst ms) simp
    with m' Fail show ?thesis by simp
  next
    case Panic
    with m' show ?thesis by simp
  qed
qed

lemma triple_thn: "triple I P m (\<lambda>_. R) \<Longrightarrow> triple I R n Q \<Longrightarrow> triple I P (thn m n) Q"
  unfolding thn_def by (rule triple_bnd)

lemma triple_gets_bnd: "(\<And>x. triple I (\<lambda>s. P s \<and> x = f s) (g x) Q) \<Longrightarrow> triple I P (bnd (gets f) g) Q"
  by (rule triple_bnd [where R = "\<lambda>x s. P s \<and> x = f s"])
    (rule triple_pre [OF _ triple_gets], simp)

section \<open>What the guards say\<close>

definition has_id :: "ledger \<Rightarrow> entry_ref \<Rightarrow> string \<Rightarrow> bool" where
  "has_id l ref i \<longleftrightarrow> (\<exists>e. led_find l (fst ref) (snd ref) = Some e \<and> e_id e = Some i)"

text \<open>Before a removal: the attempt was the last thing written, and the id is that of the receipt.\<close>

definition removal_guard :: "resource_kind \<Rightarrow> string \<Rightarrow> 'w run \<Rightarrow> bool" where
  "removal_guard k i s \<longleftrightarrow>
     (\<exists>us ref t. c_trace s = us @ [EvRecord (CleanupAttempt (snd ref) (fst ref) t)] \<and>
        has_id (c_ledger s) ref i \<and> rk_kind (snd ref) = k)"

definition checks_passed :: "deployment \<Rightarrow> bool" where
  "checks_passed d \<longleftrightarrow> step_status_of d Source = Some SSucceeded \<and> step_status_of d Build = Some SSucceeded \<and>
     step_status_of d PreliminaryCheck = Some SSucceeded"

text \<open>
  Before the previous release is stopped: the record on disk says that the cutover began and what it
  replaces, the checks have passed, and nothing was stopped before. Before a restoration: the record on
  disk says the cutover failed and a recovery is in progress, and none was tried before.
\<close>

definition stop_guard :: "previous_release \<Rightarrow> event list \<Rightarrow> bool" where
  "stop_guard prev tr \<longleftrightarrow> filter is_stop (calls tr) = [] \<and>
     (\<exists>d. durable tr = Some d \<and> is_begun (d_cutover d) \<and> d_replaces d = Some (pv_release prev) \<and>
        checks_passed d)"

definition restore_guard :: "event list \<Rightarrow> bool" where
  "restore_guard tr \<longleftrightarrow> filter is_restore (calls tr) = [] \<and>
     (\<exists>d r. durable tr = Some d \<and> is_failed (d_cutover d) \<and> d_recovery d = Some r \<and>
        rec_outcome r = InProgress)"

definition call_guard :: "call \<Rightarrow> event list \<Rightarrow> bool" where
  "call_guard c tr \<longleftrightarrow>
     (case c of CallStopCurrent prev \<Rightarrow> stop_guard prev tr | CallRestorePrevious b \<Rightarrow> restore_guard tr
      | _ \<Rightarrow> True)"

section \<open>The invariant's interface\<close>

definition view where
  "view s = (r_d s, r_previous s, r_prepared s, r_evidence s, calls (c_trace s), persists (c_trace s))"

definition framed where
  "framed v l s \<longleftrightarrow> view s = v \<and> follows l (c_ledger s)"

locale run_invariant =
  fixes I :: "'w run \<Rightarrow> bool"
  assumes ledger_ok: "I s \<Longrightarrow> led_inv (c_ledger s)"
    and world: "I s \<Longrightarrow> I (s\<lparr>c_world := w\<rparr>)"
    and recorded: "I s \<Longrightarrow> led_apply (c_ledger s) r = Inr l \<Longrightarrow> j_record r (c_journal s) = Inr j \<Longrightarrow>
      I (trace_add (EvRecord r) (s\<lparr>c_journal := j, c_ledger := l\<rparr>))"
    and changed: "I s \<Longrightarrow> dep_op (r_d s) d \<Longrightarrow> I (s\<lparr>r_d := d\<rparr>)"
    and persisted: "I s \<Longrightarrow> j_persist (r_d s) (c_journal s) = Inr j \<Longrightarrow>
      I (trace_add (EvPersist (r_d s)) (s\<lparr>c_journal := j\<rparr>))"
    and listed: "I s \<Longrightarrow> I (trace_add EvList s)"
    and removed: "I s \<Longrightarrow> removal_guard k i s \<Longrightarrow> I (trace_add (EvRemove k i) s)"
    and called: "I s \<Longrightarrow> call_guard c (c_trace s) \<Longrightarrow> I (trace_add (EvCall c) s)"
    and noted: "I s \<Longrightarrow> I (s\<lparr>r_evidence := ev\<rparr>)" "I s \<Longrightarrow> I (s\<lparr>r_logs := lg\<rparr>)"
      "I s \<Longrightarrow> I (s\<lparr>r_warnings := ws\<rparr>)" "I s \<Longrightarrow> I (s\<lparr>r_unaccounted := un\<rparr>)"
      "I s \<Longrightarrow> I (s\<lparr>r_prepared := pr\<rparr>)"
begin

lemma clock_triple: "triple I (framed v l) (clock_now now) (\<lambda>_. framed v l)"
  by (rule tripleI) (auto simp: clock_now_def read_clock_def framed_def view_def world split: prod.split)

lemma write_triple:
  "triple I (framed v l) (write_record r)
     (\<lambda>_ s. framed v l s \<and> (\<exists>us l0. c_trace s = us @ [EvRecord r] \<and> led_inv l0 \<and> led_apply l0 r = Inr (c_ledger s) \<and>
        follows l l0))"
proof (rule tripleI)
  fix s
  assume I: "I s" and fr: "framed v l s"
  let ?Q = "\<lambda>_ s. framed v l s \<and> (\<exists>us l0. c_trace s = us @ [EvRecord r] \<and> led_inv l0 \<and>
    led_apply l0 r = Inr (c_ledger s) \<and> follows l l0)"
  show "I (snd (write_record r s)) \<and>
    (case fst (write_record r s) of Ok x \<Rightarrow> ?Q x (snd (write_record r s)) | Fail e \<Rightarrow> run_error e | Panic \<Rightarrow> False)"
  proof (cases "led_apply (c_ledger s) r")
    case (Inl e)
    with I show ?thesis by (simp add: write_record_def run_error_def)
  next
    case (Inr m)
    note app = Inr
    show ?thesis
    proof (cases "j_record r (c_journal s)")
      case (Inl j)
      with I app show ?thesis by (simp add: write_record_def run_error_def)
    next
      case (Inr j)
      let ?t = "trace_add (EvRecord r) (s\<lparr>c_journal := j, c_ledger := m\<rparr>)"
      have "I ?t" by (rule recorded [OF I app Inr])
      moreover have "follows l m"
        using follows_trans [OF _ follows_apply [OF ledger_ok [OF I] app]] fr by (simp add: framed_def)
      moreover have "view ?t = view s" by (simp add: view_def trace_add_def)
      ultimately show ?thesis
        using app Inr fr ledger_ok [OF I]
        by (auto simp: write_record_def framed_def trace_add_def)
    qed
  qed
qed

lemma write_quiet: "triple I (framed v l) (write_record r) (\<lambda>_. framed v l)"
  by (rule triple_post [OF write_triple]) simp

lemma attempt_triple:
  "triple I (framed v l) (attempt_cleanup now ref)
     (\<lambda>_ s. framed v l s \<and> (\<exists>us t. c_trace s = us @ [EvRecord (CleanupAttempt (snd ref) (fst ref) t)]) \<and>
        led_find (c_ledger s) (fst ref) (snd ref) \<noteq> None)"
  unfolding attempt_cleanup_def
proof (rule triple_bnd [OF clock_triple])
  fix t
  show "triple I (framed v l) (write_record (CleanupAttempt (snd ref) (fst ref) t))
    (\<lambda>_ s. framed v l s \<and> (\<exists>us t. c_trace s = us @ [EvRecord (CleanupAttempt (snd ref) (fst ref) t)]) \<and>
        led_find (c_ledger s) (fst ref) (snd ref) \<noteq> None)"
  proof (rule triple_post [OF write_triple], elim conjE exE, intro conjI)
    fix x :: unit and s :: "'w run" and us l0
    assume "led_apply l0 (CleanupAttempt (snd ref) (fst ref) t) = Inr (c_ledger s)"
    then show "led_find (c_ledger s) (fst ref) (snd ref) \<noteq> None"
      by (rule led_apply_finds) (simp add: about_def)
  qed auto
qed

lemma settle_quiet: "triple I (framed v l) (settle now ref oc) (\<lambda>_. framed v l)"
  unfolding settle_def by (rule triple_bnd [OF clock_triple write_quiet])

lemma attempt_quiet: "triple I (framed v l) (attempt_cleanup now ref) (\<lambda>_. framed v l)"
  by (rule triple_post [OF attempt_triple]) simp

lemma adopt_triple:
  "triple I (framed v l) (adopt_receipt now ref ob) (\<lambda>_ s. framed v l s \<and> has_id (c_ledger s) ref (ob_id ob))"
  unfolding adopt_receipt_def
proof (rule triple_bnd [OF clock_triple])
  fix t
  show "triple I (framed v l) (write_record (Receipt (snd ref) (fst ref) (ob_id ob) t))
    (\<lambda>_ s. framed v l s \<and> has_id (c_ledger s) ref (ob_id ob))"
  proof (rule triple_post [OF write_triple], elim conjE exE, intro conjI)
    fix x :: unit and s :: "'w run" and us l0
    assume "led_apply l0 (Receipt (snd ref) (fst ref) (ob_id ob) t) = Inr (c_ledger s)"
    then show "has_id (c_ledger s) ref (ob_id ob)"
      by (auto simp: apply_receipt_Inr has_id_def led_find_update [OF keeps_receipt])
  qed auto
qed

end

section \<open>Cleanup keeps every invariant\<close>

definition action_ok :: "ledger \<Rightarrow> action \<Rightarrow> bool" where
  "action_ok l a \<longleftrightarrow> (case a of Remove ref ob adopt \<Rightarrow> adopt \<or> has_id l ref (ob_id ob) | _ \<Rightarrow> True)"

lemma has_id_follows: "has_id l ref i \<Longrightarrow> follows l m \<Longrightarrow> has_id m ref i"
  unfolding has_id_def by (auto dest!: followsD)

lemma led_find_member: "led_inv l \<Longrightarrow> e \<in> set l \<Longrightarrow> led_find l (e_deployment e) (e_key e) = Some e"
proof -
  assume inv: "led_inv l" and e: "e \<in> set l"
  then obtain x where x: "led_find l (e_deployment e) (e_key e) = Some x"
    using led_find_None [of l "e_deployment e" "e_key e"] by (cases "led_find l (e_deployment e) (e_key e)") auto
  from led_find_Some [OF x] have "x \<in> set l" "e_deployment x = e_deployment e" "e_key x = e_key e" by auto
  moreover have "inj_on (\<lambda>e. (e_deployment e, e_key e)) (set l)"
    using inv by (simp add: led_inv_def distinct_map)
  ultimately have "x = e" using e by (intro inj_onD [of "\<lambda>e. (e_deployment e, e_key e)" "set l" x e]) simp_all
  with x show ?thesis by simp
qed

lemma plan_action_ok: "led_inv l \<Longrightarrow> a \<in> set (plan l obs ended) \<Longrightarrow> action_ok l a"
proof -
  assume inv: "led_inv l" and a: "a \<in> set (plan l obs ended)"
  show ?thesis
  proof (cases a)
    case (Remove ref ob adopt)
    with a obtain e where e: "e \<in> set l" "plan_entry obs ended e = Some (Remove ref ob adopt)"
      by (auto simp: plan_def in_map_filter plan_observed_not_remove)
    note r = plan_entry_Remove [OF e(2)]
    show ?thesis
    proof (cases "e_id e")
      case None
      with r Remove show ?thesis by (simp add: action_ok_def)
    next
      case (Some i)
      with r find_object_Some [of obs e ob] have "ob_id ob = i" by auto
      with Some r led_find_member [OF inv e(1)] Remove show ?thesis
        by (simp add: action_ok_def has_id_def)
    qed
  qed (simp_all add: action_ok_def)
qed

context run_invariant
begin

lemma keep_has_id:
  assumes m: "\<And>v l. triple I (framed v l) m (\<lambda>x s. framed v l s \<and> R x s)"
  shows "triple I (\<lambda>s. framed v l s \<and> has_id (c_ledger s) ref i) m
    (\<lambda>x s. framed v l s \<and> has_id (c_ledger s) ref i \<and> R x s)"
proof (rule tripleI)
  fix s
  assume I: "I s" and P: "framed v l s \<and> has_id (c_ledger s) ref i"
  have "framed (view s) (c_ledger s) s" by (simp add: framed_def follows_refl)
  from tripleD [OF m I this] P show "I (snd (m s)) \<and>
    (case fst (m s) of Ok x \<Rightarrow> framed v l (snd (m s)) \<and> has_id (c_ledger (snd (m s))) ref i \<and> R x (snd (m s))
     | Fail e \<Rightarrow> run_error e | Panic \<Rightarrow> False)"
    by (auto simp: framed_def split: result.splits intro: has_id_follows follows_trans)
qed

lemma remove_triple:
  "triple I (\<lambda>s. framed v l s \<and> removal_guard (rq_kind rq) (rq_id rq) s) (call_remove bk rq) (\<lambda>_. framed v l)"
proof (rule tripleI)
  fix s
  assume I: "I s" and P: "framed v l s \<and> removal_guard (rq_kind rq) (rq_id rq) s"
  obtain r w where rw: "bk_remove_resource bk rq (c_world s) = (r, w)" by fastforce
  have "removal_guard (rq_kind rq) (rq_id rq) (s\<lparr>c_world := w\<rparr>)" using P by (simp add: removal_guard_def)
  from removed [OF world [OF I] this] P rw show "I (snd (call_remove bk rq s)) \<and>
    (case fst (call_remove bk rq s) of Ok x \<Rightarrow> framed v l (snd (call_remove bk rq s))
     | Fail e \<Rightarrow> run_error e | Panic \<Rightarrow> False)"
    by (simp add: call_remove_def framed_def view_def trace_add_def)
qed

lemma list_triple: "triple I (framed v l) (call_list bk) (\<lambda>_. framed v l)"
  by (rule tripleI)
    (auto simp: call_list_def framed_def view_def trace_add_def split: prod.split
      dest: listed [OF world, unfolded trace_add_def])

lemma remove_action_triple:
  assumes ok: "adopt \<or> has_id l ref (ob_id ob)"
  shows "triple I (framed v l) (execute_action bk now (Remove ref ob adopt)) (\<lambda>_. framed v l)"
proof -
  let ?has = "\<lambda>s. framed v l s \<and> has_id (c_ledger s) ref (ob_id ob)"
  have first: "triple I (framed v l) (if adopt then adopt_receipt now ref ob else ret ()) (\<lambda>_. ?has)"
  proof (cases adopt)
    case True
    then show ?thesis using adopt_triple by simp
  next
    case False
    with ok have "has_id l ref (ob_id ob)" by simp
    then have "framed v l s \<Longrightarrow> ?has s" for s by (auto simp: framed_def intro: has_id_follows)
    then have "triple I (framed v l) (ret ()) (\<lambda>_. ?has)" by (intro triple_retI)
    with False show ?thesis by simp
  qed
  let ?tried = "\<lambda>s. framed v l s \<and> has_id (c_ledger s) ref (ob_id ob) \<and>
      (\<exists>us t. c_trace s = us @ [EvRecord (CleanupAttempt (snd ref) (fst ref) t)]) \<and>
      led_find (c_ledger s) (fst ref) (snd ref) \<noteq> None"
  have second: "triple I ?has (attempt_cleanup now ref) (\<lambda>_. ?tried)"
    using keep_has_id [OF attempt_triple] by (simp add: conj_assoc)
  have last: "triple I (\<lambda>s. ?tried s \<and> found = led_find (c_ledger s) (fst ref) (snd ref))
     (case found of None \<Rightarrow> panic
      | Some e \<Rightarrow> bnd (call_remove bk (request_for e (ob_id ob))) (\<lambda>r.
          thn (settle now ref (removal_outcome e r)) (ret []))) (\<lambda>_. framed v l)" for found
  proof (cases found)
    case None
    then show ?thesis by (intro tripleI) simp
  next
    case (Some e)
    have "triple I (\<lambda>s. ?tried s \<and> found = led_find (c_ledger s) (fst ref) (snd ref))
        (call_remove bk (request_for e (ob_id ob))) (\<lambda>_. framed v l)"
    proof (rule triple_pre [OF _ remove_triple])
      fix s :: "'w run"
      assume s: "?tried s \<and> found = led_find (c_ledger s) (fst ref) (snd ref)"
      with Some have "led_find (c_ledger s) (fst ref) (snd ref) = Some e" by simp
      from led_find_Some [OF this] have "e_key e = snd ref" by simp
      with s show "framed v l s \<and>
          removal_guard (rq_kind (request_for e (ob_id ob))) (rq_id (request_for e (ob_id ob))) s"
        by (auto simp: removal_guard_def request_for_def)
    qed
    then show ?thesis
      unfolding Some option.case by (rule triple_bnd) (rule triple_thn [OF settle_quiet triple_ret])
  qed
  show ?thesis
    unfolding execute_action.simps
    by (rule triple_thn [OF first], rule triple_thn [OF second], rule triple_gets_bnd, rule last)
qed

lemma execute_action_triple:
  assumes "action_ok l a"
  shows "triple I (framed v l) (execute_action bk now a) (\<lambda>_. framed v l)"
proof (cases a)
  case (Remove ref ob adopt)
  with assms show ?thesis using remove_action_triple by (simp add: action_ok_def)
next
  case (Adopt ref ob)
  have "triple I (framed v l) (adopt_receipt now ref ob) (\<lambda>_. framed v l)"
    by (rule triple_post [OF adopt_triple]) simp
  then show ?thesis unfolding Adopt execute_action.simps by (rule triple_thn) (rule triple_ret)
qed (simp_all add: triple_ret0 triple_thn [OF attempt_quiet triple_thn [OF settle_quiet triple_ret0]])

lemma execute_actions_triple:
  "list_all (action_ok l) as \<Longrightarrow> triple I (framed v l) (execute_actions bk now as) (\<lambda>_. framed v l)"
proof (induction "as")
  case Nil
  show ?case unfolding execute_actions.simps by (rule triple_ret)
next
  case (Cons a "as")
  then show ?case
    unfolding execute_actions.simps
    by (intro triple_bnd [OF execute_action_triple] triple_bnd [OF Cons.IH] triple_ret) simp_all
qed

lemma release_leases_triple:
  "list_all is_release_lease as \<Longrightarrow> triple I (framed v l) (release_leases bk now as) (\<lambda>_. framed v l)"
proof (induction "as")
  case Nil
  show ?case unfolding release_leases.simps by (rule triple_ret)
next
  case (Cons a "as")
  then obtain ref where a: "a = ReleaseLease ref" by (auto simp: is_release_lease_def split: action.splits)
  have exec: "triple I (framed v l) (execute_actions bk now [ReleaseLease ref]) (\<lambda>_. framed v l)"
    by (rule execute_actions_triple) (simp add: action_ok_def)
  have one: "triple I (framed v l) (bnd (gets (\<lambda>s. containers_settled (c_ledger s) (fst ref)))
      (\<lambda>ok. if ok then execute_actions bk now [ReleaseLease ref] else ret [])) (\<lambda>_. framed v l)"
  proof (rule triple_gets_bnd)
    fix ok
    have "triple I (framed v l) (if ok then execute_actions bk now [ReleaseLease ref] else ret [])
        (\<lambda>_. framed v l)"
      using exec by (cases ok) (simp_all only: if_True if_False triple_ret0)
    then show "triple I (\<lambda>s. framed v l s \<and> ok = containers_settled (c_ledger s) (fst ref))
      (if ok then execute_actions bk now [ReleaseLease ref] else ret []) (\<lambda>_. framed v l)"
      by (rule triple_pre [rotated]) simp
  qed
  show ?case
    unfolding release_leases.simps a action.case
    using Cons by (intro triple_bnd [OF one] triple_bnd [OF Cons.IH] triple_ret) simp
qed

lemma fail_honestly_triple: "triple I (framed v l) (fail_honestly now e as) (\<lambda>_. framed v l)"
proof (induction "as")
  case Nil
  show ?case unfolding fail_honestly.simps by (rule triple_ret)
next
  case (Cons a "as")
  have "triple I (framed v l)
     (case a of ReleaseLease ref \<Rightarrow> thn (attempt_cleanup now ref) (settle now ref ORemoved)
      | MarkAbsent ref \<Rightarrow> thn (attempt_cleanup now ref) (settle now ref (OFailed (list_failure e)))
      | _ \<Rightarrow> ret ()) (\<lambda>_. framed v l)"
    by (cases a) (simp_all add: triple_ret0 triple_thn [OF attempt_quiet settle_quiet])
  then show ?case unfolding fail_honestly.simps by (rule triple_thn [OF _ Cons.IH])
qed

text \<open>A part that needs to know the ledger it starts from, and that the ledger is well formed.\<close>

lemma from_ledger:
  fixes n :: "('w run, 'b) eng"
  assumes "led_inv m \<Longrightarrow> triple I (framed v m) n (\<lambda>_. framed v m)"
  shows "triple I (\<lambda>s. framed v l s \<and> m = c_ledger s) n (\<lambda>_. framed v l)"
proof (rule tripleI)
  fix s
  assume I: "I s" and P: "framed v l s \<and> m = c_ledger s"
  have "framed v m s" using P by (simp add: framed_def follows_refl)
  with assms ledger_ok [OF I] P have "triple I (framed v m) n (\<lambda>_. framed v m)" by simp
  from tripleD [OF this I \<open>framed v m s\<close>] P
  show "I (snd (n s)) \<and> (case fst (n s) of Ok x \<Rightarrow> framed v l (snd (n s)) | Fail e \<Rightarrow> run_error e | Panic \<Rightarrow> False)"
    by (auto simp: framed_def split: result.splits intro: follows_trans)
qed

lemma reconcile_triple: "triple I (framed v l) (reconcile bk now ended) (\<lambda>_. framed v l)"
  unfolding reconcile_def
proof (rule triple_bnd [OF list_triple], rule triple_gets_bnd)
  fix listed m
  let ?P = "\<lambda>s. framed v l s \<and> m = c_ledger s"
  show "triple I ?P (case listed of
      Inl e \<Rightarrow> thn (fail_honestly now e (plan m [] ended)) (ret [])
    | Inr obs \<Rightarrow>
        (let actions = plan m obs ended; leases = filter is_release_lease actions;
             objects = filter (\<lambda>a. \<not> is_release_lease a) actions
         in bnd (execute_actions bk now objects) (\<lambda>u. bnd (release_leases bk now leases) (\<lambda>us. ret (u @ us)))))
    (\<lambda>_. framed v l)"
  proof (cases listed)
    case (Inl e)
    show ?thesis unfolding Inl sum.case
      by (rule from_ledger) (rule triple_thn [OF fail_honestly_triple triple_ret])
  next
    case (Inr obs)
    show ?thesis unfolding Inr sum.case Let_def
    proof (rule from_ledger)
      assume inv: "led_inv m"
      have "list_all (action_ok m) (filter (\<lambda>a. \<not> is_release_lease a) (plan m obs ended))"
        using plan_action_ok [OF inv] by (auto simp: list_all_iff)
      moreover have "list_all is_release_lease (filter is_release_lease (plan m obs ended))"
        by (simp add: list_all_iff)
      ultimately show "triple I (framed v m) (bnd (execute_actions bk now (filter (\<lambda>a. \<not> is_release_lease a) (plan m obs ended)))
          (\<lambda>u. bnd (release_leases bk now (filter is_release_lease (plan m obs ended))) (\<lambda>us. ret (u @ us))))
          (\<lambda>_. framed v m)"
        by (intro triple_bnd [OF execute_actions_triple] triple_bnd [OF release_leases_triple] triple_ret)
    qed
  qed
qed

end

end
