(* ===== verification/EngineTriples.thy ===== *)
theory EngineTriples
  imports EngineRules
begin

text \<open>
  The triples of the parts of a run, for every invariant of the locale: what each part does to the
  record, in terms of its status, its six step statuses, its cutover and its recovery, and which backend
  calls it makes.
\<close>

section \<open>The shape of a record\<close>

definition steps_are :: "(step \<Rightarrow> step_status) \<Rightarrow> deployment \<Rightarrow> bool" where
  "steps_are f d \<longleftrightarrow> steps_ok d \<and> (\<forall>s. step_status_of d s = Some (f s))"

definition phase ::
  "deployment_status \<Rightarrow> (step \<Rightarrow> step_status) \<Rightarrow> (cutover_state \<Rightarrow> bool) \<Rightarrow> (recovery option \<Rightarrow> bool) \<Rightarrow>
   release_id option \<Rightarrow> deployment \<Rightarrow> bool" where
  "phase st f cu rc rep d \<longleftrightarrow>
     d_status d = st \<and> steps_are f d \<and> cu (d_cutover d) \<and> rc (d_recovery d) \<and>
     (rep \<noteq> None \<longrightarrow> d_replaces d = rep)"

text \<open>The note of a step is that of evidence that establishes health.\<close>

definition noted :: "step \<Rightarrow> deployment \<Rightarrow> bool" where
  "noted s d \<longleftrightarrow> (\<exists>r ev. find_step d s = Some r \<and> sr_note r = evidence_note ev \<and> is_healthy ev)"

lemma find_step_update:
  assumes "\<And>r. sr_step (g r) = sr_step r"
  shows "find_step (update_step s g d) s' =
    (if s' = s then map_option g (find_step d s) else find_step d s')"
proof (cases "s' = s")
  case True
  then show ?thesis
    using find_update_first [of "\<lambda>r. sr_step r = s" g "d_steps d"] assms
    by (simp add: find_step_def update_step_def)
next
  case False
  then have "find_step (update_step s g d) s' = find_step d s'"
    unfolding find_step_def update_step_def
    using find_update_first_other [of "\<lambda>r. sr_step r = s" "\<lambda>r. sr_step r = s'" g "d_steps d"] assms
    by simp
  with False show ?thesis by simp
qed

lemma steps_are_update:
  assumes "steps_are f d" and "\<And>r. sr_step (g r) = sr_step r" and "\<And>r. sr_status (g r) = x"
  shows "steps_are (f(s := x)) (update_step s g d)"
proof -
  have "step_status_of (update_step s g d) s' = Some ((f(s := x)) s')" for s'
  proof (cases "s' = s")
    case True
    from assms(1) have "step_status_of d s = Some (f s)" by (simp add: steps_are_def)
    with True show ?thesis
      using assms(3) by (auto simp: step_status_of_def find_step_update [OF assms(2)])
  next
    case False
    with assms(1) show ?thesis
      by (simp add: steps_are_def step_status_of_def find_step_update [OF assms(2)])
  qed
  with assms(1) show ?thesis
    using steps_ok_update [of g s d] assms(2) by (simp add: steps_are_def)
qed

lemma update_step_fields [simp]:
  "d_status (update_step s g d) = d_status d" "d_cutover (update_step s g d) = d_cutover d"
  "d_recovery (update_step s g d) = d_recovery d" "d_replaces (update_step s g d) = d_replaces d"
  "d_id (update_step s g d) = d_id d" "d_rollback_to (update_step s g d) = d_rollback_to d"
  by (simp_all add: update_step_def)

lemma phase_step:
  assumes "phase st f cu rc rep d"
  obtains r where "find_step d s = Some r" "sr_status r = f s"
proof -
  from assms have "step_status_of d s = Some (f s)" by (simp add: phase_def steps_are_def)
  then show ?thesis using that by (auto simp: step_status_of_def)
qed

lemma start_step_phase:
  assumes "phase st f cu rc rep d" and "f s = SPending"
  shows "\<exists>d'. start_step s now d = Some (Inr d') \<and> dep_op d d' \<and>
    phase st (f(s := SRunning)) cu rc rep d' \<and> (\<forall>x. x \<noteq> s \<longrightarrow> noted x d \<longrightarrow> noted x d')"
proof -
  let ?g = "\<lambda>r. r\<lparr>sr_status := SRunning, sr_started_ms := Some now\<rparr>"
  obtain r where "find_step d s = Some r" "sr_status r = SPending"
    using phase_step [OF assms(1), of s] assms(2) by metis
  then have st: "start_step s now d = Some (Inr (update_step s ?g d))" by (simp add: start_step_def)
  have "phase st (f(s := SRunning)) cu rc rep (update_step s ?g d)"
    using assms(1) steps_are_update [of f d ?g SRunning s] by (simp add: phase_def)
  moreover have "\<forall>x. x \<noteq> s \<longrightarrow> noted x d \<longrightarrow> noted x (update_step s ?g d)"
    by (auto simp: noted_def find_step_update)
  ultimately show ?thesis using st op_start_step [OF st] by blast
qed

lemma finish_step_phase:
  assumes "phase st f cu rc rep d" and "f s = SRunning"
  shows "\<exists>d'. finish_step s ok msg now d = Some (Inr d') \<and> dep_op d d' \<and>
    phase st (f(s := (if ok then SSucceeded else SFailed))) cu rc rep d' \<and>
    (\<forall>x. x \<noteq> s \<longrightarrow> noted x d \<longrightarrow> noted x d') \<and>
    (\<forall>ev. msg = evidence_note ev \<longrightarrow> is_healthy ev \<longrightarrow> noted s d')"
proof -
  let ?to = "if ok then SSucceeded else SFailed"
  let ?g = "\<lambda>r. r\<lparr>sr_status := ?to, sr_finished_ms := Some now, sr_note := msg\<rparr>"
  obtain r where r: "find_step d s = Some r" "sr_status r = SRunning"
    using phase_step [OF assms(1), of s] assms(2) by metis
  then have st: "finish_step s ok msg now d = Some (Inr (update_step s ?g d))"
    by (simp add: finish_step_def Let_def)
  have "phase st (f(s := ?to)) cu rc rep (update_step s ?g d)"
    using assms(1) steps_are_update [of f d ?g ?to s] by (simp add: phase_def)
  moreover have "\<forall>x. x \<noteq> s \<longrightarrow> noted x d \<longrightarrow> noted x (update_step s ?g d)"
    by (auto simp: noted_def find_step_update)
  moreover have "\<forall>ev. msg = evidence_note ev \<longrightarrow> is_healthy ev \<longrightarrow> noted s (update_step s ?g d)"
    using r(1) by (auto simp: noted_def find_step_update)
  ultimately show ?thesis using st op_finish_step [OF st] by blast
qed

definition skip_pending :: "(step \<Rightarrow> step_status) \<Rightarrow> step \<Rightarrow> step_status" where
  "skip_pending f = (\<lambda>s. if f s = SPending then SSkipped else f s)"

lemma find_step_map:
  "(\<And>r. sr_step (g r) = sr_step r) \<Longrightarrow>
   find_step (d\<lparr>d_steps := map g (d_steps d)\<rparr>) s = map_option g (find_step d s)"
  by (simp add: find_step_def find_cong_map)

lemma transition_phase:
  assumes "phase st f cu rc rep d" and "can_transition_to st to"
  shows "\<exists>d'. transition to now d = Inr d' \<and> dep_op d d' \<and>
    phase to (if is_terminal to then skip_pending f else f) cu rc rep d' \<and>
    (\<forall>x. noted x d \<longrightarrow> noted x d')"
proof -
  let ?g = "\<lambda>r. if sr_status r = SPending then r\<lparr>sr_status := SSkipped\<rparr> else r"
  obtain d' where d': "transition to now d = Inr d'"
    using assms by (auto simp: transition_def phase_def Let_def)
  have fields: "d_status d' = to" "d_cutover d' = d_cutover d" "d_recovery d' = d_recovery d"
    "d_replaces d' = d_replaces d"
    "d_steps d' = (if is_terminal to then map ?g (d_steps d) else d_steps d)"
    using d' by (auto simp: transition_def Let_def split: if_splits)
  have find: "find_step d' s = (if is_terminal to then map_option ?g (find_step d s) else find_step d s)" for s
    using fields(5) find_cong_map [of "d_steps d" "\<lambda>r. sr_step r = s" ?g] by (simp add: find_step_def)
  have "step_status_of d' s = Some ((if is_terminal to then skip_pending f else f) s)" for s
  proof -
    obtain r where "find_step d s = Some r" "sr_status r = f s" by (rule phase_step [OF assms(1)])
    then show ?thesis by (simp add: step_status_of_def find skip_pending_def)
  qed
  moreover have "steps_ok d'"
    using assms(1) fields(5) by (auto simp: phase_def steps_are_def steps_ok_def comp_def map_step_if)
  ultimately have "phase to (if is_terminal to then skip_pending f else f) cu rc rep d'"
    using assms(1) fields by (simp add: phase_def steps_are_def)
  moreover have "noted x d'" if "noted x d" for x
  proof -
    from that obtain r ev where "find_step d x = Some r" "sr_note r = evidence_note ev" "is_healthy ev"
      by (auto simp: noted_def)
    then show ?thesis by (auto simp: noted_def find)
  qed
  ultimately show ?thesis using d' op_transition [OF d'] by blast
qed

section \<open>Primitive steps of a run\<close>

text \<open>
  Where a run is: what it replaces, the backend calls made so far, whether the record in memory is the
  one on disk, and the shape of the record.
\<close>

definition at_run ::
  "previous_release option \<Rightarrow> call list \<Rightarrow> bool \<Rightarrow> (deployment \<Rightarrow> bool) \<Rightarrow> 'w run \<Rightarrow> bool" where
  "at_run pv cs sv A s \<longleftrightarrow>
     r_previous s = pv \<and> calls (c_trace s) = cs \<and> (sv \<longrightarrow> durable (c_trace s) = Some (r_d s)) \<and> A (r_d s)"

lemma at_run_weaken: "at_run pv cs sv A s \<Longrightarrow> (\<And>d. A d \<Longrightarrow> B d) \<Longrightarrow> at_run pv cs sv B s"
  by (simp add: at_run_def)

lemma at_run_unsaved: "at_run pv cs sv A s \<Longrightarrow> at_run pv cs False A s"
  by (simp add: at_run_def)

definition res_of :: "step_error + 'a \<Rightarrow> step_error + 'a \<Rightarrow> bool" where
  "res_of raw res \<longleftrightarrow> res = raw \<or> (\<exists>x e. raw = Inr x \<and> res = Inl e)"

definition call_free :: "call \<Rightarrow> bool" where
  "call_free c \<longleftrightarrow> \<not> is_stop c \<and> \<not> is_restore c"

lemma call_free_guard: "call_free c \<Longrightarrow> call_guard c tr"
  by (simp add: call_free_def call_guard_def is_stop_def is_restore_def split: call.splits)

lemma framed_at_run:
  "framed v l s \<Longrightarrow> framed v l t \<Longrightarrow> at_run pv cs sv A s \<Longrightarrow> at_run pv cs sv A t"
  by (auto simp: framed_def view_def at_run_def durable_def)

lemma durable_call: "durable (tr @ [EvCall c]) = durable tr"
  by (simp add: durable_def)

context run_invariant
begin

lemma quiet_at:
  assumes "\<And>v l. triple I (framed v l) m (\<lambda>_. framed v l)"
  shows "triple I (at_run pv cs sv A) m (\<lambda>_. at_run pv cs sv A)"
proof (rule tripleI)
  fix s
  assume I: "I s" and P: "at_run pv cs sv A s"
  have fr: "framed (view s) (c_ledger s) s" by (simp add: framed_def follows_refl)
  from tripleD [OF assms I this] show "I (snd (m s)) \<and>
    (case fst (m s) of Ok x \<Rightarrow> at_run pv cs sv A (snd (m s)) | Fail e \<Rightarrow> run_error e | Panic \<Rightarrow> False)"
    using framed_at_run [OF fr _ P] by (auto split: result.splits)
qed

lemma on_d_at:
  assumes "\<And>d. A d \<Longrightarrow> \<exists>d'. f d = Inr d' \<and> dep_op d d' \<and> B d'"
  shows "triple I (at_run pv cs sv A) (on_d f) (\<lambda>_. at_run pv cs False B)"
proof (rule tripleI)
  fix s
  assume I: "I s" and P: "at_run pv cs sv A s"
  then obtain d' where "f (r_d s) = Inr d'" "dep_op (r_d s) d'" "B d'"
    using assms by (auto simp: at_run_def)
  with changed [OF I] P show "I (snd (on_d f s)) \<and>
    (case fst (on_d f s) of Ok x \<Rightarrow> at_run pv cs False B (snd (on_d f s)) | Fail e \<Rightarrow> run_error e | Panic \<Rightarrow> False)"
    by (simp add: on_d_def at_run_def)
qed

lemma on_step_at:
  assumes "\<And>d. A d \<Longrightarrow> \<exists>d'. f d = Some (Inr d') \<and> dep_op d d' \<and> B d'"
  shows "triple I (at_run pv cs sv A) (on_step f) (\<lambda>_. at_run pv cs False B)"
proof (rule tripleI)
  fix s
  assume I: "I s" and P: "at_run pv cs sv A s"
  then obtain d' where "f (r_d s) = Some (Inr d')" "dep_op (r_d s) d'" "B d'"
    using assms by (auto simp: at_run_def)
  with changed [OF I] P show "I (snd (on_step f s)) \<and>
    (case fst (on_step f s) of Ok x \<Rightarrow> at_run pv cs False B (snd (on_step f s)) | Fail e \<Rightarrow> run_error e
     | Panic \<Rightarrow> False)"
    by (simp add: on_step_def at_run_def)
qed

lemma modify_at:
  assumes "\<And>d. dep_op d (g d)" and "\<And>d. A d \<Longrightarrow> B (g d)"
  shows "triple I (at_run pv cs sv A) (modify (\<lambda>s. s\<lparr>r_d := g (r_d s)\<rparr>)) (\<lambda>_. at_run pv cs False B)"
  by (rule tripleI) (use assms in \<open>auto simp: modify_def at_run_def intro: changed\<close>)

lemma save_at: "triple I (at_run pv cs sv A) save (\<lambda>_. at_run pv cs True A)"
proof (rule tripleI)
  fix s
  assume I: "I s" and P: "at_run pv cs sv A s"
  show "I (snd (save s)) \<and>
    (case fst (save s) of Ok x \<Rightarrow> at_run pv cs True A (snd (save s)) | Fail e \<Rightarrow> run_error e | Panic \<Rightarrow> False)"
  proof (cases "j_persist (r_d s) (c_journal s)")
    case (Inl j)
    with I show ?thesis by (simp add: save_def run_error_def)
  next
    case (Inr j)
    with persisted [OF I Inr] P show ?thesis
      by (simp add: save_def at_run_def trace_add_def durable_def)
  qed
qed

lemma warn_at: "triple I (at_run pv cs sv A) (warn ws) (\<lambda>_. at_run pv cs sv A)"
  by (rule tripleI) (simp add: warn_def modify_def at_run_def noted)

lemma evidence_at: "triple I (at_run pv cs sv A) (push_evidence_opt st ev) (\<lambda>_. at_run pv cs sv A)"
  by (rule tripleI)
    (cases ev; simp add: push_evidence_opt_def push_evidence_def modify_def at_run_def noted ret_def)

lemma describe_at: "triple I (at_run pv cs sv A) (describe en st e el b) (\<lambda>_. at_run pv cs sv A)"
  unfolding describe_def by (rule triple_thn [OF evidence_at triple_ret0])

lemma now_at: "triple I (at_run pv cs sv A) (run_now en) (\<lambda>_. at_run pv cs sv A)"
  unfolding run_now_def by (rule quiet_at [OF clock_triple])

lemma ask_at: "triple I (at_run pv cs sv A) (ask q) (\<lambda>_. at_run pv cs sv A)"
  by (rule tripleI) (auto simp: ask_def at_run_def world split: prod.split)

lemma peek_at: "triple I (at_run pv cs sv A) (peek q) (\<lambda>_. at_run pv cs sv A)"
  by (rule tripleI) (simp add: peek_def gets_def)

lemma at_pre: "triple I (at_run pv cs sv A) m Q \<Longrightarrow> (\<And>d. B d \<Longrightarrow> A d) \<Longrightarrow> triple I (at_run pv cs sv B) m Q"
  by (rule triple_pre [where P = "at_run pv cs sv A"]) (simp_all add: at_run_def)

section \<open>Backend programs\<close>

lemma io_write_keeps:
  assumes "I s" and "framed v l s"
  shows "I (snd (io_write r s)) \<and> framed v l (snd (io_write r s))"
proof -
  have "snd (io_write r s) = snd (write_record r s)"
    by (simp add: io_write_def write_record_def split: sum.split)
  moreover have "framed v l (snd (write_record r s))"
  proof (cases "fst (write_record r s)")
    case (Ok x)
    with tripleD [OF write_quiet assms, of r] show ?thesis by (simp only: result.case)
  next
    case (Fail e)
    then have "snd (write_record r s) = s" by (auto simp: write_record_def split: sum.splits)
    with assms show ?thesis by simp
  next
    case Panic
    with tripleD [OF write_quiet assms, of r] show ?thesis by simp
  qed
  ultimately show ?thesis using tripleD [OF write_quiet assms, of r] by simp
qed

lemma read_clock_keeps:
  "I s \<Longrightarrow> framed v l s \<Longrightarrow> I (snd (read_clock now s)) \<and> framed v l (snd (read_clock now s))"
  by (auto simp: read_clock_def framed_def view_def world split: prod.split)

lemma io_step_keeps:
  assumes "I s" and "framed v l s"
  shows "I (snd (snd (io_step now x c k s))) \<and> framed v l (snd (snd (io_step now x c k s)))"
proof -
  have stamped: "I (snd (snd (io_stamped now r k s))) \<and> framed v l (snd (snd (io_stamped now r k s)))" for r
  proof -
    obtain t s1 where rc: "read_clock now s = (t, s1)" by fastforce
    with read_clock_keeps [OF assms, of now] have "I s1" "framed v l s1" by simp_all
    from io_write_keeps [OF this, of "r t"] show ?thesis
      by (cases "io_write (r t) s1") (simp add: io_stamped_def rc)
  qed
  show ?thesis
    using assms stamped read_clock_keeps [OF assms, of now] by (cases c) (auto split: prod.split)
qed

lemma run_prog_keeps:
  "I s \<Longrightarrow> framed v l s \<Longrightarrow>
   I (snd (snd (run_prog now x p k s))) \<and> framed v l (snd (snd (run_prog now x p k s)))"
proof (induction p arbitrary: k s)
  case (Return r)
  then show ?case by simp
next
  case (World g)
  obtain p w where g: "g (c_world s) = (p, w)" by fastforce
  then have range: "(p, w) \<in> range g" by (metis rangeI)
  have "I (s\<lparr>c_world := w\<rparr>)" "framed v l (s\<lparr>c_world := w\<rparr>)"
    using World.prems world by (simp_all add: framed_def view_def)
  with World.IH [OF range] g show ?case by simp
next
  case (Io c f)
  obtain a k' s' where st: "io_step now x c k s = (a, k', s')" by (metis prod_cases3)
  with io_step_keeps [OF Io.prems, of now x c k] have "I s'" "framed v l s'" by simp_all
  with Io.IH [of "f a"] st show ?case by simp
qed

lemma exec_at:
  assumes guard: "\<And>s :: 'w run. at_run pv cs sv A s \<Longrightarrow> call_guard c (c_trace s)"
  shows "triple I (at_run pv cs sv A) (exec en st budget c f)
    (\<lambda>(raw, res, elapsed) s. at_run pv (cs @ [c]) sv A s \<and> res_of raw res)"
proof (rule tripleI)
  fix s0
  assume I: "I s0" and P: "at_run pv cs sv A s0"
  let ?now = "en_now en" and ?B = "at_run pv (cs @ [c]) sv A"
  obtain start s1 where c1: "read_clock ?now s0 = (start, s1)" by fastforce
  have fr0: "framed (view s0) (c_ledger s0) s0" by (simp add: framed_def follows_refl)
  from read_clock_keeps [OF I fr0, of ?now] c1 have s1: "I s1" "framed (view s0) (c_ledger s0) s1" by simp_all
  have P1: "at_run pv cs sv A s1" by (rule framed_at_run [OF fr0 s1(2) P])
  let ?t1 = "trace_add (EvCall c) s1"
  let ?x = "\<lparr>io_budget_ms = budget, io_app = d_app (r_d s1), io_deployment = d_id (r_d s1)\<rparr>"
  let ?k = "sink_new (cfg_log_limits (en_cfg en)) (cfg_redactor (en_cfg en))"
  have It1: "I ?t1" by (rule called [OF s1(1) guard [OF P1]])
  have Bt1: "?B ?t1" using P1 by (simp add: at_run_def trace_add_def durable_call)
  have frt1: "framed (view ?t1) (c_ledger ?t1) ?t1" by (simp add: framed_def follows_refl)
  obtain raw k s2 where rp: "run_prog ?now ?x (f ?x) ?k ?t1 = (raw, k, s2)" by (metis prod_cases3)
  from run_prog_keeps [OF It1 frt1, of ?now ?x "f ?x" ?k] rp
  have s2: "I s2" "framed (view ?t1) (c_ledger ?t1) s2" by simp_all
  obtain stop s3 where c2: "read_clock ?now s2 = (stop, s3)" by fastforce
  from read_clock_keeps [OF s2, of ?now] c2 have s3: "I s3" "framed (view ?t1) (c_ledger ?t1) s3" by simp_all
  have B3: "?B s3" by (rule framed_at_run [OF frt1 s3(2) Bt1])
  define s4 where "s4 = (if 0 < lines_seen (cap_summary (capture k)) \<or> withheld (cap_summary (capture k))
    then s3\<lparr>r_logs := r_logs s3 @ [(st, capture k)]\<rparr> else s3)"
  have s4: "I s4" "?B s4" using s3(1) B3 noted(2) by (simp_all add: s4_def at_run_def)
  have "exec en st budget c f s0 =
     (case raw of
        Inl e \<Rightarrow> (case se_fatal e of Some j \<Rightarrow> (Fail (EJournal j), s4)
                  | None \<Rightarrow> (Ok (raw, raw, sat_sub stop start), s4))
      | Inr v \<Rightarrow>
          if budget < sat_sub stop start
          then (Ok (raw, Inl (step_error_timeout (late_message (sat_sub stop start) budget)), sat_sub stop start), s4)
          else (Ok (raw, raw, sat_sub stop start), s4))"
    unfolding exec_def Let_def by (simp only: c1 rp c2 prod.case s4_def [symmetric])
  with s4 show "I (snd (exec en st budget c f s0)) \<and>
    (case fst (exec en st budget c f s0) of
       Ok x \<Rightarrow> (case x of (raw, res, elapsed) \<Rightarrow> \<lambda>s. ?B s \<and> res_of raw res) (snd (exec en st budget c f s0))
     | Fail e \<Rightarrow> run_error e | Panic \<Rightarrow> False)"
    by (cases raw) (auto simp: res_of_def run_error_def split: option.split)
qed

end

end
