(* ===== verification/EngineParts.thy ===== *)
theory EngineParts
  imports EngineTriples
begin

text \<open>
  Where a run is, in one line: \<open>shape\<close> gives the status of the record, the statuses of its six steps,
  its cutover and its recovery. The triples of this theory say how the operations on the record, the
  preliminary check's cleanup and the steps before the cutover move from one shape to the next.
\<close>

section \<open>Shapes\<close>

definition statuses ::
  "step_status \<Rightarrow> step_status \<Rightarrow> step_status \<Rightarrow> step_status \<Rightarrow> step_status \<Rightarrow> step_status \<Rightarrow> step \<Rightarrow> step_status"
  where
  "statuses so bu pr cu fi re = (\<lambda>s. case s of Source \<Rightarrow> so | Build \<Rightarrow> bu | PreliminaryCheck \<Rightarrow> pr
     | Cutover \<Rightarrow> cu | FinalCheck \<Rightarrow> fi | Recovery \<Rightarrow> re)"

lemma statuses_upd [simp]:
  "(statuses so bu pr cu fi re)(Source := x) = statuses x bu pr cu fi re"
  "(statuses so bu pr cu fi re)(Build := x) = statuses so x pr cu fi re"
  "(statuses so bu pr cu fi re)(PreliminaryCheck := x) = statuses so bu x cu fi re"
  "(statuses so bu pr cu fi re)(Cutover := x) = statuses so bu pr x fi re"
  "(statuses so bu pr cu fi re)(FinalCheck := x) = statuses so bu pr cu x re"
  "(statuses so bu pr cu fi re)(Recovery := x) = statuses so bu pr cu fi x"
  by (auto simp: statuses_def fun_eq_iff split: step.split)

lemma statuses_at [simp]:
  "statuses so bu pr cu fi re Source = so" "statuses so bu pr cu fi re Build = bu"
  "statuses so bu pr cu fi re PreliminaryCheck = pr" "statuses so bu pr cu fi re Cutover = cu"
  "statuses so bu pr cu fi re FinalCheck = fi" "statuses so bu pr cu fi re Recovery = re"
  by (simp_all add: statuses_def)

definition skipped :: "step_status \<Rightarrow> step_status" where
  "skipped x = (if x = SPending then SSkipped else x)"

lemma skipped_simps [simp]:
  "skipped SPending = SSkipped" "skipped SRunning = SRunning" "skipped SSucceeded = SSucceeded"
  "skipped SFailed = SFailed" "skipped SSkipped = SSkipped" "skipped SInterrupted = SInterrupted"
  by (simp_all add: skipped_def)

lemma skip_pending_statuses [simp]:
  "skip_pending (statuses so bu pr cu fi re) =
     statuses (skipped so) (skipped bu) (skipped pr) (skipped cu) (skipped fi) (skipped re)"
  by (auto simp: skip_pending_def skipped_def statuses_def fun_eq_iff split: step.split)

definition is_confirmed :: "cutover_state \<Rightarrow> bool" where
  "is_confirmed c \<longleftrightarrow> (case c of Confirmed _ \<Rightarrow> True | _ \<Rightarrow> False)"

definition recovered_as :: "recovery_outcome \<Rightarrow> recovery option \<Rightarrow> bool" where
  "recovered_as oc r \<longleftrightarrow> (\<exists>x. r = Some x \<and> rec_outcome x = oc)"

text \<open>\<open>nt\<close>: the note of the final check is that of evidence that establishes health.\<close>

definition shape ::
  "deployment_status \<Rightarrow> (step \<Rightarrow> step_status) \<Rightarrow> (cutover_state \<Rightarrow> bool) \<Rightarrow> (recovery option \<Rightarrow> bool) \<Rightarrow>
   release_id option \<Rightarrow> bool \<Rightarrow> deployment \<Rightarrow> bool" where
  "shape st f cu rc rep nt d \<longleftrightarrow> phase st f cu rc rep d \<and> (nt \<longrightarrow> noted FinalCheck d)"

lemma shape_status: "shape st f cu rc rep nt d \<Longrightarrow> d_status d = st"
  by (simp add: shape_def phase_def)

lemma shape_cutover: "shape st f cu rc rep nt d \<Longrightarrow> cu (d_cutover d)"
  by (simp add: shape_def phase_def)

lemma shape_replaces: "shape st f cu rc (Some r) nt d \<Longrightarrow> d_replaces d = Some r"
  by (simp add: shape_def phase_def)

lemma shape_step: "shape st f cu rc rep nt d \<Longrightarrow> step_status_of d s = Some (f s)"
  by (simp add: shape_def phase_def steps_are_def)

lemma shape_same:
  assumes "shape st f cu rc rep nt d"
    and "d_status d' = st" "d_steps d' = d_steps d" "cu' (d_cutover d')" "rc' (d_recovery d')"
    and "rep' \<noteq> None \<Longrightarrow> d_replaces d' = rep'"
  shows "shape st f cu' rc' rep' nt d'"
proof -
  have find: "find_step d' s = find_step d s" for s by (simp add: find_step_def assms(3))
  have "steps_are f d'"
    using assms(1,3) by (simp add: shape_def phase_def steps_are_def steps_ok_def step_status_of_def find)
  moreover have "nt \<longrightarrow> noted FinalCheck d'"
    using assms(1) by (simp add: shape_def noted_def find)
  ultimately show ?thesis using assms by (auto simp: shape_def phase_def)
qed

context run_invariant
begin

lemma start_at:
  assumes "f s = SPending" and "nt \<longrightarrow> s \<noteq> FinalCheck"
  shows "triple I (at_run pv cs sv (shape st f cu rc rep nt)) (on_step (start_step s now))
    (\<lambda>_. at_run pv cs False (shape st (f(s := SRunning)) cu rc rep nt))"
proof (rule on_step_at)
  fix d
  assume sh: "shape st f cu rc rep nt d"
  then have "phase st f cu rc rep d" by (simp add: shape_def)
  from start_step_phase [OF this assms(1), of now] obtain d' where d':
    "start_step s now d = Some (Inr d')" "dep_op d d'" "phase st (f(s := SRunning)) cu rc rep d'"
    "\<forall>x. x \<noteq> s \<longrightarrow> noted x d \<longrightarrow> noted x d'" by blast
  with sh assms(2) have "nt \<longrightarrow> noted FinalCheck d'" unfolding shape_def by metis
  with d' show "\<exists>d'. start_step s now d = Some (Inr d') \<and> dep_op d d' \<and>
      shape st (f(s := SRunning)) cu rc rep nt d'"
    unfolding shape_def by blast
qed

lemma finish_at:
  assumes "f s = SRunning" and "nt \<longrightarrow> s \<noteq> FinalCheck"
  shows "triple I (at_run pv cs sv (shape st f cu rc rep nt)) (on_step (finish_step s ok msg now))
    (\<lambda>_. at_run pv cs False (shape st (f(s := (if ok then SSucceeded else SFailed))) cu rc rep nt))"
proof (rule on_step_at)
  fix d
  assume sh: "shape st f cu rc rep nt d"
  then have "phase st f cu rc rep d" by (simp add: shape_def)
  from finish_step_phase [OF this assms(1), of ok msg now] obtain d' where d':
    "finish_step s ok msg now d = Some (Inr d')" "dep_op d d'"
    "phase st (f(s := (if ok then SSucceeded else SFailed))) cu rc rep d'"
    "\<forall>x. x \<noteq> s \<longrightarrow> noted x d \<longrightarrow> noted x d'" by blast
  with sh assms(2) have "nt \<longrightarrow> noted FinalCheck d'" unfolding shape_def by metis
  with d' show "\<exists>d'. finish_step s ok msg now d = Some (Inr d') \<and> dep_op d d' \<and>
      shape st (f(s := (if ok then SSucceeded else SFailed))) cu rc rep nt d'"
    unfolding shape_def by blast
qed

lemma finish_healthy_at:
  assumes "f FinalCheck = SRunning" and "is_healthy ev"
  shows "triple I (at_run pv cs sv (shape st f cu rc rep nt))
    (on_step (finish_step FinalCheck True (evidence_note ev) now))
    (\<lambda>_. at_run pv cs False (shape st (f(FinalCheck := SSucceeded)) cu rc rep True))"
proof (rule on_step_at)
  fix d
  assume "shape st f cu rc rep nt d"
  then have "phase st f cu rc rep d" by (simp add: shape_def)
  from finish_step_phase [OF this assms(1), of True "evidence_note ev" now] assms(2)
  show "\<exists>d'. finish_step FinalCheck True (evidence_note ev) now d = Some (Inr d') \<and> dep_op d d' \<and>
      shape st (f(FinalCheck := SSucceeded)) cu rc rep True d'"
    by (auto simp: shape_def)
qed

lemma transition_at:
  assumes "can_transition_to st to"
  shows "triple I (at_run pv cs sv (shape st f cu rc rep nt)) (on_d (transition to now))
    (\<lambda>_. at_run pv cs False (shape to (if is_terminal to then skip_pending f else f) cu rc rep nt))"
proof (rule on_d_at)
  fix d
  assume sh: "shape st f cu rc rep nt d"
  then have "phase st f cu rc rep d" by (simp add: shape_def)
  from transition_phase [OF this assms, of now] obtain d' where d':
    "transition to now d = Inr d'" "dep_op d d'"
    "phase to (if is_terminal to then skip_pending f else f) cu rc rep d'"
    "\<forall>x. noted x d \<longrightarrow> noted x d'" by blast
  with sh have "nt \<longrightarrow> noted FinalCheck d'" unfolding shape_def by metis
  with d' show "\<exists>d'. transition to now d = Inr d' \<and> dep_op d d' \<and>
      shape to (if is_terminal to then skip_pending f else f) cu rc rep nt d'"
    unfolding shape_def by blast
qed

lemma run_transition_at:
  assumes "can_transition_to st to"
  shows "triple I (at_run pv cs sv (shape st f cu rc rep nt)) (run_transition en to)
    (\<lambda>_. at_run pv cs False (shape to (if is_terminal to then skip_pending f else f) cu rc rep nt))"
  unfolding run_transition_def by (rule triple_bnd [OF now_at transition_at [OF assms]])

lemma end_cancelled_at:
  "triple I (at_run pv cs sv (shape Running f cu rc rep nt)) (end_cancelled en)
    (\<lambda>_. at_run pv cs True (shape Cancelled (skip_pending f) cu rc rep nt))"
  unfolding end_cancelled_def
  using run_transition_at [of Running Cancelled] by (intro triple_thn [OF _ save_at]) (simp add: is_terminal_def)

lemma succeed_at:
  "triple I (at_run pv cs sv (shape Running f cu rc rep nt)) (succeed en)
    (\<lambda>_. at_run pv cs True (shape Succeeded (skip_pending f) cu rc rep nt))"
  unfolding succeed_def
  using run_transition_at [of Running Succeeded] by (intro triple_thn [OF _ save_at]) (simp add: is_terminal_def)

lemma fail_run_at:
  "triple I (at_run pv cs sv (shape Running f cu rc rep nt)) (on_d (transition Failed now))
    (\<lambda>_. at_run pv cs False (shape Failed (skip_pending f) cu rc rep nt))"
  using transition_at [of Running Failed] by (simp add: is_terminal_def)

lemma same_at:
  assumes "\<And>d. dep_op d (g d)" "\<And>d. d_status (g d) = d_status d" "\<And>d. d_steps (g d) = d_steps d"
    "\<And>d. d_cutover (g d) = d_cutover d" "\<And>d. d_recovery (g d) = d_recovery d"
    "\<And>d. rep \<noteq> None \<Longrightarrow> d_replaces d = rep \<Longrightarrow> d_replaces (g d) = rep"
  shows "triple I (at_run pv cs sv (shape st f cu rc rep nt)) (modify (\<lambda>s. s\<lparr>r_d := g (r_d s)\<rparr>))
    (\<lambda>_. at_run pv cs False (shape st f cu rc rep nt))"
proof (rule modify_at [OF assms(1)])
  fix d
  assume sh: "shape st f cu rc rep nt d"
  show "shape st f cu rc rep nt (g d)"
    using sh assms(6) [of d] by (intro shape_same [OF sh]) (auto simp: assms(2-5) shape_def phase_def)
qed

lemma set_failure_at:
  "triple I (at_run pv cs sv (shape st f cu rc rep nt)) (set_failure fl)
    (\<lambda>_. at_run pv cs False (shape st f cu rc rep nt))"
  unfolding set_failure_def by (rule same_at [OF op_failure]) simp_all

lemma set_pinned_at:
  "triple I (at_run pv cs sv (shape st f cu rc rep nt)) (set_pinned c)
    (\<lambda>_. at_run pv cs False (shape st f cu rc rep nt))"
  unfolding set_pinned_def by (rule same_at [OF op_pinned]) simp_all

lemma set_release_at:
  "triple I (at_run pv cs sv (shape st f cu rc rep nt)) set_release
    (\<lambda>_. at_run pv cs False (shape st f cu rc rep nt))"
  unfolding set_release_def by (rule same_at [OF op_release]) simp_all

lemma set_replaces_at:
  "triple I (at_run pv cs sv (shape st f cu rc rep nt)) (set_replaces r)
    (\<lambda>_. at_run pv cs False (shape st f cu rc (Some r) nt))"
  unfolding set_replaces_def
proof (rule modify_at [OF op_replaces])
  fix d
  assume sh: "shape st f cu rc rep nt d"
  then show "shape st f cu rc (Some r) nt (d\<lparr>d_replaces := Some r\<rparr>)"
    by (intro shape_same [OF sh]) (auto simp: shape_def phase_def)
qed

section \<open>The cutover and the recovery\<close>

lemma on_d_shape:
  assumes "\<And>d. phase st f cu rc rep d \<Longrightarrow> \<exists>d'. g d = Inr d' \<and> dep_op d d' \<and> d_status d' = st \<and>
      d_steps d' = d_steps d \<and> d_replaces d' = d_replaces d \<and> cu' (d_cutover d') \<and> rc' (d_recovery d')"
  shows "triple I (at_run pv cs sv (shape st f cu rc rep nt)) (on_d g)
    (\<lambda>_. at_run pv cs False (shape st f cu' rc' rep nt))"
proof (rule on_d_at)
  fix d
  assume sh: "shape st f cu rc rep nt d"
  with assms [of d] obtain d' where d': "g d = Inr d'" "dep_op d d'" "d_status d' = st"
    "d_steps d' = d_steps d" "d_replaces d' = d_replaces d" "cu' (d_cutover d')" "rc' (d_recovery d')"
    by (auto simp: shape_def)
  have "shape st f cu' rc' rep nt d'"
    by (rule shape_same [where cu' = cu' and rc' = rc', OF sh d'(3,4)])
      (use sh d'(5-7) in \<open>simp_all add: shape_def phase_def\<close>)
  with d'(1,2) show "\<exists>d'. g d = Inr d' \<and> dep_op d d' \<and> shape st f cu' rc' rep nt d'" by blast
qed

lemma not_required_at:
  "triple I (at_run pv cs sv (shape st f ((=) NotStarted) rc rep nt)) (on_d cutover_not_required)
    (\<lambda>_. at_run pv cs False (shape st f ((=) NotRequired) rc rep nt))"
proof (rule on_d_shape)
  fix d
  assume "phase st f ((=) NotStarted) rc rep d"
  then have d: "cutover_not_required d = Inr (d\<lparr>d_cutover := NotRequired\<rparr>)" "d_status d = st" "rc (d_recovery d)"
    by (simp_all add: phase_def cutover_not_required_def split: cutover_state.split)
  with op_not_required [OF d(1)] show "\<exists>d'. cutover_not_required d = Inr d' \<and> dep_op d d' \<and> d_status d' = st \<and>
      d_steps d' = d_steps d \<and> d_replaces d' = d_replaces d \<and> NotRequired = d_cutover d' \<and> rc (d_recovery d')"
    by auto
qed

lemma begin_cutover_at:
  "triple I (at_run pv cs sv (shape st f ((=) NotStarted) rc rep nt)) (on_d (begin_cutover now))
    (\<lambda>_. at_run pv cs False (shape st f is_begun rc rep nt))"
proof (rule on_d_shape)
  fix d
  assume "phase st f ((=) NotStarted) rc rep d"
  then obtain d' where d: "begin_cutover now d = Inr d'" "d_status d' = st" "rc (d_recovery d')"
      "is_begun (d_cutover d')" "d_steps d' = d_steps d" "d_replaces d' = d_replaces d"
    by (auto simp: phase_def begin_cutover_def is_begun_def split: cutover_state.splits)
  with op_begin_cutover [OF d(1)] show "\<exists>d'. begin_cutover now d = Inr d' \<and> dep_op d d' \<and> d_status d' = st \<and>
      d_steps d' = d_steps d \<and> d_replaces d' = d_replaces d \<and> is_begun (d_cutover d') \<and> rc (d_recovery d')"
    by blast
qed

lemma confirm_at:
  "triple I (at_run pv cs sv (shape st f is_begun rc rep nt)) (on_d (confirm_cutover now))
    (\<lambda>_. at_run pv cs False (shape st f is_confirmed rc rep nt))"
proof (rule on_d_shape)
  fix d
  assume "phase st f is_begun rc rep d"
  then obtain d' where d: "confirm_cutover now d = Inr d'" "d_status d' = st" "rc (d_recovery d')"
      "is_confirmed (d_cutover d')" "d_steps d' = d_steps d" "d_replaces d' = d_replaces d"
    by (cases "d_cutover d")
      (simp_all add: phase_def confirm_cutover_def is_begun_def is_confirmed_def end_interruption_def)
  with op_confirm [OF d(1)] show "\<exists>d'. confirm_cutover now d = Inr d' \<and> dep_op d d' \<and> d_status d' = st \<and>
      d_steps d' = d_steps d \<and> d_replaces d' = d_replaces d \<and> is_confirmed (d_cutover d') \<and> rc (d_recovery d')"
    by blast
qed

lemma fail_cutover_at:
  "triple I (at_run pv cs sv (shape st f is_begun rc rep nt)) (on_d (fail_cutover now))
    (\<lambda>_. at_run pv cs False (shape st f is_failed rc rep nt))"
proof (rule on_d_shape)
  fix d
  assume "phase st f is_begun rc rep d"
  then obtain d' where d: "fail_cutover now d = Inr d'" "d_status d' = st" "rc (d_recovery d')"
      "is_failed (d_cutover d')" "d_steps d' = d_steps d" "d_replaces d' = d_replaces d"
    by (cases "d_cutover d") (simp_all add: phase_def fail_cutover_def is_begun_def is_failed_def)
  with op_fail [OF d(1)] show "\<exists>d'. fail_cutover now d = Inr d' \<and> dep_op d d' \<and> d_status d' = st \<and>
      d_steps d' = d_steps d \<and> d_replaces d' = d_replaces d \<and> is_failed (d_cutover d') \<and> rc (d_recovery d')"
    by blast
qed

lemma start_recovery_at:
  "triple I (at_run pv cs sv (shape st f is_failed ((=) None) rep nt)) (on_d (start_recovery budget now))
    (\<lambda>_. at_run pv cs False (shape st f is_failed (recovered_as InProgress) rep nt))"
proof (rule on_d_shape)
  fix d
  assume "phase st f is_failed ((=) None) rep d"
  then obtain d' where d: "start_recovery budget now d = Inr d'" "d_status d' = st"
      "recovered_as InProgress (d_recovery d')" "is_failed (d_cutover d')" "d_steps d' = d_steps d"
      "d_replaces d' = d_replaces d"
    by (cases "d_cutover d") (simp_all add: phase_def start_recovery_def is_failed_def recovered_as_def)
  with op_start_recovery [OF d(1)]
  show "\<exists>d'. start_recovery budget now d = Inr d' \<and> dep_op d d' \<and> d_status d' = st \<and> d_steps d' = d_steps d \<and>
      d_replaces d' = d_replaces d \<and> is_failed (d_cutover d') \<and> recovered_as InProgress (d_recovery d')"
    by blast
qed

lemma finish_recovery_at:
  assumes "oc \<noteq> InProgress"
  shows "triple I (at_run pv cs sv (shape st f cu (recovered_as InProgress) rep nt))
    (on_d (finish_recovery oc now)) (\<lambda>_. at_run pv cs False (shape st f cu (recovered_as oc) rep nt))"
proof (rule on_d_shape)
  fix d
  assume "phase st f cu (recovered_as InProgress) rep d"
  with assms obtain d' where d: "finish_recovery oc now d = Inr d'" "d_status d' = st"
      "recovered_as oc (d_recovery d')" "cu (d_cutover d')" "d_steps d' = d_steps d" "d_replaces d' = d_replaces d"
    by (cases "service_restored oc")
      (auto simp: phase_def finish_recovery_def end_interruption_def recovered_as_def)
  with op_finish_recovery [OF d(1)]
  show "\<exists>d'. finish_recovery oc now d = Inr d' \<and> dep_op d d' \<and> d_status d' = st \<and> d_steps d' = d_steps d \<and>
      d_replaces d' = d_replaces d \<and> cu (d_cutover d') \<and> recovered_as oc (d_recovery d')"
    by blast
qed

lemma explicit_at:
  assumes "f Recovery = SSkipped"
  shows "triple I (at_run pv cs sv (shape Interrupted f is_begun ((=) None) rep nt))
    (on_d (begin_explicit_recovery budget now))
    (\<lambda>_. at_run pv cs False (shape Interrupted (f(Recovery := SRunning)) is_failed (recovered_as InProgress) rep False))"
proof (rule on_d_at)
  fix d
  let ?g = "\<lambda>r. r\<lparr>sr_status := SRunning, sr_started_ms := Some now, sr_finished_ms := None\<rparr>"
  let ?d = "update_step Recovery ?g (d\<lparr>d_cutover := CutoverFailed now,
     d_recovery := Some \<lparr>rec_outcome = InProgress, rec_started_ms = now, rec_finished_ms = None,
                         rec_budget_ms = budget\<rparr>\<rparr>)"
  assume sh: "shape Interrupted f is_begun ((=) None) rep nt d"
  from shape_step [OF sh, of Recovery] assms have "step_status_of d Recovery = Some SSkipped" by simp
  with sh have can: "can_recover_explicitly d" by (simp add: can_recover_explicitly_def shape_def phase_def)
  then have ex: "begin_explicit_recovery budget now d = Inr ?d"
    by (auto simp: begin_explicit_recovery_def can_recover_explicitly_def is_begun_def fail_cutover_def
        start_recovery_def update_step_def split: cutover_state.splits)
  have "steps_are f (d\<lparr>d_cutover := CutoverFailed now, d_recovery := r\<rparr>)" for r
    using sh by (simp add: shape_def phase_def steps_are_def steps_ok_def step_status_of_def find_step_def)
  from steps_are_update [OF this, of ?g SRunning Recovery] have "steps_are (f(Recovery := SRunning)) ?d" by simp
  with sh have "shape Interrupted (f(Recovery := SRunning)) is_failed (recovered_as InProgress) rep False ?d"
    by (simp add: shape_def phase_def is_failed_def recovered_as_def)
  with ex op_explicit [OF ex] show "\<exists>d'. begin_explicit_recovery budget now d = Inr d' \<and> dep_op d d' \<and>
      shape Interrupted (f(Recovery := SRunning)) is_failed (recovered_as InProgress) rep False d'"
    by blast
qed

section \<open>The preliminary check's resources\<close>

lemma fail_preliminary_quiet: "triple I (framed v l) (fail_preliminary bk now e as) (\<lambda>_. framed v l)"
proof (induction "as")
  case Nil
  show ?case unfolding fail_preliminary.simps by (rule triple_ret)
next
  case (Cons a "as")
  note failed = triple_thn [OF attempt_quiet settle_quiet]
  have other: "triple I (framed v l) (thn (execute_actions bk now [b]) (ret ())) (\<lambda>_. framed v l)"
    if "action_ok l b" for b
    by (rule triple_thn [OF execute_actions_triple triple_ret0]) (simp add: that)
  show ?case
    unfolding fail_preliminary.simps
    by (rule triple_thn [OF _ Cons.IH], cases a) (simp_all add: failed other action_ok_def del: execute_actions.simps)
qed

lemma release_preliminary_quiet:
  "triple I (framed v l) (release_preliminary en first_new) (\<lambda>_. framed v l)"
  unfolding release_preliminary_def
proof (rule triple_gets_bnd)
  fix x :: "deployment_id \<times> resource_key list"
  obtain dep targets where x: "x = (dep, targets)" by fastforce
  let ?acts = "\<lambda>m obs. filter (targets_action targets) (plan m obs [(dep, EndSucceeded)])"
  have acts: "triple I (\<lambda>s. framed v l s \<and> m = c_ledger s)
      (case listed of Inl e \<Rightarrow> fail_preliminary (en_backend en) (en_now en) e (?acts m obs)
       | Inr _ \<Rightarrow> thn (execute_actions (en_backend en) (en_now en) (?acts m obs)) (ret ()))
      (\<lambda>_. framed v l)" for listed :: "step_error + observed list" and m obs
  proof (rule from_ledger)
    assume "led_inv m"
    then have "list_all (action_ok m) (?acts m obs)"
      using plan_action_ok by (auto simp: list_all_iff)
    then show "triple I (framed v m) (case listed of
        Inl e \<Rightarrow> fail_preliminary (en_backend en) (en_now en) e (?acts m obs)
       | Inr _ \<Rightarrow> thn (execute_actions (en_backend en) (en_now en) (?acts m obs)) (ret ())) (\<lambda>_. framed v m)"
      by (cases listed) (simp_all add: fail_preliminary_quiet triple_thn [OF execute_actions_triple triple_ret0])
  qed
  have "triple I (framed v l) (if targets = [] then ret None
     else bnd (call_list (en_backend en)) (\<lambda>listed. bnd (gets c_ledger) (\<lambda>m.
       let obs = (case listed of Inl _ \<Rightarrow> [] | Inr obs \<Rightarrow> obs); actions = ?acts m obs
       in thn (case listed of Inl e \<Rightarrow> fail_preliminary (en_backend en) (en_now en) e actions
               | Inr _ \<Rightarrow> thn (execute_actions (en_backend en) (en_now en) actions) (ret ()))
          (bnd (gets (\<lambda>s. stuck_resources dep targets (c_ledger s))) (\<lambda>stuck.
             ret (if stuck = [] then None else Some (stuck_message stuck))))))) (\<lambda>_. framed v l)"
  proof (cases "targets = []")
    case True
    then show ?thesis by (simp add: triple_ret0)
  next
    case False
    have rest: "triple I (framed v l) (bnd (gets (\<lambda>s. stuck_resources dep targets (c_ledger s)))
        (\<lambda>stuck. ret (if stuck = [] then None else Some (stuck_message stuck)))) (\<lambda>_. framed v l)"
      by (rule triple_gets_bnd) (rule triple_retI, simp)
    show ?thesis
      unfolding Let_def if_not_P [OF False]
      by (rule triple_bnd [OF list_triple], rule triple_gets_bnd, rule triple_thn [OF acts rest])
  qed
  then show "triple I (\<lambda>s. framed v l s \<and> x = (d_id (r_d s),
        preliminary_targets first_new (d_id (r_d s)) (c_ledger s)))
     (case x of (dep, targets) \<Rightarrow> if targets = [] then ret None
       else bnd (call_list (en_backend en)) (\<lambda>listed. bnd (gets c_ledger) (\<lambda>m.
       let obs = (case listed of Inl _ \<Rightarrow> [] | Inr obs \<Rightarrow> obs);
           actions = filter (targets_action targets) (plan m obs [(dep, EndSucceeded)])
       in thn (case listed of Inl e \<Rightarrow> fail_preliminary (en_backend en) (en_now en) e actions
               | Inr _ \<Rightarrow> thn (execute_actions (en_backend en) (en_now en) actions) (ret ()))
          (bnd (gets (\<lambda>s. stuck_resources dep targets (c_ledger s))) (\<lambda>stuck.
             ret (if stuck = [] then None else Some (stuck_message stuck))))))) (\<lambda>_. framed v l)"
    unfolding x prod.case by (rule triple_pre [rotated]) simp
qed

lemma release_preliminary_at:
  "triple I (at_run pv cs sv A) (release_preliminary en first_new) (\<lambda>_. at_run pv cs sv A)"
  by (rule quiet_at [OF release_preliminary_quiet])

lemma merge_preliminary_at:
  "triple I (at_run pv cs sv A) (merge_preliminary problem res) (\<lambda>_. at_run pv cs sv A)"
  unfolding merge_preliminary_def
  by (cases problem; cases res) (simp_all add: triple_ret0 triple_thn [OF warn_at triple_ret0])

lemma cleanup_at: "triple I (at_run pv cs sv A) (run_cleanup en) (\<lambda>_. at_run pv cs sv A)"
proof -
  have rec: "triple I (at_run pv cs sv A) (bnd (reconcile (en_backend en) (en_now en) ended)
      (\<lambda>un. modify (\<lambda>s. s\<lparr>r_unaccounted := r_unaccounted s @ un\<rparr>))) (\<lambda>_. at_run pv cs sv A)" for ended
  proof (rule triple_bnd [OF quiet_at [OF reconcile_triple]])
    fix un
    show "triple I (at_run pv cs sv A) (modify (\<lambda>s. s\<lparr>r_unaccounted := r_unaccounted s @ un\<rparr>))
        (\<lambda>_. at_run pv cs sv A)"
      by (rule tripleI) (simp add: modify_def at_run_def noted)
  qed
  show ?thesis
    unfolding run_cleanup_def
  proof (rule triple_gets_bnd, rule triple_pre [where P = "at_run pv cs sv A"], simp)
    fix x :: "deployment \<times> ledger"
    show "triple I (at_run pv cs sv A) (case x of (d, l) \<Rightarrow>
       case end_state_of (d_status d) of None \<Rightarrow> ret ()
       | Some end \<Rightarrow> let end = if is_failed (d_cutover d) \<and> end = NotSucceeded then FailedCutover else end
           in if \<not> (\<exists>e\<in>set l. e_deployment e = d_id d) then ret ()
              else bnd (reconcile (en_backend en) (en_now en) [(d_id d, end)])
                    (\<lambda>un. modify (\<lambda>s. s\<lparr>r_unaccounted := r_unaccounted s @ un\<rparr>))) (\<lambda>_. at_run pv cs sv A)"
      by (cases x; cases "end_state_of (d_status (fst x))") (simp_all add: Let_def triple_ret0 rec)
  qed
qed

end

end
