(* ===== verification/EngineFlow.thy ===== *)
theory EngineFlow
  imports EngineParts
begin

text \<open>
  The whole run, part by part up to \<open>run_confirmed\<close> and \<open>recover_run\<close>: \<open>run_ends\<close> lists the ways a run
  can end, each with the backend calls it made, in order, and the record it left; every triple of this
  theory leads there.
\<close>

section \<open>How a run can end\<close>

fun step_index :: "step \<Rightarrow> nat" where
  "step_index Source = 0"
| "step_index Build = 1"
| "step_index PreliminaryCheck = 2"
| "step_index Cutover = 3"
| "step_index FinalCheck = 4"
| "step_index Recovery = 5"

text \<open>The first \<open>n\<close> steps succeeded, the next one is \<open>x\<close>, the rest was skipped.\<close>

definition progress :: "nat \<Rightarrow> step_status \<Rightarrow> step \<Rightarrow> step_status" where
  "progress n x = (\<lambda>s. if step_index s < n then SSucceeded else if step_index s = n then x else SSkipped)"

lemma progress_statuses:
  "progress 0 x = statuses x SSkipped SSkipped SSkipped SSkipped SSkipped"
  "progress 1 x = statuses SSucceeded x SSkipped SSkipped SSkipped SSkipped"
  "progress 2 x = statuses SSucceeded SSucceeded x SSkipped SSkipped SSkipped"
  "progress 3 x = statuses SSucceeded SSucceeded SSucceeded x SSkipped SSkipped"
  "progress 4 x = statuses SSucceeded SSucceeded SSucceeded SSucceeded x SSkipped"
  "progress 5 x = statuses SSucceeded SSucceeded SSucceeded SSucceeded SSucceeded x"
  by (rule ext, rename_tac s, case_tac s; simp add: progress_def)+

definition check_calls :: "call list" where
  "check_calls = [CallPrepareSource, CallBuild, CallPreliminaryCheck]"

text \<open>One restoration, or the reason why there was none.\<close>

inductive restoration :: "u64 \<Rightarrow> previous_release \<Rightarrow> call list \<Rightarrow> recovery_outcome \<Rightarrow> bool" for b p where
  no_config: "pv_config p = None \<Longrightarrow> restoration b p [] (NotAttempted ConfigUnavailable)"
| blocked: "pv_config p \<noteq> None \<Longrightarrow> restoration b p [CallRestoreBlockers] (NotAttempted PortInUse)"
| tried: "pv_config p \<noteq> None \<Longrightarrow> oc \<noteq> InProgress \<Longrightarrow>
    restoration b p [CallRestoreBlockers, CallRestorePrevious b] oc"

definition recovery_step :: "recovery_outcome \<Rightarrow> step_status" where
  "recovery_step oc = (if service_restored oc then SSucceeded else SFailed)"

inductive run_ends :: "u64 \<Rightarrow> previous_release option \<Rightarrow> call list \<Rightarrow> deployment \<Rightarrow> bool" for b where
  cancelled: "n \<le> 3 \<Longrightarrow> shape Cancelled (progress n SSkipped) ((=) NotStarted) ((=) None) None False d \<Longrightarrow>
    run_ends b pv (take n check_calls) d"
| failed_early: "n < 3 \<Longrightarrow> shape Failed (progress n SFailed) ((=) NotStarted) ((=) None) None False d \<Longrightarrow>
    run_ends b pv (take (Suc n) check_calls) d"
| no_plan: "shape Failed (progress 3 SSkipped) ((=) NotStarted) ((=) None) None False d \<Longrightarrow>
    run_ends b pv (check_calls @ [CallPlanRelease]) d"
| first_not_started: "shape Failed (progress 3 SFailed) ((=) NotRequired) ((=) None) None False d \<Longrightarrow>
    run_ends b None (check_calls @ [CallPlanRelease, CallStartNew]) d"
| first_unhealthy: "shape Failed (progress 4 SFailed) ((=) NotRequired) ((=) None) None False d \<Longrightarrow>
    run_ends b None (check_calls @ [CallPlanRelease, CallStartNew, CallFinalCheck, CallStopNew]) d"
| first_done: "shape Succeeded (progress 5 SSkipped) ((=) NotRequired) ((=) None) None True d \<Longrightarrow>
    run_ends b None (check_calls @ [CallPlanRelease, CallStartNew, CallFinalCheck]) d"
| stop_failed: "restoration b p rs oc \<Longrightarrow>
    shape Failed ((progress 3 SFailed)(Recovery := recovery_step oc)) is_failed (recovered_as oc)
      (Some (pv_release p)) False d \<Longrightarrow>
    run_ends b (Some p) (check_calls @ [CallPlanRelease, CallStopCurrent p] @ rs) d"
| not_started: "restoration b p rs oc \<Longrightarrow>
    shape Failed ((progress 3 SFailed)(Recovery := recovery_step oc)) is_failed (recovered_as oc)
      (Some (pv_release p)) False d \<Longrightarrow>
    run_ends b (Some p) (check_calls @ [CallPlanRelease, CallStopCurrent p, CallStartNew] @ rs) d"
| unhealthy: "restoration b p rs oc \<Longrightarrow>
    shape Failed ((progress 4 SFailed)(Recovery := recovery_step oc)) is_failed (recovered_as oc)
      (Some (pv_release p)) False d \<Longrightarrow>
    run_ends b (Some p) (check_calls @
      [CallPlanRelease, CallStopCurrent p, CallStartNew, CallFinalCheck, CallStopNew] @ rs) d"
| switched: "shape Succeeded (progress 5 SSkipped) is_confirmed ((=) None) (Some (pv_release p)) True d \<Longrightarrow>
    run_ends b (Some p) (check_calls @ [CallPlanRelease, CallStopCurrent p, CallStartNew, CallFinalCheck]) d"

inductive_cases restorationE: "restoration b p rs oc"
inductive_cases run_endsE: "run_ends b pv cs d"

definition pause_for :: "deployment \<Rightarrow> pause_reason option" where
  "pause_for d = (if is_failed (d_cutover d) then Some PausedFailedCutover else None)"

definition ended_with :: "u64 \<Rightarrow> previous_release option \<Rightarrow> report \<Rightarrow> 'w run \<Rightarrow> bool" where
  "ended_with b pv rep s \<longleftrightarrow>
     at_run pv (calls (c_trace s)) True (run_ends b pv (calls (c_trace s))) s \<and>
     rep = run_report [] (pause_for (r_d s)) s"

lemma triple_ex: "(\<And>x. triple I (P x) m Q) \<Longrightarrow> triple I (\<lambda>s. \<exists>x. P x s) m Q"
  unfolding triple_def by blast

lemma triple_fact: "(F \<Longrightarrow> triple I P m Q) \<Longrightarrow> triple I (\<lambda>s. F \<and> P s) m Q"
  unfolding triple_def by blast

lemma triple_either: "triple I P m Q \<Longrightarrow> triple I P' m Q \<Longrightarrow> triple I (\<lambda>s. P s \<or> P' s) m Q"
  unfolding triple_def by blast

definition healthy_note :: "string \<times> bool + string \<Rightarrow> bool" where
  "healthy_note chk \<longleftrightarrow> (case chk of Inl _ \<Rightarrow> True | Inr msg \<Rightarrow> \<exists>ev. msg = evidence_note ev \<and> is_healthy ev)"

lemma judge_Inr: "judge r sim = Inr ev \<Longrightarrow> \<exists>e. ev = Some e \<and> is_healthy e"
  by (auto simp: judge_def is_healthy_def split: sum.splits if_splits)

text \<open>Where a restoration leaves the run: some restoration was made, with the outcome returned.\<close>

definition after_restoration where
  "after_restoration b p cs A oc s \<longleftrightarrow> (\<exists>rs. restoration b p rs oc \<and> at_run (Some p) (cs @ rs) True A s)"

lemma restore_outcome_done: "restore_outcome got res \<noteq> InProgress"
  by (auto simp: restore_outcome_def split: option.split restore_result.split sum.split)

context run_invariant
begin

lemma exec_bnd:
  assumes "\<And>s :: 'w run. at_run pv cs sv A s \<Longrightarrow> call_guard c (c_trace s)"
    and "\<And>raw res elapsed. res_of raw res \<Longrightarrow> triple I (at_run pv (cs @ [c]) sv A) (g raw res elapsed) Q"
  shows "triple I (at_run pv cs sv A)
    (bnd (exec en st budget c f) (\<lambda>(raw, res, elapsed). g raw res elapsed)) Q"
proof (rule triple_bnd [OF exec_at [OF assms(1)]])
  fix x
  show "triple I ((case x of (raw, res, elapsed) \<Rightarrow> \<lambda>s. at_run pv (cs @ [c]) sv A s \<and> res_of raw res))
      (case x of (raw, res, elapsed) \<Rightarrow> g raw res elapsed) Q"
    using assms(2) by (cases x) (auto simp: triple_def)
qed

lemmas exec_free_bnd = exec_bnd [OF call_free_guard]

lemma finish_run_at:
  assumes "\<And>d. A d \<Longrightarrow> run_ends b pv cs d"
  shows "triple I (at_run pv cs True A) (finish en) (ended_with b pv)"
  unfolding finish_def
proof (rule triple_thn [OF cleanup_at])
  show "triple I (at_run pv cs True A) (gets (\<lambda>s. run_report []
      (if is_failed (d_cutover (r_d s)) then Some PausedFailedCutover else None) s)) (ended_with b pv)"
    using assms by (intro tripleI) (auto simp: gets_def ended_with_def pause_for_def at_run_def)
qed

section \<open>Steps before the cutover\<close>

lemma pre_step_passed_at:
  assumes "f st = SRunning"
  shows "triple I (at_run pv cs sv (shape Running f cu rc rep False)) (pre_step_passed st ev now)
    (\<lambda>go s. go \<and> at_run pv cs True (shape Running (f(st := SSucceeded)) cu rc rep False) s)"
proof -
  have rel: "triple I (at_run pv cs False A) (if st = Build then set_release else ret ()) (\<lambda>_. at_run pv cs False A)"
    if "A = shape Running g cu rc rep False" for A g
    using set_release_at [of pv cs False Running g] that by (simp add: triple_ret0)
  have fin: "triple I (at_run pv cs sv (shape Running f cu rc rep False)) (on_step (finish_step st True (note_of ev) now))
      (\<lambda>_. at_run pv cs False (shape Running (f(st := SSucceeded)) cu rc rep False))"
    using finish_at [of f st False pv cs sv Running cu rc rep True] assms by simp
  show ?thesis
    unfolding pre_step_passed_def
    by (rule triple_thn [OF evidence_at], rule triple_thn [OF fin], rule triple_thn [OF rel [OF refl]],
        rule triple_thn [OF save_at]) (rule triple_retI, simp)
qed

lemma pre_step_failed_at:
  assumes "f st = SRunning"
  shows "triple I (at_run pv cs sv (shape Running f cu rc rep False))
    (pre_step_failed en st kind e elapsed budget now)
    (\<lambda>go s. \<not> go \<and> at_run pv cs True (shape Failed (skip_pending (f(st := SFailed))) cu rc rep False) s)"
proof -
  have fin: "triple I (at_run pv cs sv (shape Running f cu rc rep False)) (on_step (finish_step st False msg now))
      (\<lambda>_. at_run pv cs False (shape Running (f(st := SFailed)) cu rc rep False))" for msg
    using finish_at [of f st False pv cs sv Running cu rc rep False] assms by simp
  show ?thesis
    unfolding pre_step_failed_def
    by (rule triple_bnd [OF describe_at], rule triple_thn [OF fin], rule triple_thn [OF set_failure_at],
        rule triple_thn [OF fail_run_at], rule triple_thn [OF save_at]) (rule triple_retI, simp)
qed

lemma pre_step_at:
  assumes "f st = SPending" and "call_free c"
  shows "triple I (at_run pv cs True (shape Running f cu rc rep False)) (pre_step en st kind c p)
    (\<lambda>go s. if go then at_run pv (cs @ [c]) True (shape Running (f(st := SSucceeded)) cu rc rep False) s
      else at_run pv cs True (shape Cancelled (skip_pending f) cu rc rep False) s \<or>
           at_run pv (cs @ [c]) True (shape Failed (skip_pending (f(st := SFailed))) cu rc rep False) s)"
    (is "triple I _ _ ?Q")
proof -
  let ?A = "shape Running (f(st := SRunning)) cu rc rep False"
  have judged: "triple I (at_run pv (cs @ [c]) True ?A)
     (bnd (if st = PreliminaryCheck
        then bnd (release_preliminary en n) (\<lambda>problem. merge_preliminary problem res) else ret res)
       (\<lambda>res. bnd (run_now en) (\<lambda>now. case res of Inl e \<Rightarrow> pre_step_failed en st kind e elapsed budget now
         | Inr ev \<Rightarrow> pre_step_passed st ev now))) ?Q" for n res elapsed budget
  proof (rule triple_bnd)
    show "triple I (at_run pv (cs @ [c]) True ?A) (if st = PreliminaryCheck
        then bnd (release_preliminary en n) (\<lambda>problem. merge_preliminary problem res) else ret res)
       (\<lambda>_. at_run pv (cs @ [c]) True ?A)"
      by (simp add: triple_ret0 triple_bnd [OF release_preliminary_at merge_preliminary_at])
  next
    fix res :: "step_error + check_evidence option"
    show "triple I (at_run pv (cs @ [c]) True ?A)
       (bnd (run_now en) (\<lambda>now. case res of Inl e \<Rightarrow> pre_step_failed en st kind e elapsed budget now
         | Inr ev \<Rightarrow> pre_step_passed st ev now)) ?Q"
    proof (rule triple_bnd [OF now_at])
      fix now
      have passed: "triple I (at_run pv (cs @ [c]) True ?A) (pre_step_passed st ev now) ?Q" for ev
        by (rule triple_post [OF pre_step_passed_at]) (auto simp only: if_True fun_upd_same fun_upd_upd)
      have failed: "triple I (at_run pv (cs @ [c]) True ?A) (pre_step_failed en st kind e elapsed budget now) ?Q" for e
        by (rule triple_post [OF pre_step_failed_at]) (auto simp only: if_False fun_upd_same fun_upd_upd)
      show "triple I (at_run pv (cs @ [c]) True ?A) (case res of Inl e \<Rightarrow> pre_step_failed en st kind e elapsed budget now
         | Inr ev \<Rightarrow> pre_step_passed st ev now) ?Q"
        by (cases res) (simp_all only: sum.case passed failed)
    qed
  qed
  have started: "triple I (at_run pv cs True (shape Running f cu rc rep False)) (on_step (start_step st now))
      (\<lambda>_. at_run pv cs False ?A)" for now
    by (rule start_at) (simp_all add: assms(1))
  have go: "triple I (at_run pv cs True (shape Running f cu rc rep False))
     (bnd (run_now en) (\<lambda>now. thn (on_step (start_step st now)) (thn save
       (let budget = budget_for_step (cfg_budgets (en_cfg en)) st
        in bnd (gets (\<lambda>s. length (c_ledger s))) (\<lambda>first_new.
           bnd (exec en st budget c p) (\<lambda>(raw, res, elapsed).
           bnd (if st = PreliminaryCheck
                then bnd (release_preliminary en first_new) (\<lambda>problem. merge_preliminary problem res)
                else ret res) (\<lambda>res. bnd (run_now en) (\<lambda>now.
           case res of Inl e \<Rightarrow> pre_step_failed en st kind e elapsed budget now
             | Inr ev \<Rightarrow> pre_step_passed st ev now)))))))) ?Q"
    unfolding Let_def
    apply (rule triple_bnd [OF now_at], rule triple_thn [OF started], rule triple_thn [OF save_at],
        rule triple_gets_bnd)
    apply (rule triple_pre [where P = "at_run pv cs True ?A"], simp)
    by (rule exec_free_bnd [OF assms(2)], rule judged)
  have stopped: "triple I (at_run pv cs True (shape Running f cu rc rep False)) (thn (end_cancelled en) (ret False)) ?Q"
    by (rule triple_thn [OF end_cancelled_at], rule triple_retI) simp
  show ?thesis
    unfolding pre_step_def
  proof (rule triple_bnd [OF ask_at])
    fix cancel
    show "triple I (at_run pv cs True (shape Running f cu rc rep False)) (if cancel then thn (end_cancelled en) (ret False)
     else bnd (run_now en) (\<lambda>now. thn (on_step (start_step st now)) (thn save
       (let budget = budget_for_step (cfg_budgets (en_cfg en)) st
        in bnd (gets (\<lambda>s. length (c_ledger s))) (\<lambda>first_new.
           bnd (exec en st budget c p) (\<lambda>(raw, res, elapsed).
           bnd (if st = PreliminaryCheck
                then bnd (release_preliminary en first_new) (\<lambda>problem. merge_preliminary problem res)
                else ret res) (\<lambda>res. bnd (run_now en) (\<lambda>now.
           case res of Inl e \<Rightarrow> pre_step_failed en st kind e elapsed budget now
             | Inr ev \<Rightarrow> pre_step_passed st ev now)))))))) ?Q"
      using go stopped by (cases cancel) (simp_all only: if_True if_False)
  qed
qed

section \<open>The calls of the cutover\<close>

lemma plan_and_pin_at:
  "triple I (at_run pv cs True (shape Running f cu rc rep nt)) (plan_and_pin en)
    (\<lambda>go s. at_run pv (cs @ [CallPlanRelease]) True
      (if go then shape Running f cu rc rep nt else shape Failed (skip_pending f) cu rc rep nt) s)"
    (is "triple I _ _ ?Q")
  unfolding plan_and_pin_def Let_def
proof (rule exec_free_bnd)
  fix raw res :: "step_error + release_config option" and elapsed
  let ?P = "at_run pv (cs @ [CallPlanRelease]) True (shape Running f cu rc rep nt)"
  have planned: "triple I ?P (ret True) ?Q" by (rule triple_retI) simp
  have pinned: "triple I ?P (thn (set_pinned c) (thn save (ret True))) ?Q" for c
    by (rule triple_thn [OF set_pinned_at], rule triple_thn [OF save_at], rule triple_retI) simp
  have failed: "triple I ?P (bnd (describe en Cutover e elapsed budget) (\<lambda>message. bnd (run_now en) (\<lambda>now.
       thn (set_failure (fl message)) (thn (on_d (transition Failed now)) (thn save (ret False)))))) ?Q" for e fl budget
    by (rule triple_bnd [OF describe_at], rule triple_bnd [OF now_at], rule triple_thn [OF set_failure_at],
        rule triple_thn [OF fail_run_at], rule triple_thn [OF save_at], rule triple_retI) simp
  show "triple I ?P (case res of
      Inl e \<Rightarrow> bnd (describe en Cutover e elapsed (cutover_ms (cfg_budgets (en_cfg en)))) (\<lambda>message.
        bnd (run_now en) (\<lambda>now. thn (set_failure \<lparr>f_step = Cutover, f_kind = FCutover, f_message = message,
                               f_timed_out = se_timed_out e\<rparr>)
             (thn (on_d (transition Failed now)) (thn save (ret False)))))
    | Inr None \<Rightarrow> ret True
    | Inr (Some config) \<Rightarrow> thn (set_pinned config) (thn save (ret True))) ?Q"
    using planned pinned failed by (simp split: sum.split option.split)
qed (simp add: call_free_def is_stop_def is_restore_def)

lemma repin_at:
  "triple I (at_run pv cs sv (shape st f cu rc rep nt)) (repin en)
    (\<lambda>_. at_run pv cs False (shape st f cu rc rep nt))"
  unfolding repin_def
proof (rule triple_bnd [OF peek_at], rule triple_gets_bnd,
    rule triple_pre [where P = "at_run pv cs sv (shape st f cu rc rep nt)"], simp)
  fix actual pinned
  let ?R = "\<lambda>_ :: unit. at_run pv cs False (shape st f cu rc rep nt)"
  have skip: "triple I (at_run pv cs sv (shape st f cu rc rep nt)) (ret ()) ?R"
    by (rule triple_retI) (rule at_run_unsaved)
  have pin: "triple I (at_run pv cs sv (shape st f cu rc rep nt)) (thn (set_pinned c) save) ?R" for c
    by (rule triple_post [OF triple_thn [OF set_pinned_at save_at]]) (rule at_run_unsaved)
  show "triple I (at_run pv cs sv (shape st f cu rc rep nt)) (case actual of
      None \<Rightarrow> ret () | Some c \<Rightarrow> if pinned \<noteq> Some c then thn (set_pinned c) save else ret ()) ?R"
    using skip pin by (simp split: option.split)
qed

lemma cutover_call_at:
  assumes "\<And>s :: 'w run. at_run pv cs sv A s \<Longrightarrow> call_guard c (c_trace s)"
  shows "triple I (at_run pv cs sv A) (cutover_call en c f) (\<lambda>_. at_run pv (cs @ [c]) sv A)"
  unfolding cutover_call_def Let_def
proof (rule exec_bnd [OF assms])
  fix raw res :: "step_error + unit" and elapsed
  show "triple I (at_run pv (cs @ [c]) sv A) (case res of
      Inl e \<Rightarrow> bnd (describe en Cutover e elapsed (cutover_ms (cfg_budgets (en_cfg en))))
                 (\<lambda>m. ret (Inl (m, se_timed_out e)))
    | Inr x \<Rightarrow> ret (Inr ())) (\<lambda>_. at_run pv (cs @ [c]) sv A)"
    by (cases res) (simp_all add: triple_ret0 triple_bnd [OF describe_at triple_ret0])
qed

lemma final_check_at:
  "triple I (at_run pv cs sv A) (final_check en)
    (\<lambda>chk s. healthy_note chk \<and> at_run pv (cs @ [CallFinalCheck]) sv A s)" (is "triple I _ _ ?Q")
  unfolding final_check_def Let_def
proof (rule exec_free_bnd, goal_cases)
  case (2 raw res elapsed)
  let ?P = "at_run pv (cs @ [CallFinalCheck]) sv A"
  show ?case
  proof (rule triple_bnd [OF peek_at])
    fix sim
    have sick: "triple I ?P (bnd (describe en FinalCheck e elapsed budget) (\<lambda>m. ret (Inl (m, se_timed_out e)))) ?Q"
      for e budget
      by (rule triple_bnd [OF describe_at], rule triple_retI) (simp add: healthy_note_def)
    have well: "triple I ?P (thn (push_evidence_opt FinalCheck (Some ev)) (ret (Inr (note_of (Some ev))))) ?Q"
      if "is_healthy ev" for ev
      by (rule triple_thn [OF evidence_at], rule triple_retI)
        (use that in \<open>auto simp: healthy_note_def note_of_def\<close>)
    show "triple I ?P (case case res of Inl e \<Rightarrow> Inl e | Inr ev \<Rightarrow> judge (Inr ev) sim of
        Inl e \<Rightarrow> bnd (describe en FinalCheck e elapsed (final_ms (cfg_budgets (en_cfg en))))
                   (\<lambda>m. ret (Inl (m, se_timed_out e)))
      | Inr ev \<Rightarrow> thn (push_evidence_opt FinalCheck ev) (ret (Inr (note_of ev)))) ?Q"
      using sick well by (auto split: sum.split dest!: judge_Inr)
  qed
qed (simp add: call_free_def is_stop_def is_restore_def)

section \<open>The restoration\<close>

lemma restore_call_at:
  assumes "filter is_restore cs = []"
  shows "triple I (at_run pv cs True (shape st f is_failed (recovered_as InProgress) rep nt))
    (restore_call en prev budget)
    (\<lambda>oc s. oc \<noteq> InProgress \<and> at_run pv (cs @ [CallRestorePrevious budget]) True
       (shape st f is_failed (recovered_as InProgress) rep nt) s)"
    (is "triple I (at_run pv cs True ?A) _ ?Q")
  unfolding restore_call_def
proof (rule exec_bnd)
  fix s :: "'w run"
  assume "at_run pv cs True ?A s"
  with assms show "call_guard (CallRestorePrevious budget) (c_trace s)"
    by (auto simp: call_guard_def restore_guard_def at_run_def shape_def phase_def recovered_as_def)
next
  fix raw res :: "step_error + restore_result" and elapsed
  let ?P = "at_run pv (cs @ [CallRestorePrevious budget]) True ?A"
  have warned: "triple I ?P (case (ok_value raw, res) of
      (None, Inl e) \<Rightarrow> if se_timed_out e then ret () else warn [''restoration failed: '' @ redact en (se_message e)]
    | _ \<Rightarrow> ret ()) (\<lambda>_. ?P)"
    using triple_ret0 warn_at by (auto split: option.split sum.split)
  show "triple I ?P (thn (case (ok_value raw, res) of
      (None, Inl e) \<Rightarrow> if se_timed_out e then ret () else warn [''restoration failed: '' @ redact en (se_message e)]
    | _ \<Rightarrow> ret ()) (ret (restore_outcome (ok_value raw) res))) ?Q"
    by (rule triple_thn [OF warned], rule triple_retI) (simp add: restore_outcome_done)
qed

lemma restore_phase_at:
  assumes "filter is_restore cs = []"
  shows "triple I (at_run (Some p) cs True (shape st f is_failed (recovered_as InProgress) rep nt))
    (restore_phase en b)
    (after_restoration b p cs (shape st f is_failed (recovered_as InProgress) rep nt))"
    (is "triple I (at_run _ _ _ ?A) _ ?Q")
  unfolding restore_phase_def
proof (rule triple_gets_bnd)
  fix previous
  let ?P = "at_run (Some p) (cs @ [CallRestoreBlockers]) True ?A"
  have none: "triple I (at_run (Some p) cs True ?A) (ret (NotAttempted ConfigUnavailable)) ?Q" if "pv_config p = None"
    by (rule triple_retI) (use that in \<open>auto simp: after_restoration_def intro: no_config exI [of _ "[]"]\<close>)
  have some: "triple I (at_run (Some p) cs True ?A)
     (bnd (exec en Recovery b CallRestoreBlockers (\<lambda>x. bk_restore_blockers (en_backend en) x p))
       (\<lambda>(raw, checked, elapsed).
         let found = (case raw of Inl _ \<Rightarrow> [] | Inr bs \<Rightarrow> bs)
         in thn (case checked of Inl e \<Rightarrow> warn [''could not check what holds the previous release's port: '' @
                                   redact en (se_message e)] | Inr _ \<Rightarrow> ret ())
            (if found \<noteq> [] then thn (warn (map (\<lambda>f. ''restoration blocked: '' @ f) found)) (ret (NotAttempted PortInUse))
             else restore_call en p b))) ?Q" if cfg: "pv_config p \<noteq> None"
    unfolding Let_def
  proof (rule exec_free_bnd)
    fix raw checked :: "step_error + string list" and elapsed
    have checked: "triple I ?P (case checked of Inl e \<Rightarrow> warn [''could not check what holds the previous release's port: '' @
        redact en (se_message e)] | Inr _ \<Rightarrow> ret ()) (\<lambda>_. ?P)"
      by (cases checked) (simp_all add: warn_at triple_ret0)
    have blocked: "triple I ?P (thn (warn ws) (ret (NotAttempted PortInUse))) ?Q" for ws
      by (rule triple_thn [OF warn_at], rule triple_retI)
        (use restoration.blocked [of p b] cfg in \<open>auto simp: after_restoration_def\<close>)
    have "filter is_restore (cs @ [CallRestoreBlockers]) = []" using assms by (simp add: is_restore_def)
    from restore_call_at [OF this] have tried: "triple I ?P (restore_call en p b) ?Q"
      by (rule triple_post)
        (use restoration.tried [of p _ b] cfg in \<open>auto simp: after_restoration_def intro!: exI conjI\<close>)
    show "triple I ?P (thn (case checked of Inl e \<Rightarrow> warn [''could not check what holds the previous release's port: '' @
          redact en (se_message e)] | Inr _ \<Rightarrow> ret ())
        (if (case raw of Inl _ \<Rightarrow> [] | Inr bs \<Rightarrow> bs) \<noteq> []
         then thn (warn (map (\<lambda>f. ''restoration blocked: '' @ f) (case raw of Inl _ \<Rightarrow> [] | Inr bs \<Rightarrow> bs)))
                (ret (NotAttempted PortInUse))
         else restore_call en p b)) ?Q"
      using blocked tried by (intro triple_thn [OF checked]) simp
  qed (simp add: call_free_def is_stop_def is_restore_def)
  show "triple I (\<lambda>s. at_run (Some p) cs True ?A s \<and> previous = r_previous s) (case previous of
      None \<Rightarrow> ret (NotAttempted NoPreviousRelease)
    | Some prev \<Rightarrow> if pv_config prev = None then ret (NotAttempted ConfigUnavailable)
        else bnd (exec en Recovery b CallRestoreBlockers (\<lambda>x. bk_restore_blockers (en_backend en) x prev))
       (\<lambda>(raw, checked, elapsed).
         let found = (case raw of Inl _ \<Rightarrow> [] | Inr bs \<Rightarrow> bs)
         in thn (case checked of Inl e \<Rightarrow> warn [''could not check what holds the previous release's port: '' @
                                   redact en (se_message e)] | Inr _ \<Rightarrow> ret ())
            (if found \<noteq> [] then thn (warn (map (\<lambda>f. ''restoration blocked: '' @ f) found)) (ret (NotAttempted PortInUse))
             else restore_call en prev b))) ?Q"
  proof (rule triple_pre [where P = "\<lambda>s. previous = Some p \<and> at_run (Some p) cs True ?A s"], goal_cases)
    case 1
    then show ?case by (simp add: at_run_def)
  next
    case 2
    show ?case
      by (rule triple_fact) (use none some in \<open>cases "pv_config p = None"; simp only: option.case if_True if_False simp_thms\<close>)
  qed
qed

end

end
