(* ===== verification/EngineEnds.thy ===== *)
theory EngineEnds
  imports EngineFlow
begin

text \<open>
  The cutover of a first deployment, the replacement of a serving release with its failure handling, the
  run as a whole and the explicit recovery: each ends in one of the ways of \<open>run_ends\<close>.
\<close>

section \<open>Failing after the cutover began\<close>

definition after_failure where
  "after_failure b p cs g rep s \<longleftrightarrow>
     (\<exists>rs oc. restoration b p rs oc \<and>
        at_run (Some p) (cs @ rs) True
          (shape Failed (g(Recovery := recovery_step oc)) is_failed (recovered_as oc) rep False) s)"

lemma after_failureI:
  "restoration b p rs oc \<Longrightarrow>
   at_run (Some p) (cs @ rs) True
     (shape Failed (g(Recovery := recovery_step oc)) is_failed (recovered_as oc) rep False) s \<Longrightarrow>
   after_failure b p cs g rep s"
  unfolding after_failure_def by blast

lemma finished_status: "(if service_restored oc then SSucceeded else SFailed) = recovery_step oc"
  by (simp add: recovery_step_def)

lemma skip_pending_upd: "x \<noteq> SPending \<Longrightarrow> skip_pending (f(s := x)) = (skip_pending f)(s := x)"
  by (auto simp: skip_pending_def fun_eq_iff)

lemma recovery_step_set [simp]: "recovery_step oc \<noteq> SPending"
  by (simp add: recovery_step_def)

text \<open>The statuses of the steps while a run is past its checks.\<close>

abbreviation past_checks :: "step_status \<Rightarrow> step_status \<Rightarrow> step \<Rightarrow> step_status" where
  "past_checks cu fi \<equiv> statuses SSucceeded SSucceeded SSucceeded cu fi SPending"

text \<open>A record that is replacing the release of \<open>p\<close>.\<close>

abbreviation replacing ::
  "previous_release \<Rightarrow> step_status \<Rightarrow> step_status \<Rightarrow> (cutover_state \<Rightarrow> bool) \<Rightarrow> bool \<Rightarrow> deployment \<Rightarrow> bool" where
  "replacing p cu fi cv nt \<equiv>
     shape Running (past_checks cu fi) cv ((=) None) (Some (pv_release p)) nt"

context run_invariant
begin

lemma stop_new_at:
  "triple I (at_run pv cs sv A) (stop_failed_new_release en) (\<lambda>_. at_run pv (cs @ [CallStopNew]) sv A)"
  unfolding stop_failed_new_release_def
proof (rule exec_free_bnd)
  fix raw res :: "step_error + unit" and elapsed
  show "triple I (at_run pv (cs @ [CallStopNew]) sv A) (case res of
      Inl e \<Rightarrow> warn [''could not stop the failed new release: '' @ redact en (se_message e)]
    | Inr x \<Rightarrow> ret ()) (\<lambda>_. at_run pv (cs @ [CallStopNew]) sv A)"
    by (cases res) (simp_all add: warn_at triple_ret0)
qed (simp add: call_free_def is_stop_def is_restore_def)

lemma fail_after_cutover_at:
  assumes f: "f st = SRunning" "f Recovery = SPending" "st \<noteq> Recovery" and cs: "filter is_restore cs = []"
  shows "triple I (at_run (Some p) cs sv (shape Running f is_begun ((=) None) rep False))
    (fail_after_cutover en st kind failed new_started b)
    (\<lambda>_. after_failure b p (cs @ (if new_started then [CallStopNew] else [])) (skip_pending (f(st := SFailed))) rep)"
proof -
  let ?f1 = "f(st := SFailed)" and ?cs = "cs @ (if new_started then [CallStopNew] else [])"
  let ?f2 = "?f1(Recovery := SRunning)"
  have finish: "triple I (at_run (Some p) cs sv (shape Running f is_begun ((=) None) rep False))
      (on_step (finish_step st False msg now)) (\<lambda>_. at_run (Some p) cs False (shape Running ?f1 is_begun ((=) None) rep False))"
    for msg now
    using finish_at [of f st False "Some p" cs sv Running is_begun "(=) None" rep False] f by simp
  have start: "triple I (at_run (Some p) cs False (shape Running ?f1 is_failed ((=) None) rep False))
      (on_step (start_step Recovery now)) (\<lambda>_. at_run (Some p) cs False (shape Running ?f2 is_failed ((=) None) rep False))"
    for now
    using start_at [of ?f1 Recovery False] f by simp
  let ?A = "shape Running ?f2 is_failed (recovered_as InProgress) rep False"
  have stop: "triple I (at_run (Some p) cs True ?A) (if new_started then stop_failed_new_release en else ret ())
      (\<lambda>_. at_run (Some p) ?cs True ?A)"
    by (simp add: stop_new_at triple_ret0)
  have "filter is_restore ?cs = []" using cs by (simp add: is_restore_def)
  note restore = restore_phase_at [OF this]
  have rest: "triple I (after_restoration b p ?cs ?A oc) (bnd (run_now en) (\<lambda>now.
     thn (on_d (finish_recovery oc now))
     (thn (on_step (finish_step Recovery (service_restored oc) (outcome_str oc) now))
     (thn (on_d (transition Failed now)) save)))) (\<lambda>_. after_failure b p ?cs (skip_pending ?f1) rep)" for oc
    unfolding after_restoration_def
  proof (rule triple_ex, rule triple_fact)
    fix rs
    assume r: "restoration b p rs oc"
    then have oc: "oc \<noteq> InProgress" by (auto elim: restorationE)
    have fin: "triple I (at_run (Some p) (?cs @ rs) False (shape Running ?f2 is_failed (recovered_as oc) rep False))
       (on_step (finish_step Recovery (service_restored oc) (outcome_str oc) now))
       (\<lambda>_. at_run (Some p) (?cs @ rs) False
          (shape Running (?f1(Recovery := recovery_step oc)) is_failed (recovered_as oc) rep False))" for now
      using finish_at [of ?f2 Recovery False "Some p" "?cs @ rs" False Running is_failed "recovered_as oc" rep
          "service_restored oc"]
      by (simp add: finished_status)
    have last: "triple I (at_run (Some p) (?cs @ rs) False
          (shape Running (?f1(Recovery := recovery_step oc)) is_failed (recovered_as oc) rep False))
       (on_d (transition Failed now)) (\<lambda>_. at_run (Some p) (?cs @ rs) False
          (shape Failed ((skip_pending ?f1)(Recovery := recovery_step oc)) is_failed (recovered_as oc) rep False))" for now
      using fail_run_at [of "Some p" "?cs @ rs" False "?f1(Recovery := recovery_step oc)"]
      by (simp add: skip_pending_upd)
    show "triple I (at_run (Some p) (?cs @ rs) True ?A) (bnd (run_now en) (\<lambda>now.
     thn (on_d (finish_recovery oc now))
     (thn (on_step (finish_step Recovery (service_restored oc) (outcome_str oc) now))
     (thn (on_d (transition Failed now)) save)))) (\<lambda>_. after_failure b p ?cs (skip_pending ?f1) rep)"
      by (rule triple_bnd [OF now_at], rule triple_thn [OF finish_recovery_at [OF oc]], rule triple_thn [OF fin],
          rule triple_thn [OF last], rule triple_post [OF save_at], rule after_failureI [OF r])
  qed
  show ?thesis
    unfolding fail_after_cutover_def
    by (rule triple_bnd [OF now_at], rule triple_thn [OF finish], rule triple_thn [OF set_failure_at],
        rule triple_thn [OF fail_cutover_at], rule triple_thn [OF start], rule triple_thn [OF start_recovery_at],
        rule triple_thn [OF save_at], rule triple_thn [OF stop], rule triple_bnd [OF restore], rule rest)
qed

section \<open>The first deployment of an application\<close>

lemma first_start_failed_at:
  assumes cs: "cs = check_calls @ [CallPlanRelease, CallStartNew]"
  shows "triple I (at_run None cs sv (shape Running (past_checks SRunning SPending) ((=) NotRequired) ((=) None) None False))
    (first_start_failed en failed now) (ended_with b None)"
proof -
  have fin: "triple I (at_run None cs sv (shape Running (past_checks SRunning SPending) ((=) NotRequired) ((=) None) None False))
      (on_step (finish_step Cutover False msg now))
      (\<lambda>_. at_run None cs False (shape Running (past_checks SFailed SPending) ((=) NotRequired) ((=) None) None False))"
    for msg
    using finish_at [of "past_checks SRunning SPending" Cutover False None cs sv Running "(=) NotRequired"
        "(=) None" None False] by simp
  have end_run: "triple I (at_run None cs True (shape Failed (skip_pending (past_checks SFailed SPending)) ((=) NotRequired)
      ((=) None) None False)) (finish en) (ended_with b None)"
    by (rule finish_run_at) (simp add: cs run_ends.first_not_started progress_statuses)
  show ?thesis
    unfolding first_start_failed_def
    by (rule triple_thn [OF fin], rule triple_thn [OF set_failure_at], rule triple_thn [OF fail_run_at],
        rule triple_thn [OF save_at], rule end_run)
qed

lemma first_check_failed_at:
  "triple I (at_run None cs sv (shape Running (past_checks SSucceeded SRunning) ((=) NotRequired) ((=) None) None False))
    (first_check_failed en failed now)
    (\<lambda>_. at_run None (cs @ [CallStopNew]) True (shape Failed (progress 4 SFailed) ((=) NotRequired) ((=) None) None False))"
proof -
  have fin: "triple I (at_run None cs sv (shape Running (past_checks SSucceeded SRunning) ((=) NotRequired) ((=) None) None False))
      (on_step (finish_step FinalCheck False msg now))
      (\<lambda>_. at_run None cs False (shape Running (past_checks SSucceeded SFailed) ((=) NotRequired) ((=) None) None False))"
    for msg
    using finish_at [of "past_checks SSucceeded SRunning" FinalCheck False None cs sv Running "(=) NotRequired"
        "(=) None" None False] by simp
  have last: "triple I (at_run None cs' False (shape Running (past_checks SSucceeded SFailed) ((=) NotRequired) ((=) None) None False))
      (run_transition en Failed)
      (\<lambda>_. at_run None cs' False (shape Failed (progress 4 SFailed) ((=) NotRequired) ((=) None) None False))" for cs'
    using run_transition_at [of Running Failed None cs' False "past_checks SSucceeded SFailed"]
    by (simp add: is_terminal_def progress_statuses)
  show ?thesis
    unfolding first_check_failed_def
    by (rule triple_thn [OF fin], rule triple_thn [OF set_failure_at], rule triple_thn [OF stop_new_at],
        rule triple_thn [OF last save_at])
qed

lemma first_checked_at:
  assumes cs: "cs = check_calls @ [CallPlanRelease, CallStartNew, CallFinalCheck]" and "healthy_note chk"
  shows "triple I (at_run None cs sv (shape Running (past_checks SSucceeded SRunning) ((=) NotRequired) ((=) None) None False))
    (thn (case chk of
            Inl failed \<Rightarrow> first_check_failed en failed now
          | Inr msg \<Rightarrow> thn (on_step (finish_step FinalCheck True msg now)) (succeed en))
      (finish en)) (ended_with b None)"
proof (cases chk)
  case (Inl failed)
  have end_run: "triple I (at_run None (cs @ [CallStopNew]) True
      (shape Failed (progress 4 SFailed) ((=) NotRequired) ((=) None) None False)) (finish en) (ended_with b None)"
    by (rule finish_run_at) (simp add: cs run_ends.first_unhealthy)
  show ?thesis unfolding Inl sum.case by (rule triple_thn [OF first_check_failed_at end_run])
next
  case (Inr msg)
  with assms obtain ev where ev: "msg = evidence_note ev" "is_healthy ev" by (auto simp: healthy_note_def)
  have fin: "triple I (at_run None cs sv (shape Running (past_checks SSucceeded SRunning) ((=) NotRequired) ((=) None) None False))
      (on_step (finish_step FinalCheck True msg now))
      (\<lambda>_. at_run None cs False (shape Running (past_checks SSucceeded SSucceeded) ((=) NotRequired) ((=) None) None True))"
    using finish_healthy_at [of "past_checks SSucceeded SRunning" ev] ev by simp
  have end_run: "triple I (at_run None cs True (shape Succeeded (skip_pending (past_checks SSucceeded SSucceeded))
      ((=) NotRequired) ((=) None) None True)) (finish en) (ended_with b None)"
    by (rule finish_run_at) (simp add: cs run_ends.first_done progress_statuses)
  show ?thesis
    unfolding Inr sum.case
    by (rule triple_thn [OF triple_thn [OF fin succeed_at] end_run])
qed

lemma first_deployment_at:
  "triple I (at_run None check_calls True
      (shape Running (past_checks SPending SPending) ((=) NotStarted) ((=) None) None False))
    (first_deployment en) (ended_with b None)"
proof -
  let ?sh = "\<lambda>cu fi. shape Running (past_checks cu fi) ((=) NotRequired) ((=) None) None False"
  let ?cs = "check_calls @ [CallPlanRelease]"
  have start: "triple I (at_run None ?cs False (?sh SPending SPending)) (on_step (start_step Cutover now))
      (\<lambda>_. at_run None ?cs False (?sh SRunning SPending))" for now
    using start_at [of "past_checks SPending SPending" Cutover False] by simp
  have finish1: "triple I (at_run None cs True (?sh SRunning SPending)) (on_step (finish_step Cutover True [] now))
      (\<lambda>_. at_run None cs False (?sh SSucceeded SPending))" for cs now
    using finish_at [of "past_checks SRunning SPending" Cutover False None cs True Running "(=) NotRequired"
        "(=) None" None True] by simp
  have start2: "triple I (at_run None cs False (?sh SSucceeded SPending)) (on_step (start_step FinalCheck now))
      (\<lambda>_. at_run None cs False (?sh SSucceeded SRunning))" for cs now
    using start_at [of "past_checks SSucceeded SPending" FinalCheck False] by simp
  let ?chk = "\<lambda>chk now. thn (case chk of
            Inl failed \<Rightarrow> first_check_failed en failed now
          | Inr msg \<Rightarrow> thn (on_step (finish_step FinalCheck True msg now)) (succeed en)) (finish en)"
  have checked: "triple I (\<lambda>s. healthy_note chk \<and> at_run None (((?cs @ [CallStartNew]) @ [CallFinalCheck])) True (?sh SSucceeded SRunning) s)
      (bnd (run_now en) (?chk chk)) (ended_with b None)" for chk
    by (rule triple_fact, rule triple_bnd [OF now_at], rule first_checked_at) simp_all
  have ok: "triple I (at_run None (?cs @ [CallStartNew]) True (?sh SRunning SPending))
     (thn (on_step (finish_step Cutover True [] now)) (thn (on_step (start_step FinalCheck now))
      (thn (repin en) (thn save (bnd (final_check en) (\<lambda>chk. bnd (run_now en) (?chk chk))))))) (ended_with b None)" for now
    by (rule triple_thn [OF finish1], rule triple_thn [OF start2], rule triple_thn [OF repin_at],
        rule triple_thn [OF save_at], rule triple_bnd [OF final_check_at], rule checked)
  have started: "triple I (at_run None (?cs @ [CallStartNew]) True (?sh SRunning SPending)) (case started of
       Inl failed \<Rightarrow> first_start_failed en failed now
     | Inr _ \<Rightarrow> thn (on_step (finish_step Cutover True [] now)) (thn (on_step (start_step FinalCheck now))
      (thn (repin en) (thn save (bnd (final_check en) (\<lambda>chk. bnd (run_now en) (?chk chk)))))))
     (ended_with b None)" for started :: "string \<times> bool + unit" and now
    using ok first_start_failed_at [of "?cs @ [CallStartNew]"] by (cases started) (simp_all only: sum.case append_assoc append.simps)
  have go: "triple I (at_run None ?cs True (shape Running (past_checks SPending SPending) ((=) NotStarted) ((=) None) None False))
     (thn (on_d cutover_not_required) (bnd (run_now en) (\<lambda>now. thn (on_step (start_step Cutover now)) (thn save
       (bnd (cutover_call en CallStartNew (bk_start_new (en_backend en))) (\<lambda>started. bnd (run_now en) (\<lambda>now.
       case started of
         Inl failed \<Rightarrow> first_start_failed en failed now
       | Inr _ \<Rightarrow> thn (on_step (finish_step Cutover True [] now)) (thn (on_step (start_step FinalCheck now))
         (thn (repin en) (thn save (bnd (final_check en) (\<lambda>chk. bnd (run_now en) (?chk chk)))))))))))))
     (ended_with b None)"
    by (rule triple_thn [OF not_required_at], rule triple_bnd [OF now_at], rule triple_thn [OF start],
        rule triple_thn [OF save_at], rule triple_bnd [OF cutover_call_at], rule call_free_guard,
        simp add: call_free_def is_stop_def is_restore_def, rule triple_bnd [OF now_at], rule started)
  have no_plan: "triple I (at_run None ?cs True (shape Failed (skip_pending (past_checks SPending SPending)) ((=) NotStarted)
      ((=) None) None False)) (finish en) (ended_with b None)"
    by (rule finish_run_at) (simp add: run_ends.no_plan progress_statuses)
  show ?thesis
    unfolding first_deployment_def
  proof (rule triple_bnd [OF plan_and_pin_at])
    fix planned
    show "triple I (at_run None ?cs True (if planned
        then shape Running (past_checks SPending SPending) ((=) NotStarted) ((=) None) None False
        else shape Failed (skip_pending (past_checks SPending SPending)) ((=) NotStarted) ((=) None) None False))
      (if \<not> planned then finish en
       else thn (on_d cutover_not_required) (bnd (run_now en) (\<lambda>now. thn (on_step (start_step Cutover now)) (thn save
       (bnd (cutover_call en CallStartNew (bk_start_new (en_backend en))) (\<lambda>started. bnd (run_now en) (\<lambda>now.
       case started of
         Inl failed \<Rightarrow> first_start_failed en failed now
       | Inr _ \<Rightarrow> thn (on_step (finish_step Cutover True [] now)) (thn (on_step (start_step FinalCheck now))
         (thn (repin en) (thn save (bnd (final_check en) (\<lambda>chk. bnd (run_now en) (?chk chk)))))))))))))
      (ended_with b None)"
      using go no_plan by (cases planned) (simp_all only: if_True if_False not_True_eq_False not_False_eq_True)
  qed
qed

section \<open>Replacing the release that serves\<close>

lemma failed_end_at:
  assumes "\<And>rs oc d. restoration b p rs oc \<Longrightarrow>
      shape Failed (g(Recovery := recovery_step oc)) is_failed (recovered_as oc) rep False d \<Longrightarrow>
      run_ends b (Some p) (cs @ rs) d"
  shows "triple I (after_failure b p cs g rep) (finish en) (ended_with b (Some p))"
  unfolding after_failure_def
  by (rule triple_ex, rule triple_ex, rule triple_fact, rule finish_run_at, rule assms)

end

lemma stop_current_guard:
  assumes "at_run (Some p) cs True (replacing p SRunning SPending is_begun False) s" and "filter is_stop cs = []"
  shows "call_guard (CallStopCurrent p) (c_trace s)"
  using assms shape_step [of Running "past_checks SRunning SPending" is_begun "(=) None" "Some (pv_release p)" False "r_d s"]
  by (simp add: call_guard_def stop_guard_def at_run_def checks_passed_def shape_cutover shape_replaces)
    (auto dest: shape_cutover shape_replaces)

context run_invariant
begin

lemma cutover_failed_at:
  assumes "cs = check_calls @ [CallPlanRelease, CallStopCurrent p] \<or>
      cs = check_calls @ [CallPlanRelease, CallStopCurrent p, CallStartNew]"
  shows "triple I (at_run (Some p) cs True (replacing p SRunning SPending is_begun False))
    (thn (fail_after_cutover en Cutover FCutover failed False b) (finish en)) (ended_with b (Some p))"
proof -
  have "filter is_restore cs = []" using assms by (auto simp: check_calls_def is_restore_def)
  from fail_after_cutover_at [where f = "past_checks SRunning SPending" and st = Cutover and new_started = False, OF _ _ _ this]
  have "triple I (at_run (Some p) cs True (replacing p SRunning SPending is_begun False))
      (fail_after_cutover en Cutover FCutover failed False b)
      (\<lambda>_. after_failure b p cs (progress 3 SFailed) (Some (pv_release p)))"
    by (simp add: progress_statuses)
  then show ?thesis
    by (rule triple_thn, intro failed_end_at)
      (use assms in \<open>auto dest: run_ends.stop_failed run_ends.not_started simp del: statuses_upd\<close>)
qed

lemma switched_check_at:
  assumes cs: "cs = check_calls @ [CallPlanRelease, CallStopCurrent p, CallStartNew, CallFinalCheck]"
    and "healthy_note chk"
  shows "triple I (at_run (Some p) cs True (replacing p SSucceeded SRunning is_begun False))
    (thn (case chk of
            Inl failed \<Rightarrow> fail_after_cutover en FinalCheck FFinalCheck failed True b
          | Inr msg \<Rightarrow>
              bnd (run_now en) (\<lambda>now.
              thn (on_step (finish_step FinalCheck True msg now))
              (thn (on_d (confirm_cutover now)) (succeed en))))
      (finish en)) (ended_with b (Some p))"
proof (cases chk)
  case (Inl failed)
  have "filter is_restore cs = []" using cs by (auto simp: check_calls_def is_restore_def)
  from fail_after_cutover_at [where f = "past_checks SSucceeded SRunning" and st = FinalCheck and new_started = True, OF _ _ _ this]
  have failing: "triple I (at_run (Some p) cs True (replacing p SSucceeded SRunning is_begun False))
      (fail_after_cutover en FinalCheck FFinalCheck failed True b)
      (\<lambda>_. after_failure b p (cs @ [CallStopNew]) (progress 4 SFailed) (Some (pv_release p)))"
    by (simp add: progress_statuses)
  show ?thesis
    unfolding Inl sum.case
    by (rule triple_thn [OF failing], rule failed_end_at)
      (use cs in \<open>auto dest: run_ends.unhealthy simp del: statuses_upd\<close>)
next
  case (Inr msg)
  with assms obtain ev where ev: "msg = evidence_note ev" "is_healthy ev" by (auto simp: healthy_note_def)
  have fin: "triple I (at_run (Some p) cs True (replacing p SSucceeded SRunning is_begun False))
      (on_step (finish_step FinalCheck True msg now))
      (\<lambda>_. at_run (Some p) cs False (replacing p SSucceeded SSucceeded is_begun True))" for now
    using finish_healthy_at [of "past_checks SSucceeded SRunning" ev] ev by simp
  have end_run: "triple I (at_run (Some p) cs True (shape Succeeded (skip_pending (past_checks SSucceeded SSucceeded))
      is_confirmed ((=) None) (Some (pv_release p)) True)) (finish en) (ended_with b (Some p))"
    by (rule finish_run_at) (simp add: cs run_ends.switched progress_statuses)
  show ?thesis
    unfolding Inr sum.case
    by (rule triple_thn [OF triple_bnd [OF now_at triple_thn [OF fin triple_thn [OF confirm_at succeed_at]]] end_run])
qed

lemma switch_over_at:
  "triple I (at_run (Some p) (check_calls @ [CallPlanRelease]) True (replacing p SRunning SPending is_begun False))
    (switch_over en p b) (ended_with b (Some p))"
proof -
  let ?cs = "(check_calls @ [CallPlanRelease]) @ [CallStopCurrent p]"
  let ?sh = "\<lambda>cu fi. replacing p cu fi is_begun False"
  have finish1: "triple I (at_run (Some p) cs False (?sh SRunning SPending)) (on_step (finish_step Cutover True [] now))
      (\<lambda>_. at_run (Some p) cs False (?sh SSucceeded SPending))" for cs now
    using finish_at [of "past_checks SRunning SPending" Cutover False "Some p" cs False Running is_begun
        "(=) None" "Some (pv_release p)" True] by simp
  have start2: "triple I (at_run (Some p) cs False (?sh SSucceeded SPending)) (on_step (start_step FinalCheck now))
      (\<lambda>_. at_run (Some p) cs False (?sh SSucceeded SRunning))" for cs now
    using start_at [of "past_checks SSucceeded SPending" FinalCheck False] by simp
  let ?chk = "\<lambda>chk. thn (case chk of
            Inl failed \<Rightarrow> fail_after_cutover en FinalCheck FFinalCheck failed True b
          | Inr msg \<Rightarrow> bnd (run_now en) (\<lambda>now. thn (on_step (finish_step FinalCheck True msg now))
              (thn (on_d (confirm_cutover now)) (succeed en)))) (finish en)"
  have checked: "triple I (\<lambda>s. healthy_note chk \<and>
      at_run (Some p) ((?cs @ [CallStartNew]) @ [CallFinalCheck]) True (?sh SSucceeded SRunning) s)
      (?chk chk) (ended_with b (Some p))" for chk
    by (rule triple_fact, rule switched_check_at) simp_all
  have ok: "triple I (at_run (Some p) (?cs @ [CallStartNew]) True (?sh SRunning SPending))
     (thn (repin en) (bnd (run_now en) (\<lambda>now. thn (on_step (finish_step Cutover True [] now))
       (thn (on_step (start_step FinalCheck now)) (thn save (bnd (final_check en) ?chk)))))) (ended_with b (Some p))"
    by (rule triple_thn [OF repin_at], rule triple_bnd [OF now_at], rule triple_thn [OF finish1],
        rule triple_thn [OF start2], rule triple_thn [OF save_at], rule triple_bnd [OF final_check_at], rule checked)
  have started: "triple I (at_run (Some p) (?cs @ [CallStartNew]) True (?sh SRunning SPending)) (case started of
       Inl failed \<Rightarrow> thn (fail_after_cutover en Cutover FCutover failed False b) (finish en)
     | Inr _ \<Rightarrow> thn (repin en) (bnd (run_now en) (\<lambda>now. thn (on_step (finish_step Cutover True [] now))
       (thn (on_step (start_step FinalCheck now)) (thn save (bnd (final_check en) ?chk)))))) (ended_with b (Some p))"
    for started :: "string \<times> bool + unit"
    using ok cutover_failed_at [of "?cs @ [CallStartNew]"] by (cases started) (simp_all only: sum.case append_assoc append.simps simp_thms)
  have start: "triple I (at_run (Some p) ?cs True (?sh SRunning SPending))
      (bnd (cutover_call en CallStartNew (bk_start_new (en_backend en))) (\<lambda>started. case started of
       Inl failed \<Rightarrow> thn (fail_after_cutover en Cutover FCutover failed False b) (finish en)
     | Inr _ \<Rightarrow> thn (repin en) (bnd (run_now en) (\<lambda>now. thn (on_step (finish_step Cutover True [] now))
       (thn (on_step (start_step FinalCheck now)) (thn save (bnd (final_check en) ?chk))))))) (ended_with b (Some p))"
    by (rule triple_bnd [OF cutover_call_at], rule call_free_guard,
        simp add: call_free_def is_stop_def is_restore_def, rule started)
  have stopped: "triple I (at_run (Some p) ?cs True (?sh SRunning SPending)) (case stopped of
       Inl failed \<Rightarrow> thn (fail_after_cutover en Cutover FCutover failed False b) (finish en)
     | Inr _ \<Rightarrow> bnd (cutover_call en CallStartNew (bk_start_new (en_backend en))) (\<lambda>started. case started of
         Inl failed \<Rightarrow> thn (fail_after_cutover en Cutover FCutover failed False b) (finish en)
       | Inr _ \<Rightarrow> thn (repin en) (bnd (run_now en) (\<lambda>now. thn (on_step (finish_step Cutover True [] now))
         (thn (on_step (start_step FinalCheck now)) (thn save (bnd (final_check en) ?chk))))))) (ended_with b (Some p))"
    for stopped :: "string \<times> bool + unit"
    using start cutover_failed_at [of ?cs] by (cases stopped) (simp_all only: sum.case append_assoc append.simps simp_thms)
  have "filter is_stop (check_calls @ [CallPlanRelease]) = []" by (simp add: check_calls_def is_stop_def)
  then show ?thesis
    unfolding switch_over_def
    by (intro triple_bnd [OF cutover_call_at] stopped stop_current_guard)
qed

lemma replacement_at:
  "triple I (at_run (Some p) check_calls True
      (shape Running (past_checks SPending SPending) ((=) NotStarted) ((=) None) None False))
    (replacement en (pv_release p)) (ended_with (restore_budget_ms (cfg_policy (en_cfg en))) (Some p))"
    (is "triple I ?P _ ?Q")
proof -
  let ?b = "restore_budget_ms (cfg_policy (en_cfg en))"
  let ?cs = "check_calls @ [CallPlanRelease]"
  have why: "triple I ?P (why_not en q) (\<lambda>_. ?P)" for q
    unfolding why_not_def
  proof (rule triple_bnd [OF peek_at])
    fix supported
    show "triple I ?P (if \<not> supported then ret (Some Unsupported)
      else bnd (ask (en_confirm en q)) (\<lambda>confirmed. ret (if \<not> confirmed then Some NotConfirmed else None))) (\<lambda>_. ?P)"
      by (cases supported) (simp_all add: triple_ret0 triple_bnd [OF ask_at triple_ret0])
  qed
  have refused: "triple I ?P (thn (modify (\<lambda>s. s\<lparr>r_prepared := x\<rparr>)) (thn (end_cancelled en) (finish en))) ?Q" for x
  proof -
    have "triple I ?P (modify (\<lambda>s. s\<lparr>r_prepared := x\<rparr>)) (\<lambda>_. ?P)"
      by (rule tripleI) (simp add: modify_def at_run_def noted)
    moreover have "triple I (at_run (Some p) check_calls True (shape Cancelled (skip_pending (past_checks SPending SPending))
        ((=) NotStarted) ((=) None) None False)) (finish en) ?Q"
      by (rule finish_run_at)
        (use run_ends.cancelled [of 3 _ ?b "Some p"] in \<open>simp add: check_calls_def progress_statuses\<close>)
    ultimately show ?thesis by (rule triple_thn [OF _ triple_thn [OF end_cancelled_at]])
  qed
  have start: "triple I (at_run (Some p) cs False (replacing p SPending SPending is_begun False))
      (on_step (start_step Cutover now)) (\<lambda>_. at_run (Some p) cs False (replacing p SRunning SPending is_begun False))" for cs now
    using start_at [of "past_checks SPending SPending" Cutover False] by simp
  have go: "triple I (at_run (Some p) ?cs True (shape Running (past_checks SPending SPending) ((=) NotStarted) ((=) None) None False))
     (bnd (run_now en) (\<lambda>now. thn (set_replaces (pv_release p)) (thn (on_d (begin_cutover now))
       (thn (on_step (start_step Cutover now)) (thn save (bnd (gets r_previous) (\<lambda>prev.
            case prev of None \<Rightarrow> panic | Some prev \<Rightarrow> switch_over en prev ?b))))))) ?Q"
  proof (rule triple_bnd [OF now_at], rule triple_thn [OF set_replaces_at], rule triple_thn [OF begin_cutover_at],
      rule triple_thn [OF start], rule triple_thn [OF save_at], rule triple_gets_bnd)
    fix prev
    show "triple I (\<lambda>s. at_run (Some p) ?cs True (replacing p SRunning SPending is_begun False) s \<and> prev = r_previous s)
        (case prev of None \<Rightarrow> panic | Some prev \<Rightarrow> switch_over en prev ?b) ?Q"
      by (rule triple_pre [where P = "\<lambda>s. prev = Some p \<and> at_run (Some p) ?cs True (replacing p SRunning SPending is_begun False) s"],
          simp add: at_run_def, rule triple_fact, simp add: switch_over_at)
  qed
  have no_plan: "triple I (at_run (Some p) ?cs True (shape Failed (skip_pending (past_checks SPending SPending)) ((=) NotStarted)
      ((=) None) None False)) (finish en) ?Q"
    by (rule finish_run_at) (simp add: run_ends.no_plan progress_statuses)
  have planned: "triple I (at_run (Some p) ?cs True (if planned
        then shape Running (past_checks SPending SPending) ((=) NotStarted) ((=) None) None False
        else shape Failed (skip_pending (past_checks SPending SPending)) ((=) NotStarted) ((=) None) None False))
      (if \<not> planned then finish en
       else bnd (run_now en) (\<lambda>now. thn (set_replaces (pv_release p)) (thn (on_d (begin_cutover now))
       (thn (on_step (start_step Cutover now)) (thn save (bnd (gets r_previous) (\<lambda>prev.
            case prev of None \<Rightarrow> panic | Some prev \<Rightarrow> switch_over en prev ?b))))))) ?Q" for planned
    using go no_plan by (cases planned) (simp_all only: if_True if_False not_True_eq_False not_False_eq_True)
  show ?thesis
    unfolding replacement_def
  proof (rule triple_gets_bnd, rule triple_pre [where P = ?P], simp, rule triple_bnd [OF why])
    fix q and reason :: "not_cut_over option"
    show "triple I ?P (case reason of
        None \<Rightarrow> bnd (plan_and_pin en) (\<lambda>planned. if \<not> planned then finish en
          else bnd (run_now en) (\<lambda>now. thn (set_replaces (pv_release p)) (thn (on_d (begin_cutover now))
           (thn (on_step (start_step Cutover now)) (thn save (bnd (gets r_previous) (\<lambda>prev.
            case prev of None \<Rightarrow> panic | Some prev \<Rightarrow> switch_over en prev ?b)))))))
      | Some w \<Rightarrow> thn (modify (\<lambda>s. s\<lparr>r_prepared := Some \<lparr>pp_plan = q, pp_why = w\<rparr>\<rparr>))
          (thn (end_cancelled en) (finish en))) ?Q"
      using refused triple_bnd [OF plan_and_pin_at planned] by (cases reason) (simp_all only: option.case)
  qed
qed

end

section \<open>The run as a whole\<close>

text \<open>What a run is started on: a queued record whose steps are all pending.\<close>

definition ready :: "deployment \<Rightarrow> bool" where
  "ready d \<longleftrightarrow> d_status d = Queued \<and> d_cutover d = NotStarted \<and> d_recovery d = None \<and> steps_ok d \<and>
     list_all (\<lambda>r. sr_status r = SPending) (d_steps d)"

abbreviation all_pending :: "step \<Rightarrow> step_status" where
  "all_pending \<equiv> statuses SPending SPending SPending SPending SPending SPending"

lemmas progress_one = progress_statuses(2) [unfolded One_nat_def]

lemma take_three: "take 2 [x, y, z] = [x, y]" "take 3 [x, y, z] = [x, y, z]"
  by (simp_all add: numeral_eq_Suc)

lemma ready_shape: "ready d \<Longrightarrow> shape Queued all_pending ((=) NotStarted) ((=) None) None False d"
proof -
  assume r: "ready d"
  have "step_status_of d s = Some SPending" for s
  proof -
    from r steps_ok_find [of d s] obtain x where x: "find_step d s = Some x" by (auto simp: ready_def)
    with find_step_Some [OF x] r show ?thesis by (auto simp: step_status_of_def ready_def list_all_iff)
  qed
  moreover have "all_pending s = SPending" for s by (cases s) simp_all
  ultimately show ?thesis using r by (simp add: shape_def phase_def steps_are_def ready_def)
qed

context run_invariant
begin

lemma early_end_at:
  assumes "\<And>d. shape Cancelled (skip_pending f) ((=) NotStarted) ((=) None) None False d \<Longrightarrow> run_ends b pv cs d"
    and "\<And>d. shape Failed (skip_pending (f(st := SFailed))) ((=) NotStarted) ((=) None) None False d \<Longrightarrow>
      run_ends b pv (cs @ [c]) d"
    and "triple I (at_run pv (cs @ [c]) True (shape Running (f(st := SSucceeded)) ((=) NotStarted) ((=) None) None False))
      k (ended_with b pv)"
  shows "triple I (\<lambda>s. if go
        then at_run pv (cs @ [c]) True (shape Running (f(st := SSucceeded)) ((=) NotStarted) ((=) None) None False) s
        else at_run pv cs True (shape Cancelled (skip_pending f) ((=) NotStarted) ((=) None) None False) s \<or>
             at_run pv (cs @ [c]) True (shape Failed (skip_pending (f(st := SFailed))) ((=) NotStarted) ((=) None) None False) s)
     (if \<not> go then finish en else k) (ended_with b pv)"
  using assms(3) triple_either [OF finish_run_at [OF assms(1)] finish_run_at [OF assms(2)]]
  by (cases go) simp_all

lemma run_confirmed_at:
  assumes "previous = map_option pv_release pv"
  shows "triple I (at_run pv [] False ready) (run_confirmed en previous)
    (ended_with (restore_budget_ms (cfg_policy (en_cfg en))) pv)"
proof -
  let ?b = "restore_budget_ms (cfg_policy (en_cfg en))"
  let ?run = "\<lambda>so bu pr. shape Running (statuses so bu pr SPending SPending SPending) ((=) NotStarted) ((=) None) None False"
  have start: "triple I (at_run pv [] False ready) (run_transition en Running)
      (\<lambda>_. at_run pv [] False (?run SPending SPending SPending))"
    using at_pre [OF run_transition_at [of Queued Running pv "[]" False all_pending] ready_shape]
    by (simp add: is_terminal_def)
  have cancelled: "triple I (at_run pv cs True (?run SSucceeded SSucceeded SSucceeded)) (thn (end_cancelled en) (finish en))
      (ended_with ?b pv)" if "cs = check_calls" for cs
    by (rule triple_thn [OF end_cancelled_at], rule finish_run_at)
      (use run_ends.cancelled [of 3 _ ?b pv] that in \<open>simp add: check_calls_def progress_statuses\<close>)
  have cut: "triple I (at_run pv cs True (?run SSucceeded SSucceeded SSucceeded))
      (bnd (ask (en_cancel en)) (\<lambda>cancelled. if cancelled then thn (end_cancelled en) (finish en)
       else (case previous of None \<Rightarrow> first_deployment en | Some p \<Rightarrow> replacement en p))) (ended_with ?b pv)"
    if cs: "cs = check_calls" for cs
  proof (rule triple_bnd [OF ask_at])
    fix stop
    show "triple I (at_run pv cs True (?run SSucceeded SSucceeded SSucceeded)) (if stop then thn (end_cancelled en) (finish en)
       else (case previous of None \<Rightarrow> first_deployment en | Some p \<Rightarrow> replacement en p)) (ended_with ?b pv)"
    proof (cases stop)
      case True
      with cancelled [OF cs] show ?thesis by simp
    next
      case False
      then show ?thesis
        using assms first_deployment_at replacement_at by (cases pv) (simp_all add: cs)
    qed
  qed
  note ends = run_ends.cancelled [of _ _ ?b pv] run_ends.failed_early [of _ _ ?b pv]
  have third: "triple I (at_run pv [CallPrepareSource, CallBuild] True (?run SSucceeded SSucceeded SPending))
     (bnd (pre_step en PreliminaryCheck FPreliminaryCheck CallPreliminaryCheck (judged_check en)) (\<lambda>go.
      if \<not> go then finish en
      else bnd (ask (en_cancel en)) (\<lambda>cancelled. if cancelled then thn (end_cancelled en) (finish en)
       else (case previous of None \<Rightarrow> first_deployment en | Some p \<Rightarrow> replacement en p)))) (ended_with ?b pv)"
    by (rule triple_bnd [OF pre_step_at early_end_at])
      (use ends [of 2] cut in \<open>simp_all add: check_calls_def take_three progress_statuses call_free_def is_stop_def
         is_restore_def\<close>)
  have second: "triple I (at_run pv [CallPrepareSource] True (?run SSucceeded SPending SPending))
     (bnd (pre_step en Build FBuild CallBuild (no_evidence (bk_build (en_backend en)))) (\<lambda>go. if \<not> go then finish en
      else bnd (pre_step en PreliminaryCheck FPreliminaryCheck CallPreliminaryCheck (judged_check en)) (\<lambda>go.
      if \<not> go then finish en
      else bnd (ask (en_cancel en)) (\<lambda>cancelled. if cancelled then thn (end_cancelled en) (finish en)
       else (case previous of None \<Rightarrow> first_deployment en | Some p \<Rightarrow> replacement en p))))) (ended_with ?b pv)"
    by (rule triple_bnd [OF pre_step_at early_end_at])
      (use ends [of 1] third in \<open>simp_all add: check_calls_def progress_statuses progress_one call_free_def is_stop_def is_restore_def\<close>)
  have first: "triple I (at_run pv [] True (?run SPending SPending SPending))
     (bnd (pre_step en Source FSource CallPrepareSource (no_evidence (bk_prepare_source (en_backend en)))) (\<lambda>go.
      if \<not> go then finish en
      else bnd (pre_step en Build FBuild CallBuild (no_evidence (bk_build (en_backend en)))) (\<lambda>go. if \<not> go then finish en
      else bnd (pre_step en PreliminaryCheck FPreliminaryCheck CallPreliminaryCheck (judged_check en)) (\<lambda>go.
      if \<not> go then finish en
      else bnd (ask (en_cancel en)) (\<lambda>cancelled. if cancelled then thn (end_cancelled en) (finish en)
       else (case previous of None \<Rightarrow> first_deployment en | Some p \<Rightarrow> replacement en p)))))) (ended_with ?b pv)"
    by (rule triple_bnd [OF pre_step_at early_end_at])
      (use ends [of 0] second in \<open>simp_all add: check_calls_def progress_statuses call_free_def is_stop_def is_restore_def\<close>)
  show ?thesis
    unfolding run_confirmed_def
    by (rule triple_thn [OF start], rule triple_thn [OF save_at], rule first)
qed

end

section \<open>The explicit recovery\<close>

definition recoverable :: "previous_release \<Rightarrow> deployment \<Rightarrow> bool" where
  "recoverable p d \<longleftrightarrow> can_recover_explicitly d \<and> steps_ok d \<and> d_replaces d = Some (pv_release p)"

text \<open>
  An explicit recovery either finds the port of the previous release held and changes nothing, or makes
  one restoration and records its outcome in the interrupted record.
\<close>

definition explicit_blocked :: "deployment \<Rightarrow> previous_release \<Rightarrow> report \<Rightarrow> 'w run \<Rightarrow> bool" where
  "explicit_blocked d0 p rep s \<longleftrightarrow>
     pv_config p \<noteq> None \<and> at_run (Some p) [CallRestoreBlockers] False ((=) d0) s \<and>
     (\<exists>found. found \<noteq> [] \<and> rep = run_report found (Some PausedFailedCutover) s)"

definition explicit_done :: "u64 \<Rightarrow> deployment \<Rightarrow> previous_release \<Rightarrow> report \<Rightarrow> 'w run \<Rightarrow> bool" where
  "explicit_done b d0 p rep s \<longleftrightarrow>
     (\<exists>rs oc. restoration b p rs oc \<and>
        at_run (Some p) ((if pv_config p = None then [] else [CallRestoreBlockers]) @ rs) True
          (shape Interrupted ((\<lambda>x. the (step_status_of d0 x))(Recovery := recovery_step oc)) is_failed
             (recovered_as oc) (Some (pv_release p)) False) s \<and>
        rep = run_report [] (Some PausedFailedCutover) s)"

lemma explicit_doneI:
  "restoration b p rs oc \<Longrightarrow>
   at_run (Some p) ((if pv_config p = None then [] else [CallRestoreBlockers]) @ rs) True
     (shape Interrupted ((\<lambda>x. the (step_status_of d0 x))(Recovery := recovery_step oc)) is_failed
        (recovered_as oc) (Some (pv_release p)) False) s \<Longrightarrow>
   explicit_done b d0 p (run_report [] (Some PausedFailedCutover) s) s"
  unfolding explicit_done_def by blast

lemma recoverable_shape:
  assumes "recoverable p d"
  shows "shape Interrupted (\<lambda>x. the (step_status_of d x)) is_begun ((=) None) (Some (pv_release p)) False d"
proof -
  have "step_status_of d s = Some (the (step_status_of d s))" for s
    using assms steps_ok_find [of d s] by (auto simp: recoverable_def step_status_of_def)
  with assms show ?thesis
    by (simp add: recoverable_def can_recover_explicitly_def shape_def phase_def steps_are_def)
qed

context run_invariant
begin

lemma restore_now_at:
  assumes d0: "recoverable p d0" and cs: "cs = (if pv_config p = None then [] else [CallRestoreBlockers])"
  shows "triple I (at_run (Some p) cs False ((=) d0)) (restore_now en b) (explicit_done b d0 p)"
proof -
  let ?f = "\<lambda>x. the (step_status_of d0 x)"
  let ?A = "shape Interrupted (?f(Recovery := SRunning)) is_failed (recovered_as InProgress) (Some (pv_release p)) False"
  have sk: "?f Recovery = SSkipped" using d0 by (simp add: recoverable_def can_recover_explicitly_def)
  have begin_it: "triple I (at_run (Some p) cs False ((=) d0)) (on_d (begin_explicit_recovery b now))
      (\<lambda>_. at_run (Some p) cs False ?A)" for now
    by (rule at_pre [OF explicit_at [of ?f, OF sk]]) (use recoverable_shape [OF d0] in simp)
  have "filter is_restore cs = []" using cs by (simp add: is_restore_def)
  note restore = restore_phase_at [OF this]
  have rest: "triple I (after_restoration b p cs ?A oc) (bnd (run_now en) (\<lambda>now.
     thn (on_d (finish_recovery oc now))
     (thn (on_step (finish_step Recovery (service_restored oc) (outcome_str oc) now))
     (thn save (gets (run_report [] (Some PausedFailedCutover))))))) (explicit_done b d0 p)" for oc
    unfolding after_restoration_def
  proof (rule triple_ex, rule triple_fact)
    fix rs
    assume r: "restoration b p rs oc"
    then have oc: "oc \<noteq> InProgress" by (auto elim: restorationE)
    let ?B = "shape Interrupted (?f(Recovery := recovery_step oc)) is_failed (recovered_as oc) (Some (pv_release p)) False"
    have fin: "triple I (at_run (Some p) (cs @ rs) False
          (shape Interrupted (?f(Recovery := SRunning)) is_failed (recovered_as oc) (Some (pv_release p)) False))
       (on_step (finish_step Recovery (service_restored oc) (outcome_str oc) now)) (\<lambda>_. at_run (Some p) (cs @ rs) False ?B)"
      for now
      using finish_at [of "?f(Recovery := SRunning)" Recovery False "Some p" "cs @ rs" False Interrupted is_failed
          "recovered_as oc" "Some (pv_release p)" "service_restored oc"]
      by (simp add: finished_status)
    have report: "triple I (at_run (Some p) (cs @ rs) True ?B) (gets (run_report [] (Some PausedFailedCutover)))
        (explicit_done b d0 p)"
      using explicit_doneI [OF r] by (intro tripleI) (simp add: gets_def cs)
    show "triple I (at_run (Some p) (cs @ rs) True ?A) (bnd (run_now en) (\<lambda>now.
     thn (on_d (finish_recovery oc now))
     (thn (on_step (finish_step Recovery (service_restored oc) (outcome_str oc) now))
     (thn save (gets (run_report [] (Some PausedFailedCutover))))))) (explicit_done b d0 p)"
      by (rule triple_bnd [OF now_at], rule triple_thn [OF finish_recovery_at [OF oc]], rule triple_thn [OF fin],
          rule triple_thn [OF save_at report])
  qed
  show ?thesis
    unfolding restore_now_def
    by (rule triple_bnd [OF now_at], rule triple_thn [OF begin_it], rule triple_thn [OF save_at],
        rule triple_bnd [OF restore], rule rest)
qed

lemma recover_run_at:
  assumes d0: "recoverable p d0"
  shows "triple I (at_run (Some p) [] False ((=) d0)) (recover_run en p)
    (\<lambda>rep s. explicit_blocked d0 p rep s \<or>
      explicit_done (restore_budget_ms (cfg_policy (en_cfg en))) d0 p rep s)"
    (is "triple I _ _ ?Q")
proof -
  let ?b = "restore_budget_ms (cfg_policy (en_cfg en))"
  have restored: "triple I (at_run (Some p) cs False ((=) d0)) (restore_now en ?b) ?Q"
    if "cs = (if pv_config p = None then [] else [CallRestoreBlockers])" for cs
    by (rule triple_post [OF restore_now_at [OF d0 that]]) simp
  have checked: "triple I (at_run (Some p) [] False ((=) d0)) (bnd (exec en Recovery ?b CallRestoreBlockers
        (\<lambda>x. bk_restore_blockers (en_backend en) x p)) (\<lambda>(raw, checked, elapsed).
       let found = (case raw of Inl _ \<Rightarrow> [] | Inr bs \<Rightarrow> bs) @
         (case checked of Inl e \<Rightarrow> [''could not check what holds the previous release's port: '' @ se_message e]
          | Inr _ \<Rightarrow> [])
       in if found \<noteq> [] then gets (run_report found (Some PausedFailedCutover)) else restore_now en ?b)) ?Q"
    if cfg: "pv_config p \<noteq> None"
    unfolding Let_def
  proof (rule exec_free_bnd)
    fix raw checked :: "step_error + string list" and elapsed
    have "triple I (at_run (Some p) ([] @ [CallRestoreBlockers]) False ((=) d0))
       (gets (run_report found (Some PausedFailedCutover))) ?Q" if "found \<noteq> []" for found
      using that cfg by (intro tripleI) (auto simp: gets_def explicit_blocked_def)
    with restored [of "[CallRestoreBlockers]"] cfg
    show "triple I (at_run (Some p) ([] @ [CallRestoreBlockers]) False ((=) d0))
     (if (case raw of Inl _ \<Rightarrow> [] | Inr bs \<Rightarrow> bs) @
         (case checked of Inl e \<Rightarrow> [''could not check what holds the previous release's port: '' @ se_message e]
          | Inr _ \<Rightarrow> []) \<noteq> []
      then gets (run_report ((case raw of Inl _ \<Rightarrow> [] | Inr bs \<Rightarrow> bs) @
         (case checked of Inl e \<Rightarrow> [''could not check what holds the previous release's port: '' @ se_message e]
          | Inr _ \<Rightarrow> [])) (Some PausedFailedCutover)) else restore_now en ?b) ?Q"
      by simp
  qed (simp add: call_free_def is_stop_def is_restore_def)
  show ?thesis
    unfolding recover_run_def Let_def
  proof (rule triple_gets_bnd, rule triple_pre [where P = "\<lambda>s. d = d0 \<and> at_run (Some p) [] False ((=) d0) s" for d],
      simp add: at_run_def, rule triple_fact, goal_cases)
    case (1 d)
    show ?case
    proof (cases "pv_config p")
      case None
      with 1 d0 show ?thesis using restored [of "[]"] by (simp add: recoverable_def)
    next
      case (Some c)
      with 1 d0 show ?thesis using checked by (simp add: recoverable_def Let_def)
    qed
  qed
qed

end

end
