(* ===== verification/EngineHistory.thy ===== *)
theory EngineHistory
  imports EngineEnds
begin

text \<open>
  What holds of every run at every moment, the moment of a crash included: the journal and the ledger in
  memory agree, the durable records form a chain of operations on the record, and every destructive call
  was preceded by its durable justification. This is the instance of the interface of a run's
  invariants that the properties of the engine rest on.
\<close>

section \<open>Prefixes of a trace\<close>

definition all_prefix :: "(event list \<Rightarrow> event \<Rightarrow> bool) \<Rightarrow> event list \<Rightarrow> bool" where
  "all_prefix Q tr \<longleftrightarrow> (\<forall>us e vs. tr = us @ e # vs \<longrightarrow> Q us e)"

lemma all_prefix_Nil [simp]: "all_prefix Q []"
  by (simp add: all_prefix_def)

lemma all_prefix_snoc [simp]: "all_prefix Q (tr @ [e]) \<longleftrightarrow> all_prefix Q tr \<and> Q tr e"
proof
  assume l: "all_prefix Q (tr @ [e])"
  have "Q us x" if "tr = us @ x # vs" for us x vs
    using l that unfolding all_prefix_def by (metis append_Cons append_assoc)
  moreover have "Q tr e" using l unfolding all_prefix_def by blast
  ultimately show "all_prefix Q tr \<and> Q tr e" by (simp add: all_prefix_def)
next
  assume r: "all_prefix Q tr \<and> Q tr e"
  show "all_prefix Q (tr @ [e])"
    unfolding all_prefix_def
  proof (intro allI impI)
    fix us x vs
    assume eq: "tr @ [e] = us @ x # vs"
    show "Q us x"
    proof (cases vs rule: rev_cases)
      case Nil
      with eq r show ?thesis by simp
    next
      case (snoc ws y)
      with eq have "tr = us @ x # ws" by simp
      with r show ?thesis by (simp add: all_prefix_def)
    qed
  qed
qed

lemma all_prefixD: "all_prefix Q tr \<Longrightarrow> tr = us @ e # vs \<Longrightarrow> Q us e"
  unfolding all_prefix_def by blast

section \<open>The history of a run\<close>

text \<open>
  A removal follows at once the durable record of its attempt, and names the object of that entry's
  receipt, as the durable ledger has it.
\<close>

definition removal_justified :: "ledger_record list \<Rightarrow> resource_kind \<Rightarrow> string \<Rightarrow> event list \<Rightarrow> bool" where
  "removal_justified rs0 k i us \<longleftrightarrow>
     (\<exists>vs ref t l. us = vs @ [EvRecord (CleanupAttempt (snd ref) (fst ref) t)] \<and>
        led_replay (rs0 @ records us) = Inr l \<and> has_id l ref i \<and> rk_kind (snd ref) = k)"

definition event_ok :: "ledger_record list \<Rightarrow> event list \<Rightarrow> event \<Rightarrow> bool" where
  "event_ok rs0 us e \<longleftrightarrow>
     (case e of EvCall c \<Rightarrow> call_guard c us | EvRemove k i \<Rightarrow> removal_justified rs0 k i us | _ \<Rightarrow> True)"

definition history :: "ledger_record list \<Rightarrow> deployment \<Rightarrow> journal \<Rightarrow> 'w run \<Rightarrow> bool" where
  "history rs0 d0 j0 s \<longleftrightarrow>
     led_replay (rs0 @ records (c_trace s)) = Inr (c_ledger s) \<and>
     j_ledger_records (c_journal s) = j_ledger_records j0 @ records (c_trace s) \<and>
     j_snapshots (c_journal s) = j_snapshots j0 @ persists (c_trace s) \<and>
     sorted_wrt dep_op\<^sup>*\<^sup>* (d0 # persists (c_trace s) @ [r_d s]) \<and>
     all_prefix (event_ok rs0) (c_trace s)"

lemma history_other:
  "history rs0 d0 j0 s \<Longrightarrow> c_trace t = c_trace s \<Longrightarrow> c_ledger t = c_ledger s \<Longrightarrow> c_journal t = c_journal s \<Longrightarrow>
   r_d t = r_d s \<Longrightarrow> history rs0 d0 j0 t"
  by (simp add: history_def)

lemma j_gate_keeps: "j_gate j = Inr j' \<Longrightarrow> j_snapshots j' = j_snapshots j \<and> j_ledger_records j' = j_ledger_records j"
  by (auto simp: j_gate_def split: if_splits)

lemma j_record_Inr:
  "j_record r j = Inr j' \<Longrightarrow> j_ledger_records j' = j_ledger_records j @ [r] \<and> j_snapshots j' = j_snapshots j"
  by (auto simp: j_record_def bind_res_Inr_iff dest!: j_gate_keeps)

lemma j_persist_Inr:
  "j_persist d j = Inr j' \<Longrightarrow> j_snapshots j' = j_snapshots j @ [d] \<and> j_ledger_records j' = j_ledger_records j"
  by (auto simp: j_persist_def bind_res_Inr_iff dest!: j_gate_keeps)

lemma history_record:
  assumes H: "history rs0 d0 j0 s" and l: "led_apply (c_ledger s) r = Inr l" and j: "j_record r (c_journal s) = Inr j"
  shows "history rs0 d0 j0 (trace_add (EvRecord r) (s\<lparr>c_journal := j, c_ledger := l\<rparr>))"
proof -
  have "led_replay ((rs0 @ records (c_trace s)) @ [r]) = Inr l"
    using H l by (simp only: led_replay_snoc history_def) blast
  then show ?thesis using H j_record_Inr [OF j] by (simp add: history_def trace_add_def event_ok_def)
qed

lemma sorted_wrt_snoc: "sorted_wrt P (xs @ [x]) \<longleftrightarrow> sorted_wrt P xs \<and> (\<forall>y \<in> set xs. P y x)"
  by (auto simp: sorted_wrt_append)

lemma history_change:
  assumes H: "history rs0 d0 j0 s" and op: "dep_op (r_d s) d"
  shows "history rs0 d0 j0 (s\<lparr>r_d := d\<rparr>)"
proof -
  have "sorted_wrt dep_op\<^sup>*\<^sup>* ((d0 # persists (c_trace s)) @ [r_d s])" using H by (simp add: history_def)
  then have "sorted_wrt dep_op\<^sup>*\<^sup>* ((d0 # persists (c_trace s)) @ [d])"
    unfolding sorted_wrt_snoc using op by (meson rtranclp.rtrancl_into_rtrancl)
  with H show ?thesis by (simp add: history_def)
qed

lemma history_persist:
  assumes H: "history rs0 d0 j0 s" and j: "j_persist (r_d s) (c_journal s) = Inr j"
  shows "history rs0 d0 j0 (trace_add (EvPersist (r_d s)) (s\<lparr>c_journal := j\<rparr>))"
proof -
  have "sorted_wrt dep_op\<^sup>*\<^sup>* ((d0 # persists (c_trace s)) @ [r_d s])" using H by (simp add: history_def)
  then have "sorted_wrt dep_op\<^sup>*\<^sup>* (((d0 # persists (c_trace s)) @ [r_d s]) @ [r_d s])"
    unfolding sorted_wrt_snoc by simp
  with H j_persist_Inr [OF j] show ?thesis by (simp add: history_def trace_add_def event_ok_def)
qed

lemma history_removal:
  assumes H: "history rs0 d0 j0 s" and g: "removal_guard k i s"
  shows "history rs0 d0 j0 (trace_add (EvRemove k i) s)"
  using assms unfolding history_def removal_guard_def
  by (auto simp: trace_add_def event_ok_def removal_justified_def)

interpretation hist: run_invariant "history rs0 d0 j0" for rs0 d0 j0
proof
  fix s :: "'a run"
  assume H: "history rs0 d0 j0 s"
  show "led_inv (c_ledger s)" using H led_replay_inv [of "rs0 @ records (c_trace s)"] by (simp add: history_def)
  show "history rs0 d0 j0 (s\<lparr>c_world := w\<rparr>)" for w by (rule history_other [OF H]) simp_all
  show "history rs0 d0 j0 (trace_add EvList s)" using H by (simp add: history_def trace_add_def event_ok_def)
  show "history rs0 d0 j0 (trace_add (EvCall c) s)" if "call_guard c (c_trace s)" for c
    using H that by (simp add: history_def trace_add_def event_ok_def)
  show "history rs0 d0 j0 (s\<lparr>r_evidence := x\<rparr>)" for x by (rule history_other [OF H]) simp_all
  show "history rs0 d0 j0 (s\<lparr>r_logs := x\<rparr>)" for x by (rule history_other [OF H]) simp_all
  show "history rs0 d0 j0 (s\<lparr>r_warnings := x\<rparr>)" for x by (rule history_other [OF H]) simp_all
  show "history rs0 d0 j0 (s\<lparr>r_unaccounted := x\<rparr>)" for x by (rule history_other [OF H]) simp_all
  show "history rs0 d0 j0 (s\<lparr>r_prepared := x\<rparr>)" for x by (rule history_other [OF H]) simp_all
qed (rule history_record history_change history_persist history_removal; assumption)+

lemma history_start:
  "led_replay rs0 = Inr (cfg_prior_ledger (en_cfg en)) \<Longrightarrow> history rs0 d j (run_start en d pv w j)"
  by (simp add: history_def run_start_def)

lemma at_start: "A d \<Longrightarrow> at_run pv [] False A (run_start en d pv w j)"
  by (simp add: at_run_def run_start_def)

text \<open>A run and an explicit recovery, seen as a whole.\<close>

lemma run_whole:
  assumes "ready d" and "led_replay rs0 = Inr (cfg_prior_ledger (en_cfg en))"
    and run: "run_deployment_confirmed en d previous w j = (out, s)"
  shows "history rs0 d j s \<and>
    (case out of
       Ok rep \<Rightarrow> ended_with (restore_budget_ms (cfg_policy (en_cfg en))) (map_option (previous_for (en_cfg en)) previous) rep s
     | Fail e \<Rightarrow> run_error e | Panic \<Rightarrow> False)"
proof -
  let ?pv = "map_option (previous_for (en_cfg en)) previous"
  have "previous = map_option pv_release ?pv" by (cases previous) (simp_all add: previous_for_def)
  from tripleD [OF hist.run_confirmed_at [OF this, where en = en] history_start [OF assms(2), of d j ?pv w]
      at_start [where A = ready, OF assms(1)]]
  show ?thesis unfolding run [unfolded run_deployment_confirmed_def] fst_conv snd_conv .
qed

lemma recovery_whole:
  assumes "recoverable p d" and "led_replay rs0 = Inr (cfg_prior_ledger (en_cfg en))"
    and run: "recover_cutover en d p w j = (out, s)"
  defines "q \<equiv> p\<lparr>pv_config := cfg_previous (en_cfg en)\<rparr>"
  shows "history rs0 d j s \<and>
    (case out of
       Ok rep \<Rightarrow> explicit_blocked d q rep s \<or> explicit_done (restore_budget_ms (cfg_policy (en_cfg en))) d q rep s
     | Fail e \<Rightarrow> run_error e | Panic \<Rightarrow> False)"
proof -
  have "recoverable q d" using assms(1) by (simp add: recoverable_def q_def)
  from tripleD [OF hist.recover_run_at [OF this, where en = en] history_start [OF assms(2), of d j "Some q" w]
      at_start [of "(=) d", OF refl]]
  show ?thesis unfolding run [unfolded recover_cutover_def Let_def, folded q_def] fst_conv snd_conv .
qed

end
