(* ===== verification/EngineProps.thy ===== *)
theory EngineProps
  imports EngineHistory FakeBackend
begin

text \<open>
  The properties of a deployment run and of the explicit recovery, for every backend, clock,
  cancellation poll and confirmation, and for a journal that fails at any write. Each has a witness: a
  run of the crate's fake backend.
\<close>

section \<open>What the endings have in common\<close>

lemma shape_both: "shape st f cu rc rep nt d \<Longrightarrow> d_status d = st \<and> cu (d_cutover d)"
  by (simp add: shape_def phase_def)

lemma run_ends_succeeded:
  assumes "run_ends b pv cs d" and "d_status d = Succeeded"
  shows "shape Succeeded (progress 5 SSkipped) (if pv = None then (=) NotRequired else is_confirmed) ((=) None)
      (map_option pv_release pv) True d \<and> CallStopNew \<notin> set cs \<and> filter is_restore cs = []"
  using assms
  by (cases rule: run_ends.cases)
    (auto simp: check_calls_def is_restore_def dest: shape_status intro: shape_same)

lemma run_ends_failed_cutover:
  assumes "run_ends b pv cs d" and "is_failed (d_cutover d)"
  shows "\<exists>p oc. pv = Some p \<and> d_status d = Failed \<and> recovered_as oc (d_recovery d) \<and> oc \<noteq> InProgress \<and>
      filter is_stop cs = [CallStopCurrent p] \<and>
      (filter is_restore cs = [] \<and> \<not> service_restored oc \<or> filter is_restore cs = [CallRestorePrevious b])"
proof -
  have rest: "\<exists>p oc. pv = Some p \<and> d_status d = Failed \<and> recovered_as oc (d_recovery d) \<and> oc \<noteq> InProgress \<and>
      filter is_stop cs = [CallStopCurrent p] \<and>
      (filter is_restore cs = [] \<and> \<not> service_restored oc \<or> filter is_restore cs = [CallRestorePrevious b])"
    if "pv = Some p" "cs = xs @ [CallStopCurrent p] @ ys @ rs" "restoration b p rs oc"
      "filter is_stop xs = []" "filter is_stop ys = []" "filter is_restore xs = []" "filter is_restore ys = []"
      "shape Failed f is_failed (recovered_as oc) r False d" for p xs ys rs oc f r
  proof -
    from that(8) have d: "d_status d = Failed" "recovered_as oc (d_recovery d)" by (auto simp: shape_def phase_def)
    show ?thesis
      using that(3) d
      by (cases rule: restoration.cases)
        (use that in \<open>auto simp: is_stop_def is_restore_def intro!: exI [of _ oc]\<close>)
  qed
  note pre = check_calls_def is_stop_def is_restore_def
  from assms show ?thesis
  proof (cases rule: run_ends.cases)
    case (stop_failed p rs oc)
    then show ?thesis by (intro rest [of p "check_calls @ [CallPlanRelease]" "[]" rs oc]) (auto simp: pre)
  next
    case (not_started p rs oc)
    then show ?thesis by (intro rest [of p "check_calls @ [CallPlanRelease]" "[CallStartNew]" rs oc]) (auto simp: pre)
  next
    case (unhealthy p rs oc)
    then show ?thesis
      by (intro rest [of p "check_calls @ [CallPlanRelease]" "[CallStartNew, CallFinalCheck, CallStopNew]" rs oc])
        (auto simp: pre)
  qed (use assms(2) in \<open>auto dest!: shape_cutover simp: is_failed_def is_confirmed_def split: cutover_state.splits\<close>)
qed

lemma run_ends_untouched:
  assumes "run_ends b pv cs d" and "d_cutover d = NotStarted"
  shows "set cs \<subseteq> {CallPrepareSource, CallBuild, CallPreliminaryCheck, CallPlanRelease} \<and>
    (d_status d = Cancelled \<or> d_status d = Failed)"
  using assms
  by (cases rule: run_ends.cases)
    (auto dest!: shape_both in_set_takeD simp: check_calls_def is_failed_def is_confirmed_def)

section \<open>The cutover and what startup sees\<close>

definition past_begin :: "cutover_state \<Rightarrow> bool" where
  "past_begin c \<longleftrightarrow> is_begun c \<or> is_confirmed c \<or> is_failed c"

lemma dep_op_past_begin: "dep_op d d' \<Longrightarrow> past_begin (d_cutover d) \<Longrightarrow> past_begin (d_cutover d')"
proof (induction rule: dep_op.induct)
  case (op_startup d now)
  then show ?case by simp
next
  case (op_explicit budget now d d')
  then show ?case
    by (auto dest!: begin_explicit_recovery_Inr simp: past_begin_def is_failed_def)
qed (auto simp: record_op_defs Let_def past_begin_def is_begun_def is_failed_def is_confirmed_def
      split: option.splits if_splits cutover_state.splits)

lemma dep_ops_past_begin: "dep_op\<^sup>*\<^sup>* d d' \<Longrightarrow> past_begin (d_cutover d) \<Longrightarrow> past_begin (d_cutover d')"
  by (induction rule: rtranclp_induct) (use dep_op_past_begin in blast)+

lemma past_begin_seen:
  "past_begin (d_cutover d) \<Longrightarrow>
   application_may_be_down d \<or> is_confirmed (d_cutover d) \<or> is_failed (d_cutover d) \<and> was_restored d"
  by (auto simp: past_begin_def application_may_be_down_was)

lemma stop_call_event: "CallStopCurrent p \<in> set (calls tr) \<Longrightarrow> \<exists>us vs. tr = us @ EvCall (CallStopCurrent p) # vs"
proof -
  assume "CallStopCurrent p \<in> set (calls tr)"
  then have "EvCall (CallStopCurrent p) \<in> set tr"
    by (induction tr) (auto simp: calls_def List.map_filter_def split: if_splits elim: call_of.elims)
  then show ?thesis by (rule split_list)
qed

lemma history_stopped:
  assumes H: "history rs0 d0 j0 s" and stop: "CallStopCurrent p \<in> set (calls (c_trace s))"
  shows "\<exists>x. durable (c_trace s) = Some x \<and> past_begin (d_cutover x)"
proof -
  obtain us vs where tr: "c_trace s = us @ EvCall (CallStopCurrent p) # vs" using stop_call_event [OF stop] by blast
  have "all_prefix (event_ok rs0) (c_trace s)" using H unfolding history_def by blast
  from all_prefixD [OF this tr] have "event_ok rs0 us (EvCall (CallStopCurrent p))" .
  then obtain d where d: "durable us = Some d" "is_begun (d_cutover d)"
    unfolding event_ok_def call_guard_def stop_guard_def event.case call.case by blast
  have persists: "persists (c_trace s) = persists us @ persists vs"
    by (simp add: tr persists_def List.map_filter_def)
  from d obtain ys where ys: "persists us = ys @ [d]"
    by (cases "persists us" rule: rev_cases) (simp_all add: durable_def)
  let ?x = "last (persists (c_trace s))"
  have x: "durable (c_trace s) = Some ?x" using persists ys by (simp add: durable_def)
  have "sorted_wrt dep_op\<^sup>*\<^sup>* (d0 # persists (c_trace s) @ [r_d s])" using H unfolding history_def by blast
  then have "sorted_wrt dep_op\<^sup>*\<^sup>* ((d0 # ys @ [d]) @ persists vs @ [r_d s])"
    unfolding persists ys by simp
  then have "\<forall>y \<in> set (persists vs). dep_op\<^sup>*\<^sup>* d y" unfolding sorted_wrt_append by simp
  then have "dep_op\<^sup>*\<^sup>* d ?x" unfolding persists ys by (cases "persists vs" rule: rev_cases) simp_all
  from dep_ops_past_begin [OF this] d(2) have "past_begin (d_cutover ?x)" by (simp add: past_begin_def)
  with x show ?thesis by blast
qed

section \<open>Example runs\<close>

text \<open>
  A first deployment, and a replacement whose final check fails so that the previous release is
  restored; both on the fake backend without a runtime.
\<close>

definition fake_env :: "run_config \<Rightarrow> fake env" where
  "fake_env cfg = \<lparr>en_backend = fake_backend, en_now = fake_now, en_cancel = (\<lambda>w. (False, w)),
     en_confirm = (\<lambda>p w. (True, w)), en_cfg = cfg\<rparr>"

definition fake_d :: deployment where
  "fake_d = (deployment_new (DeploymentId 7) (ApplicationId 3) Manual 100)\<lparr>d_status := Queued\<rparr>"

definition restorable_cfg :: run_config where
  "restorable_cfg = run_config_default\<lparr>cfg_previous := Some (release_config_simulated 38000)\<rparr>"

definition failing_fake :: fake where
  "failing_fake = (fake_new 1000)\<lparr>fb_final_check := \<lparr>sc_result = Inl (step_error_new ''no answer''), sc_takes_ms = 200\<rparr>\<rparr>"

definition first_run :: "report result \<times> fake run" where
  "first_run = run_deployment_confirmed (fake_env run_config_default) fake_d None (fake_new 1000) journal_new"

definition failed_run :: "report result \<times> fake run" where
  "failed_run = run_deployment_confirmed (fake_env restorable_cfg) fake_d (Some (ReleaseId 5)) failing_fake journal_new"

lemma fake_d_ready: "ready fake_d"
  by (simp add: ready_def fake_d_def deployment_new_def steps_ok_def step_order_def)

lemma capture_empty:
  "lines_seen (cap_summary (capture (sink_new log_limits_default redactor_none))) = 0"
  "\<not> withheld (cap_summary (capture (sink_new log_limits_default redactor_none)))"
  by (simp_all add: capture_def capture_view_def flushed_def sink_new_def log_summary_default_def scan_def redactor_none_def absorb_def
      store_long.simps add_redactions_def log_truncated_def)

lemma capture_line:
  "0 < lines_seen (cap_summary (capture (push_line ''fake build output'' (sink_new log_limits_default redactor_none))))"
  by (simp add: capture_def capture_view_def flushed_def sink_new_def log_summary_default_def scan_def redactor_none_def absorb_def
      store_long.simps add_redactions_def log_truncated_def push_line_def push_chunk_def trim_line_end_def
      max_stored_line_def store_lines.simps store_def Let_def log_limits_default_def line_cost_def)

lemma calls_Cons:
  "calls (EvCall c # tr) = c # calls tr" "calls (EvPersist d # tr) = calls tr"
  by (simp_all add: calls_def)

lemma judge_simulated:
  "judge (Inr (simulated_passing x y)) True = Inr (Some (simulated_passing x y))"
  using simulated_passing_healthy [of x y] by (auto simp: judge_def is_healthy_def split: sum.split)

lemmas monad_defs = bnd_def thn_def ret_def gets_def modify_def fail_def panic_def
lemmas effect_defs =
  run_start_def run_now_def clock_now_def read_clock_def ask_def peek_def on_d_def on_step_def save_def
  trace_add_def j_persist_def j_gate_def journal_new_def warn_def push_evidence_def push_evidence_opt_def
lemmas record_defs =
  deployment_new_def step_order_def start_step_def finish_step_def find_step_def update_step_def transition_def
  cutover_not_required_def begin_cutover_def fail_cutover_def start_recovery_def finish_recovery_def
  end_interruption_def is_terminal_def is_failed_def end_state_of_def
lemmas step_run_defs =
  run_deployment_confirmed_def run_confirmed_def run_transition_def pre_step_def exec_def no_evidence_def
  step_bind_def pre_step_passed_def release_preliminary_def preliminary_targets_def merge_preliminary_def
  judged_check_def set_release_def set_pinned_def set_replaces_def set_failure_def plan_and_pin_def
  cutover_call_def repin_def final_check_def succeed_def run_cleanup_def finish_def run_report_def sat_sub_def
lemmas cutover_defs =
  first_deployment_def replacement_def planned_cutover_def why_not_def switch_over_def fail_after_cutover_def
  stop_failed_new_release_def restore_phase_def restore_call_def restore_outcome_def ok_value_def describe_def
  step_error_new_def previous_for_def
lemmas fake_defs =
  fake_env_def fake_d_def fake_new_def fake_backend_def fake_run_def fake_now_def advance_def scripted_ok_def
  fake_prepare_source_def fake_build_def fake_preliminary_check_def fake_create_def fake_plan_release_def
  fake_pinned_config_def fake_start_new_def fake_final_check_def fake_stop_current_def fake_stop_new_def
  fake_restore_blockers_def fake_restore_previous_def
lemmas config_defs = run_config_default_def budgets_default_def policy_default_def restorable_cfg_def

lemma first_run_ok: "\<exists>rep s. first_run = (Ok rep, s) \<and> rp_status rep = Succeeded"
  by (simp add: first_run_def monad_defs effect_defs record_defs step_run_defs fake_defs config_defs
      first_deployment_def Let_def capture_empty capture_line judge_simulated)

lemma failed_run_ok: "\<exists>rep s. failed_run = (Ok rep, s) \<and> rp_pause rep = Some PausedFailedCutover \<and>
    CallStopCurrent (previous_for restorable_cfg (ReleaseId 5)) \<in> set (calls (c_trace s))"
  by (simp add: failed_run_def failing_fake_def monad_defs effect_defs record_defs step_run_defs cutover_defs
      fake_defs config_defs Let_def capture_empty capture_line judge_simulated calls_Cons)

section \<open>Properties\<close>

text \<open>
  Claim C1. A run on a queued record never panics and never fails with a transition error, whatever
  the backend, the clock and the journal do. When it returns, the calls it made to the backend are, in
  order, one of the sequences of \<open>run_ends\<close>, the record has the status, the step statuses, the cutover
  and the recovery that belong to that sequence, it is the record on disk, and the report shows it.
\<close>

theorem run_ends_as_listed:
  assumes "ready d" and "led_replay rs0 = Inr (cfg_prior_ledger (en_cfg en))"
    and "run_deployment_confirmed en d previous w j = (out, s)"
  shows "case out of
      Ok rep \<Rightarrow>
        run_ends (restore_budget_ms (cfg_policy (en_cfg en))) (map_option (previous_for (en_cfg en)) previous)
          (calls (c_trace s)) (r_d s) \<and>
        durable (c_trace s) = Some (r_d s) \<and> rp_deployment rep = d_id (r_d s) \<and>
        rp_status rep = d_status (r_d s) \<and> rp_pause rep = pause_for (r_d s) \<and> rp_ledger rep = c_ledger s
    | Fail e \<Rightarrow> (\<exists>x. e = EJournal x) \<or> (\<exists>x. e = ELedger x)
    | Panic \<Rightarrow> False"
  using run_whole [OF assms]
  by (auto simp: ended_with_def at_run_def run_report_def run_error_def split: result.splits engine_error.splits)

theorem run_ends_as_listed_witness:
  "case fst failed_run of
      Ok rep \<Rightarrow> run_ends 60000 (Some (previous_for restorable_cfg (ReleaseId 5)))
          (calls (c_trace (snd failed_run))) (r_d (snd failed_run)) | _ \<Rightarrow> False"
proof -
  have replay: "led_replay [] = Inr (cfg_prior_ledger (en_cfg (fake_env restorable_cfg)))"
    by (simp add: led_replay_def fake_env_def config_defs)
  obtain rep s where run: "failed_run = (Ok rep, s)" using failed_run_ok by blast
  from run_ends_as_listed [OF fake_d_ready replay run [unfolded failed_run_def]]
  show ?thesis unfolding run by (simp add: fake_env_def config_defs)
qed

text \<open>
  Claim C3. A run that reports success has passed every check: source, build, preliminary check,
  cutover and final check succeeded, the final check's note is that of evidence that validates as healthy,
  a replacement's cutover is confirmed and names the release it replaced, a first deployment stopped
  nothing, no recovery was needed, the new release was not stopped, and the application is not
  reported as possibly down.
\<close>

theorem succeeded_run_is_verified:
  assumes "ready d" and "led_replay rs0 = Inr (cfg_prior_ledger (en_cfg en))"
    and "run_deployment_confirmed en d previous w j = (Ok rep, s)" and "rp_status rep = Succeeded"
  shows "list_all (\<lambda>st. step_status_of (r_d s) st = Some SSucceeded) [Source, Build, PreliminaryCheck, Cutover, FinalCheck] \<and>
    (\<exists>r ev. find_step (r_d s) FinalCheck = Some r \<and> sr_note r = evidence_note ev \<and> is_healthy ev) \<and>
    (case previous of
       None \<Rightarrow> d_cutover (r_d s) = NotRequired
     | Some p \<Rightarrow> d_replaces (r_d s) = Some p \<and> is_confirmed (d_cutover (r_d s))) \<and>
    d_recovery (r_d s) = None \<and> CallStopNew \<notin> set (calls (c_trace s)) \<and>
    filter is_restore (calls (c_trace s)) = [] \<and> \<not> application_may_be_down (r_d s)"
proof -
  let ?pv = "map_option (previous_for (en_cfg en)) previous"
  from run_whole [OF assms(1-3)] assms(4) have "run_ends (restore_budget_ms (cfg_policy (en_cfg en))) ?pv
      (calls (c_trace s)) (r_d s)" and "d_status (r_d s) = Succeeded"
    by (simp_all add: ended_with_def at_run_def run_report_def)
  from run_ends_succeeded [OF this] have sh: "shape Succeeded (progress 5 SSkipped)
      (if ?pv = None then (=) NotRequired else is_confirmed) ((=) None) (map_option pv_release ?pv) True (r_d s)"
    and cs: "CallStopNew \<notin> set (calls (c_trace s))" "filter is_restore (calls (c_trace s)) = []" by simp_all
  from shape_step [OF sh] have "step_status_of (r_d s) st = Some (progress 5 SSkipped st)" for st .
  moreover from sh have "noted FinalCheck (r_d s)" "d_recovery (r_d s) = None" by (simp_all add: shape_def phase_def)
  moreover from sh have "case previous of None \<Rightarrow> d_cutover (r_d s) = NotRequired
     | Some p \<Rightarrow> d_replaces (r_d s) = Some p \<and> is_confirmed (d_cutover (r_d s))"
    by (cases previous) (simp_all add: shape_def phase_def previous_for_def)
  moreover from this have "\<not> application_may_be_down (r_d s)"
    by (cases previous; cases "d_cutover (r_d s)") (simp_all add: application_may_be_down_def is_confirmed_def)
  ultimately show ?thesis using cs by (simp add: progress_statuses noted_def)
qed

theorem succeeded_run_is_verified_witness:
  "step_status_of (r_d (snd first_run)) FinalCheck = Some SSucceeded \<and> d_cutover (r_d (snd first_run)) = NotRequired"
proof -
  have replay: "led_replay [] = Inr (cfg_prior_ledger (en_cfg (fake_env run_config_default)))"
    by (simp add: led_replay_def fake_env_def config_defs)
  obtain rep s where run: "first_run = (Ok rep, s)" "rp_status rep = Succeeded" using first_run_ok by blast
  from succeeded_run_is_verified [OF fake_d_ready replay run(1) [unfolded first_run_def] run(2)]
  show ?thesis unfolding run(1) by simp
qed

text \<open>
  Claim C4. A run that reports a pause failed after its cutover had begun, and then exactly one release was
  stopped, the one it was told to replace; at most one restoration was made, with the configured budget; the recovery
  outcome is decided, and says that service is restored only when a restoration was made; the application
  is reported as possibly down exactly when it was not restored; and its triggers are paused.
\<close>

theorem paused_run_restored_at_most_once:
  assumes "ready d" and "led_replay rs0 = Inr (cfg_prior_ledger (en_cfg en))"
    and "run_deployment_confirmed en d previous w j = (Ok rep, s)" and "rp_pause rep \<noteq> None"
  shows "\<exists>p oc. previous = Some p \<and> rp_status rep = Failed \<and> oc \<noteq> InProgress \<and>
    recovered_as oc (d_recovery (r_d s)) \<and>
    filter is_stop (calls (c_trace s)) = [CallStopCurrent (previous_for (en_cfg en) p)] \<and>
    (filter is_restore (calls (c_trace s)) = [] \<and> \<not> service_restored oc \<or>
     filter is_restore (calls (c_trace s)) = [CallRestorePrevious (restore_budget_ms (cfg_policy (en_cfg en)))]) \<and>
    application_may_be_down (r_d s) = (\<not> service_restored oc) \<and> causes_pause (r_d s)"
proof -
  let ?pv = "map_option (previous_for (en_cfg en)) previous"
  from run_whole [OF assms(1-3)] have ends: "run_ends (restore_budget_ms (cfg_policy (en_cfg en))) ?pv
      (calls (c_trace s)) (r_d s)" and rep: "rp_status rep = d_status (r_d s)" "rp_pause rep = pause_for (r_d s)"
    by (simp_all add: ended_with_def at_run_def run_report_def)
  from rep(2) assms(4) have failed: "is_failed (d_cutover (r_d s))" by (simp add: pause_for_def split: if_splits)
  from run_ends_failed_cutover [OF ends failed] obtain q oc where q: "?pv = Some q" "d_status (r_d s) = Failed"
    "recovered_as oc (d_recovery (r_d s))" "oc \<noteq> InProgress" "filter is_stop (calls (c_trace s)) = [CallStopCurrent q]"
    "filter is_restore (calls (c_trace s)) = [] \<and> \<not> service_restored oc \<or>
     filter is_restore (calls (c_trace s)) = [CallRestorePrevious (restore_budget_ms (cfg_policy (en_cfg en)))]"
    by blast
  from q(1) obtain p where p: "previous = Some p" "q = previous_for (en_cfg en) p" by auto
  have "application_may_be_down (r_d s) = (\<not> service_restored oc)"
    using failed q(3)
    by (auto simp: application_may_be_down_was was_restored_def recovered_as_def is_failed_def is_begun_def
        split: cutover_state.splits)
  then show ?thesis
    using q p rep(1) failed by (intro exI [of _ p] exI [of _ oc]) (simp add: causes_pause_def)
qed

theorem paused_run_restored_at_most_once_witness:
  "filter is_stop (calls (c_trace (snd failed_run))) = [CallStopCurrent (previous_for restorable_cfg (ReleaseId 5))]"
proof -
  have replay: "led_replay [] = Inr (cfg_prior_ledger (en_cfg (fake_env restorable_cfg)))"
    by (simp add: led_replay_def fake_env_def config_defs)
  obtain rep s where run: "failed_run = (Ok rep, s)" "rp_pause rep \<noteq> None" using failed_run_ok by force
  from paused_run_restored_at_most_once [OF fake_d_ready replay run(1) [unfolded failed_run_def] run(2)]
  show ?thesis unfolding run(1) by (auto simp: fake_env_def)
qed

text \<open>
  Claim C2. Whatever ends a run, a crash of the journal at any write included, no release was
  stopped before the record on disk said that the cutover had begun, which release it replaces and that
  source, build and preliminary check had passed, and none was stopped twice; and no restoration was
  tried before the record on disk said that the cutover had failed and a recovery was in progress, and
  none was tried twice.
\<close>

theorem side_effects_are_announced:
  assumes "ready d" and "led_replay rs0 = Inr (cfg_prior_ledger (en_cfg en))"
    and "run_deployment_confirmed en d previous w j = (out, s)" and "c_trace s = us @ EvCall c # vs"
  shows "case c of
      CallStopCurrent p \<Rightarrow>
        filter is_stop (calls us) = [] \<and>
        (\<exists>x. durable us = Some x \<and> is_begun (d_cutover x) \<and> d_replaces x = Some (pv_release p) \<and>
           step_status_of x Source = Some SSucceeded \<and> step_status_of x Build = Some SSucceeded \<and>
           step_status_of x PreliminaryCheck = Some SSucceeded)
    | CallRestorePrevious b \<Rightarrow>
        filter is_restore (calls us) = [] \<and>
        (\<exists>x. durable us = Some x \<and> is_failed (d_cutover x) \<and> recovered_as InProgress (d_recovery x))
    | _ \<Rightarrow> True"
proof -
  have "all_prefix (event_ok rs0) (c_trace s)" using run_whole [OF assms(1-3)] by (simp add: history_def)
  from all_prefixD [OF this assms(4)] show ?thesis
    by (cases c) (auto simp: event_ok_def call_guard_def stop_guard_def restore_guard_def checks_passed_def
        recovered_as_def)
qed

theorem side_effects_are_announced_witness:
  "\<exists>us vs x. c_trace (snd failed_run) =
      us @ EvCall (CallStopCurrent (previous_for restorable_cfg (ReleaseId 5))) # vs \<and>
    durable us = Some x \<and> is_begun (d_cutover x)"
proof -
  have replay: "led_replay [] = Inr (cfg_prior_ledger (en_cfg (fake_env restorable_cfg)))"
    by (simp add: led_replay_def fake_env_def config_defs)
  obtain rep s where run: "failed_run = (Ok rep, s)"
    and "CallStopCurrent (previous_for restorable_cfg (ReleaseId 5)) \<in> set (calls (c_trace s))"
    using failed_run_ok by blast
  from stop_call_event [OF this(2)] obtain us vs where
    tr: "c_trace s = us @ EvCall (CallStopCurrent (previous_for restorable_cfg (ReleaseId 5))) # vs" by blast
  from side_effects_are_announced [OF fake_d_ready replay run [unfolded failed_run_def] tr]
  obtain x where "durable us = Some x" "is_begun (d_cutover x)" by auto
  with tr show ?thesis unfolding run by auto
qed

text \<open>
  Claim C8. At the end of a run, however it ended, the ledger in memory is exactly what the records
  on disk replay to, the journal holds what it held before and then every record and snapshot of the
  run in order, and the snapshots form a chain: each one, and the record in memory, follows from every
  earlier one and from the record the run was given by operations of the record.
\<close>

theorem journal_and_memory_agree:
  assumes "ready d" and "led_replay rs0 = Inr (cfg_prior_ledger (en_cfg en))"
    and "run_deployment_confirmed en d previous w j = (out, s)"
  shows "led_replay (rs0 @ records (c_trace s)) = Inr (c_ledger s) \<and>
    j_ledger_records (c_journal s) = j_ledger_records j @ records (c_trace s) \<and>
    j_snapshots (c_journal s) = j_snapshots j @ persists (c_trace s) \<and>
    sorted_wrt dep_op\<^sup>*\<^sup>* (d # persists (c_trace s) @ [r_d s])"
  using run_whole [OF assms] by (simp add: history_def)

theorem journal_and_memory_agree_witness:
  "j_snapshots (c_journal (snd failed_run)) = persists (c_trace (snd failed_run)) \<and>
   led_replay (records (c_trace (snd failed_run))) = Inr (c_ledger (snd failed_run))"
proof -
  have replay: "led_replay [] = Inr (cfg_prior_ledger (en_cfg (fake_env restorable_cfg)))"
    by (simp add: led_replay_def fake_env_def config_defs)
  obtain rep s where run: "failed_run = (Ok rep, s)" using failed_run_ok by blast
  from journal_and_memory_agree [OF fake_d_ready replay run [unfolded failed_run_def]]
  show ?thesis unfolding run by (simp add: journal_new_def)
qed

text \<open>
  Claim C7. Once a run has asked for the serving release to be stopped, the record on disk tells: at
  whatever write the process dies, that record says that the application may be down, unless the
  replacement is confirmed or the service was restored. Startup keeps that answer, and unless the
  replacement is confirmed it pauses the application's triggers.
\<close>

theorem interruption_is_visible:
  assumes "ready d" and "led_replay rs0 = Inr (cfg_prior_ledger (en_cfg en))"
    and "run_deployment_confirmed en d previous w j = (out, s)"
    and "CallStopCurrent p \<in> set (calls (c_trace s))"
  shows "\<exists>x. durable (c_trace s) = Some x \<and>
    (application_may_be_down (recover_one now x) \<or> is_confirmed (d_cutover x) \<or> was_restored (recover_one now x)) \<and>
    (is_confirmed (d_cutover x) \<or> causes_pause (recover_one now x))"
proof -
  have "history rs0 d j s" using run_whole [OF assms(1-3)] by simp
  from history_stopped [OF this assms(4)] obtain x where "durable (c_trace s) = Some x" "past_begin (d_cutover x)"
    by blast
  then show ?thesis
    using past_begin_seen [of x] by (auto simp: past_begin_def causes_pause_def)
qed

text \<open>The process dies at the first write after the previous release was stopped.\<close>

definition crashed_run :: "report result \<times> fake run" where
  "crashed_run = run_deployment_confirmed (fake_env restorable_cfg) fake_d (Some (ReleaseId 5)) (fake_new 1000)
     (journal_crash_at 9)"

lemma crashed_run_stopped: "\<exists>s. crashed_run = (Fail (EJournal Crash), s) \<and>
    CallStopCurrent (previous_for restorable_cfg (ReleaseId 5)) \<in> set (calls (c_trace s)) \<and>
    d_cutover (last (persists (c_trace s))) = Begun 2110"
  by (simp add: crashed_run_def journal_crash_at_def monad_defs effect_defs record_defs step_run_defs cutover_defs
      fake_defs config_defs Let_def capture_empty capture_line judge_simulated calls_Cons persists_def List.map_filter_def)

theorem interruption_is_visible_witness:
  "\<exists>x. durable (c_trace (snd crashed_run)) = Some x \<and> application_may_be_down (recover_one 9000 x)"
proof -
  have replay: "led_replay [] = Inr (cfg_prior_ledger (en_cfg (fake_env restorable_cfg)))"
    by (simp add: led_replay_def fake_env_def config_defs)
  obtain s where run: "crashed_run = (Fail (EJournal Crash), s)"
    and "CallStopCurrent (previous_for restorable_cfg (ReleaseId 5)) \<in> set (calls (c_trace s))"
    and cut: "d_cutover (last (persists (c_trace s))) = Begun 2110"
    using crashed_run_stopped by blast
  from interruption_is_visible [OF fake_d_ready replay run [unfolded crashed_run_def] this(2), of 9000]
  obtain x where "durable (c_trace s) = Some x" by blast
  moreover from this cut have "d_cutover x = Begun 2110" by (simp add: durable_def split: if_splits)
  ultimately show ?thesis unfolding run by (simp add: application_may_be_down_was is_begun_def)
qed

text \<open>
  Claim C9. An explicit recovery is refused, with nothing called, written or changed, unless the record
  is that of an interrupted cutover and the given release is the one that the cutover replaced.
  Otherwise it never panics and never stops anything. When it
  returns, either the previous release's port is held: then it only looked, and the record is unchanged;
  or the record on disk has a failed cutover and a decided recovery outcome, at most one restoration was
  made with the configured budget, service is said to be restored only when one was made, and no further explicit recovery
  is possible.
\<close>

theorem explicit_recovery_once:
  assumes "steps_ok d" and "led_replay rs0 = Inr (cfg_prior_ledger (en_cfg en))"
    and "recover_cutover en d p w j = (out, s)"
  shows "if \<not> can_recover_explicitly d \<or> d_replaces d \<noteq> Some (pv_release p)
    then (\<exists>m. out = Fail (ETransition (CutoverError (d_cutover d) m))) \<and>
      r_d s = d \<and> c_trace s = [] \<and> c_journal s = j \<and> c_world s = w
    else case out of
      Ok rep \<Rightarrow>
        rp_pause rep = Some PausedFailedCutover \<and> filter is_stop (calls (c_trace s)) = [] \<and>
        (rp_blocked rep \<noteq> [] \<and> r_d s = d \<and> calls (c_trace s) = [CallRestoreBlockers] \<or>
         rp_blocked rep = [] \<and> durable (c_trace s) = Some (r_d s) \<and> d_status (r_d s) = Interrupted \<and>
         is_failed (d_cutover (r_d s)) \<and> \<not> can_recover_explicitly (r_d s) \<and>
         (\<exists>oc. oc \<noteq> InProgress \<and> recovered_as oc (d_recovery (r_d s)) \<and>
            (filter is_restore (calls (c_trace s)) = [] \<and> \<not> service_restored oc \<or>
             filter is_restore (calls (c_trace s)) =
               [CallRestorePrevious (restore_budget_ms (cfg_policy (en_cfg en)))])))
    | Fail e \<Rightarrow> (\<exists>x. e = EJournal x) \<or> (\<exists>x. e = ELedger x)
    | Panic \<Rightarrow> False"
proof (cases "recoverable p d")
  case False
  with assms(1) have "\<not> can_recover_explicitly d \<or> d_replaces d \<noteq> Some (pv_release p)"
    by (auto simp: recoverable_def)
  with assms(3) show ?thesis
    by (auto simp: recover_cutover_def recover_run_def run_start_def monad_defs Let_def split: if_splits)
next
  case True
  define q where "q = p\<lparr>pv_config := cfg_previous (en_cfg en)\<rparr>"
  let ?b = "restore_budget_ms (cfg_policy (en_cfg en))"
  from recovery_whole [OF True assms(2,3), folded q_def] have whole: "case out of
      Ok rep \<Rightarrow> explicit_blocked d q rep s \<or> explicit_done ?b d q rep s
    | Fail e \<Rightarrow> run_error e | Panic \<Rightarrow> False" by (rule conjunct2)
  note pre = is_stop_def is_restore_def
  have goal_done: "filter is_stop (calls (c_trace s)) = [] \<and> durable (c_trace s) = Some (r_d s) \<and>
      d_status (r_d s) = Interrupted \<and> is_failed (d_cutover (r_d s)) \<and> \<not> can_recover_explicitly (r_d s) \<and>
      (\<exists>oc. oc \<noteq> InProgress \<and> recovered_as oc (d_recovery (r_d s)) \<and>
         (filter is_restore (calls (c_trace s)) = [] \<and> \<not> service_restored oc \<or>
          filter is_restore (calls (c_trace s)) = [CallRestorePrevious ?b])) \<and> rep = run_report [] (Some PausedFailedCutover) s"
    if "explicit_done ?b d q rep s" for rep
  proof -
    from that obtain rs oc f where r: "restoration ?b q rs oc"
      and cs: "calls (c_trace s) = (if pv_config q = None then [] else [CallRestoreBlockers]) @ rs"
      and d: "durable (c_trace s) = Some (r_d s)"
      and sh: "shape Interrupted f is_failed (recovered_as oc) (Some (pv_release q)) False (r_d s)"
      and rep: "rep = run_report [] (Some PausedFailedCutover) s"
      by (auto simp: explicit_done_def at_run_def)
    from sh have "d_status (r_d s) = Interrupted" "is_failed (d_cutover (r_d s))" "recovered_as oc (d_recovery (r_d s))"
      by (simp_all add: shape_def phase_def)
    moreover from this(2) have "\<not> can_recover_explicitly (r_d s)"
      by (auto simp: can_recover_explicitly_def is_begun_def is_failed_def split: cutover_state.splits)
    moreover from r cs have "oc \<noteq> InProgress" "filter is_stop (calls (c_trace s)) = []"
      "filter is_restore (calls (c_trace s)) = [] \<and> \<not> service_restored oc \<or>
       filter is_restore (calls (c_trace s)) = [CallRestorePrevious ?b]"
      by (cases rule: restoration.cases; simp add: pre)+
    ultimately show ?thesis using d rep by blast
  qed
  have rec: "can_recover_explicitly d" "d_replaces d = Some (pv_release p)"
    using True by (simp_all add: recoverable_def)
  show ?thesis
  proof (cases out)
    case (Ok rep)
    with whole consider "explicit_blocked d q rep s" | "explicit_done ?b d q rep s" by auto
    then show ?thesis
    proof cases
      case 1
      then show ?thesis using Ok rec by (auto simp: explicit_blocked_def at_run_def run_report_def pre)
    next
      case 2
      from goal_done [OF this] Ok rec show ?thesis by (simp add: run_report_def)
    qed
  qed (use whole rec in \<open>auto simp: run_error_def split: engine_error.splits\<close>)
qed

definition interrupted_d :: deployment where
  "interrupted_d = fake_d\<lparr>d_status := Interrupted, d_cutover := Begun 120, d_replaces := Some (ReleaseId 5),
     d_steps := map (\<lambda>r. r\<lparr>sr_status := SSkipped\<rparr>) (d_steps fake_d)\<rparr>"

definition recovery_run :: "report result \<times> fake run" where
  "recovery_run = recover_cutover (fake_env restorable_cfg) interrupted_d (previous_for restorable_cfg (ReleaseId 5))
     (fake_new 1000) journal_new"

lemma recovery_run_ok: "\<exists>rep s. recovery_run = (Ok rep, s) \<and> rp_blocked rep = []"
  by (simp add: recovery_run_def interrupted_d_def recover_cutover_def recover_run_def restore_now_def
      begin_explicit_recovery_def can_recover_explicitly_def is_begun_def step_status_of_def
      monad_defs effect_defs record_defs step_run_defs cutover_defs
      fake_defs config_defs Let_def capture_empty)

theorem explicit_recovery_once_witness:
  "filter is_stop (calls (c_trace (snd recovery_run))) = [] \<and> \<not> can_recover_explicitly (r_d (snd recovery_run))"
proof -
  have replay: "led_replay [] = Inr (cfg_prior_ledger (en_cfg (fake_env restorable_cfg)))"
    by (simp add: led_replay_def fake_env_def config_defs)
  have rec: "steps_ok interrupted_d" "can_recover_explicitly interrupted_d"
      "d_replaces interrupted_d = Some (pv_release (previous_for restorable_cfg (ReleaseId 5)))"
    by (simp_all add: can_recover_explicitly_def interrupted_d_def fake_d_def record_defs is_begun_def
        step_status_of_def steps_ok_def previous_for_def)
  obtain rep s where run: "recovery_run = (Ok rep, s)" "rp_blocked rep = []" using recovery_run_ok by blast
  from explicit_recovery_once [OF rec(1) replay run(1) [unfolded recovery_run_def]] run(2) rec(2,3)
  show ?thesis unfolding run(1) by simp
qed

end
