(* ===== verification/EngineCleanup.thy ===== *)
theory EngineCleanup
  imports EngineProps
begin

text \<open>
  Cleanup during a run: what every removal rests on, and the one way in which a cleanup that was
  recorded as failed keeps later cleanups from finishing.
\<close>

section \<open>A run with a runtime\<close>

definition runtime_fake :: fake where
  "runtime_fake = (fake_new 1000)\<lparr>fb_runtime := Some fake_runtime_default\<rparr>"

text \<open>Cancelled after the preliminary check, whose container is removed before the cutover.\<close>

definition cancelling_env :: "fake env" where
  "cancelling_env = (fake_env run_config_default)
     \<lparr>en_cancel := (\<lambda>w. (FCallPreliminaryCheck \<in> set (fb_calls w), w))\<rparr>"

definition cleanup_run :: "report result \<times> fake run" where
  "cleanup_run = run_deployment_confirmed cancelling_env fake_d None runtime_fake journal_new"

lemmas ledger_step_defs =
  io_intend_def io_receipt_def io_cleanup_attempt_def io_lease_port_def written_def io_stamped_def io_write_def
  resource_key_new_def apply_intent_def apply_receipt_def apply_attempt_def apply_result_def led_find_def
  led_update_def is_entry_def is_released_def is_refused_def is_conflict_outcome_def may_conflict_def j_record_def
lemmas reconcile_step_defs =
  plan_def plan_entry_def plan_observed_def ended_as_def find_object_def known_to_def harpoon_deployment_def
  labelled_for_def ob_label_def labels_for_deployment_def label_managed_def label_app_def label_deployment_def
  call_list_def fake_list_resources_def call_remove_def fake_remove_resource_def attempt_cleanup_def settle_def
  write_record_def adopt_receipt_def request_for_def stuck_resources_def targets_action_def runtime_create_def
  fake_runtime_default_def List.map_filter_def reconcile_def containers_settled_def is_release_lease_def

lemma cleanup_run_removes:
  "\<exists>rep s i. cleanup_run = (Ok rep, s) \<and> EvRemove Container i \<in> set (c_trace s)"
  by (simp add: cleanup_run_def cancelling_env_def runtime_fake_def monad_defs effect_defs record_defs step_run_defs
      fake_defs config_defs Let_def capture_empty capture_line judge_simulated ledger_step_defs reconcile_step_defs
      end_cancelled_def)

section \<open>Properties\<close>

text \<open>
  Claim C6. Whatever ends a run, an object was removed only right after the attempt was made
  durable, and only by the id that the durable ledger holds as the receipt of that very entry: nothing
  is removed by name, and a crash leaves every removal accounted for.
\<close>

theorem removals_follow_durable_attempts:
  assumes "ready d" and "led_replay rs0 = Inr (cfg_prior_ledger (en_cfg en))"
    and "run_deployment_confirmed en d previous w j = (out, s)" and "c_trace s = us @ EvRemove k i # vs"
  shows "\<exists>xs key dep t l e. us = xs @ [EvRecord (CleanupAttempt key dep t)] \<and> rk_kind key = k \<and>
    led_replay (rs0 @ records us) = Inr l \<and> led_find l dep key = Some e \<and> e_id e = Some i"
proof -
  have "all_prefix (event_ok rs0) (c_trace s)" using run_whole [OF assms(1-3)] by (simp add: history_def)
  from all_prefixD [OF this assms(4)] show ?thesis
    by (auto simp: event_ok_def removal_justified_def has_id_def)
qed

theorem removals_follow_durable_attempts_witness:
  "\<exists>us k i vs xs key dep t. c_trace (snd cleanup_run) = us @ EvRemove k i # vs \<and>
    us = xs @ [EvRecord (CleanupAttempt key dep t)] \<and> rk_kind key = k"
proof -
  have replay: "led_replay [] = Inr (cfg_prior_ledger (en_cfg cancelling_env))"
    by (simp add: led_replay_def cancelling_env_def fake_env_def config_defs)
  obtain rep s i where run: "cleanup_run = (Ok rep, s)" and "EvRemove Container i \<in> set (c_trace s)"
    using cleanup_run_removes by blast
  from split_list [OF this(2)] obtain us vs where tr: "c_trace s = us @ EvRemove Container i # vs" by blast
  from removals_follow_durable_attempts [OF fake_d_ready replay run [unfolded cleanup_run_def] tr]
  obtain xs key dep t where "us = xs @ [EvRecord (CleanupAttempt key dep t)]" "rk_kind key = Container" by blast
  with tr show ?thesis unfolding run snd_conv by blast
qed

section \<open>Cleanup of an object that was never confirmed\<close>

text \<open>An entry of the application with no receipt that is past the point where it could get one.\<close>

definition unconfirmed_entry ::
  "application_id \<Rightarrow> disposition \<Rightarrow> deployment_id \<Rightarrow> resource_key \<Rightarrow> ledger \<Rightarrow> bool" where
  "unconfirmed_entry app disp dep key l \<longleftrightarrow>
     (\<exists>e. led_find l dep key = Some e \<and> e_id e = None \<and> e_state e \<noteq> Intended \<and> e_app e = app \<and> e_disposition e = disp)"

lemma unconfirmed_refuses: "unconfirmed_entry app disp dep key l \<Longrightarrow> led_apply l (Receipt key dep i t) = Inl (ReceiptConflict key)"
  by (auto simp: unconfirmed_entry_def apply_receipt_def split: entry_state.split)

lemma unconfirmed_applied:
  assumes "unconfirmed_entry app disp dep key l" and "led_apply l r = Inr l'"
  shows "unconfirmed_entry app disp dep key l'"
proof (cases "about dep key r")
  case False
  then show ?thesis using assms led_apply_other [OF assms(2) False] by (simp add: unconfirmed_entry_def)
next
  case True
  obtain e where e: "led_find l dep key = Some e" "e_id e = None" "e_state e \<noteq> Intended" "e_app e = app"
      "e_disposition e = disp" using assms(1) by (auto simp: unconfirmed_entry_def)
  show ?thesis
  proof (cases r)
    case (Intent k a d p t)
    then show ?thesis using assms(2) True e(1) by (simp add: apply_intent_Inr about_def)
  next
    case (Receipt k d i t)
    then show ?thesis using assms(2) True e by (auto simp: apply_receipt_Inr about_def)
  next
    case (CleanupAttempt k d t)
    then show ?thesis using assms(2) True e
      by (auto simp: apply_attempt_Inr about_def unconfirmed_entry_def led_find_update [OF keeps_attempt])
  next
    case (CleanupResult k d oc t)
    then show ?thesis using assms(2) True e
      by (auto simp: apply_result_Inr about_def unconfirmed_entry_def led_find_update [OF keeps_result])
  qed
qed

lemma unconfirmed_replayed:
  "unconfirmed_entry app disp dep key l \<Longrightarrow> led_replay_from i l rs = Inr l' \<Longrightarrow> unconfirmed_entry app disp dep key l'"
  by (induction rs arbitrary: i l) (auto split: sum.splits dest: unconfirmed_applied)

text \<open>What any record leaves true of a ledger stays true while actions are carried out.\<close>

definition keeps_ledger :: "(ledger \<Rightarrow> bool) \<Rightarrow> (('w, 'm) core_scheme, 'a) eng \<Rightarrow> bool" where
  "keeps_ledger U m \<longleftrightarrow> (\<forall>s. U (c_ledger s) \<longrightarrow> U (c_ledger (snd (m s))))"

lemma keeps_bnd: "keeps_ledger U m \<Longrightarrow> (\<And>x. keeps_ledger U (f x)) \<Longrightarrow> keeps_ledger U (bnd m f)"
  unfolding keeps_ledger_def bnd_def by (auto split: prod.split result.split)

lemma keeps_thn: "keeps_ledger U m \<Longrightarrow> keeps_ledger U n \<Longrightarrow> keeps_ledger U (thn m n)"
  unfolding thn_def by (rule keeps_bnd)

lemma keeps_parts [simp]:
  "keeps_ledger U (ret x)" "keeps_ledger U panic" "keeps_ledger U (gets g)" "keeps_ledger U (clock_now now)"
  "keeps_ledger U (call_remove bk rq)"
  by (auto simp: keeps_ledger_def ret_def panic_def gets_def clock_now_def read_clock_def call_remove_def trace_add_def
      split: prod.split)

lemma keeps_write:
  "(\<And>l r l'. U l \<Longrightarrow> led_apply l r = Inr l' \<Longrightarrow> U l') \<Longrightarrow> keeps_ledger U (write_record r)"
  by (auto simp: keeps_ledger_def write_record_def trace_add_def split: sum.split)

lemma keeps_action:
  assumes "\<And>l r l'. U l \<Longrightarrow> led_apply l r = Inr l' \<Longrightarrow> U l'"
  shows "keeps_ledger U (execute_action bk now a)"
  using keeps_write [of U, OF assms]
  by (cases a) (auto simp: attempt_cleanup_def settle_def adopt_receipt_def intro!: keeps_bnd keeps_thn split: option.split)

definition asks_receipt :: "entry_ref \<Rightarrow> action \<Rightarrow> bool" where
  "asks_receipt ref a \<longleftrightarrow> (\<exists>ob. a = Remove ref ob True \<or> a = Adopt ref ob)"

lemma unconfirmed_action:
  fixes s :: "('w, 'm) core_scheme"
  assumes "unconfirmed_entry app disp dep key (c_ledger s)" and "asks_receipt (dep, key) a"
  shows "fst (execute_action bk now a s) = Fail (ELedger (ReceiptConflict key)) \<and>
    c_trace (snd (execute_action bk now a s)) = c_trace s \<and> c_ledger (snd (execute_action bk now a s)) = c_ledger s \<and>
    c_journal (snd (execute_action bk now a s)) = c_journal s"
proof -
  have "adopt_receipt now (dep, key) ob s = (Fail (ELedger (ReceiptConflict key)), snd (read_clock now s))" for ob
    using unconfirmed_refuses [OF assms(1)]
    by (auto simp: adopt_receipt_def bnd_def clock_now_def read_clock_def write_record_def split: prod.split)
  then show ?thesis
    using assms(2) by (auto simp: asks_receipt_def thn_def bnd_def read_clock_def split: prod.split)
qed

lemma unconfirmed_actions:
  "unconfirmed_entry app disp dep key (c_ledger s) \<Longrightarrow> asks_receipt (dep, key) a \<Longrightarrow> a \<in> set as \<Longrightarrow>
   fst (execute_actions bk now as s) \<noteq> Ok us"
proof (induction as arbitrary: s us)
  case (Cons b as)
  obtain x t where b: "execute_action bk now b s = (x, t)" by (metis surj_pair)
  have "keeps_ledger (unconfirmed_entry app disp dep key) (execute_action bk now b)"
    by (rule keeps_action) (rule unconfirmed_applied)
  then have t: "unconfirmed_entry app disp dep key (c_ledger t)"
    using Cons.prems(1) b by (metis keeps_ledger_def snd_conv)
  show ?case
  proof (cases "b = a")
    case True
    then show ?thesis using unconfirmed_action [OF Cons.prems(1,2), of bk now] b by (simp add: bnd_def)
  next
    case False
    then have "execute_actions bk now as t \<noteq> (Ok ys, z)" for ys z
      using Cons.IH [OF t Cons.prems(2)] Cons.prems(3) by (metis fst_conv set_ConsD)
    then show ?thesis using b by (auto simp: bnd_def ret_def split: prod.split result.split)
  qed
qed simp

lemma unconfirmed_plan:
  assumes "led_find l dep key = Some e" and "e_id e = None" and "\<not> is_released e \<and> \<not> is_refused e"
    and "rk_kind key \<noteq> PortLease" and "ended_as ended dep = Some en"
  shows "plan_entry obs ended e =
    (case find_object obs e of
       None \<Rightarrow> Some (MarkAbsent (dep, key))
     | Some ob \<Rightarrow>
         if \<not> labelled_for ob (e_app e) dep then Some (Refuse (dep, key) (refuse_reason e))
         else if should_clean (e_disposition e) en then Some (Remove (dep, key) ob True)
         else Some (Adopt (dep, key) ob))"
  using assms led_find_Some [OF assms(1)] by (auto simp: plan_entry_def Let_def split: option.split)

lemma unconfirmed_reconcile:
  fixes s :: "('w, 'm) core_scheme"
  assumes "led_find (c_ledger s) dep key = Some e" and "unconfirmed_entry app disp dep key (c_ledger s)"
    and "plan_entry obs ended e = Some a" and "asks_receipt (dep, key) a"
    and "bk_list_resources bk (c_world s) = (Inr obs, w)"
  shows "fst (reconcile bk now ended s) \<noteq> Ok us"
proof -
  let ?t = "trace_add EvList (s\<lparr>c_world := w\<rparr>)"
  let ?as = "filter (\<lambda>a. \<not> is_release_lease a) (plan (c_ledger ?t) obs ended)"
  have t: "c_ledger ?t = c_ledger s" by (simp add: trace_add_def)
  have "a \<in> set (plan (c_ledger s) obs ended)"
    using led_find_Some [OF assms(1)] assms(3) by (auto simp: plan_def in_map_filter)
  then have "a \<in> set ?as"
    using assms(4) by (auto simp: asks_receipt_def is_release_lease_def t)
  from unconfirmed_actions [OF _ assms(4) this, of app disp ?t] assms(2) t
  have "execute_actions bk now ?as ?t \<noteq> (Ok xs, z)" for xs z by (metis fst_conv)
  then show ?thesis
    using assms(5) by (auto simp: reconcile_def bnd_def call_list_def gets_def ret_def Let_def
        split: prod.split result.split)
qed

text \<open>
  Claim C13. An object whose creation was never confirmed and whose cleanup was once recorded as failed
  (as reconciling does when the runtime cannot be listed) never gets a receipt: after any further records
  that apply, every receipt for it is a conflict. What that does to later cleanups of its ended
  deployment, as long as the entry is not settled: if the runtime lists the object with its labels, the plan
  asks to remove or to adopt it, carrying that out fails with the ledger error and writes and removes
  nothing, and the whole reconciliation does not succeed, whatever the backend and the clock do; if the
  listing does not show it, the plan marks it absent, and if it shows it without its labels, the plan
  refuses it, and neither touches the object.
\<close>

theorem failed_unconfirmed_cleanup_blocks:
  fixes s :: "('w, 'm) core_scheme"
  assumes "led_find l dep key = Some e0" and "e_id e0 = None" and "e_state e0 = CleanupFailed m"
    and "rk_kind key \<noteq> PortLease" and "led_replay_from i l rs = Inr (c_ledger s)" and "ended_as ended dep = Some en"
  shows "\<exists>e. led_find (c_ledger s) dep key = Some e \<and> e_id e = None \<and> e_app e = e_app e0 \<and>
    (\<forall>x t. led_apply (c_ledger s) (Receipt key dep x t) = Inl (ReceiptConflict key)) \<and>
    (is_released e \<or> is_refused e \<or>
     (\<forall>obs. case find_object obs e of
         None \<Rightarrow> plan_entry obs ended e = Some (MarkAbsent (dep, key))
       | Some ob \<Rightarrow>
           if labelled_for ob (e_app e) dep
           then \<exists>a. plan_entry obs ended e = Some a \<and>
             (a = Remove (dep, key) ob True \<or> a = Adopt (dep, key) ob) \<and>
             fst (execute_action bk now a s) = Fail (ELedger (ReceiptConflict key)) \<and>
             c_trace (snd (execute_action bk now a s)) = c_trace s \<and>
             c_ledger (snd (execute_action bk now a s)) = c_ledger s \<and>
             c_journal (snd (execute_action bk now a s)) = c_journal s \<and>
             (\<forall>w us. bk_list_resources bk (c_world s) = (Inr obs, w) \<longrightarrow> fst (reconcile bk now ended s) \<noteq> Ok us)
           else plan_entry obs ended e = Some (Refuse (dep, key) (refuse_reason e))))"
proof -
  have "unconfirmed_entry (e_app e0) (e_disposition e0) dep key l" using assms(1-3) by (simp add: unconfirmed_entry_def)
  from unconfirmed_replayed [OF this assms(5)]
  have u: "unconfirmed_entry (e_app e0) (e_disposition e0) dep key (c_ledger s)" .
  then obtain e where e: "led_find (c_ledger s) dep key = Some e" "e_id e = None" "e_app e = e_app e0"
    by (auto simp: unconfirmed_entry_def)
  have branches: "case find_object obs e of
         None \<Rightarrow> plan_entry obs ended e = Some (MarkAbsent (dep, key))
       | Some ob \<Rightarrow>
           if labelled_for ob (e_app e) dep
           then \<exists>a. plan_entry obs ended e = Some a \<and>
             (a = Remove (dep, key) ob True \<or> a = Adopt (dep, key) ob) \<and>
             fst (execute_action bk now a s) = Fail (ELedger (ReceiptConflict key)) \<and>
             c_trace (snd (execute_action bk now a s)) = c_trace s \<and>
             c_ledger (snd (execute_action bk now a s)) = c_ledger s \<and>
             c_journal (snd (execute_action bk now a s)) = c_journal s \<and>
             (\<forall>w us. bk_list_resources bk (c_world s) = (Inr obs, w) \<longrightarrow> fst (reconcile bk now ended s) \<noteq> Ok us)
           else plan_entry obs ended e = Some (Refuse (dep, key) (refuse_reason e))"
    if live: "\<not> is_released e \<and> \<not> is_refused e" for obs
  proof (cases "find_object obs e")
    case None
    then show ?thesis using unconfirmed_plan [OF e(1,2) live assms(4,6), of obs] by simp
  next
    case (Some ob)
    let ?a = "if should_clean (e_disposition e) en then Remove (dep, key) ob True else Adopt (dep, key) ob"
    have asks: "asks_receipt (dep, key) ?a" by (simp add: asks_receipt_def)
    show ?thesis
    proof (cases "labelled_for ob (e_app e) dep")
      case True
      then have planned: "plan_entry obs ended e = Some ?a"
        using unconfirmed_plan [OF e(1,2) live assms(4,6), of obs] Some by simp
      from unconfirmed_action [OF u asks, of bk now] unconfirmed_reconcile [OF e(1) u planned asks, of bk] planned True Some
      show ?thesis by auto
    next
      case False
      then show ?thesis using unconfirmed_plan [OF e(1,2) live assms(4,6), of obs] Some by simp
    qed
  qed
  show ?thesis using e unconfirmed_refuses [OF u] branches by blast
qed

definition unconfirmed_key :: resource_key where
  "unconfirmed_key = resource_key_new Container ''hp-x''"

definition failed_listing :: "u64 \<Rightarrow> ledger_record list" where
  "failed_listing t =
     [CleanupAttempt unconfirmed_key (DeploymentId 7) t,
      CleanupResult unconfirmed_key (DeploymentId 7) (OFailed ''could not list the runtime: down'') t]"

definition unconfirmed_entry_example :: "u32 \<Rightarrow> entry" where
  "unconfirmed_entry_example n =
     \<lparr>e_key = unconfirmed_key, e_app = ApplicationId 3, e_deployment = DeploymentId 7,
      e_disposition = RemoveOnFailure, e_id = None, e_state = CleanupFailed ''could not list the runtime: down'',
      e_attempts = n, e_outstanding = False, e_intent_ms = 100\<rparr>"

definition unconfirmed_object :: observed where
  "unconfirmed_object = \<lparr>ob_kind = Container, ob_name = ''hp-x'', ob_id = ''fake-0001'',
     ob_labels = labels_for_deployment (ApplicationId 3) (DeploymentId 7)\<rparr>"

definition listing_backend :: "fake backend" where
  "listing_backend = fake_backend\<lparr>bk_list_resources := \<lambda>w. (Inr [unconfirmed_object], w)\<rparr>"

definition unconfirmed_core :: "fake core" where
  "unconfirmed_core = \<lparr>c_world = runtime_fake, c_journal = journal_new,
     c_ledger = [unconfirmed_entry_example 2], c_trace = []\<rparr>"

lemma unconfirmed_ledgers:
  "led_replay (Intent unconfirmed_key (ApplicationId 3) (DeploymentId 7) RemoveOnFailure 100 # failed_listing 200) =
     Inr [unconfirmed_entry_example 1]"
  "led_replay_from 0 [unconfirmed_entry_example 1] (failed_listing 300) = Inr (c_ledger unconfirmed_core)"
  by (simp_all add: failed_listing_def unconfirmed_key_def unconfirmed_core_def unconfirmed_entry_example_def led_replay_def
      ledger_step_defs)

theorem failed_unconfirmed_cleanup_blocks_witness:
  "fst (execute_action listing_backend fake_now (Remove (DeploymentId 7, unconfirmed_key) unconfirmed_object True)
     unconfirmed_core) = Fail (ELedger (ReceiptConflict unconfirmed_key)) \<and>
   (\<forall>us. fst (reconcile listing_backend fake_now [(DeploymentId 7, NotSucceeded)] unconfirmed_core) \<noteq> Ok us)"
proof -
  let ?e = "unconfirmed_entry_example 2"
  have found: "led_find [unconfirmed_entry_example n] (DeploymentId 7) unconfirmed_key = Some (unconfirmed_entry_example n)" for n
    by (simp add: led_find_def is_entry_def unconfirmed_entry_example_def)
  have core: "c_ledger unconfirmed_core = [?e]" by (simp add: unconfirmed_core_def)
  have live: "\<not> is_released ?e" "\<not> is_refused ?e"
    by (simp_all add: unconfirmed_entry_example_def is_released_def is_refused_def)
  have obj: "find_object [unconfirmed_object] ?e = Some unconfirmed_object"
    by (simp add: find_object_def unconfirmed_object_def unconfirmed_entry_example_def unconfirmed_key_def resource_key_new_def)
  have lab: "labelled_for unconfirmed_object (e_app ?e) (DeploymentId 7)"
    by (simp add: unconfirmed_object_def unconfirmed_entry_example_def labelled_for_def ob_label_def
        labels_for_deployment_def label_managed_def label_app_def label_deployment_def)
  have key: "rk_kind unconfirmed_key \<noteq> PortLease" by (simp add: unconfirmed_key_def resource_key_new_def)
  have ended: "ended_as [(DeploymentId 7, NotSucceeded)] (DeploymentId 7) = Some NotSucceeded" by (simp add: ended_as_def)
  have plan: "plan_entry [unconfirmed_object] [(DeploymentId 7, NotSucceeded)] ?e =
      Some (Remove (DeploymentId 7, unconfirmed_key) unconfirmed_object True)"
    using obj lab key live ended by (simp add: plan_entry_def Let_def) (simp add: unconfirmed_entry_example_def)
  have "bk_list_resources listing_backend (c_world unconfirmed_core) = (Inr [unconfirmed_object], c_world unconfirmed_core)"
    by (simp add: listing_backend_def)
  with failed_unconfirmed_cleanup_blocks [OF found [of 1] _ _ key unconfirmed_ledgers(2) ended, of _ listing_backend fake_now]
    found [of 2] core live obj lab plan
  show ?thesis by (fastforce simp: unconfirmed_entry_example_def dest: spec [of _ "[unconfirmed_object]"])
qed

end
