(* ===== verification/EnvVars.thy ===== *)
theory EnvVars
  imports LedgerCodec Logs "HOL-Library.Product_Lexorder"
begin

text \<open>
  The checked environment of a release (\<open>deploy/src/envvars.rs\<close>): names, values and whole sets. The
  wording of the errors is left out; each error is a constructor with what the message is made of.
\<close>

datatype env_error =
    NoEquals string
  | NameEmpty
  | NameTooLong string
  | NameInvalid string
  | NameReserved string
  | ValueTooLong string
  | ControlCharacter string nat
  | TooManyVariables nat
  | GivenTwice string
  | TooManyBytes nat

definition env_marker :: string where "env_marker = ''HARPOON_DEPLOYMENT_MARKER''"
definition reserved_prefix :: string where "reserved_prefix = ''HARPOON_''"
definition max_variables :: nat where "max_variables = 64"
definition max_name_bytes :: nat where "max_name_bytes = 128"
definition max_value_bytes :: nat where "max_value_bytes = 4096"
definition max_total_bytes :: nat where "max_total_bytes = 32 * 1024"

definition ascii_alphabetic :: "char \<Rightarrow> bool" where
  "ascii_alphabetic c \<longleftrightarrow> between 65 c 90 \<or> between 97 c 122"

definition ascii_digit :: "char \<Rightarrow> bool" where
  "ascii_digit c \<longleftrightarrow> between 48 c 57"

definition name_char :: "char \<Rightarrow> bool" where
  "name_char c \<longleftrightarrow> ascii_alphabetic c \<or> ascii_digit c \<or> c = CHR ''_''"

fun check_name :: "string \<Rightarrow> env_error + unit" where
  "check_name [] = Inl NameEmpty"
| "check_name (c # cs) =
     (if max_name_bytes < length (c # cs) then Inl (NameTooLong (c # cs))
      else if \<not> (ascii_alphabetic c \<or> c = CHR ''_'') \<or> \<not> list_all name_char cs then Inl (NameInvalid (c # cs))
      else if starts_with (c # cs) reserved_prefix then Inl (NameReserved (c # cs))
      else Inr ())"

text \<open>
  \<open>char::is_control\<close>: the code points below 0x20 and from 0x7F to 0x9F; the latter, but for 0x7F, are
  the two-byte sequences that start with 0xC2 and go on below 0xA0.
\<close>

fun find_control :: "string \<Rightarrow> nat option" where
  "find_control [] = None"
| "find_control [a] = (if byte a < 0x20 \<or> byte a = 0x7F then Some (byte a) else None)"
| "find_control (a # b # s) =
     (if byte a < 0x20 \<or> byte a = 0x7F then Some (byte a)
      else if byte a = 0xC2 \<and> byte b < 0xA0 then Some (byte b)
      else find_control (b # s))"

definition check_value :: "string \<Rightarrow> string \<Rightarrow> env_error + unit" where
  "check_value name v =
     (if max_value_bytes < length v then Inl (ValueTooLong name)
      else case find_control v of
             Some c \<Rightarrow> Inl (ControlCharacter name c)
           | None \<Rightarrow> Inr ())"

definition parse_one :: "string \<Rightarrow> env_error + string \<times> string" where
  "parse_one arg =
     bind_res (ok_or (split_once (CHR ''='') arg) (NoEquals arg)) (\<lambda>(name, v).
     bind_res (check_name name) (\<lambda>_. bind_res (check_value name v) (\<lambda>_. Inr (name, v))))"

text \<open>The loop of \<open>validate\<close>, with the names seen and the total size so far.\<close>

fun check_pairs :: "string set \<Rightarrow> nat \<Rightarrow> (string \<times> string) list \<Rightarrow> env_error + nat" where
  "check_pairs seen used [] = Inr used"
| "check_pairs seen used ((n, v) # ps) =
     bind_res (check_name n) (\<lambda>_.
     bind_res (check_value n v) (\<lambda>_.
     if n \<in> seen then Inl (GivenTwice n)
     else check_pairs (insert n seen) (used + (length n + length v + 1)) ps))"

definition validate_env :: "(string \<times> string) list \<Rightarrow> env_error + (string \<times> string) list" where
  "validate_env pairs =
     (if max_variables < length pairs then Inl (TooManyVariables (length pairs))
      else bind_res (check_pairs {} 0 pairs) (\<lambda>used.
        if max_total_bytes < used then Inl (TooManyBytes used) else Inr (sort pairs)))"

fun parse_each :: "string list \<Rightarrow> env_error + (string \<times> string) list" where
  "parse_each [] = Inr []"
| "parse_each (a # as) = bind_res (parse_one a) (\<lambda>p. bind_res (parse_each as) (\<lambda>ps. Inr (p # ps)))"

definition parse_all :: "string list \<Rightarrow> env_error + (string \<times> string) list" where
  "parse_all args = bind_res (parse_each args) validate_env"

definition docker_form :: "(string \<times> string) list \<Rightarrow> string list" where
  "docker_form pairs = map (\<lambda>(k, v). k @ ''='' @ v) pairs"

definition env_names :: "(string \<times> string) list \<Rightarrow> string" where
  "env_names pairs = (if pairs = [] then ''none'' else join_with '', '' (map fst pairs))"

section \<open>Lemmas\<close>

definition env_name_ok :: "string \<Rightarrow> bool" where
  "env_name_ok n \<longleftrightarrow> n \<noteq> [] \<and> length n \<le> max_name_bytes \<and> list_all name_char n \<and>
     \<not> ascii_digit (hd n) \<and> \<not> starts_with n reserved_prefix"

definition env_value_ok :: "string \<Rightarrow> bool" where
  "env_value_ok v \<longleftrightarrow> length v \<le> max_value_bytes \<and> find_control v = None"

definition env_size :: "(string \<times> string) list \<Rightarrow> nat" where
  "env_size ps = sum_list (map (\<lambda>(n, v). length n + length v + 1) ps)"

definition env_ok :: "(string \<times> string) list \<Rightarrow> bool" where
  "env_ok ps \<longleftrightarrow> length ps \<le> max_variables \<and> env_size ps \<le> max_total_bytes \<and> distinct (map fst ps) \<and>
     (\<forall>(n, v) \<in> set ps. env_name_ok n \<and> env_value_ok v)"

lemma check_name_iff: "check_name n = Inr () \<longleftrightarrow> env_name_ok n"
  by (cases n) (auto simp: env_name_ok_def name_char_def ascii_alphabetic_def ascii_digit_def between_def byte_def)

lemma check_value_iff: "check_value n v = Inr () \<longleftrightarrow> env_value_ok v"
  by (auto simp: check_value_def env_value_ok_def split: option.splits)

lemma check_pairs_iff:
  "check_pairs seen used ps = Inr t \<longleftrightarrow>
     (\<forall>(n, v) \<in> set ps. env_name_ok n \<and> env_value_ok v) \<and> distinct (map fst ps) \<and>
     seen \<inter> fst ` set ps = {} \<and> t = used + env_size ps"
proof (induction ps arbitrary: seen used)
  case (Cons p ps)
  then show ?case
    by (cases p) (auto simp: bind_res_Inr_iff check_name_iff check_value_iff env_size_def)
qed (auto simp: env_size_def)

lemma validate_env_iff: "validate_env ps = Inr qs \<longleftrightarrow> env_ok ps \<and> qs = sort ps"
  by (auto simp: validate_env_def env_ok_def bind_res_Inr_iff check_pairs_iff)

lemma env_name_no_equals: "env_name_ok n \<Longrightarrow> CHR ''='' \<notin> set n"
  by (auto simp: env_name_ok_def list_all_iff name_char_def ascii_alphabetic_def ascii_digit_def between_def byte_def)

text \<open>Docker's form of each checked variable parses back to it.\<close>

lemma docker_form_parses:
  assumes "env_ok ps"
  shows "parse_each (docker_form ps) = Inr ps"
proof -
  have "env_name_ok n \<Longrightarrow> env_value_ok v \<Longrightarrow> parse_one (n @ ''='' @ v) = Inr (n, v)" for n v
    using env_name_no_equals [of n]
    by (simp add: parse_one_def split_once_append check_name_iff [THEN iffD2] check_value_iff [THEN iffD2])
  then have "(\<forall>(n, v) \<in> set qs. env_name_ok n \<and> env_value_ok v) \<Longrightarrow> parse_each (docker_form qs) = Inr qs" for qs
    by (induction qs) (auto simp: docker_form_def)
  with assms show ?thesis by (simp add: env_ok_def)
qed

end
