(* ===== verification/ReleaseCodec.thy ===== *)
theory ReleaseCodec
  imports EnvVars Release
begin

text \<open>
  The text form of a pinned configuration (\<open>ReleaseConfig::encode\<close> and \<open>decode\<close> of
  \<open>deploy/src/release.rs\<close>) and of a reference to one secret version (\<open>deploy/src/secrets.rs\<close>).
\<close>

section \<open>Secret references\<close>

definition secret_account :: "secret_ref \<Rightarrow> string" where
  "secret_account r = sr_id r @ ''@'' @ show_word (sr_version r)"

text \<open>\<open>rsplit_once\<close>: at the last occurrence.\<close>

definition rsplit_once :: "char \<Rightarrow> string \<Rightarrow> (string \<times> string) option" where
  "rsplit_once c s = map_option (\<lambda>(a, b). (rev b, rev a)) (split_once c (rev s))"

definition secret_ref_parse :: "string \<Rightarrow> string + secret_ref" where
  "secret_ref_parse s =
     bind_res (ok_or (rsplit_once (CHR ''@'') s) ''a secret reference is <id>@<version>'') (\<lambda>(i, v).
     bind_res (ok_or (parse_word v) ''the secret version is not a number'') (\<lambda>version.
     if i = [] \<or> version = 0
     then Inl ''a secret reference needs an id and a version of at least 1''
     else Inr \<lparr>sr_id = i, sr_version = version\<rparr>))"

section \<open>Hexadecimal text\<close>

definition hex_text :: "string \<Rightarrow> string" where
  "hex_text s = concat (map (\<lambda>c. show_hex 2 (byte c)) s)"

text \<open>Pairs of digits; \<open>from_str_radix\<close> takes a plus sign for the first one.\<close>

fun unhex_bytes :: "string \<Rightarrow> string option" where
  "unhex_bytes [] = Some []"
| "unhex_bytes [a] = None"
| "unhex_bytes (a # b # s) =
     (case parse_hex 8 [a, b] of
        None \<Rightarrow> None
      | Some v \<Rightarrow> map_option ((#) (char_of v)) (unhex_bytes s))"

definition unhex :: "string \<Rightarrow> string option" where
  "unhex s =
     (case unhex_bytes s of
        None \<Rightarrow> None
      | Some bs \<Rightarrow> if utf8_valid bs then Some bs else None)"

section \<open>Signed numbers\<close>

definition show_signed :: "64 word \<Rightarrow> string" where
  "show_signed x = (if sint x < 0 then CHR ''-'' # show_nat (nat (- sint x)) else show_nat (nat (sint x)))"

text \<open>\<open>str::parse\<close> for \<open>i64\<close>.\<close>

definition parse_signed :: "string \<Rightarrow> int option" where
  "parse_signed s =
     (let neg = (s \<noteq> [] \<and> hd s = CHR ''-'');
          ds = (if s \<noteq> [] \<and> (hd s = CHR ''-'' \<or> hd s = CHR ''+'') then tl s else s)
      in if ds = [] then None
         else case digits_val 0 ds of
             None \<Rightarrow> None
           | Some v \<Rightarrow>
               let i = (if neg then - int v else int v)
               in if - (2 ^ 63) \<le> i \<and> i < 2 ^ 63 then Some i else None)"

section \<open>Encoding\<close>

fun expect_str :: "status_class \<Rightarrow> string" where
  "expect_str Success2xx = ''2xx''"
| "expect_str NotServerError = ''lt500''"

definition keyed :: "string \<Rightarrow> string \<Rightarrow> string" where
  "keyed key v = key @ ''='' @ v"

definition base_fields :: "release_config \<Rightarrow> string list" where
  "base_fields c =
     [keyed ''img'' (hex_text (image_id c)), keyed ''tag'' (hex_text (image_tag c)),
      keyed ''cport'' (show_word (container_port c)), keyed ''hport'' (show_word (host_port c)),
      keyed ''path'' (hex_text (hs_path (rc_health c))),
      keyed ''expect'' (expect_str (hs_expect (rc_health c))),
      keyed ''interval'' (show_word (interval_ms (rc_health c))),
      keyed ''ok'' (show_word (consecutive_ok (rc_health c))),
      keyed ''deadline'' (show_word (startup_deadline_ms (rc_health c))),
      keyed ''mem'' (show_signed (memory_bytes c)), keyed ''cpu'' (show_signed (nano_cpus c)),
      keyed ''pids'' (show_signed (pids c))]"

fun env_text :: "string \<times> string \<Rightarrow> string" where
  "env_text (k, v) = k @ ''='' @ v"

fun secret_text :: "string \<times> secret_ref \<Rightarrow> string" where
  "secret_text (n, r) = n @ ''='' @ secret_account r"

definition env_items :: "(string \<times> string) list \<Rightarrow> string" where
  "env_items ps = join_with '','' (map hex_text (map env_text ps))"

definition secret_items :: "(string \<times> secret_ref) list \<Rightarrow> string" where
  "secret_items ps = join_with '','' (map hex_text (map secret_text ps))"

definition opt_hex :: "string option \<Rightarrow> string" where
  "opt_hex v = (case v of None \<Rightarrow> [] | Some s \<Rightarrow> hex_text s)"

definition plain_config :: "release_config \<Rightarrow> bool" where
  "plain_config c \<longleftrightarrow> rc_secrets c = [] \<and> rc_snapshot c = None \<and> rc_build c = None"

definition config_fields :: "release_config \<Rightarrow> string list" where
  "config_fields c =
     (if plain_config c
      then if rc_env c = [] then ''v1'' # base_fields c
           else ''v2'' # base_fields c @ [keyed ''env'' (env_items (rc_env c))]
      else ''v3'' # base_fields c @
        [keyed ''env'' (env_items (rc_env c)), keyed ''sec'' (secret_items (rc_secrets c)),
         keyed ''snap'' (opt_hex (rc_snapshot c)), keyed ''build'' (opt_hex (rc_build c))])"

definition release_encode :: "release_config \<Rightarrow> string" where
  "release_encode c = join_with '';'' (config_fields c)"

section \<open>Decoding\<close>

datatype pin_error = PinText string | PinEnv env_error | PinSecretName env_error | PinSecret string

text \<open>The closure \<open>get\<close>: the value of the next field, which must have the given key, and the rest.\<close>

definition get_field :: "string \<Rightarrow> string list \<Rightarrow> pin_error + string \<times> string list" where
  "get_field key parts =
     (case parts of
        [] \<Rightarrow> Inl (PinText (''missing '' @ key))
      | p # ps \<Rightarrow>
          (case strip_prefix (key @ ''='') p of
             None \<Rightarrow> Inl (PinText (''expected '' @ key))
           | Some v \<Rightarrow> Inr (v, ps)))"

definition get_num :: "string \<Rightarrow> string \<Rightarrow> string list \<Rightarrow> pin_error + int \<times> string list" where
  "get_num key what parts =
     bind_res (get_field key parts) (\<lambda>(v, ps).
     bind_res (ok_or (parse_signed v) (PinText (what @ '' is not a number''))) (\<lambda>n. Inr (n, ps)))"

definition get_text :: "string \<Rightarrow> string \<Rightarrow> string list \<Rightarrow> pin_error + string \<times> string list" where
  "get_text key what parts =
     bind_res (get_field key parts) (\<lambda>(v, ps).
     bind_res (ok_or (unhex v) (PinText (what @ '' is not valid''))) (\<lambda>s. Inr (s, ps)))"

definition get_expect :: "string list \<Rightarrow> pin_error + status_class \<times> string list" where
  "get_expect parts =
     bind_res (get_field ''expect'' parts) (\<lambda>(v, ps).
     if v = ''2xx'' then Inr (Success2xx, ps)
     else if v = ''lt500'' then Inr (NotServerError, ps)
     else Inl (PinText (''unknown health expectation '' @ v)))"

record raw_config =
  raw_image :: string
  raw_tag :: string
  raw_cport :: int
  raw_hport :: int
  raw_path :: string
  raw_expect :: status_class
  raw_interval :: int
  raw_ok :: int
  raw_deadline :: int
  raw_mem :: int
  raw_cpu :: int
  raw_pids :: int

definition decode_base :: "string list \<Rightarrow> pin_error + raw_config \<times> string list" where
  "decode_base ps =
     bind_res (get_text ''img'' ''image id'' ps) (\<lambda>(image, ps).
     bind_res (get_text ''tag'' ''image tag'' ps) (\<lambda>(tag, ps).
     bind_res (get_num ''cport'' ''container port'' ps) (\<lambda>(cport, ps).
     bind_res (get_num ''hport'' ''host port'' ps) (\<lambda>(hport, ps).
     bind_res (get_text ''path'' ''health path'' ps) (\<lambda>(path, ps).
     bind_res (get_expect ps) (\<lambda>(ex, ps).
     bind_res (get_num ''interval'' ''health interval'' ps) (\<lambda>(interval, ps).
     bind_res (get_num ''ok'' ''consecutive successes'' ps) (\<lambda>(ok, ps).
     bind_res (get_num ''deadline'' ''health deadline'' ps) (\<lambda>(deadline, ps).
     bind_res (get_num ''mem'' ''memory'' ps) (\<lambda>(mem, ps).
     bind_res (get_num ''cpu'' ''cpu'' ps) (\<lambda>(cpu, ps).
     bind_res (get_num ''pids'' ''pids'' ps) (\<lambda>(pid, ps).
     Inr (\<lparr>raw_image = image, raw_tag = tag, raw_cport = cport, raw_hport = hport, raw_path = path,
           raw_expect = ex, raw_interval = interval, raw_ok = ok, raw_deadline = deadline,
           raw_mem = mem, raw_cpu = cpu, raw_pids = pid\<rparr>, ps)))))))))))))"

text \<open>The items of a list field; empty ones are skipped.\<close>

definition items :: "string \<Rightarrow> string list" where
  "items raw = filter (\<lambda>i. i \<noteq> []) (split_on (CHR '','') raw)"

fun decode_env_items :: "string list \<Rightarrow> pin_error + (string \<times> string) list" where
  "decode_env_items [] = Inr []"
| "decode_env_items (i # is) =
     bind_res (ok_or (unhex i) (PinText ''an environment entry is not valid'')) (\<lambda>kv.
     bind_res (ok_or (split_once (CHR ''='') kv) (PinText ''an environment entry has no name'')) (\<lambda>p.
     bind_res (decode_env_items is) (\<lambda>ps. Inr (p # ps))))"

definition decode_env :: "string \<Rightarrow> string list \<Rightarrow> pin_error + (string \<times> string) list \<times> string list" where
  "decode_env version ps =
     (if version = ''v2'' \<or> version = ''v3'' then
        bind_res (get_field ''env'' ps) (\<lambda>(raw, ps).
        if raw = [] \<and> version = ''v2''
        then Inl (PinText ''a v2 pinned configuration has an empty environment (it would be v1)'')
        else
          bind_res (decode_env_items (items raw)) (\<lambda>pairs.
          bind_res (map_err PinEnv (validate_env pairs)) (\<lambda>canonical.
          if canonical \<noteq> pairs
          then Inl (PinText ''the pinned environment is not in canonical order'')
          else Inr (canonical, ps))))
      else Inr ([], ps))"

fun decode_secret_items :: "string list \<Rightarrow> pin_error + (string \<times> secret_ref) list" where
  "decode_secret_items [] = Inr []"
| "decode_secret_items (i # is) =
     bind_res (ok_or (unhex i) (PinText ''a secret entry is not valid'')) (\<lambda>kv.
     bind_res (ok_or (split_once (CHR ''='') kv) (PinText ''a secret entry has no name'')) (\<lambda>(n, r).
     bind_res (map_err PinSecretName (check_name n)) (\<lambda>_.
     bind_res (map_err PinSecret (secret_ref_parse r)) (\<lambda>sr.
     bind_res (decode_secret_items is) (\<lambda>ps. Inr ((n, sr) # ps))))))"

text \<open>\<open>windows(2)\<close>: each name is below the next one.\<close>

fun strictly_rising :: "string list \<Rightarrow> bool" where
  "strictly_rising (a # b # ns) \<longleftrightarrow> a < b \<and> strictly_rising (b # ns)"
| "strictly_rising ns \<longleftrightarrow> True"

definition decode_opt :: "string \<Rightarrow> string \<Rightarrow> pin_error + string option" where
  "decode_opt what v =
     (if v = [] then Inr None
      else bind_res (ok_or (unhex v) (PinText (''the pinned '' @ what @ '' is not valid''))) (\<lambda>s. Inr (Some s)))"

type_synonym v3_fields = "(string \<times> secret_ref) list \<times> string option \<times> string option"

definition decode_v3 ::
  "string \<Rightarrow> (string \<times> string) list \<Rightarrow> string list \<Rightarrow> pin_error + v3_fields \<times> string list" where
  "decode_v3 version env ps =
     (if version = ''v3'' then
        bind_res (get_field ''sec'' ps) (\<lambda>(raw, ps).
        bind_res (decode_secret_items (items raw)) (\<lambda>secrets.
        if \<not> strictly_rising (map fst secrets)
        then Inl (PinText ''the pinned secrets are not unique and in canonical order'')
        else if fst ` set secrets \<inter> fst ` set env \<noteq> {}
        then Inl (PinText ''a name is pinned both as a value and as a secret'')
        else
          bind_res (get_field ''snap'' ps) (\<lambda>(raw, ps).
          bind_res (decode_opt ''snapshot id'' raw) (\<lambda>snapshot.
          bind_res (get_field ''build'' ps) (\<lambda>(raw, ps).
          bind_res (decode_opt ''build identity'' raw) (\<lambda>build.
          if secrets = [] \<and> snapshot = None \<and> build = None
          then Inl (PinText ''a v3 pinned configuration with nothing v3 about it (it would be v1 or v2)'')
          else Inr ((secrets, snapshot, build), ps)))))))
      else Inr (([], None, None), ps))"

definition in_range :: "nat \<Rightarrow> string \<Rightarrow> int \<Rightarrow> pin_error + 'a::len word" where
  "in_range w why v = (if 0 \<le> v \<and> v < 2 ^ w then Inr (of_int v) else Inl (PinText why))"

definition finish_config ::
  "raw_config \<Rightarrow> (string \<times> string) list \<Rightarrow> v3_fields \<Rightarrow> pin_error + release_config" where
  "finish_config raw env v3 =
     (if \<not> starts_with (raw_image raw) ''sha256:''
      then Inl (PinText ''the pinned image is not an exact image id'')
      else
        bind_res (in_range 16 ''container port is out of range'' (raw_cport raw)) (\<lambda>cport.
        bind_res (in_range 16 ''host port is out of range'' (raw_hport raw)) (\<lambda>hport.
        bind_res (in_range 64 ''health interval is negative'' (raw_interval raw)) (\<lambda>interval.
        bind_res (in_range 8 ''consecutive successes out of range'' (raw_ok raw)) (\<lambda>ok.
        bind_res (in_range 64 ''health deadline is negative'' (raw_deadline raw)) (\<lambda>deadline.
        Inr \<lparr>image_id = raw_image raw, image_tag = raw_tag raw, container_port = cport, host_port = hport,
             rc_health = \<lparr>hs_path = raw_path raw, hs_expect = raw_expect raw, interval_ms = interval,
               consecutive_ok = ok, startup_deadline_ms = deadline\<rparr>,
             memory_bytes = of_int (raw_mem raw), nano_cpus = of_int (raw_cpu raw), pids = of_int (raw_pids raw),
             rc_env = env, rc_secrets = fst v3, rc_snapshot = fst (snd v3), rc_build = snd (snd v3)\<rparr>))))))"

definition decode_fields_config :: "string \<Rightarrow> string list \<Rightarrow> pin_error + release_config" where
  "decode_fields_config version ps =
     bind_res (decode_base ps) (\<lambda>(raw, ps).
     bind_res (decode_env version ps) (\<lambda>(env, ps).
     bind_res (decode_v3 version env ps) (\<lambda>(v3, ps).
     if ps \<noteq> [] then Inl (PinText ''unexpected trailing fields'') else finish_config raw env v3)))"

definition release_decode :: "string \<Rightarrow> pin_error + release_config" where
  "release_decode s =
     (case split_on (CHR '';'') s of
        [] \<Rightarrow> Inl (PinText ''unknown pinned-configuration version'')
      | version # ps \<Rightarrow>
          if version \<noteq> ''v1'' \<and> version \<noteq> ''v2'' \<and> version \<noteq> ''v3''
          then Inl (PinText ''unknown pinned-configuration version'')
          else decode_fields_config version ps)"

section \<open>Text and numbers, printed and parsed\<close>

lemma utf8_split:
  assumes "utf8_valid (a @ c # b)" and "byte c < 0x80"
  shows "utf8_valid a \<and> utf8_valid b"
  using assms(1)
proof (induction "a @ c # b" arbitrary: a rule: utf8_induct)
  case (Ascii x t)
  then show ?case by (cases a) (auto simp: utf8_ascii_Cons)
next
  case (Multi p t)
  have "\<exists>a'. a = p @ a'"
  proof -
    from Multi.hyps(5) obtain us where "p = a @ us \<and> us @ t = c # b \<or> p @ us = a \<and> t = us @ c # b"
      by (auto simp: append_eq_append_conv2)
    moreover have "us = []" if "p = a @ us" "us @ t = c # b"
      using that Multi.hyps(2) assms(2) by (cases us) auto
    ultimately show ?thesis by auto
  qed
  then obtain a' where a: "a = p @ a'" by blast
  with Multi.hyps(5) have "t = a' @ c # b" by simp
  with Multi.hyps(4) have "utf8_valid a'" "utf8_valid b" by blast+
  then show ?case using Multi.hyps(1) utf8_step [of "p @ a'" a'] by (simp add: a)
qed simp

definition hex_clean :: "string \<Rightarrow> bool" where
  "hex_clean s \<longleftrightarrow> (\<forall>c \<in> set s. between 48 c 57 \<or> between 97 c 102)"

lemma hex_text_clean: "hex_clean (hex_text s)"
  using show_hex_chars [of _ 2] by (auto simp: hex_clean_def hex_text_def between_def byte_def)

lemma show_hex_2: "show_hex 2 n = [hex_char (n div 16 mod 16), hex_char (n mod 16)]"
  by (simp add: numeral_2_eq_2)

lemma unhex_hex: "unhex_bytes (hex_text s) = Some s"
proof (induction s)
  case (Cons c s)
  have "parse_hex 8 (show_hex 2 (byte c)) = Some (byte c)"
    by (rule parse_hex_show_hex) (simp_all add: byte_def)
  with Cons show ?case by (simp add: hex_text_def show_hex_2 byte_def)
qed (simp add: hex_text_def)

lemma unhex_hex_text [simp]: "utf8_valid s \<Longrightarrow> unhex (hex_text s) = Some s"
  by (simp add: unhex_def unhex_hex)

lemma hex_text_Nil_iff [simp]: "hex_text s = [] \<longleftrightarrow> s = []"
  by (cases s) (simp_all add: hex_text_def show_hex_2)

lemma unhex_utf8: "unhex s = Some t \<Longrightarrow> utf8_valid t"
  by (auto simp: unhex_def split: option.splits if_splits)

lemma parse_show_signed [simp]: "parse_signed (show_signed x) = Some (sint x)"
proof -
  have range: "- (2 ^ 63) \<le> sint x" "sint x < 2 ^ 63"
    using sint_ge [of x] sint_lt [of x] by simp_all
  have start: "\<exists>c cs. show_nat n = c # cs \<and> c \<noteq> CHR ''-'' \<and> c \<noteq> CHR ''+''" for n
  proof -
    obtain c cs where s: "show_nat n = c # cs" by (cases "show_nat n") auto
    with show_nat_digits [of c n] have "48 \<le> (of_char c :: nat)" by simp
    with s show ?thesis by auto
  qed
  show ?thesis
  proof (cases "sint x < 0")
    case True
    then show ?thesis using range by (simp add: show_signed_def parse_signed_def digits_val_show_nat Let_def)
  next
    case False
    obtain c cs where "show_nat (nat (sint x)) = c # cs" "c \<noteq> CHR ''-''" "c \<noteq> CHR ''+''" using start by blast
    then show ?thesis using range False digits_val_show_nat [of "nat (sint x)"]
      by (simp add: show_signed_def parse_signed_def Let_def)
  qed
qed

lemma parse_signed_show_word:
  assumes "uint x < 2 ^ 63"
  shows "parse_signed (show_word x) = Some (uint x)"
proof -
  obtain c cs where s: "show_nat (unat x) = c # cs" by (cases "show_nat (unat x)") auto
  with show_nat_digits [of c "unat x"] have "48 \<le> (of_char c :: nat)" by simp
  with s have "c \<noteq> CHR ''-''" "c \<noteq> CHR ''+''" by auto
  with s assms digits_val_show_nat [of "unat x"] show ?thesis
    by (simp add: show_word_def parse_signed_def Let_def order_trans [OF _ uint_ge_0])
qed

lemma parse_signed_range: "parse_signed s = Some i \<Longrightarrow> - (2 ^ 63) \<le> i \<and> i < 2 ^ 63"
  by (auto simp: parse_signed_def Let_def split: if_splits option.splits)

lemma rsplit_once_append: "c \<notin> set b \<Longrightarrow> rsplit_once c (a @ c # b) = Some (a, b)"
  by (simp add: rsplit_once_def split_once_append)

lemma rsplit_once_Some: "rsplit_once c s = Some (a, b) \<Longrightarrow> s = a @ c # b \<and> c \<notin> set b"
  by (auto simp: rsplit_once_def dest!: split_once_Some) (metis append.assoc append_Cons append_Nil rev.simps(2) rev_append rev_rev_ident)

lemma secret_ref_parse_account:
  assumes "sr_id r \<noteq> []" and "sr_version r \<noteq> 0"
  shows "secret_ref_parse (secret_account r) = Inr r"
proof -
  have "CHR ''@'' \<notin> set (show_word (sr_version r))"
    using show_word_no_special [of "CHR ''@''" "sr_version r"] by auto
  then show ?thesis using assms by (simp add: secret_ref_parse_def secret_account_def rsplit_once_append)
qed

lemma secret_ref_parse_Inr:
  "secret_ref_parse s = Inr r \<Longrightarrow>
   sr_id r \<noteq> [] \<and> sr_version r \<noteq> 0 \<and> (\<exists>v. s = sr_id r @ CHR ''@'' # v)"
  by (auto simp: secret_ref_parse_def bind_res_Inr_iff split: if_splits dest!: rsplit_once_Some)

section \<open>Well-formed configurations\<close>

definition secrets_ok :: "(string \<times> secret_ref) list \<Rightarrow> bool" where
  "secrets_ok ss \<longleftrightarrow> strictly_rising (map fst ss) \<and>
     (\<forall>(n, r) \<in> set ss. env_name_ok n \<and> sr_id r \<noteq> [] \<and> sr_version r \<noteq> 0 \<and> utf8_valid (sr_id r))"

definition opt_text_ok :: "string option \<Rightarrow> bool" where
  "opt_text_ok v \<longleftrightarrow> (case v of None \<Rightarrow> True | Some s \<Rightarrow> s \<noteq> [] \<and> utf8_valid s)"

text \<open>
  What a pinned configuration must satisfy to survive its text form. The numbers of the health check
  are unsigned in the record and signed in the text.
\<close>

definition config_ok :: "release_config \<Rightarrow> bool" where
  "config_ok c \<longleftrightarrow>
     starts_with (image_id c) ''sha256:'' \<and> utf8_valid (image_id c) \<and> utf8_valid (image_tag c) \<and>
     utf8_valid (hs_path (rc_health c)) \<and>
     uint (interval_ms (rc_health c)) < 2 ^ 63 \<and> uint (startup_deadline_ms (rc_health c)) < 2 ^ 63 \<and>
     env_ok (rc_env c) \<and> sorted (rc_env c) \<and> (\<forall>(k, v) \<in> set (rc_env c). utf8_valid v) \<and>
     secrets_ok (rc_secrets c) \<and> fst ` set (rc_secrets c) \<inter> fst ` set (rc_env c) = {} \<and>
     opt_text_ok (rc_snapshot c) \<and> opt_text_ok (rc_build c)"

lemma env_name_utf8: "env_name_ok n \<Longrightarrow> utf8_valid n"
  by (rule utf8_ascii) (auto simp: env_name_ok_def list_all_iff name_char_def ascii_alphabetic_def
      ascii_digit_def between_def byte_def)

subsection \<open>Fields\<close>

definition clean_field :: "string \<Rightarrow> bool" where
  "clean_field s \<longleftrightarrow> (\<forall>c \<in> set s. byte c \<noteq> 59 \<and> 32 < byte c)"

lemma clean_simps [simp]:
  "clean_field []" "clean_field (a @ b) \<longleftrightarrow> clean_field a \<and> clean_field b"
  "clean_field (x # a) \<longleftrightarrow> byte x \<noteq> 59 \<and> 32 < byte x \<and> clean_field a"
  by (auto simp: clean_field_def)

lemma hex_clean_field: "hex_clean s \<Longrightarrow> clean_field s"
  by (fastforce simp: hex_clean_def clean_field_def between_def)

lemma nat_clean_field: "clean_field (show_nat n)"
  using show_nat_digits [of _ n] by (fastforce simp: clean_field_def byte_def)

lemma word_clean_field: "clean_field (show_word x)"
  using nat_clean_field by (simp add: show_word_def)

lemma signed_clean_field: "clean_field (show_signed x)"
  using nat_clean_field by (simp add: show_signed_def byte_def)

lemma clean_join: "clean_field sep \<Longrightarrow> list_all clean_field fs \<Longrightarrow> clean_field (join_with sep fs)"
  by (induction sep fs rule: join_with.induct) simp_all

lemma clean_keyed: "clean_field key \<Longrightarrow> clean_field v \<Longrightarrow> clean_field (keyed key v)"
  by (simp add: keyed_def byte_def)

lemma config_fields_clean: "list_all clean_field (config_fields c)"
proof -
  have lits: "clean_field ''v1''" "clean_field ''v2''" "clean_field ''v3''" "clean_field ''img''"
    "clean_field ''tag''" "clean_field ''cport''" "clean_field ''hport''" "clean_field ''path''"
    "clean_field ''expect''" "clean_field ''interval''" "clean_field ''ok''" "clean_field ''deadline''"
    "clean_field ''mem''" "clean_field ''cpu''" "clean_field ''pids''" "clean_field ''env''"
    "clean_field ''sec''" "clean_field ''snap''" "clean_field ''build''" "clean_field '',''" "clean_field []"
    by (simp_all add: byte_def)
  have expect: "clean_field (expect_str x)" for x by (cases x) (simp_all add: byte_def)
  have hex: "clean_field (hex_text s)" for s by (rule hex_clean_field [OF hex_text_clean])
  have lists: "clean_field (env_items ps)" "clean_field (secret_items ss)" for ps ss
    unfolding env_items_def secret_items_def
    by (rule clean_join; simp add: byte_def list_all_iff hex case_prod_beta)+
  have opt: "clean_field (opt_hex v)" for v by (cases v) (simp_all add: opt_hex_def hex lits)
  note vals = expect hex lists opt word_clean_field signed_clean_field
  have base: "list_all clean_field (base_fields c)"
    by (simp add: base_fields_def) (intro conjI clean_keyed lits vals)
  have "clean_field (keyed ''env'' (env_items (rc_env c)))" "clean_field (keyed ''sec'' (secret_items (rc_secrets c)))"
    "clean_field (keyed ''snap'' (opt_hex (rc_snapshot c)))" "clean_field (keyed ''build'' (opt_hex (rc_build c)))"
    by (intro clean_keyed lits vals)+
  with base show ?thesis by (simp add: config_fields_def byte_def)
qed

lemma split_release_encode: "split_on (CHR '';'') (release_encode c) = config_fields c"
  unfolding release_encode_def
proof (rule split_on_join)
  show "config_fields c \<noteq> []" by (simp add: config_fields_def)
  show "\<forall>f \<in> set (config_fields c). CHR '';'' \<notin> set f"
    using config_fields_clean [of c] by (fastforce simp: list_all_iff clean_field_def byte_def)
qed

lemma strip_prefix_append [simp]: "strip_prefix p (p @ r) = Some r"
  by (simp add: strip_prefix_Some_iff)

lemma get_keyed [simp]: "get_field key (keyed key v # ps) = Inr (v, ps)"
  using strip_prefix_append [of "key @ ''=''" v] by (simp add: get_field_def keyed_def del: strip_prefix_append)

lemma get_field_Inr: "get_field key ps = Inr (v, qs) \<longleftrightarrow> ps = keyed key v # qs"
proof
  assume "get_field key ps = Inr (v, qs)"
  then show "ps = keyed key v # qs"
    by (auto simp: get_field_def keyed_def strip_prefix_Some_iff split: list.splits option.splits)
qed simp

definition raw_of :: "release_config \<Rightarrow> raw_config" where
  "raw_of c =
     \<lparr>raw_image = image_id c, raw_tag = image_tag c, raw_cport = uint (container_port c),
      raw_hport = uint (host_port c), raw_path = hs_path (rc_health c),
      raw_expect = hs_expect (rc_health c), raw_interval = uint (interval_ms (rc_health c)),
      raw_ok = uint (consecutive_ok (rc_health c)),
      raw_deadline = uint (startup_deadline_ms (rc_health c)), raw_mem = sint (memory_bytes c),
      raw_cpu = sint (nano_cpus c), raw_pids = sint (pids c)\<rparr>"

lemma small_word:
  "uint (x :: u8) < 9223372036854775808" "uint (y :: u16) < 9223372036854775808"
  using uint_bounded [of x] uint_bounded [of y] by simp_all

lemma decode_base_fields:
  assumes "config_ok c"
  shows "decode_base (base_fields c @ ps) = Inr (raw_of c, ps)"
proof -
  have ex: "get_expect (keyed ''expect'' (expect_str x) # qs) = Inr (x, qs)" for x qs
    by (cases x) (simp_all add: get_expect_def)
  show ?thesis using assms
    by (simp add: decode_base_def base_fields_def get_text_def get_num_def ex config_ok_def
        parse_signed_show_word small_word raw_of_def)
qed

subsection \<open>Lists\<close>

lemma items_join:
  assumes "\<forall>x \<in> set xs. x \<noteq> []"
  shows "items (join_with '','' (map hex_text xs)) = map hex_text xs"
proof (cases "xs = []")
  case False
  have "CHR '','' \<notin> set (hex_text x)" for x
    using hex_text_clean [of x] by (auto simp: hex_clean_def between_def byte_def)
  then have "split_on (CHR '','') (join_with '','' (map hex_text xs)) = map hex_text xs"
    using False by (intro split_on_join) auto
  then show ?thesis using assms by (simp add: items_def filter_id_conv)
qed (simp add: items_def)

lemma decode_env_items_hex:
  "\<forall>(k, v) \<in> set ps. env_name_ok k \<and> utf8_valid v \<Longrightarrow>
   decode_env_items (map hex_text (map env_text ps)) = Inr ps"
proof (induction ps)
  case (Cons p ps)
  obtain k v where p: "p = (k, v)" by (cases p)
  with Cons.prems have "env_name_ok k" "utf8_valid v" by auto
  then have "utf8_valid (k @ ''='' @ v)" "split_once (CHR ''='') (k @ ''='' @ v) = Some (k, v)"
    using env_name_utf8 env_name_no_equals by (simp_all add: utf8_append utf8_ascii_Cons byte_def split_once_append)
  then show ?case using Cons by (simp add: p)
qed simp

lemma account_utf8: "utf8_valid (sr_id r) \<Longrightarrow> utf8_valid (secret_account r)"
  by (simp add: secret_account_def utf8_append utf8_ascii_Cons utf8_word byte_def)

lemma decode_secret_items_hex:
  "\<forall>(n, r) \<in> set ps. env_name_ok n \<and> sr_id r \<noteq> [] \<and> sr_version r \<noteq> 0 \<and> utf8_valid (sr_id r) \<Longrightarrow>
   decode_secret_items (map hex_text (map secret_text ps)) = Inr ps"
proof (induction ps)
  case (Cons p ps)
  obtain n r where p: "p = (n, r)" by (cases p)
  with Cons.prems have ok: "env_name_ok n" "sr_id r \<noteq> []" "sr_version r \<noteq> 0" "utf8_valid (sr_id r)" by auto
  then have "utf8_valid (n @ ''='' @ secret_account r)"
      "split_once (CHR ''='') (n @ ''='' @ secret_account r) = Some (n, secret_account r)"
    using env_name_utf8 env_name_no_equals
    by (simp_all add: utf8_append utf8_ascii_Cons byte_def split_once_append account_utf8)
  then show ?case using Cons ok by (simp add: p check_name_iff [THEN iffD2] secret_ref_parse_account)
qed simp

lemma items_env: "items (env_items ps) = map hex_text (map env_text ps)"
  unfolding env_items_def by (rule items_join) auto

lemma items_secret: "items (secret_items ps) = map hex_text (map secret_text ps)"
  unfolding secret_items_def by (rule items_join) auto

lemma join_Nil_iff: "\<forall>f \<in> set fs. f \<noteq> [] \<Longrightarrow> join_with sep fs = [] \<longleftrightarrow> fs = []"
  by (cases "(sep, fs)" rule: join_with.cases) auto

lemma env_items_Nil: "env_items ps = [] \<longleftrightarrow> ps = []"
  unfolding env_items_def by (subst join_Nil_iff) auto

lemma decode_env_fields:
  assumes "config_ok c" and "v = ''v2'' \<and> rc_env c \<noteq> [] \<or> v = ''v3''"
  shows "decode_env v (keyed ''env'' (env_items (rc_env c)) # ps) = Inr (rc_env c, ps)"
proof -
  have env: "env_ok (rc_env c)" "sorted (rc_env c)" "\<forall>(k, v) \<in> set (rc_env c). env_name_ok k \<and> utf8_valid v"
    using assms(1) by (auto simp: config_ok_def env_ok_def)
  then have "validate_env (rc_env c) = Inr (rc_env c)" by (simp add: validate_env_iff sorted_sort_id)
  then show ?thesis
    using assms(2) by (auto simp: decode_env_def env_items_Nil items_env decode_env_items_hex [OF env(3)] simp del: map_map)
qed

lemma decode_opt_hex: "opt_text_ok v \<Longrightarrow> decode_opt what (opt_hex v) = Inr v"
  by (cases v) (auto simp: decode_opt_def opt_hex_def opt_text_ok_def)

lemma decode_v3_fields:
  assumes "config_ok c" and "\<not> plain_config c"
  shows "decode_v3 ''v3'' (rc_env c)
      (keyed ''sec'' (secret_items (rc_secrets c)) # keyed ''snap'' (opt_hex (rc_snapshot c)) #
       keyed ''build'' (opt_hex (rc_build c)) # ps) =
    Inr ((rc_secrets c, rc_snapshot c, rc_build c), ps)"
proof -
  have "decode_secret_items (items (secret_items (rc_secrets c))) = Inr (rc_secrets c)"
    unfolding items_secret
    by (rule decode_secret_items_hex) (use assms(1) in \<open>simp add: config_ok_def secrets_ok_def\<close>)
  then show ?thesis using assms
    by (auto simp: decode_v3_def decode_opt_hex config_ok_def secrets_ok_def plain_config_def)
qed

lemma in_range_word:
  "in_range LENGTH('a) why (uint x) = Inr x" for x :: "'a::len word"
  using uint_lt2p [of x] by (simp add: in_range_def)

lemma finish_config_raw:
  assumes "config_ok c"
  shows "finish_config (raw_of c) (rc_env c) (rc_secrets c, rc_snapshot c, rc_build c) = Inr c"
  using assms in_range_word [where 'a = 8] in_range_word [where 'a = 16] in_range_word [where 'a = 64]
  by (simp add: finish_config_def raw_of_def config_ok_def)

subsection \<open>What a decoded configuration satisfies\<close>

lemma get_text_Inr: "get_text key what ps = Inr (s, qs) \<Longrightarrow> utf8_valid s"
  by (auto simp: get_text_def bind_res_Inr_iff dest: unhex_utf8)

lemma get_num_Inr: "get_num key what ps = Inr (i, qs) \<Longrightarrow> i < 2 ^ 63"
  by (auto simp: get_num_def bind_res_Inr_iff dest: parse_signed_range)

lemma decode_base_Inr:
  assumes "decode_base ps = Inr (raw, qs)"
  shows "utf8_valid (raw_image raw)" "utf8_valid (raw_tag raw)" "utf8_valid (raw_path raw)"
    "raw_interval raw < 2 ^ 63" "raw_deadline raw < 2 ^ 63"
proof -
  from assms have "utf8_valid (raw_image raw) \<and> utf8_valid (raw_tag raw) \<and> utf8_valid (raw_path raw) \<and>
      raw_interval raw < 2 ^ 63 \<and> raw_deadline raw < 2 ^ 63"
    by (clarsimp simp: decode_base_def bind_res_Inr_iff simp del: power_numeral)
      (blast dest: get_text_Inr get_num_Inr)
  then show "utf8_valid (raw_image raw)" "utf8_valid (raw_tag raw)" "utf8_valid (raw_path raw)"
    "raw_interval raw < 2 ^ 63" "raw_deadline raw < 2 ^ 63" by simp_all
qed

lemma split_once_utf8:
  assumes "split_once c s = Some (a, b)" and "utf8_valid s" and "byte c < 0x80"
  shows "utf8_valid a \<and> utf8_valid b"
  using split_once_Some [OF assms(1)] utf8_split [of a c b] assms(2,3) by simp

lemma decode_env_items_Inr: "decode_env_items is = Inr ps \<Longrightarrow> \<forall>(k, v) \<in> set ps. utf8_valid v"
proof (induction "is" arbitrary: ps)
  case (Cons i "is")
  then obtain kv p qs where "unhex i = Some kv" "split_once (CHR ''='') kv = Some p"
      "decode_env_items is = Inr qs" "ps = p # qs" by (auto simp: bind_res_Inr_iff)
  with Cons.IH split_once_utf8 [of "CHR ''=''" kv] unhex_utf8 [of i kv] show ?case
    by (cases p) (auto simp: byte_def)
qed simp

lemma decode_env_Inr:
  assumes "decode_env v ps = Inr (env, qs)"
  shows "env_ok env \<and> sorted env \<and> (\<forall>(k, v) \<in> set env. utf8_valid v)"
proof (cases "v = ''v2'' \<or> v = ''v3''")
  case True
  with assms obtain raw where "decode_env_items (items raw) = Inr env" "validate_env env = Inr env"
    by (auto simp: decode_env_def bind_res_Inr_iff split: if_splits)
  with decode_env_items_Inr [of "items raw" env] sorted_sort [of env] show ?thesis
    by (metis validate_env_iff)
next
  case False
  with assms show ?thesis by (auto simp: decode_env_def env_ok_def env_size_def)
qed

lemma decode_secret_items_Inr:
  "decode_secret_items is = Inr ps \<Longrightarrow>
   \<forall>(n, r) \<in> set ps. env_name_ok n \<and> sr_id r \<noteq> [] \<and> sr_version r \<noteq> 0 \<and> utf8_valid (sr_id r)"
proof (induction "is" arbitrary: ps)
  case (Cons i "is")
  then obtain kv n r sr qs where kv: "unhex i = Some kv" "split_once (CHR ''='') kv = Some (n, r)"
      "check_name n = Inr ()" and sr: "secret_ref_parse r = Inr sr"
      and rest: "decode_secret_items is = Inr qs" "ps = (n, sr) # qs"
    by (auto simp: bind_res_Inr_iff)
  from kv have "utf8_valid r" using split_once_utf8 [of "CHR ''=''" kv] unhex_utf8 [of i kv] by (auto simp: byte_def)
  moreover from secret_ref_parse_Inr [OF sr] obtain v where "r = sr_id sr @ CHR ''@'' # v" by blast
  ultimately have "utf8_valid (sr_id sr)" using utf8_split [of "sr_id sr" "CHR ''@''" v] by (simp add: byte_def)
  with kv rest Cons.IH secret_ref_parse_Inr [OF sr] show ?case by (auto simp: check_name_iff)
qed simp

lemma decode_opt_Inr: "decode_opt what v = Inr s \<Longrightarrow> opt_text_ok s"
proof -
  have "unhex_bytes v = Some [] \<Longrightarrow> v = []" by (cases v rule: unhex_bytes.cases) (auto split: option.splits)
  then show "decode_opt what v = Inr s \<Longrightarrow> ?thesis"
    by (auto simp: decode_opt_def opt_text_ok_def bind_res_Inr_iff unhex_def split: if_splits option.splits)
qed

lemma decode_v3_Inr:
  assumes "decode_v3 v env ps = Inr ((ss, snapshot, build), qs)"
  shows "secrets_ok ss \<and> fst ` set ss \<inter> fst ` set env = {} \<and> opt_text_ok snapshot \<and> opt_text_ok build"
proof (cases "v = ''v3''")
  case True
  with assms show ?thesis
    by (auto simp: decode_v3_def bind_res_Inr_iff secrets_ok_def split: if_splits
        dest: decode_secret_items_Inr decode_opt_Inr)
next
  case False
  with assms show ?thesis by (auto simp: decode_v3_def secrets_ok_def opt_text_ok_def)
qed

lemma in_range_Inr: "in_range LENGTH('a) why v = Inr (x :: 'a::len word) \<Longrightarrow> uint x = v"
  by (auto simp: in_range_def unsigned_of_int take_bit_int_eq_self split: if_splits)

lemma decode_encode_pin:
  assumes "config_ok c"
  shows "release_decode (release_encode c) = Inr c"
proof -
  note fin = finish_config_raw [OF assms]
  note base = decode_base_fields [OF assms]
  consider (v1) "plain_config c" "rc_env c = []" | (v2) "plain_config c" "rc_env c \<noteq> []" | (v3) "\<not> plain_config c"
    by blast
  then show ?thesis
  proof cases
    case v1
    with fin base [of "[]"] show ?thesis
      by (simp add: release_decode_def split_release_encode config_fields_def decode_fields_config_def
          decode_env_def decode_v3_def plain_config_def)
  next
    case v2
    with fin base decode_env_fields [OF assms, of "''v2''"] show ?thesis
      by (simp add: release_decode_def split_release_encode config_fields_def decode_fields_config_def
          decode_v3_def plain_config_def)
  next
    case v3
    with fin base decode_env_fields [OF assms, of "''v3''"] decode_v3_fields [OF assms v3] show ?thesis
      by (simp add: release_decode_def split_release_encode config_fields_def decode_fields_config_def)
  qed
qed

section \<open>Properties\<close>

text \<open>
  Claim C18. A pinned configuration survives its text form, in each of the three versions of the
  format: decoding what was encoded gives back the same record, for every well-formed configuration.
\<close>

theorem release_pin_roundtrip:
  assumes "config_ok c"
  shows "release_decode (release_encode c) = Inr c"
  using assms by (rule decode_encode_pin)

definition example_pin :: release_config where
  "example_pin = (release_config_simulated 38007)
     \<lparr>image_id := ''sha256:0'', image_tag := [], rc_env := [(''A'', ''x=y''), (''B'', [])], rc_secrets := [(''TOKEN'', \<lparr>sr_id = ''s1'', sr_version = 2\<rparr>)],
      rc_snapshot := Some ''dep_1''\<rparr>"

lemma example_pin_ok: "config_ok example_pin"
proof -
  have env: "env_ok (rc_env example_pin)"
    by (simp add: example_pin_def env_ok_def env_size_def env_name_ok_def env_value_ok_def name_char_def
        ascii_alphabetic_def ascii_digit_def between_def byte_def max_variables_def max_name_bytes_def
        max_value_bytes_def max_total_bytes_def starts_with_def reserved_prefix_def)
  have "sorted (rc_env example_pin)" by code_simp
  moreover have "secrets_ok (rc_secrets example_pin)" by code_simp
  ultimately show ?thesis using env
    by (simp add: example_pin_def release_config_simulated_def health_spec_first_test_def config_ok_def
        starts_with_def opt_text_ok_def utf8_ascii byte_def)
qed

theorem release_pin_roundtrip_witness:
  "release_decode (release_encode example_pin) = Inr example_pin"
  by (rule release_pin_roundtrip [OF example_pin_ok])

text \<open>
  Claim C19. Whatever text is decoded, an accepted configuration is well-formed: an exact image id, text
  that is UTF-8, an environment and secret names that pass the checks of the command line, sorted and
  without a name in both, numbers in their ranges. With the previous property these are exactly the configurations
  that survive their text form.
\<close>

theorem decoded_pin_well_formed:
  assumes "release_decode s = Inr c"
  shows "config_ok c \<and> release_decode (release_encode c) = Inr c"
proof -
  obtain v ps where "split_on (CHR '';'') s = v # ps" "decode_fields_config v ps = Inr c"
    using assms by (auto simp: release_decode_def split: list.splits if_splits)
  then obtain raw p1 env p2 ss snapshot build p3 where base: "decode_base ps = Inr (raw, p1)"
    and env: "decode_env v p1 = Inr (env, p2)" and v3: "decode_v3 v env p2 = Inr ((ss, snapshot, build), p3)"
    and fin: "finish_config raw env (ss, snapshot, build) = Inr c"
    by (auto simp: decode_fields_config_def bind_res_Inr_iff split: if_splits)
  have "config_ok c"
    using fin decode_base_Inr [OF base] decode_env_Inr [OF env] decode_v3_Inr [OF v3]
    by (clarsimp simp: finish_config_def config_ok_def bind_res_Inr_iff split: if_splits
        dest!: in_range_Inr [where 'a = 64, simplified])
  with decode_encode_pin show ?thesis by blast
qed

theorem decoded_pin_well_formed_witness:
  "config_ok example_pin"
  using decoded_pin_well_formed [OF decode_encode_pin [OF example_pin_ok]] by simp

end
