(* ===== verification/Redaction.thy ===== *)
theory Redaction
  imports Logs
begin

text \<open>
  What the redactor of \<^theory_text>\<open>Logs\<close> does to a text and to a stream. A text is masked exactly where some
  secret occurs in it, and a stream that arrives in chunks is masked as if it had arrived at once,
  whatever the chunks are: the held-back text is exactly what makes this true.
\<close>

section \<open>Occurrences\<close>

definition spans_at :: "(string \<times> string) list \<Rightarrow> string \<Rightarrow> nat \<Rightarrow> (nat \<times> nat \<times> string) list" where
  "spans_at ss buf i =
     map (\<lambda>(secret, name). (i, i + length secret, name))
       (filter (\<lambda>(secret, name). starts_with (drop i buf) secret) ss)"

lemma match_spans_eq: "match_spans ss buf = concat (map (spans_at ss buf) [0 ..< length buf])"
  by (simp add: match_spans_def spans_at_def [abs_def])

definition occurs :: "(string \<times> string) list \<Rightarrow> string \<Rightarrow> nat \<Rightarrow> nat \<Rightarrow> string \<Rightarrow> bool" where
  "occurs ss buf i e name \<longleftrightarrow>
     (\<exists>secret. (secret, name) \<in> set ss \<and> secret \<noteq> [] \<and> take (length secret) (drop i buf) = secret \<and>
        e = i + length secret)"

text \<open>The positions of the text that belong to an occurrence of some secret.\<close>

definition secret_at :: "(string \<times> string) list \<Rightarrow> string \<Rightarrow> nat \<Rightarrow> bool" where
  "secret_at ss buf j \<longleftrightarrow> (\<exists>i e name. occurs ss buf i e name \<and> i \<le> j \<and> j < e)"

definition proper_secrets :: "(string \<times> string) list \<Rightarrow> bool" where
  "proper_secrets ss \<longleftrightarrow> (\<forall>p \<in> set ss. fst p \<noteq> [])"

lemma occurs_bounds: "occurs ss buf i e name \<Longrightarrow> i < e \<and> e \<le> length buf"
proof -
  assume "occurs ss buf i e name"
  then obtain secret where s: "secret \<noteq> []" "take (length secret) (drop i buf) = secret" "e = i + length secret"
    by (auto simp: occurs_def)
  from arg_cong [OF s(2), of length] have "min (length secret) (length buf - i) = length secret"
    by (simp add: min.commute)
  with s show ?thesis by (cases secret) auto
qed

lemma in_spans_at:
  "proper_secrets ss \<Longrightarrow> (s, e, name) \<in> set (spans_at ss buf i) \<longleftrightarrow> s = i \<and> occurs ss buf i e name"
  by (fastforce simp: spans_at_def occurs_def starts_with_def proper_secrets_def)

lemma in_match_spans:
  assumes "proper_secrets ss"
  shows "(s, e, name) \<in> set (match_spans ss buf) \<longleftrightarrow> occurs ss buf s e name"
  using assms occurs_bounds by (fastforce simp: match_spans_eq in_spans_at)

section \<open>Merging\<close>

text \<open>Disjoint spans in order, as the result of the merge lists them.\<close>

definition ordered_spans :: "span list \<Rightarrow> bool" where
  "ordered_spans sp \<longleftrightarrow>
     sorted_wrt (\<lambda>a b. fst (snd a) \<le> fst b) sp \<and> (\<forall>(s, e, names) \<in> set sp. s < e \<and> names \<noteq> [])"

definition span_covers :: "span list \<Rightarrow> nat \<Rightarrow> bool" where
  "span_covers sp j \<longleftrightarrow> (\<exists>(s, e, names) \<in> set sp. s \<le> j \<and> j < e)"

text \<open>The accumulator of the merge has the last span first.\<close>

definition merge_ok :: "span list \<Rightarrow> bool" where
  "merge_ok acc \<longleftrightarrow> ordered_spans (rev acc)"

definition raw_covers :: "(nat \<times> nat \<times> string) list \<Rightarrow> nat \<Rightarrow> bool" where
  "raw_covers rs j \<longleftrightarrow> (\<exists>(s, e, name) \<in> set rs. s \<le> j \<and> j < e)"

definition in_order :: "(nat \<times> nat \<times> string) list \<Rightarrow> bool" where
  "in_order rs \<longleftrightarrow> sorted (map fst rs) \<and> (\<forall>(s, e, name) \<in> set rs. s < e)"

lemma merge_ok_Nil [simp]: "merge_ok []"
  by (simp add: merge_ok_def ordered_spans_def)

lemma merge_ok_Cons:
  "merge_ok ((s, e, names) # acc) \<longleftrightarrow>
     merge_ok acc \<and> s < e \<and> names \<noteq> [] \<and> (\<forall>(s', e', names') \<in> set acc. e' \<le> s)"
  by (auto simp: merge_ok_def ordered_spans_def sorted_wrt_append)

lemma merge_step_ok:
  assumes "merge_ok acc" and "s < e" and "\<forall>sp \<in> set acc. fst sp \<le> s"
  shows "merge_ok (merge_step acc (s, e, name))"
    and "\<forall>sp \<in> set (merge_step acc (s, e, name)). fst sp \<le> s"
    and "span_covers (merge_step acc (s, e, name)) j \<longleftrightarrow> span_covers acc j \<or> s \<le> j \<and> j < e"
proof -
  have "merge_ok (merge_step acc (s, e, name)) \<and>
    (\<forall>sp \<in> set (merge_step acc (s, e, name)). fst sp \<le> s) \<and>
    (span_covers (merge_step acc (s, e, name)) j \<longleftrightarrow> span_covers acc j \<or> s \<le> j \<and> j < e)"
  proof (cases acc)
    case Nil
    then show ?thesis using assms by (simp add: merge_ok_Cons span_covers_def)
  next
    case (Cons m acc')
    obtain ms me names where m: "m = (ms, me, names)" by (cases m)
    have old: "merge_ok acc'" "ms < me" "names \<noteq> []" "\<forall>(s', e', ns') \<in> set acc'. e' \<le> ms" "ms \<le> s"
      "\<forall>sp \<in> set acc'. fst sp \<le> s"
      using assms Cons m by (auto simp: merge_ok_Cons)
    consider "s < me" "me < e" | "s < me" "e \<le> me" | "me \<le> s" by linarith
    then show ?thesis
    proof cases
      case 1
      with old show ?thesis by (auto simp: Cons m merge_ok_Cons span_covers_def)
    next
      case 2
      with old show ?thesis by (auto simp: Cons m merge_ok_Cons span_covers_def)
    next
      case 3
      with old assms(2) show ?thesis by (auto simp: Cons m merge_ok_Cons span_covers_def)
    qed
  qed
  then show "merge_ok (merge_step acc (s, e, name))"
    and "\<forall>sp \<in> set (merge_step acc (s, e, name)). fst sp \<le> s"
    and "span_covers (merge_step acc (s, e, name)) j \<longleftrightarrow> span_covers acc j \<or> s \<le> j \<and> j < e"
    by blast+
qed

lemma merge_fold_ok:
  assumes "in_order rs" and "merge_ok acc" and "\<forall>sp \<in> set acc. \<forall>r \<in> set rs. fst sp \<le> fst r"
  shows "merge_ok (foldl merge_step acc rs) \<and>
    (\<forall>j. span_covers (foldl merge_step acc rs) j \<longleftrightarrow> span_covers acc j \<or> raw_covers rs j)"
  using assms
proof (induction rs arbitrary: acc)
  case Nil
  then show ?case by (simp add: raw_covers_def)
next
  case (Cons r rs)
  obtain s e name where r: "r = (s, e, name)" by (cases r)
  have pre: "merge_ok acc" "s < e" "\<forall>sp \<in> set acc. fst sp \<le> s"
    using Cons.prems by (auto simp: in_order_def r)
  have later: "\<forall>r \<in> set rs. s \<le> fst r" and "in_order rs"
    using Cons.prems(1) by (auto simp: in_order_def r)
  moreover have "\<forall>sp \<in> set (merge_step acc r). \<forall>r \<in> set rs. fst sp \<le> fst r"
    using merge_step_ok(2) [OF pre, of name] later by (auto simp: r intro: order_trans)
  ultimately show ?case
    using Cons.IH [of "merge_step acc r"] merge_step_ok [OF pre, of name]
    by (auto simp: r raw_covers_def)
qed

lemma match_spans_in_order:
  assumes "proper_secrets ss"
  shows "in_order (match_spans ss buf)"
proof -
  have at: "map fst (spans_at ss buf i) = replicate (length (spans_at ss buf i)) i" for i
    by (simp add: spans_at_def comp_def case_prod_beta map_replicate_const)
  have sorted: "sorted (map fst (concat (map (spans_at ss buf) [0 ..< n])))" for n
  proof (induction n)
    case (Suc n)
    then show ?case by (auto simp: sorted_append at in_spans_at [OF assms] map_concat)
  qed simp
  show ?thesis
    using sorted occurs_bounds by (fastforce simp: in_order_def match_spans_eq in_spans_at [OF assms])
qed

lemma merged_ordered:
  assumes "proper_secrets ss"
  shows "ordered_spans (merge_spans (match_spans ss buf))"
    and "span_covers (merge_spans (match_spans ss buf)) j \<longleftrightarrow> secret_at ss buf j"
proof -
  let ?rs = "match_spans ss buf"
  have ok: "merge_ok (foldl merge_step [] ?rs)"
    and cov: "span_covers (foldl merge_step [] ?rs) j \<longleftrightarrow> span_covers [] j \<or> raw_covers ?rs j"
    using merge_fold_ok [OF match_spans_in_order [OF assms] merge_ok_Nil, of buf] by simp_all
  show "ordered_spans (merge_spans ?rs)"
    using ok by (simp add: merge_spans_def merge_ok_def)
  have "raw_covers ?rs j \<longleftrightarrow> secret_at ss buf j"
    using in_match_spans [OF assms] by (fastforce simp: raw_covers_def secret_at_def)
  then show "span_covers (merge_spans ?rs) j \<longleftrightarrow> secret_at ss buf j"
    using cov by (simp add: merge_spans_def span_covers_def)
qed

section \<open>Masking\<close>

text \<open>A text with the given spans replaced by their marks, from a position on.\<close>

fun masked :: "string \<Rightarrow> nat \<Rightarrow> span list \<Rightarrow> string" where
  "masked buf at [] = drop at buf"
| "masked buf at ((s, e, names) # sp) = slice at s buf @ mark names @ masked buf e sp"

fun last_end :: "nat \<Rightarrow> span list \<Rightarrow> nat" where
  "last_end at [] = at"
| "last_end at ((s, e, names) # sp) = last_end e sp"

definition spans_within :: "nat \<Rightarrow> span list \<Rightarrow> bool" where
  "spans_within stop sp \<longleftrightarrow> (\<forall>(s, e, names) \<in> set sp. s < e \<and> e \<le> stop)"

lemma slice_take: "stop \<le> length buf \<Longrightarrow> at < stop \<Longrightarrow> slice at stop buf = drop at (take stop buf)"
  by (simp add: slice_def drop_take)

lemma slice_take_within: "j \<le> stop \<Longrightarrow> slice i j (take stop buf) = slice i j buf"
  by (simp add: slice_def drop_take min_def)

lemma emit_masked:
  assumes "spans_within stop sp" and "stop \<le> length buf"
    and "later = [] \<or> stop \<le> fst (hd later)"
  shows "emit buf stop at n (sp @ later) =
    (masked (take stop buf) at sp, last_end at sp, n + of_nat (length sp))"
  using assms
proof (induction sp arbitrary: at n)
  case Nil
  then show ?case by (cases later) (auto simp: slice_take)
next
  case (Cons m sp)
  obtain s e names where m: "m = (s, e, names)" by (cases m)
  have "s < e" "e \<le> stop" "spans_within stop sp" using Cons.prems(1) by (auto simp: spans_within_def m)
  then show ?case
    using Cons.IH [of e "n + 1"] Cons.prems by (simp add: m slice_take_within)
qed

definition shift_spans :: "nat \<Rightarrow> span list \<Rightarrow> span list" where
  "shift_spans k = map (\<lambda>(s, e, names). (k + s, k + e, names))"

lemma slice_split:
  assumes "at \<le> stop"
  shows "slice at (stop + i) buf = slice at stop buf @ slice 0 i (drop stop buf)"
proof -
  have "stop + i - at = (stop - at) + i" using assms by simp
  then show ?thesis using assms unfolding slice_def by (simp only: take_add) simp
qed

lemma masked_shift: "masked buf (stop + i) (shift_spans stop sp) = masked (drop stop buf) i sp"
  by (induction sp arbitrary: i) (auto simp: slice_def shift_spans_def add.commute)

lemma masked_from:
  assumes "at \<le> stop"
  shows "masked buf at (shift_spans stop sp) = slice at stop buf @ masked (drop stop buf) 0 sp"
proof (cases sp)
  case Nil
  then show ?thesis using assms append_take_drop_id [of "stop - at" "drop at buf"]
    by (simp add: shift_spans_def slice_def)
next
  case (Cons m ms)
  obtain s e names where m: "m = (s, e, names)" by (cases m)
  have "masked buf at (shift_spans stop sp) =
      slice at (stop + s) buf @ mark names @ masked buf (stop + e) (shift_spans stop ms)"
    by (simp add: Cons m shift_spans_def)
  then show ?thesis by (simp add: slice_split [OF assms] masked_shift Cons m)
qed

lemma masked_append:
  assumes "spans_within stop sp" and "stop \<le> length buf" and "at \<le> stop"
  shows "masked buf at (sp @ shift_spans stop sp') =
    masked (take stop buf) at sp @ masked (drop stop buf) 0 sp'"
  using assms
proof (induction sp arbitrary: at)
  case Nil
  then show ?case by (simp add: masked_from slice_def drop_take)
next
  case (Cons m sp)
  obtain s e names where m: "m = (s, e, names)" by (cases m)
  have "e \<le> stop" "s < e" "spans_within stop sp" using Cons.prems(1) by (auto simp: spans_within_def m)
  then show ?case
    using Cons.IH [of e] Cons.prems(2) by (simp add: m slice_take_within)
qed

section \<open>Where a stream may be cut\<close>

lemma pull_cut_stays: "\<forall>(s, e, names) \<in> set sp. stop \<le> s \<Longrightarrow> pull_cut stop sp = stop"
  by (induction sp) auto

lemma pull_cut_or: "pull_cut stop sp = stop \<or> (\<exists>m \<in> set sp. pull_cut stop sp = fst m)"
  by (induction stop sp rule: pull_cut.induct) (auto split: if_splits)

lemma pull_cut_le: "pull_cut stop sp \<le> stop"
  by (induction stop sp rule: pull_cut.induct) (auto split: if_splits)

lemma pull_cut_outside:
  assumes "ordered_spans sp" and "(s, e, names) \<in> set sp" and "s < pull_cut stop sp"
  shows "e \<le> pull_cut stop sp"
  using assms
proof (induction stop sp rule: pull_cut.induct)
  case (2 stop s0 e0 names0 sp)
  have later: "\<forall>(s', e', ns') \<in> set sp. e0 \<le> s'" "s0 < e0" and ord: "ordered_spans sp"
    using 2(2) by (auto simp: ordered_spans_def)
  show ?case
  proof (cases "(s, e, names) = (s0, e0, names0)")
    case True
    show ?thesis
    proof (cases "s0 < stop \<and> stop < e0")
      case True
      then have "pull_cut s0 sp = s0" using later by (intro pull_cut_stays) auto
      with True 2(4) \<open>(s, e, names) = (s0, e0, names0)\<close> show ?thesis by simp
    next
      case False
      with 2(4) True have "e0 \<le> stop" using pull_cut_le [of stop sp] by auto
      then show ?thesis using pull_cut_or [of stop sp] False True later by auto
    qed
  next
    case False
    then show ?thesis using 2 ord by auto
  qed
qed simp

lemma hold_from_le: "hold_from ss buf \<le> length buf"
  by (auto simp: hold_from_def find_Some_iff split: option.split)

lemma before_hold:
  assumes "i < hold_from ss buf" and "(secret, name) \<in> set ss"
  shows "\<not> (length (drop i buf) < length secret \<and> take (length (drop i buf)) secret = drop i buf)"
proof -
  let ?P = "\<lambda>i. \<exists>p \<in> set ss. length (drop i buf) < length (fst p) \<and> starts_with (fst p) (drop i buf)"
  have "\<not> ?P i"
  proof (cases "List.find ?P [0 ..< length buf]")
    case None
    then have "hold_from ss buf = length buf" by (simp only: hold_from_def option.case)
    then show ?thesis using assms(1) None by (auto simp: find_None_iff)
  next
    case (Some k)
    then obtain j where j: "j < length buf" "[0 ..< length buf] ! j = k"
        "\<And>i. i < j \<Longrightarrow> \<not> ?P ([0 ..< length buf] ! i)"
      by (auto simp: find_Some_iff)
    then show ?thesis using assms(1) Some by (auto simp: hold_from_def)
  qed
  then show ?thesis using assms(2) by (force simp: starts_with_def)
qed

text \<open>Before the held-back text nothing that arrives later changes which secrets occur.\<close>

lemma spans_at_later:
  assumes "i < hold_from ss buf"
  shows "spans_at ss (buf @ rest) i = spans_at ss buf i"
proof -
  have i: "i \<le> length buf" using assms hold_from_le [of ss buf] by simp
  have "starts_with (drop i (buf @ rest)) secret = starts_with (drop i buf) secret"
    if "(secret, name) \<in> set ss" for secret name
  proof (cases "length secret \<le> length (drop i buf)")
    case True
    then show ?thesis using i by (simp add: starts_with_def)
  next
    case False
    then have "take (length secret) (drop i buf) \<noteq> secret"
      by (metis length_take min.absorb_iff1 min.commute nle_le)
    moreover have "take (length secret) (drop i (buf @ rest)) \<noteq> secret"
    proof
      assume eq: "take (length secret) (drop i (buf @ rest)) = secret"
      have "take (length (drop i buf)) (take (length secret) (drop i buf @ rest)) = drop i buf"
        using False by (simp add: min_def)
      with eq i have "take (length (drop i buf)) secret = drop i buf" by simp
      with before_hold [OF assms that] False show False by simp
    qed
    ultimately show ?thesis by (simp add: starts_with_def)
  qed
  then have "filter (\<lambda>(secret, name). starts_with (drop i (buf @ rest)) secret) ss =
      filter (\<lambda>(secret, name). starts_with (drop i buf) secret) ss"
    by (intro filter_cong) auto
  then show ?thesis by (simp add: spans_at_def)
qed

definition raw_shift :: "nat \<Rightarrow> (nat \<times> nat \<times> string) list \<Rightarrow> (nat \<times> nat \<times> string) list" where
  "raw_shift k = map (\<lambda>(s, e, name). (k + s, k + e, name))"

lemma spans_at_shift: "spans_at ss buf (k + i) = raw_shift k (spans_at ss (drop k buf) i)"
  by (simp add: spans_at_def raw_shift_def comp_def case_prod_beta add.assoc add.commute)

lemma match_spans_from:
  assumes "k \<le> length buf"
  shows "match_spans ss buf =
    concat (map (spans_at ss buf) [0 ..< k]) @ raw_shift k (match_spans ss (drop k buf))"
proof -
  have "[0 ..< length buf] = [0 ..< k] @ map (\<lambda>i. k + i) [0 ..< length buf - k]"
    using assms upt_add_eq_append [of 0 k "length buf - k"] by (simp add: map_add_upt add.commute [of k])
  then have "match_spans ss buf = concat (map (spans_at ss buf) [0 ..< k]) @
      concat (map (\<lambda>i. raw_shift k (spans_at ss (drop k buf) i)) [0 ..< length buf - k])"
    by (simp add: match_spans_eq comp_def spans_at_shift)
  then show ?thesis by (simp add: match_spans_eq raw_shift_def map_concat comp_def)
qed

lemma merge_fold_after:
  assumes "\<forall>sp \<in> set acc. \<forall>r \<in> set rs. fst (snd sp) \<le> fst r" and "in_order rs"
  shows "foldl merge_step (acc' @ acc) rs = foldl merge_step acc' rs @ acc"
  using assms
proof (induction rs arbitrary: acc')
  case (Cons r rs)
  obtain s e name where r: "r = (s, e, name)" by (cases r)
  have "merge_step (acc' @ acc) r = merge_step acc' r @ acc"
  proof (cases acc')
    case Nil
    then show ?thesis
    proof (cases acc)
      case (Cons m ms)
      obtain ms' me names where "m = (ms', me, names)" by (cases m)
      then show ?thesis using Cons Nil Cons.prems(1) r by auto
    qed (simp add: Nil)
  next
    case (Cons m ms)
    then show ?thesis by (cases m) (simp add: r)
  qed
  then show ?case using Cons by (auto simp: in_order_def)
qed simp

lemma merge_fold_shift:
  "foldl merge_step (shift_spans k acc) (raw_shift k rs) = shift_spans k (foldl merge_step acc rs)"
proof (induction rs arbitrary: acc)
  case (Cons r rs)
  obtain s e name where r: "r = (s, e, name)" by (cases r)
  have "merge_step (shift_spans k acc) (k + s, k + e, name) = shift_spans k (merge_step acc (s, e, name))"
    by (cases acc) (auto simp: shift_spans_def)
  then show ?case using Cons.IH by (simp add: r raw_shift_def)
qed (simp add: raw_shift_def)

definition contains_span :: "span list \<Rightarrow> nat \<Rightarrow> nat \<Rightarrow> bool" where
  "contains_span acc s e \<longleftrightarrow> (\<exists>(s', e', names) \<in> set acc. s' \<le> s \<and> e \<le> e')"

lemma merge_step_contains: "contains_span acc s e \<Longrightarrow> contains_span (merge_step acc r) s e"
  by (cases "(acc, r)" rule: merge_step.cases) (fastforce simp: contains_span_def)+

lemma merge_fold_contains:
  assumes "in_order rs" and "\<forall>sp \<in> set acc. \<forall>r \<in> set rs. fst sp \<le> fst r" and "merge_ok acc"
    and "contains_span acc s e \<or> (\<exists>name. (s, e, name) \<in> set rs)"
  shows "contains_span (foldl merge_step acc rs) s e"
  using assms
proof (induction rs arbitrary: acc)
  case (Cons r rs)
  obtain s0 e0 name0 where r: "r = (s0, e0, name0)" by (cases r)
  have pre: "merge_ok acc" "s0 < e0" "\<forall>sp \<in> set acc. fst sp \<le> s0"
    using Cons.prems by (auto simp: in_order_def r)
  have "contains_span (merge_step acc r) s0 e0"
    using pre by (cases "(acc, r)" rule: merge_step.cases) (auto simp: r contains_span_def)
  then have "contains_span (merge_step acc r) s e \<or> (\<exists>name. (s, e, name) \<in> set rs)"
    using Cons.prems(4) merge_step_contains by (auto simp: r)
  moreover have "\<forall>sp \<in> set (merge_step acc r). \<forall>r \<in> set rs. fst sp \<le> fst r"
    using merge_step_ok(2) [OF pre, of name0] Cons.prems(1) by (auto simp: r in_order_def intro: order_trans)
  moreover have "in_order rs" using Cons.prems(1) by (simp add: in_order_def)
  ultimately show ?case using Cons.IH merge_step_ok(1) [OF pre, of name0] by (simp add: r)
qed (simp add: contains_span_def)

lemma merge_fold_ends:
  assumes "\<forall>(s, e, names) \<in> set acc. e \<le> k" and "\<forall>(s, e, name) \<in> set rs. e \<le> k"
  shows "\<forall>(s, e, names) \<in> set (foldl merge_step acc rs). e \<le> k"
  using assms
proof (induction rs arbitrary: acc)
  case (Cons r rs)
  have "\<forall>(s, e, names) \<in> set (merge_step acc r). e \<le> k"
    using Cons.prems by (cases "(acc, r)" rule: merge_step.cases) auto
  then show ?case using Cons by simp
qed simp

section \<open>The spans of a text, cut in two\<close>

definition spans :: "(string \<times> string) list \<Rightarrow> string \<Rightarrow> span list" where
  "spans ss buf = merge_spans (match_spans ss buf)"

definition spans_before :: "(string \<times> string) list \<Rightarrow> string \<Rightarrow> nat \<Rightarrow> span list" where
  "spans_before ss buf k = merge_spans (concat (map (spans_at ss buf) [0 ..< k]))"

lemma in_order_shift: "in_order rs \<Longrightarrow> in_order (raw_shift k rs)"
  by (fastforce simp: in_order_def raw_shift_def comp_def case_prod_beta sorted_iff_nth_mono)

lemma spans_cut:
  assumes "proper_secrets ss" and "k \<le> length buf"
    and "\<forall>i < k. \<forall>(s, e, name) \<in> set (spans_at ss buf i). e \<le> k"
  shows "spans ss buf = spans_before ss buf k @ shift_spans k (spans ss (drop k buf))"
    and "spans_within k (spans_before ss buf k)"
proof -
  let ?A = "concat (map (spans_at ss buf) [0 ..< k])"
  let ?B = "match_spans ss (drop k buf)"
  let ?acc = "foldl merge_step [] ?A"
  have ends: "\<forall>(s, e, names) \<in> set ?acc. e \<le> k"
    by (rule merge_fold_ends) (use assms(3) in auto)
  then have "\<forall>sp \<in> set ?acc. \<forall>r \<in> set (raw_shift k ?B). fst (snd sp) \<le> fst r"
    by (fastforce simp: raw_shift_def)
  from merge_fold_after [OF this in_order_shift [OF match_spans_in_order [OF assms(1)]], of "[]"]
  have "foldl merge_step ?acc (raw_shift k ?B) = foldl merge_step [] (raw_shift k ?B) @ ?acc" by simp
  moreover have "foldl merge_step [] (raw_shift k ?B) = shift_spans k (foldl merge_step [] ?B)"
    using merge_fold_shift [of k "[]" ?B] by (simp add: shift_spans_def)
  ultimately show "spans ss buf = spans_before ss buf k @ shift_spans k (spans ss (drop k buf))"
    by (simp add: spans_def spans_before_def merge_spans_def match_spans_from [OF assms(2)] shift_spans_def rev_map)
  have "in_order (match_spans ss buf)" by (rule match_spans_in_order [OF assms(1)])
  then have "in_order ?A"
    unfolding match_spans_from [OF assms(2)] by (simp add: in_order_def sorted_append)
  from merge_fold_ok [OF this merge_ok_Nil] have "merge_ok ?acc" by simp
  with ends show "spans_within k (spans_before ss buf k)"
    by (fastforce simp: spans_within_def spans_before_def merge_spans_def merge_ok_def ordered_spans_def)
qed

lemma spans_ordered: "proper_secrets ss \<Longrightarrow> ordered_spans (spans ss buf)"
  using merged_ordered(1) by (simp add: spans_def)

lemma spans_cover: "proper_secrets ss \<Longrightarrow> span_covers (spans ss buf) j \<longleftrightarrow> secret_at ss buf j"
  using merged_ordered(2) by (simp add: spans_def)

lemma spans_within_text:
  assumes "proper_secrets ss"
  shows "spans_within (length buf) (spans ss buf)"
proof -
  have "e \<le> length buf" if "(s, e, names) \<in> set (spans ss buf)" for s e names
  proof -
    from that spans_ordered [OF assms, of buf] have "s < e" by (auto simp: ordered_spans_def)
    then have "span_covers (spans ss buf) (e - 1)"
      unfolding span_covers_def by (intro bexI [OF _ that]) simp
    then obtain i e' name where "occurs ss buf i e' name" "e - 1 < e'"
      by (auto simp: spans_cover [OF assms] secret_at_def)
    with occurs_bounds show ?thesis by fastforce
  qed
  then show ?thesis
    using spans_ordered [OF assms, of buf] by (fastforce simp: spans_within_def ordered_spans_def)
qed

text \<open>No occurrence crosses the place where the stream is cut.\<close>

lemma cut_between:
  assumes "proper_secrets ss" and "i < pull_cut stop (spans ss buf)" and "occurs ss buf i e name"
  shows "e \<le> pull_cut stop (spans ss buf)"
proof -
  have "(i, e, name) \<in> set (match_spans ss buf)" using assms by (simp add: in_match_spans)
  then have "contains_span (spans ss buf) i e"
    using merge_fold_contains [OF match_spans_in_order [OF assms(1)], of "[]" buf i e]
    by (auto simp: spans_def merge_spans_def contains_span_def)
  then obtain s' e' names where "(s', e', names) \<in> set (spans ss buf)" "s' \<le> i" "e \<le> e'"
    by (auto simp: contains_span_def)
  with pull_cut_outside [OF spans_ordered [OF assms(1)] this(1), of stop] assms(2) show ?thesis by simp
qed

section \<open>Scanning\<close>

definition redacted :: "(string \<times> string) list \<Rightarrow> string \<Rightarrow> string" where
  "redacted ss text = masked text 0 (spans ss text)"

lemma spans_no_secrets [simp]: "spans [] buf = []"
proof -
  have "match_spans [] buf = []" by (simp add: match_spans_def concat_eq_Nil_conv)
  then show ?thesis by (simp add: spans_def merge_spans_def)
qed

lemma scan_finish:
  assumes "\<not> red_fail r" and "proper_secrets (red_secrets r)"
  shows "scan r p c True =
    (Inr (redacted (red_secrets r) (p @ c), of_nat (length (spans (red_secrets r) (p @ c)))), [])"
proof -
  let ?buf = "p @ c"
  have "emit ?buf (length ?buf) 0 0 (spans (red_secrets r) ?buf @ []) =
      (masked (take (length ?buf) ?buf) 0 (spans (red_secrets r) ?buf),
       last_end 0 (spans (red_secrets r) ?buf), 0 + of_nat (length (spans (red_secrets r) ?buf)))"
    by (rule emit_masked [OF spans_within_text [OF assms(2)]]) simp_all
  then show ?thesis using assms(1)
    by (auto simp: scan_def Let_def redacted_def scan_cut_def spans_def [symmetric])
qed

text \<open>
  One step over a stream: whatever arrives later, the whole text is masked as the part given out now
  followed by the mask of the held-back text and the rest.
\<close>

lemma scan_more:
  assumes "\<not> red_fail r" and "proper_secrets (red_secrets r)"
  obtains out n p' where "scan r p c False = (Inr (out, n), p')"
    and "\<And>rest. redacted (red_secrets r) (p @ c @ rest) = out @ redacted (red_secrets r) (p' @ rest)"
    and "\<And>rest. of_nat (length (spans (red_secrets r) (p @ c @ rest))) =
      n + of_nat (length (spans (red_secrets r) (p' @ rest)))"
proof (cases "red_secrets r = []")
  case True
  with assms(1) have "scan r p c False = (Inr (p @ c, 0), [])" by (simp add: scan_def)
  then show ?thesis using that [of "p @ c" 0 "[]"] by (simp add: True redacted_def)
next
  case False
  define ss where "ss = red_secrets r"
  define buf where "buf = p @ c"
  define k where "k = pull_cut (hold_from ss buf) (spans ss buf)"
  have proper: "proper_secrets ss" using assms(2) by (simp add: ss_def)
  have kh: "k \<le> hold_from ss buf" by (simp add: k_def pull_cut_le)
  then have kl: "k \<le> length buf" using hold_from_le [of ss buf] by simp
  have crossing: "\<forall>i < k. \<forall>(s, e, name) \<in> set (spans_at ss buf i). e \<le> k"
    using cut_between [OF proper, of _ "hold_from ss buf" buf] in_spans_at [OF proper] by (fastforce simp: k_def)
  have same: "spans_at ss (buf @ rest) i = spans_at ss buf i" if "i < k" for rest i
    using that kh by (intro spans_at_later) simp
  have whole: "spans ss (buf @ rest) = spans_before ss buf k @ shift_spans k (spans ss (drop k buf @ rest))" for rest
  proof -
    have "spans_before ss (buf @ rest) k = spans_before ss buf k"
      unfolding spans_before_def using same
      by (intro arg_cong [of _ _ merge_spans] arg_cong [of _ _ concat] map_cong) simp_all
    moreover have "\<forall>i < k. \<forall>(s, e, name) \<in> set (spans_at ss (buf @ rest) i). e \<le> k"
      using crossing same by simp
    ultimately show ?thesis using spans_cut(1) [OF proper, of k "buf @ rest"] kl by simp
  qed
  have within: "spans_within k (spans_before ss buf k)"
    by (rule spans_cut(2) [OF proper kl crossing])
  have last: "last_end at sp \<le> k" if "spans_within k sp" "at \<le> k" for sp at
    using that by (induction at sp rule: last_end.induct) (auto simp: spans_within_def)
  let ?later = "shift_spans k (spans ss (drop k buf))"
  have "emit buf k 0 0 (spans_before ss buf k @ ?later) =
      (masked (take k buf) 0 (spans_before ss buf k), last_end 0 (spans_before ss buf k),
       0 + of_nat (length (spans_before ss buf k)))"
    by (rule emit_masked [OF within kl]) (cases "spans ss (drop k buf)"; auto simp: shift_spans_def)
  then have "emit buf k 0 0 (spans ss buf) =
      (masked (take k buf) 0 (spans_before ss buf k), last_end 0 (spans_before ss buf k),
       of_nat (length (spans_before ss buf k)))"
    using whole [of "[]"] by simp
  moreover have "max k (last_end 0 (spans_before ss buf k)) = k"
    using last [OF within, of 0] by simp
  ultimately have "scan r p c False =
      (Inr (masked (take k buf) 0 (spans_before ss buf k), of_nat (length (spans_before ss buf k))), drop k buf)"
    using assms(1) False
    by (simp add: scan_def Let_def scan_cut_def flip: ss_def buf_def spans_def k_def)
  then show ?thesis
  proof (rule that)
    fix rest
    show "redacted (red_secrets r) (p @ c @ rest) =
        masked (take k buf) 0 (spans_before ss buf k) @ redacted (red_secrets r) (drop k buf @ rest)"
      using masked_append [OF within, of "buf @ rest" 0] kl whole [of rest]
      by (simp add: redacted_def ss_def [symmetric] buf_def [symmetric] flip: append_assoc)
    show "of_nat (length (spans (red_secrets r) (p @ c @ rest))) =
        of_nat (length (spans_before ss buf k)) + of_nat (length (spans (red_secrets r) (drop k buf @ rest)))"
      using whole [of rest] by (simp add: ss_def [symmetric] buf_def [symmetric] shift_spans_def flip: append_assoc)
  qed
qed

end
