(* ===== verification/LogStream.thy ===== *)
theory LogStream
  imports Redaction
begin

text \<open>
  The log sink of \<^theory_text>\<open>Logs\<close> end to end: what its capture shows of a stream that arrives in chunks, and
  the bounds that hold after any sequence of operations. Also the three cases in which the sink does
  not do what it documents (an output made of a secret that overlaps itself is held back without
  bound, a long line that arrives with its line feed is not split, and the truncation marker can stand
  after a line that came later).
\<close>

section \<open>The captured text\<close>

definition cost_sum :: "string list \<Rightarrow> nat" where
  "cost_sum ls = sum_list (map line_cost ls)"

text \<open>The lines of a text, a last line without a line feed included.\<close>

definition log_lines :: "string \<Rightarrow> string list" where
  "log_lines s = (let ls = split_on (CHR 0x0A) s in if last ls = [] then butlast ls else ls)"

lemma cost_sum_simps [simp]:
  "cost_sum [] = 0" "cost_sum (l # ls) = line_cost l + cost_sum ls" "cost_sum (ls @ ms) = cost_sum ls + cost_sum ms"
  by (simp_all add: cost_sum_def)

lemma unlines_Nil: "unlines [] = []"
  by (simp add: unlines_def)

lemma length_unlines: "length (unlines ls) = cost_sum ls"
  by (induction ls) (auto simp: unlines_def line_cost_def)

section \<open>Storing lines\<close>

lemma trim_tail_split:
  "\<exists>g t. ts = g @ t \<and> trim_tail limit ts (cost_sum ts) s =
     (t, cost_sum t, s\<lparr>lines_dropped := lines_dropped s + length g, bytes_dropped := bytes_dropped s + cost_sum g\<rparr>) \<and>
     cost_sum t \<le> limit \<and> (ts \<noteq> [] \<and> line_cost (last ts) \<le> limit \<longrightarrow> t \<noteq> [])"
proof (induction ts arbitrary: s)
  case (Cons d ds)
  show ?case
  proof (cases "cost_sum (d # ds) \<le> limit")
    case True
    then show ?thesis by (intro exI [of _ "[]"] exI [of _ "d # ds"]) simp
  next
    case False
    let ?s = "s\<lparr>lines_dropped := lines_dropped s + 1, bytes_dropped := bytes_dropped s + line_cost d\<rparr>"
    from Cons [of ?s] obtain g t where "ds = g @ t" "cost_sum t \<le> limit"
        "trim_tail limit ds (cost_sum ds) ?s =
           (t, cost_sum t, ?s\<lparr>lines_dropped := lines_dropped ?s + length g, bytes_dropped := bytes_dropped ?s + cost_sum g\<rparr>)"
        "ds \<noteq> [] \<and> line_cost (last ds) \<le> limit \<longrightarrow> t \<noteq> []" by blast
    with False show ?thesis by (intro exI [of _ "d # g"] exI [of _ t]) auto
  qed
qed simp

text \<open>
  What a sink holds: the stored lines, in order, are the head, the dropped lines and the tail. The
  last flag says that the tail is empty only as long as nothing was dropped.
\<close>

definition holds :: "string list \<Rightarrow> log_sink \<Rightarrow> bool" where
  "holds ls k \<longleftrightarrow> (\<exists>g. ls = sink_head k @ g @ sink_tail k \<and>
     lines_dropped (sink_summary k) = length g \<and> bytes_dropped (sink_summary k) = cost_sum g \<and>
     (sink_tail k = [] \<longrightarrow> g = []))"

definition counts_ok :: "log_sink \<Rightarrow> bool" where
  "counts_ok k \<longleftrightarrow>
     head_bytes k = cost_sum (sink_head k) \<and> tail_bytes k = cost_sum (sink_tail k) \<and>
     head_bytes k \<le> head_limit (sink_limits k) \<and> tail_bytes k \<le> tail_limit (sink_limits k) \<and>
     lines_seen (sink_summary k) =
       length (sink_head k) + lines_dropped (sink_summary k) + length (sink_tail k)"

definition kept_in_head :: "string \<Rightarrow> log_sink \<Rightarrow> log_sink" where
  "kept_in_head l k = k\<lparr>sink_summary := (sink_summary k)\<lparr>lines_seen := lines_seen (sink_summary k) + 1\<rparr>,
     head_bytes := head_bytes k + line_cost l, sink_head := sink_head k @ [l]\<rparr>"

definition kept_in_tail :: "string list \<Rightarrow> string list \<Rightarrow> log_sink \<Rightarrow> log_sink" where
  "kept_in_tail g t k = k\<lparr>sink_tail := t, tail_bytes := cost_sum t,
     sink_summary := (sink_summary k)\<lparr>lines_seen := lines_seen (sink_summary k) + 1,
       lines_dropped := lines_dropped (sink_summary k) + length g,
       bytes_dropped := bytes_dropped (sink_summary k) + cost_sum g\<rparr>\<rparr>"

lemma store_cases:
  assumes "tail_bytes k = cost_sum (sink_tail k)"
  shows "head_bytes k + line_cost l \<le> head_limit (sink_limits k) \<and> sink_tail k = [] \<and>
      store l k = kept_in_head l k \<or>
    (\<exists>g t. sink_tail k @ [l] = g @ t \<and> cost_sum t \<le> tail_limit (sink_limits k) \<and>
      (line_cost l \<le> tail_limit (sink_limits k) \<longrightarrow> t \<noteq> []) \<and> store l k = kept_in_tail g t k)"
proof (cases "head_bytes k + line_cost l \<le> head_limit (sink_limits k) \<and> sink_tail k = []")
  case True
  then show ?thesis by (simp add: store_def kept_in_head_def Let_def)
next
  case False
  define s where "s = (sink_summary k)\<lparr>lines_seen := lines_seen (sink_summary k) + 1\<rparr>"
  from trim_tail_split [of "sink_tail k @ [l]" "tail_limit (sink_limits k)" s]
  obtain g t where gt: "sink_tail k @ [l] = g @ t" "cost_sum t \<le> tail_limit (sink_limits k)"
      "line_cost (last (sink_tail k @ [l])) \<le> tail_limit (sink_limits k) \<longrightarrow> t \<noteq> []"
      and trim: "trim_tail (tail_limit (sink_limits k)) (sink_tail k @ [l]) (cost_sum (sink_tail k @ [l])) s =
       (t, cost_sum t, s\<lparr>lines_dropped := lines_dropped s + length g, bytes_dropped := bytes_dropped s + cost_sum g\<rparr>)"
    by blast
  have "cost_sum (sink_tail k @ [l]) = tail_bytes k + line_cost l" using assms by simp
  with trim False have "store l k = kept_in_tail g t k"
    by (auto simp: store_def kept_in_tail_def s_def Let_def)
  moreover have "line_cost l \<le> tail_limit (sink_limits k) \<longrightarrow> t \<noteq> []" using gt(3) by simp
  ultimately show ?thesis using gt(1,2) by blast
qed

lemma store_counts:
  assumes "counts_ok k"
  shows "counts_ok (store l k)"
proof -
  have "tail_bytes k = cost_sum (sink_tail k)" using assms by (simp add: counts_ok_def)
  from store_cases [OF this, of l] show ?thesis
  proof (elim disjE exE conjE)
    fix g t
    assume gt: "sink_tail k @ [l] = g @ t" and rest: "cost_sum t \<le> tail_limit (sink_limits k)"
      "store l k = kept_in_tail g t k"
    from arg_cong [OF gt, of length] have "length (sink_tail k) + 1 = length g + length t" by simp
    with rest assms show ?thesis by (simp add: counts_ok_def kept_in_tail_def)
  qed (use assms in \<open>simp add: counts_ok_def kept_in_head_def\<close>)
qed

lemma store_holds:
  assumes "counts_ok k" and held: "holds ls k" and small: "line_cost l \<le> tail_limit (sink_limits k)"
  shows "holds (ls @ [l]) (store l k)"
proof -
  have "tail_bytes k = cost_sum (sink_tail k)" using assms by (simp add: counts_ok_def)
  from store_cases [OF this, of l] show ?thesis
  proof (elim disjE exE conjE)
    assume "store l k = kept_in_head l k" "sink_tail k = []"
    with held show ?thesis by (auto simp: holds_def kept_in_head_def)
  next
    fix g t
    assume gt: "sink_tail k @ [l] = g @ t" "line_cost l \<le> tail_limit (sink_limits k) \<longrightarrow> t \<noteq> []"
      and new: "store l k = kept_in_tail g t k"
    from held obtain g0 where "ls = sink_head k @ g0 @ sink_tail k"
        "lines_dropped (sink_summary k) = length g0" "bytes_dropped (sink_summary k) = cost_sum g0"
      by (auto simp: holds_def)
    with gt small show ?thesis
      unfolding new holds_def by (intro exI [of _ "g0 @ g"]) (auto simp: kept_in_tail_def)
  qed
qed

lemma trim_tail_same:
  "trim_tail m ts b s = (t, c, s') \<Longrightarrow> withheld s' = withheld s \<and> redactions s' = redactions s"
  by (induction m ts b s rule: trim_tail.induct) (auto split: if_splits)

lemma store_same [simp]:
  "sink_limits (store l k) = sink_limits k" "sink_redactor (store l k) = sink_redactor k"
  "sink_pending (store l k) = sink_pending k" "withheld (sink_summary (store l k)) = withheld (sink_summary k)"
  "redactions (sink_summary (store l k)) = redactions (sink_summary k)"
  by (auto simp: store_def Let_def split: prod.splits dest: trim_tail_same)

section \<open>Absorbing text\<close>

text \<open>No line of a text is long enough to be split.\<close>

definition short_lines :: "string \<Rightarrow> bool" where
  "short_lines s \<longleftrightarrow> (\<forall>l \<in> set (split_on (CHR 0x0A) s). length l \<le> max_stored_line)"

lemma store_partial: "store l (k\<lparr>sink_partial := p\<rparr>) = (store l k)\<lparr>sink_partial := p\<rparr>"
  by (auto simp: store_def Let_def split: prod.splits)

lemma store_lines_fold:
  "ls \<noteq> [] \<Longrightarrow> store_lines ls k = (fold store (butlast ls) k)\<lparr>sink_partial := last ls\<rparr>"
  by (induction ls k rule: store_lines.induct) auto

lemma store_long_short: "length (sink_partial k) \<le> max_stored_line \<Longrightarrow> store_long k = k"
  by (subst store_long.simps) (simp add: Let_def)

lemma split_on_append:
  "split_on c (a @ b) = butlast (split_on c a) @ split_on c (last (split_on c a) @ b)"
proof (induction a)
  case (Cons x a)
  obtain l ls where ls: "split_on c a = l # ls" by (cases "split_on c a") auto
  then show ?case using Cons by (cases "ls = []") (auto split: list.splits)
qed simp

lemma absorb_short:
  assumes "short_lines (sink_partial k @ a)"
  shows "absorb a k = (fold store (butlast (split_on (CHR 0x0A) (sink_partial k @ a))) k)
    \<lparr>sink_partial := last (split_on (CHR 0x0A) (sink_partial k @ a))\<rparr>"
  using assms by (simp add: absorb_def store_lines_fold store_long_short short_lines_def)

lemma fold_store_partial:
  "fold store ls (k\<lparr>sink_partial := p\<rparr>) = (fold store ls k)\<lparr>sink_partial := p\<rparr>"
  by (induction ls arbitrary: k) (auto simp: store_partial)

lemma short_lines_prefix:
  assumes "short_lines (a @ b)"
  shows "short_lines a"
proof -
  let ?l = "last (split_on (CHR 0x0A) a)"
  obtain m ms where m: "split_on (CHR 0x0A) (?l @ b) = m # ms"
    by (cases "split_on (CHR 0x0A) (?l @ b)") auto
  have free: "CHR 0x0A \<notin> set (last (split_on (CHR 0x0A) s))" for s
    by (induction s) (auto split: list.splits)
  have "length l \<le> length (hd (split_on c (l @ b)))" if "c \<notin> set l" for c l
    using that by (induction l) (auto split: list.splits)
  from this [OF free] have "length ?l \<le> length m" by (metis m list.sel(1))
  moreover have "set (split_on (CHR 0x0A) a) = insert ?l (set (butlast (split_on (CHR 0x0A) a)))"
    by (metis append_butlast_last_id list.simps(15) rotate1.simps(2) set_rotate1 split_on_ne)
  ultimately show ?thesis
    using assms by (auto simp: short_lines_def split_on_append [of _ a b] m)
qed

lemma absorb_append:
  assumes "short_lines (sink_partial k @ a @ b)"
  shows "absorb b (absorb a k) = absorb (a @ b) k"
proof -
  let ?s = "split_on (CHR 0x0A) (sink_partial k @ a)"
  have split: "split_on (CHR 0x0A) (sink_partial k @ a @ b) = butlast ?s @ split_on (CHR 0x0A) (last ?s @ b)"
    using split_on_append [of "CHR 0x0A" "sink_partial k @ a" b] by simp
  have a: "short_lines (sink_partial k @ a)"
    using assms short_lines_prefix [of "sink_partial k @ a" b] by simp
  have "short_lines (last ?s @ b)" using assms split by (simp add: short_lines_def)
  then show ?thesis
    using assms a by (simp add: absorb_short split fold_store_partial butlast_append)
qed

section \<open>A stream in chunks\<close>

text \<open>The parts of a sink that storing does not look at.\<close>

definition tagged :: "string \<Rightarrow> u32 \<Rightarrow> log_sink \<Rightarrow> log_sink" where
  "tagged p n k = add_redactions n (k\<lparr>sink_pending := p\<rparr>)"

lemma trim_tail_redactions:
  "trim_tail m ts b (s\<lparr>redactions := r\<rparr>) = (case trim_tail m ts b s of (t, c, s') \<Rightarrow> (t, c, s'\<lparr>redactions := r\<rparr>))"
proof (induction m ts b s rule: trim_tail.induct)
  case (2 limit d ds b s)
  have swap: "s\<lparr>redactions := r, lines_dropped := x, bytes_dropped := y\<rparr> =
      s\<lparr>lines_dropped := x, bytes_dropped := y, redactions := r\<rparr>" for x y by simp
  show ?case using 2 by (simp add: swap)
qed simp

lemma store_tagged: "store l (tagged p n k) = tagged p n (store l k)"
proof -
  have swap: "s\<lparr>redactions := r, lines_seen := x\<rparr> = s\<lparr>lines_seen := x, redactions := r\<rparr>"
    for s :: log_summary and r x by simp
  have red: "store l (k\<lparr>sink_summary := (sink_summary k)\<lparr>redactions := r\<rparr>\<rparr>) =
    (store l k)\<lparr>sink_summary := (sink_summary (store l k))\<lparr>redactions := r\<rparr>\<rparr>" for r k
    using trim_tail_redactions [where m = "tail_limit (sink_limits k)" and ts = "sink_tail k @ [l]" and
        b = "tail_bytes k + line_cost l" and r = r and
        s = "(sink_summary k)\<lparr>lines_seen := lines_seen (sink_summary k) + 1\<rparr>"]
    by (auto simp: store_def Let_def swap split: prod.splits)
  moreover have "store l (k\<lparr>sink_pending := p\<rparr>) = (store l k)\<lparr>sink_pending := p\<rparr>" for k
    by (auto simp: store_def Let_def split: prod.splits)
  ultimately show ?thesis using red [where k = "k\<lparr>sink_pending := p\<rparr>"] by (simp add: tagged_def add_redactions_def)
qed

lemma fold_store_tagged: "fold store ls (tagged p n k) = tagged p n (fold store ls k)"
  by (induction ls arbitrary: k) (auto simp: store_tagged)

lemma partial_tagged [simp]: "sink_partial (tagged p n k) = sink_partial k"
  by (simp add: tagged_def add_redactions_def)

lemma tagged_partial: "(tagged p n k)\<lparr>sink_partial := x\<rparr> = tagged p n (k\<lparr>sink_partial := x\<rparr>)"
  by (simp add: tagged_def add_redactions_def)

lemma absorb_tagged:
  "short_lines (sink_partial k @ a) \<Longrightarrow> absorb a (tagged p n k) = tagged p n (absorb a k)"
  by (simp add: absorb_short fold_store_tagged tagged_partial)

lemma retagged: "add_redactions m ((tagged p n k)\<lparr>sink_pending := q\<rparr>) = tagged q (n + m) k"
  by (simp add: tagged_def add_redactions_def)

lemma tagged_same [simp]:
  "sink_redactor (tagged p n k) = sink_redactor k" "sink_pending (tagged p n k) = p"
  "withheld (sink_summary (tagged p n k)) = withheld (sink_summary k)"
  by (simp_all add: tagged_def add_redactions_def)

lemma absorb_same:
  assumes "short_lines (sink_partial k @ a)"
  shows "sink_redactor (absorb a k) = sink_redactor k" "withheld (sink_summary (absorb a k)) = withheld (sink_summary k)"
proof -
  have "sink_redactor (fold store ls k) = sink_redactor k \<and>
      withheld (sink_summary (fold store ls k)) = withheld (sink_summary k)" for ls k
    by (induction ls arbitrary: k) auto
  then show "sink_redactor (absorb a k) = sink_redactor k"
    "withheld (sink_summary (absorb a k)) = withheld (sink_summary k)"
    by (simp_all add: absorb_short [OF assms])
qed

lemma new_sink [simp]:
  "sink_redactor (sink_new l r) = r" "\<not> withheld (sink_summary (sink_new l r))"
  "sink_partial (sink_new l r) = []" "sink_pending (sink_new l r) = []"
  by (simp_all add: sink_new_def log_summary_default_def)

definition masks :: "redactor \<Rightarrow> string \<Rightarrow> u32" where
  "masks r text = of_nat (length (spans (red_secrets r) text))"

lemma after_chunks:
  assumes "\<not> red_fail r" and "proper_secrets (red_secrets r)"
    and "short_lines (redacted (red_secrets r) (concat cs @ rest))"
  shows "\<exists>out p n. fold push_chunk cs (sink_new l r) = tagged p n (absorb out (sink_new l r)) \<and>
    (\<forall>x. redacted (red_secrets r) (concat cs @ x) = out @ redacted (red_secrets r) (p @ x)) \<and>
    (\<forall>x. masks r (concat cs @ x) = n + masks r (p @ x))"
  using assms(3)
proof (induction cs arbitrary: rest rule: rev_induct)
  case Nil
  have "tagged [] 0 (absorb [] (sink_new l r)) = sink_new l r"
    by (subst absorb_short) (simp_all add: short_lines_def tagged_def add_redactions_def sink_new_def)
  then show ?case by (intro exI [of _ "[]"] exI [of _ 0]) simp
next
  case (snoc c cs)
  let ?k = "sink_new l r" and ?R = "redacted (red_secrets r)"
  from snoc.IH [of "c @ rest"] snoc.prems
  obtain out p n where k: "fold push_chunk cs ?k = tagged p n (absorb out ?k)"
    and outs: "\<And>x. ?R (concat cs @ x) = out @ ?R (p @ x)"
    and count: "\<And>x. masks r (concat cs @ x) = n + masks r (p @ x)" by auto
  obtain out' n' p' where scan: "scan r p c False = (Inr (out', n'), p')"
    and outs': "\<And>x. ?R (p @ c @ x) = out' @ ?R (p' @ x)"
    and count': "\<And>x. masks r (p @ c @ x) = n' + masks r (p' @ x)"
    using scan_more [OF assms(1,2)] unfolding masks_def by metis
  have both: "?R (concat (cs @ [c]) @ x) = (out @ out') @ ?R (p' @ x)" for x
    using outs [of "c @ x"] outs' [of x] by simp
  have short: "short_lines (out @ out')"
    using snoc.prems short_lines_prefix unfolding both by blast
  then have short1: "short_lines out" by (rule short_lines_prefix)
  have "fold push_chunk (cs @ [c]) ?k = push_chunk c (tagged p n (absorb out ?k))" by (simp add: k)
  also have "\<dots> = absorb out' (tagged p' (n + n') (absorb out ?k))"
    using absorb_same [of ?k out] short1 by (simp add: push_chunk_def scan retagged)
  also have "\<dots> = tagged p' (n + n') (absorb (out @ out') ?k)"
  proof -
    have "sink_partial (absorb out ?k) = last (split_on (CHR 0x0A) out)"
      using short1 by (simp add: absorb_short)
    moreover have "short_lines (last (split_on (CHR 0x0A) out) @ out')"
      using short split_on_append [of "CHR 0x0A" out out'] by (simp add: short_lines_def)
    ultimately show ?thesis using absorb_append [of ?k out out'] short by (simp add: absorb_tagged)
  qed
  finally show ?case
    using both count [of "c @ _"] count' by (intro exI conjI allI) (auto simp: add.assoc)
qed

text \<open>The view that a capture takes: the lines of the masked text, stored in order.\<close>

lemma view_of_chunks:
  assumes "\<not> red_fail r" and "proper_secrets (red_secrets r)"
    and short: "short_lines (redacted (red_secrets r) (concat cs))"
  shows "capture_view (fold push_chunk cs (sink_new l r)) =
    tagged [] (masks r (concat cs))
      ((fold store (log_lines (redacted (red_secrets r) (concat cs))) (sink_new l r))\<lparr>sink_partial := []\<rparr>)"
proof -
  let ?k = "sink_new l r" and ?R = "redacted (red_secrets r)"
  obtain out p n where k: "fold push_chunk cs ?k = tagged p n (absorb out ?k)"
    and outs: "\<And>x. ?R (concat cs @ x) = out @ ?R (p @ x)"
    and count: "\<And>x. masks r (concat cs @ x) = n + masks r (p @ x)"
    using after_chunks [OF assms(1,2), of cs "[]" l] short by auto
  have all: "?R (concat cs) = out @ ?R p" "masks r (concat cs) = n + masks r p"
    using outs [of "[]"] count [of "[]"] by simp_all
  have short1: "short_lines out" using short short_lines_prefix unfolding all by blast
  have part: "sink_partial (absorb out ?k) = last (split_on (CHR 0x0A) out)"
    using short1 by (simp add: absorb_short)
  have "short_lines (last (split_on (CHR 0x0A) out) @ ?R p)"
    using short split_on_append [of "CHR 0x0A" out "?R p"] by (simp add: short_lines_def all)
  then have "capture_view (fold push_chunk cs ?k) = flushed (tagged [] (n + masks r p) (absorb (?R p) (absorb out ?k)))"
    using absorb_same [of ?k out] short1 part
    by (simp add: k capture_view_def scan_finish [OF assms(1,2)] retagged masks_def absorb_tagged)
  also have "\<dots> = flushed (tagged [] (masks r (concat cs)) (absorb (?R (concat cs)) ?k))"
    using absorb_append [of ?k out "?R p"] short by (simp add: all)
  also have "\<dots> = tagged [] (masks r (concat cs)) ((fold store (log_lines (?R (concat cs))) ?k)\<lparr>sink_partial := []\<rparr>)"
  proof (cases "last (split_on (CHR 0x0A) (?R (concat cs))) = []")
    case True
    then show ?thesis using short by (simp add: flushed_def absorb_short log_lines_def)
  next
    case False
    have "split_on (CHR 0x0A) (?R (concat cs)) =
        butlast (split_on (CHR 0x0A) (?R (concat cs))) @ [last (split_on (CHR 0x0A) (?R (concat cs)))]" by simp
    then have "fold store (split_on (CHR 0x0A) (?R (concat cs))) ?k =
        store (last (split_on (CHR 0x0A) (?R (concat cs)))) (fold store (butlast (split_on (CHR 0x0A) (?R (concat cs)))) ?k)"
      by (metis fold_append fold_simps comp_apply)
    with False short show ?thesis
      by (simp add: flushed_def absorb_short log_lines_def tagged_partial store_tagged store_partial)
  qed
  finally show ?thesis .
qed

lemma new_sink_ok: "counts_ok (sink_new l r)" "holds [] (sink_new l r)"
  by (simp_all add: sink_new_def counts_ok_def holds_def log_summary_default_def)

lemma fold_store_ok:
  assumes "\<forall>x \<in> set ls. line_cost x \<le> tail_limit l"
  shows "counts_ok (fold store ls (sink_new l r)) \<and> holds ls (fold store ls (sink_new l r)) \<and>
    sink_limits (fold store ls (sink_new l r)) = l"
  using assms
proof (induction ls rule: rev_induct)
  case Nil
  then show ?case by (simp add: new_sink_ok) (simp add: sink_new_def)
next
  case (snoc x ls)
  then show ?case by (simp add: store_counts store_holds)
qed

section \<open>Redactors made from names and values\<close>

lemma dedup_secrets_fst: "fst ` set (dedup_secrets v) = fst ` set v"
  by (induction v rule: dedup_secrets.induct) auto

lemma redactor_new_secrets:
  "fst ` set (red_secrets (redactor_new ps)) = {v. \<exists>n. (n, v) \<in> set ps \<and> v \<noteq> []}"
  by (force simp: redactor_new_def Let_def dedup_secrets_fst)

lemma redactor_new_proper: "proper_secrets (red_secrets (redactor_new ps))"
proof -
  have "fst p \<noteq> []" if "p \<in> set (red_secrets (redactor_new ps))" for p
    using redactor_new_secrets [of ps] that by blast
  then show ?thesis by (simp add: proper_secrets_def)
qed

lemma redactor_new_works [simp]: "\<not> red_fail (redactor_new ps)"
  by (simp add: redactor_new_def Let_def)

lemma redact_apply_new:
  "redact_apply (redactor_new ps) text =
    (redacted (red_secrets (redactor_new ps)) text, masks (redactor_new ps) text)"
  using scan_finish [OF redactor_new_works redactor_new_proper, of ps "[]" "text"]
  by (simp add: redact_apply_def masks_def)

text \<open>Position \<open>j\<close> of the text lies in an occurrence of one of the values.\<close>

definition value_at :: "(string \<times> string) list \<Rightarrow> string \<Rightarrow> nat \<Rightarrow> bool" where
  "value_at ps text j \<longleftrightarrow> (\<exists>(name, v) \<in> set ps. v \<noteq> [] \<and>
     (\<exists>i \<le> j. j < i + length v \<and> take (length v) (drop i text) = v))"

lemma secret_at_value: "secret_at (red_secrets (redactor_new ps)) text j \<longleftrightarrow> value_at ps text j"
proof -
  let ?hit = "\<lambda>v. v \<noteq> [] \<and> (\<exists>i \<le> j. j < i + length v \<and> take (length v) (drop i text) = v)"
  have named: "(\<exists>name. (v, name) \<in> set (red_secrets (redactor_new ps))) \<longleftrightarrow> (\<exists>n. (n, v) \<in> set ps \<and> v \<noteq> [])" for v
  proof -
    have "(\<exists>name. (v, name) \<in> set (red_secrets (redactor_new ps))) \<longleftrightarrow> v \<in> fst ` set (red_secrets (redactor_new ps))"
      by force
    then show ?thesis by (simp add: redactor_new_secrets)
  qed
  have "secret_at (red_secrets (redactor_new ps)) text j \<longleftrightarrow>
      (\<exists>v. (\<exists>name. (v, name) \<in> set (red_secrets (redactor_new ps))) \<and> ?hit v)"
    by (auto simp: secret_at_def occurs_def)
  also have "\<dots> \<longleftrightarrow> value_at ps text j" unfolding named by (auto simp: value_at_def)
  finally show ?thesis .
qed

section \<open>Bounds\<close>

datatype sink_op = PushChunk string | PushLine string | PushText string

fun sink_do :: "sink_op \<Rightarrow> log_sink \<Rightarrow> log_sink" where
  "sink_do (PushChunk c) = push_chunk c"
| "sink_do (PushLine l) = push_line l"
| "sink_do (PushText s) = push_text s"

definition bounded :: "log_limits \<Rightarrow> redactor \<Rightarrow> log_sink \<Rightarrow> bool" where
  "bounded l r k \<longleftrightarrow> counts_ok k \<and> sink_limits k = l \<and> sink_redactor k = r \<and>
     (if red_fail r then sink_head k = [] \<and> sink_tail k = [] \<and> lines_dropped (sink_summary k) = 0
      else \<not> withheld (sink_summary k))"

lemma bounded_partial [simp]: "bounded l r (k\<lparr>sink_partial := x\<rparr>) = bounded l r k"
  by (simp add: bounded_def counts_ok_def)

lemma bounded_tagged: "bounded l r (add_redactions n (k\<lparr>sink_pending := x\<rparr>)) = bounded l r k"
  by (simp add: bounded_def counts_ok_def add_redactions_def)

lemma bounded_store: "\<not> red_fail r \<Longrightarrow> bounded l r k \<Longrightarrow> bounded l r (store x k)"
  by (simp add: bounded_def store_counts)

lemma bounded_fold: "\<not> red_fail r \<Longrightarrow> bounded l r k \<Longrightarrow> bounded l r (fold store xs k)"
  by (induction xs arbitrary: k) (simp_all add: bounded_store)

lemma bounded_long: "\<not> red_fail r \<Longrightarrow> bounded l r k \<Longrightarrow> bounded l r (store_long k)"
proof (induction k rule: store_long.induct)
  case (1 k)
  then show ?case by (subst store_long.simps) (auto simp: Let_def bounded_store)
qed

lemma bounded_absorb: "\<not> red_fail r \<Longrightarrow> bounded l r k \<Longrightarrow> bounded l r (absorb a k)"
  by (simp add: absorb_def store_lines_fold bounded_long bounded_fold)

lemma scan_fails: "red_fail r \<Longrightarrow> scan r p c fin = (Inl ''forced failure'', p)"
  by (simp add: scan_def)

lemma scan_works:
  assumes "\<not> red_fail r"
  obtains out n p' where "scan r p c fin = (Inr (out, n), p')"
  using assms by (cases "scan r p c fin") (auto simp: scan_def Let_def split: if_splits prod.splits)

lemma bounded_push: "bounded l r k \<Longrightarrow> bounded l r (push_chunk c k)"
proof -
  assume k: "bounded l r k"
  then have r: "sink_redactor k = r" by (simp add: bounded_def)
  show ?thesis
  proof (cases "red_fail r")
    case True
    with k r show ?thesis
      by (simp add: push_chunk_def scan_fails withhold_def bounded_def counts_ok_def)
  next
    case False
    obtain out n p where "scan r (sink_pending k) c False = (Inr (out, n), p)" using False by (rule scan_works)
    with k r False show ?thesis by (simp add: push_chunk_def bounded_absorb bounded_tagged)
  qed
qed

lemma bounded_op: "bounded l r k \<Longrightarrow> bounded l r (sink_do a k)"
proof (cases a)
  case (PushText s)
  have "bounded l r k \<Longrightarrow> bounded l r (fold push_line xs k)" for xs
    by (induction xs arbitrary: k) (simp_all add: push_line_def bounded_push)
  then show "bounded l r k \<Longrightarrow> ?thesis" using PushText by (simp add: push_text_def)
qed (simp_all add: push_line_def bounded_push)

lemma bounded_ops: "bounded l r (fold sink_do ops (sink_new l r))"
proof -
  have "bounded l r k \<Longrightarrow> bounded l r (fold sink_do ops k)" for k
    by (induction ops arbitrary: k) (simp_all add: bounded_op)
  moreover have "bounded l r (sink_new l r)"
    using new_sink_ok(1) by (simp add: bounded_def) (simp add: sink_new_def log_summary_default_def)
  ultimately show ?thesis by blast
qed

lemma bounded_view: "bounded l r k \<Longrightarrow> bounded l r (capture_view k) \<and>
  (red_fail r \<longrightarrow> withheld (sink_summary (capture_view k)))"
proof -
  assume k: "bounded l r k"
  then have r: "sink_redactor k = r" by (simp add: bounded_def)
  show ?thesis
  proof (cases "red_fail r")
    case True
    with k r show ?thesis
      by (simp add: capture_view_def scan_fails withhold_def bounded_def counts_ok_def)
  next
    case False
    obtain out n p where "scan r (sink_pending k) [] True = (Inr (out, n), p)" using False by (rule scan_works)
    with k r False show ?thesis
      by (simp add: capture_view_def flushed_def bounded_store bounded_absorb bounded_tagged bounded_def [of _ _ k])
  qed
qed

section \<open>Where the sink differs from its documentation\<close>

lemma absorb_pending: "sink_pending (absorb a k) = sink_pending k"
proof -
  have "sink_pending (store_long k) = sink_pending k" for k
  proof (induction k rule: store_long.induct)
    case (1 k)
    then show ?case by (subst store_long.simps) (auto simp: Let_def)
  qed
  moreover have "sink_pending (fold store xs k) = sink_pending k" for xs k
    by (induction xs arbitrary: k) auto
  ultimately show ?thesis by (simp add: absorb_def store_lines_fold)
qed

lemma fold_replicate_last: "fold f (replicate n x) (f x k) = f x (fold f (replicate n x) k)"
  by (induction n arbitrary: k) auto

text \<open>
  A secret that overlaps itself: as long as the output only repeats its first byte, everything is held
  back, so what the sink holds grows with the output.
\<close>

lemma held_back_without_bound:
  "sink_pending (fold push_chunk (replicate n ''a'') (sink_new l (redactor_new [(''K'', ''aa'')]))) = replicate n (CHR ''a'')"
proof (induction n)
  case (Suc n)
  let ?r = "redactor_new [(''K'', ''aa'')]" and ?buf = "replicate (Suc n) (CHR ''a'')"
  have ss: "red_secrets ?r = [(''aa'', ''K'')]" by (simp add: redactor_new_def)
  let ?k = "fold push_chunk (replicate n ''a'') (sink_new l ?r)"
  define stop where "stop = pull_cut (hold_from (red_secrets ?r) ?buf) (spans (red_secrets ?r) ?buf)"
  have "stop = 0"
  proof (rule ccontr)
    assume "stop \<noteq> 0"
    have "hold_from (red_secrets ?r) ?buf \<le> n"
    proof (rule ccontr)
      assume "\<not> ?thesis"
      then have "\<not> (length (drop n ?buf) < length ''aa'' \<and> take (length (drop n ?buf)) ''aa'' = drop n ?buf)"
        by (intro before_hold [where ss = "red_secrets ?r" and name = "''K''"]) (simp_all add: ss)
      moreover have "drop n ?buf = ''a''" by (simp only: drop_replicate) simp
      ultimately show False by simp
    qed
    then have "stop \<le> n" unfolding stop_def by (rule order_trans [OF pull_cut_le])
    with \<open>stop \<noteq> 0\<close> have "min 2 (Suc n - (stop - 1)) = Suc (Suc 0)" by simp
    then have "take 2 (drop (stop - 1) ?buf) = replicate (Suc (Suc 0)) (CHR ''a'')"
      by (simp only: drop_replicate take_replicate)
    then have "take (length ''aa'') (drop (stop - 1) ?buf) = ''aa''" by (simp only: list.size numeral_2_eq_2 replicate.simps) simp
    then have "occurs (red_secrets ?r) ?buf (stop - 1) (stop + 1) ''K''"
      unfolding occurs_def ss using \<open>stop \<noteq> 0\<close> by (intro exI [of _ "''aa''"]) simp
    from cut_between [OF redactor_new_proper _ this, of "hold_from (red_secrets ?r) ?buf"] \<open>stop \<noteq> 0\<close>
    show False by (simp add: stop_def)
  qed
  have "emit ?buf 0 0 0 sp = ([], 0, 0)" for sp by (cases sp) auto
  with \<open>stop = 0\<close> have scan: "scan ?r (replicate n (CHR ''a'')) ''a'' False = (Inr ([], 0), ?buf)"
    by (simp add: scan_def scan_cut_def Let_def stop_def ss spans_def replicate_append_same)
  have "bounded l ?r (fold sink_do (map PushChunk (replicate n ''a'')) (sink_new l ?r))" by (rule bounded_ops)
  moreover define k where "k = ?k"
  ultimately have "\<not> withheld (sink_summary k)" "sink_redactor k = ?r"
    by (simp_all add: bounded_def fold_map comp_def)
  moreover have "sink_pending k = replicate n (CHR ''a'')" using Suc by (simp only: k_def)
  ultimately have "push_chunk ''a'' k = absorb [] (add_redactions 0 (k\<lparr>sink_pending := ?buf\<rparr>))"
    by (simp only: push_chunk_def scan) simp
  moreover have "fold push_chunk (replicate (Suc n) ''a'') (sink_new l ?r) = push_chunk ''a'' k"
    unfolding k_def by (simp only: replicate_Suc fold_simps comp_apply fold_replicate_last)
  ultimately show ?case by (simp only: absorb_pending) (simp add: add_redactions_def)
qed simp

text \<open>A line that arrives with its line feed is stored whole, however long it is.\<close>

lemma long_line_stored_whole:
  assumes "max_stored_line < n" and "n + 1 \<le> head_limit l"
  shows "sink_head (push_chunk (replicate n (CHR ''x'') @ [CHR 0x0A]) (sink_new l redactor_none)) =
    [replicate n (CHR ''x'')]"
proof -
  have "split_on (CHR 0x0A) (replicate n (CHR ''x'') @ [CHR 0x0A]) = [replicate n (CHR ''x''), []]"
    by (subst split_on_append_sep) auto
  then show ?thesis using assms
    by (simp add: push_chunk_def scan_def redactor_none_def sink_new_def log_summary_default_def absorb_def
        add_redactions_def store_def line_cost_def store_long_short)
qed

text \<open>
  When a line exceeds the limit of the tail, the tail is empty again, the head goes on, and the marker
  stands after a line that came later than the one it counts.
\<close>

lemma marker_after_later_line:
  "cap_text (capture (push_line ''b'' (push_line ''aaaaaaaa'' (sink_new \<lparr>head_limit = 4, tail_limit = 4\<rparr> redactor_none)))) =
    ''b'' @ [CHR 0x0A] @ truncation_marker 1 (line_cost ''aaaaaaaa'')"
  by (simp add: push_line_def push_chunk_def scan_def redactor_none_def sink_new_def log_summary_default_def
      absorb_def trim_line_end_def add_redactions_def store_def line_cost_def store_long_short max_stored_line_def
      capture_def capture_view_def flushed_def shown_def unlines_def log_truncated_def Let_def)

section \<open>Properties\<close>

text \<open>
  Claim C15. Masking is exact, for every list of named values and every text: the result is the text
  with disjoint spans, in order, replaced by their marks, where the spans together are exactly the
  positions that belong to an occurrence of some value (overlapping occurrences included), and the
  reported number is the number of spans.
\<close>

theorem redaction_is_exact:
  "\<exists>sp. ordered_spans sp \<and> (\<forall>j. span_covers sp j \<longleftrightarrow> value_at ps text j) \<and>
     redact_apply (redactor_new ps) text = (masked text 0 sp, of_nat (length sp))"
  using spans_ordered [OF redactor_new_proper, of ps "text"] spans_cover [OF redactor_new_proper, of ps "text"]
  by (intro exI [of _ "spans (red_secrets (redactor_new ps)) text"])
    (simp add: redact_apply_new redacted_def masks_def secret_at_value)

definition example_pairs :: "(string \<times> string) list" where
  "example_pairs = [(''T'', ''ab''), (''U'', ''bc'')]"

definition example_chunks :: "string list" where
  "example_chunks = [''xa'', ''bc'', [CHR 0x0A], ''y'']"

lemma example_redacted:
  "redact_apply (redactor_new example_pairs) (concat example_chunks) =
    (''x[REDACTED:T+U]'' @ [CHR 0x0A] @ ''y'', 1)"
  by (simp add: example_pairs_def example_chunks_def redactor_new_def redact_apply_def scan_def Let_def
      match_spans_def merge_spans_def starts_with_def scan_cut_def slice_def mark_def upt_rec)

lemma example_short: "short_lines (''x[REDACTED:T+U]'' @ [CHR 0x0A] @ ''y'')"
  by (simp add: short_lines_def max_stored_line_def)

text \<open>
  Claim C16. The chunks in which an output arrives do not matter: two ways to cut the same output
  give the same capture, text and counts, for every list of secrets and every pair of limits, as long as
  no line of the masked output is long enough to be split.
\<close>

theorem capture_independent_of_chunks:
  assumes "concat cs = concat cs'"
    and "short_lines (fst (redact_apply (redactor_new ps) (concat cs)))"
  shows "capture (fold push_chunk cs (sink_new l (redactor_new ps))) =
    capture (fold push_chunk cs' (sink_new l (redactor_new ps)))"
  using view_of_chunks [OF redactor_new_works redactor_new_proper] assms
  by (simp add: capture_def redact_apply_new)

theorem capture_independent_of_chunks_witness:
  "capture (fold push_chunk example_chunks (sink_new log_limits_default (redactor_new example_pairs))) =
    capture (fold push_chunk [concat example_chunks] (sink_new log_limits_default (redactor_new example_pairs)))"
  by (rule capture_independent_of_chunks) (use example_short in \<open>simp_all add: example_redacted\<close>)

text \<open>
  The capture shows the lines of the masked output: a head, a marker that counts exactly
  the lines and bytes left out when there are any, and a tail, each part within its limit. The number
  of redactions is that of masking the output at once, and no secret is stored before it is masked.
\<close>

theorem capture_shows_masked_lines:
  assumes "redact_apply (redactor_new ps) (concat cs) = (out, n)"
    and "short_lines out" and "max_stored_line < tail_limit l"
    and "capture (fold push_chunk cs (sink_new l (redactor_new ps))) = c"
  shows "\<exists>h g t. log_lines out = h @ g @ t \<and> cost_sum h \<le> head_limit l \<and> cost_sum t \<le> tail_limit l \<and>
    (t = [] \<longrightarrow> g = []) \<and>
    cap_text c = unlines h @ (if g = [] then [] else truncation_marker (length g) (cost_sum g)) @ unlines t \<and>
    cap_summary c = \<lparr>lines_seen = length (log_lines out), bytes_kept = cost_sum h + cost_sum t,
      lines_dropped = length g, bytes_dropped = cost_sum g, redactions = n, withheld = False\<rparr>"
proof -
  let ?r = "redactor_new ps"
  define k where "k = fold store (log_lines out) (sink_new l ?r)"
  have out: "out = redacted (red_secrets ?r) (concat cs)" "n = masks ?r (concat cs)"
    using assms(1) by (simp_all add: redact_apply_new)
  have "\<forall>x \<in> set (log_lines out). line_cost x \<le> tail_limit l"
    using assms(2,3) in_set_butlastD [of _ "split_on (CHR 0x0A) out"]
    by (fastforce simp: short_lines_def log_lines_def line_cost_def Let_def split: if_splits)
  then have ok: "counts_ok k" "holds (log_lines out) k" "sink_limits k = l"
    using fold_store_ok by (auto simp: k_def)
  have same: "withheld (sink_summary k) = False \<and> redactions (sink_summary k) = 0"
  proof -
    have "withheld (sink_summary (fold store ls s)) = withheld (sink_summary s) \<and>
        redactions (sink_summary (fold store ls s)) = redactions (sink_summary s)" for ls s
      by (induction ls arbitrary: s) auto
    then show ?thesis by (simp add: k_def) (simp add: sink_new_def log_summary_default_def)
  qed
  have c: "capture (fold push_chunk cs (sink_new l ?r)) =
      \<lparr>cap_text = shown (tagged [] n (k\<lparr>sink_partial := []\<rparr>)),
       cap_summary = (sink_summary (tagged [] n k))\<lparr>bytes_kept := head_bytes k + tail_bytes k\<rparr>\<rparr>"
    using view_of_chunks [OF redactor_new_works redactor_new_proper, of ps cs l] assms(2)
    by (simp add: capture_def out k_def tagged_def add_redactions_def)
  from ok(2) obtain g where g: "log_lines out = sink_head k @ g @ sink_tail k"
      "lines_dropped (sink_summary k) = length g" "bytes_dropped (sink_summary k) = cost_sum g"
      "sink_tail k = [] \<longrightarrow> g = []" by (auto simp: holds_def)
  show ?thesis
    using ok(1,3) g same unfolding assms(4) [symmetric] c
    by (intro exI [of _ "sink_head k"] exI [of _ g] exI [of _ "sink_tail k"])
      (auto simp: counts_ok_def shown_def tagged_def add_redactions_def log_truncated_def)
qed


theorem capture_shows_masked_lines_witness:
  "lines_seen (cap_summary (capture
     (fold push_chunk example_chunks (sink_new log_limits_default (redactor_new example_pairs))))) = 2"
proof -
  have "max_stored_line < tail_limit log_limits_default"
    by (simp add: max_stored_line_def log_limits_default_def)
  from capture_shows_masked_lines [OF example_redacted example_short this refl]
  show ?thesis by (auto simp: log_lines_def)
qed

text \<open>
  Claim C17. Whatever is written to a sink, in whatever pieces and however long the lines: the text that a capture
  shows is a head and a tail within their limits, a marker if and only if lines were dropped, and the
  counts are exact. When the redaction step fails nothing of the output is shown but the notice that it
  was withheld.
\<close>

theorem capture_is_bounded:
  fixes l :: log_limits and r :: redactor and ops :: "sink_op list"
  defines "c \<equiv> capture (fold sink_do ops (sink_new l r))"
  shows "\<exists>h t. cap_text c =
      (if red_fail r then withheld_text @ [CHR 0x0A]
       else unlines h @
         (if lines_dropped (cap_summary c) = 0 then []
          else truncation_marker (lines_dropped (cap_summary c)) (bytes_dropped (cap_summary c))) @ unlines t) \<and>
    withheld (cap_summary c) = red_fail r \<and>
    bytes_kept (cap_summary c) = length (unlines h) + length (unlines t) \<and>
    length (unlines h) \<le> head_limit l \<and> length (unlines t) \<le> tail_limit l \<and>
    lines_seen (cap_summary c) = length h + lines_dropped (cap_summary c) + length t"
proof -
  define v where "v = capture_view (fold sink_do ops (sink_new l r))"
  have v: "bounded l r v" "red_fail r \<longrightarrow> withheld (sink_summary v)"
    using bounded_view [OF bounded_ops] by (simp_all add: v_def)
  have c: "c = \<lparr>cap_text = shown v, cap_summary = (sink_summary v)\<lparr>bytes_kept := head_bytes v + tail_bytes v\<rparr>\<rparr>"
    by (simp add: c_def capture_def v_def Let_def)
  show ?thesis
    by (rule exI [of _ "sink_head v"], rule exI [of _ "sink_tail v"])
      (use v in \<open>auto simp: c bounded_def counts_ok_def shown_def log_truncated_def length_unlines unlines_Nil
        split: if_splits\<close>)
qed

end
