(* ===== verification/Route.thy ===== *)
theory Route
  imports Serving Ports ReleaseCodec
begin

text \<open>
  Application hostnames and the table that resolves them to the release serving now
  (\<open>deploy/src/route.rs\<close>). The table is built from the durable records each time and a request is
  forwarded only by looking it up.
\<close>

definition domain_name :: string where "domain_name = ''harpoon.localhost''"
definition label_len :: nat where "label_len = 10"

definition to_lower :: "char \<Rightarrow> char" where
  "to_lower c = (if between 65 c 90 then char_of (byte c + 32) else c)"

definition app_label :: "application_id \<Rightarrow> string" where
  "app_label app =
     (let i = app_str app;
          body = (case split_once (CHR ''_'') i of None \<Rightarrow> i | Some (_, b) \<Rightarrow> b)
      in map to_lower (drop (length body - label_len) body))"

definition hostname :: "application_id \<Rightarrow> string" where
  "hostname app = app_label app @ ''.'' @ domain_name"

definition lease_port_of :: "entry \<Rightarrow> u16 option" where
  "lease_port_of e = parse_word (rk_name (e_key e))"

definition serving_port :: "ledger \<Rightarrow> deployment list \<Rightarrow> application_id \<Rightarrow> u16 option" where
  "serving_port l ds app =
     (case serving_release l ds app of
        None \<Rightarrow> None
      | Some s \<Rightarrow>
          (case sv_config s of
             Some c \<Rightarrow> Some (host_port c)
           | None \<Rightarrow>
               (case List.map_filter lease_port_of
                  (filter (\<lambda>e. e_deployment e = sv_deployment s \<and> rk_kind (e_key e) = PortLease \<and> \<not> is_released e) l) of
                  [] \<Rightarrow> None
                | p # _ \<Rightarrow> Some p)))"

datatype route = RServing application_id u16 | RIdle application_id | RConflict "application_id list"

text \<open>The table is a map from hostnames; the claims of one hostname are kept in the order they came.\<close>

type_synonym claims = "(application_id \<times> u16 option) list"

fun add_claim :: "application_id \<times> u16 option \<Rightarrow> (string \<Rightarrow> claims) \<Rightarrow> string \<Rightarrow> claims" where
  "add_claim (app, port) by_host =
     (if app \<in> fst ` set (by_host (hostname app)) then by_host
      else by_host (hostname app := by_host (hostname app) @ [(app, port)]))"

fun route_of_claims :: "claims \<Rightarrow> route option" where
  "route_of_claims [] = None"
| "route_of_claims [(app, port)] =
     Some (case port of Some p \<Rightarrow> if 1024 \<le> p then RServing app p else RIdle app | None \<Rightarrow> RIdle app)"
| "route_of_claims (a # b # cs) = Some (RConflict (map fst (a # b # cs)))"

type_synonym route_table = "string \<rightharpoonup> route"

definition build_table :: "(application_id \<times> u16 option) list \<Rightarrow> route_table" where
  "build_table apps = (\<lambda>host. route_of_claims (fold add_claim apps (\<lambda>_. []) host))"

definition forwarded_port :: "ledger \<Rightarrow> deployment list \<Rightarrow> application_id \<Rightarrow> u16 option" where
  "forwarded_port l ds app =
     (case serving_port l ds app of
        None \<Rightarrow> None
      | Some p \<Rightarrow> if range_contains range_applications p \<or> range_contains range_tests p then Some p else None)"

definition table_of :: "ledger \<Rightarrow> deployment list \<Rightarrow> application_id list \<Rightarrow> route_table" where
  "table_of l ds apps = build_table (map (\<lambda>a. (a, forwarded_port l ds a)) apps)"

definition without_port :: "string \<Rightarrow> string" where
  "without_port header =
     (case rsplit_once (CHR '':'') header of
        Some (h, p) \<Rightarrow> if list_all ascii_digit p then h else header
      | None \<Rightarrow> header)"

definition normal_host :: "string \<Rightarrow> string" where
  "normal_host header =
     map to_lower (rev (dropWhile (\<lambda>c. c = CHR ''.'') (rev (without_port header))))"

definition resolve_host :: "route_table \<Rightarrow> string \<Rightarrow> route option" where
  "resolve_host t header = t (normal_host header)"

definition route_of_app :: "route_table \<Rightarrow> application_id \<Rightarrow> route option" where
  "route_of_app t app = t (hostname app)"

section \<open>What a table answers\<close>

text \<open>The different applications of a list, each where it first occurs.\<close>

definition first_occurrences :: "'a list \<Rightarrow> 'a list" where
  "first_occurrences xs = rev (remdups (rev xs))"

lemma first_occurrences_snoc:
  "first_occurrences (xs @ [x]) = (if x \<in> set xs then first_occurrences xs else first_occurrences xs @ [x])"
  by (simp add: first_occurrences_def)

lemma set_first_occurrences [simp]: "set (first_occurrences xs) = set xs"
  by (simp add: first_occurrences_def)

lemma claims_exact:
  "fold add_claim (map (\<lambda>a. (a, f a)) apps) (\<lambda>_. []) host =
     map (\<lambda>a. (a, f a)) (first_occurrences (filter (\<lambda>a. hostname a = host) apps))"
proof (induction apps rule: rev_induct)
  case (snoc a apps)
  let ?m = "fold add_claim (map (\<lambda>a. (a, f a)) apps) (\<lambda>_. [])"
  have known: "a \<in> fst ` set (?m (hostname a)) \<longleftrightarrow> a \<in> set apps" if "hostname a = host"
    using snoc that by (auto simp: image_iff)
  show ?case
  proof (cases "hostname a = host")
    case True
    with snoc known show ?thesis by (auto simp: first_occurrences_snoc)
  next
    case False
    with snoc show ?thesis by auto
  qed
qed (simp add: first_occurrences_def)

lemma forwarded_port_range: "forwarded_port l ds a = Some p \<Longrightarrow> 1024 \<le> p"
  by (auto simp: forwarded_port_def range_contains_def range_applications_def range_tests_def
      word_le_nat_alt split: option.splits if_splits)

section \<open>The name in a Host header\<close>

text \<open>
  What a header names, without the steps of the code: an optional port, which is a colon followed by
  nothing but digits at the end, any number of dots before it, and before those the name, which does not
  end with a dot and is read without regard to case.
\<close>

definition port_part :: "string \<Rightarrow> bool" where
  "port_part p \<longleftrightarrow> (\<exists>ds. p = CHR '':'' # ds \<and> list_all ascii_digit ds)"

definition header_names :: "string \<Rightarrow> string \<Rightarrow> bool" where
  "header_names header host \<longleftrightarrow>
     (\<exists>name dots port. header = name @ dots @ port \<and>
        (port_part port \<or> port = [] \<and> \<not> (\<exists>h p. header = h @ p \<and> port_part p)) \<and>
        set dots \<subseteq> {CHR ''.''} \<and> (name \<noteq> [] \<longrightarrow> last name \<noteq> CHR ''.'') \<and> host = map to_lower name)"

lemma digit_not_colon: "ascii_digit c \<Longrightarrow> c \<noteq> CHR '':''"
  by (auto simp: ascii_digit_def between_def byte_def)

lemma rsplit_digits: "list_all ascii_digit ds \<Longrightarrow> rsplit_once (CHR '':'') (h @ CHR '':'' # ds) = Some (h, ds)"
  by (rule rsplit_once_append) (auto simp: list_all_iff dest: digit_not_colon)

lemma without_port_cut: "port_part p \<Longrightarrow> without_port (h @ p) = h"
  by (auto simp: port_part_def without_port_def rsplit_digits)

lemma without_port_kept: "\<not> (\<exists>h p. header = h @ p \<and> port_part p) \<Longrightarrow> without_port header = header"
  by (fastforce simp: without_port_def port_part_def dest: rsplit_once_Some split: option.split)

lemma strip_dots:
  "set dots \<subseteq> {c} \<Longrightarrow> (name \<noteq> [] \<longrightarrow> last name \<noteq> c) \<Longrightarrow>
   rev (dropWhile (\<lambda>x. x = c) (rev (name @ dots))) = name"
  by (cases name rule: rev_cases) (auto simp: dropWhile_append subset_iff)

lemma strip_dots_split:
  obtains dots where "s = rev (dropWhile (\<lambda>x. x = c) (rev s)) @ dots" "set dots \<subseteq> {c}"
    "rev (dropWhile (\<lambda>x. x = c) (rev s)) \<noteq> [] \<longrightarrow> last (rev (dropWhile (\<lambda>x. x = c) (rev s))) \<noteq> c"
proof
  let ?dots = "rev (takeWhile (\<lambda>x. x = c) (rev s))"
  show "s = rev (dropWhile (\<lambda>x. x = c) (rev s)) @ ?dots"
    by (metis rev_append rev_rev_ident takeWhile_dropWhile_id)
  show "set ?dots \<subseteq> {c}" by (auto dest: set_takeWhileD)
  show "rev (dropWhile (\<lambda>x. x = c) (rev s)) \<noteq> [] \<longrightarrow> last (rev (dropWhile (\<lambda>x. x = c) (rev s))) \<noteq> c"
    by (metis (mono_tags, lifting) hd_dropWhile last_rev rev_is_Nil_conv)
qed

lemma header_names_iff: "header_names header host \<longleftrightarrow> normal_host header = host"
proof
  assume "header_names header host"
  then obtain name dots port where h: "header = name @ dots @ port" "set dots \<subseteq> {CHR ''.''}"
      "name \<noteq> [] \<longrightarrow> last name \<noteq> CHR ''.''" "host = map to_lower name"
    and port: "port_part port \<or> port = [] \<and> \<not> (\<exists>h p. header = h @ p \<and> port_part p)"
    unfolding header_names_def by blast
  have "without_port header = name @ dots"
    using port without_port_cut [of port "name @ dots"] without_port_kept [of header] h(1) by auto
  then show "normal_host header = host"
    using strip_dots [OF h(2,3)] h(4) by (simp add: normal_host_def)
next
  assume host: "normal_host header = host"
  obtain port where header: "header = without_port header @ port"
    and port: "port_part port \<or> port = [] \<and> \<not> (\<exists>h p. header = h @ p \<and> port_part p)"
  proof (cases "\<exists>h p. header = h @ p \<and> port_part p")
    case True
    then obtain h p where "header = h @ p" "port_part p" by blast
    then show ?thesis using that [of p] without_port_cut by simp
  next
    case False
    then show ?thesis using that [of "[]"] without_port_kept by simp
  qed
  obtain dots where dots: "without_port header = rev (dropWhile (\<lambda>x. x = CHR ''.'') (rev (without_port header))) @ dots"
    "set dots \<subseteq> {CHR ''.''}"
    "rev (dropWhile (\<lambda>x. x = CHR ''.'') (rev (without_port header))) \<noteq> [] \<longrightarrow>
     last (rev (dropWhile (\<lambda>x. x = CHR ''.'') (rev (without_port header)))) \<noteq> CHR ''.''"
    by (rule strip_dots_split)
  let ?name = "rev (dropWhile (\<lambda>x. x = CHR ''.'') (rev (without_port header)))"
  have "header = ?name @ dots @ port" using header dots(1) by (metis append.assoc)
  with port dots(2,3) host show "header_names header host"
    unfolding header_names_def normal_host_def by blast
qed

text \<open>
  Claim C20. A Host header resolves by the name it contains alone: a port that ends it is ignored, and
  so are dots before that and the case of the letters. It resolves to nothing when no listed application
  has that hostname, to a conflict when several do, and otherwise to the one application, which is
  forwarded to exactly when the records show a serving release of it on a port that Harpoon leases.
\<close>

theorem routes_resolve_exactly:
  "resolve_host (table_of l ds apps) header =
     (case first_occurrences (filter (\<lambda>a. header_names header (hostname a)) apps) of
        [] \<Rightarrow> None
      | [a] \<Rightarrow> Some (case forwarded_port l ds a of Some p \<Rightarrow> RServing a p | None \<Rightarrow> RIdle a)
      | as \<Rightarrow> Some (RConflict as))"
proof -
  let ?as = "first_occurrences (filter (\<lambda>a. hostname a = normal_host header) apps)"
  have same: "(\<lambda>a. header_names header (hostname a)) = (\<lambda>a. hostname a = normal_host header)"
    by (auto simp: header_names_iff)
  have "resolve_host (table_of l ds apps) header = route_of_claims (map (\<lambda>a. (a, forwarded_port l ds a)) ?as)"
    by (simp add: resolve_host_def table_of_def build_table_def claims_exact)
  also have "\<dots> = (case ?as of
        [] \<Rightarrow> None
      | [a] \<Rightarrow> Some (case forwarded_port l ds a of Some p \<Rightarrow> RServing a p | None \<Rightarrow> RIdle a)
      | as \<Rightarrow> Some (RConflict as))"
  proof (cases ?as)
    case (Cons a as)
    then show ?thesis
      by (cases as) (auto simp: comp_def dest: forwarded_port_range split: option.split)
  qed simp
  finally show ?thesis unfolding same .
qed

text \<open>
  A hostname is stable under the normalisation, so the name an application is known by resolves.
\<close>

lemma to_lower_idem: "to_lower (to_lower c) = to_lower c"
  by (simp add: to_lower_def between_def byte_def)

lemma to_lower_colon: "to_lower c = CHR '':'' \<longleftrightarrow> c = CHR '':''"
proof
  assume eq: "to_lower c = CHR '':''"
  show "c = CHR '':''"
  proof (cases "between 65 c 90")
    case True
    with arg_cong [OF eq, of byte] show ?thesis by (simp add: to_lower_def between_def byte_def)
  next
    case False
    with eq show ?thesis by (auto simp: to_lower_def)
  qed
qed (simp add: to_lower_def between_def byte_def)

lemma hostname_normal: "normal_host (hostname app) = hostname app"
proof -
  have low: "map to_lower (hostname app) = hostname app"
    by (simp add: hostname_def app_label_def domain_name_def Let_def to_lower_idem comp_def)
      (simp add: to_lower_def between_def byte_def)
  have chars: "c \<noteq> CHR '':''" if "c \<in> set (hostname app)" for c
  proof -
    have body: "x \<in> set (app_str app)" if "split_once (CHR ''_'') (app_str app) = Some (a, b)" "x \<in> set b" for a b x
      using split_once_Some [OF that(1)] that(2) by simp
    have "to_lower x \<noteq> CHR '':''" if "x \<in> set (app_str app)" for x
      using id_chars(2) [OF that] by (auto simp: to_lower_colon alphabet_def)
    then have "c \<in> set (app_label app) \<Longrightarrow> c \<noteq> CHR '':''"
      using body by (auto simp: app_label_def Let_def split: option.splits dest!: in_set_dropD)
    with that show ?thesis by (auto simp: hostname_def domain_name_def)
  qed
  then have free: "CHR '':'' \<notin> set (hostname app)" by blast
  then have "rsplit_once (CHR '':'') (hostname app) = None"
    by (cases "rsplit_once (CHR '':'') (hostname app)") (auto dest!: rsplit_once_Some)
  moreover obtain r where "rev (hostname app) = CHR ''t'' # r"
    by (simp add: hostname_def domain_name_def)
  then have "dropWhile (\<lambda>c. c = CHR ''.'') (rev (hostname app)) = rev (hostname app)" by simp
  ultimately show ?thesis using low by (simp add: normal_host_def without_port_def)
qed

end
