(* ===== verification/StepLog.thy ===== *)
theory StepLog
  imports ReleaseCodec DeployState
begin

text \<open>
  The framing that every line of the shared journal has (\<open>frame\<close> and the checks of \<open>decode_line\<close> in
  \<open>deploy/src/journal_format.rs\<close>), and the recorded log of one step (\<open>deploy/src/steplog.rs\<close>).
\<close>

section \<open>Framing\<close>

definition frame :: "string \<Rightarrow> string" where
  "frame body = show_hex 8 (unat (crc32 body)) @ TAB # body"

text \<open>What \<open>decode_line\<close> does for every kind of line but the ledger's: the checksum first.\<close>

definition checked_fields :: "string \<Rightarrow> string \<Rightarrow> string + string list" where
  "checked_fields crc body =
     (case parse_hex 32 crc of
        None \<Rightarrow> Inl ''bad checksum field''
      | Some want \<Rightarrow>
          if length crc \<noteq> 8 \<or> unat (crc32 body) \<noteq> want then Inl ''checksum mismatch''
          else Inr (split_on TAB body))"

lemma split_frame: "split_once TAB (frame body) = Some (show_hex 8 (unat (crc32 body)), body)"
  by (simp add: frame_def split_encoded)

lemma checked_frame:
  assumes "fs \<noteq> []" and "list_all field_clean fs"
  shows "checked_fields (show_hex 8 (unat (crc32 (join_with [TAB] fs)))) (join_with [TAB] fs) = Inr fs"
proof -
  have "split_on TAB (join_with [TAB] fs) = fs"
    using assms by (intro split_on_join) (auto simp: list_all_iff field_clean_def)
  then show ?thesis by (simp add: checked_fields_def crc_field)
qed

lemma hex_text_field_clean: "field_clean (hex_text s)"
  using hex_text_clean [of s] by (fastforce simp: hex_clean_def field_clean_def between_def byte_def)

lemma hex_text_not_dash: "hex_text s \<noteq> ''-''"
  using hex_text_clean [of s] by (auto simp: hex_clean_def between_def byte_def)

text \<open>
  What every kind of framed line promises: its fields hold no separator and decode to the record, so
  the whole line does. Each codec of the journal is an instance.
\<close>

definition decode_framed :: "(string list \<Rightarrow> string + 'r) \<Rightarrow> string \<Rightarrow> string + 'r" where
  "decode_framed dec line =
     (case split_once TAB line of
        None \<Rightarrow> Inl ''no checksum''
      | Some (crc, body) \<Rightarrow> bind_res (checked_fields crc body) dec)"

locale line_codec =
  fixes fields :: "'r \<Rightarrow> string list" and dec :: "string list \<Rightarrow> string + 'r" and ok :: "'r \<Rightarrow> bool"
  assumes fields_ne: "fields r \<noteq> []"
    and fields_clean: "ok r \<Longrightarrow> list_all field_clean (fields r)"
    and fields_decode: "ok r \<Longrightarrow> dec (fields r) = Inr r"
begin

lemma line_decodes: "ok r \<Longrightarrow> decode_framed dec (frame (join_with [TAB] (fields r))) = Inr r"
  by (simp add: decode_framed_def split_frame checked_frame fields_ne fields_clean fields_decode)

lemma one_line: "ok r \<Longrightarrow> NL \<notin> set (frame (join_with [TAB] (fields r)))"
  using fields_clean [of r] show_hex_clean [of 8] set_join [of NL "[TAB]" "fields r"]
  by (auto simp: frame_def list_all_iff field_clean_def)

end

section \<open>Step logs\<close>

definition max_log_bytes :: nat where "max_log_bytes = 64 * 1024"

record step_log =
  sl_deployment :: deployment_id
  sl_step :: step
  sl_text :: string
  sl_withheld :: bool
  sl_truncated :: bool
  sl_at_ms :: u64

text \<open>The first character boundary at or after a position.\<close>

fun boundary_from :: "string \<Rightarrow> string" where
  "boundary_from [] = []"
| "boundary_from (c # s) = (if is_continuation c then boundary_from s else c # s)"

definition cut_notice :: string where
  "cut_notice = ''['' @ [CHR 0xE2, CHR 0x80, CHR 0xA6] @ '' earlier output cut to the last '' @
     show_nat max_log_bytes @ '' bytes '' @ [CHR 0xE2, CHR 0x80, CHR 0xA6] @ '']'' @ [NL]"

definition from_capture ::
  "deployment_id \<Rightarrow> step \<Rightarrow> string \<Rightarrow> bool \<Rightarrow> bool \<Rightarrow> u64 \<Rightarrow> step_log" where
  "from_capture d st t w tr at =
     (let (kept, cut) =
        (if w then ([], False)
         else if max_log_bytes < length t
         then (cut_notice @ boundary_from (drop (length t - max_log_bytes) t), True)
         else (t, False))
      in \<lparr>sl_deployment = d, sl_step = st, sl_text = kept, sl_withheld = w,
          sl_truncated = (tr \<or> cut), sl_at_ms = at\<rparr>)"

definition step_from_str :: "string \<Rightarrow> step option" where
  "step_from_str s = List.find (\<lambda>x. step_str x = s) step_order"

definition flag_str :: "bool \<Rightarrow> string" where
  "flag_str b = (if b then ''1'' else ''0'')"

definition step_log_fields :: "step_log \<Rightarrow> string list" where
  "step_log_fields r =
     [''deplog'', ''1'', dep_str (sl_deployment r), step_str (sl_step r), flag_str (sl_withheld r),
      flag_str (sl_truncated r), show_word (sl_at_ms r),
      if sl_text r = [] then ''-'' else hex_text (sl_text r)]"

definition step_log_encode :: "step_log \<Rightarrow> string" where
  "step_log_encode r = frame (join_with [TAB] (step_log_fields r))"

definition log_flag :: "string \<Rightarrow> string + bool" where
  "log_flag s =
     (if s = ''0'' then Inr False else if s = ''1'' then Inr True else Inl ''a flag is not 0 or 1'')"

fun step_log_decode :: "string list \<Rightarrow> string + step_log" where
  "step_log_decode [f0, f1, f2, f3, f4, f5, f6, f7] =
     (if f0 \<noteq> ''deplog'' \<or> f1 \<noteq> ''1'' then Inl ''a step log record is malformed''
      else
        bind_res (if f7 = ''-'' then Inr [] else ok_or (unhex f7) ''the log text is not valid'') (\<lambda>t.
        if max_log_bytes + 128 < length t then Inl ''a step log is larger than the bound''
        else
          bind_res (map_err (\<lambda>_. ''bad deployment id'') (dep_from_str f2)) (\<lambda>d.
          bind_res (ok_or (step_from_str f3) ''unknown step'') (\<lambda>st.
          bind_res (log_flag f4) (\<lambda>w. bind_res (log_flag f5) (\<lambda>tr.
          bind_res (ok_or (parse_word f6) ''bad time'') (\<lambda>at.
          Inr \<lparr>sl_deployment = d, sl_step = st, sl_text = t, sl_withheld = w, sl_truncated = tr,
               sl_at_ms = at\<rparr>)))))))"
| "step_log_decode fs = Inl ''a step log record is malformed''"

type_synonym log_state = "step_log list"

definition log_apply :: "step_log \<Rightarrow> log_state \<Rightarrow> string + log_state" where
  "log_apply r logs =
     (if \<exists>x \<in> set logs. sl_deployment x = sl_deployment r \<and> sl_step x = sl_step r
      then Inl (''deployment '' @ dep_str (sl_deployment r) @ '' has two logs for step '' @ step_str (sl_step r))
      else Inr (logs @ [r]))"

definition logs_of :: "log_state \<Rightarrow> deployment_id \<Rightarrow> step_log list" where
  "logs_of logs d = filter (\<lambda>x. sl_deployment x = d) logs"

section \<open>Lemmas\<close>

lemma step_from_step_str [simp]: "step_from_str (step_str s) = Some s"
  by (cases s) (simp_all add: step_from_str_def step_order_def)

lemma log_flag_str [simp]: "log_flag (flag_str b) = Inr b"
  by (cases b) (simp_all add: log_flag_def flag_str_def)

definition step_log_ok :: "step_log \<Rightarrow> bool" where
  "step_log_ok r \<longleftrightarrow> utf8_valid (sl_text r) \<and> length (sl_text r) \<le> max_log_bytes + 128"

lemma step_log_fields_decode: "step_log_ok r \<Longrightarrow> step_log_decode (step_log_fields r) = Inr r"
  by (auto simp: step_log_fields_def step_log_ok_def hex_text_not_dash dep_from_dep_str)

lemma step_log_fields_clean: "list_all field_clean (step_log_fields r)"
proof -
  have "field_clean (step_str s)" for s by (cases s) (simp_all add: field_clean_def)
  moreover have "field_clean (flag_str b)" for b by (simp add: flag_str_def field_clean_def)
  moreover have "field_clean ''deplog''" "field_clean ''1''" "field_clean ''-''" by (simp_all add: field_clean_def)
  ultimately show ?thesis
    by (simp add: step_log_fields_def field_clean_id field_clean_word hex_text_field_clean)
qed

interpretation sl: line_codec step_log_fields step_log_decode step_log_ok
  by unfold_locales (simp_all add: step_log_fields_decode step_log_fields_clean, simp add: step_log_fields_def)

text \<open>
  What a capture becomes fits the bound that decoding checks: the notice takes less than the 128
  bytes allowed for it.
\<close>

lemma boundary_from_length: "length (boundary_from s) \<le> length s"
  by (induction s) auto

lemma from_capture_bound: "length (sl_text (from_capture d st t w tr at)) \<le> max_log_bytes + 128"
proof -
  have "length (show_nat 65536) = 5"
    by (simp add: show_nat.simps [of 65536] show_nat.simps [of 6553] show_nat.simps [of 655] show_nat.simps [of 65]
        show_nat.simps [of 6])
  then have "length cut_notice \<le> 128" by (simp add: cut_notice_def max_log_bytes_def)
  moreover have "length (boundary_from (drop (length t - max_log_bytes) t)) \<le> max_log_bytes"
    using boundary_from_length [of "drop (length t - max_log_bytes) t"] by simp
  ultimately show ?thesis by (simp add: from_capture_def Let_def)
qed

end
