(* ===== verification/Control.thy ===== *)
theory Control
  imports StepLog
begin

text \<open>
  Pauses, held events and the decisions about them (\<open>deploy/src/control.rs\<close>): the records and their
  text form, the state they rebuild, and the operations that write them. The wording of errors that
  quote their input is shortened to what is fixed in it.
\<close>

section \<open>Records\<close>

datatype pause_kind = PFailedCutover | PInterruptedCutover | PRollback

fun pause_kind_str :: "pause_kind \<Rightarrow> string" where
  "pause_kind_str PFailedCutover = ''failed_cutover''"
| "pause_kind_str PInterruptedCutover = ''interrupted_cutover''"
| "pause_kind_str PRollback = ''rollback''"

definition pause_kind_parse :: "string \<Rightarrow> pause_kind option" where
  "pause_kind_parse s =
     (if s = ''failed_cutover'' then Some PFailedCutover
      else if s = ''interrupted_cutover'' then Some PInterruptedCutover
      else if s = ''rollback'' then Some PRollback else None)"

record pause_rec =
  pu_app :: application_id
  pu_origin :: deployment_id
  pu_kind :: pause_kind
  pu_at_ms :: u64
  pu_context :: string

record event_rec =
  er_app :: application_id
  er_delivery :: string
  er_source :: string
  er_revision :: string
  er_received_ms :: u64

datatype choice = Dismiss | Newest | Revision string

datatype superseded_why = NewerSelected | NotChosen

fun why_str :: "superseded_why \<Rightarrow> string" where
  "why_str NewerSelected = ''newer_selected''"
| "why_str NotChosen = ''not_chosen''"

definition why_parse :: "string \<Rightarrow> superseded_why option" where
  "why_parse s =
     (if s = ''newer_selected'' then Some NewerSelected
      else if s = ''not_chosen'' then Some NotChosen else None)"

record resume_rec =
  re_app :: application_id
  re_at_ms :: u64
  re_choice :: choice
  re_selected :: "string option"
  re_dismissed :: "string list"
  re_superseded :: "(string \<times> superseded_why) list"
  re_cleared :: "deployment_id list"

datatype exec_outcome = Deployed | ExecFailed

record exec_rec =
  ex_app :: application_id
  ex_delivery :: string
  ex_outcome :: exec_outcome
  ex_deployment :: "deployment_id option"
  ex_reason :: string
  ex_superseded :: "string list"
  ex_at_ms :: u64

datatype control_record =
    PauseR pause_rec
  | EventR event_rec
  | ResumeR resume_rec
  | ExecR exec_rec

section \<open>Validation\<close>

definition max_token :: nat where "max_token = 128"

definition token_char :: "string \<Rightarrow> char \<Rightarrow> bool" where
  "token_char extra c \<longleftrightarrow>
     ascii_alphabetic c \<or> ascii_digit c \<or> c = CHR ''.'' \<or> c = CHR ''_'' \<or> c = CHR ''-'' \<or> c \<in> set extra"

definition token_ok :: "string \<Rightarrow> string \<Rightarrow> bool" where
  "token_ok extra v \<longleftrightarrow> v \<noteq> [] \<and> length v \<le> max_token \<and> list_all (token_char extra) v"

definition check_token :: "string \<Rightarrow> string \<Rightarrow> string \<Rightarrow> string + unit" where
  "check_token what v extra =
     (if v = [] \<or> max_token < length v then Inl (what @ '' must be 1..=128 bytes'')
      else if \<not> list_all (token_char extra) v
      then Inl (what @ '' contains a character that is not accepted'')
      else Inr ())"

definition check_delivery :: "string \<Rightarrow> string + unit" where
  "check_delivery v = check_token ''a delivery id'' v '':''"

definition check_source :: "string \<Rightarrow> string + unit" where
  "check_source v =
     bind_res (check_token ''an event source'' v []) (\<lambda>_.
     if 32 < length v then Inl ''an event source is at most 32 bytes'' else Inr ())"

definition check_revision :: "string \<Rightarrow> string + unit" where
  "check_revision v = check_token ''a source revision'' v ''/''"

section \<open>Text form\<close>

definition csv :: "string list \<Rightarrow> string" where
  "csv v = (if v = [] then ''-'' else join_with '','' v)"

definition opt_str :: "('a \<Rightarrow> string) \<Rightarrow> 'a option \<Rightarrow> string" where
  "opt_str f v = (case v of None \<Rightarrow> ''-'' | Some x \<Rightarrow> f x)"

fun choice_strs :: "choice \<Rightarrow> string \<times> string" where
  "choice_strs Dismiss = (''dismiss'', ''-'')"
| "choice_strs Newest = (''newest'', ''-'')"
| "choice_strs (Revision r) = (''revision'', r)"

fun exec_outcome_str :: "exec_outcome \<Rightarrow> string" where
  "exec_outcome_str Deployed = ''deployed''"
| "exec_outcome_str ExecFailed = ''failed''"

definition superseded_strs :: "(string \<times> superseded_why) list \<Rightarrow> string list" where
  "superseded_strs = map (\<lambda>(d, w). d @ ''='' @ why_str w)"

fun control_fields :: "control_record \<Rightarrow> string list" where
  "control_fields (PauseR p) =
     [''pause'', ''1'', app_str (pu_app p), dep_str (pu_origin p), pause_kind_str (pu_kind p),
      show_word (pu_at_ms p), hex_text (pu_context p)]"
| "control_fields (EventR e) =
     [''event'', ''1'', app_str (er_app e), er_delivery e, er_source e, er_revision e,
      show_word (er_received_ms e)]"
| "control_fields (ExecR x) =
     [''exec'', ''1'', app_str (ex_app x), ex_delivery x, exec_outcome_str (ex_outcome x),
      opt_str dep_str (ex_deployment x), hex_text (ex_reason x), csv (ex_superseded x),
      show_word (ex_at_ms x)]"
| "control_fields (ResumeR x) =
     [''resume'', ''1'', app_str (re_app x), show_word (re_at_ms x), fst (choice_strs (re_choice x)),
      snd (choice_strs (re_choice x)), opt_str id (re_selected x), csv (re_dismissed x),
      csv (superseded_strs (re_superseded x)), csv (map dep_str (re_cleared x))]"

definition control_encode :: "control_record \<Rightarrow> string" where
  "control_encode r = frame (join_with [TAB] (control_fields r))"

definition cd_num :: "string \<Rightarrow> string \<Rightarrow> string + u64" where
  "cd_num what s = ok_or (parse_word s) (''bad '' @ what)"

definition cd_app :: "string \<Rightarrow> string + application_id" where
  "cd_app s = map_err (\<lambda>_. ''bad application id'') (app_from_str s)"

definition cd_dep :: "string \<Rightarrow> string + deployment_id" where
  "cd_dep s = map_err (\<lambda>_. ''bad deployment id'') (dep_from_str s)"

definition cd_list :: "string \<Rightarrow> string list" where
  "cd_list s = (if s = ''-'' then [] else split_on (CHR '','') s)"

fun map_res :: "('a \<Rightarrow> 'e + 'b) \<Rightarrow> 'a list \<Rightarrow> 'e + 'b list" where
  "map_res f [] = Inr []"
| "map_res f (x # xs) = bind_res (f x) (\<lambda>y. bind_res (map_res f xs) (\<lambda>ys. Inr (y # ys)))"

definition cd_superseded :: "string \<Rightarrow> string + string \<times> superseded_why" where
  "cd_superseded item =
     bind_res (ok_or (split_once (CHR ''='') item) ''bad superseded entry'') (\<lambda>(d, w).
     bind_res (ok_or (why_parse w) ''bad superseded reason'') (\<lambda>y. Inr (d, y)))"

definition cd_choice :: "string \<Rightarrow> string \<Rightarrow> string + choice" where
  "cd_choice c r =
     (if c = ''dismiss'' \<and> r = ''-'' then Inr Dismiss
      else if c = ''newest'' \<and> r = ''-'' then Inr Newest
      else if c = ''revision'' then bind_res (check_revision r) (\<lambda>_. Inr (Revision r))
      else Inl ''unknown resume choice'')"

definition cd_selected :: "string \<Rightarrow> string + string option" where
  "cd_selected s = (if s = ''-'' then Inr None else bind_res (check_delivery s) (\<lambda>_. Inr (Some s)))"

definition cd_outcome :: "string \<Rightarrow> string + exec_outcome" where
  "cd_outcome s =
     (if s = ''deployed'' then Inr Deployed else if s = ''failed'' then Inr ExecFailed
      else Inl ''unknown exec outcome'')"

definition decode_pause :: "string list \<Rightarrow> string + control_record" where
  "decode_pause f =
     (if length f \<noteq> 7 then Inl ''a pause record has the wrong number of fields''
      else
        bind_res (cd_app (f ! 2)) (\<lambda>a.
        bind_res (cd_dep (f ! 3)) (\<lambda>d.
        bind_res (ok_or (pause_kind_parse (f ! 4)) ''unknown pause kind'') (\<lambda>k.
        bind_res (cd_num ''pause time'' (f ! 5)) (\<lambda>t.
        bind_res (ok_or (unhex (f ! 6)) ''bad pause context'') (\<lambda>c.
        Inr (PauseR \<lparr>pu_app = a, pu_origin = d, pu_kind = k, pu_at_ms = t, pu_context = c\<rparr>)))))))"

definition decode_event :: "string list \<Rightarrow> string + control_record" where
  "decode_event f =
     (if length f \<noteq> 7 then Inl ''an event record has the wrong number of fields''
      else
        bind_res (check_delivery (f ! 3)) (\<lambda>_.
        bind_res (check_source (f ! 4)) (\<lambda>_.
        bind_res (check_revision (f ! 5)) (\<lambda>_.
        bind_res (cd_app (f ! 2)) (\<lambda>a.
        bind_res (cd_num ''received time'' (f ! 6)) (\<lambda>t.
        Inr (EventR \<lparr>er_app = a, er_delivery = f ! 3, er_source = f ! 4, er_revision = f ! 5,
                     er_received_ms = t\<rparr>)))))))"

definition decode_resume :: "string list \<Rightarrow> string + control_record" where
  "decode_resume f =
     (if length f \<noteq> 10 then Inl ''a resume record has the wrong number of fields''
      else
        bind_res (cd_choice (f ! 4) (f ! 5)) (\<lambda>c.
        bind_res (cd_selected (f ! 6)) (\<lambda>sel.
        bind_res (map_res cd_superseded (cd_list (f ! 8))) (\<lambda>sup.
        bind_res (map_res cd_dep (cd_list (f ! 9))) (\<lambda>cleared.
        bind_res (map_res check_delivery (cd_list (f ! 7) @ map fst sup)) (\<lambda>_.
        bind_res (cd_app (f ! 2)) (\<lambda>a.
        bind_res (cd_num ''decision time'' (f ! 3)) (\<lambda>t.
        Inr (ResumeR \<lparr>re_app = a, re_at_ms = t, re_choice = c, re_selected = sel,
                      re_dismissed = cd_list (f ! 7), re_superseded = sup, re_cleared = cleared\<rparr>)))))))))"

definition decode_exec :: "string list \<Rightarrow> string + control_record" where
  "decode_exec f =
     (if length f \<noteq> 9 then Inl ''an exec record has the wrong number of fields''
      else
        bind_res (check_delivery (f ! 3)) (\<lambda>_.
        bind_res (cd_outcome (f ! 4)) (\<lambda>oc.
        bind_res (map_res check_delivery (cd_list (f ! 7))) (\<lambda>_.
        bind_res (cd_app (f ! 2)) (\<lambda>a.
        bind_res (if f ! 5 = ''-'' then Inr None else bind_res (cd_dep (f ! 5)) (\<lambda>d. Inr (Some d))) (\<lambda>d.
        bind_res (ok_or (unhex (f ! 6)) ''bad exec reason'') (\<lambda>why.
        bind_res (cd_num ''exec time'' (f ! 8)) (\<lambda>t.
        Inr (ExecR \<lparr>ex_app = a, ex_delivery = f ! 3, ex_outcome = oc, ex_deployment = d, ex_reason = why,
                    ex_superseded = cd_list (f ! 7), ex_at_ms = t\<rparr>)))))))))"

text \<open>The fields of a line are never empty, so the first one is there.\<close>

definition control_decode :: "string list \<Rightarrow> string + control_record" where
  "control_decode f =
     (if length f < 2 \<or> f ! 1 \<noteq> ''1'' then Inl ''unknown control record version''
      else if f ! 0 = ''pause'' then decode_pause f
      else if f ! 0 = ''event'' then decode_event f
      else if f ! 0 = ''resume'' then decode_resume f
      else if f ! 0 = ''exec'' then decode_exec f
      else Inl ''unknown control record'')"

section \<open>State\<close>

datatype event_status = Held | Selected | Dismissed | Superseded superseded_why | Executed | Failed

fun event_status_str :: "event_status \<Rightarrow> string" where
  "event_status_str Held = ''held''"
| "event_status_str Selected = ''selected''"
| "event_status_str Dismissed = ''dismissed''"
| "event_status_str (Superseded _) = ''superseded''"
| "event_status_str Executed = ''executed''"
| "event_status_str Failed = ''failed''"

record control_event =
  ev_rec :: event_rec
  ev_status :: event_status
  ev_decided_ms :: "u64 option"
  ev_related :: "string option"

record control_state =
  cs_pauses :: "pause_rec list"
  cs_events :: "control_event list"
  cs_resumes :: "resume_rec list"
  cs_execs :: "exec_rec list"

definition control_empty :: control_state where
  "control_empty = \<lparr>cs_pauses = [], cs_events = [], cs_resumes = [], cs_execs = []\<rparr>"

definition is_event :: "application_id \<Rightarrow> string \<Rightarrow> control_event \<Rightarrow> bool" where
  "is_event app delivery e \<longleftrightarrow> er_app (ev_rec e) = app \<and> er_delivery (ev_rec e) = delivery"

definition cs_event :: "control_state \<Rightarrow> application_id \<Rightarrow> string \<Rightarrow> control_event option" where
  "cs_event s app delivery = List.find (is_event app delivery) (cs_events s)"

definition event_index :: "control_state \<Rightarrow> application_id \<Rightarrow> string \<Rightarrow> nat option" where
  "event_index s app delivery =
     List.find (\<lambda>i. is_event app delivery (cs_events s ! i)) [0 ..< length (cs_events s)]"

definition events_of :: "control_state \<Rightarrow> application_id \<Rightarrow> control_event list" where
  "events_of s app = filter (\<lambda>e. er_app (ev_rec e) = app) (cs_events s)"

definition held_events :: "control_state \<Rightarrow> application_id \<Rightarrow> control_event list" where
  "held_events s app = filter (\<lambda>e. ev_status e = Held) (events_of s app)"

definition pending_selection :: "control_state \<Rightarrow> application_id \<Rightarrow> control_event option" where
  "pending_selection s app = List.find (\<lambda>e. ev_status e = Selected) (events_of s app)"

definition pause_rec_of :: "control_state \<Rightarrow> deployment_id \<Rightarrow> pause_rec option" where
  "pause_rec_of s origin = List.find (\<lambda>p. pu_origin p = origin) (cs_pauses s)"

definition is_cleared :: "control_state \<Rightarrow> deployment_id \<Rightarrow> bool" where
  "is_cleared s origin \<longleftrightarrow> (\<exists>r \<in> set (cs_resumes s). origin \<in> set (re_cleared r))"

definition status_at :: "control_state \<Rightarrow> nat \<Rightarrow> event_status" where
  "status_at s i = ev_status (cs_events s ! i)"

text \<open>Setting the fields of the event at an index, as the loops of the code do.\<close>

definition settle_event ::
  "event_status \<Rightarrow> u64 \<Rightarrow> string option \<Rightarrow> nat \<Rightarrow> control_event list \<Rightarrow> control_event list" where
  "settle_event st at related i es =
     es[i := (es ! i)\<lparr>ev_status := st, ev_decided_ms := Some at, ev_related := related\<rparr>]"

definition mark_event :: "event_status \<Rightarrow> u64 \<Rightarrow> nat \<Rightarrow> control_event list \<Rightarrow> control_event list" where
  "mark_event st at i es = es[i := (es ! i)\<lparr>ev_status := st, ev_decided_ms := Some at\<rparr>]"

subsection \<open>One execution\<close>

definition outcome_agrees :: "exec_rec \<Rightarrow> bool" where
  "outcome_agrees x \<longleftrightarrow>
     (case (ex_outcome x, ex_deployment x) of
        (Deployed, Some _) \<Rightarrow> True | (ExecFailed, None) \<Rightarrow> True | _ \<Rightarrow> False)"

fun exec_superseded :: "control_state \<Rightarrow> application_id \<Rightarrow> nat \<Rightarrow> string list \<Rightarrow> string + nat list" where
  "exec_superseded s app i [] = Inr []"
| "exec_superseded s app i (d # ds) =
     bind_res (ok_or (event_index s app d)
       (''an execution supersedes delivery '' @ d @ '', which is not recorded'')) (\<lambda>j.
     if j = i \<or> status_at s j \<noteq> Held then Inl (''superseded delivery '' @ d @ '' is not held'')
     else if er_received_ms (ev_rec (cs_events s ! i)) < er_received_ms (ev_rec (cs_events s ! j))
     then Inl (''delivery '' @ d @ '' is newer than the one executed, so it cannot be superseded by it'')
     else bind_res (exec_superseded s app i ds) (\<lambda>js. Inr (j # js)))"

definition apply_exec :: "exec_rec \<Rightarrow> control_state \<Rightarrow> string + control_state" where
  "apply_exec x s =
     bind_res (ok_or (event_index s (ex_app x) (ex_delivery x))
       (''an execution names delivery '' @ ex_delivery x @ '', which is not recorded for '' @ app_str (ex_app x)))
       (\<lambda>i.
     if status_at s i \<noteq> Held \<and> status_at s i \<noteq> Selected
     then Inl (''delivery '' @ ex_delivery x @ '' is '' @ event_status_str (status_at s i)
            @ '', not waiting to be executed'')
     else if \<not> outcome_agrees x then Inl ''an execution's outcome and deployment disagree''
     else
       bind_res (exec_superseded s (ex_app x) i (ex_superseded x)) (\<lambda>sup.
       let st = (case ex_outcome x of Deployed \<Rightarrow> Executed | ExecFailed \<Rightarrow> Failed);
           why = (case ex_deployment x of Some d \<Rightarrow> dep_str d | None \<Rightarrow> ex_reason x);
           es = settle_event st (ex_at_ms x) (Some why) i (cs_events s);
           es = fold (settle_event (Superseded NewerSelected) (ex_at_ms x) (Some (ex_delivery x))) sup es
       in Inr (s\<lparr>cs_events := es, cs_execs := cs_execs s @ [x]\<rparr>)))"

subsection \<open>One decision\<close>

definition decided_index :: "control_state \<Rightarrow> application_id \<Rightarrow> string \<Rightarrow> string + nat" where
  "decided_index s app d =
     ok_or (event_index s app d)
       (''a decision names delivery '' @ d @ '', which is not recorded for '' @ app_str app)"

definition choice_checked :: "resume_rec \<Rightarrow> string option \<Rightarrow> string + unit" where
  "choice_checked x pending =
     (case (re_choice x, re_selected x) of
        (Dismiss, None) \<Rightarrow>
          if re_superseded x \<noteq> [] then Inl ''a dismissal supersedes nothing'' else Inr ()
      | (Dismiss, Some _) \<Rightarrow> Inl ''a decision's choice and selection disagree''
      | (_, Some _) \<Rightarrow>
          if re_cleared x \<noteq> [] \<or> re_dismissed x \<noteq> []
          then Inl ''a selection neither clears a pause nor dismisses events''
          else if pending \<noteq> None then Inl ''a selection is already pending for this application''
          else Inr ()
      | (_, None) \<Rightarrow> Inl ''a decision's choice and selection disagree'')"

fun dismissed_indices ::
  "control_state \<Rightarrow> application_id \<Rightarrow> choice \<Rightarrow> string list \<Rightarrow> string + nat list" where
  "dismissed_indices s app c [] = Inr []"
| "dismissed_indices s app c (d # ds) =
     bind_res (decided_index s app d) (\<lambda>i.
     if status_at s i = Held \<or> status_at s i = Selected \<and> c = Dismiss
     then bind_res (dismissed_indices s app c ds) (\<lambda>is. Inr (i # is))
     else Inl (''delivery '' @ d @ '' is '' @ event_status_str (status_at s i) @ '', not held''))"

definition selected_index :: "control_state \<Rightarrow> application_id \<Rightarrow> string option \<Rightarrow> string + nat option" where
  "selected_index s app sel =
     (case sel of
        None \<Rightarrow> Inr None
      | Some d \<Rightarrow>
          bind_res (decided_index s app d) (\<lambda>i.
          if status_at s i \<noteq> Held then Inl (''selected delivery '' @ d @ '' is not held'')
          else Inr (Some i)))"

fun superseded_indices ::
  "control_state \<Rightarrow> application_id \<Rightarrow> nat option \<Rightarrow> (string \<times> superseded_why) list \<Rightarrow> string + nat list" where
  "superseded_indices s app sel [] = Inr []"
| "superseded_indices s app sel ((d, w) # ds) =
     bind_res (decided_index s app d) (\<lambda>i.
     if status_at s i \<noteq> Held \<or> sel = Some i then Inl (''superseded delivery '' @ d @ '' is not held'')
     else bind_res (superseded_indices s app sel ds) (\<lambda>is. Inr (i # is)))"

definition held_indices :: "control_state \<Rightarrow> application_id \<Rightarrow> nat list" where
  "held_indices s app =
     filter (\<lambda>i. er_app (ev_rec (cs_events s ! i)) = app \<and> status_at s i = Held) [0 ..< length (cs_events s)]"

definition apply_resume :: "resume_rec \<Rightarrow> control_state \<Rightarrow> string + control_state" where
  "apply_resume x s =
     (let app = re_app x;
          pending = map_option (\<lambda>e. er_delivery (ev_rec e)) (pending_selection s app)
      in
        bind_res (choice_checked x pending) (\<lambda>_.
        bind_res (dismissed_indices s app (re_choice x) (re_dismissed x)) (\<lambda>touched.
        if (case pending of Some p \<Rightarrow> re_choice x = Dismiss \<and> p \<notin> set (re_dismissed x) | None \<Rightarrow> False)
        then Inl ''a dismissal must also dismiss the pending selection''
        else
          bind_res (selected_index s app (re_selected x)) (\<lambda>sel.
          bind_res (superseded_indices s app sel (re_superseded x)) (\<lambda>sup.
          case List.find (\<lambda>i. i \<notin> set touched \<and> i \<notin> set sup \<and> Some i \<noteq> sel) (held_indices s app) of
            Some i \<Rightarrow> Inl (''a decision leaves held delivery '' @ er_delivery (ev_rec (cs_events s ! i))
                        @ '' unaccounted for'')
          | None \<Rightarrow>
              let es = fold (mark_event Dismissed (re_at_ms x)) touched (cs_events s);
                  es = (case sel of None \<Rightarrow> es | Some i \<Rightarrow> mark_event Selected (re_at_ms x) i es);
                  es = fold (\<lambda>(i, w). settle_event (Superseded w) (re_at_ms x) (re_selected x) i)
                         (zip sup (map snd (re_superseded x))) es
              in Inr (s\<lparr>cs_events := es, cs_resumes := cs_resumes s @ [x]\<rparr>))))))"

subsection \<open>One record\<close>

fun control_apply :: "control_record \<Rightarrow> control_state \<Rightarrow> string + control_state" where
  "control_apply (PauseR p) s =
     (if \<exists>q \<in> set (cs_pauses s). pu_origin q = pu_origin p
      then Inl (''pause for deployment '' @ dep_str (pu_origin p) @ '' is recorded twice'')
      else Inr (s\<lparr>cs_pauses := cs_pauses s @ [p]\<rparr>))"
| "control_apply (EventR e) s =
     (case cs_event s (er_app e) (er_delivery e) of
        Some old \<Rightarrow>
          Inl (''delivery '' @ er_delivery e @ '' of application '' @ app_str (er_app e) @ '' is recorded twice''
            @ (if ev_rec old = e then [] else '' with different content''))
      | None \<Rightarrow>
          Inr (s\<lparr>cs_events := cs_events s @
             [\<lparr>ev_rec = e, ev_status = Held, ev_decided_ms = None, ev_related = None\<rparr>]\<rparr>))"
| "control_apply (ResumeR x) s = apply_resume x s"
| "control_apply (ExecR x) s = apply_exec x s"

fun control_replay :: "control_record list \<Rightarrow> control_state \<Rightarrow> string + control_state" where
  "control_replay [] s = Inr s"
| "control_replay (r # rs) s = bind_res (control_apply r s) (control_replay rs)"

end
