(* ===== verification/ControlState.thy ===== *)
theory ControlState
  imports Control
begin

text \<open>
  What the control records rebuild (\<open>ControlState::apply\<close> of \<open>deploy/src/control.rs\<close>): every event has one
  entry for ever, its status only moves forward, every status is explained by a recorded decision, and
  at most one event of an application is selected.
\<close>

section \<open>Finding events\<close>

definition event_key :: "control_event \<Rightarrow> application_id \<times> string" where
  "event_key e = (er_app (ev_rec e), er_delivery (ev_rec e))"

definition events_unique :: "control_event list \<Rightarrow> bool" where
  "events_unique es \<longleftrightarrow> distinct (map event_key es)"

lemma is_event_key: "is_event app d e \<longleftrightarrow> event_key e = (app, d)"
  by (simp add: is_event_def event_key_def)

lemma find_upt_Some:
  "List.find P [0 ..< n] = Some i \<Longrightarrow> i < n \<and> P i"
  by (auto simp: find_Some_iff)

lemma find_upt_unique:
  assumes "i < n" "P i" "\<And>j. j < n \<Longrightarrow> P j \<Longrightarrow> j = i"
  shows "List.find P [0 ..< n] = Some i"
proof -
  obtain j where j: "List.find P [0 ..< n] = Some j"
    using assms(1,2) by (cases "List.find P [0 ..< n]") (auto simp: find_None_iff)
  with assms(3) [of j] find_upt_Some [OF j] show ?thesis by simp
qed

lemma event_index_Some:
  "event_index s app d = Some i \<Longrightarrow> i < length (cs_events s) \<and> event_key (cs_events s ! i) = (app, d)"
  unfolding event_index_def by (drule find_upt_Some) (simp add: is_event_key)

lemma unique_nth:
  "events_unique es \<Longrightarrow> i < length es \<Longrightarrow> j < length es \<Longrightarrow> event_key (es ! i) = event_key (es ! j) \<Longrightarrow> i = j"
  unfolding events_unique_def using nth_eq_iff_index_eq [of "map event_key es" i j] by simp

lemma event_index_unique:
  assumes "events_unique (cs_events s)" and "i < length (cs_events s)" and "event_key (cs_events s ! i) = (app, d)"
  shows "event_index s app d = Some i"
  unfolding event_index_def
  by (rule find_upt_unique) (use assms unique_nth [OF assms(1)] in \<open>auto simp: is_event_key\<close>)

lemma cs_event_None_iff: "cs_event s app d = None \<longleftrightarrow> (app, d) \<notin> event_key ` set (cs_events s)"
  by (force simp: cs_event_def find_None_iff is_event_key)

section \<open>Settling events\<close>

lemma length_mark [simp]: "length (mark_event st t i es) = length es"
  by (simp add: mark_event_def)

lemma length_settle [simp]: "length (settle_event st t r i es) = length es"
  by (simp add: settle_event_def)

lemma length_fold_mark [simp]: "length (fold (mark_event st t) is es) = length es"
  by (induction "is" arbitrary: es) simp_all

lemma length_fold_settle [simp]: "length (fold (settle_event st t r) is es) = length es"
  by (induction "is" arbitrary: es) simp_all

lemma length_fold_why [simp]: "length (fold (\<lambda>(i, w). settle_event (f w) t r i) ps es) = length es"
  by (induction ps arbitrary: es) auto

lemma nth_mark:
  "k < length es \<Longrightarrow> mark_event st t i es ! k =
     (if k = i then (es ! k)\<lparr>ev_status := st, ev_decided_ms := Some t\<rparr> else es ! k)"
  by (simp add: mark_event_def nth_list_update)

lemma nth_settle:
  "k < length es \<Longrightarrow> settle_event st t r i es ! k =
     (if k = i then (es ! k)\<lparr>ev_status := st, ev_decided_ms := Some t, ev_related := r\<rparr> else es ! k)"
  by (simp add: settle_event_def nth_list_update)

lemma nth_fold_mark:
  "k < length es \<Longrightarrow> fold (mark_event st t) is es ! k =
     (if k \<in> set is then (es ! k)\<lparr>ev_status := st, ev_decided_ms := Some t\<rparr> else es ! k)"
  by (induction "is" arbitrary: es) (auto simp: nth_mark)

lemma nth_fold_settle:
  "k < length es \<Longrightarrow> fold (settle_event st t r) is es ! k =
     (if k \<in> set is then (es ! k)\<lparr>ev_status := st, ev_decided_ms := Some t, ev_related := r\<rparr> else es ! k)"
  by (induction "is" arbitrary: es) (auto simp: nth_settle)

lemma nth_fold_why_other:
  "k < length es \<Longrightarrow> k \<notin> fst ` set ps \<Longrightarrow> fold (\<lambda>(i, w). settle_event (f w) t r i) ps es ! k = es ! k"
  by (induction ps arbitrary: es) (auto simp: nth_settle)

lemma nth_fold_why:
  "k < length es \<Longrightarrow> k \<in> fst ` set ps \<Longrightarrow>
   \<exists>w. (k, w) \<in> set ps \<and> fold (\<lambda>(i, w). settle_event (f w) t r i) ps es ! k =
     (es ! k)\<lparr>ev_status := f w, ev_decided_ms := Some t, ev_related := r\<rparr>"
proof (induction ps arbitrary: es)
  case Nil
  then show ?case by simp
next
  case (Cons p ps)
  obtain i w where p: "p = (i, w)" by force
  show ?case
  proof (cases "k \<in> fst ` set ps")
    case True
    with Cons.IH [of "settle_event (f w) t r i es"] Cons.prems(1)
    show ?thesis by (auto simp: p nth_settle)
  next
    case False
    with Cons.prems have "k = i" by (simp add: p)
    with False Cons.prems(1) show ?thesis
      by (intro exI [of _ w]) (simp add: p nth_fold_why_other nth_settle)
  qed
qed

section \<open>What an accepted record did\<close>

definition names_held :: "control_state \<Rightarrow> application_id \<Rightarrow> string \<Rightarrow> nat \<Rightarrow> bool" where
  "names_held s app d i \<longleftrightarrow> event_index s app d = Some i \<and> status_at s i = Held"

lemma exec_superseded_Inr:
  "exec_superseded s app i ds = Inr js \<longleftrightarrow>
   list_all2 (\<lambda>d j. names_held s app d j \<and> j \<noteq> i \<and>
     er_received_ms (ev_rec (cs_events s ! j)) \<le> er_received_ms (ev_rec (cs_events s ! i))) ds js"
  by (induction ds arbitrary: js)
    (auto simp: bind_res_Inr_iff names_held_def list_all2_Cons1 not_less split: if_splits)

lemma dismissed_Inr:
  "dismissed_indices s app c ds = Inr js \<longleftrightarrow>
   list_all2 (\<lambda>d j. event_index s app d = Some j \<and>
     (status_at s j = Held \<or> status_at s j = Selected \<and> c = Dismiss)) ds js"
  by (induction ds arbitrary: js)
    (auto simp: bind_res_Inr_iff decided_index_def list_all2_Cons1 split: if_splits)

lemma superseded_Inr:
  "superseded_indices s app sel ds = Inr js \<longleftrightarrow>
   list_all2 (\<lambda>p j. names_held s app (fst p) j \<and> sel \<noteq> Some j) ds js"
  by (induction ds arbitrary: js)
    (auto simp: bind_res_Inr_iff decided_index_def names_held_def list_all2_Cons1 split: if_splits)

lemma selected_Inr:
  "selected_index s app sel = Inr r \<longleftrightarrow>
   (case sel of None \<Rightarrow> r = None | Some d \<Rightarrow> (\<exists>i. r = Some i \<and> names_held s app d i))"
  by (auto simp: selected_index_def bind_res_Inr_iff decided_index_def names_held_def split: option.splits if_splits)

lemma choice_checked_Inr:
  "choice_checked x pending = Inr () \<longleftrightarrow>
   (if re_choice x = Dismiss then re_selected x = None \<and> re_superseded x = []
    else re_selected x \<noteq> None \<and> re_cleared x = [] \<and> re_dismissed x = [] \<and> pending = None)"
  by (auto simp: choice_checked_def split: choice.splits option.splits)

lemma pending_None_iff:
  "pending_selection s app = None \<longleftrightarrow> (\<forall>e \<in> set (cs_events s). er_app (ev_rec e) = app \<longrightarrow> ev_status e \<noteq> Selected)"
  by (auto simp: pending_selection_def events_of_def find_None_iff)

lemma in_held_indices:
  "i \<in> set (held_indices s app) \<longleftrightarrow>
   i < length (cs_events s) \<and> er_app (ev_rec (cs_events s ! i)) = app \<and> status_at s i = Held"
  by (auto simp: held_indices_def)

definition exec_status :: "exec_rec \<Rightarrow> event_status" where
  "exec_status x = (case ex_outcome x of Deployed \<Rightarrow> Executed | ExecFailed \<Rightarrow> Failed)"

definition exec_reason :: "exec_rec \<Rightarrow> string" where
  "exec_reason x = (case ex_deployment x of Some d \<Rightarrow> dep_str d | None \<Rightarrow> ex_reason x)"

lemma apply_exec_Inr:
  "apply_exec x s = Inr s' \<longleftrightarrow> outcome_agrees x \<and>
   (\<exists>i js. event_index s (ex_app x) (ex_delivery x) = Some i \<and> (status_at s i = Held \<or> status_at s i = Selected) \<and>
     list_all2 (\<lambda>d j. names_held s (ex_app x) d j \<and> j \<noteq> i \<and>
       er_received_ms (ev_rec (cs_events s ! j)) \<le> er_received_ms (ev_rec (cs_events s ! i))) (ex_superseded x) js \<and>
     s' = s\<lparr>cs_events :=
             fold (settle_event (Superseded NewerSelected) (ex_at_ms x) (Some (ex_delivery x))) js
               (settle_event (exec_status x) (ex_at_ms x) (Some (exec_reason x)) i (cs_events s)),
            cs_execs := cs_execs s @ [x]\<rparr>)"
  by (auto simp: apply_exec_def bind_res_Inr_iff exec_superseded_Inr exec_status_def exec_reason_def Let_def
      split: if_splits)

lemma apply_dismiss_Inr:
  assumes "re_choice x = Dismiss"
  shows "apply_resume x s = Inr s' \<longleftrightarrow> re_selected x = None \<and> re_superseded x = [] \<and>
   (\<forall>e. pending_selection s (re_app x) = Some e \<longrightarrow> er_delivery (ev_rec e) \<in> set (re_dismissed x)) \<and>
   (\<exists>js. list_all2 (\<lambda>d j. event_index s (re_app x) d = Some j \<and> (status_at s j = Held \<or> status_at s j = Selected))
       (re_dismissed x) js \<and>
     set (held_indices s (re_app x)) \<subseteq> set js \<and>
     s' = s\<lparr>cs_events := fold (mark_event Dismissed (re_at_ms x)) js (cs_events s), cs_resumes := cs_resumes s @ [x]\<rparr>)"
  using assms
  by (auto simp: apply_resume_def bind_res_Inr_iff dismissed_Inr Let_def choice_checked_def selected_index_def
      find_None_iff split: if_splits option.splits)

definition select_done :: "resume_rec \<Rightarrow> string \<Rightarrow> nat \<Rightarrow> nat list \<Rightarrow> control_state \<Rightarrow> control_state" where
  "select_done x d i js s =
     s\<lparr>cs_events := fold (\<lambda>(i, w). settle_event (Superseded w) (re_at_ms x) (Some d) i)
             (zip js (map snd (re_superseded x))) (mark_event Selected (re_at_ms x) i (cs_events s)),
       cs_resumes := cs_resumes s @ [x]\<rparr>"

lemma apply_select_Inr:
  assumes "re_choice x \<noteq> Dismiss"
  shows "apply_resume x s = Inr s' \<longleftrightarrow> re_cleared x = [] \<and> re_dismissed x = [] \<and>
   pending_selection s (re_app x) = None \<and>
   (\<exists>d i js. re_selected x = Some d \<and> names_held s (re_app x) d i \<and>
     list_all2 (\<lambda>p j. names_held s (re_app x) (fst p) j \<and> i \<noteq> j) (re_superseded x) js \<and>
     (\<forall>k. k \<in> set (held_indices s (re_app x)) \<longrightarrow> k \<in> set js \<or> k = i) \<and> s' = select_done x d i js s)"
proof -
  have "choice_checked x p = Inr () \<longleftrightarrow> re_selected x \<noteq> None \<and> re_cleared x = [] \<and> re_dismissed x = [] \<and> p = None" for p
    using assms by (simp add: choice_checked_Inr)
  note [simp] = this
  show ?thesis
  proof (cases "re_selected x")
    case None
    then show ?thesis
      using assms by (auto simp: apply_resume_def bind_res_Inr_iff Let_def)
  next
    case (Some d)
    with assms show ?thesis
      apply (auto simp: apply_resume_def bind_res_Inr_iff superseded_Inr selected_Inr Let_def
          select_done_def [symmetric] find_None_iff split: if_splits option.splits)
      subgoal by blast
      subgoal for i js by (rule exI [of _ "Some i"]) auto
      done
  qed
qed

section \<open>The invariant\<close>

definition status_le :: "event_status \<Rightarrow> event_status \<Rightarrow> bool" where
  "status_le a b \<longleftrightarrow> a = b \<or> a = Held \<or> a = Selected \<and> b \<in> {Dismissed, Executed, Failed}"

definition decided_by :: "application_id \<Rightarrow> u64 \<Rightarrow> string option \<Rightarrow> control_event \<Rightarrow> bool" where
  "decided_by app t rel e \<longleftrightarrow> er_app (ev_rec e) = app \<and> ev_decided_ms e = Some t \<and> ev_related e = rel"

text \<open>The recorded decision that gave an event its status.\<close>

definition explained :: "control_state \<Rightarrow> control_event \<Rightarrow> bool" where
  "explained s e \<longleftrightarrow>
     (let d = er_delivery (ev_rec e)
      in case ev_status e of
           Held \<Rightarrow> ev_decided_ms e = None \<and> ev_related e = None
         | Selected \<Rightarrow>
             (\<exists>r \<in> set (cs_resumes s). decided_by (re_app r) (re_at_ms r) None e \<and> re_selected r = Some d)
         | Dismissed \<Rightarrow>
             (\<exists>r \<in> set (cs_resumes s). decided_by (re_app r) (re_at_ms r) None e \<and> re_choice r = Dismiss \<and>
               d \<in> set (re_dismissed r))
         | Superseded w \<Rightarrow>
             (\<exists>r \<in> set (cs_resumes s). decided_by (re_app r) (re_at_ms r) (re_selected r) e \<and>
               (d, w) \<in> set (re_superseded r)) \<or>
             (\<exists>x \<in> set (cs_execs s). decided_by (ex_app x) (ex_at_ms x) (Some (ex_delivery x)) e \<and>
               w = NewerSelected \<and> d \<in> set (ex_superseded x))
         | st \<Rightarrow>
             (\<exists>x \<in> set (cs_execs s). decided_by (ex_app x) (ex_at_ms x) (Some (exec_reason x)) e \<and>
               ex_delivery x = d \<and> exec_status x = st))"

definition one_selected :: "control_event list \<Rightarrow> bool" where
  "one_selected es \<longleftrightarrow>
     (\<forall>i < length es. \<forall>j < length es. er_app (ev_rec (es ! i)) = er_app (ev_rec (es ! j)) \<and>
        ev_status (es ! i) = Selected \<and> ev_status (es ! j) = Selected \<longrightarrow> i = j)"

definition control_inv :: "control_state \<Rightarrow> bool" where
  "control_inv s \<longleftrightarrow> events_unique (cs_events s) \<and> one_selected (cs_events s) \<and>
     list_all (explained s) (cs_events s) \<and> distinct (map pu_origin (cs_pauses s))"

text \<open>How an event may change while records are applied.\<close>

definition moved :: "control_state \<Rightarrow> control_event \<Rightarrow> control_event \<Rightarrow> bool" where
  "moved s e e' \<longleftrightarrow> e' = e \<or>
     ev_rec e' = ev_rec e \<and> status_le (ev_status e) (ev_status e') \<and> explained s e'"

lemma explained_more:
  "explained s e \<Longrightarrow> set (cs_resumes s) \<subseteq> set (cs_resumes s') \<Longrightarrow> set (cs_execs s) \<subseteq> set (cs_execs s') \<Longrightarrow>
   explained s' e"
  unfolding explained_def Let_def by (cases "ev_status e"; simp; blast)

lemma Held_unrelated: "explained s e \<Longrightarrow> ev_status e = Held \<Longrightarrow> ev_related e = None"
  by (simp add: explained_def)

lemma Selected_unrelated: "explained s e \<Longrightarrow> ev_status e = Selected \<Longrightarrow> ev_related e = None"
  by (auto simp: explained_def Let_def decided_by_def)

lemma names_heldD:
  "names_held s app d i \<Longrightarrow> i < length (cs_events s) \<and> event_key (cs_events s ! i) = (app, d) \<and>
     ev_status (cs_events s ! i) = Held"
  by (auto simp: names_held_def status_at_def dest: event_index_Some)

lemma list_all2_from: "list_all2 P xs ys \<Longrightarrow> y \<in> set ys \<Longrightarrow> \<exists>x \<in> set xs. P x y"
  by (induction rule: list_all2_induct) auto

lemma list_all2_to: "list_all2 P xs ys \<Longrightarrow> x \<in> set xs \<Longrightarrow> \<exists>y \<in> set ys. P x y"
  by (induction rule: list_all2_induct) auto

lemma exec_status_cases: "exec_status x = Executed \<or> exec_status x = Failed"
  by (simp add: exec_status_def split: exec_outcome.split)

lemma moved_exec:
  assumes ok: "apply_exec x s = Inr s'" and k: "k < length (cs_events s)"
  shows "k < length (cs_events s') \<and> moved s' (cs_events s ! k) (cs_events s' ! k) \<and>
    ev_status (cs_events s' ! k) \<noteq> Selected \<or> cs_events s' ! k = cs_events s ! k \<and> k < length (cs_events s')"
proof -
  obtain i js where i: "event_index s (ex_app x) (ex_delivery x) = Some i"
      "status_at s i = Held \<or> status_at s i = Selected"
    and js: "list_all2 (\<lambda>d j. names_held s (ex_app x) d j \<and> j \<noteq> i \<and>
       er_received_ms (ev_rec (cs_events s ! j)) \<le> er_received_ms (ev_rec (cs_events s ! i))) (ex_superseded x) js"
    and s': "s' = s\<lparr>cs_events :=
             fold (settle_event (Superseded NewerSelected) (ex_at_ms x) (Some (ex_delivery x))) js
               (settle_event (exec_status x) (ex_at_ms x) (Some (exec_reason x)) i (cs_events s)),
            cs_execs := cs_execs s @ [x]\<rparr>"
    using ok by (auto simp: apply_exec_Inr)
  note nth = nth_fold_settle nth_settle
  show ?thesis
  proof (cases "k \<in> set js")
    case True
    then obtain d where "d \<in> set (ex_superseded x)" "names_held s (ex_app x) d k"
      using list_all2_from [OF js True] by blast
    then show ?thesis
      using k True names_heldD [of s "ex_app x" d k]
      by (auto simp: s' nth moved_def status_le_def explained_def decided_by_def event_key_def)
  next
    case False
    then show ?thesis
      using k i event_index_Some [OF i(1)] exec_status_cases [of x]
      by (auto simp: s' nth moved_def status_le_def explained_def decided_by_def event_key_def status_at_def)
  qed
qed

lemma moved_dismiss:
  assumes ok: "apply_resume x s = Inr s'" and c: "re_choice x = Dismiss" and inv: "list_all (explained s) (cs_events s)"
    and k: "k < length (cs_events s)"
  shows "k < length (cs_events s') \<and> moved s' (cs_events s ! k) (cs_events s' ! k) \<and>
    ev_status (cs_events s' ! k) \<noteq> Selected \<or> cs_events s' ! k = cs_events s ! k \<and> k < length (cs_events s')"
proof -
  obtain js where js: "list_all2 (\<lambda>d j. event_index s (re_app x) d = Some j \<and>
        (status_at s j = Held \<or> status_at s j = Selected)) (re_dismissed x) js"
    and s': "s' = s\<lparr>cs_events := fold (mark_event Dismissed (re_at_ms x)) js (cs_events s),
                    cs_resumes := cs_resumes s @ [x]\<rparr>"
    using ok by (auto simp: apply_dismiss_Inr [OF c])
  show ?thesis
  proof (cases "k \<in> set js")
    case True
    then obtain d where d: "d \<in> set (re_dismissed x)" "event_index s (re_app x) d = Some k"
        "status_at s k = Held \<or> status_at s k = Selected"
      using list_all2_from [OF js True] by blast
    have "ev_related (cs_events s ! k) = None"
      using d(3) inv k Held_unrelated Selected_unrelated by (auto simp: status_at_def list_all_length)
    with d show ?thesis
      using k True event_index_Some [OF d(2)]
      by (auto simp: s' nth_fold_mark moved_def status_le_def explained_def decided_by_def event_key_def
          status_at_def c)
  next
    case False
    then show ?thesis using k by (simp add: s' nth_fold_mark)
  qed
qed

lemma moved_select:
  assumes ok: "apply_resume x s = Inr s'" and c: "re_choice x \<noteq> Dismiss" and inv: "list_all (explained s) (cs_events s)"
    and k: "k < length (cs_events s)"
  shows "k < length (cs_events s') \<and> moved s' (cs_events s ! k) (cs_events s' ! k) \<and>
    (ev_status (cs_events s' ! k) = Selected \<longrightarrow> cs_events s' ! k = cs_events s ! k \<or>
      re_selected x = Some (er_delivery (ev_rec (cs_events s ! k))) \<and> er_app (ev_rec (cs_events s ! k)) = re_app x \<and>
      pending_selection s (re_app x) = None)"
proof -
  obtain d i js where sel: "re_selected x = Some d" "names_held s (re_app x) d i" "pending_selection s (re_app x) = None"
    and js: "list_all2 (\<lambda>p j. names_held s (re_app x) (fst p) j \<and> i \<noteq> j) (re_superseded x) js"
    and s': "s' = select_done x d i js s"
    using ok by (auto simp: apply_select_Inr [OF c])
  have len: "length js = length (map snd (re_superseded x))"
    using list_all2_lengthD [OF js] by simp
  show ?thesis
  proof (cases "k \<in> set js")
    case True
    then have "k \<in> fst ` set (zip js (map snd (re_superseded x)))"
      using len by (metis map_fst_zip set_map)
    then obtain w where w: "(k, w) \<in> set (zip js (map snd (re_superseded x)))"
      and nth: "cs_events s' ! k = (mark_event Selected (re_at_ms x) i (cs_events s) ! k)
        \<lparr>ev_status := Superseded w, ev_decided_ms := Some (re_at_ms x), ev_related := Some d\<rparr>"
      using nth_fold_why [of k "mark_event Selected (re_at_ms x) i (cs_events s)"
          "zip js (map snd (re_superseded x))" Superseded "re_at_ms x" "Some d"] k
      by (auto simp: s' select_done_def)
    from w obtain n where n: "n < length js" "js ! n = k" "snd (re_superseded x ! n) = w" "n < length (re_superseded x)"
      using len by (auto simp: in_set_zip)
    then have nm: "names_held s (re_app x) (fst (re_superseded x ! n)) k" "i \<noteq> k"
      using js by (auto simp: list_all2_conv_all_nth)
    have "re_superseded x ! n \<in> set (re_superseded x)" using n(4) by simp
    then have "(fst (re_superseded x ! n), w) \<in> set (re_superseded x)"
      using n(3) by (metis surjective_pairing)
    then show ?thesis
      using k nm names_heldD [OF nm(1)] nth sel(1)
      by (auto simp: s' select_done_def nth_mark moved_def status_le_def explained_def decided_by_def event_key_def)
  next
    case False
    then have "k \<notin> fst ` set (zip js (map snd (re_superseded x)))"
      by (auto dest: set_zip_leftD)
    with k have nth: "cs_events s' ! k = mark_event Selected (re_at_ms x) i (cs_events s) ! k"
      by (simp add: s' select_done_def nth_fold_why_other)
    show ?thesis
    proof (cases "k = i")
      case True
      moreover have "ev_related (cs_events s ! i) = None"
        using names_heldD [OF sel(2)] inv Held_unrelated by (auto simp: list_all_length)
      ultimately show ?thesis
        using k names_heldD [OF sel(2)] sel nth
        by (auto simp: s' select_done_def nth_mark moved_def status_le_def explained_def decided_by_def event_key_def)
    qed (use k nth in \<open>simp add: s' select_done_def nth_mark moved_def\<close>)
  qed
qed

lemma apply_keeps:
  assumes "control_apply r s = Inr s'"
  shows "set (cs_resumes s) \<subseteq> set (cs_resumes s')" "set (cs_execs s) \<subseteq> set (cs_execs s')"
    "\<exists>ps. cs_pauses s' = cs_pauses s @ ps" "length (cs_events s) \<le> length (cs_events s')"
proof -
  have "set (cs_resumes s) \<subseteq> set (cs_resumes s') \<and> set (cs_execs s) \<subseteq> set (cs_execs s') \<and>
    (\<exists>ps. cs_pauses s' = cs_pauses s @ ps) \<and> length (cs_events s) \<le> length (cs_events s')"
  proof (cases r)
    case (ResumeR x)
    then show ?thesis
      using assms by (cases "re_choice x = Dismiss") (auto simp: apply_dismiss_Inr apply_select_Inr select_done_def)
  qed (use assms in \<open>auto simp: apply_exec_Inr split: if_splits option.splits\<close>)
  then show "set (cs_resumes s) \<subseteq> set (cs_resumes s')" "set (cs_execs s) \<subseteq> set (cs_execs s')"
    "\<exists>ps. cs_pauses s' = cs_pauses s @ ps" "length (cs_events s) \<le> length (cs_events s')" by blast+
qed

lemma apply_moved:
  assumes "control_apply r s = Inr s'" and "list_all (explained s) (cs_events s)" and "k < length (cs_events s)"
  shows "moved s' (cs_events s ! k) (cs_events s' ! k)"
proof (cases r)
  case (ResumeR x)
  then show ?thesis
    using assms moved_dismiss [of x s s' k] moved_select [of x s s' k]
    by (cases "re_choice x = Dismiss") (auto simp: moved_def)
next
  case (ExecR x)
  then show ?thesis using assms moved_exec [of x s s' k] by (auto simp: moved_def)
qed (use assms in \<open>auto simp: moved_def nth_append split: if_splits option.splits\<close>)

lemma apply_length:
  assumes "control_apply r s = Inr s'"
  shows "length (cs_events s') = length (cs_events s) + (case r of EventR _ \<Rightarrow> 1 | _ \<Rightarrow> 0)"
proof (cases r)
  case (ResumeR x)
  then show ?thesis
    using assms by (cases "re_choice x = Dismiss") (auto simp: apply_dismiss_Inr apply_select_Inr select_done_def)
qed (use assms in \<open>auto simp: apply_exec_Inr split: if_splits option.splits\<close>)

lemma apply_new_event:
  assumes "control_apply (EventR e) s = Inr s'"
  shows "(er_app e, er_delivery e) \<notin> event_key ` set (cs_events s)"
    "cs_events s' = cs_events s @ [\<lparr>ev_rec = e, ev_status = Held, ev_decided_ms = None, ev_related = None\<rparr>]"
  using assms by (auto simp: cs_event_None_iff [symmetric] split: option.splits)

lemma moved_keys:
  assumes "control_apply r s = Inr s'" and "list_all (explained s) (cs_events s)" and "\<And>e. r \<noteq> EventR e"
  shows "map event_key (cs_events s') = map event_key (cs_events s)"
proof (rule nth_equalityI)
  show "length (map event_key (cs_events s')) = length (map event_key (cs_events s))"
    using apply_length [OF assms(1)] assms(3) by (cases r) auto
next
  fix k assume "k < length (map event_key (cs_events s'))"
  then have k: "k < length (cs_events s)" "k < length (cs_events s')"
    using apply_length [OF assms(1)] assms(3) by (cases r; auto)+
  then show "map event_key (cs_events s') ! k = map event_key (cs_events s) ! k"
    using apply_moved [OF assms(1,2) k(1)] by (auto simp: moved_def event_key_def)
qed

lemma control_inv_unique:
  assumes "control_apply r s = Inr s'" and "control_inv s"
  shows "events_unique (cs_events s')"
proof (cases r)
  case (EventR e)
  then show ?thesis
    using assms apply_new_event [of e s s'] by (auto simp: control_inv_def events_unique_def event_key_def)
qed (use assms moved_keys [OF assms(1)] in \<open>auto simp: control_inv_def events_unique_def\<close>)

lemma control_inv_explained:
  assumes "control_apply r s = Inr s'" and "control_inv s"
  shows "list_all (explained s') (cs_events s')"
  unfolding list_all_length
proof (intro allI impI)
  fix k assume k: "k < length (cs_events s')"
  show "explained s' (cs_events s' ! k)"
  proof (cases "k < length (cs_events s)")
    case True
    have "explained s' (cs_events s ! k)"
      using assms(2) True explained_more [OF _ apply_keeps(1,2) [OF assms(1)]]
      by (auto simp: control_inv_def list_all_length)
    then show ?thesis
      using apply_moved [OF assms(1) _ True] assms(2) by (auto simp: moved_def control_inv_def)
  next
    case False
    then obtain e where "r = EventR e" using k apply_length [OF assms(1)] by (cases r) auto
    with False k assms(1) show ?thesis
      using apply_new_event [of e s s'] by (auto simp: explained_def nth_append)
  qed
qed

lemma one_selected_weaken:
  assumes "one_selected es" and "length es' \<le> length es + 1"
    and "\<And>k. k < length es \<Longrightarrow> ev_rec (es' ! k) = ev_rec (es ! k) \<and> (ev_status (es' ! k) = Selected \<longrightarrow> ev_status (es ! k) = Selected)"
    and "length es < length es' \<Longrightarrow> ev_status (es' ! length es) \<noteq> Selected"
  shows "one_selected es'"
proof -
  have "k < length es" if "k < length es'" "ev_status (es' ! k) = Selected" for k
    using that assms(2,4) by (cases "k = length es") auto
  then show ?thesis using assms(1,3) by (auto simp: one_selected_def)
qed

lemma control_inv_selected:
  assumes "control_apply r s = Inr s'" and inv: "control_inv s"
  shows "one_selected (cs_events s')"
proof -
  have ex: "list_all (explained s) (cs_events s)" and one: "one_selected (cs_events s)"
    and uniq: "events_unique (cs_events s)"
    using inv by (auto simp: control_inv_def)
  show ?thesis
  proof (cases "\<exists>x. r = ResumeR x \<and> re_choice x \<noteq> Dismiss")
    case True
    then obtain x where x: "r = ResumeR x" "re_choice x \<noteq> Dismiss" by blast
    have len: "length (cs_events s') = length (cs_events s)" using apply_length [OF assms(1)] x by simp
    have rec: "ev_rec (cs_events s' ! k) = ev_rec (cs_events s ! k)" if "k < length (cs_events s)" for k
      using apply_moved [OF assms(1) ex that] by (auto simp: moved_def)
    have sel: "cs_events s' ! k = cs_events s ! k \<or>
        event_key (cs_events s ! k) = (re_app x, the (re_selected x)) \<and> pending_selection s (re_app x) = None"
      if "k < length (cs_events s)" "ev_status (cs_events s' ! k) = Selected" for k
      using moved_select [of x s s' k] assms(1) x ex that by (auto simp: event_key_def)
    have "i = j" if "i < length (cs_events s)" "j < length (cs_events s)"
        "er_app (ev_rec (cs_events s ! i)) = er_app (ev_rec (cs_events s ! j))"
        "ev_status (cs_events s' ! i) = Selected" "ev_status (cs_events s' ! j) = Selected" for i j
      using sel [OF that(1,4)] sel [OF that(2,5)] that one unique_nth [OF uniq that(1,2)]
      by (auto simp: one_selected_def pending_None_iff event_key_def)
    then show ?thesis using rec by (auto simp: one_selected_def len)
  next
    case False
    show ?thesis
    proof (rule one_selected_weaken [OF one])
      show "length (cs_events s') \<le> length (cs_events s) + 1"
        using apply_length [OF assms(1)] by (cases r) auto
      show "ev_status (cs_events s' ! length (cs_events s)) \<noteq> Selected" if longer: "length (cs_events s) < length (cs_events s')"
      proof -
        obtain e where "r = EventR e" using longer apply_length [OF assms(1)] by (cases r) auto
        then show ?thesis using apply_new_event [of e s s'] assms(1) by simp
      qed
      fix k assume k: "k < length (cs_events s)"
      have "ev_status (cs_events s' ! k) \<noteq> Selected \<or> cs_events s' ! k = cs_events s ! k"
      proof (cases r)
        case (ResumeR x)
        with False show ?thesis using moved_dismiss [of x s s' k] assms(1) ex k by auto
      next
        case (ExecR x)
        then show ?thesis using moved_exec [of x s s' k] assms(1) k by auto
      qed (use assms(1) k in \<open>auto simp: nth_append split: if_splits option.splits\<close>)
      then show "ev_rec (cs_events s' ! k) = ev_rec (cs_events s ! k) \<and>
          (ev_status (cs_events s' ! k) = Selected \<longrightarrow> ev_status (cs_events s ! k) = Selected)"
        using apply_moved [OF assms(1) ex k] by (auto simp: moved_def)
    qed
  qed
qed

lemma control_inv_pauses:
  assumes "control_apply r s = Inr s'" and "control_inv s"
  shows "distinct (map pu_origin (cs_pauses s'))"
proof (cases r)
  case (ResumeR x)
  then show ?thesis
    using assms
    by (cases "re_choice x = Dismiss") (auto simp: apply_dismiss_Inr apply_select_Inr select_done_def control_inv_def)
qed (use assms in \<open>fastforce simp: apply_exec_Inr control_inv_def split: if_splits option.splits\<close>)+

lemma control_inv_apply:
  "control_apply r s = Inr s' \<Longrightarrow> control_inv s \<Longrightarrow> control_inv s'"
  using control_inv_unique control_inv_explained control_inv_selected control_inv_pauses
  unfolding control_inv_def by blast

lemma control_inv_empty: "control_inv control_empty"
  by (simp add: control_inv_def control_empty_def events_unique_def one_selected_def)

lemma control_inv_replay: "control_replay rs s = Inr s' \<Longrightarrow> control_inv s \<Longrightarrow> control_inv s'"
  by (induction rs s rule: control_replay.induct) (auto simp: bind_res_Inr_iff control_inv_apply)

end
