(* ===== verification/ControlOps.thy ===== *)
theory ControlOps
  imports Control Backend
begin

text \<open>
  The pauses that deployments cause, the check of the control records against the deployments, and the
  operations that write control records (\<open>deploy/src/control.rs\<close>, from \<open>check_against\<close> on). Every
  operation takes the write of its journal as an argument and returns the state and the journal also
  when it fails, because the code changes both in place.
\<close>

section \<open>Pauses\<close>

record pause_candidate =
  pc_app :: application_id
  pc_origin :: deployment_id
  pc_kind :: pause_kind
  pc_at_ms :: u64
  pc_context :: string

definition candidate_of :: "deployment \<Rightarrow> pause_candidate option" where
  "candidate_of d =
     (let recovery = (case d_recovery d of
            Some r \<Rightarrow> ''recovery '' @ outcome_str (rec_outcome r)
          | None \<Rightarrow> ''no recovery recorded'');
          made = (\<lambda>k t c. Some \<lparr>pc_app = d_app d, pc_origin = d_id d, pc_kind = k, pc_at_ms = t, pc_context = c\<rparr>)
      in case d_cutover d of
           Begun t \<Rightarrow> made PInterruptedCutover t recovery
         | CutoverFailed t \<Rightarrow> made PFailedCutover t recovery
         | _ \<Rightarrow>
             (case (d_rollback_to d, d_status d) of
                (Some target, Succeeded) \<Rightarrow>
                  made PRollback (case d_finished_ms d of None \<Rightarrow> d_created_ms d | Some t \<Rightarrow> t)
                    (''rolled back to '' @ rel_str target)
              | _ \<Rightarrow> None))"

definition pause_candidates :: "deployment list \<Rightarrow> pause_candidate list" where
  "pause_candidates ds = List.map_filter candidate_of ds"

record active_pause =
  ap_app :: application_id
  ap_origin :: deployment_id
  ap_kind :: pause_kind
  ap_since_ms :: u64
  ap_context :: string
  ap_recorded :: bool

definition active_of :: "control_state \<Rightarrow> pause_candidate \<Rightarrow> active_pause" where
  "active_of ctl c =
     (case pause_rec_of ctl (pc_origin c) of
        Some p \<Rightarrow> \<lparr>ap_app = pc_app c, ap_origin = pc_origin c, ap_kind = pu_kind p, ap_since_ms = pu_at_ms p,
                   ap_context = pu_context p, ap_recorded = True\<rparr>
      | None \<Rightarrow> \<lparr>ap_app = pc_app c, ap_origin = pc_origin c, ap_kind = pc_kind c, ap_since_ms = pc_at_ms c,
                  ap_context = pc_context c, ap_recorded = False\<rparr>)"

definition active_pauses :: "deployment list \<Rightarrow> control_state \<Rightarrow> active_pause list" where
  "active_pauses ds ctl =
     map (active_of ctl) (filter (\<lambda>c. \<not> is_cleared ctl (pc_origin c)) (pause_candidates ds))"

definition is_paused :: "application_id \<Rightarrow> deployment list \<Rightarrow> control_state \<Rightarrow> bool" where
  "is_paused app ds ctl \<longleftrightarrow> (\<exists>p \<in> set (active_pauses ds ctl). ap_app p = app)"

subsection \<open>Agreement with the deployments\<close>

definition pause_compatible :: "deployment list \<Rightarrow> pause_rec \<Rightarrow> pause_candidate \<Rightarrow> bool" where
  "pause_compatible ds p c \<longleftrightarrow>
     (let started = Option.bind (List.find (\<lambda>d. d_id d = pu_origin p) ds)
            (\<lambda>d. map_option int_started_ms (d_interruption d))
      in if pu_kind p = pc_kind c then pu_at_ms p = pc_at_ms c
         else if pu_kind p = PInterruptedCutover \<and> pc_kind c = PFailedCutover then started = Some (pu_at_ms p)
         else False)"

definition check_pause :: "deployment list \<Rightarrow> pause_rec \<Rightarrow> string + unit" where
  "check_pause ds p =
     (case List.find (\<lambda>c. pc_origin c = pu_origin p \<and> pc_app c = pu_app p) (pause_candidates ds) of
        None \<Rightarrow> Inl (''pause names deployment '' @ dep_str (pu_origin p) @ '', which did not cause a pause of ''
                  @ app_str (pu_app p))
      | Some c \<Rightarrow>
          if pause_compatible ds p c then Inr ()
          else Inl (''pause for deployment '' @ dep_str (pu_origin p) @ '' contradicts its deployment record''))"

definition check_exec :: "deployment list \<Rightarrow> exec_rec \<Rightarrow> string + unit" where
  "check_exec ds x =
     (case ex_deployment x of
        None \<Rightarrow> Inr ()
      | Some d \<Rightarrow>
          if \<exists>y \<in> set ds. d_id y = d \<and> d_app y = ex_app x then Inr ()
          else Inl (''an execution names deployment '' @ dep_str d @ '', which is not a deployment of ''
                 @ app_str (ex_app x)))"

definition check_cleared :: "deployment list \<Rightarrow> application_id \<Rightarrow> deployment_id \<Rightarrow> string + unit" where
  "check_cleared ds app o' =
     (if \<exists>c \<in> set (pause_candidates ds). pc_origin c = o' \<and> pc_app c = app then Inr ()
      else Inl (''a decision clears '' @ dep_str o' @ '', which did not cause a pause of '' @ app_str app))"

definition check_against :: "deployment list \<Rightarrow> control_state \<Rightarrow> string + unit" where
  "check_against ds s =
     bind_res (map_res (check_pause ds) (cs_pauses s)) (\<lambda>_.
     bind_res (map_res (check_exec ds) (cs_execs s)) (\<lambda>_.
     bind_res (map_res (\<lambda>r. map_res (check_cleared ds (re_app r)) (re_cleared r)) (cs_resumes s)) (\<lambda>_.
     Inr ())))"

section \<open>Operations that write\<close>

datatype control_error = Invalid string | Conflict string | JournalFailed journal_error

text \<open>The result, the state in memory, and the journal.\<close>

type_synonym ('j, 'a) written = "(control_error + 'a) \<times> control_state \<times> 'j"

type_synonym 'j writer = "control_record \<Rightarrow> 'j \<Rightarrow> journal_error + 'j"

text \<open>\<open>j.control(&r)?; ctl.apply(&r)?\<close>\<close>

definition write_control :: "'j writer \<Rightarrow> control_record \<Rightarrow> control_state \<Rightarrow> 'j \<Rightarrow> ('j, unit) written" where
  "write_control wr r ctl j =
     (case wr r j of
        Inl e \<Rightarrow> (Inl (JournalFailed e), ctl, j)
      | Inr j' \<Rightarrow>
          (case control_apply r ctl of
             Inl m \<Rightarrow> (Inl (Conflict m), ctl, j')
           | Inr ctl' \<Rightarrow> (Inr (), ctl', j')))"

definition pause_of_candidate :: "pause_candidate \<Rightarrow> pause_rec" where
  "pause_of_candidate c =
     \<lparr>pu_app = pc_app c, pu_origin = pc_origin c, pu_kind = pc_kind c, pu_at_ms = pc_at_ms c,
      pu_context = pc_context c\<rparr>"

fun sync_candidates ::
  "'j writer \<Rightarrow> application_id option \<Rightarrow> pause_candidate list \<Rightarrow> nat \<Rightarrow> control_state \<Rightarrow> 'j \<Rightarrow> ('j, nat) written"
  where
  "sync_candidates wr only [] n ctl j = (Inr n, ctl, j)"
| "sync_candidates wr only (c # cs) n ctl j =
     (if pause_rec_of ctl (pc_origin c) \<noteq> None \<or> (only \<noteq> None \<and> only \<noteq> Some (pc_app c))
      then sync_candidates wr only cs n ctl j
      else case write_control wr (PauseR (pause_of_candidate c)) ctl j of
          (Inl e, ctl', j') \<Rightarrow> (Inl e, ctl', j')
        | (Inr _, ctl', j') \<Rightarrow> sync_candidates wr only cs (n + 1) ctl' j')"

definition sync_pauses_where ::
  "'j writer \<Rightarrow> deployment list \<Rightarrow> application_id option \<Rightarrow> control_state \<Rightarrow> 'j \<Rightarrow> ('j, nat) written" where
  "sync_pauses_where wr ds only ctl j = sync_candidates wr only (pause_candidates ds) 0 ctl j"

definition sync_pauses :: "'j writer \<Rightarrow> deployment list \<Rightarrow> control_state \<Rightarrow> 'j \<Rightarrow> ('j, nat) written" where
  "sync_pauses wr ds ctl j = sync_pauses_where wr ds None ctl j"

subsection \<open>Event ingress\<close>

record incoming =
  in_app :: application_id
  in_delivery :: string
  in_source :: string
  in_revision :: string
  in_received_ms :: u64

datatype ingress = NotPaused | NowHeld | Duplicate

definition check_incoming :: "incoming \<Rightarrow> string + unit" where
  "check_incoming ev =
     bind_res (check_delivery (in_delivery ev)) (\<lambda>_.
     bind_res (check_source (in_source ev)) (\<lambda>_. check_revision (in_revision ev)))"

definition rec_of_incoming :: "incoming \<Rightarrow> event_rec" where
  "rec_of_incoming ev =
     \<lparr>er_app = in_app ev, er_delivery = in_delivery ev, er_source = in_source ev,
      er_revision = in_revision ev, er_received_ms = in_received_ms ev\<rparr>"

definition hold_event :: "'j writer \<Rightarrow> incoming \<Rightarrow> control_state \<Rightarrow> 'j \<Rightarrow> ('j, ingress) written" where
  "hold_event wr ev ctl j =
     (case write_control wr (EventR (rec_of_incoming ev)) ctl j of
        (Inl e, ctl', j') \<Rightarrow> (Inl e, ctl', j')
      | (Inr _, ctl', j') \<Rightarrow> (Inr NowHeld, ctl', j'))"

definition ingest :: "'j writer \<Rightarrow> deployment list \<Rightarrow> incoming \<Rightarrow> control_state \<Rightarrow> 'j \<Rightarrow> ('j, ingress) written"
  where
  "ingest wr ds ev ctl j =
     (case check_incoming ev of
        Inl m \<Rightarrow> (Inl (Invalid m), ctl, j)
      | Inr _ \<Rightarrow>
          (case cs_event ctl (in_app ev) (in_delivery ev) of
             Some old \<Rightarrow>
               if ev_rec old = rec_of_incoming ev then (Inr Duplicate, ctl, j)
               else (Inl (Conflict (''delivery '' @ in_delivery ev @ '' of application '' @ app_str (in_app ev)
                      @ '' is already recorded with different content; refused'')), ctl, j)
           | None \<Rightarrow>
               if \<not> is_paused (in_app ev) ds ctl then (Inr NotPaused, ctl, j)
               else case sync_pauses_where wr ds (Some (in_app ev)) ctl j of
                   (Inl e, ctl', j') \<Rightarrow> (Inl e, ctl', j')
                 | (Inr _, ctl', j') \<Rightarrow> hold_event wr ev ctl' j'))"

definition queue_event :: "'j writer \<Rightarrow> incoming \<Rightarrow> control_state \<Rightarrow> 'j \<Rightarrow> ('j, ingress) written" where
  "queue_event wr ev ctl j =
     (case check_incoming ev of
        Inl m \<Rightarrow> (Inl (Invalid m), ctl, j)
      | Inr _ \<Rightarrow>
          (case cs_event ctl (in_app ev) (in_delivery ev) of
             Some old \<Rightarrow>
               if er_source (ev_rec old) = in_source ev \<and> er_revision (ev_rec old) = in_revision ev
               then (Inr Duplicate, ctl, j)
               else (Inl (Conflict (''delivery '' @ in_delivery ev @ '' of application '' @ app_str (in_app ev)
                      @ '' is already recorded with a different source or revision; refused'')), ctl, j)
           | None \<Rightarrow> hold_event wr ev ctl j))"

subsection \<open>Execution\<close>

datatype next_exec = NextSelected control_event | NextNewest control_event "string list" | NextNothing

text \<open>\<open>max_by_key\<close> keeps the last of the greatest.\<close>

fun last_max :: "('a \<Rightarrow> 'k::linorder) \<Rightarrow> 'a option \<Rightarrow> 'a list \<Rightarrow> 'a option" where
  "last_max key best [] = best"
| "last_max key None (x # xs) = last_max key (Some x) xs"
| "last_max key (Some b) (x # xs) = last_max key (Some (if key b \<le> key x then x else b)) xs"

definition newest :: "(nat \<times> control_event) list \<Rightarrow> (nat \<times> control_event) option" where
  "newest held = last_max (\<lambda>(i, e). (er_received_ms (ev_rec e), i)) None held"

definition next_execution :: "deployment list \<Rightarrow> control_state \<Rightarrow> application_id \<Rightarrow> next_exec" where
  "next_execution ds ctl app =
     (case pending_selection ctl app of
        Some e \<Rightarrow> NextSelected e
      | None \<Rightarrow>
          if is_paused app ds ctl then NextNothing
          else
            let held = held_events ctl app
            in case newest (zip [0 ..< length held] held) of
                 None \<Rightarrow> NextNothing
               | Some (_, c) \<Rightarrow>
                   NextNewest c (map (\<lambda>e. er_delivery (ev_rec e))
                     (filter (\<lambda>e. er_delivery (ev_rec e) \<noteq> er_delivery (ev_rec c)) held)))"

definition record_exec :: "'j writer \<Rightarrow> exec_rec \<Rightarrow> control_state \<Rightarrow> 'j \<Rightarrow> ('j, unit) written" where
  "record_exec wr x ctl j =
     (case control_apply (ExecR x) ctl of
        Inl m \<Rightarrow> (Inl (Conflict m), ctl, j)
      | Inr ctl' \<Rightarrow>
          (case wr (ExecR x) j of
             Inl e \<Rightarrow> (Inl (JournalFailed e), ctl, j)
           | Inr j' \<Rightarrow> (Inr (), ctl', j')))"

subsection \<open>Resuming\<close>

datatype resumed =
    ResumedDismissed nat nat
  | ResumedSelected string string nat
  | AlreadySelected string
  | NothingToDo

definition held_indexed :: "control_state \<Rightarrow> application_id \<Rightarrow> (nat \<times> control_event) list" where
  "held_indexed ctl app =
     filter (\<lambda>(i, e). er_app (ev_rec e) = app \<and> ev_status e = Held)
       (zip [0 ..< length (cs_events ctl)] (cs_events ctl))"

definition delivery_of :: "nat \<times> control_event \<Rightarrow> string" where
  "delivery_of h = er_delivery (ev_rec (snd h))"

definition dismissal :: "application_id \<Rightarrow> u64 \<Rightarrow> control_state \<Rightarrow> deployment_id list \<Rightarrow> resume_rec" where
  "dismissal app now s cleared =
     \<lparr>re_app = app, re_at_ms = now, re_choice = Dismiss, re_selected = None,
      re_dismissed = map delivery_of (held_indexed s app) @
        (case pending_selection s app of None \<Rightarrow> [] | Some p \<Rightarrow> [er_delivery (ev_rec p)]),
      re_superseded = [], re_cleared = cleared\<rparr>"

definition resume_dismiss ::
  "'j writer \<Rightarrow> deployment list \<Rightarrow> application_id \<Rightarrow> u64 \<Rightarrow> control_state \<Rightarrow> 'j \<Rightarrow> ('j, resumed) written" where
  "resume_dismiss wr ds app now ctl j =
     (let active = filter (\<lambda>p. ap_app p = app) (active_pauses ds ctl);
          held = held_indexed ctl app;
          pending = pending_selection ctl app
      in if active = [] \<and> held = [] \<and> pending = None then (Inr NothingToDo, ctl, j)
         else
           let r = dismissal app now ctl (map ap_origin active)
           in case sync_pauses_where wr ds (Some app) ctl j of
                (Inl e, ctl', j') \<Rightarrow> (Inl e, ctl', j')
              | (Inr _, ctl', j') \<Rightarrow>
                  (case write_control wr (ResumeR r) ctl' j' of
                     (Inl e, ctl'', j'') \<Rightarrow> (Inl e, ctl'', j'')
                   | (Inr _, ctl'', j'') \<Rightarrow>
                       (Inr (ResumedDismissed (length (re_dismissed r)) (length active)), ctl'', j'')))"

definition resume_chosen :: "choice \<Rightarrow> (nat \<times> control_event) list \<Rightarrow> (nat \<times> control_event) option" where
  "resume_chosen c held =
     (case c of
        Revision r \<Rightarrow> newest (filter (\<lambda>h. er_revision (ev_rec (snd h)) = r) held)
      | Newest \<Rightarrow> newest held
      | Dismiss \<Rightarrow> None)"

definition selection :: "application_id \<Rightarrow> choice \<Rightarrow> u64 \<Rightarrow> control_state \<Rightarrow> nat \<times> control_event \<Rightarrow> resume_rec" where
  "selection app c now s h =
     \<lparr>re_app = app, re_at_ms = now, re_choice = c, re_selected = Some (delivery_of h), re_dismissed = [],
      re_superseded = map (\<lambda>g. (delivery_of g, if c = Newest then NewerSelected else NotChosen))
         (filter (\<lambda>g. delivery_of g \<noteq> delivery_of h) (held_indexed s app)),
      re_cleared = []\<rparr>"

definition resume_select ::
  "'j writer \<Rightarrow> application_id \<Rightarrow> choice \<Rightarrow> u64 \<Rightarrow> control_state \<Rightarrow> 'j \<Rightarrow> ('j, resumed) written" where
  "resume_select wr app c now ctl j =
     (let held = held_indexed ctl app
      in case pending_selection ctl app of
          Some p \<Rightarrow>
            (Inl (Conflict (''revision '' @ er_revision (ev_rec p) @ '' (delivery '' @ er_delivery (ev_rec p)
               @ '') is already selected and pending attended execution'')), ctl, j)
        | None \<Rightarrow>
            if held = []
            then (Inl (Conflict (''application '' @ app_str app @ '' has no held event to select'')), ctl, j)
            else
              (case resume_chosen c held of
                 None \<Rightarrow> (Inl (Conflict ''no held event has that revision''), ctl, j)
               | Some h \<Rightarrow>
                   let r = selection app c now ctl h
                   in case write_control wr (ResumeR r) ctl j of
                        (Inl e, ctl', j') \<Rightarrow> (Inl e, ctl', j')
                      | (Inr _, ctl', j') \<Rightarrow>
                          (Inr (ResumedSelected (delivery_of h) (er_revision (ev_rec (snd h)))
                            (length (re_superseded r))), ctl', j')))"

definition resume ::
  "'j writer \<Rightarrow> deployment list \<Rightarrow> application_id \<Rightarrow> choice \<Rightarrow> u64 \<Rightarrow> control_state \<Rightarrow> 'j \<Rightarrow> ('j, resumed) written"
  where
  "resume wr ds app c now ctl j =
     (case c of
        Dismiss \<Rightarrow> resume_dismiss wr ds app now ctl j
      | Newest \<Rightarrow> resume_select wr app c now ctl j
      | Revision r \<Rightarrow>
          (case check_revision r of
             Inl m \<Rightarrow> (Inl (Invalid m), ctl, j)
           | Inr _ \<Rightarrow>
               (case pending_selection ctl app of
                  Some p \<Rightarrow>
                    if er_revision (ev_rec p) = r then (Inr (AlreadySelected (er_delivery (ev_rec p))), ctl, j)
                    else resume_select wr app c now ctl j
                | None \<Rightarrow> resume_select wr app c now ctl j)))"

section \<open>The in-memory journal\<close>

record control_journal = journal +
  j_control_records :: "control_record list"

definition j_control :: "control_record \<Rightarrow> control_journal \<Rightarrow> journal_error + control_journal" where
  "j_control r j =
     bind_res (j_gate j) (\<lambda>j. Inr (j\<lparr>j_control_records := j_control_records j @ [r]\<rparr>))"

end
