(* ===== verification/ControlCodec.thy ===== *)
theory ControlCodec
  imports ControlOps
begin

text \<open>
  The text form of control records (\<open>control.rs\<close>, \<open>encode\<close> and \<open>decode\<close>): every record that keeps to the
  accepted tokens decodes to itself, except that the delivery id \<open>-\<close> is also the mark of an absent one.
\<close>

section \<open>Records that keep to the accepted tokens\<close>

definition delivery_ok :: "string \<Rightarrow> bool" where
  "delivery_ok d \<longleftrightarrow> token_ok '':'' d"

definition source_ok :: "string \<Rightarrow> bool" where
  "source_ok s \<longleftrightarrow> token_ok [] s \<and> length s \<le> 32"

definition revision_ok :: "string \<Rightarrow> bool" where
  "revision_ok r \<longleftrightarrow> token_ok ''/'' r"

text \<open>A list that holds only the id \<open>-\<close> reads as the empty list.\<close>

definition listed_ok :: "string list \<Rightarrow> bool" where
  "listed_ok ds \<longleftrightarrow> list_all delivery_ok ds \<and> ds \<noteq> [''-'']"

fun control_record_ok :: "control_record \<Rightarrow> bool" where
  "control_record_ok (PauseR p) \<longleftrightarrow> utf8_valid (pu_context p)"
| "control_record_ok (EventR e) \<longleftrightarrow>
     delivery_ok (er_delivery e) \<and> source_ok (er_source e) \<and> revision_ok (er_revision e)"
| "control_record_ok (ResumeR x) \<longleftrightarrow>
     (case re_choice x of Revision r \<Rightarrow> revision_ok r | _ \<Rightarrow> True) \<and>
     (case re_selected x of Some d \<Rightarrow> delivery_ok d \<and> d \<noteq> ''-'' | None \<Rightarrow> True) \<and>
     listed_ok (re_dismissed x) \<and> list_all (\<lambda>p. delivery_ok (fst p)) (re_superseded x)"
| "control_record_ok (ExecR x) \<longleftrightarrow>
     delivery_ok (ex_delivery x) \<and> utf8_valid (ex_reason x) \<and> listed_ok (ex_superseded x)"

lemma check_token_iff: "check_token what v extra = Inr () \<longleftrightarrow> token_ok extra v"
  by (auto simp: check_token_def token_ok_def not_less)

lemma checks [simp]:
  "check_delivery d = Inr () \<longleftrightarrow> delivery_ok d"
  "check_source s = Inr () \<longleftrightarrow> source_ok s"
  "check_revision r = Inr () \<longleftrightarrow> revision_ok r"
  by (auto simp: check_delivery_def check_source_def check_revision_def check_token_iff delivery_ok_def
      source_ok_def revision_ok_def bind_res_Inr_iff)

lemma token_chars: "token_ok extra v \<Longrightarrow> c \<in> set v \<Longrightarrow> token_char extra c"
  by (auto simp: token_ok_def list_all_iff)

lemma token_char_range:
  "token_char extra c \<Longrightarrow> set extra \<subseteq> {CHR '':'', CHR ''/''} \<Longrightarrow>
   c \<notin> {CHR '','', CHR ''='', TAB, NL} \<and> 32 < (of_char c :: nat)"
  by (auto simp: token_char_def ascii_alphabetic_def ascii_digit_def between_def byte_def)

lemma token_clean: "token_ok extra v \<Longrightarrow> set extra \<subseteq> {CHR '':'', CHR ''/''} \<Longrightarrow> field_clean v"
  by (rule field_clean_range) (use token_chars token_char_range in blast)

lemma delivery_clean: "delivery_ok d \<Longrightarrow> field_clean d"
  unfolding delivery_ok_def by (rule token_clean) auto

lemma revision_clean: "revision_ok d \<Longrightarrow> field_clean d"
  unfolding revision_ok_def by (rule token_clean) auto

lemma source_clean: "source_ok d \<Longrightarrow> field_clean d"
  unfolding source_ok_def by (rule token_clean) auto

lemma delivery_chars: "delivery_ok d \<Longrightarrow> CHR '','' \<notin> set d \<and> CHR ''='' \<notin> set d \<and> d \<noteq> []"
  using token_chars [of "'':''" d] token_char_range [of "'':''"] by (auto simp: delivery_ok_def token_ok_def)

section \<open>Lists\<close>

lemma csv_clean: "list_all field_clean ds \<Longrightarrow> field_clean (csv ds)"
  using set_join [of TAB "'',''" ds] set_join [of NL "'',''" ds]
  by (auto simp: csv_def field_clean_def list_all_iff)

lemma cd_list_csv:
  assumes "\<forall>d \<in> set ds. CHR '','' \<notin> set d" and "ds \<noteq> [''-'']"
  shows "cd_list (csv ds) = ds"
proof (cases "ds = []")
  case False
  then have "split_on (CHR '','') (join_with '','' ds) = ds"
    using assms(1) by (intro split_on_join) auto
  moreover from this have "join_with '','' ds \<noteq> ''-''"
    using assms(2) split_on_free [of "CHR '',''" "''-''"] by auto
  ultimately show ?thesis using False by (simp add: cd_list_def csv_def)
qed (simp add: cd_list_def csv_def)

lemma listed_roundtrip: "listed_ok ds \<Longrightarrow> cd_list (csv ds) = ds"
  by (rule cd_list_csv) (auto simp: listed_ok_def list_all_iff dest: delivery_chars)

lemma listed_clean: "listed_ok ds \<Longrightarrow> field_clean (csv ds)"
  by (rule csv_clean) (auto simp: listed_ok_def list_all_iff intro: delivery_clean)

lemma map_res_ok: "(\<And>x. x \<in> set xs \<Longrightarrow> f (g x) = Inr x) \<Longrightarrow> map_res f (map g xs) = Inr xs"
  by (induction xs) auto

lemma map_res_units: "(\<forall>x \<in> set xs. f x = Inr ()) \<Longrightarrow> \<exists>us. map_res f xs = Inr us"
  by (induction xs) auto

lemma why_parse_str [simp]: "why_parse (why_str w) = Some w"
  by (cases w) (simp_all add: why_parse_def)

lemma why_chars: "CHR '','' \<notin> set (why_str w) \<and> field_clean (why_str w)"
  by (cases w) (simp_all add: field_clean_def)

lemma superseded_roundtrip:
  assumes "list_all (\<lambda>p. delivery_ok (fst p)) ss"
  shows "map_res cd_superseded (cd_list (csv (superseded_strs ss))) = Inr ss"
proof -
  have parts: "CHR '','' \<notin> set d \<and> CHR ''='' \<in> set d" if "d \<in> set (superseded_strs ss)" for d
    using that assms delivery_chars why_chars by (fastforce simp: superseded_strs_def list_all_iff)
  then have "superseded_strs ss \<noteq> [''-'']" by force
  then have "cd_list (csv (superseded_strs ss)) = superseded_strs ss"
    using parts by (intro cd_list_csv) auto
  moreover have "cd_superseded (d @ ''='' @ why_str w) = Inr (d, w)" if "(d, w) \<in> set ss" for d w
  proof -
    have "CHR ''='' \<notin> set d" using that assms delivery_chars by (fastforce simp: list_all_iff)
    then show ?thesis by (simp add: cd_superseded_def split_once_append)
  qed
  ultimately show ?thesis unfolding superseded_strs_def by (auto intro!: map_res_ok)
qed

lemma superseded_clean: "list_all (\<lambda>p. delivery_ok (fst p)) ss \<Longrightarrow> field_clean (csv (superseded_strs ss))"
  using delivery_clean why_chars
  by (intro csv_clean) (fastforce simp: superseded_strs_def list_all_iff field_clean_def)

lemma dep_str_chars: "CHR '','' \<notin> set (dep_str d) \<and> dep_str d \<noteq> ''-''"
proof
  show "CHR '','' \<notin> set (dep_str d)" using id_chars(1) [of "CHR '',''" d] by (auto simp: alphabet_def)
qed (simp add: dep_str_def id_as_str_def)

lemma cleared_roundtrip: "map_res cd_dep (cd_list (csv (map dep_str ds))) = Inr ds"
proof -
  have "cd_list (csv (map dep_str ds)) = map dep_str ds"
    using dep_str_chars by (intro cd_list_csv) (auto simp: map_eq_Cons_conv)
  then show ?thesis by (auto intro!: map_res_ok simp: cd_dep_def)
qed

section \<open>Records\<close>

lemma pause_kind_roundtrip [simp]: "pause_kind_parse (pause_kind_str k) = Some k"
  by (cases k) (simp_all add: pause_kind_parse_def)

lemma scalars [simp]:
  "cd_num w (show_word n) = Inr n" "cd_app (app_str a) = Inr a" "cd_dep (dep_str d) = Inr d"
  by (simp_all add: cd_num_def cd_app_def cd_dep_def)

lemma choice_roundtrip:
  "(case c of Revision r \<Rightarrow> revision_ok r | _ \<Rightarrow> True) \<Longrightarrow>
   cd_choice (fst (choice_strs c)) (snd (choice_strs c)) = Inr c"
  by (cases c) (auto simp: cd_choice_def bind_res_Inr_iff)

lemma outcome_str_roundtrip [simp]: "cd_outcome (exec_outcome_str oc) = Inr oc"
  by (cases oc) (simp_all add: cd_outcome_def)

lemma decode_pause_fields:
  "utf8_valid (pu_context p) \<Longrightarrow> control_decode (control_fields (PauseR p)) = Inr (PauseR p)"
  by (simp add: control_decode_def decode_pause_def)

lemma decode_event_fields:
  "control_record_ok (EventR e) \<Longrightarrow> control_decode (control_fields (EventR e)) = Inr (EventR e)"
  by (simp add: control_decode_def decode_event_def bind_res_Inr_iff)

lemma decode_exec_fields:
  assumes "control_record_ok (ExecR x)"
  shows "control_decode (control_fields (ExecR x)) = Inr (ExecR x)"
proof -
  obtain us where "map_res check_delivery (ex_superseded x) = Inr us"
    using assms map_res_units [of "ex_superseded x" check_delivery] by (auto simp: listed_ok_def list_all_iff)
  then show ?thesis
    using assms dep_str_chars
    by (cases "ex_deployment x")
      (auto simp: control_decode_def decode_exec_def bind_res_Inr_iff listed_roundtrip opt_str_def)
qed

lemma decode_resume_fields:
  assumes "control_record_ok (ResumeR x)"
  shows "control_decode (control_fields (ResumeR x)) = Inr (ResumeR x)"
proof -
  obtain us where us: "map_res check_delivery (re_dismissed x @ map fst (re_superseded x)) = Inr us"
    using assms map_res_units [of "re_dismissed x @ map fst (re_superseded x)" check_delivery]
    by (auto simp: listed_ok_def list_all_iff)
  moreover have "cd_selected (opt_str id (re_selected x)) = Inr (re_selected x)"
    using assms by (auto simp: cd_selected_def opt_str_def bind_res_Inr_iff split: option.splits)
  ultimately show ?thesis
    using assms choice_roundtrip [of "re_choice x"] superseded_roundtrip [of "re_superseded x"] cleared_roundtrip [of "re_cleared x"]
    by (simp add: control_decode_def decode_resume_def bind_res_Inr_iff listed_roundtrip)
qed

lemma control_fields_decode: "control_record_ok r \<Longrightarrow> control_decode (control_fields r) = Inr r"
  using decode_pause_fields decode_event_fields decode_exec_fields decode_resume_fields by (cases r) auto

lemma control_fields_clean:
  assumes "control_record_ok r"
  shows "list_all field_clean (control_fields r)"
proof -
  have literals: "field_clean ''pause''" "field_clean ''event''" "field_clean ''resume''" "field_clean ''exec''"
      "field_clean ''1''" "field_clean ''-''" "field_clean ''dismiss''" "field_clean ''newest''" "field_clean ''revision''"
    by (simp_all add: field_clean_def)
  have kinds: "field_clean (pause_kind_str k)" "field_clean (exec_outcome_str oc)" for k oc
    by (cases k; cases oc; simp add: field_clean_def)+
  note atoms = literals kinds field_clean_id field_clean_word hex_text_field_clean
  show ?thesis
  proof (cases r)
    case (PauseR p)
    then show ?thesis by (simp add: atoms)
  next
    case (EventR e)
    then show ?thesis using assms by (simp add: atoms delivery_clean source_clean revision_clean)
  next
    case (ResumeR x)
    have "field_clean (csv (map dep_str (re_cleared x)))"
      by (rule csv_clean) (simp add: list_all_iff atoms)
    moreover have "field_clean (snd (choice_strs (re_choice x)))" "field_clean (fst (choice_strs (re_choice x)))"
      using assms ResumeR by (cases "re_choice x"; simp add: atoms revision_clean)+
    moreover have "field_clean (opt_str id (re_selected x))"
      using assms ResumeR by (cases "re_selected x") (simp_all add: opt_str_def atoms delivery_clean)
    ultimately show ?thesis
      using assms ResumeR by (simp add: atoms listed_clean superseded_clean)
  next
    case (ExecR x)
    then show ?thesis
      using assms by (cases "ex_deployment x") (simp_all add: atoms opt_str_def delivery_clean listed_clean)
  qed
qed

interpretation cl: line_codec control_fields control_decode control_record_ok
  by unfold_locales (simp_all add: control_fields_decode control_fields_clean, case_tac r, simp_all)

text \<open>
  A control record that keeps to the accepted tokens survives its journal line, with the
  checksum verified and whatever its free text holds: pauses, events, decisions and executions alike.
\<close>

theorem control_line_roundtrip:
  assumes "control_record_ok r"
  shows "decode_framed control_decode (control_encode r) = Inr r \<and> NL \<notin> set (control_encode r)"
  using cl.line_decodes [OF assms] cl.one_line [OF assms] by (simp add: control_encode_def)

definition example_decision :: control_record where
  "example_decision = ResumeR
     \<lparr>re_app = ApplicationId 7, re_at_ms = 12, re_choice = Newest, re_selected = Some ''d-2'', re_dismissed = [],
      re_superseded = [(''d:1'', NewerSelected), (''-'', NotChosen)], re_cleared = [DeploymentId 3]\<rparr>"

theorem control_line_roundtrip_witness:
  "decode_framed control_decode (control_encode example_decision) = Inr example_decision"
proof -
  have "control_record_ok example_decision"
    by (simp add: example_decision_def delivery_ok_def token_ok_def max_token_def token_char_def listed_ok_def
        ascii_alphabetic_def ascii_digit_def between_def byte_def)
  from control_line_roundtrip [OF this] show ?thesis by blast
qed

section \<open>The delivery id that is a dash\<close>

text \<open>Reading the written records back and replaying them.\<close>

definition reload :: "control_record list \<Rightarrow> string + control_state" where
  "reload rs = bind_res (map_res (\<lambda>r. control_decode (control_fields r)) rs) (\<lambda>rs'. control_replay rs' control_empty)"

definition dash_event :: incoming where
  "dash_event = \<lparr>in_app = ApplicationId 7, in_delivery = ''-'', in_source = ''ci'', in_revision = ''main'', in_received_ms = 5\<rparr>"

definition fresh_journal :: control_journal where
  "fresh_journal = \<lparr>j_snapshots = [], j_ledger_records = [], j_writes = 0, j_crash_at = None, j_control_records = []\<rparr>"

definition dash_held :: control_state where
  "dash_held = control_empty\<lparr>cs_events :=
     [\<lparr>ev_rec = rec_of_incoming dash_event, ev_status = Held, ev_decided_ms = None, ev_related = None\<rparr>]\<rparr>"

definition dash_decision :: resume_rec where
  "dash_decision = \<lparr>re_app = ApplicationId 7, re_at_ms = 9, re_choice = Newest, re_selected = Some ''-'',
     re_dismissed = [], re_superseded = [], re_cleared = []\<rparr>"

lemma dash_ok: "delivery_ok ''-''" "source_ok ''ci''" "revision_ok ''main''"
  by (simp_all add: delivery_ok_def source_ok_def revision_ok_def token_ok_def max_token_def token_char_def
      ascii_alphabetic_def ascii_digit_def between_def byte_def)

lemma dash_queued:
  "queue_event j_control dash_event control_empty fresh_journal =
     (Inr NowHeld, dash_held,
      fresh_journal\<lparr>j_writes := 1, j_control_records := [EventR (rec_of_incoming dash_event)]\<rparr>)"
proof -
  have "check_incoming dash_event = Inr ()"
    using dash_ok by (simp add: check_incoming_def dash_event_def bind_res_Inr_iff)
  then show ?thesis
    by (simp add: queue_event_def hold_event_def write_control_def j_control_def j_gate_def fresh_journal_def
        cs_event_def control_empty_def dash_held_def)
qed

lemma dash_views:
  "pending_selection dash_held (ApplicationId 7) = None"
  "held_indexed dash_held (ApplicationId 7) = [(0, hd (cs_events dash_held))]"
  "event_index dash_held (ApplicationId 7) ''-'' = Some 0"
  "held_indices dash_held (ApplicationId 7) = [0]"
  by (simp_all add: pending_selection_def events_of_def dash_held_def rec_of_incoming_def dash_event_def
      held_indexed_def event_index_def is_event_def held_indices_def status_at_def control_empty_def)

lemma dash_selected:
  "\<exists>s2. resume j_control [] (ApplicationId 7) Newest 9 dash_held j =
     (case j_control (ResumeR dash_decision) j of
        Inl e \<Rightarrow> (Inl (JournalFailed e), dash_held, j)
      | Inr j' \<Rightarrow> (Inr (ResumedSelected ''-'' ''main'' 0), s2, j')) \<and>
     control_apply (ResumeR dash_decision) dash_held = Inr s2"
proof -
  have sel: "selection (ApplicationId 7) Newest 9 dash_held (0, hd (cs_events dash_held)) = dash_decision"
    by (simp add: selection_def dash_views dash_decision_def delivery_of_def)
      (simp add: dash_held_def rec_of_incoming_def dash_event_def)
  obtain s2 where s2: "control_apply (ResumeR dash_decision) dash_held = Inr s2"
    by (simp add: apply_resume_def dash_views dash_decision_def choice_checked_def selected_index_def
        decided_index_def status_at_def Let_def) (simp add: dash_held_def)
  then show ?thesis
    by (auto simp: resume_def resume_select_def dash_views Let_def resume_chosen_def newest_def sel write_control_def
        split: sum.split) (simp_all add: dash_held_def rec_of_incoming_def dash_event_def dash_decision_def delivery_of_def)
qed

text \<open>
  The one accepted delivery id whose text form is not its own: an event with the id \<open>-\<close> is
  queued and then selected, both operations report success, and the state in memory holds the
  selection; but the written decision reads back as one without a selection, so the journal no longer
  replays.
\<close>

theorem dash_delivery_breaks_the_journal:
  "case queue_event j_control dash_event control_empty fresh_journal of (x1, s1, j1) \<Rightarrow>
   case resume j_control [] (ApplicationId 7) Newest 9 s1 j1 of (x2, s2, j2) \<Rightarrow>
     x1 = Inr NowHeld \<and> x2 = Inr (ResumedSelected ''-'' ''main'' 0) \<and>
     control_replay (j_control_records j2) control_empty = Inr s2 \<and>
     reload (j_control_records j2) = Inl ''a decision's choice and selection disagree''"
proof -
  let ?j1 = "fresh_journal\<lparr>j_writes := 1, j_control_records := [EventR (rec_of_incoming dash_event)]\<rparr>"
  let ?j2 = "fresh_journal\<lparr>j_writes := 2, j_control_records := [EventR (rec_of_incoming dash_event), ResumeR dash_decision]\<rparr>"
  have j2: "j_control (ResumeR dash_decision) ?j1 = Inr ?j2"
    by (simp add: j_control_def j_gate_def fresh_journal_def)
  obtain s2 where s2: "resume j_control [] (ApplicationId 7) Newest 9 dash_held ?j1 =
      (Inr (ResumedSelected ''-'' ''main'' 0), s2, ?j2)" "control_apply (ResumeR dash_decision) dash_held = Inr s2"
    using dash_selected [of ?j1] j2 by auto
  have first: "control_apply (EventR (rec_of_incoming dash_event)) control_empty = Inr dash_held"
    by (simp add: cs_event_def control_empty_def dash_held_def)
  have "control_decode (control_fields (ResumeR dash_decision)) = Inr (ResumeR (dash_decision\<lparr>re_selected := None\<rparr>))"
    by (simp add: dash_decision_def control_decode_def decode_resume_def cd_choice_def cd_selected_def opt_str_def
        csv_def superseded_strs_def cd_list_def)
  moreover have "control_decode (control_fields (EventR (rec_of_incoming dash_event))) = Inr (EventR (rec_of_incoming dash_event))"
    by (rule decode_event_fields) (simp add: rec_of_incoming_def dash_event_def dash_ok)
  moreover have "control_apply (ResumeR (dash_decision\<lparr>re_selected := None\<rparr>)) dash_held =
      Inl ''a decision's choice and selection disagree''"
    by (simp add: apply_resume_def dash_decision_def choice_checked_def Let_def)
  ultimately have "reload [EventR (rec_of_incoming dash_event), ResumeR dash_decision] =
      Inl ''a decision's choice and selection disagree''"
    using first by (simp add: reload_def del: control_fields.simps control_apply.simps)
  then show ?thesis
    using s2 first by (simp add: dash_queued del: control_apply.simps)
qed

end
