(* ===== verification/ControlProps.thy ===== *)
theory ControlProps
  imports ControlState ControlCodec
begin

text \<open>
  The operations on pauses and events keep memory and journal together, refuse without writing, and
  leave no event waiting without a decision.
\<close>

section \<open>Memory is what the journal replays to\<close>

definition consistent :: "('j \<Rightarrow> control_record list) \<Rightarrow> control_state \<Rightarrow> 'j \<Rightarrow> bool" where
  "consistent stored ctl j \<longleftrightarrow> control_replay (stored j) control_empty = Inr ctl"

lemma control_replay_append:
  "control_replay (rs @ rs') s = bind_res (control_replay rs s) (control_replay rs')"
  by (induction rs arbitrary: s)
    (auto simp: bind_res_Inr_iff, metis bind_res.simps old.sum.exhaust)

lemma control_replay_snoc:
  "control_replay (rs @ [r]) s = bind_res (control_replay rs s) (control_apply r)"
  by (cases "control_replay rs s"; cases "control_apply r (projr (control_replay rs s))") (auto simp: control_replay_append)

lemma consistent_inv: "consistent stored ctl j \<Longrightarrow> control_inv ctl"
  unfolding consistent_def by (rule control_inv_replay [OF _ control_inv_empty])

lemma status_le_trans: "status_le a b \<Longrightarrow> status_le b c \<Longrightarrow> status_le a c"
  by (auto simp: status_le_def)

lemma replay_forward:
  "control_replay rs s = Inr s' \<Longrightarrow> control_inv s \<Longrightarrow>
   control_inv s' \<and> length (cs_events s) \<le> length (cs_events s') \<and>
   (\<forall>k < length (cs_events s). ev_rec (cs_events s' ! k) = ev_rec (cs_events s ! k) \<and>
      status_le (ev_status (cs_events s ! k)) (ev_status (cs_events s' ! k)))"
proof (induction rs arbitrary: s)
  case Nil
  then show ?case by (simp add: status_le_def)
next
  case (Cons r rs)
  then obtain s1 where s1: "control_apply r s = Inr s1" "control_replay rs s1 = Inr s'"
    by (auto simp: bind_res_Inr_iff)
  have inv1: "control_inv s1" by (rule control_inv_apply [OF s1(1) Cons.prems(2)])
  have ex: "list_all (explained s) (cs_events s)" using Cons.prems(2) by (simp add: control_inv_def)
  note ih = Cons.IH [OF s1(2) inv1]
  have "ev_rec (cs_events s1 ! k) = ev_rec (cs_events s ! k) \<and>
      status_le (ev_status (cs_events s ! k)) (ev_status (cs_events s1 ! k))" if "k < length (cs_events s)" for k
    using apply_moved [OF s1(1) ex that] by (auto simp: moved_def status_le_def)
  then show ?case
    using ih apply_keeps(4) [OF s1(1)] status_le_trans by (fastforce intro: order_trans)
qed

section \<open>Records that are accepted\<close>

lemma zip_upt: "zip [0 ..< length xs] xs = map (\<lambda>i. (i, xs ! i)) [0 ..< length xs]"
  by (rule nth_equalityI) auto

lemma held_indexed_eq:
  "held_indexed s app = map (\<lambda>i. (i, cs_events s ! i)) (held_indices s app)"
  by (simp add: held_indexed_def held_indices_def zip_upt filter_map comp_def status_at_def)

lemma held_event_index:
  assumes "control_inv s" and "i \<in> set (held_indices s app)"
  shows "names_held s app (er_delivery (ev_rec (cs_events s ! i))) i"
  using assms event_index_unique [of s i app]
  by (auto simp: in_held_indices names_held_def control_inv_def event_key_def)

lemma waiting_event_index:
  assumes "control_inv s" and "e \<in> set (cs_events s)" and "er_app (ev_rec e) = app"
  shows "\<exists>i. event_index s app (er_delivery (ev_rec e)) = Some i \<and> i < length (cs_events s) \<and> cs_events s ! i = e"
proof -
  obtain i where "i < length (cs_events s)" "cs_events s ! i = e"
    using assms(2) by (auto simp: in_set_conv_nth)
  then show ?thesis
    using assms event_index_unique [of s i app] by (auto simp: control_inv_def event_key_def)
qed

lemma pause_accepted:
  "pause_rec_of s (pc_origin c) = None \<Longrightarrow>
   control_apply (PauseR (pause_of_candidate c)) s = Inr (s\<lparr>cs_pauses := cs_pauses s @ [pause_of_candidate c]\<rparr>)"
  by (auto simp: pause_of_candidate_def pause_rec_of_def find_None_iff)

lemma pending_Some:
  "pending_selection s app = Some e \<Longrightarrow> e \<in> set (cs_events s) \<and> er_app (ev_rec e) = app \<and> ev_status e = Selected"
  unfolding pending_selection_def events_of_def by (drule find_Some_set) auto

lemma dismissal_accepted:
  assumes "control_inv s"
  shows "\<exists>s'. control_apply (ResumeR (dismissal app now s cleared)) s = Inr s'"
proof -
  let ?P = "\<lambda>d j. event_index s app d = Some j \<and> (status_at s j = Held \<or> status_at s j = Selected)"
  have held: "list_all2 ?P (map delivery_of (held_indexed s app)) (held_indices s app)"
    using held_event_index [OF assms]
    by (auto simp: held_indexed_eq list_all2_map1 list_all2_same delivery_of_def names_held_def)
  obtain js where "list_all2 ?P (re_dismissed (dismissal app now s cleared)) (held_indices s app @ js)"
  proof (cases "pending_selection s app")
    case None
    with held that [of "[]"] show ?thesis by (simp add: dismissal_def)
  next
    case (Some p)
    with pending_Some [OF Some] obtain i where "?P (er_delivery (ev_rec p)) i"
      using waiting_event_index [OF assms, of p app] by (auto simp: status_at_def)
    with held Some that [of "[i]"] show ?thesis by (simp add: dismissal_def list_all2_appendI)
  qed
  then show ?thesis
    by (auto simp: apply_dismiss_Inr dismissal_def cong: conj_cong split: option.split)
qed

lemma selection_accepted:
  assumes "control_inv s" and "pending_selection s app = None" and "h \<in> set (held_indexed s app)" and "c \<noteq> Dismiss"
  shows "\<exists>s'. control_apply (ResumeR (selection app c now s h)) s = Inr s'"
proof -
  obtain i where i: "h = (i, cs_events s ! i)" "i \<in> set (held_indices s app)"
    using assms(3) by (auto simp: held_indexed_eq)
  let ?js = "filter (\<lambda>j. er_delivery (ev_rec (cs_events s ! j)) \<noteq> delivery_of h) (held_indices s app)"
  have sup: "re_superseded (selection app c now s h) =
      map (\<lambda>j. (er_delivery (ev_rec (cs_events s ! j)), if c = Newest then NewerSelected else NotChosen)) ?js"
    by (simp add: selection_def held_indexed_eq filter_map comp_def delivery_of_def)
  have "list_all2 (\<lambda>p j. names_held s app (fst p) j \<and> i \<noteq> j) (re_superseded (selection app c now s h)) ?js"
    unfolding sup using held_event_index [OF assms(1)] i
    by (auto simp: list_all2_map1 list_all2_same delivery_of_def)
  moreover have "names_held s app (delivery_of h) i"
    using held_event_index [OF assms(1) i(2)] i(1) by (simp add: delivery_of_def)
  moreover have "k \<in> set ?js \<or> k = i" if "k \<in> set (held_indices s app)" for k
  proof -
    have "events_unique (cs_events s)" using assms(1) by (simp add: control_inv_def)
    then show ?thesis
      using that i unique_nth [of "cs_events s" k i] by (auto simp: in_held_indices event_key_def delivery_of_def)
  qed
  moreover have "re_choice (selection app c now s h) \<noteq> Dismiss" "re_app (selection app c now s h) = app"
      "re_cleared (selection app c now s h) = []" "re_dismissed (selection app c now s h) = []"
      "re_selected (selection app c now s h) = Some (delivery_of h)"
    using assms(4) by (simp_all add: selection_def)
  ultimately show ?thesis
    using assms(2) unfolding control_apply.simps
    by (intro exI [of _ "select_done (selection app c now s h) (delivery_of h) i ?js s"])
      (auto simp: apply_select_Inr intro!: exI [of _ i] exI [of _ ?js])
qed

lemma last_max_in: "last_max key b xs = Some x \<Longrightarrow> x \<in> set xs \<or> b = Some x"
  by (induction key b xs rule: last_max.induct) (auto split: if_splits)

lemma chosen_held: "resume_chosen c held = Some h \<Longrightarrow> h \<in> set held"
  by (auto simp: resume_chosen_def newest_def dest!: last_max_in split: choice.splits)

section \<open>Operations over any journal that appends\<close>

definition refused :: "control_error + 'a \<Rightarrow> bool" where
  "refused x \<longleftrightarrow> (\<exists>m. x = Inl (Invalid m) \<or> x = Inl (Conflict m))"

text \<open>What an operation on a consistent state leaves.\<close>

definition kept_together :: "('j \<Rightarrow> control_record list) \<Rightarrow> control_state \<Rightarrow> 'j \<Rightarrow> ('j, 'a) written \<Rightarrow> bool" where
  "kept_together stored ctl j w \<longleftrightarrow>
     (case w of (x, ctl', j') \<Rightarrow> consistent stored ctl' j' \<and> (\<exists>rs. stored j' = stored j @ rs) \<and>
        (refused x \<longrightarrow> ctl' = ctl \<and> j' = j))"

lemma kept_same: "consistent stored ctl j \<Longrightarrow> kept_together stored ctl j (x, ctl, j)"
  by (simp add: kept_together_def)

lemma kept_trans:
  "kept_together stored ctl j (y, ctl', j') \<Longrightarrow> kept_together stored ctl' j' (x, ctl'', j'') \<Longrightarrow> \<not> refused x \<Longrightarrow>
   kept_together stored ctl j (x, ctl'', j'')"
  by (auto simp: kept_together_def)

lemma kept_result:
  "kept_together stored ctl j (x, ctl', j') \<Longrightarrow> \<not> refused y \<Longrightarrow> kept_together stored ctl j (y, ctl', j')"
  by (auto simp: kept_together_def)

lemma not_refused [simp]: "\<not> refused (Inr v)" "\<not> refused (Inl (JournalFailed e))"
  by (auto simp: refused_def)

lemma kept_all:
  "(\<And>x ctl' j'. w = (x, ctl', j') \<Longrightarrow> kept_together stored ctl j (x, ctl', j')) \<Longrightarrow> kept_together stored ctl j w"
  by (cases w) simp

lemma refused_Inl: "refused (Inl e) \<longleftrightarrow> (\<exists>m. e = Invalid m \<or> e = Conflict m)"
  by (simp add: refused_def)

lemma kept_error: "kept_together stored ctl j (Inl e, ctl', j') \<Longrightarrow> kept_together stored ctl j (Inl e, ctl', j')"
  by (simp add: kept_together_def refused_Inl)

lemma kept_consistent: "kept_together stored ctl j (x, ctl', j') \<Longrightarrow> consistent stored ctl' j'"
  by (simp add: kept_together_def)

text \<open>Only pauses were added.\<close>

definition same_decisions :: "control_state \<Rightarrow> control_state \<Rightarrow> bool" where
  "same_decisions s s' \<longleftrightarrow> cs_events s' = cs_events s \<and> cs_resumes s' = cs_resumes s \<and> cs_execs s' = cs_execs s \<and>
     (\<exists>ps. cs_pauses s' = cs_pauses s @ ps)"

lemma same_decisions_pause:
  "same_decisions s s' \<Longrightarrow> pause_rec_of s' d = None \<Longrightarrow> pause_rec_of s d = None"
  by (auto simp: same_decisions_def pause_rec_of_def find_None_iff)

lemma same_decisions_views:
  assumes "same_decisions s s'"
  shows "cs_event s' = cs_event s" "held_indexed s' = held_indexed s" "held_indices s' = held_indices s"
    "held_events s' = held_events s" "events_of s' = events_of s"
    "pending_selection s' = pending_selection s" "is_cleared s' = is_cleared s"
  using assms
  by (auto simp: same_decisions_def fun_eq_iff cs_event_def held_indexed_def held_indices_def held_events_def
      events_of_def pending_selection_def is_cleared_def status_at_def)

locale control_writer =
  fixes wr :: "'j writer" and stored :: "'j \<Rightarrow> control_record list"
  assumes write_appends: "wr r j = Inr j' \<Longrightarrow> stored j' = stored j @ [r]"
begin

lemma write_accepted:
  assumes "consistent stored ctl j" and "control_apply r ctl = Inr c" and "write_control wr r ctl j = (x, ctl', j')"
  shows "kept_together stored ctl j (x, ctl', j') \<and> \<not> refused x \<and>
    (x = Inr () \<and> ctl' = c \<or> (\<exists>e. x = Inl (JournalFailed e)) \<and> ctl' = ctl)"
proof (cases "wr r j")
  case (Inl e)
  then show ?thesis using assms by (auto simp: write_control_def kept_together_def)
next
  case (Inr j1)
  moreover have "consistent stored c j1"
    using assms(1,2) write_appends [OF Inr] by (simp add: consistent_def control_replay_snoc)
  ultimately show ?thesis
    using assms(2,3) write_appends [OF Inr] by (auto simp: write_control_def kept_together_def)
qed

lemma sync_kept:
  assumes "consistent stored ctl j" and "sync_candidates wr only cs n ctl j = (x, ctl', j')"
  shows "kept_together stored ctl j (x, ctl', j') \<and> \<not> refused x \<and> same_decisions ctl ctl' \<and>
    (\<forall>m. x = Inr m \<longrightarrow> (\<forall>c \<in> set cs. only = None \<or> only = Some (pc_app c) \<longrightarrow> pause_rec_of ctl' (pc_origin c) \<noteq> None))"
  using assms
proof (induction cs arbitrary: n ctl j)
  case Nil
  then show ?case by (auto simp: kept_same same_decisions_def)
next
  case (Cons c cs)
  show ?case
  proof (cases "pause_rec_of ctl (pc_origin c) \<noteq> None \<or> (only \<noteq> None \<and> only \<noteq> Some (pc_app c))")
    case True
    with Cons.prems(2) have *: "sync_candidates wr only cs n ctl j = (x, ctl', j')" by simp
    from Cons.IH [OF Cons.prems(1) *] True show ?thesis by (auto dest: same_decisions_pause)
  next
    case False
    obtain y c1 j1 where w: "write_control wr (PauseR (pause_of_candidate c)) ctl j = (y, c1, j1)"
      using prod_cases3 by blast
    have acc: "control_apply (PauseR (pause_of_candidate c)) ctl = Inr (ctl\<lparr>cs_pauses := cs_pauses ctl @ [pause_of_candidate c]\<rparr>)"
      using False by (intro pause_accepted) simp
    note kept = write_accepted [OF Cons.prems(1) acc w]
    show ?thesis
    proof (cases y)
      case (Inl e)
      with False w Cons.prems(2) have "x = Inl e" "ctl' = c1" "j' = j1" by auto
      with kept Inl show ?thesis by (auto simp: kept_together_def refused_def same_decisions_def)
    next
      case (Inr u)
      with False w Cons.prems(2) have *: "sync_candidates wr only cs (n + 1) c1 j1 = (x, ctl', j')" by auto
      have c1: "c1 = ctl\<lparr>cs_pauses := cs_pauses ctl @ [pause_of_candidate c]\<rparr>" using kept Inr by auto
      have p1: "pause_rec_of c1 (pc_origin c) \<noteq> None"
        unfolding c1 by (simp add: pause_rec_of_def find_append pause_of_candidate_def split: option.split)
      have "consistent stored c1 j1" using kept by (simp add: kept_together_def)
      note ih = Cons.IH [OF this *]
      have p2: "pause_rec_of ctl' (pc_origin c) \<noteq> None"
      proof
        assume "pause_rec_of ctl' (pc_origin c) = None"
        with same_decisions_pause ih have "pause_rec_of c1 (pc_origin c) = None" by metis
        with p1 show False by contradiction
      qed
      have "kept_together stored ctl j (x, ctl', j')"
        using ih kept kept_trans [of stored ctl j y c1 j1 x ctl' j'] by simp
      moreover have "same_decisions ctl ctl'"
        using ih by (auto simp: c1 same_decisions_def)
      ultimately show ?thesis
        using ih p2 by (auto simp del: not_None_eq)
    qed
  qed
qed

lemma sync_where_kept:
  assumes "consistent stored ctl j" and "sync_pauses_where wr ds only ctl j = (x, ctl', j')"
  shows "kept_together stored ctl j (x, ctl', j') \<and> \<not> refused x \<and> same_decisions ctl ctl'"
  using sync_kept assms unfolding sync_pauses_where_def by blast

lemma hold_kept:
  assumes "consistent stored ctl j" and "cs_event ctl (in_app ev) (in_delivery ev) = None"
    and "hold_event wr ev ctl j = (x, ctl', j')"
  shows "kept_together stored ctl j (x, ctl', j') \<and> \<not> refused x"
proof -
  obtain y c1 j1 where w: "write_control wr (EventR (rec_of_incoming ev)) ctl j = (y, c1, j1)"
    using prod_cases3 by blast
  obtain c where acc: "control_apply (EventR (rec_of_incoming ev)) ctl = Inr c"
    using assms(2) by (simp add: rec_of_incoming_def)
  show ?thesis
    using write_accepted [OF assms(1) acc w] assms(3) w
    by (cases y) (auto simp: hold_event_def intro: kept_result)
qed

lemma ingest_kept:
  assumes "consistent stored ctl j" and "ingest wr ds ev ctl j = (x, ctl', j')"
  shows "kept_together stored ctl j (x, ctl', j')"
proof -
  obtain y c1 j1 where w: "sync_pauses_where wr ds (Some (in_app ev)) ctl j = (y, c1, j1)"
    using prod_cases3 by blast
  note sync = sync_where_kept [OF assms(1) w]
  show ?thesis
  proof (cases "hold_event wr ev c1 j1")
    case (fields z c2 j2)
    have "kept_together stored c1 j1 (z, c2, j2) \<and> \<not> refused z" if "cs_event ctl (in_app ev) (in_delivery ev) = None"
      using hold_kept [OF _ _ fields] sync that same_decisions_views(1) [of ctl c1] by (simp add: kept_together_def)
    then show ?thesis
      using assms sync w fields kept_trans [of stored ctl j y c1 j1 z c2 j2]
      by (auto simp: ingest_def kept_same intro: kept_result kept_error split: sum.splits option.splits if_splits)
  qed
qed

lemma queue_kept:
  assumes "consistent stored ctl j" and "queue_event wr ev ctl j = (x, ctl', j')"
  shows "kept_together stored ctl j (x, ctl', j')"
  using assms hold_kept [OF assms(1)]
  by (auto simp: queue_event_def kept_same split: sum.splits option.splits if_splits)

lemma record_exec_kept:
  assumes "consistent stored ctl j" and "record_exec wr e ctl j = (x, ctl', j')"
  shows "kept_together stored ctl j (x, ctl', j')"
  using assms write_appends [of "ExecR e" j]
  by (auto simp: record_exec_def kept_same kept_together_def consistent_def control_replay_snoc refused_def
      simp del: control_apply.simps split: sum.splits)

lemma resume_select_kept:
  assumes "consistent stored ctl j" and "resume_select wr app c now ctl j = (x, ctl', j')" and "c \<noteq> Dismiss"
  shows "kept_together stored ctl j (x, ctl', j')"
proof (cases "\<exists>h. pending_selection ctl app = None \<and> held_indexed ctl app \<noteq> [] \<and> resume_chosen c (held_indexed ctl app) = Some h")
  case True
  then obtain h where h: "pending_selection ctl app = None" "held_indexed ctl app \<noteq> []"
      "resume_chosen c (held_indexed ctl app) = Some h" by blast
  obtain s' where acc: "control_apply (ResumeR (selection app c now ctl h)) ctl = Inr s'"
    using selection_accepted [OF consistent_inv [OF assms(1)] h(1) chosen_held [OF h(3)] assms(3)] by blast
  obtain y c1 j1 where w: "write_control wr (ResumeR (selection app c now ctl h)) ctl j = (y, c1, j1)"
    using prod_cases3 by blast
  show ?thesis
    using write_accepted [OF assms(1) acc w] assms(2) h w
    by (cases y) (auto simp: resume_select_def Let_def intro: kept_result kept_error)
next
  case False
  then show ?thesis
    using assms(1,2) by (auto simp: resume_select_def Let_def kept_same split: option.splits if_splits)
qed

lemma resume_dismiss_kept:
  assumes "consistent stored ctl j" and "resume_dismiss wr ds app now ctl j = (x, ctl', j')"
  shows "kept_together stored ctl j (x, ctl', j')"
proof -
  let ?r = "dismissal app now ctl (map ap_origin (filter (\<lambda>p. ap_app p = app) (active_pauses ds ctl)))"
  obtain y c1 j1 where w: "sync_pauses_where wr ds (Some app) ctl j = (y, c1, j1)"
    using prod_cases3 by blast
  note sync = sync_where_kept [OF assms(1) w]
  obtain z c2 j2 where w2: "write_control wr (ResumeR ?r) c1 j1 = (z, c2, j2)"
    using prod_cases3 by blast
  have cons: "consistent stored c1 j1" using sync by (simp add: kept_together_def)
  have "?r = dismissal app now c1 (map ap_origin (filter (\<lambda>p. ap_app p = app) (active_pauses ds ctl)))"
    using same_decisions_views [of ctl c1] sync by (simp add: dismissal_def)
  then obtain s' where acc: "control_apply (ResumeR ?r) c1 = Inr s'"
    using dismissal_accepted [OF consistent_inv [OF cons]] by metis
  note written = write_accepted [OF cons acc w2]
  have "kept_together stored ctl j (z, c2, j2)"
    using sync written kept_trans [of stored ctl j y c1 j1 z c2 j2] by simp
  then show ?thesis
    using assms written sync w w2
    by (cases y; cases z)
      (auto simp: resume_dismiss_def Let_def kept_same intro: kept_result kept_error split: if_splits)
qed

lemma resume_kept:
  assumes "consistent stored ctl j" and "resume wr ds app c now ctl j = (x, ctl', j')"
  shows "kept_together stored ctl j (x, ctl', j')"
  using assms resume_dismiss_kept [OF assms(1)] resume_select_kept [OF assms(1)]
  by (auto simp: resume_def kept_same split: choice.splits sum.splits option.splits if_splits)

end

section \<open>The journal of the crate\<close>

interpretation cw: control_writer j_control j_control_records
  by unfold_locales (auto simp: j_control_def j_gate_def bind_res_Inr_iff split: if_splits)

datatype control_op =
    OpSync "deployment list"
  | OpIngest "deployment list" incoming
  | OpQueue incoming
  | OpExec exec_rec
  | OpResume "deployment list" application_id choice u64

definition unit_result :: "('j, 'a) written \<Rightarrow> ('j, unit) written" where
  "unit_result w = (case w of (x, ctl, j) \<Rightarrow> (map_sum id (\<lambda>_. ()) x, ctl, j))"

fun control_do :: "'j writer \<Rightarrow> control_op \<Rightarrow> control_state \<Rightarrow> 'j \<Rightarrow> ('j, unit) written" where
  "control_do wr (OpSync ds) ctl j = unit_result (sync_pauses wr ds ctl j)"
| "control_do wr (OpIngest ds ev) ctl j = unit_result (ingest wr ds ev ctl j)"
| "control_do wr (OpQueue ev) ctl j = unit_result (queue_event wr ev ctl j)"
| "control_do wr (OpExec x) ctl j = unit_result (record_exec wr x ctl j)"
| "control_do wr (OpResume ds app c now) ctl j = unit_result (resume wr ds app c now ctl j)"

fun control_run :: "'j writer \<Rightarrow> control_op list \<Rightarrow> control_state \<Rightarrow> 'j \<Rightarrow> control_state \<times> 'j" where
  "control_run wr [] ctl j = (ctl, j)"
| "control_run wr (op # ops) ctl j = (case control_do wr op ctl j of (x, ctl', j') \<Rightarrow> control_run wr ops ctl' j')"

context control_writer
begin

lemma unit_result_kept:
  assumes "kept_together stored ctl j w"
  shows "kept_together stored ctl j (unit_result w)"
proof (cases w)
  case (fields x c j')
  then show ?thesis
    using assms by (cases x) (auto simp: kept_together_def unit_result_def refused_Inl)
qed

lemma do_kept:
  assumes "consistent stored ctl j"
  shows "kept_together stored ctl j (control_do wr op ctl j)"
proof (cases op)
  case (OpSync ds)
  have "kept_together stored ctl j (sync_pauses wr ds ctl j)"
    by (rule kept_all) (use sync_where_kept [OF assms] in \<open>simp add: sync_pauses_def\<close>)
  then show ?thesis by (simp add: OpSync unit_result_kept)
next
  case (OpIngest ds ev)
  then show ?thesis by (simp add: unit_result_kept [OF kept_all [OF ingest_kept [OF assms]]])
next
  case (OpQueue ev)
  then show ?thesis by (simp add: unit_result_kept [OF kept_all [OF queue_kept [OF assms]]])
next
  case (OpExec x)
  then show ?thesis by (simp add: unit_result_kept [OF kept_all [OF record_exec_kept [OF assms]]])
next
  case (OpResume ds app c now)
  then show ?thesis by (simp add: unit_result_kept [OF kept_all [OF resume_kept [OF assms]]])
qed

lemma run_consistent:
  "consistent stored ctl j \<Longrightarrow> control_run wr ops ctl j = (ctl', j') \<Longrightarrow> consistent stored ctl' j'"
proof (induction ops arbitrary: ctl j)
  case (Cons op ops)
  obtain x c1 j1 where d: "control_do wr op ctl j = (x, c1, j1)" using prod_cases3 by blast
  then have "consistent stored c1 j1"
    using do_kept [OF Cons.prems(1), of op] by (simp add: kept_together_def)
  then show ?case using Cons.IH [of c1 j1] Cons.prems(2) d by simp
qed simp

end

section \<open>Executing what is queued\<close>

lemma held_events_eq: "held_events s app = map (\<lambda>i. cs_events s ! i) (held_indices s app)"
proof -
  have "filter P xs = map (\<lambda>i. xs ! i) (filter (\<lambda>i. P (xs ! i)) [0 ..< length xs])" for P and xs :: "control_event list"
    by (metis (no_types, lifting) comp_def filter_cong filter_map map_nth)
  note this [of "\<lambda>e. er_app (ev_rec e) = app \<and> ev_status e = Held" "cs_events s"]
  then show ?thesis
    by (simp add: held_events_def events_of_def held_indices_def status_at_def conj_commute)
qed

lemma last_max_ge: "last_max key b xs = Some m \<Longrightarrow> x \<in> set xs \<or> b = Some x \<Longrightarrow> key x \<le> key m"
proof (induction key b xs arbitrary: x rule: last_max.induct)
  case (3 key b y ys)
  let ?b = "if key b \<le> key y then y else b"
  have "key ?b \<le> key m" using "3.IH" [of ?b] "3.prems"(1) by simp
  moreover have "x \<in> set ys \<Longrightarrow> key x \<le> key m" using "3.IH" [of x] "3.prems"(1) by simp
  moreover have "key b \<le> key ?b" "key y \<le> key ?b" by auto
  ultimately show ?case using "3.prems"(2) by (auto dest: order_trans split: if_splits)
qed auto

text \<open>An executed record settles the event it names and those it supersedes, and no other event.\<close>

lemma exec_settles:
  assumes "apply_exec x s = Inr s'" and "control_inv s" and k: "k < length (cs_events s)"
  shows "k < length (cs_events s') \<and> ev_rec (cs_events s' ! k) = ev_rec (cs_events s ! k) \<and>
    (if er_app (ev_rec (cs_events s ! k)) = ex_app x \<and>
        er_delivery (ev_rec (cs_events s ! k)) \<in> insert (ex_delivery x) (set (ex_superseded x))
     then ev_status (cs_events s' ! k) \<notin> {Held, Selected} else cs_events s' ! k = cs_events s ! k)"
proof -
  obtain i js where i: "event_index s (ex_app x) (ex_delivery x) = Some i"
    and js: "list_all2 (\<lambda>d j. names_held s (ex_app x) d j \<and> j \<noteq> i \<and>
       er_received_ms (ev_rec (cs_events s ! j)) \<le> er_received_ms (ev_rec (cs_events s ! i))) (ex_superseded x) js"
    and s': "cs_events s' = fold (settle_event (Superseded NewerSelected) (ex_at_ms x) (Some (ex_delivery x))) js
               (settle_event (exec_status x) (ex_at_ms x) (Some (exec_reason x)) i (cs_events s))"
    using assms(1) by (auto simp: apply_exec_Inr)
  have uniq: "events_unique (cs_events s)" using assms(2) by (simp add: control_inv_def)
  have "k = i \<longleftrightarrow> event_key (cs_events s ! k) = (ex_app x, ex_delivery x)"
    using event_index_Some [OF i] unique_nth [OF uniq k, of i] by auto
  moreover have "k \<in> set js \<longleftrightarrow> er_app (ev_rec (cs_events s ! k)) = ex_app x \<and>
      er_delivery (ev_rec (cs_events s ! k)) \<in> set (ex_superseded x)"
  proof
    assume "k \<in> set js"
    with list_all2_from [OF js] obtain d where "d \<in> set (ex_superseded x)" "names_held s (ex_app x) d k" by blast
    with names_heldD [OF this(2)] show "er_app (ev_rec (cs_events s ! k)) = ex_app x \<and>
      er_delivery (ev_rec (cs_events s ! k)) \<in> set (ex_superseded x)"
      by (auto simp: event_key_def)
  next
    assume a: "er_app (ev_rec (cs_events s ! k)) = ex_app x \<and>
      er_delivery (ev_rec (cs_events s ! k)) \<in> set (ex_superseded x)"
    with list_all2_to [OF js] obtain j where j: "j \<in> set js"
        "names_held s (ex_app x) (er_delivery (ev_rec (cs_events s ! k))) j" by blast
    with names_heldD [OF j(2)] a have "k = j"
      using unique_nth [OF uniq k, of j] by (auto simp: event_key_def)
    with j show "k \<in> set js" by simp
  qed
  ultimately show ?thesis
    using k exec_status_cases [of x] by (auto simp: s' nth_fold_settle nth_settle event_key_def)
qed

lemma status_in_waiting:
  assumes "one_selected (cs_events s)" and "k < length (cs_events s)" and "ev_status (cs_events s ! k) = Selected"
    and "pending_selection s (er_app (ev_rec (cs_events s ! k))) = Some p"
  shows "p = cs_events s ! k"
proof -
  obtain i where "i < length (cs_events s)" "cs_events s ! i = p" "ev_status p = Selected"
      "er_app (ev_rec p) = er_app (ev_rec (cs_events s ! k))"
    using pending_Some [OF assms(4)] by (auto simp: in_set_conv_nth)
  then show ?thesis using assms(1-3) by (auto simp: one_selected_def)
qed

text \<open>An accepted dismissal settles everything that waits for its application, and nothing else.\<close>

lemma dismissal_nth:
  assumes "apply_resume x s = Inr s'" and c: "re_choice x = Dismiss" and inv: "control_inv s" and k: "k < length (cs_events s)"
  shows "k < length (cs_events s') \<and> ev_rec (cs_events s' ! k) = ev_rec (cs_events s ! k) \<and>
    (if er_app (ev_rec (cs_events s ! k)) = re_app x \<and> ev_status (cs_events s ! k) \<in> {Held, Selected}
     then ev_status (cs_events s' ! k) = Dismissed else cs_events s' ! k = cs_events s ! k)"
proof -
  obtain js where pend: "\<forall>e. pending_selection s (re_app x) = Some e \<longrightarrow> er_delivery (ev_rec e) \<in> set (re_dismissed x)"
    and js: "list_all2 (\<lambda>d j. event_index s (re_app x) d = Some j \<and> (status_at s j = Held \<or> status_at s j = Selected))
       (re_dismissed x) js" "set (held_indices s (re_app x)) \<subseteq> set js"
    and s': "cs_events s' = fold (mark_event Dismissed (re_at_ms x)) js (cs_events s)"
    using assms(1) by (auto simp: apply_dismiss_Inr [OF c])
  have inv': "events_unique (cs_events s)" "one_selected (cs_events s)" using inv by (auto simp: control_inv_def)
  have sel: "k \<in> set js" if "er_app (ev_rec (cs_events s ! k)) = re_app x" "ev_status (cs_events s ! k) = Selected"
  proof -
    have "pending_selection s (re_app x) \<noteq> None"
      using that k nth_mem by (auto simp: pending_None_iff simp del: not_None_eq)
    then obtain p where p: "pending_selection s (re_app x) = Some p" by blast
    with status_in_waiting [OF inv'(2) k that(2)] that(1) have "p = cs_events s ! k" by simp
    with p pend list_all2_to [OF js(1)] obtain j where
      j: "j \<in> set js" "event_index s (re_app x) (er_delivery (ev_rec (cs_events s ! k))) = Some j" by blast
    then have "j = k"
      using event_index_unique [OF inv'(1) k] that(1) by (simp add: event_key_def)
    with j show ?thesis by simp
  qed
  have "k \<in> set js \<longleftrightarrow> er_app (ev_rec (cs_events s ! k)) = re_app x \<and> ev_status (cs_events s ! k) \<in> {Held, Selected}"
  proof
    assume "k \<in> set js"
    with list_all2_from [OF js(1)] obtain d where
      "event_index s (re_app x) d = Some k" "status_at s k = Held \<or> status_at s k = Selected" by blast
    then show "er_app (ev_rec (cs_events s ! k)) = re_app x \<and> ev_status (cs_events s ! k) \<in> {Held, Selected}"
      using event_index_Some by (auto simp: event_key_def status_at_def)
  next
    assume "er_app (ev_rec (cs_events s ! k)) = re_app x \<and> ev_status (cs_events s ! k) \<in> {Held, Selected}"
    then show "k \<in> set js" using sel js(2) k by (auto simp: in_held_indices status_at_def subset_iff)
  qed
  then show ?thesis using k by (auto simp: s' nth_fold_mark)
qed

lemma waiting_none:
  assumes "\<And>k. k < length (cs_events s) \<Longrightarrow> er_app (ev_rec (cs_events s ! k)) = app \<Longrightarrow>
    ev_status (cs_events s ! k) \<notin> {Held, Selected}"
  shows "held_events s app = [] \<and> pending_selection s app = None"
  using assms
  by (auto simp: held_events_eq pending_None_iff in_set_conv_nth held_indices_def status_at_def)

lemma events_of_other:
  assumes "length es' = length es"
    and "\<And>k. k < length es \<Longrightarrow> ev_rec (es' ! k) = ev_rec (es ! k) \<and> (er_app (ev_rec (es ! k)) \<noteq> app \<longrightarrow> es' ! k = es ! k)"
    and "b \<noteq> app"
  shows "filter (\<lambda>e. er_app (ev_rec e) = b) es' = filter (\<lambda>e. er_app (ev_rec e) = b) es"
proof -
  have "list_all2 (\<lambda>e' e. e' = e \<or> er_app (ev_rec e') \<noteq> b \<and> er_app (ev_rec e) \<noteq> b) es' es"
    using assms by (auto simp: list_all2_conv_all_nth)
  then show ?thesis by (induction rule: list_all2_induct) auto
qed

lemma candidate_of_fields: "candidate_of d = Some c \<Longrightarrow> pc_origin c = d_id d \<and> pc_app c = d_app d"
  by (auto simp: candidate_of_def Let_def split: cutover_state.splits option.splits deployment_status.splits)

lemma in_pause_candidates: "c \<in> set (pause_candidates ds) \<longleftrightarrow> (\<exists>d \<in> set ds. candidate_of d = Some c)"
  by (auto simp: pause_candidates_def List.map_filter_def image_iff)

lemma candidate_app:
  assumes "distinct (map d_id ds)" and "c \<in> set (pause_candidates ds)" and "c' \<in> set (pause_candidates ds)"
    and "pc_origin c = pc_origin c'"
  shows "c = c'"
proof -
  obtain d d' where d: "d \<in> set ds" "candidate_of d = Some c" "d' \<in> set ds" "candidate_of d' = Some c'"
    using assms(2,3) by (auto simp: in_pause_candidates)
  then have "d = d'"
    using assms(1,4) candidate_of_fields by (metis distinct_map inj_onD)
  with d show ?thesis by simp
qed

lemma is_paused_iff:
  "is_paused app ds s \<longleftrightarrow> (\<exists>c \<in> set (pause_candidates ds). pc_app c = app \<and> \<not> is_cleared s (pc_origin c))"
  by (auto simp: is_paused_def active_pauses_def active_of_def split: option.splits)

lemma active_of_simps [simp]: "ap_app (active_of s c) = pc_app c" "ap_origin (active_of s c) = pc_origin c"
  by (simp_all add: active_of_def split: option.split)

lemma active_origins:
  "ap_origin ` {p \<in> set (active_pauses ds s). ap_app p = app} =
   {o'. \<exists>c \<in> set (pause_candidates ds). pc_app c = app \<and> pc_origin c = o' \<and> \<not> is_cleared s o'}"
  by (auto simp: active_pauses_def image_iff intro!: exI conjI)

lemma is_cleared_snoc:
  "cs_resumes s' = cs_resumes s @ [r] \<Longrightarrow> is_cleared s' d \<longleftrightarrow> is_cleared s d \<or> d \<in> set (re_cleared r)"
  by (auto simp: is_cleared_def)

lemma resume_dismissed:
  assumes cons: "consistent j_control_records ctl j"
    and r: "resume j_control ds app Dismiss now ctl j = (Inr (ResumedDismissed n m), ctl', j')"
  shows "\<exists>c1. same_decisions ctl c1 \<and> control_inv c1 \<and>
    (\<forall>c \<in> set (pause_candidates ds). pc_app c = app \<longrightarrow> pause_rec_of c1 (pc_origin c) \<noteq> None) \<and>
    apply_resume (dismissal app now ctl (map ap_origin (filter (\<lambda>p. ap_app p = app) (active_pauses ds ctl)))) c1 = Inr ctl' \<and>
    n = length (re_dismissed (dismissal app now ctl []))"
proof -
  let ?r = "dismissal app now ctl (map ap_origin (filter (\<lambda>p. ap_app p = app) (active_pauses ds ctl)))"
  obtain y c1 j1 where w: "sync_pauses_where j_control ds (Some app) ctl j = (y, c1, j1)"
    using prod_cases3 by blast
  obtain z c2 j2 where w2: "write_control j_control (ResumeR ?r) c1 j1 = (z, c2, j2)"
    using prod_cases3 by blast
  have ok: "is_ok y" "is_ok z" "ctl' = c2" "n = length (re_dismissed ?r)"
    using r w w2 by (cases y; cases z; auto simp: resume_def resume_dismiss_def Let_def is_ok_iff split: if_splits)+
  note sync = cw.sync_kept [OF cons w [unfolded sync_pauses_where_def]]
  have "consistent j_control_records c1 j1" using sync by (simp add: kept_together_def)
  then have "control_inv c1" by (rule consistent_inv)
  moreover have "apply_resume ?r c1 = Inr ctl'"
    using w2 ok by (auto simp: write_control_def is_ok_iff split: sum.splits)
  moreover have "n = length (re_dismissed (dismissal app now ctl []))" using ok(4) by (simp add: dismissal_def)
  moreover have "same_decisions ctl c1 \<and> (\<forall>c \<in> set (pause_candidates ds). pc_app c = app \<longrightarrow> pause_rec_of c1 (pc_origin c) \<noteq> None)"
    using sync ok(1) by (auto simp: is_ok_iff)
  ultimately show ?thesis by blast
qed

text \<open>
  Accepting a dismissal settles the whole application: no event of it is held or
  selected any more, its pauses are all recorded and cleared so it is no longer paused, and the number
  reported is the number of events that were waiting. Nothing changes for any other application.
\<close>

theorem dismissal_settles_application:
  assumes "control_replay (j_control_records j) control_empty = Inr ctl" and ids: "distinct (map d_id ds)"
    and r: "resume j_control ds app Dismiss now ctl j = (Inr (ResumedDismissed n m), ctl', j')"
  shows "held_events ctl' app = [] \<and> pending_selection ctl' app = None \<and> \<not> is_paused app ds ctl' \<and>
    (\<forall>c \<in> set (pause_candidates ds). pc_app c = app \<longrightarrow> pause_rec_of ctl' (pc_origin c) \<noteq> None) \<and>
    n = length (held_events ctl app) + (case pending_selection ctl app of None \<Rightarrow> 0 | Some _ \<Rightarrow> 1) \<and>
    (\<forall>b. b \<noteq> app \<longrightarrow> events_of ctl' b = events_of ctl b \<and> is_paused b ds ctl' = is_paused b ds ctl)"
proof -
  let ?r = "dismissal app now ctl (map ap_origin (filter (\<lambda>p. ap_app p = app) (active_pauses ds ctl)))"
  have "consistent j_control_records ctl j" using assms(1) by (simp add: consistent_def)
  from resume_dismissed [OF this r] obtain c1 where c1: "same_decisions ctl c1" "control_inv c1"
      "\<forall>c \<in> set (pause_candidates ds). pc_app c = app \<longrightarrow> pause_rec_of c1 (pc_origin c) \<noteq> None"
      "apply_resume ?r c1 = Inr ctl'" "n = length (re_dismissed (dismissal app now ctl []))" by blast
  have choice: "re_choice ?r = Dismiss" "re_app ?r = app" by (simp_all add: dismissal_def)
  have app: "control_apply (ResumeR ?r) c1 = Inr ctl'" using c1(4) by simp
  note nth = dismissal_nth [OF c1(4) choice(1) c1(2), unfolded choice(2)]
  have len: "length (cs_events ctl') = length (cs_events c1)" using apply_length [OF app] by simp
  have "held_events ctl' app = [] \<and> pending_selection ctl' app = None"
  proof (rule waiting_none)
    fix k assume "k < length (cs_events ctl')" "er_app (ev_rec (cs_events ctl' ! k)) = app"
    then show "ev_status (cs_events ctl' ! k) \<notin> {Held, Selected}"
      using nth [of k] len by (auto split: if_splits)
  qed
  moreover have recs: "cs_pauses ctl' = cs_pauses c1" "cs_resumes ctl' = cs_resumes c1 @ [?r]"
    using c1(4) by (auto simp: apply_dismiss_Inr [OF choice(1)])
  moreover have cleared: "is_cleared ctl' o' \<longleftrightarrow> is_cleared ctl o' \<or>
      (\<exists>c \<in> set (pause_candidates ds). pc_app c = app \<and> pc_origin c = o' \<and> \<not> is_cleared ctl o')" for o'
    using is_cleared_snoc [OF recs(2)] same_decisions_views(7) [OF c1(1)] by (auto simp: dismissal_def active_origins)
  then have "\<not> is_paused app ds ctl'" by (auto simp: is_paused_iff)
  moreover have "is_paused b ds ctl' = is_paused b ds ctl" if "b \<noteq> app" for b
    using that candidate_app [OF ids] by (fastforce simp: is_paused_iff cleared)
  moreover have "events_of ctl' b = events_of ctl b" if "b \<noteq> app" for b
  proof -
    have "filter (\<lambda>e. er_app (ev_rec e) = b) (cs_events ctl') = filter (\<lambda>e. er_app (ev_rec e) = b) (cs_events c1)"
      using nth by (intro events_of_other [OF len _ that]) (auto split: if_splits)
    then show ?thesis using same_decisions_views(5) [OF c1(1)] by (simp add: events_of_def fun_eq_iff)
  qed
  moreover have "n = length (held_events ctl app) + (case pending_selection ctl app of None \<Rightarrow> 0 | Some _ \<Rightarrow> 1)"
    by (simp add: c1(5) dismissal_def held_indexed_eq held_events_eq split: option.split)
  ultimately show ?thesis using c1(3) by (auto simp: pause_rec_of_def)
qed

text \<open>
  Claim C21. The control state in memory is always what the journal replays to, after any
  operations in any order, with the journal failing at any write; and an operation that is refused
  (invalid or contradicting input) changes neither the state nor the journal.
\<close>

theorem control_memory_is_journal:
  assumes "control_run j_control ops control_empty j = (ctl, j')" and "j_control_records j = []"
  shows "control_replay (j_control_records j') control_empty = Inr ctl \<and>
    (case control_do j_control op ctl j' of (x, ctl', j'') \<Rightarrow>
       control_replay (j_control_records j'') control_empty = Inr ctl' \<and>
       ((\<exists>m. x = Inl (Invalid m) \<or> x = Inl (Conflict m)) \<longrightarrow> ctl' = ctl \<and> j'' = j'))"
proof -
  have "consistent j_control_records control_empty j" using assms(2) by (simp add: consistent_def)
  then have "consistent j_control_records ctl j'" using assms(1) by (rule cw.run_consistent)
  then show ?thesis
    using cw.do_kept [of ctl j' op] by (auto simp: kept_together_def consistent_def refused_def split: prod.splits)
qed

text \<open>
  Claim C22. The journal's reading of an event: replaying more records never drops, changes or
  reorders an event, its status only moves forward (held, then at most selected, then settled), every
  status is the one given by a recorded decision that names the event, a delivery has one event per
  application, and at most one event of an application is selected.
\<close>

theorem events_only_move_forward:
  assumes "control_replay rs control_empty = Inr s" and "control_replay rs' s = Inr s'"
  shows "control_inv s' \<and> length (cs_events s) \<le> length (cs_events s') \<and>
    (\<forall>k < length (cs_events s). ev_rec (cs_events s' ! k) = ev_rec (cs_events s ! k) \<and>
       status_le (ev_status (cs_events s ! k)) (ev_status (cs_events s' ! k)))"
  using replay_forward [OF assms(2) control_inv_replay [OF assms(1) control_inv_empty]] .

section \<open>Executing what next\_execution proposes\<close>

fun proposal :: "next_exec \<Rightarrow> (control_event \<times> string list) option" where
  "proposal (NextSelected e) = Some (e, [])"
| "proposal (NextNewest c older) = Some (c, older)"
| "proposal NextNothing = None"

lemma newest_in:
  assumes "newest held = Some h"
  shows "h \<in> set held \<and> (\<forall>g \<in> set held. er_received_ms (ev_rec (snd g)) \<le> er_received_ms (ev_rec (snd h)))"
proof -
  let ?key = "\<lambda>(i, e). (er_received_ms (ev_rec e), i)"
  have key: "?key g \<le> ?key h" if "g \<in> set held" for g
    using last_max_ge [OF assms [unfolded newest_def]] that by blast
  have "er_received_ms (ev_rec (snd g)) \<le> er_received_ms (ev_rec (snd h))" if "g \<in> set held" for g
    using key [OF that] by (cases g; cases h) (auto simp: less_eq_prod_def)
  then show ?thesis using last_max_in [OF assms [unfolded newest_def]] by simp
qed

lemma last_max_some: "last_max key (Some b) xs \<noteq> None"
  by (induction xs arbitrary: b) auto

lemma newest_None_iff: "newest held = None \<longleftrightarrow> held = []"
  by (cases held) (simp_all add: newest_def last_max_some del: not_None_eq)

lemma next_newest:
  assumes "next_execution ds ctl app = NextNewest c older"
  shows "pending_selection ctl app = None \<and> \<not> is_paused app ds ctl \<and> c \<in> set (held_events ctl app) \<and>
    older = map (\<lambda>e. er_delivery (ev_rec e)) (filter (\<lambda>e. er_delivery (ev_rec e) \<noteq> er_delivery (ev_rec c)) (held_events ctl app)) \<and>
    (\<forall>e \<in> set (held_events ctl app). er_received_ms (ev_rec e) \<le> er_received_ms (ev_rec c))"
proof -
  let ?held = "zip [0 ..< length (held_events ctl app)] (held_events ctl app)"
  obtain k where "newest ?held = Some (k, c)"
    using assms by (auto simp: next_execution_def Let_def split: option.splits if_splits prod.splits)
  from newest_in [OF this] have "c \<in> set (held_events ctl app)"
      "\<forall>e \<in> set (held_events ctl app). er_received_ms (ev_rec e) \<le> er_received_ms (ev_rec c)"
    by (auto simp: zip_upt in_set_conv_nth)
  with assms show ?thesis
    by (auto simp: next_execution_def Let_def split: option.splits if_splits prod.splits)
qed

lemma next_nothing_iff:
  "next_execution ds ctl app = NextNothing \<longleftrightarrow>
   pending_selection ctl app = None \<and> (is_paused app ds ctl \<or> held_events ctl app = [])"
proof (cases "newest (zip [0 ..< length (held_events ctl app)] (held_events ctl app))")
  case None
  then have "held_events ctl app = []" by (simp add: newest_None_iff zip_upt)
  with None show ?thesis by (simp add: next_execution_def split: option.split)
next
  case (Some h)
  then have "held_events ctl app \<noteq> []" by (auto simp: newest_def)
  with Some show ?thesis by (simp add: next_execution_def Let_def split: option.split prod.split)
qed

lemma proposal_accepted:
  assumes inv: "control_inv ctl" and p: "proposal (next_execution ds ctl app) = Some (c, older)"
    and x: "ex_app x = app" "ex_delivery x = er_delivery (ev_rec c)" "ex_superseded x = older" "outcome_agrees x"
  shows "\<exists>s'. apply_exec x ctl = Inr s'"
proof (cases "next_execution ds ctl app")
  case (NextSelected e)
  then have "pending_selection ctl app = Some c" "older = []"
    using p by (auto simp: next_execution_def Let_def split: option.splits if_splits prod.splits)
  moreover from pending_Some [OF this(1)] obtain i where "event_index ctl app (er_delivery (ev_rec c)) = Some i"
      "cs_events ctl ! i = c"
    using waiting_event_index [OF inv, of c app] by auto
  ultimately show ?thesis
    using pending_Some [of ctl app c] x by (auto simp: apply_exec_Inr status_at_def)
next
  case (NextNewest c' older2)
  with p have nx: "next_execution ds ctl app = NextNewest c older" by simp
  note n = next_newest [OF nx]
  obtain i where i: "i \<in> set (held_indices ctl app)" "c = cs_events ctl ! i"
    using n by (auto simp: held_events_eq)
  let ?js = "filter (\<lambda>j. er_delivery (ev_rec (cs_events ctl ! j)) \<noteq> er_delivery (ev_rec c)) (held_indices ctl app)"
  have older: "older = map (\<lambda>j. er_delivery (ev_rec (cs_events ctl ! j))) ?js"
    using n by (simp add: held_events_eq filter_map comp_def)
  have "list_all2 (\<lambda>d j. names_held ctl (ex_app x) d j \<and> j \<noteq> i \<and>
      er_received_ms (ev_rec (cs_events ctl ! j)) \<le> er_received_ms (ev_rec (cs_events ctl ! i))) (ex_superseded x) ?js"
    unfolding x older using held_event_index [OF inv] i n
    by (auto simp: list_all2_map1 list_all2_same held_events_eq)
  with held_event_index [OF inv i(1)] i x show ?thesis
    by (auto simp: apply_exec_Inr names_held_def)
next
  case NextNothing
  with p show ?thesis by simp
qed

lemma exec_other_fields:
  assumes "apply_exec x s = Inr s'"
  shows "cs_pauses s' = cs_pauses s \<and> cs_resumes s' = cs_resumes s"
  using assms by (auto simp: apply_exec_Inr)

definition settled_by :: "exec_rec \<Rightarrow> control_event \<Rightarrow> bool" where
  "settled_by x e \<longleftrightarrow> er_app (ev_rec e) = ex_app x \<and>
     er_delivery (ev_rec e) \<in> insert (ex_delivery x) (set (ex_superseded x))"

lemma exec_pairs:
  assumes "apply_exec x s = Inr s'" and "control_inv s"
  shows "list_all2 (\<lambda>e' e. if settled_by x e then settled_by x e' \<and> ev_status e' \<noteq> Held \<and> ev_status e' \<noteq> Selected
      else e' = e) (cs_events s') (cs_events s)"
  unfolding list_all2_conv_all_nth
proof (intro conjI allI impI)
  show len: "length (cs_events s') = length (cs_events s)"
    using apply_length [of "ExecR x" s s'] assms(1) by simp
  fix k assume "k < length (cs_events s')"
  then show "if settled_by x (cs_events s ! k) then settled_by x (cs_events s' ! k) \<and>
      ev_status (cs_events s' ! k) \<noteq> Held \<and> ev_status (cs_events s' ! k) \<noteq> Selected
      else cs_events s' ! k = cs_events s ! k"
    using exec_settles [OF assms, of k] len by (auto simp: settled_by_def split: if_splits)
qed

lemma filter_pairs:
  assumes "list_all2 R xs ys" and "\<And>x y. R x y \<Longrightarrow> (if Q y then \<not> P x else x = y)"
  shows "filter P xs = filter (\<lambda>y. P y \<and> \<not> Q y) ys"
  using assms(1)
proof (induction rule: list_all2_induct)
  case (Cons x xs y ys)
  then show ?case using assms(2) [of x y] by (cases "Q y") simp_all
qed simp

lemma exec_other_events:
  assumes "apply_exec x s = Inr s'" and "control_inv s" and "b \<noteq> ex_app x"
  shows "events_of s' b = events_of s b"
proof -
  have "filter (\<lambda>e. er_app (ev_rec e) = b) (cs_events s') =
      filter (\<lambda>e. er_app (ev_rec e) = b \<and> \<not> settled_by x e) (cs_events s)"
    using exec_pairs [OF assms(1,2)] by (rule filter_pairs) (use assms(3) in \<open>auto simp: settled_by_def\<close>)
  also have "\<dots> = filter (\<lambda>e. er_app (ev_rec e) = b) (cs_events s)"
    using assms(3) by (intro filter_cong) (auto simp: settled_by_def)
  finally show ?thesis by (simp add: events_of_def)
qed

lemma held_filter: "held_events s app = filter (\<lambda>e. er_app (ev_rec e) = app \<and> ev_status e = Held) (cs_events s)"
  by (simp add: held_events_def events_of_def conj_commute)

lemma exec_held:
  assumes "apply_exec x s = Inr s'" and "control_inv s"
  shows "held_events s' (ex_app x) = filter (\<lambda>e. \<not> settled_by x e) (held_events s (ex_app x))"
  unfolding held_filter filter_filter
  by (rule filter_pairs [OF exec_pairs [OF assms]]) (simp split: if_splits)

lemma exec_pending:
  assumes "apply_exec x s = Inr s'" and "control_inv s"
    and pend: "\<And>p. pending_selection s (ex_app x) = Some p \<Longrightarrow> settled_by x p"
  shows "pending_selection s' (ex_app x) = None"
proof -
  let ?sel = "\<lambda>e. er_app (ev_rec e) = ex_app x \<and> ev_status e = Selected"
  have "filter ?sel (cs_events s') = filter (\<lambda>e. ?sel e \<and> \<not> settled_by x e) (cs_events s)"
    by (rule filter_pairs [OF exec_pairs [OF assms(1,2)]]) (simp split: if_splits)
  moreover have "settled_by x e" if e: "e \<in> set (cs_events s)" "?sel e" for e
  proof -
    obtain k where k: "k < length (cs_events s)" "cs_events s ! k = e" using e(1) by (auto simp: in_set_conv_nth)
    have "pending_selection s (ex_app x) \<noteq> None" using e by (auto simp: pending_None_iff simp del: not_None_eq)
    then obtain p where p: "pending_selection s (ex_app x) = Some p" by blast
    with status_in_waiting [of s k p] assms(2) k e have "p = e" by (simp add: control_inv_def)
    with pend [OF p] show ?thesis by simp
  qed
  ultimately have "filter ?sel (cs_events s') = []" by (auto simp: filter_empty_conv)
  then show ?thesis by (auto simp: pending_None_iff filter_empty_conv)
qed

text \<open>
  Claim C23. What \<open>next_execution\<close> proposes can always be recorded as executed (only the journal can
  fail), and one execution is enough: executing the newest held event leaves nothing held and nothing
  more to do, and no held event was newer; executing a selected event uses the selection up and leaves
  the held events as they were. The events of the other applications are untouched.
\<close>

theorem proposed_execution_is_accepted:
  assumes replay: "control_replay (j_control_records j) control_empty = Inr ctl"
    and p: "proposal (next_execution ds ctl app) = Some (c, older)"
    and x: "ex_app x = app" "ex_delivery x = er_delivery (ev_rec c)" "ex_superseded x = older" "outcome_agrees x"
    and r: "record_exec j_control x ctl j = (res, ctl', j')"
  shows "case res of
      Inr _ \<Rightarrow> pending_selection ctl' app = None \<and> (\<forall>b. b \<noteq> app \<longrightarrow> events_of ctl' b = events_of ctl b) \<and>
        (case next_execution ds ctl app of
           NextNewest _ _ \<Rightarrow> held_events ctl' app = [] \<and> next_execution ds ctl' app = NextNothing \<and>
             (\<forall>e \<in> set (held_events ctl app). er_received_ms (ev_rec e) \<le> er_received_ms (ev_rec c))
         | _ \<Rightarrow> held_events ctl' app = held_events ctl app)
    | Inl e \<Rightarrow> (\<exists>f. e = JournalFailed f) \<and> ctl' = ctl \<and> j' = j"
proof -
  have inv: "control_inv ctl" by (rule control_inv_replay [OF replay control_inv_empty])
  obtain s' where s': "apply_exec x ctl = Inr s'" using proposal_accepted [OF inv p x] by blast
  have res: "(\<exists>f. res = Inl (JournalFailed f)) \<and> ctl' = ctl \<and> j' = j \<or> res = Inr () \<and> ctl' = s'"
    using r s' by (auto simp: record_exec_def split: sum.splits)
  have in_held: "er_app (ev_rec e) = app" if "e \<in> set (held_events ctl app)" for e
    using that by (simp add: held_filter)
  show ?thesis
  proof (cases "next_execution ds ctl app")
    case (NextSelected e)
    then have sel: "pending_selection ctl app = Some c" "older = []" "e = c"
      using p by (auto simp: next_execution_def Let_def split: option.splits if_splits prod.splits)
    note c = pending_Some [OF sel(1)]
    have "settled_by x c" using c x by (simp add: settled_by_def)
    then have "pending_selection s' app = None" using exec_pending [OF s' inv] sel(1) x(1) by simp
    moreover have "\<not> settled_by x e" if "e \<in> set (held_events ctl app)" for e
    proof
      assume "settled_by x e"
      then have "event_key e = event_key c" using x sel(2) c by (simp add: settled_by_def event_key_def)
      moreover have "e \<in> set (cs_events ctl)" "ev_status e = Held" using that by (auto simp: held_filter)
      ultimately have "e = c"
        using inv c by (auto simp: control_inv_def events_unique_def distinct_map dest: inj_onD)
      with c \<open>ev_status e = Held\<close> show False by simp
    qed
    then have "held_events s' app = held_events ctl app" using exec_held [OF s' inv] x(1) by (simp add: filter_id_conv)
    ultimately show ?thesis
      using res exec_other_events [OF s' inv] x(1) NextSelected by auto
  next
    case (NextNewest c' older2)
    with p have nx: "next_execution ds ctl app = NextNewest c older" by simp
    note n = next_newest [OF nx]
    have "settled_by x e" if "e \<in> set (held_events ctl app)" for e
      using that in_held [OF that] n x by (auto simp: settled_by_def)
    then have held: "held_events s' app = []" using exec_held [OF s' inv] x(1) by (simp add: filter_empty_conv)
    moreover have pend: "pending_selection s' app = None" using exec_pending [OF s' inv] n x(1) by simp
    ultimately have "next_execution ds s' app = NextNothing" by (simp add: next_nothing_iff)
    with held pend show ?thesis
      using res exec_other_events [OF s' inv] x(1) NextNewest n by auto
  next
    case NextNothing
    with p show ?thesis by simp
  qed
qed

section \<open>The properties at a concrete state\<close>

definition example_journal :: control_journal where
  "example_journal = fresh_journal\<lparr>j_writes := 1, j_control_records := [EventR (rec_of_incoming dash_event)]\<rparr>"

lemma example_replay: "control_replay (j_control_records example_journal) control_empty = Inr dash_held"
  by (simp add: example_journal_def cs_event_def control_empty_def dash_held_def)

lemma dash_held_events: "held_events dash_held (ApplicationId 7) = cs_events dash_held"
  by (simp add: held_events_def events_of_def dash_held_def rec_of_incoming_def dash_event_def)

lemma dash_next:
  "next_execution [] dash_held (ApplicationId 7) = NextNewest (hd (cs_events dash_held)) []"
  by (simp add: next_execution_def dash_views is_paused_def active_pauses_def pause_candidates_def
      dash_held_events newest_def Let_def) (simp add: dash_held_def)

definition example_exec :: exec_rec where
  "example_exec = \<lparr>ex_app = ApplicationId 7, ex_delivery = ''-'', ex_outcome = ExecFailed, ex_deployment = None,
     ex_reason = ''no checkout'', ex_superseded = [], ex_at_ms = 11\<rparr>"

lemma example_exec_accepted: "\<exists>s. apply_exec example_exec dash_held = Inr s"
proof (rule proposal_accepted)
  show "control_inv dash_held" by (rule control_inv_replay [OF example_replay control_inv_empty])
  show "proposal (next_execution [] dash_held (ApplicationId 7)) = Some (hd (cs_events dash_held), [])"
    by (simp add: dash_next)
qed (simp_all add: example_exec_def outcome_agrees_def dash_held_def rec_of_incoming_def dash_event_def)

theorem proposed_execution_is_accepted_witness:
  "\<exists>ctl' j'. record_exec j_control example_exec dash_held example_journal = (Inr (), ctl', j') \<and>
     held_events ctl' (ApplicationId 7) = [] \<and> next_execution [] ctl' (ApplicationId 7) = NextNothing"
proof -
  obtain res ctl' j' where r: "record_exec j_control example_exec dash_held example_journal = (res, ctl', j')"
    using prod_cases3 by blast
  have res: "res = Inr ()"
    using r example_exec_accepted
    by (auto simp: record_exec_def j_control_def j_gate_def example_journal_def fresh_journal_def)
  have "proposal (next_execution [] dash_held (ApplicationId 7)) = Some (hd (cs_events dash_held), [])"
    by (simp add: dash_next)
  from proposed_execution_is_accepted [OF example_replay this _ _ _ _ r] res r show ?thesis
    by (simp add: dash_next example_exec_def outcome_agrees_def)
      (simp add: dash_held_def rec_of_incoming_def dash_event_def)
qed

theorem control_memory_is_journal_witness:
  "control_do j_control (OpExec (example_exec\<lparr>ex_delivery := ''other''\<rparr>)) dash_held example_journal =
     (Inl (Conflict (''an execution names delivery other, which is not recorded for '' @ app_str (ApplicationId 7))),
      dash_held, example_journal) \<and>
   control_replay (j_control_records example_journal) control_empty = Inr dash_held"
proof -
  have run: "control_run j_control [OpQueue dash_event] control_empty fresh_journal = (dash_held, example_journal)"
    by (simp add: dash_queued unit_result_def example_journal_def)
  have none: "event_index dash_held (ApplicationId 7) ''other'' = None"
    by (simp add: event_index_def dash_held_def is_event_def rec_of_incoming_def dash_event_def)
  have refusal: "fst (control_do j_control (OpExec (example_exec\<lparr>ex_delivery := ''other''\<rparr>)) dash_held example_journal) =
      Inl (Conflict (''an execution names delivery other, which is not recorded for '' @ app_str (ApplicationId 7)))"
    using none by (simp add: record_exec_def apply_exec_def example_exec_def unit_result_def)
  have "j_control_records fresh_journal = []" by (simp add: fresh_journal_def)
  from control_memory_is_journal [OF run this, of "OpExec (example_exec\<lparr>ex_delivery := ''other''\<rparr>)"] refusal
  show ?thesis by (cases "control_do j_control (OpExec (example_exec\<lparr>ex_delivery := ''other''\<rparr>)) dash_held example_journal") auto
qed

theorem events_only_move_forward_witness:
  "\<exists>s. control_replay [ExecR example_exec] dash_held = Inr s \<and> control_inv s \<and> 1 \<le> length (cs_events s) \<and>
     status_le Held (ev_status (cs_events s ! 0))"
proof -
  obtain s where s: "control_replay [ExecR example_exec] dash_held = Inr s"
    using example_exec_accepted by auto
  from events_only_move_forward [OF example_replay s] show ?thesis
    using s by (simp add: dash_held_def)
qed

definition paused_deployment :: deployment where
  "paused_deployment = (deployment_new (DeploymentId 3) (ApplicationId 7) Manual 1)\<lparr>d_cutover := CutoverFailed 2\<rparr>"

lemma paused_candidates:
  "\<exists>c. pause_candidates [paused_deployment] = [c] \<and> pc_app c = ApplicationId 7 \<and> pc_origin c = DeploymentId 3"
  by (simp add: pause_candidates_def List.map_filter_def candidate_of_def paused_deployment_def deployment_new_def Let_def)

theorem dismissal_settles_application_witness:
  "\<exists>n m ctl' j'. resume j_control [paused_deployment] (ApplicationId 7) Dismiss 9 dash_held example_journal =
       (Inr (ResumedDismissed n m), ctl', j') \<and> n = 1 \<and>
     \<not> is_paused (ApplicationId 7) [paused_deployment] ctl' \<and> held_events ctl' (ApplicationId 7) = []"
proof -
  obtain c where c: "pause_candidates [paused_deployment] = [c]" "pc_app c = ApplicationId 7" "pc_origin c = DeploymentId 3"
    using paused_candidates by blast
  let ?ctl = "dash_held\<lparr>cs_pauses := [pause_of_candidate c]\<rparr>"
  have unpaused: "pause_rec_of dash_held (DeploymentId 3) = None" "\<not> is_cleared dash_held (DeploymentId 3)"
    by (simp_all add: pause_rec_of_def is_cleared_def dash_held_def control_empty_def)
  have "sync_pauses_where j_control [paused_deployment] (Some (ApplicationId 7)) dash_held example_journal =
      (Inr 1, ?ctl, example_journal\<lparr>j_writes := 2, j_control_records := j_control_records example_journal @ [PauseR (pause_of_candidate c)]\<rparr>)"
    using pause_accepted [of dash_held c] unpaused c
    by (simp add: sync_pauses_where_def write_control_def j_control_def j_gate_def example_journal_def fresh_journal_def
        dash_held_def control_empty_def del: control_apply.simps)
  moreover obtain s' where "control_apply (ResumeR (dismissal (ApplicationId 7) 9 dash_held [DeploymentId 3])) ?ctl = Inr s'"
  proof -
    have same: "same_decisions dash_held ?ctl" by (simp add: same_decisions_def dash_held_def control_empty_def)
    have inv: "control_inv ?ctl"
      using control_inv_apply [of "PauseR (pause_of_candidate c)" dash_held]
        control_inv_replay [OF example_replay control_inv_empty] pause_accepted [of dash_held c] unpaused c
      by (simp add: dash_held_def control_empty_def)
    have "dismissal (ApplicationId 7) 9 dash_held [DeploymentId 3] = dismissal (ApplicationId 7) 9 ?ctl [DeploymentId 3]"
      using same_decisions_views [OF same] by (simp add: dismissal_def)
    then show ?thesis using dismissal_accepted [OF inv] that by metis
  qed
  ultimately obtain n m ctl' j' where r:
    "resume j_control [paused_deployment] (ApplicationId 7) Dismiss 9 dash_held example_journal =
       (Inr (ResumedDismissed n m), ctl', j')"
    using c unpaused
    by (auto simp: resume_def resume_dismiss_def Let_def active_pauses_def dash_views write_control_def j_control_def
        j_gate_def example_journal_def fresh_journal_def simp del: control_apply.simps)
  have "distinct (map d_id [paused_deployment])" by simp
  from dismissal_settles_application [OF example_replay this r] r show ?thesis
    by (simp add: dash_views dash_held_events) (simp add: dash_held_def)
qed

end
