(* ===== verification/Config.thy ===== *)
theory Config
  imports BTree StepLog "HOL-Library.Product_Lexorder"
begin

text \<open>
  Scoped configuration (\<open>deploy/src/config.rs\<close>): scopes, definitions, saved secret versions and the
  snapshot of each deployment, their text form, the state they rebuild, the resolution of the effective
  configuration, and its use by the build and the container. Error texts that quote their input are
  shortened to what is fixed in them.
\<close>

section \<open>Scopes\<close>

definition max_entries :: nat where "max_entries = 256"
definition max_config_bytes :: nat where "max_config_bytes = 64 * 1024"
definition max_secret_entries :: nat where "max_secret_entries = 64"
definition max_config_token :: nat where "max_config_token = 128"

datatype level = Global | Project | Application

datatype scope = Scope (sc_level: level) (sc_id: string) (sc_env: "string option")

text \<open>The derived order: the level, then the id, then the environment, none before some.\<close>

fun level_rank :: "level \<Rightarrow> nat" where
  "level_rank Global = 0" | "level_rank Project = 1" | "level_rank Application = 2"

fun env_rank :: "string option \<Rightarrow> string list" where
  "env_rank None = []" | "env_rank (Some e) = [e]"

lemma level_rank_inj: "level_rank a = level_rank b \<longleftrightarrow> a = b"
  by (cases a; cases b) simp_all

lemma env_rank_inj: "env_rank a = env_rank b \<longleftrightarrow> a = b"
  by (cases a; cases b) simp_all

definition scope_key :: "scope \<Rightarrow> nat \<times> string \<times> string list" where
  "scope_key s = (level_rank (sc_level s), sc_id s, env_rank (sc_env s))"

lemma scope_key_inj: "scope_key a = scope_key b \<longleftrightarrow> a = b"
  by (cases a; cases b) (simp add: scope_key_def level_rank_inj env_rank_inj)

instantiation scope :: linorder
begin

definition less_eq_scope :: "scope \<Rightarrow> scope \<Rightarrow> bool" where
  "less_eq_scope a b \<longleftrightarrow> scope_key a \<le> scope_key b"

definition less_scope :: "scope \<Rightarrow> scope \<Rightarrow> bool" where
  "less_scope a b \<longleftrightarrow> scope_key a < scope_key b"

instance
proof
  fix x y :: scope
  show "x \<le> y \<Longrightarrow> y \<le> x \<Longrightarrow> x = y"
    using antisym scope_key_inj unfolding less_eq_scope_def by blast
qed (auto simp: less_eq_scope_def less_scope_def)

end

definition config_token_char :: "char \<Rightarrow> bool" where
  "config_token_char c \<longleftrightarrow>
     ascii_alphabetic c \<or> ascii_digit c \<or> c = CHR ''.'' \<or> c = CHR ''_'' \<or> c = CHR ''-''"

definition config_token :: "string \<Rightarrow> string \<Rightarrow> string + unit" where
  "config_token what v =
     (if v = [] \<or> max_config_token < length v then Inl (what @ '' must be 1..=128 bytes'')
      else if \<not> list_all config_token_char v then Inl (what @ '' contains a character that is not accepted'')
      else Inr ())"

definition scope_global :: "string option \<Rightarrow> scope" where
  "scope_global env = Scope Global [] env"

definition scope_project :: "string \<Rightarrow> string option \<Rightarrow> scope" where
  "scope_project name env = Scope Project name env"

definition scope_application :: "application_id \<Rightarrow> string option \<Rightarrow> scope" where
  "scope_application app env = Scope Application (app_str app) env"

definition scope_validate :: "scope \<Rightarrow> string + unit" where
  "scope_validate s =
     bind_res
       (case sc_level s of
          Global \<Rightarrow> if sc_id s \<noteq> [] then Inl ''the global scope has no id'' else Inr ()
        | Project \<Rightarrow> config_token ''a project name'' (sc_id s)
        | Application \<Rightarrow>
            (case app_from_str (sc_id s) of
               Inl _ \<Rightarrow> Inl ''the application id is not valid'' | Inr _ \<Rightarrow> Inr ()))
       (\<lambda>_. case sc_env s of None \<Rightarrow> Inr () | Some e \<Rightarrow> config_token ''an environment name'' e)"

definition scope_base :: "scope \<Rightarrow> string" where
  "scope_base s =
     (case sc_level s of
        Global \<Rightarrow> ''global'' | Project \<Rightarrow> ''project:'' @ sc_id s | Application \<Rightarrow> ''app:'' @ sc_id s)"

definition slug :: "scope \<Rightarrow> string" where
  "slug s = (case sc_env s of Some e \<Rightarrow> scope_base s @ ''@'' @ e | None \<Rightarrow> scope_base s)"

definition scope_parse :: "string \<Rightarrow> string + scope" where
  "scope_parse s =
     (let (base, env) = (case split_once (CHR ''@'') s of Some (b, e) \<Rightarrow> (b, Some e) | None \<Rightarrow> (s, None));
          found =
            (if base = ''global'' then Some (Scope Global [] env)
             else case strip_prefix ''project:'' base of
                 Some n \<Rightarrow> Some (Scope Project n env)
               | None \<Rightarrow> map_option (\<lambda>a. Scope Application a env) (strip_prefix ''app:'' base))
      in case found of
           None \<Rightarrow> Inl ''unknown scope''
         | Some sc \<Rightarrow> bind_res (scope_validate sc) (\<lambda>_. Inr sc))"

definition secret_id_of :: "scope \<Rightarrow> string \<Rightarrow> string" where
  "secret_id_of s name = slug s @ ''/'' @ name"

section \<open>Records\<close>

datatype config_kind = KConfig | KSecret

fun config_kind_str :: "config_kind \<Rightarrow> string" where
  "config_kind_str KConfig = ''config''"
| "config_kind_str KSecret = ''secret''"

record flags =
  fl_build :: bool
  fl_runtime :: bool

definition flags_parse :: "string \<Rightarrow> string + flags" where
  "flags_parse s =
     (if s = ''b'' then Inr \<lparr>fl_build = True, fl_runtime = False\<rparr>
      else if s = ''r'' then Inr \<lparr>fl_build = False, fl_runtime = True\<rparr>
      else if s = ''br'' then Inr \<lparr>fl_build = True, fl_runtime = True\<rparr>
      else Inl ''bad flags'')"

definition flags_code :: "flags \<Rightarrow> string" where
  "flags_code f = (if fl_build f \<and> fl_runtime f then ''br'' else if fl_build f then ''b'' else ''r'')"

definition flags_label :: "flags \<Rightarrow> string" where
  "flags_label f =
     (if fl_build f \<and> fl_runtime f then ''build+runtime'' else if fl_build f then ''build'' else ''runtime'')"

datatype cvalue = CConfig string | CSecret secret_ref

fun cvalue_kind :: "cvalue \<Rightarrow> config_kind" where
  "cvalue_kind (CConfig _) = KConfig"
| "cvalue_kind (CSecret _) = KSecret"

datatype setting = Put flags cvalue | Unset

record def_rec =
  df_scope :: scope
  df_name :: string
  df_setting :: setting
  df_at_ms :: u64

record secret_saved =
  sv_id :: string
  sv_version :: u32
  sv_at_ms :: u64

record centry =
  ce_name :: string
  ce_flags :: flags
  ce_source :: "scope option"
  ce_value :: cvalue

record snapshot =
  sn_deployment :: deployment_id
  sn_app :: application_id
  sn_project :: "string option"
  sn_environment :: "string option"
  sn_at_ms :: u64
  sn_entries :: "centry list"

datatype config_record = CDef def_rec | CSaved secret_saved | CSnap snapshot

section \<open>Validation\<close>

text \<open>The errors of the shared name and value checks keep their own type; here only that they fail counts.\<close>

definition check_cname :: "string \<Rightarrow> string + unit" where
  "check_cname name = map_err (\<lambda>_. ''the name is not valid'') (check_name name)"

definition check_cvalue :: "string \<Rightarrow> string \<Rightarrow> string + unit" where
  "check_cvalue name v = map_err (\<lambda>_. ''the value is not valid'') (check_value name v)"

definition secret_id_char :: "char \<Rightarrow> bool" where
  "secret_id_char c \<longleftrightarrow> config_token_char c \<or> c = CHR '':'' \<or> c = CHR ''@'' \<or> c = CHR ''/''"

definition check_secret_id :: "string \<Rightarrow> string + unit" where
  "check_secret_id i =
     (if i = [] \<or> 3 * max_config_token < length i \<or> \<not> list_all secret_id_char i
      then Inl ''a secret id is not valid'' else Inr ())"

section \<open>Text form\<close>

fun enc_value :: "cvalue \<Rightarrow> string" where
  "enc_value (CConfig s) = ''c:'' @ hex_text s"
| "enc_value (CSecret r) = ''s:'' @ secret_account r"

definition dec_value :: "string \<Rightarrow> string + cvalue" where
  "dec_value s =
     (case strip_prefix ''c:'' s of
        Some h \<Rightarrow> bind_res (ok_or (unhex h) ''a configuration value is not valid'') (\<lambda>v. Inr (CConfig v))
      | None \<Rightarrow>
          (case strip_prefix ''s:'' s of
             Some r \<Rightarrow>
               bind_res (secret_ref_parse r) (\<lambda>r. bind_res (check_secret_id (sr_id r)) (\<lambda>_. Inr (CSecret r)))
           | None \<Rightarrow> Inl ''a value is neither config nor secret''))"

fun setting_fields :: "setting \<Rightarrow> string list" where
  "setting_fields (Put f v) = [''set'', flags_code f, enc_value v]"
| "setting_fields Unset = [''unset'', ''-'', ''-'']"

definition source_str :: "scope option \<Rightarrow> string" where
  "source_str s = (case s of Some sc \<Rightarrow> slug sc | None \<Rightarrow> ''cli'')"

definition centry_str :: "centry \<Rightarrow> string" where
  "centry_str e = join_with ''|'' [ce_name e, flags_code (ce_flags e), source_str (ce_source e), enc_value (ce_value e)]"

definition dashed :: "string option \<Rightarrow> string" where
  "dashed v = (case v of Some s \<Rightarrow> s | None \<Rightarrow> ''-'')"

fun config_fields_of :: "config_record \<Rightarrow> string list" where
  "config_fields_of (CDef d) =
     [''cfgdef'', ''1'', slug (df_scope d), df_name d] @ setting_fields (df_setting d) @ [show_word (df_at_ms d)]"
| "config_fields_of (CSaved s) =
     [''cfgsec'', ''1'', sv_id s, show_word (sv_version s), show_word (sv_at_ms s)]"
| "config_fields_of (CSnap s) =
     [''cfgsnap'', ''1'', dep_str (sn_deployment s), app_str (sn_app s), dashed (sn_project s),
      dashed (sn_environment s), show_word (sn_at_ms s),
      if sn_entries s = [] then ''-'' else join_with '','' (map centry_str (sn_entries s))]"

definition config_encode :: "config_record \<Rightarrow> string" where
  "config_encode r = frame (join_with [TAB] (config_fields_of r))"

definition cf_num :: "string \<Rightarrow> string \<Rightarrow> string + u64" where
  "cf_num what s = ok_or (parse_word s) (''bad '' @ what)"

definition checked_value :: "string \<Rightarrow> string \<Rightarrow> string + cvalue" where
  "checked_value name s =
     bind_res (dec_value s) (\<lambda>v.
     bind_res (case v of CConfig t \<Rightarrow> check_cvalue name t | CSecret _ \<Rightarrow> Inr ()) (\<lambda>_. Inr v))"

definition decode_def :: "string list \<Rightarrow> string + config_record" where
  "decode_def f =
     (if length f \<noteq> 8 then Inl ''a definition has the wrong number of fields''
      else
        bind_res (scope_parse (f ! 2)) (\<lambda>sc.
        bind_res (check_cname (f ! 3)) (\<lambda>_.
        bind_res
          (if f ! 4 = ''unset''
           then if f ! 5 \<noteq> ''-'' \<or> f ! 6 \<noteq> ''-'' then Inl ''an unset carries no flags or value'' else Inr Unset
           else if f ! 4 = ''set''
           then bind_res (checked_value (f ! 3) (f ! 6)) (\<lambda>v. bind_res (flags_parse (f ! 5)) (\<lambda>fl. Inr (Put fl v)))
           else Inl ''a definition is neither set nor unset'') (\<lambda>st.
        bind_res (cf_num ''time'' (f ! 7)) (\<lambda>t.
        Inr (CDef \<lparr>df_scope = sc, df_name = f ! 3, df_setting = st, df_at_ms = t\<rparr>))))))"

definition decode_saved :: "string list \<Rightarrow> string + config_record" where
  "decode_saved f =
     (if length f \<noteq> 5 then Inl ''a secret record has the wrong number of fields''
      else
        bind_res (check_secret_id (f ! 2)) (\<lambda>_.
        bind_res (ok_or (parse_word (f ! 3)) ''bad secret version'') (\<lambda>v.
        bind_res (cf_num ''time'' (f ! 4)) (\<lambda>t.
        Inr (CSaved \<lparr>sv_id = f ! 2, sv_version = v, sv_at_ms = t\<rparr>)))))"

definition undash :: "string \<Rightarrow> string option" where
  "undash s = (if s \<noteq> ''-'' then Some s else None)"

definition decode_centry :: "string \<Rightarrow> string + centry" where
  "decode_centry item =
     (let p = split_on (CHR ''|'') item
      in if length p \<noteq> 4 then Inl ''a snapshot entry is malformed''
         else
           bind_res (check_cname (p ! 0)) (\<lambda>_.
           bind_res (checked_value (p ! 0) (p ! 3)) (\<lambda>v.
           bind_res (flags_parse (p ! 1)) (\<lambda>fl.
           bind_res (if p ! 2 = ''cli'' then Inr None else bind_res (scope_parse (p ! 2)) (\<lambda>sc. Inr (Some sc))) (\<lambda>src.
           Inr \<lparr>ce_name = p ! 0, ce_flags = fl, ce_source = src, ce_value = v\<rparr>)))))"

fun decode_centries :: "string list \<Rightarrow> string + centry list" where
  "decode_centries [] = Inr []"
| "decode_centries (i # is) =
     bind_res (decode_centry i) (\<lambda>e. bind_res (decode_centries is) (\<lambda>es. Inr (e # es)))"

definition decode_snap :: "string list \<Rightarrow> string + config_record" where
  "decode_snap f =
     (if length f \<noteq> 8 then Inl ''a snapshot has the wrong number of fields''
      else
        bind_res (if f ! 7 = ''-'' then Inr [] else decode_centries (split_on (CHR '','') (f ! 7))) (\<lambda>es.
        bind_res (map_err (\<lambda>_. ''bad deployment id'') (dep_from_str (f ! 2))) (\<lambda>d.
        bind_res (map_err (\<lambda>_. ''bad application id'') (app_from_str (f ! 3))) (\<lambda>a.
        bind_res (cf_num ''time'' (f ! 6)) (\<lambda>t.
        Inr (CSnap \<lparr>sn_deployment = d, sn_app = a, sn_project = undash (f ! 4), sn_environment = undash (f ! 5),
                    sn_at_ms = t, sn_entries = es\<rparr>))))))"

definition config_decode :: "string list \<Rightarrow> string + config_record" where
  "config_decode f =
     (if length f < 2 \<or> f ! 1 \<noteq> ''1'' then Inl ''unknown configuration record version''
      else if f ! 0 = ''cfgdef'' then decode_def f
      else if f ! 0 = ''cfgsec'' then decode_saved f
      else if f ! 0 = ''cfgsnap'' then decode_snap f
      else Inl ''not a configuration record'')"

end
