(* ===== verification/ConfigState.thy ===== *)
theory ConfigState
  imports Config DeployState
begin

text \<open>
  The state that configuration records rebuild, the resolution of the effective configuration and what
  the build and the container get of it (\<open>deploy/src/config.rs\<close>, from \<open>ConfigState\<close> on).
\<close>

section \<open>State\<close>

record config_state =
  cfg_defs :: "def_rec list"
  cfg_versions :: "(string \<times> u32) list"
  cfg_snapshots :: "snapshot list"

definition config_empty :: config_state where
  "config_empty = \<lparr>cfg_defs = [], cfg_versions = [], cfg_snapshots = []\<rparr>"

definition check_saved :: "config_state \<Rightarrow> secret_ref \<Rightarrow> string + unit" where
  "check_saved s r =
     (case bt_get (cfg_versions s) (sr_id r) of
        Some v \<Rightarrow> if sr_version r \<le> v then Inr ()
          else Inl (''a record names secret '' @ secret_account r @ '', which was never saved'')
      | None \<Rightarrow> Inl (''a record names secret '' @ secret_account r @ '', which was never saved''))"

definition saved_version :: "config_state \<Rightarrow> string \<Rightarrow> u32" where
  "saved_version s i = (case bt_get (cfg_versions s) i of Some v \<Rightarrow> v | None \<Rightarrow> 0)"

fun check_entries :: "config_state \<Rightarrow> string set \<Rightarrow> centry list \<Rightarrow> string + unit" where
  "check_entries s seen [] = Inr ()"
| "check_entries s seen (e # es) =
     (if ce_name e \<in> seen then Inl (''snapshot repeats '' @ ce_name e)
      else
        bind_res (case ce_value e of CSecret r \<Rightarrow> check_saved s r | CConfig _ \<Rightarrow> Inr ()) (\<lambda>_.
        check_entries s (insert (ce_name e) seen) es))"

fun config_apply :: "config_record \<Rightarrow> config_state \<Rightarrow> string + config_state" where
  "config_apply (CSaved x) s =
     (if sv_version x \<le> saved_version s (sv_id x)
      then Inl (''secret '' @ sv_id x @ '' version '' @ show_word (sv_version x) @ '' does not follow version ''
             @ show_word (saved_version s (sv_id x)))
      else Inr (s\<lparr>cfg_versions := bt_insert (sv_id x) (sv_version x) (cfg_versions s)\<rparr>))"
| "config_apply (CDef d) s =
     bind_res (case df_setting d of Put fl (CSecret r) \<Rightarrow> check_saved s r | _ \<Rightarrow> Inr ()) (\<lambda>_.
     Inr (s\<lparr>cfg_defs := cfg_defs s @ [d]\<rparr>))"
| "config_apply (CSnap x) s =
     (if \<exists>y \<in> set (cfg_snapshots s). sn_deployment y = sn_deployment x
      then Inl (''a configuration snapshot for deployment '' @ dep_str (sn_deployment x) @ '' is recorded twice'')
      else bind_res (check_entries s {} (sn_entries x)) (\<lambda>_. Inr (s\<lparr>cfg_snapshots := cfg_snapshots s @ [x]\<rparr>)))"

fun config_replay :: "config_record list \<Rightarrow> config_state \<Rightarrow> string + config_state" where
  "config_replay [] s = Inr s"
| "config_replay (r # rs) s = bind_res (config_apply r s) (config_replay rs)"

text \<open>The addition of the code overflows at the greatest version: a panic, \<open>None\<close> here.\<close>

definition next_version :: "config_state \<Rightarrow> string \<Rightarrow> u32 option" where
  "next_version s i = (if saved_version s i = - 1 then None else Some (saved_version s i + 1))"

definition current_defs :: "config_state \<Rightarrow> ((scope \<times> string) \<times> def_rec) list" where
  "current_defs s = fold (\<lambda>d m. bt_insert (df_scope d, df_name d) d m) (cfg_defs s) []"

definition snapshot_of :: "config_state \<Rightarrow> deployment_id \<Rightarrow> snapshot option" where
  "snapshot_of s d = List.find (\<lambda>x. sn_deployment x = d) (cfg_snapshots s)"

section \<open>Resolution\<close>

definition opt_scope :: "(string option \<Rightarrow> scope) \<Rightarrow> string option \<Rightarrow> scope list" where
  "opt_scope f env = f None # (case env of None \<Rightarrow> [] | Some e \<Rightarrow> [f (Some e)])"

definition scope_order :: "string option \<Rightarrow> application_id \<Rightarrow> string option \<Rightarrow> scope list" where
  "scope_order project app env =
     opt_scope scope_global env
     @ (case project of None \<Rightarrow> [] | Some p \<Rightarrow> opt_scope (scope_project p) env)
     @ opt_scope (scope_application app) env"

definition centry_of :: "scope \<Rightarrow> string \<Rightarrow> flags \<Rightarrow> cvalue \<Rightarrow> centry" where
  "centry_of sc name fl v = \<lparr>ce_name = name, ce_flags = fl, ce_source = Some sc, ce_value = v\<rparr>"

fun overlay_def ::
  "scope \<Rightarrow> (scope \<times> string) \<times> def_rec \<Rightarrow> (string \<times> centry) list \<Rightarrow> (string \<times> centry) list" where
  "overlay_def sc ((s, name), d) out =
     (if s \<noteq> sc then out
      else case df_setting d of
          Unset \<Rightarrow> bt_remove name out
        | Put fl v \<Rightarrow> bt_insert name (centry_of sc name fl v) out)"

definition overlay_scope ::
  "((scope \<times> string) \<times> def_rec) list \<Rightarrow> scope \<Rightarrow> (string \<times> centry) list \<Rightarrow> (string \<times> centry) list" where
  "overlay_scope cur sc out = fold (overlay_def sc) cur out"

fun entry_totals :: "centry list \<Rightarrow> nat \<Rightarrow> nat \<Rightarrow> string + nat \<times> nat" where
  "entry_totals [] bytes secrets = Inr (bytes, secrets)"
| "entry_totals (e # es) bytes secrets =
     bind_res (check_cname (ce_name e)) (\<lambda>_.
       case ce_value e of
         CConfig v \<Rightarrow>
           bind_res (check_cvalue (ce_name e) v) (\<lambda>_.
           entry_totals es (bytes + length (ce_name e) + length v + 1) secrets)
       | CSecret _ \<Rightarrow> entry_totals es bytes (secrets + 1))"

definition validate_entries :: "centry list \<Rightarrow> string + unit" where
  "validate_entries es =
     (if max_entries < length es
      then Inl (show_nat (length es) @ '' variables resolved; at most 256 are accepted'')
      else
        bind_res (entry_totals es 0 0) (\<lambda>(bytes, secrets).
        if max_config_bytes < bytes
        then Inl (''the configuration values total '' @ show_nat bytes @ '' bytes; at most 65536 are accepted'')
        else if max_secret_entries < secrets
        then Inl (show_nat secrets @ '' secrets resolved; at most 64 are accepted'')
        else Inr ()))"

definition resolved :: "config_state \<Rightarrow> string option \<Rightarrow> application_id \<Rightarrow> string option \<Rightarrow> (string \<times> centry) list" where
  "resolved s project app env = fold (overlay_scope (current_defs s)) (scope_order project app env) []"

definition resolve ::
  "config_state \<Rightarrow> string option \<Rightarrow> application_id \<Rightarrow> string option \<Rightarrow> string + centry list" where
  "resolve s project app env =
     (let es = bt_values (resolved s project app env)
      in bind_res (validate_entries es) (\<lambda>_. Inr es))"

section \<open>Pins\<close>

fun check_pinned_secrets :: "config_state \<Rightarrow> deployment_id \<Rightarrow> (string \<times> secret_ref) list \<Rightarrow> string + unit" where
  "check_pinned_secrets s d [] = Inr ()"
| "check_pinned_secrets s d ((n, r) # rs) =
     bind_res (map_err (\<lambda>e. ''deployment '' @ dep_str d @ '': '' @ e) (check_saved s r)) (\<lambda>_.
     check_pinned_secrets s d rs)"

definition check_pin :: "config_state \<Rightarrow> deployment \<Rightarrow> string + unit" where
  "check_pin s d =
     (case d_pinned d of
        None \<Rightarrow> Inr ()
      | Some p \<Rightarrow>
          bind_res
            (case rc_snapshot p of
               None \<Rightarrow> Inr ()
             | Some origin \<Rightarrow>
                 bind_res (map_err (\<lambda>_. ''deployment '' @ dep_str (d_id d)
                     @ '' pins a malformed configuration snapshot id'') (dep_from_str origin)) (\<lambda>i.
                 if snapshot_of s i = None
                 then Inl (''deployment '' @ dep_str (d_id d) @ '' pins snapshot '' @ origin @ '', which is not recorded'')
                 else Inr ()))
            (\<lambda>_. check_pinned_secrets s (d_id d) (rc_secrets p)))"

fun check_pins :: "config_state \<Rightarrow> deployment list \<Rightarrow> string + unit" where
  "check_pins s [] = Inr ()"
| "check_pins s (d # ds) = bind_res (check_pin s d) (\<lambda>_. check_pins s ds)"

section \<open>What the build and the container get\<close>

definition with_command :: "centry list \<Rightarrow> (string \<times> string) list \<Rightarrow> flags \<Rightarrow> centry list" where
  "with_command es pairs fl =
     sort_key ce_name
       (fold (\<lambda>(k, v) es. filter (\<lambda>e. ce_name e \<noteq> k) es @
          [\<lparr>ce_name = k, ce_flags = fl, ce_source = None, ce_value = CConfig v\<rparr>]) pairs es)"

fun config_part :: "centry \<Rightarrow> (string \<times> string) option" where
  "config_part e = (case ce_value e of CConfig v \<Rightarrow> Some (ce_name e, v) | CSecret _ \<Rightarrow> None)"

fun secret_part :: "centry \<Rightarrow> (string \<times> secret_ref) option" where
  "secret_part e = (case ce_value e of CSecret r \<Rightarrow> Some (ce_name e, r) | CConfig _ \<Rightarrow> None)"

definition pick_config :: "centry list \<Rightarrow> (flags \<Rightarrow> bool) \<Rightarrow> (string \<times> string) list" where
  "pick_config es keep = List.map_filter config_part (filter (\<lambda>e. keep (ce_flags e)) es)"

definition pick_secret :: "centry list \<Rightarrow> (flags \<Rightarrow> bool) \<Rightarrow> (string \<times> secret_ref) list" where
  "pick_secret es keep = List.map_filter secret_part (filter (\<lambda>e. keep (ce_flags e)) es)"

definition build_args :: "centry list \<Rightarrow> (string \<times> string) list" where
  "build_args es = pick_config es fl_build"

definition runtime_env :: "centry list \<Rightarrow> (string \<times> string) list" where
  "runtime_env es = pick_config es fl_runtime"

definition build_secrets :: "centry list \<Rightarrow> (string \<times> secret_ref) list" where
  "build_secrets es = pick_secret es fl_build"

definition runtime_secrets :: "centry list \<Rightarrow> (string \<times> secret_ref) list" where
  "runtime_secrets es = pick_secret es fl_runtime"

section \<open>Differences without values\<close>

definition source_text :: "scope option \<Rightarrow> string" where
  "source_text s = (case s of Some sc \<Rightarrow> slug sc | None \<Rightarrow> ''command line'')"

text \<open>\<open>describe\<close> as the differences use it, without the configuration values.\<close>

definition describe_entry :: "centry \<Rightarrow> string" where
  "describe_entry e =
     ce_name e @ '' ['' @ flags_label (ce_flags e) @ ''] ''
     @ (case ce_value e of CConfig _ \<Rightarrow> ''config'' | CSecret r \<Rightarrow> ''secret '' @ secret_account r)
     @ '' (from '' @ source_text (ce_source e) @ '')''"

definition find_entry :: "centry list \<Rightarrow> string \<Rightarrow> centry option" where
  "find_entry es n = List.find (\<lambda>e. ce_name e = n) es"

definition value_change :: "cvalue \<Rightarrow> cvalue \<Rightarrow> string list" where
  "value_change a b =
     (case (a, b) of
        (CSecret x, CSecret y) \<Rightarrow>
          if x = y then []
          else if sr_id x = sr_id y
          then [''secret version '' @ show_word (sr_version x) @ '' -> '' @ show_word (sr_version y)]
          else [''secret '' @ secret_account x @ '' -> '' @ secret_account y]
      | (CConfig x, CConfig y) \<Rightarrow> if x = y then [] else [''value changed'']
      | _ \<Rightarrow> [])"

definition entry_change :: "centry \<Rightarrow> centry \<Rightarrow> string list" where
  "entry_change a b =
     (if cvalue_kind (ce_value a) \<noteq> cvalue_kind (ce_value b)
      then [''type '' @ config_kind_str (cvalue_kind (ce_value a)) @ '' -> '' @ config_kind_str (cvalue_kind (ce_value b))]
      else [])
     @ value_change (ce_value a) (ce_value b)
     @ (if ce_flags a \<noteq> ce_flags b
        then [''flags '' @ flags_label (ce_flags a) @ '' -> '' @ flags_label (ce_flags b)] else [])
     @ (if ce_source a \<noteq> ce_source b
        then [''scope '' @ source_text (ce_source a) @ '' -> '' @ source_text (ce_source b)] else [])"

definition diff_name :: "centry list \<Rightarrow> centry list \<Rightarrow> string \<Rightarrow> string option" where
  "diff_name old new n =
     (case (find_entry old n, find_entry new n) of
        (None, Some b) \<Rightarrow> Some (''+ '' @ describe_entry b)
      | (Some a, None) \<Rightarrow> Some (''- '' @ describe_entry a)
      | (Some a, Some b) \<Rightarrow>
          if a \<noteq> b then Some (''~ '' @ n @ '': '' @ join_with ''; '' (entry_change a b)) else None
      | (None, None) \<Rightarrow> None)"

definition config_diff :: "centry list \<Rightarrow> centry list \<Rightarrow> string list" where
  "config_diff old new =
     List.map_filter (diff_name old new) (remdups_adj (sort (map ce_name (old @ new))))"

end
