(* ===== verification/ConfigCodec.thy ===== *)
theory ConfigCodec
  imports ConfigState
begin

text \<open>
  The text form of configuration records (\<open>config.rs\<close>, \<open>encode\<close> and \<open>decode\<close>): scopes, values, entries and
  records decode to themselves; and the two inputs that the checks before writing accept and the reading
  does not give back.
\<close>

section \<open>Characters that separate nothing\<close>

definition plain :: "string \<Rightarrow> bool" where
  "plain s \<longleftrightarrow> (\<forall>c \<in> set s. c \<notin> {CHR '','', CHR ''|'', TAB, NL})"

lemma plain_simps [simp]:
  "plain []" "plain (c # s) \<longleftrightarrow> c \<notin> {CHR '','', CHR ''|'', TAB, NL} \<and> plain s" "plain (a @ b) \<longleftrightarrow> plain a \<and> plain b"
  by (auto simp: plain_def)

lemma plain_free:
  assumes "plain s"
  shows "CHR '','' \<notin> set s" "CHR ''|'' \<notin> set s" "TAB \<notin> set s" "NL \<notin> set s"
  using assms unfolding plain_def by blast+

lemma plain_range: "(\<And>c. c \<in> set s \<Longrightarrow> between 45 c 122 \<or> between 47 c 64) \<Longrightarrow> plain s"
  by (force simp: plain_def between_def byte_def)

lemma plain_field: "plain s \<Longrightarrow> field_clean s"
  by (auto simp: plain_def field_clean_def)

definition token_okc :: "string \<Rightarrow> bool" where
  "token_okc v \<longleftrightarrow> v \<noteq> [] \<and> length v \<le> max_config_token \<and> list_all config_token_char v"

lemma config_token_iff: "config_token what v = Inr () \<longleftrightarrow> token_okc v"
  by (auto simp: config_token_def token_okc_def not_less)

lemma token_char_facts: "config_token_char c \<Longrightarrow> between 45 c 122 \<and> c \<noteq> CHR ''@'' \<and> c \<noteq> CHR '':''"
  by (auto simp: config_token_char_def ascii_alphabetic_def ascii_digit_def between_def byte_def)

lemma token_facts: "token_okc v \<Longrightarrow> plain v \<and> CHR ''@'' \<notin> set v \<and> v \<noteq> []"
  by (auto simp: token_okc_def list_all_iff dest: token_char_facts intro!: plain_range)

lemma plain_atoms: "plain (show_word n)" "plain (dep_str d)" "plain (app_str a)" "plain (hex_text t)"
  using hex_text_clean [of t]
  by (auto intro!: plain_range dest!: show_word_no_special id_chars simp: hex_clean_def alphabet_def between_def byte_def)

lemma app_str_facts: "CHR ''@'' \<notin> set (app_str a)"
  using id_chars(2) [of "CHR ''@''" a] by (auto simp: alphabet_def)

lemma env_name_plain: "env_name_ok n \<Longrightarrow> plain n"
  by (rule plain_range)
    (auto simp: env_name_ok_def list_all_iff name_char_def ascii_alphabetic_def ascii_digit_def between_def byte_def)

section \<open>Scopes\<close>

definition scope_ok :: "scope \<Rightarrow> bool" where
  "scope_ok s \<longleftrightarrow>
     (case sc_level s of
        Global \<Rightarrow> sc_id s = [] | Project \<Rightarrow> token_okc (sc_id s) | Application \<Rightarrow> (\<exists>a. sc_id s = app_str a)) \<and>
     (case sc_env s of None \<Rightarrow> True | Some e \<Rightarrow> token_okc e)"

lemma scope_validate_ok: "scope_ok s \<Longrightarrow> scope_validate s = Inr ()"
proof -
  assume s: "scope_ok s"
  have "(case sc_env s of None \<Rightarrow> Inr () | Some e \<Rightarrow> config_token ''an environment name'' e) = Inr ()"
    using s by (auto simp: scope_ok_def config_token_iff split: option.splits)
  then show ?thesis
    using s by (cases "sc_level s") (auto simp: scope_ok_def scope_validate_def bind_res_Inr_iff config_token_iff)
qed

lemma base_facts: "scope_ok s \<Longrightarrow> plain (scope_base s) \<and> CHR ''@'' \<notin> set (scope_base s)"
  using app_str_facts by (auto simp: scope_ok_def scope_base_def plain_atoms dest: token_facts split: level.splits)

lemma slug_plain: "scope_ok s \<Longrightarrow> plain (slug s)"
  using base_facts [of s] by (auto simp: slug_def scope_ok_def dest: token_facts split: option.splits)

lemma slug_not_cli: "slug s \<noteq> ''cli''"
  by (auto simp: slug_def scope_base_def split: level.splits option.splits)

lemma scope_roundtrip:
  assumes "scope_ok s"
  shows "scope_parse (slug s) = Inr s"
proof -
  have split: "(case split_once (CHR ''@'') (slug s) of Some (b, e) \<Rightarrow> (b, Some e) | None \<Rightarrow> (slug s, None)) =
      (scope_base s, sc_env s)"
  proof (cases "sc_env s")
    case None
    have "split_once (CHR ''@'') b = None" if "CHR ''@'' \<notin> set b" for b
      using that by (induction b) auto
    then show ?thesis using None base_facts [OF assms] by (simp add: slug_def)
  next
    case (Some e)
    then show ?thesis
      using base_facts [OF assms] split_once_append [of "CHR ''@''" "scope_base s" e] by (simp add: slug_def)
  qed
  have "(if scope_base s = ''global'' then Some (Scope Global [] (sc_env s))
      else case strip_prefix ''project:'' (scope_base s) of
          Some n \<Rightarrow> Some (Scope Project n (sc_env s))
        | None \<Rightarrow> map_option (\<lambda>a. Scope Application a (sc_env s)) (strip_prefix ''app:'' (scope_base s))) = Some s"
    using assms
    by (cases s; cases "sc_level s")
      (auto simp: scope_ok_def scope_base_def)
  with scope_validate_ok [OF assms] split show ?thesis by (simp add: scope_parse_def Let_def)
qed

section \<open>Values\<close>

definition flags_ok :: "flags \<Rightarrow> bool" where
  "flags_ok f \<longleftrightarrow> fl_build f \<or> fl_runtime f"

definition secret_id_ok :: "string \<Rightarrow> bool" where
  "secret_id_ok i \<longleftrightarrow> i \<noteq> [] \<and> length i \<le> 3 * max_config_token \<and> list_all secret_id_char i"

fun cvalue_ok :: "cvalue \<Rightarrow> bool" where
  "cvalue_ok (CConfig t) \<longleftrightarrow> env_value_ok t \<and> utf8_valid t"
| "cvalue_ok (CSecret r) \<longleftrightarrow> secret_id_ok (sr_id r) \<and> sr_version r \<noteq> 0"

lemma check_secret_id_iff: "check_secret_id i = Inr () \<longleftrightarrow> secret_id_ok i"
  by (auto simp: check_secret_id_def secret_id_ok_def not_less)

lemma check_cname_iff: "check_cname n = Inr () \<longleftrightarrow> env_name_ok n"
  by (simp add: check_cname_def check_name_iff)

lemma check_cvalue_iff: "check_cvalue n v = Inr () \<longleftrightarrow> env_value_ok v"
  by (simp add: check_cvalue_def check_value_iff)

lemma flags_roundtrip: "flags_ok f \<Longrightarrow> flags_parse (flags_code f) = Inr f"
  by (cases f) (auto simp: flags_ok_def flags_parse_def flags_code_def)

lemma flags_plain: "plain (flags_code f)"
  by (simp add: flags_code_def)

lemma secret_char_facts: "secret_id_char c \<Longrightarrow> between 45 c 122"
proof -
  assume "secret_id_char c"
  then consider "config_token_char c" | "c = CHR '':''" | "c = CHR ''@''" | "c = CHR ''/''"
    by (auto simp: secret_id_char_def)
  then show ?thesis by cases (auto dest: token_char_facts, simp_all add: between_def byte_def)
qed

lemma secret_id_plain: "secret_id_ok i \<Longrightarrow> plain i"
  by (rule plain_range) (simp add: secret_id_ok_def list_all_iff secret_char_facts)

lemma value_plain: "cvalue_ok v \<Longrightarrow> plain (enc_value v)"
  by (cases v) (simp_all add: plain_atoms secret_account_def secret_id_plain)

lemma value_roundtrip: "cvalue_ok v \<Longrightarrow> checked_value n (enc_value v) = Inr v"
proof (cases v)
  case (CConfig t)
  then show "cvalue_ok v \<Longrightarrow> checked_value n (enc_value v) = Inr v"
    by (simp add: checked_value_def dec_value_def check_cvalue_iff bind_res_Inr_iff)
next
  case (CSecret r)
  then show "cvalue_ok v \<Longrightarrow> checked_value n (enc_value v) = Inr v"
    using secret_ref_parse_account [of r]
    by (auto simp: checked_value_def dec_value_def check_secret_id_iff bind_res_Inr_iff secret_id_ok_def)
qed

section \<open>Entries and records\<close>

definition centry_ok :: "centry \<Rightarrow> bool" where
  "centry_ok e \<longleftrightarrow> env_name_ok (ce_name e) \<and> flags_ok (ce_flags e) \<and> cvalue_ok (ce_value e) \<and>
     (case ce_source e of None \<Rightarrow> True | Some sc \<Rightarrow> scope_ok sc)"

text \<open>A project or environment name that reads back: any accepted name but \<open>-\<close>.\<close>

definition optional_ok :: "string option \<Rightarrow> bool" where
  "optional_ok v \<longleftrightarrow> (case v of None \<Rightarrow> True | Some s \<Rightarrow> token_okc s \<and> s \<noteq> ''-'')"

fun setting_ok :: "setting \<Rightarrow> bool" where
  "setting_ok (Put f v) \<longleftrightarrow> flags_ok f \<and> cvalue_ok v"
| "setting_ok Unset \<longleftrightarrow> True"

fun config_record_ok :: "config_record \<Rightarrow> bool" where
  "config_record_ok (CDef d) \<longleftrightarrow> scope_ok (df_scope d) \<and> env_name_ok (df_name d) \<and> setting_ok (df_setting d)"
| "config_record_ok (CSaved s) \<longleftrightarrow> secret_id_ok (sv_id s)"
| "config_record_ok (CSnap s) \<longleftrightarrow>
     optional_ok (sn_project s) \<and> optional_ok (sn_environment s) \<and> list_all centry_ok (sn_entries s)"

lemma source_plain: "centry_ok e \<Longrightarrow> plain (source_str (ce_source e))"
  by (auto simp: centry_ok_def source_str_def slug_plain split: option.splits)

lemma centry_roundtrip:
  assumes "centry_ok e"
  shows "decode_centry (centry_str e) = Inr e"
proof -
  have "plain (ce_name e)" "plain (flags_code (ce_flags e))" "plain (enc_value (ce_value e))"
    using assms by (simp_all add: centry_ok_def env_name_plain flags_plain value_plain)
  then have split: "split_on (CHR ''|'') (centry_str e) =
      [ce_name e, flags_code (ce_flags e), source_str (ce_source e), enc_value (ce_value e)]"
    using source_plain [OF assms] unfolding centry_str_def by (intro split_on_join) (simp_all add: plain_free)
  have src: "(if source_str (ce_source e) = ''cli'' then Inr None
      else bind_res (scope_parse (source_str (ce_source e))) (\<lambda>sc. Inr (Some sc))) = Inr (ce_source e)"
    using assms slug_not_cli by (cases "ce_source e") (simp_all add: centry_ok_def scope_roundtrip source_str_def)
  have "check_cname (ce_name e) = Inr ()" "checked_value (ce_name e) (enc_value (ce_value e)) = Inr (ce_value e)"
      "flags_parse (flags_code (ce_flags e)) = Inr (ce_flags e)"
    using assms by (simp_all add: centry_ok_def check_cname_iff value_roundtrip flags_roundtrip)
  with src show ?thesis by (simp add: decode_centry_def split split: if_splits)
qed

lemma centry_chars:
  assumes "centry_ok e"
  shows "CHR '','' \<notin> set (centry_str e) \<and> field_clean (centry_str e) \<and> centry_str e \<noteq> ''-''"
proof -
  have parts: "plain (ce_name e)" "plain (flags_code (ce_flags e))" "plain (enc_value (ce_value e))"
      "plain (source_str (ce_source e))"
    using assms source_plain [OF assms] by (simp_all add: centry_ok_def env_name_plain flags_plain value_plain)
  define fs where "fs = [ce_name e, flags_code (ce_flags e), source_str (ce_source e), enc_value (ce_value e)]"
  have fs: "\<forall>f \<in> set fs. plain f" using parts by (simp add: fs_def)
  have "c = CHR ''|'' \<or> c \<notin> {CHR '','', TAB, NL}" if "c \<in> set (centry_str e)" for c
  proof -
    have "c \<in> set (join_with ''|'' fs)" using that by (simp only: centry_str_def fs_def)
    from set_join [OF this] consider "c = CHR ''|''" | f where "f \<in> set fs" "c \<in> set f" by auto
    then show ?thesis using fs unfolding plain_def by cases blast+
  qed
  then have "CHR '','' \<notin> set (centry_str e) \<and> field_clean (centry_str e)" unfolding field_clean_def by blast
  moreover have "CHR ''|'' \<in> set (centry_str e)" by (simp add: centry_str_def)
  then have "centry_str e \<noteq> ''-''" by auto
  ultimately show ?thesis by blast
qed

lemma centries_roundtrip: "list_all centry_ok es \<Longrightarrow> decode_centries (map centry_str es) = Inr es"
  by (induction es) (simp_all add: centry_roundtrip)

lemma entries_roundtrip:
  assumes "list_all centry_ok es" and "es \<noteq> []"
  shows "join_with '','' (map centry_str es) \<noteq> ''-'' \<and>
    decode_centries (split_on (CHR '','') (join_with '','' (map centry_str es))) = Inr es"
proof -
  have "split_on (CHR '','') (join_with '','' (map centry_str es)) = map centry_str es"
    using assms centry_chars by (intro split_on_join) (auto simp: list_all_iff)
  note split = this
  have "join_with '','' (map centry_str es) \<noteq> ''-''"
  proof
    assume "join_with '','' (map centry_str es) = ''-''"
    with split have "map centry_str es = [''-'']" by simp
    then have "\<exists>e \<in> set es. centry_str e = ''-''" by auto
    with assms(1) centry_chars show False by (auto simp: list_all_iff)
  qed
  with split centries_roundtrip [OF assms(1)] show ?thesis by simp
qed

lemma dashed_roundtrip: "optional_ok v \<Longrightarrow> undash (dashed v) = v"
  by (auto simp: optional_ok_def undash_def dashed_def split: option.splits)

lemma dashed_clean: "optional_ok v \<Longrightarrow> field_clean (dashed v)"
  using token_facts plain_field by (cases v) (auto simp: optional_ok_def dashed_def field_clean_def)

lemma config_fields_decode: "config_record_ok r \<Longrightarrow> config_decode (config_fields_of r) = Inr r"
proof (cases r)
  case (CDef d)
  then show "config_record_ok r \<Longrightarrow> config_decode (config_fields_of r) = Inr r"
    by (cases "df_setting d")
      (simp_all add: config_decode_def decode_def_def scope_roundtrip check_cname_iff bind_res_Inr_iff value_roundtrip
        flags_roundtrip cf_num_def)
next
  case (CSaved x)
  then show "config_record_ok r \<Longrightarrow> config_decode (config_fields_of r) = Inr r"
    by (simp add: config_decode_def decode_saved_def check_secret_id_iff bind_res_Inr_iff cf_num_def)
next
  case (CSnap x)
  then show "config_record_ok r \<Longrightarrow> config_decode (config_fields_of r) = Inr r"
    using entries_roundtrip [of "sn_entries x"]
    by (auto simp: config_decode_def decode_snap_def bind_res_Inr_iff cf_num_def dashed_roundtrip)
qed

lemma config_line_clean: "config_record_ok r \<Longrightarrow> list_all field_clean (config_fields_of r)"
proof -
  assume ok: "config_record_ok r"
  have literals: "field_clean ''cfgdef''" "field_clean ''cfgsec''" "field_clean ''cfgsnap''" "field_clean ''1''"
      "field_clean ''-''" "field_clean ''set''" "field_clean ''unset''"
    by (simp_all add: field_clean_def)
  note atoms = literals plain_atoms [THEN plain_field] flags_plain [THEN plain_field]
  show ?thesis
  proof (cases r)
    case (CDef d)
    then show ?thesis
      using ok by (cases "df_setting d") (simp_all add: atoms slug_plain [THEN plain_field] env_name_plain [THEN plain_field]
          value_plain [THEN plain_field])
  next
    case (CSaved x)
    then show ?thesis using ok by (simp add: atoms secret_id_plain [THEN plain_field])
  next
    case (CSnap x)
    then have es: "list_all centry_ok (sn_entries x)" using ok by simp
    have "field_clean (join_with '','' (map centry_str (sn_entries x)))"
      unfolding field_clean_def
    proof (intro conjI notI)
      assume "TAB \<in> set (join_with '','' (map centry_str (sn_entries x)))"
      with es centry_chars show False by (auto dest!: set_join simp: list_all_iff field_clean_def)
    next
      assume "NL \<in> set (join_with '','' (map centry_str (sn_entries x)))"
      with es centry_chars show False by (auto dest!: set_join simp: list_all_iff field_clean_def)
    qed
    then show ?thesis using ok CSnap by (simp add: atoms dashed_clean)
  qed
qed

interpretation cfl: line_codec config_fields_of config_decode config_record_ok
  by unfold_locales (simp_all add: config_fields_decode config_line_clean, case_tac r, simp_all)

text \<open>
  A configuration record whose parts pass the checks of the crate survives its journal
  line, whatever the configuration values hold: definitions, saved versions and whole snapshots.
\<close>

theorem config_line_roundtrip:
  assumes "config_record_ok r"
  shows "decode_framed config_decode (config_encode r) = Inr r \<and> NL \<notin> set (config_encode r)"
  using cfl.line_decodes [OF assms] cfl.one_line [OF assms] by (simp add: config_encode_def)

definition example_def :: config_record where
  "example_def = CDef \<lparr>df_scope = Scope Project ''web'' (Some ''prod''), df_name = ''PORT'',
     df_setting = Put \<lparr>fl_build = False, fl_runtime = True\<rparr> (CConfig ''80,81|x''), df_at_ms = 3\<rparr>"

theorem config_line_roundtrip_witness:
  "decode_framed config_decode (config_encode example_def) = Inr example_def"
proof -
  have "config_record_ok example_def"
    by (simp add: example_def_def scope_ok_def token_okc_def max_config_token_def config_token_char_def
        ascii_alphabetic_def ascii_digit_def between_def byte_def env_name_ok_def max_name_bytes_def name_char_def
        reserved_prefix_def starts_with_def flags_ok_def env_value_ok_def max_value_bytes_def utf8_ascii)
  from config_line_roundtrip [OF this] show ?thesis by blast
qed

section \<open>Accepted inputs that do not read back\<close>

text \<open>The names below are accepted: 128 bytes each, of accepted characters.\<close>

definition long_name :: string where "long_name = replicate 128 (CHR ''A'')"

definition long_scope :: scope where "long_scope = Scope Project long_name (Some long_name)"

text \<open>
  A secret can be saved under names that are each accepted, and its record is accepted into
  the state, but the id made of them is longer than the ids that reading accepts: the line that was
  written cannot be read back.
\<close>

theorem long_secret_id_does_not_read_back:
  "scope_validate long_scope = Inr () \<and> check_cname long_name = Inr () \<and>
   (let r = CSaved \<lparr>sv_id = secret_id_of long_scope long_name, sv_version = 1, sv_at_ms = 0\<rparr>
    in config_apply r config_empty = Inr (config_empty\<lparr>cfg_versions := [(secret_id_of long_scope long_name, 1)]\<rparr>) \<and>
       config_decode (config_fields_of r) = Inl ''a secret id is not valid'')"
proof -
  have tok: "token_okc long_name"
    by (simp add: token_okc_def long_name_def max_config_token_def list_all_iff config_token_char_def
        ascii_alphabetic_def between_def byte_def)
  then have "scope_validate long_scope = Inr ()"
    by (intro scope_validate_ok) (simp add: scope_ok_def long_scope_def)
  moreover have "env_name_ok long_name"
    by (simp add: env_name_ok_def long_name_def max_name_bytes_def list_all_iff name_char_def ascii_alphabetic_def
        ascii_digit_def between_def byte_def starts_with_def reserved_prefix_def)
  moreover have "length (secret_id_of long_scope long_name) = 394"
    by (simp add: secret_id_of_def long_scope_def slug_def scope_base_def long_name_def)
  then have "check_secret_id (secret_id_of long_scope long_name) = Inl ''a secret id is not valid''"
    by (simp add: check_secret_id_def max_config_token_def)
  ultimately show ?thesis
    by (simp add: check_cname_iff Let_def config_empty_def saved_version_def config_decode_def decode_saved_def)
qed

text \<open>A project called \<open>-\<close> is accepted as a name and is lost in the snapshot's text form.\<close>

lemma dash_project_is_lost:
  "config_token w ''-'' = Inr () \<and>
   (let x = \<lparr>sn_deployment = d, sn_app = a, sn_project = Some ''-'', sn_environment = None, sn_at_ms = t, sn_entries = []\<rparr>
    in config_decode (config_fields_of (CSnap x)) = Inr (CSnap (x\<lparr>sn_project := None\<rparr>)))"
  by (simp add: config_token_def max_config_token_def config_token_char_def config_decode_def decode_snap_def
      dashed_def undash_def cf_num_def Let_def)

end
