(* ===== verification/ConfigProps.thy ===== *)
theory ConfigProps
  imports ConfigState
begin

text \<open>
  The effective configuration is the one of the most specific scope, the recorded configuration only
  grows and names saved secrets only, and differences do not depend on the values.
\<close>

section \<open>The reference for resolution\<close>

text \<open>The setting that a scope gives a name now: its latest definition.\<close>

definition latest_setting :: "config_state \<Rightarrow> scope \<Rightarrow> string \<Rightarrow> setting option" where
  "latest_setting s sc n =
     map_option df_setting (List.find (\<lambda>d. df_scope d = sc \<and> df_name d = n) (rev (cfg_defs s)))"

text \<open>The most specific scope that says anything about the name decides; an unset decides for nothing.\<close>

definition effective :: "config_state \<Rightarrow> scope list \<Rightarrow> string \<Rightarrow> centry option" where
  "effective s order n =
     (case List.find (\<lambda>sc. latest_setting s sc n \<noteq> None) (rev order) of
        None \<Rightarrow> None
      | Some sc \<Rightarrow>
          (case latest_setting s sc n of Some (Put fl v) \<Rightarrow> Some (centry_of sc n fl v) | _ \<Rightarrow> None))"

lemma current_defs_ok:
  "bt_ok (current_defs s) \<and>
   (\<forall>sc n. bt_get (current_defs s) (sc, n) = List.find (\<lambda>d. df_scope d = sc \<and> df_name d = n) (rev (cfg_defs s)))"
proof -
  have "bt_ok (fold (\<lambda>d m. bt_insert (df_scope d, df_name d) d m) ds []) \<and>
    (\<forall>sc n. bt_get (fold (\<lambda>d m. bt_insert (df_scope d, df_name d) d m) ds []) (sc, n) =
       List.find (\<lambda>d. df_scope d = sc \<and> df_name d = n) (rev ds))" for ds
    by (induction ds rule: rev_induct) auto
  then show ?thesis unfolding current_defs_def by blast
qed

lemma latest_current: "latest_setting s sc n = map_option df_setting (bt_get (current_defs s) (sc, n))"
  using current_defs_ok by (simp add: latest_setting_def)

definition overlaid :: "scope \<Rightarrow> string \<Rightarrow> setting option \<Rightarrow> centry option \<Rightarrow> centry option" where
  "overlaid sc n st old =
     (case st of None \<Rightarrow> old | Some Unset \<Rightarrow> None | Some (Put fl v) \<Rightarrow> Some (centry_of sc n fl v))"

lemma overlay_def_get:
  assumes "bt_ok out"
  shows "bt_ok (overlay_def sc ((s, name), d) out) \<and>
    bt_get (overlay_def sc ((s, name), d) out) n =
      (if (s, name) = (sc, n) then overlaid sc n (Some (df_setting d)) (bt_get out n) else bt_get out n)"
  using assms by (auto simp: overlaid_def split: setting.split)

lemma overlay_scope_get:
  assumes "bt_ok cur" and "bt_ok out"
  shows "bt_ok (overlay_scope cur sc out) \<and>
    bt_get (overlay_scope cur sc out) n = overlaid sc n (map_option df_setting (bt_get cur (sc, n))) (bt_get out n)"
  using assms unfolding overlay_scope_def
proof (induction cur arbitrary: out)
  case Nil
  then show ?case by (simp add: overlaid_def)
next
  case (Cons p cur)
  obtain s name d where p: "p = ((s, name), d)" by (metis surj_pair)
  have cur: "bt_ok cur" and gone: "bt_get cur (s, name) = None"
    using Cons.prems(1) by (auto simp: bt_ok_def bt_get_def p map_of_eq_None_iff)
  have ok: "bt_ok (overlay_def sc p out)" using overlay_def_get [OF Cons.prems(2)] p by blast
  show ?case
    using Cons.IH [OF cur ok] overlay_def_get [OF Cons.prems(2), of sc s name d n] gone
    by (auto simp: p overlaid_def bt_get_def split: option.split)
qed

lemma resolved_get:
  "bt_ok (fold (overlay_scope (current_defs s)) order []) \<and>
   bt_get (fold (overlay_scope (current_defs s)) order []) n = effective s order n"
proof (induction order rule: rev_induct)
  case Nil
  then show ?case by (simp add: effective_def)
next
  case (snoc sc order)
  have "bt_ok (current_defs s)" using current_defs_ok by blast
  from overlay_scope_get [OF this conjunct1 [OF snoc], of sc n] snoc show ?case
    by (auto simp: effective_def latest_current [symmetric] overlaid_def split: option.split setting.split)
qed

lemma effective_name: "effective s order n = Some e \<Longrightarrow> ce_name e = n"
  by (auto simp: effective_def centry_of_def split: option.splits setting.splits)

lemma find_values:
  "\<forall>(k, e) \<in> set m. ce_name e = k \<Longrightarrow> find_entry (bt_values m) n = bt_get m n \<and> map ce_name (bt_values m) = map fst m"
  by (induction m) (auto simp: find_entry_def bt_values_def bt_get_def)

lemma find_entry_set: "distinct (map ce_name es) \<Longrightarrow> e \<in> set es \<longleftrightarrow> (\<exists>n. find_entry es n = Some e)"
proof -
  have name: "ce_name e = n" if "find_entry es n = Some e" for n
    using find_Some_set [OF that [unfolded find_entry_def]] by simp
  have "e \<in> set es \<longleftrightarrow> find_entry es (ce_name e) = Some e" if "distinct (map ce_name es)"
    using that by (induction es) (auto simp: find_entry_def image_iff)
  with name show "distinct (map ce_name es) \<Longrightarrow> ?thesis" by blast
qed

lemma resolved_entries:
  assumes "resolve s project app env = Inr es"
  shows "sorted_wrt (<) (map ce_name es) \<and> (\<forall>n. find_entry es n = effective s (scope_order project app env) n) \<and>
    validate_entries es = Inr ()"
proof -
  let ?m = "resolved s project app env"
  have es: "es = bt_values ?m" "validate_entries es = Inr ()"
    using assms by (auto simp: resolve_def Let_def bind_res_Inr_iff)
  have ok: "bt_ok ?m" and get: "bt_get ?m n = effective s (scope_order project app env) n" for n
    using resolved_get [of s "scope_order project app env"] by (auto simp: resolved_def)
  have "\<forall>(k, e) \<in> set ?m. ce_name e = k"
    using bt_in_iff [OF ok] get effective_name by fastforce
  from find_values [OF this] ok get es show ?thesis by (simp add: bt_ok_def)
qed

text \<open>
  The documented precedence, without the order in which the code overlays the scopes: the scopes that
  apply are the global one, the one of the project and the one of the application, each without an
  environment and for the environment that is asked for; an application is more specific than a project
  and a project than everything, and for the same one its environment is more specific.
\<close>

definition applies :: "string option \<Rightarrow> application_id \<Rightarrow> string option \<Rightarrow> scope \<Rightarrow> bool" where
  "applies project app env sc \<longleftrightarrow>
     (sc_env sc = None \<or> sc_env sc = env) \<and>
     (sc_level sc = Global \<and> sc_id sc = [] \<or>
      sc_level sc = Project \<and> project = Some (sc_id sc) \<or>
      sc_level sc = Application \<and> sc_id sc = app_str app)"

fun specificity :: "scope \<Rightarrow> nat" where
  "specificity (Scope Global i e) = (if e = None then 0 else 1)"
| "specificity (Scope Project i e) = (if e = None then 2 else 3)"
| "specificity (Scope Application i e) = (if e = None then 4 else 5)"

text \<open>The scope decides for the name: no other that says anything about it is as specific.\<close>

definition decides ::
  "config_state \<Rightarrow> string option \<Rightarrow> application_id \<Rightarrow> string option \<Rightarrow> string \<Rightarrow> scope \<Rightarrow> bool" where
  "decides s project app env n sc \<longleftrightarrow>
     applies project app env sc \<and> latest_setting s sc n \<noteq> None \<and>
     (\<forall>sc'. applies project app env sc' \<and> latest_setting s sc' n \<noteq> None \<and> sc' \<noteq> sc \<longrightarrow>
        specificity sc' < specificity sc)"

lemma scope_order_set: "set (scope_order project app env) = Collect (applies project app env)"
proof -
  have "sc \<in> set (scope_order project app env) \<longleftrightarrow> applies project app env sc" for sc
    by (cases sc) (auto simp: scope_order_def opt_scope_def scope_global_def scope_project_def scope_application_def
        applies_def split: option.splits)
  then show ?thesis by blast
qed

lemma scope_order_sorted: "sorted_wrt (\<lambda>a b. specificity a < specificity b) (scope_order project app env)"
  by (auto simp: scope_order_def opt_scope_def scope_global_def scope_project_def scope_application_def
      split: option.split)

lemma find_last:
  assumes "sorted_wrt (\<lambda>a b. (f a :: nat) < f b) xs" and "List.find P (rev xs) = Some x"
  shows "x \<in> set xs \<and> P x \<and> (\<forall>y \<in> set xs. P y \<and> y \<noteq> x \<longrightarrow> f y < f x)"
  using assms
proof (induction xs rule: rev_induct)
  case (snoc z xs)
  then show ?case by (fastforce simp: sorted_wrt_append split: if_splits)
qed simp

lemma effective_decided:
  "effective s (scope_order project app env) n = Some e \<longleftrightarrow>
   (\<exists>sc fl v. decides s project app env n sc \<and> latest_setting s sc n = Some (Put fl v) \<and> e = centry_of sc n fl v)"
proof (cases "List.find (\<lambda>sc. latest_setting s sc n \<noteq> None) (rev (scope_order project app env))")
  case None
  then have "effective s (scope_order project app env) n = None" by (simp add: effective_def)
  moreover have "\<not> decides s project app env n sc" for sc
    using None scope_order_set [of project app env] by (auto simp: decides_def find_None_iff)
  ultimately show ?thesis by simp
next
  case (Some x)
  from find_last [OF scope_order_sorted Some] scope_order_set have x: "decides s project app env n x"
    by (simp add: decides_def)
  have "sc = x" if "decides s project app env n sc" for sc
    using that x unfolding decides_def by (metis order_less_asym)
  with x have "decides s project app env n sc \<longleftrightarrow> sc = x" for sc by blast
  moreover obtain st where "latest_setting s x n = Some st" using x by (auto simp: decides_def)
  ultimately show ?thesis using Some by (cases st) (auto simp: effective_def)
qed

lemma effective_applies:
  "effective s (scope_order project app env) n = Some e \<Longrightarrow>
   \<exists>sc. ce_source e = Some sc \<and> applies project app env sc"
  by (auto simp: effective_decided decides_def centry_of_def)

text \<open>
  Claim C24. Resolution follows the documented precedence exactly: whatever was recorded in
  whatever order, an entry is in the result exactly if, of the scopes that apply, the most specific one
  that says anything about its name sets it, and then it has the flags and the value of that scope's
  latest definition and names that scope as its source. Application comes before project and project
  before global, and within each the environment asked for comes first. An explicit unset there, or no
  definition anywhere, leaves the name out; and the names come out once each in order.
\<close>

theorem resolution_is_most_specific:
  assumes "resolve s project app env = Inr es"
  shows "sorted_wrt (<) (map ce_name es) \<and>
    (\<forall>e. e \<in> set es \<longleftrightarrow>
      (\<exists>n sc fl v. decides s project app env n sc \<and> latest_setting s sc n = Some (Put fl v) \<and>
         e = \<lparr>ce_name = n, ce_flags = fl, ce_source = Some sc, ce_value = v\<rparr>))"
proof -
  note found = resolved_entries [OF assms]
  have "e \<in> set es \<longleftrightarrow> (\<exists>n. find_entry es n = Some e)" for e
    using found find_entry_set by (metis strict_sorted_iff)
  then show ?thesis using found by (simp add: effective_decided centry_of_def)
qed

section \<open>What is recorded\<close>

definition names_secret :: "cvalue \<Rightarrow> secret_ref \<Rightarrow> bool" where
  "names_secret v r \<longleftrightarrow> v = CSecret r"

definition secret_saved_in :: "config_state \<Rightarrow> secret_ref \<Rightarrow> bool" where
  "secret_saved_in s r \<longleftrightarrow> sr_version r \<le> saved_version s (sr_id r) \<and> bt_get (cfg_versions s) (sr_id r) \<noteq> None"

definition config_inv :: "config_state \<Rightarrow> bool" where
  "config_inv s \<longleftrightarrow> bt_ok (cfg_versions s) \<and> distinct (map sn_deployment (cfg_snapshots s)) \<and>
     (\<forall>d \<in> set (cfg_defs s). \<forall>fl r. df_setting d = Put fl (CSecret r) \<longrightarrow> secret_saved_in s r) \<and>
     (\<forall>x \<in> set (cfg_snapshots s). distinct (map ce_name (sn_entries x)) \<and>
        (\<forall>e \<in> set (sn_entries x). \<forall>r. ce_value e = CSecret r \<longrightarrow> secret_saved_in s r))"

text \<open>The recorded configuration only grows.\<close>

definition config_grows :: "config_state \<Rightarrow> config_state \<Rightarrow> bool" where
  "config_grows s s' \<longleftrightarrow> (\<exists>ds. cfg_defs s' = cfg_defs s @ ds) \<and> (\<exists>xs. cfg_snapshots s' = cfg_snapshots s @ xs) \<and>
     (\<forall>i. saved_version s i \<le> saved_version s' i) \<and>
     (\<forall>i. bt_get (cfg_versions s) i \<noteq> None \<longrightarrow> bt_get (cfg_versions s') i \<noteq> None)"

lemma check_saved_iff: "check_saved s r = Inr () \<longleftrightarrow> secret_saved_in s r"
  by (auto simp: check_saved_def secret_saved_in_def saved_version_def split: option.split)

lemma check_entries_iff:
  "check_entries s seen es = Inr () \<longleftrightarrow> distinct (map ce_name es) \<and> seen \<inter> set (map ce_name es) = {} \<and>
     (\<forall>e \<in> set es. \<forall>r. ce_value e = CSecret r \<longrightarrow> secret_saved_in s r)"
  by (induction s seen es rule: check_entries.induct)
    (auto simp: bind_res_Inr_iff check_saved_iff split: cvalue.splits)

lemma grows_refl: "config_grows s s"
  by (simp add: config_grows_def)

lemma grows_trans: "config_grows s s1 \<Longrightarrow> config_grows s1 s2 \<Longrightarrow> config_grows s s2"
  unfolding config_grows_def by (auto intro: order_trans)

lemma secret_saved_grows: "secret_saved_in s r \<Longrightarrow> config_grows s s' \<Longrightarrow> secret_saved_in s' r"
  unfolding secret_saved_in_def config_grows_def by (meson order_trans)

lemma saved_version_insert:
  "bt_ok (cfg_versions s) \<Longrightarrow>
   saved_version (s\<lparr>cfg_versions := bt_insert i v (cfg_versions s)\<rparr>) j = (if j = i then v else saved_version s j)"
  by (simp add: saved_version_def)

lemma apply_grows: "config_apply r s = Inr s' \<Longrightarrow> bt_ok (cfg_versions s) \<Longrightarrow> config_grows s s' \<and> bt_ok (cfg_versions s')"
proof (cases r)
  case (CSaved x)
  then show "config_apply r s = Inr s' \<Longrightarrow> bt_ok (cfg_versions s) \<Longrightarrow> config_grows s s' \<and> bt_ok (cfg_versions s')"
    by (auto simp: config_grows_def saved_version_insert split: if_splits)
qed (auto simp: bind_res_Inr_iff config_grows_def saved_version_def split: if_splits)

lemma inv_apply:
  assumes "config_apply r s = Inr s'" and inv: "config_inv s"
  shows "config_inv s'"
proof -
  have g: "config_grows s s'" "bt_ok (cfg_versions s')"
    using apply_grows [OF assms(1)] inv by (auto simp: config_inv_def)
  note more = secret_saved_grows [OF _ g(1)]
  show ?thesis
  proof (cases r)
    case (CSaved x)
    then show ?thesis using assms g more by (auto simp: config_inv_def split: if_splits)
  next
    case (CDef d)
    have "secret_saved_in s' v" if "df_setting d = Put fl (CSecret v)" for fl v
      using assms(1) CDef that by (intro more) (simp add: bind_res_Inr_iff check_saved_iff)
    then show ?thesis using assms CDef g more by (auto simp: config_inv_def bind_res_Inr_iff)
  next
    case (CSnap x)
    then have "check_entries s {} (sn_entries x) = Inr ()" using assms(1) by (auto simp: bind_res_Inr_iff split: if_splits)
    then have "distinct (map ce_name (sn_entries x)) \<and>
        (\<forall>e \<in> set (sn_entries x). \<forall>r. ce_value e = CSecret r \<longrightarrow> secret_saved_in s' r)"
      using more by (auto simp: check_entries_iff)
    then show ?thesis using assms CSnap g more by (fastforce simp: config_inv_def bind_res_Inr_iff split: if_splits)
  qed
qed

lemma inv_replay: "config_replay rs s = Inr s' \<Longrightarrow> config_inv s \<Longrightarrow> config_inv s' \<and> config_grows s s'"
proof (induction rs arbitrary: s)
  case Nil
  then show ?case by (simp add: grows_refl)
next
  case (Cons r rs)
  then obtain s1 where s1: "config_apply r s = Inr s1" "config_replay rs s1 = Inr s'"
    by (auto simp: bind_res_Inr_iff)
  have "config_grows s s1" using apply_grows [OF s1(1)] Cons.prems(2) by (simp add: config_inv_def)
  with Cons.IH [OF s1(2) inv_apply [OF s1(1) Cons.prems(2)]] show ?case using grows_trans by blast
qed

lemma inv_empty: "config_inv config_empty"
  by (simp add: config_inv_def config_empty_def)

text \<open>The versions that records save of a secret, in the order of the records.\<close>

definition versions_saved :: "string \<Rightarrow> config_record list \<Rightarrow> u32 list" where
  "versions_saved i rs = concat (map (\<lambda>r. case r of CSaved x \<Rightarrow> if sv_id x = i then [sv_version x] else [] | _ \<Rightarrow> []) rs)"

lemma versions_saved_simps [simp]:
  "versions_saved i [] = []"
  "versions_saved i (CSaved x # rs) = (if sv_id x = i then sv_version x # versions_saved i rs else versions_saved i rs)"
  "versions_saved i (CDef d # rs) = versions_saved i rs"
  "versions_saved i (CSnap y # rs) = versions_saved i rs"
  "versions_saved i (rs @ rs') = versions_saved i rs @ versions_saved i rs'"
  by (simp_all add: versions_saved_def)

lemma config_replay_append: "config_replay (rs @ rs') s = bind_res (config_replay rs s) (config_replay rs')"
proof (induction rs arbitrary: s)
  case (Cons r rs)
  then show ?case by (cases "config_apply r s") simp_all
qed simp

lemma versions_increase:
  "config_replay rs s = Inr s' \<Longrightarrow> config_inv s \<Longrightarrow>
   sorted_wrt (<) (saved_version s i # versions_saved i rs) \<and> saved_version s' i = last (saved_version s i # versions_saved i rs)"
proof (induction rs arbitrary: s)
  case (Cons r rs)
  then obtain s1 where s1: "config_apply r s = Inr s1" "config_replay rs s1 = Inr s'"
    by (auto simp: bind_res_Inr_iff)
  note IH = Cons.IH [OF s1(2) inv_apply [OF s1(1) Cons.prems(2)]]
  show ?case
  proof (cases r)
    case (CSaved x)
    have "bt_ok (cfg_versions s)" using Cons.prems(2) by (simp add: config_inv_def)
    then show ?thesis using IH s1(1) CSaved
      by (auto simp: saved_version_insert not_le split: if_splits dest: order_less_trans)
  next
    case (CDef d)
    then have "saved_version s1 i = saved_version s i" using s1(1) by (auto simp: bind_res_Inr_iff saved_version_def)
    then show ?thesis using IH CDef by simp
  next
    case (CSnap y)
    then have "saved_version s1 i = saved_version s i"
      using s1(1) by (auto simp: bind_res_Inr_iff saved_version_def split: if_splits)
    then show ?thesis using IH CSnap by simp
  qed
qed simp

lemma saved_version_empty [simp]: "saved_version config_empty i = 0"
  by (simp add: saved_version_def config_empty_def bt_get_def)

text \<open>
  Claim C25. Recorded configuration is append-only and closed: in every state that a journal
  rebuilds, no deployment has two snapshots, no snapshot repeats a name, and every secret version that a
  definition or a snapshot names is at most the last one saved of that secret; replaying more records
  leaves every definition and snapshot as it was. The versions that the records save of one secret
  strictly increase from 1 on, so none is saved twice, and the state has the last of them; and the
  version that \<open>next_version\<close> gives, when it gives one, is new and accepted.
\<close>

theorem configuration_only_grows:
  assumes "config_replay rs config_empty = Inr s" and "config_replay rs' s = Inr s'"
  shows "config_inv s' \<and> config_grows s s' \<and>
    (\<forall>i. sorted_wrt (<) (versions_saved i (rs @ rs')) \<and> 0 \<notin> set (versions_saved i (rs @ rs')) \<and>
       saved_version s' i = last (0 # versions_saved i (rs @ rs'))) \<and>
    (\<forall>i v t. next_version s' i = Some v \<longrightarrow> v \<notin> set (versions_saved i (rs @ rs')) \<and>
       (\<exists>s2. config_apply (CSaved \<lparr>sv_id = i, sv_version = v, sv_at_ms = t\<rparr>) s' = Inr s2 \<and> saved_version s2 i = v \<and>
         saved_version s' i < v))"
proof -
  have inv: "config_inv s' \<and> config_grows s s'"
    using inv_replay [OF assms(2)] inv_replay [OF assms(1) inv_empty] by blast
  have "config_replay (rs @ rs') config_empty = Inr s'" using assms by (simp add: config_replay_append)
  from versions_increase [OF this inv_empty]
  have vs: "sorted_wrt (<) (0 # versions_saved i (rs @ rs')) \<and> saved_version s' i = last (0 # versions_saved i (rs @ rs'))" for i
    by simp
  have le: "x \<le> saved_version s' i" if "x \<in> set (versions_saved i (rs @ rs'))" for x i
    using vs [of i] that by (cases "versions_saved i (rs @ rs')" rule: rev_cases)
      (auto simp: sorted_wrt_append intro: order_less_imp_le simp del: versions_saved_simps)
  have less: "saved_version s' i < v" if "next_version s' i = Some v" for i v
  proof -
    have "saved_version s' i < - 1" and v: "v = saved_version s' i + 1"
      using that by (auto simp: next_version_def word_order.not_eq_extremum split: if_splits)
    with plus_one_le_mask show ?thesis by blast
  qed
  then have "v \<notin> set (versions_saved i (rs @ rs'))" if "next_version s' i = Some v" for i v
    using le that by (meson linorder_not_less)
  with inv vs less show ?thesis
    by (fastforce simp: config_inv_def saved_version_insert not_le simp del: versions_saved_simps)
qed

section \<open>Differences do not show values\<close>

fun recoded_value :: "(string \<Rightarrow> string) \<Rightarrow> cvalue \<Rightarrow> cvalue" where
  "recoded_value f (CConfig v) = CConfig (f v)"
| "recoded_value f (CSecret r) = CSecret r"

text \<open>The same entries with other configuration values.\<close>

definition recoded :: "(string \<Rightarrow> string) \<Rightarrow> centry \<Rightarrow> centry" where
  "recoded f e = e\<lparr>ce_value := recoded_value f (ce_value e)\<rparr>"

lemma recoded_simps [simp]:
  "ce_name (recoded f e) = ce_name e" "ce_flags (recoded f e) = ce_flags e" "ce_source (recoded f e) = ce_source e"
  "ce_value (recoded f e) = recoded_value f (ce_value e)"
  by (simp_all add: recoded_def)

lemma recoded_kind [simp]: "cvalue_kind (recoded_value f v) = cvalue_kind v"
  by (cases v) simp_all

lemma find_recoded: "find_entry (map (recoded f) es) n = map_option (recoded f) (find_entry es n)"
  by (induction es) (simp_all add: find_entry_def)

lemma describe_recoded [simp]: "describe_entry (recoded f e) = describe_entry e"
  by (cases "ce_value e") (simp_all add: describe_entry_def)

lemma recoded_value_inj: "inj f \<Longrightarrow> recoded_value f v = recoded_value f w \<longleftrightarrow> v = w"
  by (cases v; cases w) (simp_all add: inj_eq)

lemma recoded_inj: "inj f \<Longrightarrow> recoded f a = recoded f b \<longleftrightarrow> a = b"
  using recoded_value_inj by (cases a; cases b) (simp add: recoded_def)

lemma change_recoded:
  "inj f \<Longrightarrow> entry_change (recoded f a) (recoded f b) = entry_change a b"
  by (cases "ce_value a"; cases "ce_value b") (simp_all add: entry_change_def value_change_def inj_eq)

lemma diff_name_recoded:
  "inj f \<Longrightarrow> diff_name (map (recoded f) old) (map (recoded f) new) n = diff_name old new n"
  by (simp add: diff_name_def find_recoded recoded_inj change_recoded split: option.split)

text \<open>
  The printed difference of two configurations shows nothing of the configuration values
  but whether they changed: replacing every value by another one, different values by different ones,
  leaves the text as it is.
\<close>

theorem difference_hides_values:
  assumes "inj f"
  shows "config_diff (map (recoded f) old) (map (recoded f) new) = config_diff old new"
proof -
  have "diff_name (map (recoded f) old) (map (recoded f) new) = diff_name old new"
    by (rule ext) (rule diff_name_recoded [OF assms])
  then show ?thesis by (simp add: config_diff_def o_def flip: map_append)
qed

section \<open>Examples\<close>

definition example_app :: application_id where "example_app = ApplicationId 7"

definition example_put :: "scope \<Rightarrow> string \<Rightarrow> cvalue \<Rightarrow> config_record" where
  "example_put sc n v = CDef \<lparr>df_scope = sc, df_name = n,
     df_setting = Put \<lparr>fl_build = False, fl_runtime = True\<rparr> v, df_at_ms = 0\<rparr>"

definition example_records :: "config_record list" where
  "example_records =
     [CSaved \<lparr>sv_id = ''global/KEY'', sv_version = 1, sv_at_ms = 0\<rparr>,
      example_put (scope_project ''web'' (Some ''prod'')) ''A'' (CConfig ''2''),
      example_put (scope_global None) ''A'' (CConfig ''1''),
      example_put (scope_global None) ''B'' (CConfig ''1''),
      example_put (scope_global None) ''KEY'' (CSecret \<lparr>sr_id = ''global/KEY'', sr_version = 1\<rparr>),
      CDef \<lparr>df_scope = scope_project ''web'' None, df_name = ''B'', df_setting = Unset, df_at_ms = 1\<rparr>]"

definition example_config :: config_state where
  "example_config =
     \<lparr>cfg_defs = List.map_filter (\<lambda>r. case r of CDef d \<Rightarrow> Some d | _ \<Rightarrow> None) example_records,
      cfg_versions = [(''global/KEY'', 1)], cfg_snapshots = []\<rparr>"

lemma example_replays: "config_replay example_records config_empty = Inr example_config"
  by (simp add: example_records_def example_config_def example_put_def config_empty_def saved_version_def check_saved_def List.map_filter_def bt_get_def)

definition resolved_example :: "centry list" where
  "resolved_example =
     [centry_of (scope_project ''web'' (Some ''prod'')) ''A'' \<lparr>fl_build = False, fl_runtime = True\<rparr> (CConfig ''2''),
      centry_of (scope_global None) ''KEY'' \<lparr>fl_build = False, fl_runtime = True\<rparr> (CSecret \<lparr>sr_id = ''global/KEY'', sr_version = 1\<rparr>)]"

lemmas example_scopes = scope_global_def scope_project_def less_scope_def less_eq_scope_def scope_key_def Let_def

definition example_def_of :: "scope \<Rightarrow> string \<Rightarrow> setting \<Rightarrow> u64 \<Rightarrow> (scope \<times> string) \<times> def_rec" where
  "example_def_of sc n st t = ((sc, n), \<lparr>df_scope = sc, df_name = n, df_setting = st, df_at_ms = t\<rparr>)"

lemma example_current:
  "current_defs example_config =
     (let put = Put \<lparr>fl_build = False, fl_runtime = True\<rparr>
      in [example_def_of (scope_global None) ''A'' (put (CConfig ''1'')) 0,
          example_def_of (scope_global None) ''B'' (put (CConfig ''1'')) 0,
          example_def_of (scope_global None) ''KEY'' (put (CSecret \<lparr>sr_id = ''global/KEY'', sr_version = 1\<rparr>)) 0,
          example_def_of (scope_project ''web'' None) ''B'' Unset 1,
          example_def_of (scope_project ''web'' (Some ''prod'')) ''A'' (put (CConfig ''2'')) 0])"
  by (simp add: current_defs_def example_config_def example_records_def example_put_def List.map_filter_def
      example_scopes example_def_of_def)

lemma example_resolves: "resolve example_config (Some ''web'') example_app (Some ''prod'') = Inr resolved_example"
proof -
  have "bt_values (resolved example_config (Some ''web'') example_app (Some ''prod'')) = resolved_example"
    by (simp add: resolved_def example_current Let_def example_def_of_def scope_order_def opt_scope_def scope_application_def
        overlay_scope_def scope_global_def scope_project_def resolved_example_def bt_values_def bt_remove_def)
  moreover have "check_value ''A'' ''2'' = Inr ()"
    by (simp add: check_value_iff env_value_ok_def max_value_bytes_def utf8_ascii byte_def)
  ultimately show ?thesis
    by (simp add: resolve_def resolved_example_def validate_entries_def centry_of_def max_entries_def max_config_bytes_def
        check_cname_def check_name_iff check_cvalue_def
        max_secret_entries_def env_name_ok_def max_name_bytes_def name_char_def ascii_alphabetic_def
        ascii_digit_def between_def byte_def reserved_prefix_def starts_with_def)
qed

theorem resolution_is_most_specific_witness:
  "decides example_config (Some ''web'') example_app (Some ''prod'') ''A'' (scope_project ''web'' (Some ''prod'')) \<and>
   decides example_config (Some ''web'') example_app (Some ''prod'') ''KEY'' (scope_global None)"
proof -
  have "\<exists>sc. ce_source e = Some sc \<and>
      decides example_config (Some ''web'') example_app (Some ''prod'') (ce_name e) sc" if "e \<in> set resolved_example" for e
    using resolution_is_most_specific [OF example_resolves] that by auto
  from this [of "resolved_example ! 0"] this [of "resolved_example ! 1"] show ?thesis
    by (simp add: resolved_example_def centry_of_def)
qed

theorem configuration_only_grows_witness:
  "\<exists>s. config_replay [CSaved \<lparr>sv_id = ''global/KEY'', sv_version = 3, sv_at_ms = 9\<rparr>] example_config = Inr s \<and>
     config_inv s \<and> config_grows example_config s \<and> saved_version s ''global/KEY'' = 3"
proof -
  let ?s = "example_config\<lparr>cfg_versions := [(''global/KEY'', 3)]\<rparr>"
  have more: "config_replay [CSaved \<lparr>sv_id = ''global/KEY'', sv_version = 3, sv_at_ms = 9\<rparr>] example_config = Inr ?s"
    by (simp add: example_config_def saved_version_def bt_get_def word_le_nat_alt)
  note grown = configuration_only_grows [OF example_replays more]
  have "versions_saved ''global/KEY'' example_records = [1]"
    by (simp add: example_records_def example_put_def)
  with grown have "saved_version ?s ''global/KEY'' = 3" by simp
  with grown more show ?thesis by blast
qed

theorem difference_hides_values_witness:
  "config_diff (map (recoded rev) resolved_example) [] = config_diff resolved_example [] \<and>
   length (config_diff resolved_example []) = 2"
proof -
  have "inj (rev :: string \<Rightarrow> string)" by (rule inj_onI) simp
  from difference_hides_values [OF this, of resolved_example "[]"] show ?thesis
    by (simp add: resolved_example_def centry_of_def config_diff_def diff_name_def find_entry_def List.map_filter_def)
qed
end
