(* ===== verification/Git.thy ===== *)
theory Git
  imports StepLog Route
begin

text \<open>
  Git sources (\<open>deploy/src/git.rs\<close>): the accepted repository URLs and the destinations they name,
  branch filters, ref names, and the records of repositories, observations, sources and removals. Error
  texts that quote their input are shortened to what is fixed in them.
\<close>

definition max_git_name :: nat where "max_git_name = 64"
definition max_url :: nat where "max_url = 512"
definition max_filters :: nat where "max_filters = 16"

section \<open>Characters of a text\<close>

text \<open>\<open>str::chars\<close>: the byte sequences of the characters of well-formed UTF-8.\<close>

function chars_of :: "string \<Rightarrow> string list" where
  "chars_of s = (case utf8_rest s of None \<Rightarrow> [] | Some t \<Rightarrow> take (length s - length t) s # chars_of t)"
  by pat_completeness auto

termination
  by (relation "measure length") (auto simp del: utf8_rest.simps dest: utf8_rest_shorter)

declare chars_of.simps [simp del]

text \<open>\<open>char::is_control\<close>: C0, DEL and C1. \<open>char::is_whitespace\<close>: the Unicode property.\<close>

definition is_control :: "string \<Rightarrow> bool" where
  "is_control g \<longleftrightarrow>
     (case g of
        [a] \<Rightarrow> byte a < 0x20 \<or> byte a = 0x7F
      | [a, b] \<Rightarrow> byte a = 0xC2 \<and> byte b < 0xA0
      | _ \<Rightarrow> False)"

definition is_whitespace :: "string \<Rightarrow> bool" where
  "is_whitespace g \<longleftrightarrow>
     (case map byte g of
        [a] \<Rightarrow> 9 \<le> a \<and> a \<le> 13 \<or> a = 32
      | [a, b] \<Rightarrow> a = 0xC2 \<and> (b = 0x85 \<or> b = 0xA0)
      | [a, b, c] \<Rightarrow>
          a = 0xE1 \<and> b = 0x9A \<and> c = 0x80
          \<or> a = 0xE2 \<and> b = 0x80 \<and> (c \<le> 0x8A \<or> c = 0xA8 \<or> c = 0xA9 \<or> c = 0xAF)
          \<or> a = 0xE2 \<and> b = 0x81 \<and> c = 0x9F
          \<or> a = 0xE3 \<and> b = 0x80 \<and> c = 0x80
      | _ \<Rightarrow> False)"

definition blank_char :: "string \<Rightarrow> bool" where
  "blank_char g \<longleftrightarrow> is_control g \<or> is_whitespace g"

text \<open>\<open>str::contains\<close> and \<open>str::ends_with\<close> for a text.\<close>

fun contains_str :: "string \<Rightarrow> string \<Rightarrow> bool" where
  "contains_str sub [] = (sub = [])"
| "contains_str sub (c # s) = (starts_with (c # s) sub \<or> contains_str sub s)"

definition ends_with :: "string \<Rightarrow> string \<Rightarrow> bool" where
  "ends_with s p \<longleftrightarrow> starts_with (rev s) (rev p)"

text \<open>\<open>split(c).next()\<close> and \<open>rsplit(c).next()\<close>.\<close>

definition first_part :: "char \<Rightarrow> string \<Rightarrow> string" where
  "first_part c s = hd (split_on c s)"

definition last_part :: "char \<Rightarrow> string \<Rightarrow> string" where
  "last_part c s = last (split_on c s)"

text \<open>A text in single quotes, which no string literal can hold here.\<close>

definition quoted :: "string \<Rightarrow> string" where
  "quoted s = [CHR 0x27] @ s @ [CHR 0x27]"

section \<open>URLs\<close>

datatype url_kind = UHttps | UHttpLoopback | USsh | UFile

text \<open>The decoding of the escapes of a file URL's path.\<close>

fun percent_decode :: "string \<Rightarrow> string + string" where
  "percent_decode [] = Inr []"
| "percent_decode (c # s) =
     (if c \<noteq> CHR ''%'' then bind_res (percent_decode s) (\<lambda>out. Inr (c # out))
      else case s of
          h # l # t \<Rightarrow>
            (case (hex_val h, hex_val l) of
               (Some x, Some y) \<Rightarrow>
                 if char_of (x * 16 + y) = CHR ''/'' then Inl (''an encoded '' @ quoted ''/'')
                 else bind_res (percent_decode t) (\<lambda>out. Inr (char_of (x * 16 + y) # out))
             | _ \<Rightarrow> Inl ''a malformed %-escape'')
        | _ \<Rightarrow> Inl ''a malformed %-escape'')"

definition file_url_path :: "string \<Rightarrow> string + string" where
  "file_url_path path =
     (let bad = \<lambda>why. Inl (''a file:// URL path is not acceptable: '' @ why)
      in case percent_decode path of
           Inl why \<Rightarrow> bad why
         | Inr out \<Rightarrow>
             if \<not> utf8_valid out then bad ''it is not valid UTF-8''
             else if list_ex is_control (chars_of out) then bad ''it decodes to a control character''
             else if \<not> starts_with out ''/'' \<or> list_ex (\<lambda>c. c = ''..'' \<or> c = ''.'') (split_on (CHR ''/'') out)
             then bad (''it must be absolute, without '' @ quoted ''.'' @ '' or '' @ quoted ''..'' @ '' components'')
             else Inr out)"

text \<open>A user part with a colon: a password.\<close>

definition has_password :: "string \<Rightarrow> bool" where
  "has_password a \<longleftrightarrow> CHR '':'' \<in> set (first_part (CHR ''@'') a)"

text \<open>The host of an authority without its user and, when it is numeric, its port.\<close>

definition plain_host :: "string \<Rightarrow> string" where
  "plain_host a =
     (let host = last_part (CHR ''@'') a
      in case rsplit_once (CHR '':'') host of
           Some (h, p) \<Rightarrow> if list_all ascii_digit p then h else host
         | None \<Rightarrow> host)"

definition validate_https :: "string \<Rightarrow> string + url_kind" where
  "validate_https rest =
     (let a = first_part (CHR ''/'') rest
      in if CHR '':'' \<in> set a \<and> CHR ''@'' \<in> set a \<and> has_password a
         then Inl ''a repository URL cannot contain a password; the credential is stored in the Keychain''
         else if a = [] \<or> starts_with a ''@'' then Inl ''the URL has no host'' else Inr UHttps)"

definition validate_http :: "string \<Rightarrow> string + url_kind" where
  "validate_http rest =
     (let a = first_part (CHR ''/'') rest
      in if CHR ''@'' \<in> set a \<and> has_password a then Inl ''a repository URL cannot contain a password''
         else if plain_host a \<in> {''127.0.0.1'', ''localhost'', ''[::1]''} then Inr UHttpLoopback
         else Inl ''plain http is accepted only for a loopback host; use https'')"

definition validate_ssh :: "string \<Rightarrow> string + url_kind" where
  "validate_ssh rest =
     (let a = first_part (CHR ''/'') rest
      in if CHR '':'' \<in> set a \<and> CHR ''@'' \<in> set a \<and> has_password a
         then Inl ''a repository URL cannot contain a password''
         else if a = [] then Inl ''the URL has no host'' else Inr USsh)"

definition validate_file :: "string \<Rightarrow> string + url_kind" where
  "validate_file path =
     (if \<not> starts_with path ''/'' \<or> contains_str ''..'' path
      then Inl (''a file:// URL needs an absolute path without '' @ quoted ''..'')
      else bind_res (file_url_path path) (\<lambda>_. Inr UFile))"

definition validate_scp :: "string \<Rightarrow> string + url_kind" where
  "validate_scp url =
     (case split_once (CHR '':'') url of
        Some (left, path) \<Rightarrow>
          if CHR ''@'' \<in> set left \<and> CHR ''/'' \<notin> set left \<and> path \<noteq> [] \<and> \<not> contains_str ''://'' url then Inr USsh
          else Inl ''unsupported repository URL''
      | None \<Rightarrow> Inl ''unsupported repository URL'')"

definition validate_url :: "string \<Rightarrow> string + url_kind" where
  "validate_url url =
     (if url = [] \<or> max_url < length url then Inl ''a repository URL must be 1..=512 bytes''
      else if starts_with url ''-'' then Inl (''a repository URL cannot start with '' @ quoted ''-'')
      else if list_ex blank_char (chars_of url)
      then Inl ''a repository URL cannot contain whitespace or control characters''
      else case strip_prefix ''https://'' url of
          Some rest \<Rightarrow> validate_https rest
        | None \<Rightarrow>
          (case strip_prefix ''http://'' url of
             Some rest \<Rightarrow> validate_http rest
           | None \<Rightarrow>
             (case strip_prefix ''ssh://'' url of
                Some rest \<Rightarrow> validate_ssh rest
              | None \<Rightarrow>
                (case strip_prefix ''file://'' url of
                   Some path \<Rightarrow> validate_file path
                 | None \<Rightarrow> validate_scp url))))"

definition ssh_host :: "string \<Rightarrow> string option" where
  "ssh_host url =
     (case (case strip_prefix ''ssh://'' url of
              Some r \<Rightarrow> Some (first_part (CHR ''/'') r)
            | None \<Rightarrow> map_option fst (split_once (CHR '':'') url)) of
        None \<Rightarrow> None
      | Some rest \<Rightarrow> if plain_host rest = [] then None else Some (plain_host rest))"

section \<open>Destinations\<close>

datatype transport = THttps | THttp | TSsh

fun transport_name :: "transport \<Rightarrow> string" where
  "transport_name THttps = ''https''"
| "transport_name THttp = ''http''"
| "transport_name TSsh = ''ssh''"

fun default_port :: "transport \<Rightarrow> u16" where
  "default_port THttps = 443"
| "default_port THttp = 80"
| "default_port TSsh = 22"

record destination =
  dst_transport :: transport
  dst_host :: string
  dst_port :: u16

definition destination_str :: "destination \<Rightarrow> string" where
  "destination_str d =
     transport_name (dst_transport d) @ ''://'' @ dst_host d @ '':'' @ show_word (dst_port d)"

definition alnum :: "char \<Rightarrow> bool" where
  "alnum c \<longleftrightarrow> ascii_alphabetic c \<or> ascii_digit c"

definition user_char :: "char \<Rightarrow> bool" where
  "user_char c \<longleftrightarrow> alnum c \<or> c = CHR ''.'' \<or> c = CHR ''_'' \<or> c = CHR ''~'' \<or> c = CHR ''-''"

definition user_ok :: "string \<Rightarrow> bool" where
  "user_ok u \<longleftrightarrow> u \<noteq> [] \<and> list_all user_char u"

definition label_ok :: "string \<Rightarrow> bool" where
  "label_ok l \<longleftrightarrow> 1 \<le> length l \<and> length l \<le> 63 \<and> \<not> starts_with l ''-'' \<and> \<not> ends_with l ''-'' \<and>
     list_all (\<lambda>c. alnum c \<or> c = CHR ''-'') l"

definition host_ok :: "string \<Rightarrow> bool" where
  "host_ok h \<longleftrightarrow> length h \<le> 253 \<and> list_all label_ok (split_on (CHR ''.'') h)"

definition hexdigit :: "char \<Rightarrow> bool" where
  "hexdigit c \<longleftrightarrow> ascii_digit c \<or> between 65 c 70 \<or> between 97 c 102"

text \<open>The host and what follows it as the port, if anything.\<close>

definition host_and_port :: "string \<Rightarrow> (string \<times> string option) option" where
  "host_and_port hostport =
     (case strip_prefix ''['' hostport of
        Some rest \<Rightarrow>
          (case split_once (CHR '']'') rest of
             None \<Rightarrow> None
           | Some (inner, after) \<Rightarrow>
               if after \<noteq> [] \<and> \<not> starts_with after '':'' then None
               else if CHR '':'' \<in> set inner \<and> list_all (\<lambda>c. hexdigit c \<or> c = CHR '':'' \<or> c = CHR ''.'') inner
               then Some (''['' @ map to_lower inner @ '']'', strip_prefix '':'' after)
               else None)
      | None \<Rightarrow>
          (case split_once (CHR '':'') hostport of
             Some (h, p) \<Rightarrow> if host_ok h then Some (map to_lower h, Some p) else None
           | None \<Rightarrow> if host_ok hostport then Some (map to_lower hostport, None) else None))"

definition port_of :: "u16 \<Rightarrow> string option \<Rightarrow> u16 option" where
  "port_of dflt port =
     (case port of
        None \<Rightarrow> Some dflt
      | Some p \<Rightarrow>
          if p \<noteq> [] \<and> length p \<le> 5 \<and> list_all ascii_digit p
          then (case parse_word p of Some n \<Rightarrow> if n \<noteq> 0 then Some n else None | None \<Rightarrow> None)
          else None)"

definition authority :: "string \<Rightarrow> u16 \<Rightarrow> (string \<times> u16) option" where
  "authority a dflt =
     (if 1 < length (filter (\<lambda>c. c = CHR ''@'') a) then None
      else
        let hostport =
          (case split_once (CHR ''@'') a of
             Some (u, h) \<Rightarrow> if user_ok u then Some h else None
           | None \<Rightarrow> Some a)
        in case hostport of
             None \<Rightarrow> None
           | Some hp \<Rightarrow>
               (case host_and_port hp of
                  None \<Rightarrow> None
                | Some (host, port) \<Rightarrow> map_option (\<lambda>n. (host, n)) (port_of dflt port)))"

definition schemed :: "string \<Rightarrow> (transport \<times> string) option" where
  "schemed url =
     (case strip_prefix ''https://'' url of
        Some r \<Rightarrow> Some (THttps, r)
      | None \<Rightarrow>
          (case strip_prefix ''http://'' url of
             Some r \<Rightarrow> Some (THttp, r)
           | None \<Rightarrow> map_option (\<lambda>r. (TSsh, r)) (strip_prefix ''ssh://'' url)))"

definition destination_of :: "string \<Rightarrow> destination option" where
  "destination_of url =
     (if url = [] \<or> list_ex (\<lambda>g. blank_char g \<or> g = [CHR 0x5C]) (chars_of url) then None
      else case schemed url of
          Some (t, rest) \<Rightarrow>
            map_option (\<lambda>(host, port). \<lparr>dst_transport = t, dst_host = host, dst_port = port\<rparr>)
              (authority (first_part (CHR ''/'') rest) (default_port t))
        | None \<Rightarrow>
            if contains_str ''://'' url then None
            else case split_once (CHR '':'') url of
                None \<Rightarrow> None
              | Some (left, path) \<Rightarrow>
                  if CHR ''/'' \<in> set left \<or> path = [] then None
                  else map_option (\<lambda>(host, _). \<lparr>dst_transport = TSsh, dst_host = host, dst_port = 22\<rparr>)
                         (authority left 22))"

section \<open>Branch filters and ref names\<close>

text \<open>The loop of \<open>glob_match\<close> over the characters: positions, the last star and where it was tried.\<close>

function glob_loop :: "string list \<Rightarrow> string list \<Rightarrow> nat \<Rightarrow> nat \<Rightarrow> nat option \<Rightarrow> nat \<Rightarrow> bool" where
  "glob_loop p t pi ti star mk =
     (if ti < length t then
        if pi < length p \<and> (p ! pi = ''?'' \<or> p ! pi = t ! ti) then glob_loop p t (pi + 1) (ti + 1) star mk
        else if pi < length p \<and> p ! pi = ''*'' then glob_loop p t (pi + 1) ti (Some pi) ti
        else case star of
            Some s \<Rightarrow> glob_loop p t (s + 1) (mk + 1) star (mk + 1)
          | None \<Rightarrow> False
      else list_all (\<lambda>g. g = ''*'') (drop pi p))"
  by pat_completeness auto

termination
  by (relation "measures [\<lambda>(p, t, pi, ti, star, mk). if ti < mk then 1 else 0,
        \<lambda>(p, t, pi, ti, star, mk). length t + 1 - mk,
        \<lambda>(p, t, pi, ti, star, mk). (length t - ti) + (length p - pi)]") auto

declare glob_loop.simps [simp del]

definition glob_match :: "string \<Rightarrow> string \<Rightarrow> bool" where
  "glob_match pattern txt = glob_loop (chars_of pattern) (chars_of txt) 0 0 None 0"

definition git_token :: "string \<Rightarrow> string \<Rightarrow> string + unit" where
  "git_token what v =
     (if v = [] \<or> max_git_name < length v then Inl (what @ '' must be 1..=64 bytes'')
      else if \<not> list_all (\<lambda>c. alnum c \<or> c = CHR ''.'' \<or> c = CHR ''_'' \<or> c = CHR ''-'') v
      then Inl (what @ '' contains a character that is not accepted'')
      else Inr ())"

definition check_repo_name :: "string \<Rightarrow> string + unit" where
  "check_repo_name v = git_token ''a repository name'' v"

definition is_commit :: "string \<Rightarrow> bool" where
  "is_commit v \<longleftrightarrow> (length v = 40 \<or> length v = 64) \<and> list_all (\<lambda>c. ascii_digit c \<or> between 97 c 102) v"

definition ref_char_bad :: "string \<Rightarrow> bool" where
  "ref_char_bad g \<longleftrightarrow> blank_char g \<or> g \<in> {''~'', ''^'', '':'', ''?'', ''*'', ''['', [CHR 0x5C]}"

definition check_ref_name :: "string \<Rightarrow> string + unit" where
  "check_ref_name v =
     (if v = [] \<or> 200 < length v \<or> starts_with v ''-'' \<or> contains_str ''..'' v \<or> contains_str [CHR ''@'', CHR 0x7B] v
         \<or> ends_with v ''/'' \<or> ends_with v ''.lock'' \<or> list_ex ref_char_bad (chars_of v)
      then Inl ''not a usable Git ref name'' else Inr ())"

end
