(* ===== verification/GitGlob.thy ===== *)
theory GitGlob
  imports Git
begin

text \<open>
  The branch filters of a repository: the loop of \<open>glob_match\<close> with its single point of return decides
  what the reference reading of a pattern says, for every text without a star.
\<close>

section \<open>The reference reading of a pattern\<close>

fun glob_ref :: "string list \<Rightarrow> string list \<Rightarrow> bool" where
  "glob_ref [] t = (t = [])"
| "glob_ref (g # p) [] = (g = ''*'' \<and> glob_ref p [])"
| "glob_ref (g # p) (c # t) =
     (if g = ''*'' then glob_ref p (c # t) \<or> glob_ref (g # p) t
      else (g = ''?'' \<or> g = c) \<and> glob_ref p t)"

lemma glob_ref_nil: "glob_ref p [] \<longleftrightarrow> list_all (\<lambda>g. g = ''*'') p"
  by (induction p) auto

lemma glob_ref_star: "glob_ref (''*'' # p) t \<longleftrightarrow> (\<exists>k \<le> length t. glob_ref p (drop k t))"
proof (induction t)
  case Nil
  then show ?case by simp
next
  case (Cons c t)
  have "(\<exists>k \<le> length (c # t). glob_ref p (drop k (c # t))) \<longleftrightarrow>
      glob_ref p (c # t) \<or> (\<exists>k \<le> length t. glob_ref p (drop k t))"
    by (auto simp: less_Suc_eq_le) (metis drop0 drop_Suc_Cons le0 Suc_le_mono Suc_pred' drop_Cons' gr_zeroI)+
  with Cons show ?case by simp
qed

text \<open>A stretch without a star takes as many characters as it is long.\<close>

lemma glob_ref_literal:
  "''*'' \<notin> set seg \<Longrightarrow> glob_ref (seg @ p) t \<Longrightarrow> length seg \<le> length t \<and> glob_ref p (drop (length seg) t)"
proof (induction seg arbitrary: t)
  case (Cons g seg)
  then obtain c u where "t = c # u" by (cases t) auto
  with Cons show ?case by auto
qed simp

section \<open>The loop\<close>

definition segment :: "string list \<Rightarrow> nat \<Rightarrow> nat \<Rightarrow> string list" where
  "segment p a b = take (b - a) (drop a p)"

definition glob_inv :: "string list \<Rightarrow> string list \<Rightarrow> nat \<Rightarrow> nat \<Rightarrow> nat option \<Rightarrow> nat \<Rightarrow> bool" where
  "glob_inv p t pi ti star mk \<longleftrightarrow> pi \<le> length p \<and> ti \<le> length t \<and>
     (case star of
        None \<Rightarrow> glob_ref p t = glob_ref (drop pi p) (drop ti t)
      | Some s \<Rightarrow> s < pi \<and> p ! s = ''*'' \<and> ''*'' \<notin> set (segment p (Suc s) pi) \<and> mk + (pi - Suc s) = ti \<and>
          glob_ref p t = glob_ref (drop s p) (drop mk t) \<and>
          glob_ref (drop (Suc s) p) (drop mk t) = glob_ref (drop pi p) (drop ti t))"

lemma segment_split: "a \<le> b \<Longrightarrow> b \<le> length p \<Longrightarrow> drop a p = segment p a b @ drop b p \<and> length (segment p a b) = b - a"
  unfolding segment_def by (metis append_take_drop_id diff_le_mono drop_drop le_add_diff_inverse2 length_drop length_take min.absorb2)

lemma segment_Suc: "a \<le> b \<Longrightarrow> b < length p \<Longrightarrow> segment p a (Suc b) = segment p a b @ [p ! b]"
  by (simp add: segment_def Suc_diff_le take_Suc_conv_app_nth)

lemma inv_literal:
  assumes inv: "glob_inv p t pi ti star mk" and lt: "ti < length t" "pi < length p"
    and hit: "p ! pi = ''?'' \<or> p ! pi = t ! ti" and "t ! ti \<noteq> ''*''"
  shows "glob_inv p t (Suc pi) (Suc ti) star mk"
proof -
  have no: "p ! pi \<noteq> ''*''" using assms by auto
  have step: "glob_ref (drop pi p) (drop ti t) = glob_ref (drop (Suc pi) p) (drop (Suc ti) t)"
    using hit no lt by (simp add: Cons_nth_drop_Suc [symmetric])
  show ?thesis
    using inv step lt no segment_Suc [of _ pi p]
    by (cases star) (auto simp: glob_inv_def)
qed

lemma inv_star:
  assumes inv: "glob_inv p t pi ti star mk" and lt: "ti < length t" "pi < length p" and star: "p ! pi = ''*''"
  shows "glob_inv p t (Suc pi) ti (Some pi) ti"
proof -
  have "glob_ref p t = glob_ref (drop pi p) (drop ti t)"
  proof (cases star)
    case None
    with inv show ?thesis by (simp add: glob_inv_def)
  next
    case (Some s)
    let ?seg = "segment p (Suc s) pi"
    have s: "s < pi" "p ! s = ''*''" "''*'' \<notin> set ?seg" "mk + (pi - Suc s) = ti"
      and whole: "glob_ref p t = glob_ref (drop s p) (drop mk t)"
      and now: "glob_ref (drop (Suc s) p) (drop mk t) = glob_ref (drop pi p) (drop ti t)"
      using inv Some by (auto simp: glob_inv_def)
    have seg: "drop (Suc s) p = ?seg @ drop pi p" "length ?seg = pi - Suc s"
      using segment_split [of "Suc s" pi p] s(1) lt(2) by auto
    have here: "drop pi p = ''*'' # drop (Suc pi) p" using star lt(2) by (metis Cons_nth_drop_Suc)
    have dss: "drop s p = ''*'' # drop (Suc s) p" using s lt(2) by (metis Cons_nth_drop_Suc order.strict_trans)
    have "glob_ref (drop pi p) (drop ti t)" if "glob_ref (drop s p) (drop mk t)"
    proof -
      from that obtain k where "glob_ref (?seg @ drop pi p) (drop (k + mk) t)"
        unfolding dss seg(1) glob_ref_star by (auto simp: add.commute)
      then have "glob_ref (drop pi p) (drop (k + ti) t)"
        using glob_ref_literal [OF s(3)] seg(2) s(4) by (fastforce simp: add.assoc add.commute)
      then obtain j where "glob_ref (drop (Suc pi) p) (drop (j + k + ti) t)"
        unfolding here glob_ref_star by (auto simp: add.assoc)
      then show ?thesis
        unfolding here glob_ref_star drop_drop
        by (metis drop_all drop_drop le_refl length_drop nat_le_linear)
    qed
    moreover have "glob_ref (drop s p) (drop mk t)" if "glob_ref (drop pi p) (drop ti t)"
      using that now unfolding dss glob_ref_star by (metis drop0 le0)
    ultimately show ?thesis using whole by blast
  qed
  moreover have "segment p (Suc pi) (Suc pi) = []" by (simp add: segment_def)
  ultimately show ?thesis using lt star by (simp add: glob_inv_def)
qed

lemma attempt_fails:
  assumes "ti < length t" and "\<not> (pi < length p \<and> (p ! pi = ''?'' \<or> p ! pi = t ! ti))" "\<not> (pi < length p \<and> p ! pi = ''*'')"
  shows "\<not> glob_ref (drop pi p) (drop ti t)"
  using assms by (cases "pi < length p") (simp_all add: Cons_nth_drop_Suc [symmetric])

lemma inv_back:
  assumes inv: "glob_inv p t pi ti (Some s) mk" and lt: "ti < length t"
    and fails: "\<not> glob_ref (drop pi p) (drop ti t)"
  shows "glob_inv p t (Suc s) (Suc mk) (Some s) (Suc mk)"
proof -
  have s: "s < pi" "pi \<le> length p" "p ! s = ''*''" "mk < length t"
    and whole: "glob_ref p t = glob_ref (drop s p) (drop mk t)"
    and now: "\<not> glob_ref (drop (Suc s) p) (drop mk t)"
    using inv lt fails by (auto simp: glob_inv_def)
  have dss: "drop s p = ''*'' # drop (Suc s) p" using s by (metis Cons_nth_drop_Suc order.strict_trans2)
  have "glob_ref p t = glob_ref (drop s p) (drop (Suc mk) t)"
    using whole now s(4) unfolding dss by (simp add: Cons_nth_drop_Suc [symmetric])
  with s show ?thesis by (simp add: glob_inv_def segment_def)
qed

lemma inv_end:
  assumes inv: "glob_inv p t pi ti star mk" and "\<not> ti < length t"
  shows "glob_ref p t = list_all (\<lambda>g. g = ''*'') (drop pi p)"
proof (cases star)
  case None
  with assms show ?thesis by (simp add: glob_inv_def glob_ref_nil)
next
  case (Some s)
  let ?seg = "segment p (Suc s) pi"
  have s: "s < pi" "pi \<le> length p" "p ! s = ''*''" "''*'' \<notin> set ?seg" "mk + (pi - Suc s) = length t"
    and whole: "glob_ref p t = glob_ref (drop s p) (drop mk t)"
    and now: "glob_ref (drop (Suc s) p) (drop mk t) = glob_ref (drop pi p) []"
    using assms Some by (auto simp: glob_inv_def)
  have seg: "drop (Suc s) p = ?seg @ drop pi p" "length ?seg = pi - Suc s"
    using segment_split [of "Suc s" pi p] s by auto
  have dss: "drop s p = ''*'' # drop (Suc s) p" using s by (metis Cons_nth_drop_Suc order.strict_trans2)
  have "glob_ref (drop (Suc s) p) (drop mk t)" if "glob_ref (drop (Suc s) p) (drop k (drop mk t))" "k \<le> length (drop mk t)" for k
  proof -
    have "length ?seg \<le> length (drop k (drop mk t))"
      using glob_ref_literal [OF s(4)] that(1) unfolding seg(1) by blast
    then have "k = 0" using that(2) seg(2) s(5) by simp
    with that show ?thesis by simp
  qed
  then have "glob_ref (drop s p) (drop mk t) = glob_ref (drop (Suc s) p) (drop mk t)"
    unfolding dss glob_ref_star by (metis drop0 le0)
  with whole now show ?thesis by (simp add: glob_ref_nil)
qed

lemma glob_loop_ref:
  "''*'' \<notin> set t \<Longrightarrow> glob_inv p t pi ti star mk \<Longrightarrow> glob_loop p t pi ti star mk = glob_ref p t"
proof (induction p t pi ti star mk rule: glob_loop.induct)
  case (1 p t pi ti star mk)
  show ?case
  proof (cases "ti < length t")
    case False
    with inv_end [OF "1.prems"(2)] show ?thesis by (subst glob_loop.simps) simp
  next
    case lt: True
    then have ns: "t ! ti \<noteq> ''*''" using "1.prems"(1) nth_mem [of ti t] by metis
    consider (lit) "pi < length p" "p ! pi = ''?'' \<or> p ! pi = t ! ti"
      | (star) "\<not> (pi < length p \<and> (p ! pi = ''?'' \<or> p ! pi = t ! ti))" "pi < length p" "p ! pi = ''*''"
      | (other) "\<not> (pi < length p \<and> (p ! pi = ''?'' \<or> p ! pi = t ! ti))" "\<not> (pi < length p \<and> p ! pi = ''*'')"
      by blast
    then show ?thesis
    proof cases
      case lit
      with "1.IH"(1) lt "1.prems"(1) inv_literal [OF "1.prems"(2) lt lit ns] show ?thesis
        by (subst glob_loop.simps) simp
    next
      case star
      with "1.IH"(2) lt "1.prems"(1) inv_star [OF "1.prems"(2) lt star(2,3)] show ?thesis
        by (subst glob_loop.simps) simp
    next
      case other
      note fails = attempt_fails [OF lt other]
      show ?thesis
      proof (cases star)
        case None
        with "1.prems"(2) fails have "\<not> glob_ref p t" by (simp add: glob_inv_def)
        with None lt other show ?thesis by (subst glob_loop.simps) auto
      next
        case (Some s)
        have inv: "glob_inv p t (Suc s) (Suc mk) (Some s) (Suc mk)"
          using inv_back [OF _ lt fails] "1.prems"(2) Some by simp
        with "1.IH"(3) [OF lt other Some] "1.prems"(1) Some lt other show ?thesis
          by (subst glob_loop.simps) auto
      qed
    qed
  qed
qed

lemma chars_of_set: "g \<in> set (chars_of s) \<Longrightarrow> set g \<subseteq> set s"
proof (induction s rule: chars_of.induct)
  case (1 s)
  show ?case
  proof (cases "utf8_rest s")
    case None
    with 1(2) show ?thesis by (subst (asm) chars_of.simps) simp
  next
    case (Some t)
    then obtain p where s: "s = p @ t" using utf8_rest_char by blast
    from 1(2) Some have "g = take (length s - length t) s \<or> g \<in> set (chars_of t)"
      by (subst (asm) chars_of.simps) simp
    with 1(1) [OF Some] s show ?thesis by auto
  qed
qed

text \<open>
  Claim C30. A branch filter matches what it says: the loop with its one point of return agrees with
  the reading of the pattern in which a star stands for any run of characters, a question mark for one
  and everything else for itself, for every pattern and every text that holds no star itself (no ref name
  does), and it always ends.
\<close>

theorem glob_match_is_reference:
  assumes "CHR ''*'' \<notin> set txt"
  shows "glob_match pattern txt = glob_ref (chars_of pattern) (chars_of txt)"
proof -
  have "''*'' \<notin> set (chars_of txt)" using assms chars_of_set by fastforce
  then show ?thesis
    unfolding glob_match_def by (rule glob_loop_ref) (simp add: glob_inv_def)
qed

text \<open>For a text that holds a star it does not: the star of the pattern is taken for that character.\<close>

lemma chars_of_ascii: "\<forall>c \<in> set s. byte c < 0x80 \<Longrightarrow> chars_of s = map (\<lambda>c. [c]) s"
  by (induction s) (simp_all add: chars_of.simps Suc_diff_le)

lemma star_taken_for_itself:
  "\<not> glob_match ''*'' ''*a'' \<and> glob_ref (chars_of ''*'') (chars_of ''*a'')"
proof -
  have "chars_of ''*'' = [''*'']" "chars_of ''*a'' = [''*'', ''a'']"
    by (simp_all add: chars_of_ascii byte_def)
  then show ?thesis by (simp add: glob_match_def glob_loop.simps)
qed

theorem glob_match_is_reference_witness:
  "glob_match ''release/*-rc?'' ''release/a-rc-rc1'' \<and> \<not> glob_match ''release/*-rc?'' ''release/a-rc''"
  using glob_match_is_reference [of "''release/a-rc-rc1''" "''release/*-rc?''"]
    glob_match_is_reference [of "''release/a-rc''" "''release/*-rc?''"]
  by (simp add: chars_of_ascii byte_def)

end
