(* ===== verification/GitUrl.thy ===== *)
theory GitUrl
  imports GitGlob
begin

text \<open>
  What the checks of a repository URL establish: a destination is the canonical reading of the URL, and
  the path of an accepted file URL is the one that is checked.
\<close>

section \<open>Ports in decimal\<close>

lemma length_show_nat: "n < 10 ^ k \<Longrightarrow> 0 < k \<Longrightarrow> length (show_nat n) \<le> k"
proof (induction k arbitrary: n)
  case (Suc k)
  show ?case
  proof (cases "n < 10")
    case True
    then show ?thesis by (subst show_nat.simps) simp
  next
    case False
    with Suc.prems have "n div 10 < 10 ^ k" "0 < k"
      by (auto simp: div_less_iff_less_mult mult.commute intro: gr0I)
    with Suc.IH have "length (show_nat (n div 10)) \<le> k" by blast
    with False show ?thesis by (subst show_nat.simps) simp
  qed
qed simp

lemma show_word_digits: "list_all ascii_digit (show_word x)"
  using show_word_no_special [of _ x] by (auto simp: list_all_iff ascii_digit_def between_def byte_def)

lemma port_roundtrip: "n \<noteq> 0 \<Longrightarrow> port_of dflt (Some (show_word n)) = Some n"
proof -
  have "unat n < 10 ^ 5" using unat_bound [of n] by simp
  then have "length (show_word n) \<le> 5" unfolding show_word_def by (rule length_show_nat) simp
  then show "n \<noteq> 0 \<Longrightarrow> port_of dflt (Some (show_word n)) = Some n"
    using show_word_digits [of n] by (simp add: port_of_def) (simp add: show_word_def)
qed

lemma port_of_Some: "port_of dflt p = Some n \<Longrightarrow> dflt \<noteq> 0 \<Longrightarrow> n \<noteq> 0 \<and>
   (\<forall>q. p = Some q \<longrightarrow> list_all ascii_digit q)"
  by (auto simp: port_of_def split: option.splits if_splits)

section \<open>Hosts\<close>

lemma digit_facts: "ascii_digit c \<Longrightarrow> between 45 c 122 \<and> c \<noteq> CHR ''@'' \<and> c \<noteq> CHR '':'' \<and> c \<noteq> CHR ''/'' \<and> c \<noteq> CHR 0x5C"
  by (auto simp: ascii_digit_def between_def byte_def)

definition host_char :: "char \<Rightarrow> bool" where
  "host_char c \<longleftrightarrow> between 45 c 122 \<and> c \<notin> {CHR ''@'', CHR '':'', CHR ''/'', CHR 0x5C, CHR ''['', CHR '']''}"

lemma alnum_host: "alnum c \<or> c = CHR ''-'' \<or> c = CHR ''.'' \<Longrightarrow> host_char c"
  by (auto simp: host_char_def alnum_def ascii_alphabetic_def ascii_digit_def between_def byte_def)

lemma to_lower_byte: "byte (to_lower c) = (if between 65 c 90 then byte c + 32 else byte c)"
  by (auto simp: to_lower_def between_def byte_def)

lemma to_lower_alnum: "alnum (to_lower c) = alnum c"
  by (auto simp: alnum_def ascii_alphabetic_def ascii_digit_def between_def to_lower_byte)

lemma to_lower_hexdigit: "hexdigit (to_lower c) = hexdigit c"
  by (auto simp: hexdigit_def ascii_digit_def between_def to_lower_byte)

lemma to_lower_other: "\<not> between 65 c 90 \<Longrightarrow> \<not> between 97 c 122 \<Longrightarrow> to_lower d = c \<longleftrightarrow> d = c"
  by (auto simp: to_lower_def between_def byte_def)

lemma to_lower_marks [simp]:
  "to_lower d = CHR ''-'' \<longleftrightarrow> d = CHR ''-''" "to_lower d = CHR ''.'' \<longleftrightarrow> d = CHR ''.''"
  "to_lower d = CHR '':'' \<longleftrightarrow> d = CHR '':''"
  by (rule to_lower_other; simp add: between_def byte_def)+

lemma split_on_lower: "split_on (CHR ''.'') (map to_lower s) = map (map to_lower) (split_on (CHR ''.'') s)"
  by (induction s) (auto split: list.splits)

lemma label_ok_lower: "label_ok (map to_lower l) = label_ok l"
proof -
  have "starts_with (map to_lower l) ''-'' = starts_with l ''-''" for l
    by (cases l) (auto simp: starts_with_def)
  then show ?thesis
    by (simp add: label_ok_def ends_with_def list_all_iff to_lower_alnum rev_map)
qed

lemma host_ok_lower: "host_ok (map to_lower h) = host_ok h"
  by (simp add: host_ok_def split_on_lower list_all_iff label_ok_lower)

lemma in_split_on: "c \<in> set s \<Longrightarrow> c \<noteq> sep \<Longrightarrow> \<exists>l \<in> set (split_on sep s). c \<in> set l"
  by (induction s) (auto split: list.splits)

lemma host_ok_chars: "host_ok h \<Longrightarrow> c \<in> set h \<Longrightarrow> host_char c"
proof -
  assume ok: "host_ok h" and c: "c \<in> set h"
  show "host_char c"
  proof (cases "c = CHR ''.''")
    case False
    with c obtain l where "l \<in> set (split_on (CHR ''.'') h)" "c \<in> set l" using in_split_on by metis
    with ok have "alnum c \<or> c = CHR ''-''" by (auto simp: host_ok_def label_ok_def list_all_iff)
    then show ?thesis using alnum_host by blast
  qed (simp add: alnum_host)
qed

lemma host_ok_free: "host_ok h \<Longrightarrow> x \<in> {CHR ''@'', CHR '':'', CHR ''/'', CHR 0x5C, CHR ''['', CHR '']''} \<Longrightarrow> x \<notin> set h"
  using host_ok_chars by (fastforce simp: host_char_def)

lemma host_not_bracket: "host_ok h \<Longrightarrow> strip_prefix ''['' (h @ s) = None \<or> h = []"
  using host_ok_free [of h "CHR ''[''"] by (cases h) auto

lemma host_ok_ne: "\<not> host_ok []"
  by (simp add: host_ok_def label_ok_def)

section \<open>Authorities\<close>

definition with_port :: "string \<Rightarrow> string option \<Rightarrow> string" where
  "with_port h p = (case p of None \<Rightarrow> h | Some q \<Rightarrow> h @ CHR '':'' # q)"

text \<open>What holds of a host that is read: it is the lower-case form of what the URL says and reads back.\<close>

definition host_read :: "string \<Rightarrow> string \<Rightarrow> bool" where
  "host_read h host \<longleftrightarrow> host = map to_lower h \<and> map to_lower host = host \<and> h \<noteq> [] \<and>
     (\<forall>c \<in> set host. byte c < 0x80 \<and> between 45 c 122 \<and> c \<notin> {CHR ''@'', CHR ''/'', CHR 0x5C}) \<and>
     CHR ''@'' \<notin> set h \<and> (\<forall>q. host_and_port (host @ CHR '':'' # q) = Some (host, Some q)) \<and>
     (CHR '':'' \<notin> set h \<or> (\<exists>x. h = x @ '']''))"

lemma host_read_plain: "host_ok h \<Longrightarrow> host_read h (map to_lower h)"
proof -
  assume ok: "host_ok h"
  then have low: "host_ok (map to_lower h)" by (simp add: host_ok_lower)
  have "strip_prefix ''['' (map to_lower h @ s) = None" for s
    using host_not_bracket [OF low, of s] host_ok_ne ok by (auto simp del: strip_prefix.simps)
  moreover have "split_once (CHR '':'') (map to_lower h @ CHR '':'' # q) = Some (map to_lower h, q)" for q
    using host_ok_free [OF low, of "CHR '':''"] by (intro split_once_append) simp
  ultimately have "host_and_port (map to_lower h @ CHR '':'' # q) = Some (map to_lower h, Some q)" for q
    using low by (simp add: host_and_port_def to_lower_idem comp_def)
  moreover have "byte c < 0x80 \<and> between 45 c 122 \<and> c \<notin> {CHR ''@'', CHR ''/'', CHR 0x5C}" if "c \<in> set (map to_lower h)" for c
    using host_ok_chars [OF low that] by (auto simp: host_char_def between_def)
  moreover have "CHR '':'' \<notin> set h" "CHR ''@'' \<notin> set h" "h \<noteq> []"
    using host_ok_free [OF ok] host_ok_ne ok by auto
  ultimately show ?thesis by (simp add: host_read_def to_lower_idem comp_def)
qed

lemma host_read_bracket:
  assumes "CHR '':'' \<in> set inner" and ok: "list_all (\<lambda>c. hexdigit c \<or> c = CHR '':'' \<or> c = CHR ''.'') inner"
  shows "host_read (''['' @ inner @ '']'') (''['' @ map to_lower inner @ '']'')"
proof -
  have chars: "byte c < 0x80 \<and> between 45 c 122 \<and> c \<notin> {CHR ''@'', CHR ''/'', CHR 0x5C, CHR '']''}"
    if "hexdigit c \<or> c = CHR '':'' \<or> c = CHR ''.''" for c
    using that by (auto simp: hexdigit_def ascii_digit_def between_def byte_def)
  have low: "list_all (\<lambda>c. hexdigit c \<or> c = CHR '':'' \<or> c = CHR ''.'') (map to_lower inner)"
    using ok by (simp add: list_all_iff to_lower_hexdigit)
  have no: "CHR '']'' \<notin> set (map to_lower inner)" using low chars unfolding list_all_iff by blast
  have colon: "CHR '':'' \<in> to_lower ` set inner"
    using assms(1) to_lower_marks(3) by (metis image_eqI)
  have split: "split_once (CHR '']'') (map to_lower inner @ CHR '']'' # s) = Some (map to_lower inner, s)" for s
    using no by (rule split_once_append)
  have "host_and_port ((''['' @ map to_lower inner @ '']'') @ CHR '':'' # q) =
      Some (''['' @ map to_lower inner @ '']'', Some q)" for q
    using low colon split [of "CHR '':'' # q"] by (simp add: host_and_port_def starts_with_def to_lower_idem comp_def)
  moreover have "to_lower (CHR ''['') = CHR ''[''" "to_lower (CHR '']'') = CHR '']''"
    by (simp_all add: to_lower_def between_def byte_def)
  moreover have "\<forall>c \<in> set (map to_lower inner). byte c < 0x80 \<and> between 45 c 122 \<and> c \<notin> {CHR ''@'', CHR ''/'', CHR 0x5C}"
    using low chars unfolding list_all_iff by blast
  moreover have "CHR ''@'' \<notin> set inner" using ok chars unfolding list_all_iff by blast
  ultimately show ?thesis
    by (simp add: host_read_def to_lower_idem comp_def) (simp add: between_def byte_def)
qed

lemma host_and_port_read:
  assumes "host_and_port hp = Some (host, p)"
  obtains h where "hp = with_port h p" "host_read h host"
proof (cases "strip_prefix ''['' hp")
  case None
  show ?thesis
  proof (cases "split_once (CHR '':'') hp")
    case None
    with assms \<open>strip_prefix ''['' hp = None\<close> that [of hp] show ?thesis
      by (auto simp: host_and_port_def with_port_def host_read_plain simp del: strip_prefix.simps split: if_splits)
  next
    case (Some x)
    obtain h q where x: "x = (h, q)" by force
    with Some have "hp = h @ CHR '':'' # q" using split_once_Some by blast
    with Some x assms \<open>strip_prefix ''['' hp = None\<close> that [of h] show ?thesis
      by (auto simp: host_and_port_def with_port_def host_read_plain simp del: strip_prefix.simps split: if_splits)
  qed
next
  case (Some rest)
  then have hp: "hp = CHR ''['' # rest" by (simp only: strip_prefix_Some_iff) simp
  obtain inner after where s: "split_once (CHR '']'') rest = Some (inner, after)"
    using assms Some by (auto simp: host_and_port_def simp del: strip_prefix.simps split: option.splits)
  then have rest: "rest = inner @ CHR '']'' # after" using split_once_Some by blast
  have shape: "after = [] \<or> (\<exists>q. after = CHR '':'' # q)"
    and ok: "CHR '':'' \<in> set inner" "list_all (\<lambda>c. hexdigit c \<or> c = CHR '':'' \<or> c = CHR ''.'') inner"
    and r: "host = ''['' @ map to_lower inner @ '']''" "p = strip_prefix '':'' after"
    using assms Some s
    by (auto simp: host_and_port_def starts_with_def simp del: strip_prefix.simps split: if_splits)
      (metis list.exhaust_sel take_Suc take0 list.inject)
  have "hp = with_port (''['' @ inner @ '']'') p" using shape r(2) by (auto simp: hp rest with_port_def)
  with host_read_bracket [OF ok] r(1) that show ?thesis by blast
qed

lemma filter_length_zero: "c \<notin> set s \<Longrightarrow> filter (\<lambda>x. x = c) s = []"
  by (induction s) auto

text \<open>An authority that is read: an optional user without a colon, the host, an optional port.\<close>

lemma authority_read:
  assumes "authority a dflt = Some (host, n)" and "dflt \<noteq> 0"
  obtains u h p where "a = u @ with_port h p" "u = [] \<or> (\<exists>v. u = v @ ''@'' \<and> user_ok v)" "host_read h host"
    "n \<noteq> 0" "\<forall>q. p = Some q \<longrightarrow> list_all ascii_digit q" "port_of dflt p = Some n"
proof -
  obtain u hp where hp: "a = u @ hp" "u = [] \<or> (\<exists>v. u = v @ ''@'' \<and> user_ok v)"
    and rest: "\<exists>p. host_and_port hp = Some (host, p) \<and> port_of dflt p = Some n"
  proof (cases "split_once (CHR ''@'') a")
    case None
    with assms(1) that [of "[]" a] show ?thesis
      by (auto simp: authority_def Let_def split: if_splits option.splits)
  next
    case (Some x)
    obtain v hp where x: "x = (v, hp)" by force
    with Some have "a = (v @ ''@'') @ hp" using split_once_Some by fastforce
    with Some x assms(1) that [of "v @ ''@''" hp] show ?thesis
      by (auto simp: authority_def Let_def split: if_splits option.splits)
  qed
  then obtain p where p: "host_and_port hp = Some (host, p)" "port_of dflt p = Some n" by blast
  from host_and_port_read [OF p(1)] obtain h where "hp = with_port h p" "host_read h host" .
  with hp port_of_Some [OF p(2) assms(2)] p(2) that [of u h p] show ?thesis by blast
qed

lemma authority_canonical:
  assumes "host_read h host" and "n \<noteq> 0"
  shows "authority (host @ CHR '':'' # show_word n) dflt = Some (host, n)"
proof -
  let ?a = "host @ CHR '':'' # show_word n"
  have "CHR ''@'' \<notin> set (show_word n)" using show_word_no_special [of "CHR ''@''" n] by auto
  moreover have "CHR ''@'' \<notin> set host" using assms(1) unfolding host_read_def by blast
  ultimately have no: "CHR ''@'' \<notin> set ?a" by simp
  then have "split_once (CHR ''@'') ?a = None" by (rule split_once_None)
  moreover have "host_and_port ?a = Some (host, Some (show_word n))" using assms(1) unfolding host_read_def by blast
  ultimately show ?thesis
    using filter_length_zero [OF no] port_roundtrip [OF assms(2), of dflt] by (simp add: authority_def)
qed

section \<open>Destinations\<close>

lemma first_part_free: "sep \<notin> set s \<Longrightarrow> first_part sep s = s"
  by (simp add: first_part_def split_on_free)

lemma first_part_append: "sep \<notin> set x \<Longrightarrow> first_part sep (x @ sep # s) = x"
  by (simp add: first_part_def split_on_append_sep)

lemma split_on_later: "\<exists>y ys. split_on sep (x @ sep # s) = y # ys @ split_on sep s"
proof (induction x)
  case Nil
  then show ?case by simp
next
  case (Cons c x)
  then obtain y ys where "split_on sep (x @ sep # s) = y # ys @ split_on sep s" by blast
  then show ?case by (cases "c = sep") (auto intro: exI [of _ "y # ys"])
qed

lemma last_part_append: "sep \<notin> set s \<Longrightarrow> last_part sep (x @ sep # s) = s"
  using split_on_later [of sep x s] by (auto simp: last_part_def split_on_free)

lemma last_part_free: "sep \<notin> set s \<Longrightarrow> last_part sep s = s"
  by (simp add: last_part_def split_on_free)

lemma rsplit_once_none: "c \<notin> set s \<Longrightarrow> rsplit_once c s = None"
  by (simp add: rsplit_once_def split_once_None)

lemma user_no_colon: "user_ok v \<Longrightarrow> CHR '':'' \<notin> set v \<and> CHR ''@'' \<notin> set v"
  by (auto simp: user_ok_def user_char_def list_all_iff alnum_def ascii_alphabetic_def ascii_digit_def between_def byte_def)

lemma digits_no: "list_all ascii_digit q \<Longrightarrow> CHR '':'' \<notin> set q \<and> CHR ''@'' \<notin> set q"
  using digit_facts by (fastforce simp: list_all_iff)

lemma plain_host_read:
  assumes "host_read h host" and digits: "\<forall>q. p = Some q \<longrightarrow> list_all ascii_digit q"
    and u: "u = [] \<or> (\<exists>v. u = v @ ''@'' \<and> user_ok v)"
  shows "plain_host (u @ with_port h p) = h"
proof -
  have "CHR ''@'' \<notin> set (with_port h p)"
    using assms(1) digits digits_no by (auto simp: with_port_def host_read_def split: option.splits)
  then have last: "last_part (CHR ''@'') (u @ with_port h p) = with_port h p"
    using u last_part_append [of "CHR ''@''" "with_port h p"] last_part_free [of "CHR ''@''" "with_port h p"] by auto
  show ?thesis
  proof (cases p)
    case (Some q)
    then have "rsplit_once (CHR '':'') (with_port h p) = Some (h, q)"
      using digits digits_no [of q] by (simp add: with_port_def rsplit_once_append)
    with Some digits last show ?thesis by (simp add: plain_host_def)
  next
    case None
    show ?thesis
    proof (cases "rsplit_once (CHR '':'') h")
      case None
      with \<open>p = None\<close> last show ?thesis by (simp add: plain_host_def with_port_def)
    next
      case (Some x)
      obtain a b where x: "x = (a, b)" by force
      then have h: "h = a @ CHR '':'' # b" using Some rsplit_once_Some by blast
      then obtain y where "h = y @ '']''" using assms(1) by (auto simp: host_read_def)
      then have "last h = CHR '']''" by simp
      with h have "b \<noteq> [] \<and> last b = CHR '']''" by (auto split: if_splits)
      then have "CHR '']'' \<in> set b" by (metis last_in_set)
      then have "\<not> list_all ascii_digit b"
        by (auto simp: list_all_iff ascii_digit_def between_def byte_def intro!: bexI [of _ "CHR '']''"])
      with Some x \<open>p = None\<close> last show ?thesis by (simp add: plain_host_def with_port_def)
    qed
  qed
qed

lemma visible_not_blank: "between 45 c 122 \<Longrightarrow> \<not> blank_char [c]"
  by (simp add: blank_char_def is_control_def is_whitespace_def between_def)

lemma destination_str_reads:
  assumes "host_read h (dst_host d)" and "dst_port d \<noteq> 0"
  shows "destination_of (destination_str d) = Some d"
proof -
  let ?t = "dst_transport d" and ?a = "dst_host d @ CHR '':'' # show_word (dst_port d)"
  have str: "destination_str d = transport_name ?t @ ''://'' @ ?a" by (simp add: destination_str_def)
  have port: "between 48 c 57" if "c \<in> set (show_word (dst_port d))" for c
    using show_word_no_special [OF that] by (simp add: between_def byte_def)
  have host: "byte c < 0x80 \<and> between 45 c 122 \<and> c \<noteq> CHR ''/'' \<and> c \<noteq> CHR 0x5C" if "c \<in> set (dst_host d)" for c
    using assms(1) that unfolding host_read_def by blast
  have slash: "CHR ''/'' \<notin> set ?a" using host port by (fastforce simp: between_def byte_def)
  have all: "byte c < 0x80 \<and> between 45 c 122 \<and> c \<noteq> CHR 0x5C" if "c \<in> set (destination_str d)" for c
  proof -
    from that consider "c \<in> set (transport_name ?t @ ''://'')" | "c \<in> set (dst_host d)" | "c = CHR '':''"
      | "c \<in> set (show_word (dst_port d))" unfolding str by auto
    then show ?thesis
      by cases (use host port in \<open>cases ?t; auto simp: between_def byte_def\<close>, use host in blast,
          simp add: between_def byte_def, use port in \<open>fastforce simp: between_def byte_def\<close>)
  qed
  have "\<not> list_ex (\<lambda>g. blank_char g \<or> g = [CHR 0x5C]) (chars_of (destination_str d))"
  proof -
    have "chars_of (destination_str d) = map (\<lambda>c. [c]) (destination_str d)"
      using all by (intro chars_of_ascii) blast
    then show ?thesis using all visible_not_blank by (auto simp: list_ex_iff)
  qed
  moreover have "schemed (destination_str d) = Some (?t, ?a)"
    unfolding str by (cases ?t) (simp_all add: schemed_def)
  ultimately show ?thesis
    using authority_canonical [OF assms] first_part_free [OF slash] by (simp add: destination_of_def) (simp add: str)
qed

lemma destination_read:
  assumes "destination_of url = Some d"
  obtains h where "host_read h (dst_host d)" "dst_port d \<noteq> 0"
    "\<forall>t rest. schemed url = Some (t, rest) \<longrightarrow> t = dst_transport d \<and>
       (let a = first_part (CHR ''/'') rest in plain_host a = h \<and> \<not> (CHR ''@'' \<in> set a \<and> has_password a))"
proof (cases "schemed url")
  case None
  then obtain left n where "authority left 22 = Some (dst_host d, n)" "dst_port d = 22"
    using assms by (auto simp: destination_of_def split: if_splits option.splits)
  with None that show ?thesis by (fastforce elim: authority_read)
next
  case (Some x)
  obtain t rest where x: "x = (t, rest)" by force
  let ?a = "first_part (CHR ''/'') rest"
  have t: "t = dst_transport d" and auth: "authority ?a (default_port t) = Some (dst_host d, dst_port d)"
    using assms Some x by (auto simp: destination_of_def split: if_splits)
  have "default_port t \<noteq> 0" by (cases t) simp_all
  from authority_read [OF auth this] obtain u h p where a: "?a = u @ with_port h p" "u = [] \<or> (\<exists>v. u = v @ ''@'' \<and> user_ok v)"
    "host_read h (dst_host d)" "dst_port d \<noteq> 0" "\<forall>q. p = Some q \<longrightarrow> list_all ascii_digit q" .
  have "\<not> (CHR ''@'' \<in> set ?a \<and> has_password ?a)"
    using a(2)
  proof
    assume "u = []"
    then have "CHR ''@'' \<notin> set ?a"
      using a digits_no by (auto simp: with_port_def host_read_def split: option.splits)
    then show ?thesis by blast
  next
    assume "\<exists>v. u = v @ ''@'' \<and> user_ok v"
    then obtain v where v: "?a = v @ CHR ''@'' # with_port h p" "user_ok v" using a(1) by auto
    then show ?thesis using user_no_colon [OF v(2)] by (simp add: has_password_def v(1) first_part_append)
  qed
  moreover have "plain_host ?a = h" unfolding a(1) by (rule plain_host_read) (use a in auto)
  ultimately show ?thesis using that [OF a(3,4)] Some x t by (simp add: Let_def)
qed

text \<open>
  The destination of a URL is a canonical name of where its requests go: printed and read
  again it is the same destination, its port is never 0, no password is in the URL's user part, and for
  plain http an accepted URL goes to a loopback host, so the two parsers of the crate agree on it.
\<close>

theorem destination_is_canonical:
  assumes "destination_of url = Some d"
  shows "destination_of (destination_str d) = Some d \<and> dst_port d \<noteq> 0 \<and>
    (\<forall>t rest. schemed url = Some (t, rest) \<longrightarrow>
       (let a = first_part (CHR ''/'') rest in \<not> (CHR ''@'' \<in> set a \<and> has_password a))) \<and>
    (dst_transport d = THttp \<and> is_ok (validate_url url) \<longrightarrow> dst_host d \<in> {''127.0.0.1'', ''localhost'', ''[::1]''})"
proof -
  obtain h where h: "host_read h (dst_host d)" "dst_port d \<noteq> 0"
    "\<forall>t rest. schemed url = Some (t, rest) \<longrightarrow> t = dst_transport d \<and>
       (let a = first_part (CHR ''/'') rest in plain_host a = h \<and> \<not> (CHR ''@'' \<in> set a \<and> has_password a))"
    using destination_read [OF assms] .
  have "dst_host d \<in> {''127.0.0.1'', ''localhost'', ''[::1]''}" if http: "dst_transport d = THttp" and ok: "is_ok (validate_url url)"
  proof -
    have "schemed url \<noteq> None" 
      using assms http by (auto simp: destination_of_def split: if_splits option.splits)
    then obtain rest where s: "schemed url = Some (THttp, rest)" using h(3) http by auto
    then have "strip_prefix ''https://'' url = None" "strip_prefix ''http://'' url = Some rest"
      by (auto simp: schemed_def simp del: strip_prefix.simps split: option.splits)
    then have "is_ok (validate_http rest)"
      using ok by (auto simp: validate_url_def simp del: strip_prefix.simps split: if_splits)
    then have "plain_host (first_part (CHR ''/'') rest) \<in> {''127.0.0.1'', ''localhost'', ''[::1]''}"
      by (auto simp: validate_http_def Let_def split: if_splits)
    then have "h \<in> {''127.0.0.1'', ''localhost'', ''[::1]''}" using h(3) s by (auto simp: Let_def)
    moreover have "dst_host d = map to_lower h" using h(1) by (simp add: host_read_def)
    ultimately show ?thesis by (auto simp: to_lower_def between_def byte_def)
  qed
  with h destination_str_reads [OF h(1,2)] show ?thesis by (auto simp: Let_def)
qed

lemma destination_example:
  "destination_of ''https://me@Git.Example:8443/a/b'' =
     Some \<lparr>dst_transport = THttps, dst_host = ''git.example'', dst_port = 8443\<rparr>"
  by (simp add: destination_of_def chars_of_ascii byte_def blank_char_def is_control_def is_whitespace_def schemed_def
      first_part_def authority_def user_ok_def user_char_def alnum_def ascii_alphabetic_def ascii_digit_def between_def
      host_and_port_def host_ok_def label_ok_def starts_with_def ends_with_def to_lower_def port_of_def parse_word_def
      parse_dec_def digit_val_def char_of_def bit_Suc_0_iff)

theorem destination_is_canonical_witness:
  "destination_of ''https://git.example:8443'' =
     Some \<lparr>dst_transport = THttps, dst_host = ''git.example'', dst_port = 8443\<rparr>"
proof -
  have "show_word (8443 :: u16) = ''8443''" by (simp add: show_word_def show_nat.simps digit_char_def char_of_def bit_Suc_0_iff)
  with destination_is_canonical [OF destination_example] show ?thesis by (simp add: destination_str_def)
qed

text \<open>
  The check of the URL alone reads the host after the last at sign of the authority, also where a question mark or a
  number sign ends the authority for the clients that fetch the URL.
\<close>

lemma loopback_check_reads_past_question_mark:
  "validate_url ''http://evil.example?@localhost/r'' = Inr UHttpLoopback \<and>
   destination_of ''http://evil.example?@localhost/r'' = None"
  by (simp add: validate_url_def validate_http_def max_url_def destination_of_def chars_of_ascii byte_def blank_char_def
      is_control_def is_whitespace_def schemed_def starts_with_def first_part_def last_part_def has_password_def
      plain_host_def rsplit_once_def authority_def user_ok_def user_char_def alnum_def ascii_alphabetic_def
      ascii_digit_def between_def)

section \<open>The path of a file URL\<close>

lemma hex_val_no_slash: "hex_val c = Some v \<Longrightarrow> c \<noteq> CHR ''/''"
  by (auto simp: hex_val_def)

lemma split_on_Cons: "c \<noteq> sep \<Longrightarrow> split_on sep (c # s) = (c # hd (split_on sep s)) # tl (split_on sep s)"
  by (cases "split_on sep s") (use split_on_ne [of sep s] in auto)

text \<open>Decoding keeps the components apart: each is the decoding of one component of the URL.\<close>

lemma percent_decode_components:
  "percent_decode p = Inr q \<Longrightarrow>
   list_all2 (\<lambda>a b. percent_decode a = Inr b) (split_on (CHR ''/'') p) (split_on (CHR ''/'') q)"
proof (induction p arbitrary: q rule: percent_decode.induct)
  case 1
  then show ?case by simp
next
  case (2 c s)
  show ?case
  proof (cases "c = CHR ''%''")
    case False
    then obtain out where out: "percent_decode s = Inr out" "q = c # out"
      using "2.prems" by (auto simp: bind_res_Inr_iff)
    have IH: "list_all2 (\<lambda>a b. percent_decode a = Inr b) (split_on (CHR ''/'') s) (split_on (CHR ''/'') out)"
      using "2.IH"(1) [OF False out(1)] .
    show ?thesis
    proof (cases "c = CHR ''/''")
      case True
      with IH out(2) show ?thesis by simp
    next
      case sep: False
      from IH False show ?thesis
        unfolding out(2) split_on_Cons [OF sep]
        by (cases "split_on (CHR ''/'') s"; cases "split_on (CHR ''/'') out") auto
    qed
  next
    case True
    then obtain h l t x y out where e: "s = h # l # t" "hex_val h = Some x" "hex_val l = Some y"
      "char_of (x * 16 + y) \<noteq> CHR ''/''" "percent_decode t = Inr out" "q = char_of (x * 16 + y) # out"
      using "2.prems" by (auto simp: bind_res_Inr_iff split: list.splits option.splits if_splits)
    have IH: "list_all2 (\<lambda>a b. percent_decode a = Inr b) (split_on (CHR ''/'') t) (split_on (CHR ''/'') out)"
      using "2.IH"(2) True e by simp
    have no: "c \<noteq> CHR ''/''" "h \<noteq> CHR ''/''" "l \<noteq> CHR ''/''" using True e hex_val_no_slash by auto
    from IH True e(2-4) show ?thesis
      unfolding e(1,6) split_on_Cons [OF e(4)] split_on_Cons [OF no(1)] split_on_Cons [OF no(2)] split_on_Cons [OF no(3)]
      by (cases "split_on (CHR ''/'') t"; cases "split_on (CHR ''/'') out") auto
  qed
qed

theorem file_path_stays_inside:
  assumes "file_url_path p = Inr q"
  shows "utf8_valid q \<and> starts_with q ''/'' \<and> ''.'' \<notin> set (split_on (CHR ''/'') q) \<and> ''..'' \<notin> set (split_on (CHR ''/'') q) \<and>
    \<not> list_ex is_control (chars_of q) \<and>
    list_all2 (\<lambda>a b. percent_decode a = Inr b) (split_on (CHR ''/'') p) (split_on (CHR ''/'') q)"
proof -
  have "percent_decode p = Inr q" using assms by (auto simp: file_url_path_def Let_def split: sum.splits if_splits)
  with assms percent_decode_components [OF this] show ?thesis
    by (auto simp: file_url_path_def Let_def list_ex_iff split: if_splits)
qed

end
