(* ===== verification/GitState.thy ===== *)
theory GitState
  imports Git BTree "HOL-Library.Product_Lexorder"
begin

text \<open>
  The git records of the journal (\<open>deploy/src/git.rs\<close>, from \<open>CredKind\<close> on): registrations, observed
  commits, deployment sources and removals, their validation and text form, and the state they rebuild.
\<close>

section \<open>Records\<close>

datatype cred_kind = CredNone | CredToken | CredSshKey

fun cred_str :: "cred_kind \<Rightarrow> string" where
  "cred_str CredNone = ''none''"
| "cred_str CredToken = ''token''"
| "cred_str CredSshKey = ''sshkey''"

definition cred_parse :: "string \<Rightarrow> string + cred_kind" where
  "cred_parse s =
     (if s = ''none'' then Inr CredNone else if s = ''token'' then Inr CredToken
      else if s = ''sshkey'' then Inr CredSshKey else Inl ''unknown credential kind'')"

datatype webhook_kind = GitHub | GitLab

fun webhook_str :: "webhook_kind \<Rightarrow> string" where
  "webhook_str GitHub = ''github''"
| "webhook_str GitLab = ''gitlab''"

record repo_rec =
  repo_name :: string
  repo_url :: string
  repo_username :: "string option"
  repo_cred :: cred_kind
  repo_known_host :: "string option"
  repo_webhook :: "webhook_kind option"
  repo_app :: application_id
  repo_project :: "string option"
  repo_environment :: "string option"
  repo_branch :: string
  repo_filters :: "string list"
  repo_container_port :: u16
  repo_dockerfile :: "string option"
  repo_context :: "string option"
  repo_target :: "string option"
  repo_health_path :: "string option"
  repo_at_ms :: u64

text \<open>\<open>{incarnation}\<close> is the decimal form of a \<open>usize\<close>.\<close>

definition poll_delivery :: "string \<Rightarrow> nat \<Rightarrow> string \<Rightarrow> string" where
  "poll_delivery name incarnation commit =
     (if incarnation = 0 then ''poll:'' @ name @ '':'' @ commit
      else ''poll:'' @ name @ '':r'' @ show_nat incarnation @ '':'' @ commit)"

definition secret_id_for :: "string \<Rightarrow> string \<Rightarrow> string" where
  "secret_id_for name what = ''git/'' @ name @ ''/'' @ what"

definition repo_secret_id :: "repo_rec \<Rightarrow> string \<Rightarrow> string" where
  "repo_secret_id r what = secret_id_for (repo_name r) what"

definition wants_branch :: "repo_rec \<Rightarrow> string \<Rightarrow> bool" where
  "wants_branch r branch =
     (if repo_filters r = [] then branch = repo_branch r
      else list_ex (\<lambda>f. glob_match f branch) (repo_filters r))"

fun check_filters :: "string list \<Rightarrow> string + unit" where
  "check_filters [] = Inr ()"
| "check_filters (f # fs) =
     (if f = [] \<or> 100 < length f \<or> list_ex blank_char (chars_of f) then Inl ''not a usable branch filter''
      else check_filters fs)"

fun check_names :: "string option list \<Rightarrow> string + unit" where
  "check_names [] = Inr ()"
| "check_names (None # ns) = check_names ns"
| "check_names (Some n # ns) = bind_res (git_token ''a name'' n) (\<lambda>_. check_names ns)"

definition cred_fits :: "url_kind \<Rightarrow> cred_kind \<Rightarrow> bool" where
  "cred_fits k c \<longleftrightarrow> \<not> (k = USsh \<and> c = CredToken \<or> (k = UHttps \<or> k = UHttpLoopback) \<and> c = CredSshKey)"

definition repo_validate :: "repo_rec \<Rightarrow> string + url_kind" where
  "repo_validate r =
     bind_res (check_repo_name (repo_name r)) (\<lambda>_.
     bind_res (validate_url (repo_url r)) (\<lambda>kind.
     bind_res (check_ref_name (repo_branch r)) (\<lambda>_.
     if max_filters < length (repo_filters r) then Inl ''at most 16 branch filters''
     else
       bind_res (check_filters (repo_filters r)) (\<lambda>_.
       if \<not> cred_fits kind (repo_cred r)
       then Inl ''the credential kind does not match the URL (token for https, sshkey for ssh)''
       else if kind = USsh \<and> repo_known_host r = None
       then Inl ''an SSH repository needs its pinned host key (--known-host): there is no trust on first use''
       else if repo_container_port r = 0 then Inl ''a container port is required''
       else
         bind_res (check_names [repo_username r, repo_project r, repo_environment r]) (\<lambda>_. Inr kind)))))"

record seen_rec =
  seen_repo :: string
  seen_ref_name :: string
  seen_commit :: string
  seen_at_ms :: u64

datatype selector_kind = SelBranch | SelTag | SelCommit

fun selector_str :: "selector_kind \<Rightarrow> string" where
  "selector_str SelBranch = ''branch''"
| "selector_str SelTag = ''tag''"
| "selector_str SelCommit = ''commit''"

definition selector_parse :: "string \<Rightarrow> string + selector_kind" where
  "selector_parse s =
     (if s = ''branch'' then Inr SelBranch else if s = ''tag'' then Inr SelTag
      else if s = ''commit'' then Inr SelCommit else Inl ''unknown selector'')"

record source_rec =
  src_deployment :: deployment_id
  src_repo :: string
  src_url :: string
  src_selector :: selector_kind
  src_requested :: string
  src_commit :: string
  src_trigger :: string
  src_delivery :: "string option"
  src_at_ms :: u64

record removed_rec =
  rm_name :: string
  rm_app :: application_id
  rm_registration :: u64
  rm_url :: string
  rm_cred :: cred_kind
  rm_at_ms :: u64

definition removed_validate :: "removed_rec \<Rightarrow> string + unit" where
  "removed_validate r =
     bind_res (check_repo_name (rm_name r)) (\<lambda>_. bind_res (validate_url (rm_url r)) (\<lambda>_. Inr ()))"

datatype git_record = GRepo repo_rec | GSeen seen_rec | GSource source_rec | GRemoved removed_rec

section \<open>Text form\<close>

definition opt_hex_str :: "string option \<Rightarrow> string" where
  "opt_hex_str v = (case v of Some s \<Rightarrow> hex_text s | None \<Rightarrow> ''-'')"

definition unopt :: "string \<Rightarrow> string + string option" where
  "unopt s =
     (if s = ''-'' then Inr None
      else bind_res (ok_or (unhex s) ''a field is not valid'') (\<lambda>v. Inr (Some v)))"

fun git_fields_of :: "git_record \<Rightarrow> string list" where
  "git_fields_of (GRepo x) =
     [''gitrepo'', ''1'', repo_name x, hex_text (repo_url x), opt_hex_str (repo_username x), cred_str (repo_cred x),
      opt_hex_str (repo_known_host x), (case repo_webhook x of Some w \<Rightarrow> webhook_str w | None \<Rightarrow> ''-''),
      app_str (repo_app x), opt_hex_str (repo_project x), opt_hex_str (repo_environment x),
      hex_text (repo_branch x),
      (if repo_filters x = [] then ''-'' else join_with '','' (map hex_text (repo_filters x))),
      show_word (repo_container_port x), opt_hex_str (repo_dockerfile x), opt_hex_str (repo_context x),
      opt_hex_str (repo_target x), opt_hex_str (repo_health_path x), show_word (repo_at_ms x)]"
| "git_fields_of (GRemoved x) =
     [''gitdrop'', ''1'', rm_name x, app_str (rm_app x), show_word (rm_registration x), hex_text (rm_url x),
      cred_str (rm_cred x), show_word (rm_at_ms x)]"
| "git_fields_of (GSeen s) =
     [''gitseen'', ''1'', seen_repo s, hex_text (seen_ref_name s), seen_commit s, show_word (seen_at_ms s)]"
| "git_fields_of (GSource s) =
     [''gitsrc'', ''1'', dep_str (src_deployment s), src_repo s, hex_text (src_url s), selector_str (src_selector s),
      hex_text (src_requested s), src_commit s, src_trigger s,
      (case src_delivery s of Some d \<Rightarrow> d | None \<Rightarrow> ''-''), show_word (src_at_ms s)]"

definition git_encode :: "git_record \<Rightarrow> string" where
  "git_encode r = frame (join_with [TAB] (git_fields_of r))"

definition git_num :: "string \<Rightarrow> string \<Rightarrow> string + u64" where
  "git_num what s = ok_or (parse_word s) (''bad '' @ what)"

fun unhex_all :: "string list \<Rightarrow> string + string list" where
  "unhex_all [] = Inr []"
| "unhex_all (x # xs) =
     bind_res (ok_or (unhex x) ''a filter is not valid'') (\<lambda>v. bind_res (unhex_all xs) (\<lambda>vs. Inr (v # vs)))"

definition webhook_parse :: "string \<Rightarrow> string + webhook_kind option" where
  "webhook_parse s =
     (if s = ''-'' then Inr None else if s = ''github'' then Inr (Some GitHub)
      else if s = ''gitlab'' then Inr (Some GitLab) else Inl ''unknown webhook kind'')"

definition git_app :: "string \<Rightarrow> string + application_id" where
  "git_app s = map_err (\<lambda>_. ''bad application id'') (app_from_str s)"

definition decode_repo_fields :: "string list \<Rightarrow> string list \<Rightarrow> string + repo_rec" where
  "decode_repo_fields filters f =
     bind_res (ok_or (unhex (f ! 3)) ''the URL is not valid'') (\<lambda>url.
     bind_res (unopt (f ! 4)) (\<lambda>user.
     bind_res (cred_parse (f ! 5)) (\<lambda>cred.
     bind_res (unopt (f ! 6)) (\<lambda>known.
     bind_res (webhook_parse (f ! 7)) (\<lambda>hook.
     bind_res (git_app (f ! 8)) (\<lambda>app.
     bind_res (unopt (f ! 9)) (\<lambda>project.
     bind_res (unopt (f ! 10)) (\<lambda>env.
     bind_res (ok_or (unhex (f ! 11)) ''the branch is not valid'') (\<lambda>branch.
     bind_res (ok_or (parse_word (f ! 13)) ''bad container port'') (\<lambda>port.
     bind_res (unopt (f ! 14)) (\<lambda>dockerfile.
     bind_res (unopt (f ! 15)) (\<lambda>ctx.
     bind_res (unopt (f ! 16)) (\<lambda>target.
     bind_res (unopt (f ! 17)) (\<lambda>health.
     bind_res (git_num ''time'' (f ! 18)) (\<lambda>t.
     Inr \<lparr>repo_name = f ! 2, repo_url = url, repo_username = user, repo_cred = cred, repo_known_host = known,
          repo_webhook = hook, repo_app = app, repo_project = project, repo_environment = env, repo_branch = branch,
          repo_filters = filters, repo_container_port = port, repo_dockerfile = dockerfile, repo_context = ctx,
          repo_target = target, repo_health_path = health, repo_at_ms = t\<rparr>)))))))))))))))"

definition decode_repo :: "string list \<Rightarrow> string + git_record" where
  "decode_repo f =
     (if length f \<noteq> 19 then Inl ''a repository record has the wrong number of fields''
      else
        bind_res (if f ! 12 = ''-'' then Inr [] else unhex_all (split_on (CHR '','') (f ! 12))) (\<lambda>filters.
        bind_res (decode_repo_fields filters f) (\<lambda>r.
        bind_res (repo_validate r) (\<lambda>_. Inr (GRepo r)))))"

definition decode_removed :: "string list \<Rightarrow> string + git_record" where
  "decode_removed f =
     (if length f \<noteq> 8 then Inl ''a removal record has the wrong number of fields''
      else
        bind_res (git_app (f ! 3)) (\<lambda>app.
        bind_res (git_num ''registration version'' (f ! 4)) (\<lambda>v.
        bind_res (ok_or (unhex (f ! 5)) ''the URL is not valid'') (\<lambda>url.
        bind_res (cred_parse (f ! 6)) (\<lambda>cred.
        bind_res (git_num ''time'' (f ! 7)) (\<lambda>t.
        let r = \<lparr>rm_name = f ! 2, rm_app = app, rm_registration = v, rm_url = url, rm_cred = cred, rm_at_ms = t\<rparr>
        in bind_res (removed_validate r) (\<lambda>_. Inr (GRemoved r))))))))"

definition decode_seen :: "string list \<Rightarrow> string + git_record" where
  "decode_seen f =
     (if length f \<noteq> 6 then Inl ''an observation has the wrong number of fields''
      else
        bind_res (check_repo_name (f ! 2)) (\<lambda>_.
        if \<not> is_commit (f ! 4) then Inl ''an observation names no commit''
        else
          bind_res (ok_or (unhex (f ! 3)) ''the ref is not valid'') (\<lambda>ref.
          bind_res (git_num ''time'' (f ! 5)) (\<lambda>t.
          Inr (GSeen \<lparr>seen_repo = f ! 2, seen_ref_name = ref, seen_commit = f ! 4, seen_at_ms = t\<rparr>)))))"

definition decode_source :: "string list \<Rightarrow> string + git_record" where
  "decode_source f =
     (if length f \<noteq> 11 then Inl ''a source record has the wrong number of fields''
      else
        bind_res (check_repo_name (f ! 3)) (\<lambda>_.
        if \<not> is_commit (f ! 7) then Inl ''a source record names no commit''
        else
          bind_res (ok_or (unhex (f ! 4)) ''the URL is not valid'') (\<lambda>url.
          bind_res (validate_url url) (\<lambda>_.
          bind_res (map_err (\<lambda>_. ''bad deployment id'') (dep_from_str (f ! 2))) (\<lambda>d.
          bind_res (selector_parse (f ! 5)) (\<lambda>sel.
          bind_res (ok_or (unhex (f ! 6)) ''the requested ref is not valid'') (\<lambda>req.
          bind_res (git_num ''time'' (f ! 10)) (\<lambda>t.
          Inr (GSource \<lparr>src_deployment = d, src_repo = f ! 3, src_url = url, src_selector = sel, src_requested = req,
                        src_commit = f ! 7, src_trigger = f ! 8,
                        src_delivery = (if f ! 9 \<noteq> ''-'' then Some (f ! 9) else None), src_at_ms = t\<rparr>)))))))))"

definition git_decode :: "string list \<Rightarrow> string + git_record" where
  "git_decode f =
     (if length f < 2 \<or> f ! 1 \<noteq> ''1'' then Inl ''unknown git record version''
      else if f ! 0 = ''gitrepo'' then decode_repo f
      else if f ! 0 = ''gitdrop'' then decode_removed f
      else if f ! 0 = ''gitseen'' then decode_seen f
      else if f ! 0 = ''gitsrc'' then decode_source f
      else Inl ''not a git record'')"

section \<open>State\<close>

record git_state =
  git_repos :: "(string \<times> repo_rec) list"
  git_seen :: "((string \<times> string) \<times> seen_rec) list"
  git_sources :: "source_rec list"
  git_retired :: "removed_rec list"

definition git_empty :: git_state where
  "git_empty = \<lparr>git_repos = [], git_seen = [], git_sources = [], git_retired = []\<rparr>"

definition retired_owner :: "git_state \<Rightarrow> application_id \<Rightarrow> string option" where
  "retired_owner s app = map_option rm_name (List.find (\<lambda>x. rm_app x = app) (git_retired s))"

definition claim_conflict :: "git_state \<Rightarrow> repo_rec \<Rightarrow> string option" where
  "claim_conflict s x =
     (case List.find (\<lambda>r. repo_name r \<noteq> repo_name x \<and> repo_app r = repo_app x) (bt_values (git_repos s)) of
        Some other \<Rightarrow>
          Some (''application '' @ app_str (repo_app x) @ '' is already deployed from repository '' @ repo_name other)
      | None \<Rightarrow>
          (case retired_owner s (repo_app x) of
             Some owner \<Rightarrow>
               if owner \<noteq> repo_name x
               then Some (''application '' @ app_str (repo_app x) @ '' belongs to the removed repository '' @ owner
                      @ ''; only that name can claim it again'')
               else None
           | None \<Rightarrow> None))"

fun git_apply :: "git_record \<Rightarrow> git_state \<Rightarrow> string + git_state" where
  "git_apply (GRepo x) s =
     (case claim_conflict s x of
        Some e \<Rightarrow> Inl e
      | None \<Rightarrow> Inr (s\<lparr>git_repos := bt_insert (repo_name x) x (git_repos s)\<rparr>))"
| "git_apply (GRemoved x) s =
     (case bt_get (git_repos s) (rm_name x) of
        None \<Rightarrow> Inl (''a removal names repository '' @ rm_name x @ '', which is not registered'')
      | Some live \<Rightarrow>
          if repo_app live \<noteq> rm_app x
          then Inl (''a removal of repository '' @ rm_name x @ '' names application '' @ app_str (rm_app x)
                 @ '', which is not its application'')
          else if repo_at_ms live \<noteq> rm_registration x
          then Inl (''a removal of repository '' @ rm_name x @ '' names another version of its registration'')
          else if repo_url live \<noteq> rm_url x \<or> repo_cred live \<noteq> rm_cred x
          then Inl (''a removal of repository '' @ rm_name x @ '' does not match the registration it removes'')
          else Inr (s\<lparr>git_repos := bt_remove (rm_name x) (git_repos s),
                      git_seen := filter (\<lambda>p. fst (fst p) \<noteq> rm_name x) (git_seen s),
                      git_retired := git_retired s @ [x]\<rparr>))"
| "git_apply (GSeen x) s =
     (if bt_get (git_repos s) (seen_repo x) = None
      then Inl (''an observation names repository '' @ seen_repo x @ '', which is not registered'')
      else Inr (s\<lparr>git_seen := bt_insert (seen_repo x, seen_ref_name x) x (git_seen s)\<rparr>))"
| "git_apply (GSource x) s =
     (if \<exists>y \<in> set (git_sources s). src_deployment y = src_deployment x
      then Inl (''deployment '' @ dep_str (src_deployment x) @ '' has two recorded sources'')
      else if bt_get (git_repos s) (src_repo x) = None
      then Inl (''a source names repository '' @ src_repo x @ '', which is not registered'')
      else Inr (s\<lparr>git_sources := git_sources s @ [x]\<rparr>))"

fun git_replay :: "git_record list \<Rightarrow> git_state \<Rightarrow> string + git_state" where
  "git_replay [] s = Inr s"
| "git_replay (r # rs) s = bind_res (git_apply r s) (git_replay rs)"

definition incarnation :: "git_state \<Rightarrow> application_id \<Rightarrow> nat" where
  "incarnation s app = length (filter (\<lambda>x. rm_app x = app) (git_retired s))"

definition retired_name :: "git_state \<Rightarrow> string \<Rightarrow> removed_rec option" where
  "retired_name s name = List.find (\<lambda>x. rm_name x = name) (rev (git_retired s))"

definition repo_of_app :: "git_state \<Rightarrow> application_id \<Rightarrow> repo_rec option" where
  "repo_of_app s app = List.find (\<lambda>r. repo_app r = app) (bt_values (git_repos s))"

definition disconnected :: "git_state \<Rightarrow> application_id \<Rightarrow> removed_rec option" where
  "disconnected s app =
     (if repo_of_app s app \<noteq> None then None else List.find (\<lambda>x. rm_app x = app) (rev (git_retired s)))"

definition source_of :: "git_state \<Rightarrow> deployment_id \<Rightarrow> source_rec option" where
  "source_of s d = List.find (\<lambda>x. src_deployment x = d) (git_sources s)"

end
