(* ===== verification/GitProps.thy ===== *)
theory GitProps
  imports GitState GitUrl ConfigProps ControlCodec
begin

text \<open>
  An application has one repository at a time and, once its registration was removed, one repository
  name for good; the deliveries of polls are told apart by the incarnation of the registration.
\<close>

section \<open>Registrations\<close>

definition git_inv :: "git_state \<Rightarrow> bool" where
  "git_inv s \<longleftrightarrow> bt_ok (git_repos s) \<and> bt_ok (git_seen s) \<and> distinct (map src_deployment (git_sources s)) \<and>
     (\<forall>n r. bt_get (git_repos s) n = Some r \<longrightarrow> repo_name r = n) \<and>
     (\<forall>n r. bt_get (git_repos s) n = Some r \<longrightarrow>
        (\<forall>x \<in> set (git_retired s). rm_app x = repo_app r \<longrightarrow> rm_name x = n)) \<and>
     (\<forall>n m r q. bt_get (git_repos s) n = Some r \<longrightarrow> bt_get (git_repos s) m = Some q \<longrightarrow> repo_app r = repo_app q \<longrightarrow> n = m) \<and>
     (\<forall>x \<in> set (git_retired s). \<forall>y \<in> set (git_retired s). rm_app x = rm_app y \<longrightarrow> rm_name x = rm_name y) \<and>
     (\<forall>n ref. bt_get (git_seen s) (n, ref) \<noteq> None \<longrightarrow> bt_get (git_repos s) n \<noteq> None)"

lemma git_inv_empty: "git_inv git_empty"
  by (simp add: git_inv_def git_empty_def)

lemma git_invI:
  assumes "bt_ok (git_repos s)" "bt_ok (git_seen s)" "distinct (map src_deployment (git_sources s))"
    and "\<And>n r. bt_get (git_repos s) n = Some r \<Longrightarrow> repo_name r = n"
    and "\<And>n r x. bt_get (git_repos s) n = Some r \<Longrightarrow> x \<in> set (git_retired s) \<Longrightarrow> rm_app x = repo_app r \<Longrightarrow> rm_name x = n"
    and "\<And>n m r q. bt_get (git_repos s) n = Some r \<Longrightarrow> bt_get (git_repos s) m = Some q \<Longrightarrow> repo_app r = repo_app q \<Longrightarrow> n = m"
    and "\<And>x y. x \<in> set (git_retired s) \<Longrightarrow> y \<in> set (git_retired s) \<Longrightarrow> rm_app x = rm_app y \<Longrightarrow> rm_name x = rm_name y"
    and "\<And>n ref. bt_get (git_seen s) (n, ref) \<noteq> None \<Longrightarrow> bt_get (git_repos s) n \<noteq> None"
  shows "git_inv s"
  unfolding git_inv_def
  by (intro conjI allI ballI impI)
    (rule assms(1), rule assms(2), rule assms(3), erule assms(4), erule (2) assms(5), erule (2) assms(6),
      erule (2) assms(7), erule assms(8))

lemma git_invD:
  assumes "git_inv s"
  shows "bt_ok (git_repos s)" "bt_ok (git_seen s)" "distinct (map src_deployment (git_sources s))"
    "bt_get (git_repos s) n = Some r \<Longrightarrow> repo_name r = n"
    "bt_get (git_repos s) n = Some r \<Longrightarrow> x \<in> set (git_retired s) \<Longrightarrow> rm_app x = repo_app r \<Longrightarrow> rm_name x = n"
    "bt_get (git_repos s) n = Some r \<Longrightarrow> bt_get (git_repos s) m = Some q \<Longrightarrow> repo_app r = repo_app q \<Longrightarrow> n = m"
    "x \<in> set (git_retired s) \<Longrightarrow> y \<in> set (git_retired s) \<Longrightarrow> rm_app x = rm_app y \<Longrightarrow> rm_name x = rm_name y"
    "bt_get (git_seen s) (n, ref) \<noteq> None \<Longrightarrow> bt_get (git_repos s) n \<noteq> None"
  using assms unfolding git_inv_def by blast+

lemma values_get:
  assumes "bt_ok m"
  shows "v \<in> set (bt_values m) \<longleftrightarrow> (\<exists>k. bt_get m k = Some v)"
proof -
  have "v \<in> set (bt_values m) \<longleftrightarrow> (\<exists>k. (k, v) \<in> set m)" by (force simp: bt_values_def)
  then show ?thesis by (simp add: bt_in_iff [OF assms])
qed

lemma retired_owner_None: "retired_owner s a = None \<longleftrightarrow> (\<forall>x \<in> set (git_retired s). rm_app x \<noteq> a)"
  by (auto simp: retired_owner_def find_None_iff)

lemma retired_owner_Some: "retired_owner s a = Some n \<Longrightarrow> \<exists>x \<in> set (git_retired s). rm_app x = a \<and> rm_name x = n"
  by (auto simp: retired_owner_def dest: find_Some_set)

lemma claim_free:
  assumes "claim_conflict s x = None" and "git_inv s"
  shows "(\<forall>n r. bt_get (git_repos s) n = Some r \<longrightarrow> repo_app r = repo_app x \<longrightarrow> n = repo_name x) \<and>
    (\<forall>y \<in> set (git_retired s). rm_app y = repo_app x \<longrightarrow> rm_name y = repo_name x)"
proof -
  have ok: "bt_ok (git_repos s)" using assms(2) by (simp add: git_inv_def)
  have none: "List.find (\<lambda>r. repo_name r \<noteq> repo_name x \<and> repo_app r = repo_app x) (bt_values (git_repos s)) = None"
    using assms(1) by (auto simp: claim_conflict_def split: option.splits)
  have "n = repo_name x" if "bt_get (git_repos s) n = Some r" "repo_app r = repo_app x" for n r
  proof -
    have "r \<in> set (bt_values (git_repos s))" using values_get [OF ok] that(1) by blast
    then have "repo_name r = repo_name x" using none that(2) by (auto simp: find_None_iff)
    with that(1) assms(2) show ?thesis unfolding git_inv_def by blast
  qed
  moreover have "rm_name y = repo_name x" if y: "y \<in> set (git_retired s)" "rm_app y = repo_app x" for y
  proof -
    obtain o' where o': "retired_owner s (repo_app x) = Some o'" using retired_owner_None y by fastforce
    with assms(1) none have "o' = repo_name x" by (simp add: claim_conflict_def split: if_splits)
    moreover obtain z where "z \<in> set (git_retired s)" "rm_app z = repo_app x" "rm_name z = o'"
      using retired_owner_Some [OF o'] by blast
    moreover have "rm_name y = rm_name z" using assms(2) y calculation unfolding git_inv_def by metis
    ultimately show ?thesis by simp
  qed
  ultimately show ?thesis by blast
qed

lemma bt_filter_ok: "bt_ok m \<Longrightarrow> bt_ok (filter P m)"
  by (induction m) (auto simp: bt_ok_def)

lemma bt_get_filter_Some: "bt_ok m \<Longrightarrow> bt_get (filter P m) k = Some v \<longleftrightarrow> bt_get m k = Some v \<and> P (k, v)"
  using bt_in_iff [of m k v] bt_in_iff [of "filter P m" k v] bt_filter_ok [of m P] by auto

text \<open>A change of the observations or the sources only.\<close>

lemma git_inv_other:
  assumes inv: "git_inv s" and same: "git_repos s' = git_repos s" "git_retired s' = git_retired s"
    and new: "bt_ok (git_seen s')" "distinct (map src_deployment (git_sources s'))"
      "\<forall>n ref. bt_get (git_seen s') (n, ref) \<noteq> None \<longrightarrow> bt_get (git_repos s) n \<noteq> None"
  shows "git_inv s'"
  using inv new unfolding git_inv_def same by (elim conjE, intro conjI) assumption+

lemma git_inv_repo:
  assumes none: "claim_conflict s x = None" and inv: "git_inv s"
  shows "git_inv (s\<lparr>git_repos := bt_insert (repo_name x) x (git_repos s)\<rparr>)" (is "git_inv ?s")
proof -
  note free = claim_free [OF none inv]
  have get: "bt_get (git_repos ?s) n = (if n = repo_name x then Some x else bt_get (git_repos s) n)" for n
    using git_invD(1) [OF inv] by simp
  show ?thesis
  proof (rule git_invI)
    fix n r
    assume r: "bt_get (git_repos ?s) n = Some r"
    then show "repo_name r = n"
      using git_invD(4) [OF inv, of n r] unfolding get by (simp split: if_splits)
    show "rm_name y = n" if "y \<in> set (git_retired ?s)" "rm_app y = repo_app r" for y
    proof (cases "n = repo_name x")
      case True
      with r that have "r = x" unfolding get by simp
      with that True conjunct2 [OF free, rule_format, of y] show ?thesis by simp
    next
      case False
      with r that git_invD(5) [OF inv, of n r y] show ?thesis unfolding get by simp
    qed
    fix m q
    assume q: "bt_get (git_repos ?s) m = Some q" and same: "repo_app r = repo_app q"
    note old = conjunct1 [OF free, rule_format]
    show "n = m"
    proof (cases "n = repo_name x")
      case n: True
      then have "r = x" using r unfolding get by simp
      then show ?thesis using q old [of m q] same n unfolding get by (cases "m = repo_name x") simp_all
    next
      case False
      then have n: "bt_get (git_repos s) n = Some r" using r unfolding get by simp
      show ?thesis
      proof (cases "m = repo_name x")
        case True
        then have "q = x" using q unfolding get by simp
        then show ?thesis using old [OF n] same True by simp
      next
        case False
        then have "bt_get (git_repos s) m = Some q" using q unfolding get by simp
        then show ?thesis by (rule git_invD(6) [OF inv n _ same])
      qed
    qed
  next
    show "bt_get (git_seen ?s) (n, ref) \<noteq> None \<Longrightarrow> bt_get (git_repos ?s) n \<noteq> None" for n ref
      using git_invD(8) [OF inv, of n ref] unfolding get by simp
    show "x \<in> set (git_retired ?s) \<Longrightarrow> y \<in> set (git_retired ?s) \<Longrightarrow> rm_app x = rm_app y \<Longrightarrow> rm_name x = rm_name y" for x y
      using git_invD(7) [OF inv, of x y] by simp
  qed (use git_invD(1-3) [OF inv] in simp_all)
qed

lemma git_inv_removed:
  assumes live: "bt_get (git_repos s) (rm_name x) = Some live" "repo_app live = rm_app x" and inv: "git_inv s"
  shows "git_inv (s\<lparr>git_repos := bt_remove (rm_name x) (git_repos s),
      git_seen := filter (\<lambda>p. fst (fst p) \<noteq> rm_name x) (git_seen s), git_retired := git_retired s @ [x]\<rparr>)" (is "git_inv ?s")
proof -
  have get: "bt_get (git_repos ?s) n = (if n = rm_name x then None else bt_get (git_repos s) n)" for n
    by simp
  have retired: "rm_name y = rm_name x" if "y \<in> set (git_retired s)" "rm_app y = rm_app x" for y
    using git_invD(5) [OF inv live(1) that(1)] that(2) live(2) by simp
  show ?thesis
  proof (rule git_invI)
    fix n r
    assume "bt_get (git_repos ?s) n = Some r"
    then have r: "n \<noteq> rm_name x" "bt_get (git_repos s) n = Some r" by (simp_all add: get split: if_splits)
    show "repo_name r = n" by (rule git_invD(4) [OF inv r(2)])
    have other: "rm_app x \<noteq> repo_app r"
      using git_invD(6) [OF inv r(2) live(1)] live(2) r(1) by metis
    show "rm_name y = n" if "y \<in> set (git_retired ?s)" "rm_app y = repo_app r" for y
      using that other git_invD(5) [OF inv r(2), of y] by auto
    show "n = m" if "bt_get (git_repos ?s) m = Some q" "repo_app r = repo_app q" for m q
      using that git_invD(6) [OF inv r(2), of m q] by (simp add: get split: if_splits)
  next
    show "rm_name y = rm_name z" if "y \<in> set (git_retired ?s)" "z \<in> set (git_retired ?s)" "rm_app y = rm_app z" for y z
      using that git_invD(7) [OF inv, of y z] retired [of y] retired [of z] by auto
    show "bt_get (git_repos ?s) n \<noteq> None" if "bt_get (git_seen ?s) (n, ref) \<noteq> None" for n ref
    proof -
      from that obtain v where "bt_get (git_seen s) (n, ref) = Some v" "n \<noteq> rm_name x"
        using bt_get_filter_Some [OF git_invD(2) [OF inv]] by auto
      then show ?thesis using git_invD(8) [OF inv, of n ref] by (simp add: get)
    qed
  qed (use git_invD(1-3) [OF inv] in \<open>simp_all add: bt_filter_ok\<close>)
qed

lemma git_inv_apply:
  assumes "git_apply r s = Inr s'" and inv: "git_inv s"
  shows "git_inv s'"
proof (cases r)
  case (GRepo x)
  then show ?thesis using assms(1) git_inv_repo [OF _ inv, of x] by (auto split: option.splits)
next
  case (GRemoved x)
  then obtain live where "bt_get (git_repos s) (rm_name x) = Some live" "repo_app live = rm_app x"
    and s': "s' = s\<lparr>git_repos := bt_remove (rm_name x) (git_repos s),
        git_seen := filter (\<lambda>p. fst (fst p) \<noteq> rm_name x) (git_seen s), git_retired := git_retired s @ [x]\<rparr>"
    using assms(1) by (auto split: option.splits if_splits)
  then show ?thesis using git_inv_removed [OF _ _ inv] by simp
next
  case (GSeen x)
  then have known: "bt_get (git_repos s) (seen_repo x) \<noteq> None"
    and s': "s' = s\<lparr>git_seen := bt_insert (seen_repo x, seen_ref_name x) x (git_seen s)\<rparr>"
    using assms(1) by (auto split: if_splits)
  show ?thesis
    by (rule git_inv_other [OF inv])
      (use known git_invD(2,3) [OF inv] git_invD(8) [OF inv] in \<open>auto simp: s'\<close>)
next
  case (GSource x)
  then have s': "s' = s\<lparr>git_sources := git_sources s @ [x]\<rparr>" and new: "\<forall>y \<in> set (git_sources s). src_deployment y \<noteq> src_deployment x"
    using assms(1) by (auto split: if_splits)
  show ?thesis
    by (rule git_inv_other [OF inv]) (use new git_invD(2,3) [OF inv] git_invD(8) [OF inv] in \<open>auto simp: s'\<close>)
qed

definition git_grows :: "git_state \<Rightarrow> git_state \<Rightarrow> bool" where
  "git_grows s s' \<longleftrightarrow> (\<exists>xs. git_sources s' = git_sources s @ xs) \<and> (\<exists>ys. git_retired s' = git_retired s @ ys)"

lemma git_grows_refl: "git_grows s s"
  by (simp add: git_grows_def)

lemma git_grows_trans: "git_grows s t \<Longrightarrow> git_grows t u \<Longrightarrow> git_grows s u"
  unfolding git_grows_def by auto

lemma git_grows_apply: "git_apply r s = Inr s' \<Longrightarrow> git_grows s s'"
  by (cases r) (auto simp: git_grows_def split: option.splits if_splits)

lemma git_inv_replay: "git_replay rs s = Inr s' \<Longrightarrow> git_inv s \<Longrightarrow> git_inv s' \<and> git_grows s s'"
proof (induction rs arbitrary: s)
  case (Cons r rs)
  then obtain t where t: "git_apply r s = Inr t" "git_replay rs t = Inr s'" by (auto simp: bind_res_Inr_iff)
  with Cons.IH [OF t(2) git_inv_apply [OF t(1) Cons.prems(2)]] git_grows_apply [OF t(1)] git_grows_trans show ?case by blast
qed (simp add: git_grows_refl)

lemma incarnation_grows: "git_grows s s' \<Longrightarrow> incarnation s a \<le> incarnation s' a"
  by (auto simp: git_grows_def incarnation_def)

text \<open>
  Claim C31. In every state that a journal rebuilds, at most one registered repository name has an
  application, and an application whose registration was ever removed stays with that name: in every
  later state only that name can be registered for it, and every removal of it names that name. (Without
  a removal, a later registration of the name for another application lets the first one go.)
  Observations exist only for registered names, no deployment has two sources, and sources and removals
  are never dropped, so an application's incarnation never falls.
\<close>

theorem registrations_stay_owned:
  assumes "git_replay rs git_empty = Inr s" and "git_replay rs' s = Inr s'"
  shows "git_inv s' \<and> git_grows s s' \<and> (\<forall>a. incarnation s a \<le> incarnation s' a) \<and>
    (\<forall>n m r q. bt_get (git_repos s') n = Some r \<and> bt_get (git_repos s') m = Some q \<and> repo_app r = repo_app q \<longrightarrow> n = m) \<and>
    (\<forall>x \<in> set (git_retired s). \<forall>r. repo_of_app s' (rm_app x) = Some r \<longrightarrow> repo_name r = rm_name x) \<and>
    (\<forall>x \<in> set (git_retired s). \<forall>y \<in> set (git_retired s'). rm_app y = rm_app x \<longrightarrow> rm_name y = rm_name x)"
proof -
  have "git_inv s" using git_inv_replay [OF assms(1) git_inv_empty] by blast
  then have inv: "git_inv s'" and grows: "git_grows s s'" using git_inv_replay [OF assms(2)] by blast+
  have "repo_name r = rm_name x" if x: "x \<in> set (git_retired s)" and r: "repo_of_app s' (rm_app x) = Some r" for x r
  proof -
    have "r \<in> set (bt_values (git_repos s'))" "repo_app r = rm_app x"
      using find_Some_set [OF r [unfolded repo_of_app_def]] by auto
    then obtain n where n: "bt_get (git_repos s') n = Some r" using values_get [OF git_invD(1) [OF inv]] by blast
    have "x \<in> set (git_retired s')" using x grows by (auto simp: git_grows_def)
    with git_invD(5) [OF inv n, of x] git_invD(4) [OF inv n] \<open>repo_app r = rm_app x\<close> show ?thesis by simp
  qed
  moreover have "rm_name y = rm_name x" if "x \<in> set (git_retired s)" "y \<in> set (git_retired s')" "rm_app y = rm_app x" for x y
    using that grows by (intro git_invD(7) [OF inv]) (auto simp: git_grows_def)
  moreover have "n = m" if "bt_get (git_repos s') n = Some r" "bt_get (git_repos s') m = Some q" "repo_app r = repo_app q" for n m r q
    using git_invD(6) [OF inv that] .
  ultimately show ?thesis using inv grows incarnation_grows [OF grows] by blast
qed

section \<open>Deliveries of polls\<close>

lemma commit_no_colon: "is_commit c \<Longrightarrow> CHR '':'' \<notin> set c"
  by (auto simp: is_commit_def list_all_iff ascii_digit_def between_def byte_def)

lemma repo_name_chars:
  "check_repo_name n = Inr () \<Longrightarrow> n \<noteq> [] \<and> list_all (\<lambda>c. alnum c \<or> c = CHR ''.'' \<or> c = CHR ''_'' \<or> c = CHR ''-'') n"
  by (auto simp: check_repo_name_def git_token_def split: if_splits)

lemma repo_name_no_colon: "check_repo_name n = Inr () \<Longrightarrow> CHR '':'' \<notin> set n"
proof
  assume "check_repo_name n = Inr ()" "CHR '':'' \<in> set n"
  then have "alnum (CHR '':'')" using repo_name_chars [of n] by (fastforce simp: list_all_iff)
  then show False by (simp add: alnum_def ascii_alphabetic_def ascii_digit_def between_def byte_def)
qed

lemma show_nat_inj: "show_nat a = show_nat b \<longleftrightarrow> a = b"
  using digits_val_show_nat by (metis option.inject)

lemma colon_split: "(sep :: char) \<notin> set a \<Longrightarrow> sep \<notin> set b \<Longrightarrow> a @ sep # x = b @ sep # y \<longleftrightarrow> a = b \<and> x = y"
  by (metis split_once_append option.inject prod.inject)

lemma poll_delivery_inj:
  assumes "check_repo_name n = Inr ()" "check_repo_name m = Inr ()" and "is_commit c" "is_commit d"
  shows "poll_delivery n i c = poll_delivery m j d \<longleftrightarrow> n = m \<and> i = j \<and> c = d"
proof -
  have num: "CHR '':'' \<notin> set (show_nat k)" for k using show_nat_digits [of "CHR '':''" k] by auto
  have mixed: "x \<noteq> CHR ''r'' # show_nat k @ CHR '':'' # y" if "is_commit x" for x k y
    using commit_no_colon [OF that] by auto
  have names: "n @ CHR '':'' # x = m @ CHR '':'' # y \<longleftrightarrow> n = m \<and> x = y" for x y
    using colon_split [OF repo_name_no_colon [OF assms(1)] repo_name_no_colon [OF assms(2)]] .
  have nums: "show_nat i @ CHR '':'' # x = show_nat j @ CHR '':'' # y \<longleftrightarrow> i = j \<and> x = y" for x y
    using colon_split [OF num num, of i x j y] by (simp add: show_nat_inj)
  consider "i = 0" "j = 0" | "i = 0" "j \<noteq> 0" | "i \<noteq> 0" "j = 0" | "i \<noteq> 0" "j \<noteq> 0" by blast
  then show ?thesis
  proof cases
    case 1
    then show ?thesis by (simp add: poll_delivery_def names)
  next
    case 2
    with mixed [OF assms(3), of j d] show ?thesis by (simp add: poll_delivery_def names)
  next
    case 3
    then show ?thesis using mixed [OF assms(4), of i c] by (auto simp: poll_delivery_def names)
  next
    case 4
    then show ?thesis by (simp add: poll_delivery_def names nums)
  qed
qed

text \<open>The id of a polled commit holds accepted characters only; its length alone can be refused.\<close>

lemma poll_delivery_chars:
  assumes "check_repo_name n = Inr ()" and "is_commit c"
  shows "list_all (token_char '':'') (poll_delivery n i c)"
proof -
  have "list_all (token_char '':'') n"
    using repo_name_chars [OF assms(1)] by (auto simp: list_all_iff token_char_def alnum_def)
  moreover have "list_all (token_char '':'') c"
    using assms(2) by (auto simp: is_commit_def list_all_iff token_char_def ascii_alphabetic_def between_def)
  moreover have "list_all (token_char '':'') (show_nat i)"
    unfolding list_all_iff
  proof
    fix x
    assume "x \<in> set (show_nat i)"
    from show_nat_digits [OF this] show "token_char '':'' x"
      by (simp add: token_char_def ascii_digit_def between_def byte_def)
  qed
  moreover have "token_char '':'' (CHR ''p'')" "token_char '':'' (CHR ''o'')" "token_char '':'' (CHR ''l'')"
    "token_char '':'' (CHR '':'')" "token_char '':'' (CHR ''r'')"
    by (simp_all add: token_char_def ascii_alphabetic_def between_def byte_def)
  ultimately show ?thesis by (simp add: poll_delivery_def)
qed

lemma poll_delivery_ne: "poll_delivery n i c \<noteq> []"
  by (simp add: poll_delivery_def)

text \<open>
  The delivery id of a polled commit says which repository, which incarnation of its
  registration and which commit it is: different ones have different ids, so a commit that an earlier
  incarnation queued, dismissed or deployed can be queued again by a later one. The control records
  accept the id exactly if it has at most 128 bytes, which a registered name does not guarantee: with a
  name of 64 bytes no commit of a SHA-256 repository can ever be queued.
\<close>

theorem poll_deliveries_distinct:
  assumes "check_repo_name n = Inr ()" "check_repo_name m = Inr ()" and "is_commit c" "is_commit d"
  shows "(poll_delivery n i c = poll_delivery m j d \<longleftrightarrow> n = m \<and> i = j \<and> c = d) \<and>
    (check_delivery (poll_delivery n i c) = Inr () \<longleftrightarrow> length (poll_delivery n i c) \<le> 128) \<and>
    (length n = 64 \<and> length c = 64 \<longrightarrow> check_delivery (poll_delivery n i c) \<noteq> Inr ())"
proof -
  have check: "check_delivery (poll_delivery n i c) = Inr () \<longleftrightarrow> length (poll_delivery n i c) \<le> 128"
    using poll_delivery_chars [OF assms(1,3)] poll_delivery_ne
    by (simp add: delivery_ok_def token_ok_def max_token_def)
  have "128 < length (poll_delivery n i c)" if "length n = 64" "length c = 64"
    using that by (simp add: poll_delivery_def)
  then show ?thesis using check poll_delivery_inj [OF assms] by fastforce
qed

definition example_commit :: string where "example_commit = replicate 64 (CHR ''a'')"

definition long_repo_name :: string where "long_repo_name = replicate 64 (CHR ''b'')"

theorem poll_deliveries_distinct_witness:
  "poll_delivery long_repo_name 0 example_commit \<noteq> poll_delivery long_repo_name 1 example_commit \<and>
   check_delivery (poll_delivery long_repo_name 0 example_commit) \<noteq> Inr ()"
proof -
  have "check_repo_name long_repo_name = Inr ()"
    by (simp add: long_repo_name_def check_repo_name_def git_token_def max_git_name_def alnum_def ascii_alphabetic_def
        list_all_iff between_def byte_def)
  moreover have "is_commit example_commit"
    by (simp add: example_commit_def is_commit_def list_all_iff between_def byte_def)
  moreover have "length long_repo_name = 64" "length example_commit = 64"
    by (simp_all add: long_repo_name_def example_commit_def)
  ultimately show ?thesis
    using poll_deliveries_distinct [of long_repo_name long_repo_name example_commit example_commit 0 1]
    by (metis zero_neq_one)
qed

definition example_repo :: repo_rec where
  "example_repo = \<lparr>repo_name = ''web'', repo_url = ''https://git.example/web'', repo_username = None,
     repo_cred = CredNone, repo_known_host = None, repo_webhook = None, repo_app = ApplicationId 7,
     repo_project = None, repo_environment = None, repo_branch = ''main'', repo_filters = [], repo_container_port = 80,
     repo_dockerfile = None, repo_context = None, repo_target = None, repo_health_path = None, repo_at_ms = 5\<rparr>"

text \<open>Without a removal a name may be registered for another application, which frees the first one.\<close>

lemma registration_moves_without_removal:
  "\<exists>s. git_replay [GRepo example_repo, GRepo (example_repo\<lparr>repo_app := ApplicationId 8\<rparr>),
       GRepo (example_repo\<lparr>repo_name := ''other''\<rparr>)] git_empty = Inr s \<and>
     map_option repo_name (repo_of_app s (ApplicationId 7)) = Some ''other''"
  by (simp add: git_empty_def claim_conflict_def retired_owner_def bt_values_def example_repo_def repo_of_app_def)

definition example_removal :: removed_rec where
  "example_removal = \<lparr>rm_name = ''web'', rm_app = ApplicationId 7, rm_registration = 5,
     rm_url = ''https://git.example/web'', rm_cred = CredNone, rm_at_ms = 9\<rparr>"

theorem registrations_stay_owned_witness:
  "\<exists>s. git_replay [GRepo example_repo, GRemoved example_removal] git_empty = Inr s \<and>
     (\<exists>s'. git_replay [GRepo (example_repo\<lparr>repo_branch := ''next''\<rparr>)] s = Inr s' \<and>
        repo_of_app s' (ApplicationId 7) \<noteq> None \<and> incarnation s' (ApplicationId 7) \<ge> 1) \<and>
     \<not> is_ok (git_apply (GRepo (example_repo\<lparr>repo_name := ''other''\<rparr>)) s)"
proof -
  let ?s = "\<lparr>git_repos = [], git_seen = [], git_sources = [], git_retired = [example_removal]\<rparr>"
  let ?r = "example_repo\<lparr>repo_branch := ''next''\<rparr>"
  have s: "git_replay [GRepo example_repo, GRemoved example_removal] git_empty = Inr ?s"
    by (simp add: git_empty_def claim_conflict_def retired_owner_def bt_values_def bt_get_def bt_remove_def
        example_repo_def example_removal_def)
  have s': "git_replay [GRepo ?r] ?s = Inr (?s\<lparr>git_repos := [(''web'', ?r)]\<rparr>)"
    by (simp add: claim_conflict_def retired_owner_def bt_values_def example_repo_def example_removal_def)
  have "incarnation ?s (ApplicationId 7) = 1" by (simp add: incarnation_def example_removal_def)
  moreover have "\<not> is_ok (git_apply (GRepo (example_repo\<lparr>repo_name := ''other''\<rparr>)) ?s)"
    by (simp add: claim_conflict_def retired_owner_def bt_values_def example_repo_def example_removal_def)
  moreover have "repo_of_app (?s\<lparr>git_repos := [(''web'', ?r)]\<rparr>) (ApplicationId 7) \<noteq> None"
    by (simp add: repo_of_app_def bt_values_def example_repo_def)
  ultimately show ?thesis using s s' registrations_stay_owned [OF s s'] by metis
qed

end
