(* ===== verification/GitCodec.thy ===== *)
theory GitCodec
  imports GitProps
begin

text \<open>
  A git record that passes the crate's checks survives its journal line, whatever its texts hold: the
  fields of \<open>git::encode\<close> decode to the record.
\<close>

definition texts_ok :: "string option list \<Rightarrow> bool" where
  "texts_ok vs \<longleftrightarrow> (\<forall>v \<in> set vs. case v of None \<Rightarrow> True | Some s \<Rightarrow> utf8_valid s)"

fun git_record_ok :: "git_record \<Rightarrow> bool" where
  "git_record_ok (GRepo x) \<longleftrightarrow> is_ok (repo_validate x) \<and> utf8_valid (repo_url x) \<and> utf8_valid (repo_branch x) \<and>
     list_all utf8_valid (repo_filters x) \<and>
     texts_ok [repo_username x, repo_known_host x, repo_project x, repo_environment x, repo_dockerfile x,
       repo_context x, repo_target x, repo_health_path x]"
| "git_record_ok (GRemoved x) \<longleftrightarrow> is_ok (removed_validate x) \<and> utf8_valid (rm_url x)"
| "git_record_ok (GSeen x) \<longleftrightarrow> is_ok (check_repo_name (seen_repo x)) \<and> utf8_valid (seen_ref_name x) \<and> is_commit (seen_commit x)"
| "git_record_ok (GSource x) \<longleftrightarrow> is_ok (check_repo_name (src_repo x)) \<and> is_ok (validate_url (src_url x)) \<and>
     utf8_valid (src_url x) \<and> utf8_valid (src_requested x) \<and> is_commit (src_commit x) \<and> field_clean (src_trigger x) \<and>
     (case src_delivery x of None \<Rightarrow> True | Some d \<Rightarrow> field_clean d \<and> d \<noteq> ''-'')"

section \<open>The fields\<close>

lemma unopt_roundtrip: "texts_ok [v] \<Longrightarrow> unopt (opt_hex_str v) = Inr v"
  using hex_text_not_dash by (cases v) (auto simp: unopt_def opt_hex_str_def texts_ok_def)

lemma texts_ok_Cons: "texts_ok (v # w # vs) \<longleftrightarrow> texts_ok [v] \<and> texts_ok (w # vs)"
  by (auto simp: texts_ok_def)

lemma cred_parse_str [simp]: "cred_parse (cred_str c) = Inr c"
  by (cases c) (simp_all add: cred_parse_def)

lemma selector_parse_str [simp]: "selector_parse (selector_str l) = Inr l"
  by (cases l) (simp_all add: selector_parse_def)

lemma webhook_parse_str [simp]: "webhook_parse (case w of None \<Rightarrow> ''-'' | Some k \<Rightarrow> webhook_str k) = Inr w"
proof (cases w)
  case (Some k)
  then show ?thesis by (cases k) (simp_all add: webhook_parse_def)
qed (simp add: webhook_parse_def)

lemma scalar_parse [simp]: "git_app (app_str a) = Inr a" "git_num what (show_word t) = Inr t"
  by (simp_all add: git_app_def git_num_def)

lemma unhex_all_hex: "list_all utf8_valid fs \<Longrightarrow> unhex_all (map hex_text fs) = Inr fs"
  by (induction fs) simp_all

lemma check_filters_ne: "check_filters fs = Inr () \<Longrightarrow> [] \<notin> set fs"
  by (induction fs) (auto split: if_splits)

lemma hex_no: "CHR '','' \<notin> set (hex_text s)"
  using hex_text_clean [of s] by (auto simp: hex_clean_def between_def byte_def)

lemma filters_roundtrip:
  assumes "list_all utf8_valid fs" and "fs \<noteq> []"
  shows "join_with '','' (map hex_text fs) \<noteq> ''-'' \<and>
    unhex_all (split_on (CHR '','') (join_with '','' (map hex_text fs))) = Inr fs"
proof -
  have split: "split_on (CHR '','') (join_with '','' (map hex_text fs)) = map hex_text fs"
    using assms(2) hex_no by (intro split_on_join) auto
  have "join_with '','' (map hex_text fs) \<noteq> ''-''"
  proof
    assume "join_with '','' (map hex_text fs) = ''-''"
    with split have "map hex_text fs = [''-'']" by simp
    then show False using hex_text_not_dash by (cases fs) auto
  qed
  with split unhex_all_hex [OF assms(1)] show ?thesis by simp
qed

lemma decode_repo_roundtrip:
  assumes "git_record_ok (GRepo x)"
  shows "git_decode (git_fields_of (GRepo x)) = Inr (GRepo x)"
proof -
  obtain k where k: "repo_validate x = Inr k" using assms by (auto simp: is_ok_iff)
  have fields: "decode_repo_fields (repo_filters x) (git_fields_of (GRepo x)) = Inr x"
    using assms by (simp add: decode_repo_fields_def unopt_roundtrip texts_ok_Cons del: is_ok.simps)
  have "(if git_fields_of (GRepo x) ! 12 = ''-'' then Inr []
      else unhex_all (split_on (CHR '','') (git_fields_of (GRepo x) ! 12))) = Inr (repo_filters x)"
    using assms filters_roundtrip [of "repo_filters x"] by (cases "repo_filters x = []") simp_all
  with fields k show ?thesis
    unfolding git_decode_def decode_repo_def by simp
qed

lemma git_fields_decode: "git_record_ok r \<Longrightarrow> git_decode (git_fields_of r) = Inr r"
proof (cases r)
  case (GRepo x)
  then show "git_record_ok r \<Longrightarrow> git_decode (git_fields_of r) = Inr r" using decode_repo_roundtrip by simp
next
  case (GRemoved x)
  then show "git_record_ok r \<Longrightarrow> git_decode (git_fields_of r) = Inr r"
    by (cases x) (auto simp: git_decode_def decode_removed_def is_ok_iff)
next
  case (GSeen x)
  then show "git_record_ok r \<Longrightarrow> git_decode (git_fields_of r) = Inr r"
    by (auto simp: git_decode_def decode_seen_def is_ok_iff)
next
  case (GSource x)
  then show "git_record_ok r \<Longrightarrow> git_decode (git_fields_of r) = Inr r"
    by (cases "src_delivery x") (auto simp: git_decode_def decode_source_def is_ok_iff)
qed

lemma repo_name_clean: "check_repo_name n = Inr () \<Longrightarrow> field_clean n"
proof -
  assume "check_repo_name n = Inr ()"
  then have ok: "list_all (\<lambda>c. alnum c \<or> c = CHR ''.'' \<or> c = CHR ''_'' \<or> c = CHR ''-'') n"
    using repo_name_chars by blast
  have "32 < (of_char c :: nat)" if "alnum c \<or> c = CHR ''.'' \<or> c = CHR ''_'' \<or> c = CHR ''-''" for c
    using that by (auto simp: alnum_def ascii_alphabetic_def ascii_digit_def between_def byte_def)
  with ok show "field_clean n" by (intro field_clean_range) (auto simp: list_all_iff)
qed

lemma commit_clean: "is_commit c \<Longrightarrow> field_clean c"
  by (rule field_clean_range) (auto simp: is_commit_def list_all_iff ascii_digit_def between_def byte_def)

lemma literal_clean: "field_clean s" if "s \<in> {''gitrepo'', ''gitdrop'', ''gitseen'', ''gitsrc'', ''1'', ''-''}"
  using that by (auto simp: field_clean_def)

lemma str_clean:
  "field_clean (cred_str c)" "field_clean (selector_str l)" "field_clean (webhook_str k)" "field_clean (opt_hex_str v)"
proof -
  show "field_clean (cred_str c)" by (cases c) (simp_all add: field_clean_def)
  show "field_clean (selector_str l)" by (cases l) (simp_all add: field_clean_def)
  show "field_clean (webhook_str k)" by (cases k) (simp_all add: field_clean_def)
  show "field_clean (opt_hex_str v)" by (cases v) (simp_all add: opt_hex_str_def hex_text_field_clean literal_clean)
qed

lemma filters_clean: "field_clean (join_with '','' (map hex_text fs))"
proof -
  have "c \<in> set (join_with '','' (map hex_text fs)) \<Longrightarrow> c = CHR '','' \<or> (\<exists>f. c \<in> set (hex_text f))" for c
    using set_join [of c "'',''" "map hex_text fs"] by auto
  then show ?thesis using hex_text_field_clean unfolding field_clean_def by fastforce
qed

lemma removed_name: "is_ok (removed_validate x) \<Longrightarrow> check_repo_name (rm_name x) = Inr ()"
  by (auto simp: is_ok_iff removed_validate_def bind_res_Inr_iff)

lemma repo_name_checked: "is_ok (repo_validate x) \<Longrightarrow> check_repo_name (repo_name x) = Inr ()"
  by (auto simp: is_ok_iff repo_validate_def bind_res_Inr_iff)

lemma git_fields_clean: "git_record_ok r \<Longrightarrow> list_all field_clean (git_fields_of r)"
proof -
  assume ok: "git_record_ok r"
  note atoms = literal_clean str_clean field_clean_word field_clean_id hex_text_field_clean filters_clean commit_clean
    repo_name_clean
  show ?thesis
  proof (cases r)
    case (GRepo x)
    then show ?thesis using ok repo_name_checked [of x] by (auto simp: atoms split: option.split)
  next
    case (GRemoved x)
    then show ?thesis using ok removed_name [of x] by (simp add: atoms)
  next
    case (GSeen x)
    then show ?thesis using ok by (auto simp: atoms is_ok_iff)
  next
    case (GSource x)
    then show ?thesis using ok by (auto simp: atoms is_ok_iff split: option.splits)
  qed
qed

interpretation gl: line_codec git_fields_of git_decode git_record_ok
  by unfold_locales (simp_all add: git_fields_decode git_fields_clean, case_tac r, simp_all)

lemma git_line_roundtrip:
  "git_record_ok r \<Longrightarrow> decode_framed git_decode (git_encode r) = Inr r \<and> NL \<notin> set (git_encode r)"
  using gl.line_decodes gl.one_line by (simp add: git_encode_def)

text \<open>A source whose delivery is a dash reads back without one: no check of the crate refuses it.\<close>

lemma dash_source_delivery_is_lost:
  "git_record_ok (GSource (x\<lparr>src_delivery := None\<rparr>)) \<Longrightarrow>
   git_decode (git_fields_of (GSource (x\<lparr>src_delivery := Some ''-''\<rparr>))) = Inr (GSource (x\<lparr>src_delivery := None\<rparr>))"
  using git_fields_decode [of "GSource (x\<lparr>src_delivery := None\<rparr>)"] by simp

end
