(* ===== verification/JournalFormat.thy ===== *)
theory JournalFormat
  imports ControlOps ConfigState GitState LedgerCodec
begin

text \<open>
  The lines of the shared journal (\<open>deploy/src/journal_format.rs\<close>): the text form of a deployment
  snapshot, the decoding of a line of any kind, the recovery of a file, and the state that its lines
  rebuild. Error texts that quote their input are shortened to what is fixed in them.
\<close>

definition file_version :: u32 where "file_version = 1"
definition snapshot_version :: u32 where "snapshot_version = 1"
definition magic :: string where "magic = ''harpoon-journal''"

datatype jline =
    LHeader u32
  | LSnapshot deployment
  | LLedger ledger_record
  | LControl control_record
  | LConfig config_record
  | LGit git_record
  | LStepLog step_log

definition encode_header :: string where
  "encode_header = frame (''header'' @ TAB # magic @ TAB # show_word file_version)"

section \<open>Encoding a snapshot\<close>

definition opt_word :: "u64 option \<Rightarrow> string" where
  "opt_word v = (case v of Some n \<Rightarrow> show_word n | None \<Rightarrow> ''-'')"

fun trigger_str :: "trigger \<Rightarrow> string" where
  "trigger_str Manual = ''manual''"
| "trigger_str Cli = ''cli''"
| "trigger_str Poll = ''poll''"
| "trigger_str Webhook = ''webhook''"
| "trigger_str Rollback = ''rollback''"
| "trigger_str Promote = ''promote''"

fun step_status_str :: "step_status \<Rightarrow> string" where
  "step_status_str SPending = ''pending''"
| "step_status_str SRunning = ''running''"
| "step_status_str SSucceeded = ''succeeded''"
| "step_status_str SFailed = ''failed''"
| "step_status_str SSkipped = ''skipped''"
| "step_status_str SInterrupted = ''interrupted''"

fun failure_kind_str :: "failure_kind \<Rightarrow> string" where
  "failure_kind_str FSource = ''source''"
| "failure_kind_str FBuild = ''build''"
| "failure_kind_str FPreliminaryCheck = ''preliminary_check''"
| "failure_kind_str FCutover = ''cutover''"
| "failure_kind_str FFinalCheck = ''final_check''"

fun reason_str :: "reason \<Rightarrow> string" where
  "reason_str NoPreviousRelease = ''no_previous_release''"
| "reason_str ConfigUnavailable = ''config_unavailable''"
| "reason_str PortInUse = ''port_in_use''"
| "reason_str ReasonInterrupted = ''interrupted''"
| "reason_str ImageMissing = ''image_missing''"
| "reason_str SecretUnavailable = ''secret_unavailable''"
| "reason_str DockerUnreachable = ''docker_unreachable''"
| "reason_str Timeout = ''timeout''"
| "reason_str StartFailed = ''start_failed''"
| "reason_str ReasonCancelled = ''cancelled''"

fun recovery_outcome_fields :: "recovery_outcome \<Rightarrow> string \<times> string" where
  "recovery_outcome_fields InProgress = (''in_progress'', ''-'')"
| "recovery_outcome_fields Restored = (''restored'', ''-'')"
| "recovery_outcome_fields RestoredUnverified = (''restored_unverified'', ''-'')"
| "recovery_outcome_fields (RestoreFailed r) = (''restore_failed'', reason_str r)"
| "recovery_outcome_fields (NotAttempted r) = (''not_attempted'', reason_str r)"

fun cutover_fields :: "cutover_state \<Rightarrow> string list" where
  "cutover_fields NotStarted = [''not_started'', opt_word None]"
| "cutover_fields NotRequired = [''not_required'', opt_word None]"
| "cutover_fields (Begun t) = [''begun'', opt_word (Some t)]"
| "cutover_fields (Confirmed t) = [''confirmed'', opt_word (Some t)]"
| "cutover_fields (CutoverFailed t) = [''failed'', opt_word (Some t)]"

definition failure_fields :: "failure option \<Rightarrow> string list" where
  "failure_fields x =
     (case x of
        None \<Rightarrow> [''0'', ''-'', ''-'', ''-'', ''0'']
      | Some x \<Rightarrow> [''1'', step_str (f_step x), failure_kind_str (f_kind x), esc (f_message x), flag_str (f_timed_out x)])"

definition recovery_fields :: "recovery option \<Rightarrow> string list" where
  "recovery_fields x =
     (case x of
        None \<Rightarrow> [''0'', ''-'', ''-'', ''-'', ''-'', ''-'']
      | Some r \<Rightarrow> [''1'', fst (recovery_outcome_fields (rec_outcome r)), snd (recovery_outcome_fields (rec_outcome r)),
          show_word (rec_started_ms r), opt_word (rec_finished_ms r), show_word (rec_budget_ms r)])"

definition interruption_fields :: "interruption option \<Rightarrow> string list" where
  "interruption_fields x =
     (case x of
        None \<Rightarrow> [''0'', ''-'', ''-'']
      | Some i \<Rightarrow> [''1'', show_word (int_started_ms i), opt_word (int_ended_ms i)])"

definition opt_release :: "release_id option \<Rightarrow> string" where
  "opt_release r = (case r of Some r \<Rightarrow> rel_str r | None \<Rightarrow> ''-'')"

definition step_fields :: "step_record \<Rightarrow> string list" where
  "step_fields r = [step_status_str (sr_status r), opt_word (sr_started_ms r), opt_word (sr_finished_ms r), esc (sr_note r)]"

text \<open>The records of all steps, in order; \<open>None\<close> is the panic of \<open>Deployment::step\<close>.\<close>

fun all_steps :: "deployment \<Rightarrow> step list \<Rightarrow> step_record list option" where
  "all_steps d [] = Some []"
| "all_steps d (s # ss) =
     (case find_step d s of None \<Rightarrow> None | Some r \<Rightarrow> map_option ((#) r) (all_steps d ss))"

definition trailing_fields :: "deployment \<Rightarrow> string list" where
  "trailing_fields d =
     (if d_pinned d \<noteq> None \<or> d_replaces d \<noteq> None \<or> d_rollback_to d \<noteq> None
      then [case d_pinned d of Some p \<Rightarrow> release_encode p | None \<Rightarrow> ''-''] else [])
     @ (if d_replaces d \<noteq> None \<or> d_rollback_to d \<noteq> None then [opt_release (d_replaces d)] else [])
     @ (case d_rollback_to d of Some r \<Rightarrow> [rel_str r] | None \<Rightarrow> [])"

definition head_fields :: "deployment \<Rightarrow> string list" where
  "head_fields d =
     [''snap'', show_word snapshot_version, dep_str (d_id d), app_str (d_app d), trigger_str (d_trigger d),
      status_str (d_status d), show_word (d_created_ms d), opt_word (d_started_ms d), opt_word (d_finished_ms d)]
     @ cutover_fields (d_cutover d) @ failure_fields (d_failure d) @ recovery_fields (d_recovery d)
     @ interruption_fields (d_interruption d) @ [opt_release (d_release d)]"

definition snapshot_fields :: "deployment \<Rightarrow> string list option" where
  "snapshot_fields d =
     map_option (\<lambda>rs. head_fields d @ concat (map step_fields rs) @ trailing_fields d) (all_steps d step_order)"

definition encode_snapshot :: "deployment \<Rightarrow> string option" where
  "encode_snapshot d = map_option (\<lambda>fs. frame (join_with [TAB] fs)) (snapshot_fields d)"

section \<open>Decoding a snapshot\<close>

text \<open>\<open>Fields\<close>: a reader of the remaining fields.\<close>

type_synonym 'a reader = "string list \<Rightarrow> string + 'a \<times> string list"

definition rret :: "'a \<Rightarrow> 'a reader" where
  "rret x fs = Inr (x, fs)"

definition rbind :: "'a reader \<Rightarrow> ('a \<Rightarrow> 'b reader) \<Rightarrow> 'b reader" where
  "rbind m f fs = bind_res (m fs) (\<lambda>(x, gs). f x gs)"

definition rlift :: "string + 'a \<Rightarrow> 'a reader" where
  "rlift r fs = bind_res r (\<lambda>x. Inr (x, fs))"

definition rd_next :: "string \<Rightarrow> string reader" where
  "rd_next what fs = (case fs of [] \<Rightarrow> Inl (''snapshot ends before '' @ what) | s # gs \<Rightarrow> Inr (s, gs))"

definition number :: "string \<Rightarrow> string \<Rightarrow> string + u64" where
  "number what s = ok_or (parse_word s) (what @ '' is not a number'')"

definition rd_num :: "string \<Rightarrow> u64 reader" where
  "rd_num what = rbind (rd_next what) (\<lambda>s. rlift (number what s))"

definition rd_opt :: "string \<Rightarrow> u64 option reader" where
  "rd_opt what =
     rbind (rd_next what) (\<lambda>s. rlift (if s = ''-'' then Inr None else bind_res (number what s) (\<lambda>n. Inr (Some n))))"

definition rd_flag :: "string \<Rightarrow> bool reader" where
  "rd_flag what =
     rbind (rd_next what) (\<lambda>s.
       rlift (if s = ''1'' then Inr True else if s = ''0'' then Inr False else Inl (what @ '' is not 0 or 1'')))"

definition rd_text :: "string \<Rightarrow> string reader" where
  "rd_text what = rbind (rd_next what) (\<lambda>s. rlift (ok_or (unesc s) (what @ '' has a bad escape'')))"

definition parse_status :: "string \<Rightarrow> string + deployment_status" where
  "parse_status s = ok_or (List.find (\<lambda>x. status_str x = s) status_all) ''unknown status''"

definition trigger_all :: "trigger list" where
  "trigger_all = [Manual, Cli, Poll, Webhook, Rollback, Promote]"

definition parse_trigger :: "string \<Rightarrow> string + trigger" where
  "parse_trigger s = ok_or (List.find (\<lambda>x. trigger_str x = s) trigger_all) ''unknown trigger''"

definition parse_step :: "string \<Rightarrow> string + step" where
  "parse_step s = ok_or (List.find (\<lambda>x. step_str x = s) step_order) ''unknown step''"

definition step_status_all :: "step_status list" where
  "step_status_all = [SPending, SRunning, SSucceeded, SFailed, SSkipped, SInterrupted]"

definition parse_step_status :: "string \<Rightarrow> string + step_status" where
  "parse_step_status s = ok_or (List.find (\<lambda>x. step_status_str x = s) step_status_all) ''unknown step status''"

definition failure_kind_all :: "failure_kind list" where
  "failure_kind_all = [FSource, FBuild, FPreliminaryCheck, FCutover, FFinalCheck]"

definition parse_failure_kind :: "string \<Rightarrow> string + failure_kind" where
  "parse_failure_kind s = ok_or (List.find (\<lambda>x. failure_kind_str x = s) failure_kind_all) ''unknown failure kind''"

definition reason_all :: "reason list" where
  "reason_all = [NoPreviousRelease, ConfigUnavailable, PortInUse, ReasonInterrupted, ImageMissing, SecretUnavailable,
     DockerUnreachable, Timeout, StartFailed, ReasonCancelled]"

definition parse_reason :: "string \<Rightarrow> string + reason" where
  "parse_reason s = ok_or (List.find (\<lambda>x. reason_str x = s) reason_all) ''unknown reason''"

definition parse_outcome :: "string \<Rightarrow> string \<Rightarrow> string + recovery_outcome" where
  "parse_outcome o' why =
     (if o' = ''in_progress'' then Inr InProgress
      else if o' = ''restored'' then Inr Restored
      else if o' = ''restored_unverified'' then Inr RestoredUnverified
      else if o' = ''restore_failed'' then bind_res (parse_reason why) (\<lambda>r. Inr (RestoreFailed r))
      else if o' = ''not_attempted'' then bind_res (parse_reason why) (\<lambda>r. Inr (NotAttempted r))
      else Inl ''unknown recovery outcome'')"

definition snapshot_field_count :: nat where
  "snapshot_field_count = 2 + 7 + 2 + 5 + 6 + 3 + 1 + 6 * 4"

definition cutover_of_fields :: "string \<Rightarrow> u64 option \<Rightarrow> string + cutover_state" where
  "cutover_of_fields k at =
     (case at of
        None \<Rightarrow>
          if k = ''not_started'' then Inr NotStarted else if k = ''not_required'' then Inr NotRequired
          else Inl ''inconsistent cutover fields''
      | Some t \<Rightarrow>
          if k = ''begun'' then Inr (Begun t) else if k = ''confirmed'' then Inr (Confirmed t)
          else if k = ''failed'' then Inr (CutoverFailed t) else Inl ''inconsistent cutover fields'')"

definition rd_cutover :: "cutover_state reader" where
  "rd_cutover = rbind (rd_next ''cutover'') (\<lambda>k. rbind (rd_opt ''cutover time'') (\<lambda>at. rlift (cutover_of_fields k at)))"

definition rd_failure :: "failure option reader" where
  "rd_failure =
     rbind (rd_flag ''failure flag'') (\<lambda>has.
     rbind (rd_next ''failure step'') (\<lambda>fs.
     rbind (rd_next ''failure kind'') (\<lambda>fk.
     rbind (rd_next ''failure message'') (\<lambda>fm.
     rbind (rd_flag ''failure timed-out flag'') (\<lambda>ft.
     rlift
       (if has
        then bind_res (parse_step fs) (\<lambda>st. bind_res (parse_failure_kind fk) (\<lambda>k.
             bind_res (ok_or (unesc fm) ''failure message has a bad escape'') (\<lambda>m.
             Inr (Some \<lparr>f_step = st, f_kind = k, f_message = m, f_timed_out = ft\<rparr>))))
        else if (fs, fk, fm, ft) \<noteq> (''-'', ''-'', ''-'', False) then Inl ''failure fields set without a failure''
        else Inr None))))))"

definition rd_recovery :: "recovery option reader" where
  "rd_recovery =
     rbind (rd_flag ''recovery flag'') (\<lambda>has.
     rbind (rd_next ''recovery outcome'') (\<lambda>ro.
     rbind (rd_next ''recovery reason'') (\<lambda>rw.
     rbind (rd_next ''recovery start'') (\<lambda>rs.
     rbind (rd_opt ''recovery end'') (\<lambda>rf.
     rbind (rd_next ''recovery budget'') (\<lambda>rb.
     rlift
       (if has
        then bind_res (parse_outcome ro rw) (\<lambda>oc. bind_res (number ''recovery start'' rs) (\<lambda>t.
             bind_res (number ''recovery budget'' rb) (\<lambda>b.
             Inr (Some \<lparr>rec_outcome = oc, rec_started_ms = t, rec_finished_ms = rf, rec_budget_ms = b\<rparr>))))
        else if (ro, rw, rs, rf, rb) \<noteq> (''-'', ''-'', ''-'', None, ''-'')
        then Inl ''recovery fields set without a recovery'' else Inr None)))))))"

definition rd_interruption :: "interruption option reader" where
  "rd_interruption =
     rbind (rd_flag ''interruption flag'') (\<lambda>has.
     rbind (rd_next ''interruption start'') (\<lambda>is'.
     rbind (rd_opt ''interruption end'') (\<lambda>ie.
     rlift
       (if has
        then bind_res (number ''interruption start'' is') (\<lambda>t. Inr (Some \<lparr>int_started_ms = t, int_ended_ms = ie\<rparr>))
        else if (is', ie) \<noteq> (''-'', None) then Inl ''interruption fields set without an interruption''
        else Inr None))))"

definition rd_release :: "deployment_id \<Rightarrow> release_id option reader" where
  "rd_release i =
     rbind (rd_next ''release'') (\<lambda>r.
     rlift
       (if r = ''-'' then Inr None
        else bind_res (map_err (\<lambda>_. ''bad release id'') (rel_from_str r)) (\<lambda>rel.
             if rel \<noteq> rel_from_deployment i then Inl ''release id does not belong to this deployment''
             else Inr (Some rel))))"

definition rd_step :: "step \<Rightarrow> step_record reader" where
  "rd_step s =
     rbind (rd_next ''step status'') (\<lambda>st.
     rbind (rlift (parse_step_status st)) (\<lambda>status.
     rbind (rd_opt ''step start'') (\<lambda>started.
     rbind (rd_opt ''step end'') (\<lambda>finished.
     rbind (rd_text ''step note'') (\<lambda>nt.
     rret \<lparr>sr_step = s, sr_status = status, sr_started_ms = started, sr_finished_ms = finished, sr_note = nt\<rparr>)))))"

fun rd_steps :: "step list \<Rightarrow> step_record list reader" where
  "rd_steps [] = rret []"
| "rd_steps (s # ss) = rbind (rd_step s) (\<lambda>r. rbind (rd_steps ss) (\<lambda>rs. rret (r # rs)))"

definition rd_deployment ::
  "release_config option \<Rightarrow> release_id option \<Rightarrow> release_id option \<Rightarrow> deployment reader" where
  "rd_deployment pinned replaces rollback =
     rbind (rd_next ''id'') (\<lambda>i. rbind (rlift (map_err (\<lambda>_. ''bad deployment id'') (dep_from_str i))) (\<lambda>i.
     rbind (rd_next ''application id'') (\<lambda>a. rbind (rlift (map_err (\<lambda>_. ''bad application id'') (app_from_str a))) (\<lambda>a.
     rbind (rd_next ''trigger'') (\<lambda>t. rbind (rlift (parse_trigger t)) (\<lambda>t.
     rbind (rd_next ''status'') (\<lambda>s. rbind (rlift (parse_status s)) (\<lambda>s.
     rbind (rd_num ''created'') (\<lambda>created.
     rbind (rd_opt ''started'') (\<lambda>started.
     rbind (rd_opt ''finished'') (\<lambda>finished.
     rbind rd_cutover (\<lambda>cut.
     rbind rd_failure (\<lambda>failure.
     rbind rd_recovery (\<lambda>recovery.
     rbind rd_interruption (\<lambda>interruption.
     rbind (rd_release i) (\<lambda>release.
     rbind (rd_steps step_order) (\<lambda>steps.
     rret \<lparr>d_id = i, d_app = a, d_trigger = t, d_status = s, d_created_ms = created, d_started_ms = started,
           d_finished_ms = finished, d_steps = steps, d_cutover = cut, d_failure = failure, d_recovery = recovery,
           d_interruption = interruption, d_release = release, d_pinned = pinned, d_replaces = replaces,
           d_rollback_to = rollback\<rparr>)))))))))))))))))"

definition field_at :: "string list \<Rightarrow> nat \<Rightarrow> string option" where
  "field_at f n = (if n < length f then Some (f ! n) else None)"

definition trailing_pin :: "string option \<Rightarrow> string + release_config option" where
  "trailing_pin f =
     (case f of
        None \<Rightarrow> Inr None
      | Some p \<Rightarrow>
          if p = ''-'' then Inr None
          else bind_res (map_err (\<lambda>_. ''a last extra field must be a valid pinned configuration'') (release_decode p))
                 (\<lambda>c. Inr (Some c)))"

definition trailing_release :: "string option \<Rightarrow> string \<Rightarrow> string + release_id option" where
  "trailing_release f what =
     (case f of
        None \<Rightarrow> Inr None
      | Some r \<Rightarrow> bind_res (map_err (\<lambda>_. what) (rel_from_str r)) (\<lambda>i. Inr (Some i)))"

definition decode_snapshot :: "string list \<Rightarrow> string + deployment" where
  "decode_snapshot f =
     (case Option.bind (field_at f 1) parse_word of
        None \<Rightarrow> Inl ''snapshot has no version''
      | Some v \<Rightarrow>
          if v \<noteq> snapshot_version then Inl (''snapshot version '' @ show_word v @ '' is not supported (this build reads 1)'')
          else if length f < snapshot_field_count \<or> snapshot_field_count + 3 < length f
          then Inl (''snapshot has '' @ show_nat (length f) @ '' fields'')
          else
            bind_res (trailing_pin (field_at f snapshot_field_count)) (\<lambda>pinned.
            bind_res
              (if field_at f (snapshot_field_count + 1) = Some ''-'' then Inr None
               else trailing_release (field_at f (snapshot_field_count + 1)) ''bad replaced release id'') (\<lambda>replaces.
            bind_res (trailing_release (field_at f (snapshot_field_count + 2)) ''bad rollback target release id'') (\<lambda>rollback.
            bind_res (rd_deployment pinned replaces rollback (take (snapshot_field_count - 2) (drop 2 f)))
              (\<lambda>(d, _). Inr d)))))"

section \<open>Decoding a line\<close>

definition decode_header :: "string list \<Rightarrow> string + jline" where
  "decode_header f =
     (if length f \<noteq> 3 \<or> f ! 1 \<noteq> magic then Inl ''not a Harpoon journal header''
      else bind_res (ok_or (parse_word (f ! 2)) ''bad file version'') (\<lambda>v. Inr (LHeader v)))"

definition decode_line :: "string \<Rightarrow> string + jline" where
  "decode_line line =
     (case split_once TAB line of
        None \<Rightarrow> Inl ''no checksum''
      | Some (crc, body) \<Rightarrow>
          let kind = hd (split_on TAB body);
              framed = \<lambda>dec. bind_res (checked_fields crc body) dec
          in if kind = ''header'' then framed decode_header
             else if kind = ''snap'' then framed (\<lambda>f. bind_res (decode_snapshot f) (\<lambda>d. Inr (LSnapshot d)))
             else if kind \<in> {''pause'', ''event'', ''resume'', ''exec''}
             then framed (\<lambda>f. bind_res (control_decode f) (\<lambda>r. Inr (LControl r)))
             else if kind = ''deplog'' then framed (\<lambda>f. bind_res (step_log_decode f) (\<lambda>r. Inr (LStepLog r)))
             else if kind \<in> {''gitrepo'', ''gitseen'', ''gitsrc'', ''gitdrop''}
             then framed (\<lambda>f. bind_res (git_decode f) (\<lambda>r. Inr (LGit r)))
             else if kind \<in> {''cfgdef'', ''cfgsec'', ''cfgsnap''}
             then framed (\<lambda>f. bind_res (config_decode f) (\<lambda>r. Inr (LConfig r)))
             else bind_res (decode_record line) (\<lambda>r. Inr (LLedger r)))"

section \<open>Recovery of a file\<close>

datatype format_error =
    JCorrupt nat string
  | BadHeader string
  | UnsupportedVersion u32
  | Inconsistent string

record journal_recovered =
  jr_lines :: "jline list"
  jr_valid_len :: nat
  jr_tail :: tail
  jr_has_header :: bool

text \<open>What the loop makes of the \<open>n\<close>th line, numbered from 1: the lines so far and whether the header is read.\<close>

definition take_line :: "nat \<Rightarrow> jline \<Rightarrow> jline list \<Rightarrow> bool \<Rightarrow> format_error + jline list \<times> bool" where
  "take_line n line lines has =
     (case line of
        LHeader v \<Rightarrow>
          if n = 1 then if v \<noteq> file_version then Inl (UnsupportedVersion v) else Inr (lines, True)
          else Inl (JCorrupt n ''a second header'')
      | _ \<Rightarrow> if n = 1 then Inl (BadHeader ''the first line is not a header'') else Inr (lines @ [line], has))"

function (sequential) recover_lines ::
  "string \<Rightarrow> nat \<Rightarrow> nat \<Rightarrow> jline list \<Rightarrow> bool \<Rightarrow> format_error + journal_recovered" where
  "recover_lines [] pos n lines has =
     Inr \<lparr>jr_lines = lines, jr_valid_len = pos, jr_tail = Clean, jr_has_header = has\<rparr>"
| "recover_lines bs pos n lines has =
     (case split_once NL bs of
        None \<Rightarrow>
          Inr \<lparr>jr_lines = lines, jr_valid_len = pos, jr_tail = PartialDiscarded (length bs), jr_has_header = has\<rparr>
      | Some (txt, later) \<Rightarrow>
          if \<not> utf8_valid txt then Inl (JCorrupt (n + 1) ''not utf-8'')
          else
            (case decode_line txt of
               Inl e \<Rightarrow> Inl (if n = 0 then BadHeader e else JCorrupt (n + 1) e)
             | Inr line \<Rightarrow>
                 (case take_line (n + 1) line lines has of
                    Inl e \<Rightarrow> Inl e
                  | Inr (lines', has') \<Rightarrow> recover_lines later (pos + length txt + 1) (n + 1) lines' has')))"
  by pat_completeness auto

termination
  by (relation "measure (\<lambda>(bs, _). length bs)") (auto simp del: split_once.simps dest: split_once_shorter)

definition recover_journal :: "string \<Rightarrow> format_error + journal_recovered" where
  "recover_journal bs = recover_lines bs 0 0 [] False"

section \<open>The state of a journal\<close>

record jstate =
  js_deployments :: "deployment list"
  js_ledger :: ledger
  js_control :: control_state
  js_config :: config_state
  js_git :: git_state
  js_logs :: log_state

definition jstate_empty :: jstate where
  "jstate_empty = \<lparr>js_deployments = [], js_ledger = [], js_control = control_empty, js_config = config_empty,
     js_git = git_empty, js_logs = []\<rparr>"

definition same_identity :: "deployment \<Rightarrow> deployment \<Rightarrow> bool" where
  "same_identity old new \<longleftrightarrow>
     d_id old = d_id new \<and> d_app old = d_app new \<and> d_trigger old = d_trigger new \<and>
     d_created_ms old = d_created_ms new \<and> d_started_ms old = d_started_ms new \<and>
     d_finished_ms old = d_finished_ms new \<and> d_failure old = d_failure new \<and> d_release old = d_release new \<and>
     d_pinned old = d_pinned new \<and> d_replaces old = d_replaces new \<and> d_rollback_to old = d_rollback_to new"

definition recovery_attached :: "deployment \<Rightarrow> deployment \<Rightarrow> bool" where
  "recovery_attached old new \<longleftrightarrow>
     d_status old = Interrupted \<and> d_status new = Interrupted \<and> same_identity old new \<and>
     (case (d_recovery old, d_recovery new) of
        (None, Some _) \<Rightarrow> is_begun (d_cutover old) \<and> is_failed (d_cutover new)
      | (Some o', Some n) \<Rightarrow>
          rec_outcome o' = InProgress \<and> rec_started_ms o' = rec_started_ms n \<and> rec_budget_ms o' = rec_budget_ms n \<and>
          d_cutover old = d_cutover new
      | _ \<Rightarrow> False)"

definition apply_snapshot :: "deployment \<Rightarrow> deployment list \<Rightarrow> format_error + deployment list" where
  "apply_snapshot d ds =
     (case List.find (\<lambda>x. d_id x = d_id d) ds of
        Some old \<Rightarrow>
          if is_terminal (d_status old) \<and> d \<noteq> old \<and> \<not> recovery_attached old d
          then Inl (Inconsistent (''deployment '' @ dep_str (d_id d) @ '' changed after reaching ''
                 @ status_str (d_status old)))
          else Inr (update_first (\<lambda>x. d_id x = d_id d) (\<lambda>_. d) ds)
      | None \<Rightarrow> Inr (ds @ [d]))"

definition bad_ledger :: "nat \<Rightarrow> ledger_error \<Rightarrow> format_error" where
  "bad_ledger i e = Inconsistent (''ledger record '' @ show_nat (i + 1) @ '' does not apply'')"

text \<open>One round of the loop of \<open>replay\<close>: the state and how many ledger records were applied.\<close>

fun replay_line :: "jline \<Rightarrow> jstate \<times> nat \<Rightarrow> format_error + jstate \<times> nat" where
  "replay_line (LHeader v) (st, i) = Inr (st, i)"
| "replay_line (LSnapshot d) (st, i) =
     bind_res (apply_snapshot d (js_deployments st)) (\<lambda>ds. Inr (st\<lparr>js_deployments := ds\<rparr>, i))"
| "replay_line (LLedger r) (st, i) =
     bind_res (map_err (bad_ledger i) (led_apply (js_ledger st) r)) (\<lambda>l. Inr (st\<lparr>js_ledger := l\<rparr>, i + 1))"
| "replay_line (LControl r) (st, i) =
     bind_res (map_err (\<lambda>e. Inconsistent (''control record does not apply: '' @ e)) (control_apply r (js_control st)))
       (\<lambda>c. Inr (st\<lparr>js_control := c\<rparr>, i))"
| "replay_line (LStepLog r) (st, i) =
     bind_res (map_err (\<lambda>e. Inconsistent (''step log does not apply: '' @ e)) (log_apply r (js_logs st)))
       (\<lambda>l. Inr (st\<lparr>js_logs := l\<rparr>, i))"
| "replay_line (LGit r) (st, i) =
     bind_res (map_err (\<lambda>e. Inconsistent (''git record does not apply: '' @ e)) (git_apply r (js_git st)))
       (\<lambda>g. Inr (st\<lparr>js_git := g\<rparr>, i))"
| "replay_line (LConfig r) (st, i) =
     bind_res (map_err (\<lambda>e. Inconsistent (''configuration record does not apply: '' @ e)) (config_apply r (js_config st)))
       (\<lambda>c. Inr (st\<lparr>js_config := c\<rparr>, i))"

fun replay_lines :: "jline list \<Rightarrow> jstate \<times> nat \<Rightarrow> format_error + jstate \<times> nat" where
  "replay_lines [] s = Inr s"
| "replay_lines (l # ls) s = bind_res (replay_line l s) (replay_lines ls)"

definition check_logs :: "jstate \<Rightarrow> format_error + unit" where
  "check_logs st =
     (case List.find (\<lambda>l. \<not> (\<exists>d \<in> set (js_deployments st). d_id d = sl_deployment l)) (js_logs st) of
        Some l \<Rightarrow> Inl (Inconsistent (''a step log names deployment '' @ dep_str (sl_deployment l) @ '', which is not recorded''))
      | None \<Rightarrow> Inr ())"

definition replay_journal :: "jline list \<Rightarrow> format_error + jstate" where
  "replay_journal ls =
     bind_res (replay_lines ls (jstate_empty, 0)) (\<lambda>(st, _).
     bind_res (check_logs st) (\<lambda>_.
     bind_res (map_err (\<lambda>e. Inconsistent (''configuration state: '' @ e)) (check_pins (js_config st) (js_deployments st))) (\<lambda>_.
     bind_res (map_err (\<lambda>e. Inconsistent (''control state: '' @ e)) (check_against (js_deployments st) (js_control st))) (\<lambda>_.
     Inr st))))"

end
