(* ===== verification/JournalCodec.thy ===== *)
theory JournalCodec
  imports JournalFormat ControlCodec ConfigCodec GitCodec
begin

text \<open>
  Every line that the journal writes reads back as what was written, and a file cut at any byte
  recovers the lines that were complete.
\<close>

section \<open>Reading back a snapshot\<close>

definition snapshot_ok :: "deployment \<Rightarrow> bool" where
  "snapshot_ok d \<longleftrightarrow> steps_ok d \<and>
     (case d_release d of None \<Rightarrow> True | Some r \<Rightarrow> r = rel_from_deployment (d_id d)) \<and>
     (case d_pinned d of None \<Rightarrow> True | Some c \<Rightarrow> config_ok c)"

lemma steps_list:
  assumes "steps_ok d"
  obtains r1 r2 r3 r4 r5 r6 where "d_steps d = [r1, r2, r3, r4, r5, r6]"
    "sr_step r1 = Source" "sr_step r2 = Build" "sr_step r3 = PreliminaryCheck" "sr_step r4 = Cutover"
    "sr_step r5 = FinalCheck" "sr_step r6 = Recovery"
  using assms unfolding steps_ok_def step_order_def by (auto simp: map_eq_Cons_conv)

lemma all_steps_ok: "steps_ok d \<Longrightarrow> all_steps d step_order = Some (d_steps d)"
  by (elim steps_list) (simp add: step_order_def find_step_def)

lemma number_word [simp]: "number what (show_word n) = Inr n"
  by (simp add: number_def)

lemma show_word_not_dash: "show_word n \<noteq> ''-''"
  using show_word_no_special [of "CHR ''-''" n] by auto

lemma opt_word_dash: "opt_word v = ''-'' \<longleftrightarrow> v = None"
  using show_word_not_dash by (cases v) (auto simp: opt_word_def)

lemma reader_simps [simp]:
  "rd_next what (s # gs) = Inr (s, gs)"
  "rd_num what (show_word n # gs) = Inr (n, gs)"
  "rd_flag what (flag_str b # gs) = Inr (b, gs)"
  "rd_flag what (''1'' # gs) = Inr (True, gs)"
  "rd_flag what (''0'' # gs) = Inr (False, gs)"
  "rd_text what (esc s # gs) = Inr (s, gs)"
  by (simp_all add: rd_next_def rd_num_def rd_flag_def rd_text_def rbind_def rlift_def flag_str_def unesc_esc)

lemma rd_opt_word [simp]: "rd_opt what (opt_word v # gs) = Inr (v, gs)"
  using show_word_not_dash by (cases v) (simp_all add: rd_opt_def rbind_def rlift_def opt_word_def)

lemma rd_opt_dash [simp]: "rd_opt what (''-'' # gs) = Inr (None, gs)"
  by (simp add: rd_opt_def rbind_def rlift_def)

lemma enum_roundtrip [simp]:
  "parse_status (status_str st) = Inr st" "parse_trigger (trigger_str tr) = Inr tr" "parse_step (step_str s) = Inr s"
  "parse_step_status (step_status_str ss) = Inr ss" "parse_failure_kind (failure_kind_str k) = Inr k"
  "parse_reason (reason_str r) = Inr r"
proof -
  show "parse_status (status_str st) = Inr st" by (cases st) (simp_all add: parse_status_def status_all_def)
  show "parse_trigger (trigger_str tr) = Inr tr" by (cases tr) (simp_all add: parse_trigger_def trigger_all_def)
  show "parse_step (step_str s) = Inr s" by (cases s) (simp_all add: parse_step_def step_order_def)
  show "parse_step_status (step_status_str ss) = Inr ss"
    by (cases ss) (simp_all add: parse_step_status_def step_status_all_def)
  show "parse_failure_kind (failure_kind_str k) = Inr k"
    by (cases k) (simp_all add: parse_failure_kind_def failure_kind_all_def)
  show "parse_reason (reason_str r) = Inr r" by (cases r) (simp_all add: parse_reason_def reason_all_def)
qed

lemma parse_outcome_fields [simp]:
  "parse_outcome (fst (recovery_outcome_fields oc)) (snd (recovery_outcome_fields oc)) = Inr oc"
  by (cases oc) (simp_all add: parse_outcome_def)

lemma rd_cutover_fields [simp]: "rd_cutover (cutover_fields c @ gs) = Inr (c, gs)"
  by (cases c) (simp_all add: rd_cutover_def rbind_def rlift_def cutover_of_fields_def)

lemma rd_failure_fields [simp]: "rd_failure (failure_fields x @ gs) = Inr (x, gs)"
  by (cases x) (simp_all add: rd_failure_def failure_fields_def rbind_def rlift_def unesc_esc)

lemma rd_recovery_fields [simp]: "rd_recovery (recovery_fields x @ gs) = Inr (x, gs)"
  by (cases x) (simp_all add: rd_recovery_def recovery_fields_def rbind_def rlift_def)

lemma rd_interruption_fields [simp]: "rd_interruption (interruption_fields x @ gs) = Inr (x, gs)"
  by (cases x) (simp_all add: rd_interruption_def interruption_fields_def rbind_def rlift_def)

lemma rel_str_not_dash: "rel_str r \<noteq> ''-''"
  using rel_from_rel_str [of r] by (auto simp: rel_from_str_def id_from_str_def)

lemma rd_release_field [simp]:
  "case r of None \<Rightarrow> True | Some r \<Rightarrow> r = rel_from_deployment i \<Longrightarrow> rd_release i (opt_release r # gs) = Inr (r, gs)"
  using rel_str_not_dash by (cases r) (simp_all add: rd_release_def opt_release_def rbind_def rlift_def)

lemma rd_step_fields [simp]: "sr_step r = s \<Longrightarrow> rd_step s (step_fields r @ gs) = Inr (r, gs)"
  by (auto simp: rd_step_def step_fields_def rbind_def rlift_def rret_def)

lemma rd_steps_fields [simp]:
  "map sr_step rs = ss \<Longrightarrow> rd_steps ss (concat (map step_fields rs) @ gs) = Inr (rs, gs)"
  by (induction ss arbitrary: rs) (auto simp: rret_def rbind_def map_eq_Cons_conv)

lemma rd_deployment_fields:
  assumes "snapshot_ok d"
  shows "rd_deployment (d_pinned d) (d_replaces d) (d_rollback_to d)
     (drop 2 (head_fields d) @ concat (map step_fields (d_steps d)) @ gs) = Inr (d, gs)"
  using assms
  by (simp add: snapshot_ok_def steps_ok_def rd_deployment_def head_fields_def rbind_def rlift_def rret_def)

lemma length_fields:
  "length (cutover_fields c) = 2" "length (failure_fields x) = 5" "length (recovery_fields r) = 6"
  "length (interruption_fields i) = 3"
proof -
  show "length (cutover_fields c) = 2" by (cases c) simp_all
  show "length (failure_fields x) = 5" by (cases x) (simp_all add: failure_fields_def)
  show "length (recovery_fields r) = 6" by (cases r) (simp_all add: recovery_fields_def)
  show "length (interruption_fields i) = 3" by (cases i) (simp_all add: interruption_fields_def)
qed

lemma length_head: "length (head_fields d) = 26"
  by (simp add: head_fields_def length_fields)

lemma length_steps: "length (concat (map step_fields rs)) = 4 * length rs"
  by (induction rs) (simp_all add: step_fields_def)

lemma release_encode_clean: "field_clean (release_encode c) \<and> release_encode c \<noteq> ''-''"
proof -
  have "\<forall>x \<in> set (release_encode c). 32 < byte x"
    using config_fields_clean [of c] set_join [of _ "'';''" "config_fields c"]
    by (fastforce simp: release_encode_def clean_field_def list_all_iff byte_def)
  then have "field_clean (release_encode c)" by (intro field_clean_range) (simp add: byte_def)
  moreover have "release_encode c \<noteq> ''-''"
  proof
    assume "release_encode c = ''-''"
    then have "split_on (CHR '';'') ''-'' = config_fields c" using split_release_encode [of c] by simp
    then show False by (simp add: config_fields_def base_fields_def split: if_splits)
  qed
  ultimately show ?thesis by blast
qed

lemma trailing_reads:
  assumes "snapshot_ok d"
  shows "trailing_pin (field_at (fs @ trailing_fields d) (length fs)) = Inr (d_pinned d) \<and>
    (if field_at (fs @ trailing_fields d) (length fs + 1) = Some ''-'' then Inr None
     else trailing_release (field_at (fs @ trailing_fields d) (length fs + 1)) w) = Inr (d_replaces d) \<and>
    trailing_release (field_at (fs @ trailing_fields d) (length fs + 2)) v = Inr (d_rollback_to d) \<and>
    length (trailing_fields d) \<le> 3"
proof -
  have pin: "trailing_pin (Some (case d_pinned d of Some p \<Rightarrow> release_encode p | None \<Rightarrow> ''-'')) = Inr (d_pinned d)"
    using assms release_encode_clean
    by (cases "d_pinned d") (simp_all add: trailing_pin_def snapshot_ok_def decode_encode_pin)
  show ?thesis
    using pin rel_str_not_dash
    by (cases "d_pinned d"; cases "d_replaces d"; cases "d_rollback_to d")
      (simp_all add: trailing_fields_def field_at_def nth_append trailing_release_def opt_release_def trailing_pin_def)
qed

lemma decode_snapshot_fields:
  assumes ok: "snapshot_ok d"
  shows "\<exists>fs. snapshot_fields d = Some fs \<and> decode_snapshot fs = Inr d"
proof -
  define m where "m = head_fields d @ concat (map step_fields (d_steps d))"
  have "length (d_steps d) = 6" using ok by (auto simp: snapshot_ok_def elim: steps_list)
  then have len: "length m = snapshot_field_count"
    by (simp add: m_def length_head length_steps snapshot_field_count_def)
  have fs: "snapshot_fields d = Some (m @ trailing_fields d)"
    using ok all_steps_ok by (simp add: snapshot_fields_def snapshot_ok_def m_def)
  have ver: "Option.bind (field_at (m @ trailing_fields d) 1) parse_word = Some snapshot_version"
    by (simp add: m_def field_at_def head_fields_def)
  have body: "take (snapshot_field_count - 2) (drop 2 (m @ trailing_fields d)) = drop 2 m"
    using len by (simp add: snapshot_field_count_def)
  have "drop 2 m = drop 2 (head_fields d) @ concat (map step_fields (d_steps d)) @ []"
    by (simp add: m_def length_head)
  with rd_deployment_fields [OF ok, of "[]"]
  have read: "rd_deployment (d_pinned d) (d_replaces d) (d_rollback_to d) (drop 2 m) = Inr (d, [])" by simp
  have "decode_snapshot (m @ trailing_fields d) = Inr d"
    unfolding decode_snapshot_def ver body
    using trailing_reads [OF ok, of m "''bad replaced release id''" "''bad rollback target release id''", unfolded len]
      read len by simp
  with fs show ?thesis by blast
qed

lemma enum_clean:
  "field_clean (status_str st)" "field_clean (trigger_str t)" "field_clean (step_str s)"
  "field_clean (step_status_str ss)" "field_clean (failure_kind_str k)" "field_clean (reason_str r)"
proof -
  show "field_clean (status_str st)" by (cases st) (simp_all add: field_clean_def)
  show "field_clean (trigger_str t)" by (cases t) (simp_all add: field_clean_def)
  show "field_clean (step_str s)" by (cases s) (simp_all add: field_clean_def)
  show "field_clean (step_status_str ss)" by (cases ss) (simp_all add: field_clean_def)
  show "field_clean (failure_kind_str k)" by (cases k) (simp_all add: field_clean_def)
  show "field_clean (reason_str r)" by (cases r) (simp_all add: field_clean_def)
qed

lemma literals_clean: "field_clean ''snap''" "field_clean ''0''" "field_clean ''1''" "field_clean ''-''"
  by (simp_all add: field_clean_def)

lemma opt_word_clean: "field_clean (opt_word v)"
  by (cases v) (simp_all add: opt_word_def field_clean_word literals_clean)

lemma rel_str_clean: "field_clean (rel_str r)"
  by (rule field_clean_range) (auto simp: rel_str_def id_as_str_def alphabet_def dest!: encode_chars)

lemma opt_release_clean: "field_clean (opt_release r)"
  by (cases r) (simp_all add: opt_release_def rel_str_clean literals_clean)

lemma cutover_fields_clean: "list_all field_clean (cutover_fields c)"
  by (cases c) (simp_all add: opt_word_clean, simp_all add: field_clean_def)

lemma failure_fields_clean: "list_all field_clean (failure_fields x)"
  by (cases x) (simp_all add: failure_fields_def literals_clean enum_clean field_clean_esc flag_str_def)

lemma outcome_fields_clean:
  "field_clean (fst (recovery_outcome_fields oc)) \<and> field_clean (snd (recovery_outcome_fields oc))"
  by (cases oc) (simp_all add: enum_clean, simp_all add: field_clean_def)

lemma recovery_fields_clean: "list_all field_clean (recovery_fields x)"
  by (cases x) (simp_all add: recovery_fields_def literals_clean outcome_fields_clean field_clean_word opt_word_clean)

lemma interruption_fields_clean: "list_all field_clean (interruption_fields x)"
  by (cases x) (simp_all add: interruption_fields_def literals_clean field_clean_word opt_word_clean)

lemma step_fields_clean: "list_all field_clean (concat (map step_fields rs))"
  by (induction rs) (simp_all add: step_fields_def enum_clean opt_word_clean field_clean_esc)

lemma trailing_fields_clean: "list_all field_clean (trailing_fields d)"
  using release_encode_clean
  by (simp add: trailing_fields_def opt_release_clean rel_str_clean literals_clean split: option.split)

lemma head_fields_clean: "list_all field_clean (head_fields d)"
  by (simp add: head_fields_def literals_clean field_clean_id field_clean_word enum_clean opt_word_clean
      cutover_fields_clean failure_fields_clean recovery_fields_clean interruption_fields_clean opt_release_clean)

lemma snapshot_fields_clean:
  "snapshot_fields d = Some fs \<Longrightarrow> list_all field_clean fs \<and> fs \<noteq> [] \<and> hd fs = ''snap''"
  by (auto simp: snapshot_fields_def head_fields_clean step_fields_clean trailing_fields_clean)
    (simp_all add: head_fields_def)

section \<open>Lines of every kind\<close>

text \<open>
  The fields of a line and the line itself, as the writers of the journal make it: one function per
  kind in the code. \<open>None\<close> only for a deployment that lacks one of its steps.
\<close>

fun line_fields :: "jline \<Rightarrow> string list option" where
  "line_fields (LHeader v) = Some [''header'', magic, show_word v]"
| "line_fields (LSnapshot d) = snapshot_fields d"
| "line_fields (LLedger r) = Some (record_fields r)"
| "line_fields (LControl r) = Some (control_fields r)"
| "line_fields (LConfig r) = Some (config_fields_of r)"
| "line_fields (LGit r) = Some (git_fields_of r)"
| "line_fields (LStepLog r) = Some (step_log_fields r)"

fun encode_line :: "jline \<Rightarrow> string option" where
  "encode_line (LHeader v) = Some (frame (''header'' @ TAB # magic @ TAB # show_word v))"
| "encode_line (LSnapshot d) = encode_snapshot d"
| "encode_line (LLedger r) = Some (encode_record r)"
| "encode_line (LControl r) = Some (control_encode r)"
| "encode_line (LConfig r) = Some (config_encode r)"
| "encode_line (LGit r) = Some (git_encode r)"
| "encode_line (LStepLog r) = Some (step_log_encode r)"

fun line_ok :: "jline \<Rightarrow> bool" where
  "line_ok (LHeader v) = True"
| "line_ok (LSnapshot d) = snapshot_ok d"
| "line_ok (LLedger r) = True"
| "line_ok (LControl r) = control_record_ok r"
| "line_ok (LConfig r) = config_record_ok r"
| "line_ok (LGit r) = git_record_ok r"
| "line_ok (LStepLog r) = step_log_ok r"

lemma encode_line_frame: "encode_line l = map_option (\<lambda>fs. frame (join_with [TAB] fs)) (line_fields l)"
  by (cases l) (simp_all add: encode_snapshot_def encode_record_def record_body_def frame_def control_encode_def
      config_encode_def git_encode_def step_log_encode_def)

lemma header_fields_clean: "list_all field_clean [''header'', magic, show_word v]"
  by (simp add: field_clean_word) (simp add: field_clean_def magic_def)

lemma line_fields_clean: "line_ok l \<Longrightarrow> line_fields l = Some fs \<Longrightarrow> list_all field_clean fs \<and> fs \<noteq> []"
proof (cases l)
  case (LHeader v)
  then show "line_fields l = Some fs \<Longrightarrow> list_all field_clean fs \<and> fs \<noteq> []"
    using header_fields_clean [of v] by (simp only: line_fields.simps option.inject) blast
next
  case (LSnapshot d)
  then show "line_fields l = Some fs \<Longrightarrow> list_all field_clean fs \<and> fs \<noteq> []" using snapshot_fields_clean by simp
next
  case (LLedger r)
  then show "line_fields l = Some fs \<Longrightarrow> list_all field_clean fs \<and> fs \<noteq> []" using record_fields_clean by auto
next
  case (LControl r)
  then show "line_ok l \<Longrightarrow> line_fields l = Some fs \<Longrightarrow> list_all field_clean fs \<and> fs \<noteq> []"
    using cl.fields_clean cl.fields_ne by auto
next
  case (LConfig r)
  then show "line_ok l \<Longrightarrow> line_fields l = Some fs \<Longrightarrow> list_all field_clean fs \<and> fs \<noteq> []"
    using cfl.fields_clean cfl.fields_ne by auto
next
  case (LGit r)
  then show "line_ok l \<Longrightarrow> line_fields l = Some fs \<Longrightarrow> list_all field_clean fs \<and> fs \<noteq> []"
    using gl.fields_clean gl.fields_ne by auto
next
  case (LStepLog r)
  then show "line_ok l \<Longrightarrow> line_fields l = Some fs \<Longrightarrow> list_all field_clean fs \<and> fs \<noteq> []"
    using sl.fields_clean sl.fields_ne by auto
qed

lemma line_fields_exist: "line_ok l \<Longrightarrow> \<exists>fs. line_fields l = Some fs"
  using decode_snapshot_fields by (cases l) auto

text \<open>The first field selects the decoder.\<close>

definition decode_by_kind :: "string list \<Rightarrow> string + jline" where
  "decode_by_kind f =
     (if hd f = ''header'' then decode_header f
      else if hd f = ''snap'' then bind_res (decode_snapshot f) (\<lambda>d. Inr (LSnapshot d))
      else if hd f \<in> {''pause'', ''event'', ''resume'', ''exec''} then bind_res (control_decode f) (\<lambda>r. Inr (LControl r))
      else if hd f = ''deplog'' then bind_res (step_log_decode f) (\<lambda>r. Inr (LStepLog r))
      else if hd f \<in> {''gitrepo'', ''gitseen'', ''gitsrc'', ''gitdrop''} then bind_res (git_decode f) (\<lambda>r. Inr (LGit r))
      else if hd f \<in> {''cfgdef'', ''cfgsec'', ''cfgsnap''} then bind_res (config_decode f) (\<lambda>r. Inr (LConfig r))
      else bind_res (decode_fields f) (\<lambda>r. Inr (LLedger r)))"

lemma decode_line_fields:
  assumes "list_all field_clean fs" "fs \<noteq> []"
  shows "decode_line (frame (join_with [TAB] fs)) = decode_by_kind fs"
proof -
  have split: "split_on TAB (join_with [TAB] fs) = fs"
    using assms by (intro split_on_join) (auto simp: list_all_iff field_clean_def)
  have rec: "decode_record (frame (join_with [TAB] fs)) = decode_fields fs"
    using split by (simp add: decode_record_def split_frame crc_field)
  have chk: "checked_fields (show_hex 8 (unat (crc32 (join_with [TAB] fs)))) (join_with [TAB] fs) = Inr fs"
    using assms checked_frame by simp
  show ?thesis
    unfolding decode_line_def split_frame option.case prod.case split Let_def chk bind_res.simps rec decode_by_kind_def
    by simp
qed

lemma decode_header_line: "decode_by_kind [''header'', magic, show_word v] = Inr (LHeader v)"
  by (simp add: decode_by_kind_def decode_header_def)

lemma kind_heads:
  "hd (record_fields r) \<in> {''intent'', ''receipt'', ''attempt'', ''result''}"
  "hd (control_fields c) \<in> {''pause'', ''event'', ''resume'', ''exec''}"
  "hd (config_fields_of f) \<in> {''cfgdef'', ''cfgsec'', ''cfgsnap''}"
  "hd (git_fields_of g) \<in> {''gitrepo'', ''gitseen'', ''gitsrc'', ''gitdrop''}"
  "hd (step_log_fields l) = ''deplog''"
proof -
  show "hd (record_fields r) \<in> {''intent'', ''receipt'', ''attempt'', ''result''}" by (cases r) simp_all
  show "hd (control_fields c) \<in> {''pause'', ''event'', ''resume'', ''exec''}" by (cases c) simp_all
  show "hd (config_fields_of f) \<in> {''cfgdef'', ''cfgsec'', ''cfgsnap''}" by (cases f) simp_all
  show "hd (git_fields_of g) \<in> {''gitrepo'', ''gitseen'', ''gitsrc'', ''gitdrop''}" by (cases g) simp_all
  show "hd (step_log_fields l) = ''deplog''" by (simp add: step_log_fields_def)
qed

lemma decode_by_kind_fields: "line_ok l \<Longrightarrow> line_fields l = Some fs \<Longrightarrow> decode_by_kind fs = Inr l"
proof (cases l)
  case (LHeader v)
  then show "line_fields l = Some fs \<Longrightarrow> decode_by_kind fs = Inr l" using decode_header_line by auto
next
  case (LSnapshot d)
  then show "line_ok l \<Longrightarrow> line_fields l = Some fs \<Longrightarrow> decode_by_kind fs = Inr l"
    using decode_snapshot_fields [of d] snapshot_fields_clean [of d] by (auto simp: decode_by_kind_def)
next
  case (LLedger r)
  then show "line_fields l = Some fs \<Longrightarrow> decode_by_kind fs = Inr l"
    using kind_heads(1) [of r] by (auto simp: decode_by_kind_def decode_record_fields)
next
  case (LControl r)
  then show "line_ok l \<Longrightarrow> line_fields l = Some fs \<Longrightarrow> decode_by_kind fs = Inr l"
    using kind_heads(2) [of r] cl.fields_decode [of r] by (auto simp: decode_by_kind_def)
next
  case (LConfig r)
  then show "line_ok l \<Longrightarrow> line_fields l = Some fs \<Longrightarrow> decode_by_kind fs = Inr l"
    using kind_heads(3) [of r] cfl.fields_decode [of r] by (auto simp: decode_by_kind_def)
next
  case (LGit r)
  then show "line_ok l \<Longrightarrow> line_fields l = Some fs \<Longrightarrow> decode_by_kind fs = Inr l"
    using kind_heads(4) [of r] gl.fields_decode [of r] by (auto simp: decode_by_kind_def)
next
  case (LStepLog r)
  then show "line_ok l \<Longrightarrow> line_fields l = Some fs \<Longrightarrow> decode_by_kind fs = Inr l"
    using kind_heads(5) [of r] sl.fields_decode [of r] by (auto simp: decode_by_kind_def)
qed

lemma encode_line_facts:
  assumes "line_ok l"
  shows "\<exists>txt. encode_line l = Some txt \<and> decode_line txt = Inr l \<and> NL \<notin> set txt"
proof -
  obtain fs where fs: "line_fields l = Some fs" using line_fields_exist assms by blast
  have clean: "list_all field_clean fs" "fs \<noteq> []" using line_fields_clean assms fs by auto
  have "NL \<notin> set (frame (join_with [TAB] fs))"
    using clean show_hex_clean [of 8] set_join [of NL "[TAB]" fs]
    by (auto simp: frame_def list_all_iff field_clean_def)
  then show ?thesis
    using fs decode_by_kind_fields assms decode_line_fields [OF clean] by (simp add: encode_line_frame)
qed

text \<open>
  Claim C26. A line of the shared journal whose record satisfies \<open>line_ok\<close> reads back: whatever its kind -
  deployment snapshot, ledger record, control record, configuration record, git record, step log or
  header - the line that the writers make of it holds no line break and decodes to exactly that record,
  with the checksum verified and the decoder chosen by its first field. \<open>line_ok\<close> asks of a snapshot its six
  steps in order, a release derived from its own deployment and a well-formed pinned configuration
  (\<open>config_ok\<close>), nothing of headers and ledger records, and of the other kinds what their validation accepts
  and the text form can express. It leaves out these records that the program accepts: a resume that selects,
  or a decision that lists alone, the delivery id of a single dash; a snapshot of a project or environment
  called by a single dash; a secret whose id is longer than 384 bytes; a source whose delivery is a single
  dash; and a pin with a time of \<open>2 ^ 63\<close> or more or with an empty snapshot or build identity. Those are
  written and do not read back as they were. Text is UTF-8, as in the code's strings.
\<close>

theorem journal_line_reads_back:
  assumes "line_ok l"
  shows "\<exists>txt. encode_line l = Some txt \<and> decode_line txt = Inr l \<and> NL \<notin> set txt"
  using encode_line_facts [OF assms] .

theorem journal_line_reads_back_witness:
  "\<exists>txt. encode_line (LSnapshot (deployment_new (DeploymentId 7) (ApplicationId 9) Cli 12)) = Some txt \<and>
     decode_line txt = Inr (LSnapshot (deployment_new (DeploymentId 7) (ApplicationId 9) Cli 12))"
proof -
  have "line_ok (LSnapshot (deployment_new (DeploymentId 7) (ApplicationId 9) Cli 12))"
    by (simp add: snapshot_ok_def deployment_new_def steps_ok_def step_order_def)
  from journal_line_reads_back [OF this] show ?thesis by blast
qed

end
