(* ===== verification/JournalRecovery.thy ===== *)
theory JournalRecovery
  imports JournalCodec
begin

text \<open>
  Recovery of a journal file that a crash cut at an arbitrary byte (\<open>recover\<close> of
  \<open>deploy/src/journal_format.rs\<close>), and the journals that recovery refuses.
\<close>

section \<open>A file of lines\<close>

definition line_text :: "jline \<Rightarrow> string" where
  "line_text l = (case encode_line l of Some t \<Rightarrow> t | None \<Rightarrow> [])"

definition file_text :: "jline list \<Rightarrow> string" where
  "file_text ls = concat (map (\<lambda>l. line_text l @ [NL]) ls)"

text \<open>A line that may stand after the header; its text is UTF-8, as every text of the program is.\<close>

definition body_line :: "jline \<Rightarrow> bool" where
  "body_line l \<longleftrightarrow> line_ok l \<and> utf8_valid (line_text l) \<and> (case l of LHeader _ \<Rightarrow> False | _ \<Rightarrow> True)"

abbreviation header_line :: jline where "header_line \<equiv> LHeader file_version"

lemma file_text_simps [simp]:
  "file_text [] = []" "file_text (l # ls) = line_text l @ NL # file_text ls"
  "file_text (ls @ ls') = file_text ls @ file_text ls'"
  by (simp_all add: file_text_def)

lemma line_text_facts: "line_ok l \<Longrightarrow> decode_line (line_text l) = Inr l \<and> NL \<notin> set (line_text l)"
  using encode_line_facts by (fastforce simp: line_text_def)

lemma header_text: "line_text (LHeader v) = frame (''header'' @ TAB # magic @ TAB # show_word v)"
  by (simp add: line_text_def)

lemma header_utf8: "utf8_valid (line_text (LHeader v))"
proof -
  have "utf8_valid ''header''" "utf8_valid magic" by (rule utf8_low, auto simp: magic_def)+
  then have "utf8_valid (''header'' @ TAB # magic @ TAB # show_word v)"
    by (intro utf8_append) (simp_all add: utf8_ascii_Cons byte_def utf8_append utf8_word)
  then show ?thesis by (simp add: header_text frame_def utf8_append utf8_hex utf8_ascii_Cons byte_def)
qed

lemma recover_lines_line:
  "NL \<notin> set txt \<Longrightarrow>
   recover_lines (txt @ NL # later) pos n lines has =
     (if \<not> utf8_valid txt then Inl (JCorrupt (n + 1) ''not utf-8'')
      else
        (case decode_line txt of
           Inl e \<Rightarrow> Inl (if n = 0 then BadHeader e else JCorrupt (n + 1) e)
         | Inr line \<Rightarrow>
             (case take_line (n + 1) line lines has of
                Inl e \<Rightarrow> Inl e
              | Inr (lines', has') \<Rightarrow> recover_lines later (pos + length txt + 1) (n + 1) lines' has')))"
proof -
  assume "NL \<notin> set txt"
  then have s: "split_once NL (txt @ NL # later) = Some (txt, later)" by (rule split_once_append)
  obtain b bs where "txt @ NL # later = b # bs" by (cases "txt @ NL # later") auto
  with s show ?thesis by simp
qed

lemma take_body_line: "body_line l \<Longrightarrow> take_line (Suc (Suc n)) l lines has = Inr (lines @ [l], has)"
  by (cases l) (simp_all add: body_line_def take_line_def)

lemma recover_lines_body:
  "list_all body_line ls \<Longrightarrow> 0 < n \<Longrightarrow>
   recover_lines (file_text ls @ bs) pos n lines has =
   recover_lines bs (pos + length (file_text ls)) (n + length ls) (lines @ ls) has"
proof (induction ls arbitrary: pos n lines)
  case Nil
  then show ?case by simp
next
  case (Cons l ls)
  then have "line_ok l" "utf8_valid (line_text l)" by (simp_all add: body_line_def)
  moreover obtain k where "n = Suc k" using Cons.prems by (cases n) auto
  ultimately show ?case
    using Cons line_text_facts [of l] by (simp add: recover_lines_line take_body_line add.assoc)
qed

lemma recover_lines_header:
  "recover_lines (line_text header_line @ NL # later) 0 0 [] False =
   recover_lines later (length (line_text header_line) + 1) 1 [] True"
  using line_text_facts [of header_line] header_utf8 by (simp add: recover_lines_line take_line_def)

lemma recover_lines_torn:
  "NL \<notin> set part \<Longrightarrow>
   recover_lines part pos n lines has =
     Inr \<lparr>jr_lines = lines, jr_valid_len = pos,
          jr_tail = (if part = [] then Clean else PartialDiscarded (length part)), jr_has_header = has\<rparr>"
  by (cases part) (auto simp: split_once_None)

text \<open>What recovery makes of whole lines, the header first, and a torn rest.\<close>

definition recovered_as :: "jline list \<Rightarrow> string \<Rightarrow> journal_recovered" where
  "recovered_as whole part =
     \<lparr>jr_lines = tl whole, jr_valid_len = length (file_text whole),
      jr_tail = (if part = [] then Clean else PartialDiscarded (length part)), jr_has_header = (whole \<noteq> [])\<rparr>"

lemma recover_whole:
  assumes "list_all body_line ls" and "NL \<notin> set part"
  shows "recover_journal (file_text (header_line # ls) @ part) = Inr (recovered_as (header_line # ls) part)"
  using recover_lines_body [OF assms(1), of 1 part "length (line_text header_line) + 1" "[]" True]
    recover_lines_torn [OF assms(2)]
  by (simp add: recover_journal_def recover_lines_header recovered_as_def)

lemma recover_nothing: "NL \<notin> set part \<Longrightarrow> recover_journal part = Inr (recovered_as [] part)"
  by (simp add: recover_journal_def recover_lines_torn recovered_as_def)

lemma take_file_text:
  "list_all line_ok ls \<Longrightarrow>
   \<exists>m part. m \<le> length ls \<and> take k (file_text ls) = file_text (take m ls) @ part \<and> NL \<notin> set part \<and>
     (m < length ls \<longrightarrow> length part \<le> length (line_text (ls ! m)))"
proof (induction ls arbitrary: k)
  case Nil
  show ?case by (intro exI [of _ 0] exI [of _ "[]"]) simp
next
  case (Cons l ls)
  show ?case
  proof (cases "k \<le> length (line_text l)")
    case True
    then have "take k (file_text (l # ls)) = take k (line_text l)" by simp
    moreover have "NL \<notin> set (take k (line_text l))"
      using Cons.prems line_text_facts [of l] by (auto dest: in_set_takeD)
    ultimately show ?thesis by (intro exI [of _ 0] exI [of _ "take k (line_text l)"]) simp
  next
    case False
    define j where "j = k - Suc (length (line_text l))"
    from Cons obtain m part where IH: "m \<le> length ls"
      "take j (file_text ls) = file_text (take m ls) @ part" "NL \<notin> set part"
      "m < length ls \<longrightarrow> length part \<le> length (line_text (ls ! m))" by (auto simp: list_all_iff) blast
    from False have k: "k = length (line_text l) + Suc j" by (simp add: j_def)
    have "take k (file_text (l # ls)) = line_text l @ NL # take j (file_text ls)" unfolding k by simp
    with IH show ?thesis by (intro exI [of _ "Suc m"] exI [of _ part]) simp
  qed
qed

lemma recover_prefix:
  assumes "list_all body_line ls" and "NL \<notin> set part"
  shows "recover_journal (file_text (take m (header_line # ls)) @ part) = Inr (recovered_as (take m (header_line # ls)) part)"
proof (cases m)
  case 0
  then show ?thesis using recover_nothing assms(2) by simp
next
  case (Suc i)
  have "list_all body_line (take i ls)" using assms(1) by (auto simp: list_all_iff dest: in_set_takeD)
  from recover_whole [OF this assms(2)] Suc show ?thesis by simp
qed

lemma recover_cut:
  assumes "list_all body_line ls"
  shows "\<exists>m part. m \<le> Suc (length ls) \<and> NL \<notin> set part \<and>
    take k (file_text (header_line # ls)) = file_text (take m (header_line # ls)) @ part \<and>
    (m \<le> length ls \<longrightarrow> length part \<le> length (line_text ((header_line # ls) ! m))) \<and>
    recover_journal (take k (file_text (header_line # ls))) = Inr (recovered_as (take m (header_line # ls)) part)"
proof -
  have "list_all line_ok (header_line # ls)" using assms by (auto simp: list_all_iff body_line_def)
  from take_file_text [OF this, of k] obtain m part where m: "m \<le> Suc (length ls)"
    "take k (file_text (header_line # ls)) = file_text (take m (header_line # ls)) @ part" "NL \<notin> set part"
    "m \<le> length ls \<longrightarrow> length part \<le> length (line_text ((header_line # ls) ! m))"
    by (auto simp: less_Suc_eq_le simp del: file_text_simps)
  from recover_prefix [OF assms m(3)]
  have "recover_journal (file_text (take m (header_line # ls)) @ part) = Inr (recovered_as (take m (header_line # ls)) part)" .
  then show ?thesis using m by (intro exI [of _ m] exI [of _ part]) (simp del: file_text_simps)
qed

lemma recovered_as_take:
  "recovered_as (take m (header_line # ls)) part =
     \<lparr>jr_lines = take (m - 1) ls, jr_valid_len = length (file_text (take m (header_line # ls))),
      jr_tail = (if part = [] then Clean else PartialDiscarded (length part)), jr_has_header = (0 < m)\<rparr>"
  by (cases m) (simp_all add: recovered_as_def)

text \<open>
  Claim C27. A crash may cut the journal file at any byte. Recovery then succeeds and answers with the
  longest sequence of whole lines that were written, in order, the length to truncate the file to, how
  many torn bytes follow it, and whether the header is among what is left: nothing written before the
  cut is lost, nothing is invented, and a file torn inside its header is as if it had none.
\<close>

theorem journal_recovers_after_any_cut:
  assumes "list_all body_line ls"
  shows "\<exists>m part. m \<le> Suc (length ls) \<and>
    take k (file_text (header_line # ls)) = file_text (take m (header_line # ls)) @ part \<and>
    (m \<le> length ls \<longrightarrow> length part \<le> length (line_text ((header_line # ls) ! m))) \<and>
    recover_journal (take k (file_text (header_line # ls))) =
      Inr \<lparr>jr_lines = take (m - 1) ls, jr_valid_len = length (file_text (take m (header_line # ls))),
           jr_tail = (if part = [] then Clean else PartialDiscarded (length part)), jr_has_header = (0 < m)\<rparr>"
  using recover_cut [OF assms, of k] unfolding recovered_as_take by blast

lemma example_body: "list_all body_line [LLedger example_attempt]"
  using utf8_encode example_attempt_utf8 by (simp add: body_line_def line_text_def)

theorem journal_recovers_after_any_cut_witness:
  "\<exists>rv. recover_journal (take 60 (file_text [header_line, LLedger example_attempt])) = Inr rv"
  using journal_recovers_after_any_cut [OF example_body, of 60] by blast

text \<open>
  What recovery refuses, whatever follows: a first line that is intact but of another
  kind, a header of another file version - which is named, so that an older build never reads a newer
  file - and a second header anywhere.
\<close>

theorem foreign_journal_is_refused:
  "(body_line l \<longrightarrow> recover_journal (line_text l @ NL # later) = Inl (BadHeader ''the first line is not a header'')) \<and>
   (v \<noteq> file_version \<longrightarrow> recover_journal (line_text (LHeader v) @ NL # later) = Inl (UnsupportedVersion v)) \<and>
   (list_all body_line ls \<longrightarrow>
      recover_journal (file_text (header_line # ls) @ line_text (LHeader w) @ NL # later) =
        Inl (JCorrupt (length ls + 2) ''a second header''))"
proof (intro conjI impI)
  assume "body_line l"
  then show "recover_journal (line_text l @ NL # later) = Inl (BadHeader ''the first line is not a header'')"
    using line_text_facts [of l]
    by (cases l) (simp_all add: body_line_def recover_journal_def recover_lines_line take_line_def)
next
  assume "v \<noteq> file_version"
  then show "recover_journal (line_text (LHeader v) @ NL # later) = Inl (UnsupportedVersion v)"
    using line_text_facts [of "LHeader v"] header_utf8
    by (simp add: recover_journal_def recover_lines_line take_line_def)
next
  assume "list_all body_line ls"
  then show "recover_journal (file_text (header_line # ls) @ line_text (LHeader w) @ NL # later) =
        Inl (JCorrupt (length ls + 2) ''a second header'')"
    using recover_lines_body [of ls 1 "line_text (LHeader w) @ NL # later" "length (line_text header_line) + 1" "[]" True]
      line_text_facts [of "LHeader w"] header_utf8 [of w]
    by (simp add: recover_journal_def recover_lines_header recover_lines_line take_line_def)
qed

theorem foreign_journal_is_refused_witness:
  "recover_journal (line_text (LLedger example_attempt) @ [NL]) = Inl (BadHeader ''the first line is not a header'') \<and>
   recover_journal (line_text (LHeader 2) @ [NL]) = Inl (UnsupportedVersion 2) \<and>
   recover_journal (file_text [header_line, LLedger example_attempt] @ line_text (LHeader 2) @ [NL]) =
     Inl (JCorrupt 3 ''a second header'')"
  using foreign_journal_is_refused [of "LLedger example_attempt" "[]" 2 "[LLedger example_attempt]" 2] example_body
  by (simp add: file_version_def numeral_3_eq_3)

end
