(* ===== verification/JournalProps.thy ===== *)
theory JournalProps
  imports JournalRecovery
begin

text \<open>
  What the replay of a journal (\<open>replay\<close> of \<open>deploy/src/journal_format.rs\<close>) guarantees: each store is
  the replay of its own records, a deployment that has ended stays as it ended, and what startup and an
  explicit recovery write is accepted.
\<close>

section \<open>Replay, store by store\<close>

fun apply_snapshots :: "deployment list \<Rightarrow> deployment list \<Rightarrow> format_error + deployment list" where
  "apply_snapshots [] ds = Inr ds"
| "apply_snapshots (x # xs) ds = bind_res (apply_snapshot x ds) (apply_snapshots xs)"

fun log_replay :: "step_log list \<Rightarrow> log_state \<Rightarrow> string + log_state" where
  "log_replay [] ls = Inr ls"
| "log_replay (r # rs) ls = bind_res (log_apply r ls) (log_replay rs)"

definition snapshots_of :: "jline list \<Rightarrow> deployment list" where
  "snapshots_of ls = concat (map (\<lambda>l. case l of LSnapshot d \<Rightarrow> [d] | _ \<Rightarrow> []) ls)"

definition ledger_of :: "jline list \<Rightarrow> ledger_record list" where
  "ledger_of ls = concat (map (\<lambda>l. case l of LLedger r \<Rightarrow> [r] | _ \<Rightarrow> []) ls)"

definition control_of :: "jline list \<Rightarrow> control_record list" where
  "control_of ls = concat (map (\<lambda>l. case l of LControl r \<Rightarrow> [r] | _ \<Rightarrow> []) ls)"

definition config_of :: "jline list \<Rightarrow> config_record list" where
  "config_of ls = concat (map (\<lambda>l. case l of LConfig r \<Rightarrow> [r] | _ \<Rightarrow> []) ls)"

definition git_of :: "jline list \<Rightarrow> git_record list" where
  "git_of ls = concat (map (\<lambda>l. case l of LGit r \<Rightarrow> [r] | _ \<Rightarrow> []) ls)"

definition step_logs_of :: "jline list \<Rightarrow> step_log list" where
  "step_logs_of ls = concat (map (\<lambda>l. case l of LStepLog r \<Rightarrow> [r] | _ \<Rightarrow> []) ls)"

lemmas lines_of_defs = snapshots_of_def ledger_of_def control_of_def config_of_def git_of_def step_logs_of_def

lemma led_replay_index: "led_replay_from i l rs = Inr m \<longleftrightarrow> led_replay_from j l rs = Inr m"
  by (induction rs arbitrary: i j l) (auto split: sum.splits)

lemma led_replay_Cons:
  "led_replay_from i l (r # rs) = Inr m \<longleftrightarrow> (\<exists>l'. led_apply l r = Inr l' \<and> led_replay_from i l' rs = Inr m)"
  using led_replay_index by (auto split: sum.splits)

text \<open>The state that each store has after all lines, and the number of ledger records.\<close>

lemma replay_lines_stores:
  "replay_lines ls (st, i) = Inr (st', j) \<longleftrightarrow>
     apply_snapshots (snapshots_of ls) (js_deployments st) = Inr (js_deployments st') \<and>
     led_replay_from 0 (js_ledger st) (ledger_of ls) = Inr (js_ledger st') \<and>
     control_replay (control_of ls) (js_control st) = Inr (js_control st') \<and>
     config_replay (config_of ls) (js_config st) = Inr (js_config st') \<and>
     git_replay (git_of ls) (js_git st) = Inr (js_git st') \<and>
     log_replay (step_logs_of ls) (js_logs st) = Inr (js_logs st') \<and> j = i + length (ledger_of ls)"
proof (induction ls arbitrary: st i)
  case Nil
  show ?case by (cases st; cases st') (auto simp: lines_of_defs)
next
  case (Cons l ls)
  show ?case
  proof (cases l)
    case (LLedger r)
    then show ?thesis
      using Cons.IH by (auto simp: lines_of_defs bind_res_Inr_iff led_replay_Cons simp del: led_replay_from.simps led_apply.simps)
  qed (use Cons.IH in \<open>auto simp: lines_of_defs bind_res_Inr_iff simp del: led_replay_from.simps control_apply.simps
      config_apply.simps git_apply.simps\<close>)
qed

lemma replay_stores:
  "replay_journal ls = Inr st \<longleftrightarrow>
     apply_snapshots (snapshots_of ls) [] = Inr (js_deployments st) \<and>
     led_replay (ledger_of ls) = Inr (js_ledger st) \<and>
     control_replay (control_of ls) control_empty = Inr (js_control st) \<and>
     config_replay (config_of ls) config_empty = Inr (js_config st) \<and>
     git_replay (git_of ls) git_empty = Inr (js_git st) \<and>
     log_replay (step_logs_of ls) [] = Inr (js_logs st) \<and>
     sl_deployment ` set (js_logs st) \<subseteq> d_id ` set (js_deployments st) \<and>
     check_pins (js_config st) (js_deployments st) = Inr () \<and>
     check_against (js_deployments st) (js_control st) = Inr ()"
proof -
  have logs: "check_logs s = Inr () \<longleftrightarrow> sl_deployment ` set (js_logs s) \<subseteq> d_id ` set (js_deployments s)" for s
  proof (cases "List.find (\<lambda>l. \<not> (\<exists>d \<in> set (js_deployments s). d_id d = sl_deployment l)) (js_logs s)")
    case None
    then have "\<forall>l \<in> set (js_logs s). \<exists>d \<in> set (js_deployments s). d_id d = sl_deployment l" by (simp add: find_None_iff)
    with None show ?thesis by (force simp: check_logs_def)
  next
    case (Some l)
    then show ?thesis using find_Some_set [OF Some] by (fastforce simp: check_logs_def image_subset_iff)
  qed
  have "replay_journal ls = Inr st \<longleftrightarrow>
      (\<exists>j. replay_lines ls (jstate_empty, 0) = Inr (st, j)) \<and> check_logs st = Inr () \<and>
      check_pins (js_config st) (js_deployments st) = Inr () \<and>
      check_against (js_deployments st) (js_control st) = Inr ()"
    by (auto simp: replay_journal_def bind_res_Inr_iff)
  then show ?thesis
    unfolding replay_lines_stores logs by (auto simp: jstate_empty_def led_replay_def)
qed

text \<open>
  The stores of a journal are independent: a journal replays to a state exactly if each
  store's own records, taken out of the journal in their order, replay to that store, every step log
  names a recorded deployment, every pinned configuration is available and the control state agrees with
  the deployments. How the records of different stores interleave makes no difference, and what a
  rejected record of one store leaves in the others is never seen.
\<close>

theorem replay_is_per_store:
  "replay_journal ls = Inr st \<longleftrightarrow>
     apply_snapshots (snapshots_of ls) [] = Inr (js_deployments st) \<and>
     led_replay (ledger_of ls) = Inr (js_ledger st) \<and>
     control_replay (control_of ls) control_empty = Inr (js_control st) \<and>
     config_replay (config_of ls) config_empty = Inr (js_config st) \<and>
     git_replay (git_of ls) git_empty = Inr (js_git st) \<and>
     log_replay (step_logs_of ls) [] = Inr (js_logs st) \<and>
     sl_deployment ` set (js_logs st) \<subseteq> d_id ` set (js_deployments st) \<and>
     check_pins (js_config st) (js_deployments st) = Inr () \<and>
     check_against (js_deployments st) (js_control st) = Inr ()"
  by (rule replay_stores)

section \<open>Ended deployments\<close>

lemma apply_snapshot_cases:
  assumes "apply_snapshot d ds = Inr ds'"
  obtains (new) "d_id d \<notin> d_id ` set ds" "ds' = ds @ [d]"
  | (old) us x vs where "ds = us @ x # vs" "ds' = us @ d # vs" "d_id x = d_id d"
      "is_terminal (d_status x) \<Longrightarrow> d = x \<or> recovery_attached x d"
proof (cases "List.find (\<lambda>x. d_id x = d_id d) ds")
  case None
  then have "d_id d \<notin> d_id ` set ds" by (auto simp: find_None_iff)
  with None assms show ?thesis by (intro new) (simp_all add: apply_snapshot_def)
next
  case (Some x)
  from update_first_split [OF Some, of "\<lambda>_. d"] obtain us vs where
    "ds = us @ x # vs" "update_first (\<lambda>x. d_id x = d_id d) (\<lambda>_. d) ds = us @ d # vs" "d_id x = d_id d" by blast
  moreover from Some assms have "ds' = update_first (\<lambda>x. d_id x = d_id d) (\<lambda>_. d) ds"
    "is_terminal (d_status x) \<Longrightarrow> d = x \<or> recovery_attached x d"
    by (auto simp: apply_snapshot_def split: if_splits)
  ultimately show ?thesis using old [of us x vs] by simp
qed

lemma apply_snapshot_distinct: "apply_snapshot d ds = Inr ds' \<Longrightarrow> distinct (map d_id ds) \<Longrightarrow> distinct (map d_id ds')"
  by (erule apply_snapshot_cases) auto

lemma apply_snapshots_distinct:
  "apply_snapshots xs ds = Inr ds' \<Longrightarrow> distinct (map d_id ds) \<Longrightarrow> distinct (map d_id ds')"
  by (induction xs arbitrary: ds) (auto simp: bind_res_Inr_iff dest: apply_snapshot_distinct)

text \<open>
  What may still happen to a deployment that has ended: nothing, or the recovery of an interrupted one
  is attached and then closed. Then its step records and its interruption may be other ones as well, and
  every other field is what it was.
\<close>

definition kept_but_recovery :: "deployment \<Rightarrow> deployment \<Rightarrow> bool" where
  "kept_but_recovery old new \<longleftrightarrow>
     new = old\<lparr>d_steps := d_steps new, d_cutover := d_cutover new, d_recovery := d_recovery new,
               d_interruption := d_interruption new\<rparr>"

definition settled_as :: "deployment \<Rightarrow> deployment \<Rightarrow> bool" where
  "settled_as old new \<longleftrightarrow>
     new = old \<or>
     d_status old = Interrupted \<and> kept_but_recovery old new \<and> d_recovery new \<noteq> None \<and>
     (case d_recovery old of
        None \<Rightarrow> is_begun (d_cutover old) \<and> is_failed (d_cutover new)
      | Some o' \<Rightarrow> rec_outcome o' = InProgress \<and> d_cutover old = d_cutover new \<and>
          map_option rec_started_ms (d_recovery new) = Some (rec_started_ms o') \<and>
          map_option rec_budget_ms (d_recovery new) = Some (rec_budget_ms o'))"

lemma kept_identity: "same_identity old new \<and> d_status new = d_status old \<longleftrightarrow> kept_but_recovery old new"
  by (cases old; cases new) (auto simp: same_identity_def kept_but_recovery_def)

lemma kept_but_trans: "kept_but_recovery a b \<Longrightarrow> kept_but_recovery b c \<Longrightarrow> kept_but_recovery a c"
  by (cases a; cases b; cases c) (simp add: kept_but_recovery_def)

lemma kept_but_fields: "kept_but_recovery old new \<Longrightarrow> d_id new = d_id old \<and> d_status new = d_status old"
  by (cases old; cases new) (simp add: kept_but_recovery_def)

lemma settled_attached: "recovery_attached old new \<Longrightarrow> settled_as old new"
  using kept_identity [of old new] by (auto simp: recovery_attached_def settled_as_def split: option.splits)

lemma settled_trans: "settled_as a b \<Longrightarrow> settled_as b c \<Longrightarrow> settled_as a c"
  by (auto simp: settled_as_def dest: kept_but_trans split: option.splits)

lemma settled_terminal: "settled_as old new \<Longrightarrow> is_terminal (d_status old) \<Longrightarrow> is_terminal (d_status new)"
  by (auto simp: settled_as_def dest: kept_but_fields)

lemma settled_id: "settled_as old new \<Longrightarrow> d_id new = d_id old"
  by (auto simp: settled_as_def dest: kept_but_fields)

lemma apply_snapshot_settled:
  assumes "apply_snapshot d ds = Inr ds'" and "old \<in> set ds" and "is_terminal (d_status old)" and "distinct (map d_id ds)"
  shows "\<exists>new \<in> set ds'. settled_as old new"
  using assms(1)
proof (cases rule: apply_snapshot_cases)
  case new
  then show ?thesis using assms(2) by (auto simp: settled_as_def)
next
  case (old us x vs)
  show ?thesis
  proof (cases "old = x")
    case True
    then show ?thesis using old assms(3) settled_attached by (auto simp: settled_as_def)
  next
    case False
    then show ?thesis using old assms(2) by (auto simp: settled_as_def)
  qed
qed

lemma apply_snapshots_settled:
  "apply_snapshots xs ds = Inr ds' \<Longrightarrow> old \<in> set ds \<Longrightarrow> is_terminal (d_status old) \<Longrightarrow> distinct (map d_id ds) \<Longrightarrow>
   \<exists>new \<in> set ds'. settled_as old new"
proof (induction xs arbitrary: ds old)
  case Nil
  then show ?case by (auto simp: settled_as_def)
next
  case (Cons x xs)
  then obtain ds1 where ds1: "apply_snapshot x ds = Inr ds1" "apply_snapshots xs ds1 = Inr ds'"
    by (auto simp: bind_res_Inr_iff)
  from apply_snapshot_settled [OF ds1(1) Cons.prems(2-4)] obtain mid where
    mid: "mid \<in> set ds1" "settled_as old mid" by blast
  from Cons.IH [OF ds1(2) mid(1)] mid(2) Cons.prems(3) apply_snapshot_distinct [OF ds1(1) Cons.prems(4)]
  obtain new where "new \<in> set ds'" "settled_as mid new" using settled_terminal by blast
  then show ?case using settled_trans [OF mid(2)] by blast
qed

lemma apply_snapshots_append:
  "apply_snapshots (xs @ ys) ds = bind_res (apply_snapshots xs ds) (apply_snapshots ys)"
proof (induction xs arbitrary: ds)
  case (Cons x xs)
  then show ?case by (cases "apply_snapshot x ds") simp_all
qed simp

text \<open>
  Claim C28. History does not change: when a journal replays and replays again after more lines were
  appended, the deployments have distinct ids, and each that had ended is still there, exactly as it
  was, with one exception: an interrupted deployment may have a recovery attached, which takes its
  cutover from begun to failed, or its unfinished recovery closed, with the same start, budget and
  cutover. Even then its identity, status, times, failure, release, pinned configuration and what it
  replaces or rolls back to are what they were; its step records and its interruption may be other ones,
  which the replay does not compare. A finished recovery is final: then nothing changes at all.
\<close>

theorem ended_deployments_stay:
  assumes "replay_journal ls = Inr st" and "replay_journal (ls @ more_lines) = Inr st'"
    and "old \<in> set (js_deployments st)" and "is_terminal (d_status old)"
  shows "distinct (map d_id (js_deployments st')) \<and>
    (\<exists>new \<in> set (js_deployments st'). d_id new = d_id old \<and>
       (new = old \<or>
        d_status old = Interrupted \<and>
        new = old\<lparr>d_steps := d_steps new, d_cutover := d_cutover new, d_recovery := d_recovery new,
                  d_interruption := d_interruption new\<rparr> \<and>
        (\<exists>r. d_recovery new = Some r \<and>
           (case d_recovery old of
              None \<Rightarrow> (\<exists>t. d_cutover old = Begun t) \<and> (\<exists>t. d_cutover new = CutoverFailed t)
            | Some o' \<Rightarrow> rec_outcome o' = InProgress \<and> d_cutover new = d_cutover old \<and>
                rec_started_ms r = rec_started_ms o' \<and> rec_budget_ms r = rec_budget_ms o'))))"
proof -
  have run: "apply_snapshots (snapshots_of ls) [] = Inr (js_deployments st)"
    "apply_snapshots (snapshots_of ls @ snapshots_of more_lines) [] = Inr (js_deployments st')"
    using assms(1,2) unfolding replay_stores by (simp_all add: snapshots_of_def)
  have later: "apply_snapshots (snapshots_of more_lines) (js_deployments st) = Inr (js_deployments st')"
    using run(2) unfolding apply_snapshots_append run(1) by simp
  have dist: "distinct (map d_id (js_deployments st))" using apply_snapshots_distinct [OF run(1)] by simp
  obtain new where "new \<in> set (js_deployments st')" "settled_as old new"
    using apply_snapshots_settled [OF later assms(3,4) dist] by blast
  moreover from this have "new = old \<or> d_status old = Interrupted \<and>
      new = old\<lparr>d_steps := d_steps new, d_cutover := d_cutover new, d_recovery := d_recovery new,
                d_interruption := d_interruption new\<rparr> \<and>
      (\<exists>r. d_recovery new = Some r \<and>
         (case d_recovery old of
            None \<Rightarrow> (\<exists>t. d_cutover old = Begun t) \<and> (\<exists>t. d_cutover new = CutoverFailed t)
          | Some o' \<Rightarrow> rec_outcome o' = InProgress \<and> d_cutover new = d_cutover old \<and>
              rec_started_ms r = rec_started_ms o' \<and> rec_budget_ms r = rec_budget_ms o'))"
    by (auto simp: settled_as_def kept_but_recovery_def is_begun_def is_failed_def split: option.splits cutover_state.splits)
  ultimately show ?thesis
    using apply_snapshots_distinct [OF later dist] settled_id by blast
qed

definition example_ended :: deployment where
  "example_ended = recover_one 20 (deployment_new (DeploymentId 7) (ApplicationId 9) Cli 12)"

definition example_journal_state :: jstate where
  "example_journal_state = jstate_empty\<lparr>js_deployments := [example_ended]\<rparr>"

lemma example_ended_replays:
  "replay_journal [LSnapshot example_ended] = Inr example_journal_state"
  "replay_journal ([LSnapshot example_ended] @ [LHeader 1]) = Inr example_journal_state"
proof -
  have "check_against [example_ended] control_empty = Inr ()"
    by (simp add: check_against_def control_empty_def)
  moreover have "d_pinned example_ended = None"
    by (simp add: example_ended_def recover_one_open deployment_new_def is_terminal_def)
  ultimately show "replay_journal [LSnapshot example_ended] = Inr example_journal_state"
    "replay_journal ([LSnapshot example_ended] @ [LHeader 1]) = Inr example_journal_state"
    by (simp_all add: replay_journal_def jstate_empty_def apply_snapshot_def check_logs_def example_journal_state_def
        check_pin_def)
qed

theorem ended_deployments_stay_witness:
  "\<exists>new \<in> set (js_deployments example_journal_state). d_id new = d_id example_ended \<and>
     d_status new = d_status example_ended"
proof -
  have "example_ended \<in> set (js_deployments example_journal_state)" "is_terminal (d_status example_ended)"
    by (simp add: example_journal_state_def) (simp add: example_ended_def)
  from ended_deployments_stay [OF example_ended_replays this] show ?thesis
    by (auto simp: example_journal_state_def)
qed

section \<open>What startup and recovery write\<close>

text \<open>
  The records that the program puts on disk: what a run saves, which is any reachable record that is not
  interrupted; what startup makes of a recorded one; and the two records an explicit recovery saves, when
  it has begun and when its outcome and the end of its step are known.
\<close>

inductive persisted :: "deployment \<Rightarrow> bool" where
  by_run: "reachable_record d \<Longrightarrow> d_status d \<noteq> Interrupted \<Longrightarrow> persisted d"
| by_startup: "persisted d \<Longrightarrow> persisted (recover_one now d)"
| by_begin: "persisted d \<Longrightarrow> begin_explicit_recovery budget now d = Inr d' \<Longrightarrow> persisted d'"
| by_finish: "persisted d \<Longrightarrow> d_status d = Interrupted \<Longrightarrow> finish_recovery oc now d = Inr d' \<Longrightarrow>
    finish_step Recovery ok msg now d' = Some (Inr d'') \<Longrightarrow> persisted d''"

text \<open>What an explicit recovery saves of a recorded deployment.\<close>

definition explicit_save :: "deployment \<Rightarrow> deployment \<Rightarrow> bool" where
  "explicit_save d d' \<longleftrightarrow>
     (\<exists>budget now. begin_explicit_recovery budget now d = Inr d') \<or>
     d_status d = Interrupted \<and>
     (\<exists>oc now e ok msg. finish_recovery oc now d = Inr e \<and> finish_step Recovery ok msg now e = Some (Inr d'))"

text \<open>The records that \<open>mark_interrupted\<close> of the file journal persists: each that startup changed.\<close>

definition startup_snapshots :: "u64 \<Rightarrow> deployment list \<Rightarrow> deployment list" where
  "startup_snapshots now ds =
     map snd (filter (\<lambda>(old, new). old \<noteq> new) (zip ds (fst (recover_on_start now ds))))"

lemma persisted_reachable: "persisted d \<Longrightarrow> reachable_record d"
  by (induction rule: persisted.induct) (auto intro: rr_op dep_op.intros)

lemma explicit_persisted: "persisted d \<Longrightarrow> explicit_save d d' \<Longrightarrow> persisted d'"
  by (auto simp: explicit_save_def intro: by_begin by_finish)

text \<open>The recovery step of an interrupted record runs only during a recovery that is in progress.\<close>

definition recovery_step_matches :: "deployment \<Rightarrow> bool" where
  "recovery_step_matches d \<longleftrightarrow>
     d_status d = Interrupted \<longrightarrow>
     (\<exists>r \<in> set (d_steps d). sr_step r = Recovery \<and> sr_status r = SRunning) \<longrightarrow>
     (\<exists>r. d_recovery d = Some r \<and> rec_outcome r = InProgress)"

lemma finished_step_ended:
  assumes "steps_ok d" and "finish_step s ok msg now d = Some (Inr d')" and "r \<in> set (d_steps d')" and "sr_step r = s"
  shows "sr_status r \<noteq> SRunning"
proof -
  have dist: "distinct (map sr_step (d_steps d))" using assms(1) by (simp add: steps_ok_def step_order_def)
  obtain x where "find_step d s = Some x" "d' = update_step s
      (\<lambda>r. r\<lparr>sr_status := if ok then SSucceeded else SFailed, sr_finished_ms := Some now, sr_note := msg\<rparr>) d"
    using assms(2) by (auto simp: finish_step_def Let_def split: option.splits if_splits)
  moreover from update_first_split [OF this(1) [unfolded find_step_def]] obtain us vs where
    "d_steps d = us @ x # vs" "d_steps d' = us @ x\<lparr>sr_status := if ok then SSucceeded else SFailed,
       sr_finished_ms := Some now, sr_note := msg\<rparr> # vs" "sr_step x = s"
    unfolding calculation(2) update_step_def by fastforce
  ultimately show ?thesis using dist assms(3,4) by (cases ok) (auto simp: image_iff)
qed

lemma persisted_step: "persisted d \<Longrightarrow> recovery_step_matches d"
proof (induction rule: persisted.induct)
  case (by_startup d now)
  then show ?case using recover_one_closed [of now d] by (auto simp: recovery_step_matches_def recovery_closed_def)
next
  case (by_begin d budget now d')
  then have "\<exists>r. d_recovery d' = Some r \<and> rec_outcome r = InProgress"
    by (auto dest!: begin_explicit_recovery_Inr simp: update_step_def)
  then show ?case by (simp add: recovery_step_matches_def)
next
  case (by_finish d oc now d' ok msg d'')
  have "reachable_record d'" using by_finish by (metis op_finish_recovery persisted_reachable rr_op)
  then have "steps_ok d'" using reachable_record_ok by blast
  then show ?case using finished_step_ended by_finish by (auto simp: recovery_step_matches_def)
qed (simp add: recovery_step_matches_def)

lemma explicit_recovery_attached: "begin_explicit_recovery b now d = Inr d' \<Longrightarrow> recovery_attached d d'"
  by (auto simp: begin_explicit_recovery_def can_recover_explicitly_def fail_cutover_def start_recovery_def
      recovery_attached_def same_identity_def update_step_def is_begun_def is_failed_def
      split: if_splits cutover_state.splits)

lemma finish_recovery_attached:
  "finish_recovery oc now d = Inr d' \<Longrightarrow> d_status d = Interrupted \<Longrightarrow> recovery_attached d d'"
  by (auto simp: finish_recovery_def recovery_attached_def same_identity_def end_interruption_def Let_def
      split: option.splits if_splits)

lemma finish_step_other:
  "finish_step s ok msg now d = Some (Inr d') \<Longrightarrow> \<exists>ss. d' = d\<lparr>d_steps := ss\<rparr>"
  by (auto simp: finish_step_def update_step_def Let_def split: option.splits if_splits)

lemma attached_steps: "recovery_attached d e \<Longrightarrow> recovery_attached d (e\<lparr>d_steps := ss\<rparr>)"
  by (simp add: recovery_attached_def same_identity_def split: option.splits)

lemma explicit_attached:
  assumes "explicit_save d d'"
  shows "recovery_attached d d'"
proof -
  consider budget now where "begin_explicit_recovery budget now d = Inr d'"
    | oc now e ok msg where "d_status d = Interrupted" "finish_recovery oc now d = Inr e" "finish_step Recovery ok msg now e = Some (Inr d')"
    using assms by (auto simp: explicit_save_def)
  then show ?thesis
  proof cases
    case 1
    then show ?thesis by (rule explicit_recovery_attached)
  next
    case 2
    from finish_step_other [OF 2(3)] attached_steps [OF finish_recovery_attached [OF 2(2,1)]] show ?thesis by blast
  qed
qed

lemma startup_attached:
  assumes "is_terminal (d_status d)" and "recovery_step_matches d"
  shows "recover_one now d = d \<or> recovery_attached d (recover_one now d)"
proof (cases "d_status d = Interrupted")
  case False
  then show ?thesis using assms by (simp add: recover_one_other)
next
  case True
  show ?thesis
  proof (cases "\<exists>r. d_recovery d = Some r \<and> rec_outcome r = InProgress")
    case True
    then have "recovery_attached d (recover_one now d)" using \<open>d_status d = Interrupted\<close>
      by (auto simp: recover_one_interrupted recovery_attached_def same_identity_def close_unfinished_recovery_def)
    then show ?thesis by blast
  next
    case closed: False
    then have "recovery_closed d" using assms(2) True by (auto simp: recovery_closed_def recovery_step_matches_def)
    then show ?thesis using True by (simp add: recover_one_interrupted close_closed)
  qed
qed

text \<open>What both leave of a record as far as the control records speak of it.\<close>

definition speaks_same :: "deployment \<Rightarrow> deployment \<Rightarrow> bool" where
  "speaks_same d d' \<longleftrightarrow>
     d_id d' = d_id d \<and> d_app d' = d_app d \<and> d_pinned d' = d_pinned d \<and>
     map_option int_started_ms (d_interruption d') = map_option int_started_ms (d_interruption d) \<and>
     (d_cutover d' = d_cutover d \<and>
        (if d_status d = Succeeded then d' = d else d_status d' \<noteq> Succeeded) \<or>
      (\<exists>t. d_cutover d = Begun t \<and> is_failed (d_cutover d') \<and>
         map_option int_started_ms (d_interruption d) = Some t))"

definition begun_started :: "deployment \<Rightarrow> bool" where
  "begun_started d \<longleftrightarrow> (\<forall>t. d_cutover d = Begun t \<longrightarrow> map_option int_started_ms (d_interruption d) = Some t)"

lemma begun_started_op: "dep_op d d' \<Longrightarrow> begun_started d \<Longrightarrow> begun_started d'"
proof (induction rule: dep_op.induct)
  case (op_explicit budget now d d')
  then show ?case by (auto dest!: begin_explicit_recovery_Inr simp: update_step_def begun_started_def)
qed (auto simp: record_op_defs begun_started_def transition_def start_step_def finish_step_def Let_def
    split: option.splits cutover_state.splits if_splits)

lemma reachable_begun: "reachable_record d \<Longrightarrow> begun_started d"
  by (induction rule: reachable_record.induct) (simp add: deployment_new_def begun_started_def, rule begun_started_op)

lemma speaks_startup: "speaks_same d (recover_one now d)"
proof (cases "is_terminal (d_status d)")
  case True
  then show ?thesis
    by (cases "d_status d = Interrupted")
      (auto simp: speaks_same_def recover_one_other recover_one_interrupted close_unfinished_recovery_def)
next
  case False
  then show ?thesis by (auto simp: speaks_same_def recover_one_open is_terminal_def)
qed

lemma speaks_explicit:
  assumes "explicit_save d d'" and "begun_started d"
  shows "speaks_same d d'"
proof -
  consider budget now where "begin_explicit_recovery budget now d = Inr d'"
    | oc now e ok msg where "d_status d = Interrupted" "finish_recovery oc now d = Inr e" "finish_step Recovery ok msg now e = Some (Inr d')"
    using assms(1) by (auto simp: explicit_save_def)
  then show ?thesis
  proof cases
    case 1
    then show ?thesis using assms(2)
      by (auto dest!: begin_explicit_recovery_Inr simp: update_step_def speaks_same_def can_recover_explicitly_def
          is_begun_def is_failed_def begun_started_def split: cutover_state.splits)
  next
    case 2
    then show ?thesis
      by (auto simp: speaks_same_def finish_recovery_def end_interruption_def Let_def option.map_comp comp_def
          dest!: finish_step_other split: option.splits if_splits)
  qed
qed

lemma speaks_refl: "speaks_same d d"
  by (simp add: speaks_same_def)

definition candidates_agree :: "deployment \<Rightarrow> pause_candidate \<Rightarrow> pause_candidate \<Rightarrow> bool" where
  "candidates_agree d c c' \<longleftrightarrow> pc_origin c' = pc_origin c \<and> pc_app c' = pc_app c \<and> pc_origin c = d_id d \<and>
     (pc_kind c' = pc_kind c \<and> pc_at_ms c' = pc_at_ms c \<or>
      pc_kind c = PInterruptedCutover \<and> pc_kind c' = PFailedCutover \<and>
      map_option int_started_ms (d_interruption d) = Some (pc_at_ms c))"

lemma speaks_candidate:
  assumes "speaks_same d d'"
  shows "rel_option (candidates_agree d) (candidate_of d) (candidate_of d')"
proof (cases "d_cutover d' = d_cutover d")
  case False
  then obtain t where "d_cutover d = Begun t" "is_failed (d_cutover d')" "map_option int_started_ms (d_interruption d) = Some t"
    using assms by (auto simp: speaks_same_def)
  then show ?thesis using assms
    by (cases "d_cutover d'") (simp_all add: candidate_of_def is_failed_def speaks_same_def candidates_agree_def)
next
  case True
  show ?thesis
  proof (cases "d' = d")
    case same: False
    then have "d_status d \<noteq> Succeeded \<and> d_status d' \<noteq> Succeeded \<or> is_failed (d_cutover d)"
      using True assms by (auto simp: speaks_same_def split: if_splits)
    then show ?thesis using True assms
      by (cases "d_cutover d"; cases "d_status d"; cases "d_status d'")
        (auto simp: candidate_of_def is_failed_def speaks_same_def Let_def candidates_agree_def split: option.splits)
  qed (auto simp: candidate_of_def Let_def candidates_agree_def split: cutover_state.splits option.splits deployment_status.splits)
qed

lemma speaks_fields:
  "speaks_same d d' \<Longrightarrow> d_id d' = d_id d \<and> d_app d' = d_app d \<and> d_pinned d' = d_pinned d \<and>
   map_option int_started_ms (d_interruption d') = map_option int_started_ms (d_interruption d)"
  unfolding speaks_same_def by blast

lemma speaks_find_id:
  "list_all2 speaks_same ds ds' \<Longrightarrow>
   rel_option speaks_same (List.find (\<lambda>d. d_id d = i) ds) (List.find (\<lambda>d. d_id d = i) ds')"
  by (induction rule: list_all2_induct) (auto dest: speaks_fields)

lemma candidates_Cons:
  "pause_candidates (d # ds) = (case candidate_of d of None \<Rightarrow> pause_candidates ds | Some c \<Rightarrow> c # pause_candidates ds)"
  by (auto simp: pause_candidates_def List.map_filter_simps split: option.split)

lemma speaks_find_candidate:
  "list_all2 speaks_same ds ds' \<Longrightarrow> List.find (\<lambda>c. pc_origin c = i \<and> pc_app c = a) (pause_candidates ds) = Some c \<Longrightarrow>
   \<exists>d \<in> set ds. \<exists>c'. List.find (\<lambda>c. pc_origin c = i \<and> pc_app c = a) (pause_candidates ds') = Some c' \<and> candidates_agree d c c'"
proof (induction rule: list_all2_induct)
  case (Cons d ds d' ds')
  note rel = speaks_candidate [OF Cons.hyps(1)]
  show ?case
  proof (cases "candidate_of d")
    case None
    then show ?thesis using rel Cons.IH Cons.prems by (auto simp: candidates_Cons)
  next
    case (Some x)
    with rel obtain x' where x': "candidate_of d' = Some x'" "candidates_agree d x x'" by (auto simp: option_rel_Some1)
    then show ?thesis using Some Cons.IH Cons.prems by (auto simp: candidates_Cons candidates_agree_def split: if_splits)
  qed
qed (simp add: pause_candidates_def List.map_filter_def)

lemma map_res_Inr: "(\<exists>ys. map_res f xs = Inr ys) \<longleftrightarrow> (\<forall>x \<in> set xs. \<exists>y. f x = Inr y)"
  by (induction xs) (auto simp: bind_res_Inr_iff)

lemma check_against_iff:
  "check_against ds s = Inr () \<longleftrightarrow>
     (\<forall>p \<in> set (cs_pauses s). check_pause ds p = Inr ()) \<and> (\<forall>x \<in> set (cs_execs s). check_exec ds x = Inr ()) \<and>
     (\<forall>r \<in> set (cs_resumes s). \<forall>o' \<in> set (re_cleared r). check_cleared ds (re_app r) o' = Inr ())"
proof -
  have units: "(\<exists>ys. map_res f xs = Inr ys) \<longleftrightarrow> (\<forall>x \<in> set xs. f x = Inr ())" for f :: "'a \<Rightarrow> string + unit" and xs
    by (simp add: map_res_Inr)
  have "check_against ds s = Inr () \<longleftrightarrow>
      (\<exists>ys. map_res (check_pause ds) (cs_pauses s) = Inr ys) \<and> (\<exists>ys. map_res (check_exec ds) (cs_execs s) = Inr ys) \<and>
      (\<exists>ys. map_res (\<lambda>r. map_res (check_cleared ds (re_app r)) (re_cleared r)) (cs_resumes s) = Inr ys)"
    by (auto simp: check_against_def bind_res_Inr_iff)
  then show ?thesis by (simp add: map_res_Inr)
qed

lemma find_distinct:
  "distinct (map f xs) \<Longrightarrow> x \<in> set xs \<Longrightarrow> f x = y \<Longrightarrow> List.find (\<lambda>x. f x = y) xs = Some x"
  by (induction xs) (auto simp: image_iff)

lemma speaks_pause:
  assumes rel: "list_all2 speaks_same ds ds'" and dist: "distinct (map d_id ds)" and ok: "check_pause ds p = Inr ()"
  shows "check_pause ds' p = Inr ()"
proof -
  obtain c where c: "List.find (\<lambda>c. pc_origin c = pu_origin p \<and> pc_app c = pu_app p) (pause_candidates ds) = Some c"
    "pause_compatible ds p c" using ok by (auto simp: check_pause_def split: option.splits if_splits)
  obtain d c' where
    c': "d \<in> set ds" "candidates_agree d c c'"
      "List.find (\<lambda>c. pc_origin c = pu_origin p \<and> pc_app c = pu_app p) (pause_candidates ds') = Some c'"
    using speaks_find_candidate [OF rel c(1)] by blast
  have "pc_origin c = pu_origin p" using find_Some_set [OF c(1)] by simp
  then have "d_id d = pu_origin p" using c'(2) by (simp add: candidates_agree_def)
  with dist c'(1) have found: "List.find (\<lambda>d. d_id d = pu_origin p) ds = Some d"
    using find_distinct [of d_id ds d "pu_origin p"] by blast
  obtain d' where d': "List.find (\<lambda>d. d_id d = pu_origin p) ds' = Some d'" "speaks_same d d'"
    using speaks_find_id [OF rel, of "pu_origin p"] unfolding found option_rel_Some1 by blast
  have started: "Option.bind (List.find (\<lambda>d. d_id d = pu_origin p) ds) (\<lambda>d. map_option int_started_ms (d_interruption d)) =
      map_option int_started_ms (d_interruption d)"
    "Option.bind (List.find (\<lambda>d. d_id d = pu_origin p) ds') (\<lambda>d. map_option int_started_ms (d_interruption d)) =
      map_option int_started_ms (d_interruption d)"
    unfolding found d'(1) using speaks_fields [OF d'(2)] by simp_all
  consider (same) "pc_kind c' = pc_kind c" "pc_at_ms c' = pc_at_ms c"
    | (failed) "pc_kind c = PInterruptedCutover" "pc_kind c' = PFailedCutover"
        "map_option int_started_ms (d_interruption d) = Some (pc_at_ms c)"
    using c'(2) unfolding candidates_agree_def by blast
  then have "pause_compatible ds' p c'"
  proof cases
    case same
    show ?thesis using c(2) unfolding pause_compatible_def Let_def started same .
  next
    case failed
    have "pu_kind p = PInterruptedCutover \<and> pu_at_ms p = pc_at_ms c"
      using c(2) unfolding pause_compatible_def Let_def failed by (simp split: if_splits)
    then show ?thesis unfolding pause_compatible_def Let_def started failed by simp
  qed
  then show ?thesis using c'(3) by (simp add: check_pause_def)
qed

lemma speaks_exec:
  assumes "list_all2 speaks_same ds ds'" and "check_exec ds x = Inr ()"
  shows "check_exec ds' x = Inr ()"
proof -
  have "\<exists>d' \<in> set ds'. d_id d' = d_id d \<and> d_app d' = d_app d" if "d \<in> set ds" for d
    using assms(1) that by (induction rule: list_all2_induct) (auto dest: speaks_fields)
  then show ?thesis using assms(2) by (fastforce simp: check_exec_def split: option.splits if_splits)
qed

lemma speaks_cleared:
  assumes "list_all2 speaks_same ds ds'" and "check_cleared ds app o' = Inr ()"
  shows "check_cleared ds' app o' = Inr ()"
proof -
  obtain c where "List.find (\<lambda>c. pc_origin c = o' \<and> pc_app c = app) (pause_candidates ds) = Some c"
    using assms(2) by (cases "List.find (\<lambda>c. pc_origin c = o' \<and> pc_app c = app) (pause_candidates ds)")
      (auto simp: check_cleared_def find_None_iff split: if_splits)
  from speaks_find_candidate [OF assms(1) this] show ?thesis by (auto simp: check_cleared_def dest!: find_Some_set)
qed

lemma speaks_check:
  "list_all2 speaks_same ds ds' \<Longrightarrow> distinct (map d_id ds) \<Longrightarrow> check_against ds s = Inr () \<Longrightarrow> check_against ds' s = Inr ()"
  unfolding check_against_iff using speaks_pause speaks_exec speaks_cleared by blast

lemma speaks_pins: "list_all2 speaks_same ds ds' \<Longrightarrow> check_pins c ds = Inr () \<Longrightarrow> check_pins c ds' = Inr ()"
proof (induction rule: list_all2_induct)
  case (Cons d ds d' ds')
  then have "check_pin c d' = check_pin c d" using speaks_fields [OF Cons.hyps(1)] by (simp only: check_pin_def)
  with Cons show ?case by (simp add: bind_res_Inr_iff)
qed simp

lemma speaks_ids: "list_all2 speaks_same ds ds' \<Longrightarrow> d_id ` set ds' = d_id ` set ds"
  by (induction rule: list_all2_induct) (auto dest: speaks_fields)

text \<open>Appended snapshots that the deployments take and that speak the same replay with all stores.\<close>

lemma snapshots_append:
  assumes "replay_journal ls = Inr st" and "apply_snapshots xs (js_deployments st) = Inr ds'"
    and "list_all2 speaks_same (js_deployments st) ds'"
  shows "replay_journal (ls @ map LSnapshot xs) = Inr (st\<lparr>js_deployments := ds'\<rparr>)"
proof -
  have lines: "snapshots_of (map LSnapshot xs) = xs" "ledger_of (map LSnapshot xs) = []" "control_of (map LSnapshot xs) = []"
    "config_of (map LSnapshot xs) = []" "git_of (map LSnapshot xs) = []" "step_logs_of (map LSnapshot xs) = []"
    by (induction xs) (simp_all add: lines_of_defs)
  have app: "snapshots_of (ls @ ms) = snapshots_of ls @ snapshots_of ms" "ledger_of (ls @ ms) = ledger_of ls @ ledger_of ms"
    "control_of (ls @ ms) = control_of ls @ control_of ms" "config_of (ls @ ms) = config_of ls @ config_of ms"
    "git_of (ls @ ms) = git_of ls @ git_of ms" "step_logs_of (ls @ ms) = step_logs_of ls @ step_logs_of ms" for ms
    by (simp_all add: lines_of_defs)
  note st = assms(1) [unfolded replay_stores]
  have "distinct (map d_id (js_deployments st))" using apply_snapshots_distinct [of "snapshots_of ls" "[]"] st by simp
  with st assms(2) speaks_check [OF assms(3)] speaks_pins [OF assms(3)] speaks_ids [OF assms(3)] show ?thesis
    unfolding replay_stores app lines by (simp add: apply_snapshots_append)
qed

lemma apply_snapshot_middle:
  assumes "d_id d \<notin> d_id ` set us" and "d_id d' = d_id d"
    and "is_terminal (d_status d) \<Longrightarrow> d' = d \<or> recovery_attached d d'"
  shows "apply_snapshot d' (us @ d # vs) = Inr (us @ d' # vs)"
proof -
  have none: "List.find (\<lambda>x. d_id x = d_id d') us = None"
    unfolding find_None_iff assms(2) using assms(1) by (metis image_eqI)
  have "update_first (\<lambda>x. d_id x = d_id d') (\<lambda>_. d') (us @ d # vs) = us @ d' # vs"
    using assms(1,2) by (induction us) auto
  then show ?thesis using none assms(2,3) by (auto simp: apply_snapshot_def find_append)
qed

lemma startup_snapshots_eq:
  "startup_snapshots now ds = map (recover_one now) (filter (\<lambda>d. recover_one now d \<noteq> d) ds)"
proof -
  have "map snd (filter (\<lambda>(old, new). old \<noteq> new) (zip ds (map (recover_one now) ds))) =
      map (recover_one now) (filter (\<lambda>d. recover_one now d \<noteq> d) ds)"
    by (induction ds) auto
  then show ?thesis by (simp add: startup_snapshots_def recover_on_start_map)
qed

lemma startup_applies:
  "distinct (map d_id (us @ ds @ vs)) \<Longrightarrow> list_all persisted ds \<Longrightarrow>
   apply_snapshots (startup_snapshots now ds) (us @ ds @ vs) = Inr (us @ map (recover_one now) ds @ vs)"
proof (induction ds arbitrary: us)
  case Nil
  then show ?case by (simp add: startup_snapshots_eq)
next
  case (Cons d ds)
  have one: "apply_snapshot (recover_one now d) (us @ d # ds @ vs) = Inr (us @ recover_one now d # ds @ vs)"
    using Cons.prems startup_attached persisted_step by (intro apply_snapshot_middle) auto
  have "apply_snapshots (startup_snapshots now ds) ((us @ [recover_one now d]) @ ds @ vs) =
      Inr ((us @ [recover_one now d]) @ map (recover_one now) ds @ vs)"
    using Cons.prems by (intro Cons.IH) auto
  with one show ?case by (cases "recover_one now d = d") (simp_all add: startup_snapshots_eq)
qed

lemma take_filtered: "\<exists>j. take k (map f (filter P xs)) = map f (filter P (take j xs))"
proof (induction xs arbitrary: k)
  case (Cons x xs)
  show ?case
  proof (cases "P x \<and> k = 0")
    case True
    then show ?thesis by (intro exI [of _ 0]) simp
  next
    case False
    obtain j where "take (if P x then k - 1 else k) (map f (filter P xs)) = map f (filter P (take j xs))"
      using Cons.IH by blast
    then show ?thesis using False by (intro exI [of _ "Suc j"]) (cases k; auto)
  qed
qed simp

lemma startup_taken: "\<exists>j. take k (startup_snapshots now ds) = startup_snapshots now (take j ds)"
  unfolding startup_snapshots_eq by (rule take_filtered)

lemma speaks_list: "list_all2 speaks_same ds ds"
  by (rule list.rel_refl) (rule speaks_refl)

lemma startup_part_replays:
  assumes "replay_journal ls = Inr st" and "list_all persisted (js_deployments st)"
  shows "replay_journal (ls @ map LSnapshot (startup_snapshots now (take j (js_deployments st)))) =
      Inr (st\<lparr>js_deployments := map (recover_one now) (take j (js_deployments st)) @ drop j (js_deployments st)\<rparr>)"
proof (rule snapshots_append [OF assms(1)])
  let ?ds = "js_deployments st"
  have "distinct (map d_id ?ds)"
    using assms(1) apply_snapshots_distinct [of "snapshots_of ls" "[]"] by (simp add: replay_stores)
  then have "distinct (map d_id ([] @ take j ?ds @ drop j ?ds))" by simp
  moreover have "list_all persisted (take j ?ds)" using assms(2) by (auto simp: list_all_iff dest: in_set_takeD)
  ultimately show "apply_snapshots (startup_snapshots now (take j ?ds)) ?ds = Inr (map (recover_one now) (take j ?ds) @ drop j ?ds)"
    using startup_applies [of "[]" "take j ?ds" "drop j ?ds" now] by simp
  have "list_all2 speaks_same (take j ?ds @ drop j ?ds) (map (recover_one now) (take j ?ds) @ drop j ?ds)"
    by (intro list_all2_appendI speaks_list) (simp only: list.rel_map(2), rule list.rel_refl, rule speaks_startup)
  then show "list_all2 speaks_same ?ds (map (recover_one now) (take j ?ds) @ drop j ?ds)" by simp
qed

lemma explicit_replays:
  assumes "replay_journal ls = Inr st" and "js_deployments st = us @ d # vs" and "persisted d" and "explicit_save d d'"
  shows "replay_journal (ls @ [LSnapshot d']) = Inr (st\<lparr>js_deployments := us @ d' # vs\<rparr>)"
proof -
  have same: "speaks_same d d'"
    using speaks_explicit [OF assms(4)] reachable_begun [OF persisted_reachable [OF assms(3)]] .
  have "distinct (map d_id (js_deployments st))"
    using assms(1) apply_snapshots_distinct [of "snapshots_of ls" "[]"] by (simp add: replay_stores)
  then have "apply_snapshot d' (us @ d # vs) = Inr (us @ d' # vs)"
    using explicit_attached [OF assms(4)] speaks_fields [OF same] unfolding assms(2)
    by (intro apply_snapshot_middle) auto
  moreover have "list_all2 speaks_same (us @ d # vs) (us @ d' # vs)"
    using same by (intro list_all2_appendI speaks_list) (simp add: speaks_list)
  ultimately show ?thesis
    using snapshots_append [OF assms(1), of "[d']" "us @ d' # vs"] unfolding assms(2) by simp
qed

text \<open>
  Claim C29. Startup and explicit recovery never write a journal that no longer replays, as long as
  every recorded deployment is one that the program put there (\<open>persisted\<close>: saved by a run, marked by a
  startup, or saved by an explicit recovery). When the journal replays, it also replays, with all stores
  and all their agreement checks, after any number of the snapshots that marking interrupted deployments
  appends, and after all of them to exactly what \<open>recover_on_start\<close> made; and it replays after the snapshot
  of an explicit recovery that begins or finishes, with just that deployment replaced. What is then recorded is
  again put there by the program, so the same holds of the next start.
\<close>

theorem startup_snapshots_replay:
  assumes "replay_journal ls = Inr st" and "list_all persisted (js_deployments st)"
  shows "replay_journal (ls @ map LSnapshot (startup_snapshots now (js_deployments st))) =
      Inr (st\<lparr>js_deployments := fst (recover_on_start now (js_deployments st))\<rparr>) \<and>
    (\<forall>k. \<exists>st'. replay_journal (ls @ map LSnapshot (take k (startup_snapshots now (js_deployments st)))) = Inr st' \<and>
       list_all persisted (js_deployments st')) \<and>
    (\<forall>us d vs d'. js_deployments st = us @ d # vs \<longrightarrow> explicit_save d d' \<longrightarrow>
       replay_journal (ls @ [LSnapshot d']) = Inr (st\<lparr>js_deployments := us @ d' # vs\<rparr>) \<and>
       list_all persisted (us @ d' # vs))"
proof (intro conjI allI impI)
  show "replay_journal (ls @ map LSnapshot (startup_snapshots now (js_deployments st))) =
      Inr (st\<lparr>js_deployments := fst (recover_on_start now (js_deployments st))\<rparr>)"
    using startup_part_replays [OF assms, of now "length (js_deployments st)"] by (simp add: recover_on_start_map)
  show "\<exists>st'. replay_journal (ls @ map LSnapshot (take k (startup_snapshots now (js_deployments st)))) = Inr st' \<and>
      list_all persisted (js_deployments st')" for k
  proof -
    obtain j where "take k (startup_snapshots now (js_deployments st)) = startup_snapshots now (take j (js_deployments st))"
      using startup_taken by blast
    then show ?thesis using startup_part_replays [OF assms, of now j] assms(2)
      by (auto simp: list_all_iff intro: by_startup dest: in_set_takeD in_set_dropD)
  qed
  fix us d vs d'
  assume ds: "js_deployments st = us @ d # vs" and save: "explicit_save d d'"
  then have "persisted d" using assms(2) by simp
  from explicit_replays [OF assms(1) ds this save]
  show "replay_journal (ls @ [LSnapshot d']) = Inr (st\<lparr>js_deployments := us @ d' # vs\<rparr>)" .
  show "list_all persisted (us @ d' # vs)" using explicit_persisted [OF \<open>persisted d\<close> save] assms(2) ds by simp
qed

text \<open>A run that stopped after the cutover began, its pause as recorded then.\<close>

definition example_open :: deployment where
  "example_open = (deployment_new (DeploymentId 7) (ApplicationId 3) Cli 12)\<lparr>d_cutover := Begun 15,
     d_interruption := Some \<lparr>int_started_ms = 15, int_ended_ms = None\<rparr>\<rparr>"

definition example_pause_line :: jline where
  "example_pause_line = LControl (PauseR \<lparr>pu_app = ApplicationId 3, pu_origin = DeploymentId 7,
     pu_kind = PInterruptedCutover, pu_at_ms = 15, pu_context = ''no recovery recorded''\<rparr>)"

lemma example_open_replays:
  "\<exists>st. replay_journal [LSnapshot example_open, example_pause_line] = Inr st \<and> js_deployments st = [example_open]"
  by (simp add: replay_journal_def jstate_empty_def apply_snapshot_def check_logs_def check_pin_def check_against_def
      check_pause_def pause_compatible_def pause_candidates_def candidate_of_def example_open_def example_pause_line_def
      deployment_new_def control_empty_def List.map_filter_simps Let_def)

lemma example_open_persisted: "persisted example_open"
proof (rule by_run)
  show "reachable_record example_open"
    by (rule rr_op [OF rr_new op_begin_cutover]) (simp add: begin_cutover_def example_open_def deployment_new_def)
qed (simp add: example_open_def deployment_new_def)

theorem startup_snapshots_replay_witness:
  "\<exists>st. replay_journal ([LSnapshot example_open, example_pause_line] @
      map LSnapshot (startup_snapshots 20 [example_open])) = Inr st \<and>
    js_deployments st = [recover_one 20 example_open] \<and> application_may_be_down (recover_one 20 example_open)"
proof -
  obtain st where st: "replay_journal [LSnapshot example_open, example_pause_line] = Inr st" "js_deployments st = [example_open]"
    using example_open_replays by blast
  then have "list_all persisted (js_deployments st)" using example_open_persisted by simp
  from startup_snapshots_replay [OF st(1) this, of 20, THEN conjunct1]
  have "replay_journal ([LSnapshot example_open, example_pause_line] @ map LSnapshot (startup_snapshots 20 [example_open])) =
      Inr (st\<lparr>js_deployments := [recover_one 20 example_open]\<rparr>)"
    unfolding st(2) by (simp add: Let_def)
  moreover have "application_may_be_down example_open" by (simp add: application_may_be_down_def example_open_def)
  ultimately show ?thesis by simp
qed

end
