(* ===== verification/DurableJournal.thy ===== *)
theory DurableJournal
  imports JournalProps
begin

text \<open>
  The durable journal in one append-only file (\<open>deploy-journal/src/lib.rs\<close>): appending with a sync,
  opening with the repair of a torn tail, and marking interrupted deployments. The file system is the
  environment: every call of the storage seam (\<open>Wal\<close>) ends as an argument of the model says, and a crash
  leaves what \<open>crashed\<close> allows. Paths in errors are left out.
\<close>

section \<open>The storage seam\<close>

text \<open>
  The content that a reader sees, every content the file had since the last sync that succeeded, and the
  length that was made durable.
\<close>

record disk =
  dk_bytes :: string
  dk_past :: "string list"
  dk_synced :: nat

text \<open>How an append ended: all bytes, or an error after some of them.\<close>

datatype append_end = Appended | AppendFailed nat string

definition wal_append :: "append_end \<Rightarrow> string \<Rightarrow> disk \<Rightarrow> disk" where
  "wal_append e s d =
     (let b = dk_bytes d @ (case e of Appended \<Rightarrow> s | AppendFailed n _ \<Rightarrow> take n s)
      in d\<lparr>dk_bytes := b, dk_past := b # dk_past d\<rparr>)"

definition wal_sync :: "bool \<Rightarrow> disk \<Rightarrow> disk" where
  "wal_sync ok d = (if ok then d\<lparr>dk_past := [dk_bytes d], dk_synced := length (dk_bytes d)\<rparr> else d)"

definition wal_truncate :: "bool \<Rightarrow> nat \<Rightarrow> disk \<Rightarrow> disk" where
  "wal_truncate ok n d =
     (if ok
      then d\<lparr>dk_bytes := take n (dk_bytes d), dk_past := take n (dk_bytes d) # dk_past d,
             dk_synced := min (dk_synced d) n\<rparr>
      else d)"

text \<open>
  What a crash may leave of an append-only file: one of the contents since the last sync, cut anywhere
  after the durable length.
\<close>

definition crashed :: "disk \<Rightarrow> string \<Rightarrow> bool" where
  "crashed d c \<longleftrightarrow> (\<exists>p \<in> set (dk_past d). \<exists>k. dk_synced d \<le> k \<and> c = take k p)"

definition stable_disk :: "string \<Rightarrow> disk" where
  "stable_disk b = \<lparr>dk_bytes = b, dk_past = [b], dk_synced = length b\<rparr>"

section \<open>The journal\<close>

text \<open>How the calls of one append end: the error texts of those that fail.\<close>

record wal_io =
  io_append :: append_end
  io_truncate :: bool
  io_heal :: bool
  io_sync :: "string option"

record file_journal =
  fj_disk :: disk
  fj_len :: nat
  fj_broken :: "string option"
  fj_appends :: u64
  fj_file_syncs :: u64
  fj_dir_syncs :: u64

text \<open>\<open>append_line\<close>; the environment answers the \<open>n\<close>th append of the handle with \<open>w n\<close>.\<close>

definition append_line :: "(u64 \<Rightarrow> wal_io) \<Rightarrow> string \<Rightarrow> file_journal \<Rightarrow> (journal_error + unit) \<times> file_journal" where
  "append_line w line j =
     (case fj_broken j of
        Some why \<Rightarrow>
          (Inl (JournalIo (''the journal is unusable after an earlier failed write ('' @ why
             @ ''); reopen it to recover'')), j)
      | None \<Rightarrow>
          let buf = line @ [NL];
              io = w (fj_appends j);
              j = j\<lparr>fj_appends := fj_appends j + 1, fj_disk := wal_append (io_append io) buf (fj_disk j)\<rparr>
          in case io_append io of
              AppendFailed n e \<Rightarrow>
                let d = wal_truncate (io_truncate io) (fj_len j) (fj_disk j);
                    d = (if io_truncate io then wal_sync (io_heal io) d else d);
                    healed = (io_truncate io \<and> io_heal io)
                in (Inl (JournalIo (''journal append failed: '' @ e)),
                    j\<lparr>fj_disk := d,
                      fj_broken := Some (''append failed: '' @ e @ (if healed then [] else '' (tail not cleaned)''))\<rparr>)
            | Appended \<Rightarrow>
                let j = j\<lparr>fj_file_syncs := fj_file_syncs j + 1, fj_disk := wal_sync (io_sync io = None) (fj_disk j)\<rparr>
                in case io_sync io of
                    Some e \<Rightarrow>
                      (Inl (JournalIo (''journal sync failed: '' @ e)), j\<lparr>fj_broken := Some (''sync failed: '' @ e)\<rparr>)
                  | None \<Rightarrow> (Inr (), j\<lparr>fj_len := fj_len j + length buf\<rparr>))"

text \<open>The two writers; \<open>None\<close> is the panic for a deployment without one of its steps.\<close>

definition fj_persist ::
  "(u64 \<Rightarrow> wal_io) \<Rightarrow> deployment \<Rightarrow> file_journal \<Rightarrow> ((journal_error + unit) \<times> file_journal) option" where
  "fj_persist w d j = map_option (\<lambda>l. append_line w l j) (encode_snapshot d)"

definition fj_record :: "(u64 \<Rightarrow> wal_io) \<Rightarrow> ledger_record \<Rightarrow> file_journal \<Rightarrow> (journal_error + unit) \<times> file_journal" where
  "fj_record w r j = append_line w (encode_record r) j"

section \<open>Opening\<close>

datatype open_error = OpenLocked | OpenIo string | OpenFormat format_error | NotAJournal

record restored =
  rs_state :: jstate
  rs_discarded :: nat
  rs_startup :: startup_report

text \<open>
  What the environment answers: an error of locking, creating or reading, the opening for appending, the
  cut and its sync, the sync of the directory, and the appends.
\<close>

record open_env =
  ov_before :: "open_error option"
  ov_file :: "open_error option"
  ov_truncate :: bool
  ov_cut_sync :: bool
  ov_dir_sync :: bool
  ov_wal :: "u64 \<Rightarrow> wal_io"

definition tail_bytes :: "tail \<Rightarrow> nat" where
  "tail_bytes t = (case t of Clean \<Rightarrow> 0 | PartialDiscarded n \<Rightarrow> n)"

definition not_ours :: "string \<Rightarrow> journal_recovered \<Rightarrow> bool" where
  "not_ours bytes r \<longleftrightarrow> \<not> jr_has_header r \<and> \<not> starts_with encode_header (drop (jr_valid_len r) bytes)"

definition cut_tail :: "open_env \<Rightarrow> journal_recovered \<Rightarrow> file_journal \<Rightarrow> (open_error + unit) \<times> file_journal" where
  "cut_tail env r j =
     (if tail_bytes (jr_tail r) = 0 then (Inr (), j)
      else
        let d = wal_truncate (ov_truncate env) (jr_valid_len r) (fj_disk j);
            d = (if ov_truncate env then wal_sync (ov_cut_sync env) d else d)
        in if ov_truncate env \<and> ov_cut_sync env
           then (Inr (), j\<lparr>fj_disk := d, fj_file_syncs := fj_file_syncs j + 1, fj_len := jr_valid_len r\<rparr>)
           else (Inl (OpenIo ''cannot cut off the torn tail of''), j\<lparr>fj_disk := d\<rparr>))"

definition start_file :: "open_env \<Rightarrow> bool \<Rightarrow> file_journal \<Rightarrow> (open_error + unit) \<times> file_journal" where
  "start_file env has_header j =
     (if has_header then (Inr (), j)
      else if \<not> ov_dir_sync env then (Inl (OpenIo ''cannot sync the directory''), j)
      else
        (case append_line (ov_wal env) encode_header (j\<lparr>fj_dir_syncs := fj_dir_syncs j + 1\<rparr>) of
           (Inl e, j) \<Rightarrow> (Inl (OpenIo ''cannot write the header to''), j)
         | (Inr _, j) \<Rightarrow> (Inr (), j)))"

definition fresh_journal_file :: "disk \<Rightarrow> file_journal" where
  "fresh_journal_file d =
     \<lparr>fj_disk = d, fj_len = length (dk_bytes d), fj_broken = None, fj_appends = 0, fj_file_syncs = 0, fj_dir_syncs = 0\<rparr>"

definition restored_of :: "jstate \<Rightarrow> tail \<Rightarrow> restored" where
  "restored_of st t = \<lparr>rs_state = st, rs_discarded = tail_bytes t, rs_startup = \<lparr>su_interrupted = [], su_incomplete = []\<rparr>\<rparr>"

text \<open>\<open>open_with\<close>: the answer, and the file as it is then.\<close>

definition open_with :: "open_env \<Rightarrow> disk \<Rightarrow> (open_error + file_journal \<times> restored) \<times> disk" where
  "open_with env d =
     (case ov_before env of
        Some e \<Rightarrow> (Inl e, d)
      | None \<Rightarrow>
      (case recover_journal (dk_bytes d) of
        Inl e \<Rightarrow> (Inl (OpenFormat e), d)
      | Inr r \<Rightarrow>
      if not_ours (dk_bytes d) r then (Inl NotAJournal, d)
      else
      (case replay_journal (jr_lines r) of
        Inl e \<Rightarrow> (Inl (OpenFormat e), d)
      | Inr st \<Rightarrow>
      (case ov_file env of
        Some e \<Rightarrow> (Inl e, d)
      | None \<Rightarrow>
      (case cut_tail env r (fresh_journal_file d) of
        (Inl e, j) \<Rightarrow> (Inl e, fj_disk j)
      | (Inr _, j) \<Rightarrow>
      (case start_file env (jr_has_header r) j of
        (Inl e, j) \<Rightarrow> (Inl e, fj_disk j)
      | (Inr _, j) \<Rightarrow> (Inr (j, restored_of st (jr_tail r)), fj_disk j)))))))"

definition read_only :: "string \<Rightarrow> open_error + restored" where
  "read_only bytes =
     (case recover_journal bytes of
        Inl e \<Rightarrow> Inl (OpenFormat e)
      | Inr r \<Rightarrow>
          if not_ours bytes r then Inl NotAJournal
          else (case replay_journal (jr_lines r) of
                  Inl e \<Rightarrow> Inl (OpenFormat e) | Inr st \<Rightarrow> Inr (restored_of st (jr_tail r))))"

section \<open>Marking interrupted deployments\<close>

fun persist_changed ::
  "(u64 \<Rightarrow> wal_io) \<Rightarrow> (deployment \<times> deployment) list \<Rightarrow> file_journal \<Rightarrow> ((journal_error + unit) \<times> file_journal) option" where
  "persist_changed w [] j = Some (Inr (), j)"
| "persist_changed w ((old, new) # ps) j =
     (if old = new then persist_changed w ps j
      else
        (case fj_persist w new j of
           None \<Rightarrow> None
         | Some (Inl e, j) \<Rightarrow> Some (Inl e, j)
         | Some (Inr _, j) \<Rightarrow> persist_changed w ps j))"

definition mark_interrupted ::
  "(u64 \<Rightarrow> wal_io) \<Rightarrow> restored \<Rightarrow> u64 \<Rightarrow> file_journal \<Rightarrow> ((journal_error + restored) \<times> file_journal) option" where
  "mark_interrupted w r now j =
     (let before = js_deployments (rs_state r);
          (marked, report) = recover_on_start now before
      in map_option
           (\<lambda>(res, j). (bind_res res (\<lambda>_. Inr (r\<lparr>rs_state := (rs_state r)\<lparr>js_deployments := marked\<rparr>, rs_startup := report\<rparr>)), j))
           (persist_changed w (zip before marked) j))"

definition open_recovered ::
  "open_env \<Rightarrow> u64 \<Rightarrow> disk \<Rightarrow> ((open_error + file_journal \<times> restored) \<times> disk) option" where
  "open_recovered env now d =
     (case open_with env d of
        (Inl e, d) \<Rightarrow> Some (Inl e, d)
      | (Inr (j, r), _) \<Rightarrow>
          map_option
            (\<lambda>(res, j).
               (case res of Inl e \<Rightarrow> Inl (OpenIo ''cannot record interrupted deployments:'') | Inr r \<Rightarrow> Inr (j, r), fj_disk j))
            (mark_interrupted (ov_wal env) r now j))"

section \<open>What was acknowledged survives\<close>

text \<open>Writing lines one after the other; the ones that were acknowledged.\<close>

fun append_all :: "(u64 \<Rightarrow> wal_io) \<Rightarrow> jline list \<Rightarrow> file_journal \<Rightarrow> jline list \<times> file_journal" where
  "append_all w [] j = ([], j)"
| "append_all w (l # ls) j =
     (case append_line w (line_text l) j of
        (Inl _, j) \<Rightarrow> append_all w ls j
      | (Inr _, j) \<Rightarrow> (case append_all w ls j of (acked, j) \<Rightarrow> (l # acked, j)))"

definition open_on :: "file_journal \<Rightarrow> jline list \<Rightarrow> bool" where
  "open_on j base \<longleftrightarrow>
     fj_broken j = None \<and> fj_disk j = stable_disk (file_text (header_line # base)) \<and>
     fj_len j = length (file_text (header_line # base))"

text \<open>A crash leaves the first text and some of the second.\<close>

definition torn_after :: "disk \<Rightarrow> string \<Rightarrow> string \<Rightarrow> bool" where
  "torn_after d b x \<longleftrightarrow> (\<forall>c. crashed d c \<longrightarrow> (\<exists>k. c = b @ take k x))"

lemma append_broken: "fj_broken j = Some why \<Longrightarrow> append_all w ls j = ([], j)"
  by (induction ls) (simp_all add: append_line_def)

lemma torn_afterI:
  assumes "dk_synced d = length b" and "\<And>p. p \<in> set (dk_past d) \<Longrightarrow> \<exists>m. p = b @ take m x"
  shows "torn_after d b x"
  unfolding torn_after_def crashed_def
proof (intro allI impI, elim bexE exE conjE)
  fix c p k
  assume p: "p \<in> set (dk_past d)" and k: "dk_synced d \<le> k" and c: "c = take k p"
  from assms(2) [OF p] obtain m where "p = b @ take m x" by blast
  with k c assms(1) have "c = b @ take (min (k - length b) m) x" by simp
  then show "\<exists>k. c = b @ take k x" by blast
qed

lemma torn_append:
  "torn_after (wal_append e x (stable_disk b)) b x"
  "torn_after (wal_truncate True (length b) (wal_append e x (stable_disk b))) b x"
  "torn_after (wal_sync True (wal_truncate True (length b) (wal_append e x (stable_disk b)))) b x"
proof -
  have none: "\<exists>m. b = b @ take m x" by (intro exI [of _ 0]) simp
  have all: "\<exists>m. b @ x = b @ take m x" by (intro exI [of _ "length x"]) simp
  have past: "\<exists>m. p = b @ take m x" if "p \<in> set (dk_past (wal_append e x (stable_disk b)))" for p
    using that none all by (cases e) (auto simp: wal_append_def stable_disk_def Let_def)
  have kept: "take (length b) (dk_bytes (wal_append e x (stable_disk b))) = b"
    by (cases e) (simp_all add: wal_append_def stable_disk_def Let_def)
  have synced: "dk_synced (wal_append e x (stable_disk b)) = length b"
    by (simp add: wal_append_def stable_disk_def Let_def)
  show "torn_after (wal_append e x (stable_disk b)) b x" by (rule torn_afterI) (use past synced in auto)
  show "torn_after (wal_truncate True (length b) (wal_append e x (stable_disk b))) b x"
    by (rule torn_afterI) (use past synced kept none in \<open>auto simp: wal_truncate_def\<close>)
  show "torn_after (wal_sync True (wal_truncate True (length b) (wal_append e x (stable_disk b)))) b x"
    by (rule torn_afterI) (use kept none in \<open>auto simp: wal_truncate_def wal_sync_def\<close>)
qed

lemma append_line_open:
  assumes "fj_broken j = None" and "fj_disk j = stable_disk b" and "fj_len j = length b"
  shows "case append_line w line j of
      (Inr _, j') \<Rightarrow> fj_broken j' = None \<and> fj_disk j' = stable_disk (b @ line @ [NL]) \<and>
        fj_len j' = length (b @ line @ [NL])
    | (Inl _, j') \<Rightarrow> fj_broken j' \<noteq> None \<and> torn_after (fj_disk j') b (line @ [NL])"
proof (cases "io_append (w (fj_appends j))")
  case Appended
  have "wal_sync True (wal_append Appended (line @ [NL]) (stable_disk b)) = stable_disk (b @ line @ [NL])"
    by (simp add: wal_append_def wal_sync_def stable_disk_def Let_def)
  then show ?thesis
    using assms Appended torn_append(1) [where e = Appended and x = "line @ [NL]" and b = b]
    by (cases "io_sync (w (fj_appends j))") (simp_all add: append_line_def Let_def, simp add: wal_sync_def)
next
  case (AppendFailed n e)
  then show ?thesis
    using assms torn_append [where e = "AppendFailed n e" and x = "line @ [NL]" and b = b]
    by (cases "io_truncate (w (fj_appends j))"; cases "io_heal (w (fj_appends j))")
      (simp_all add: append_line_def Let_def wal_truncate_def wal_sync_def)
qed

lemma recover_partial:
  assumes "list_all body_line base" and "body_line l"
  shows "\<exists>extra rv. recover_journal (file_text (header_line # base) @ take k (line_text l @ [NL])) = Inr rv \<and>
    jr_lines rv = base @ extra \<and> jr_has_header rv \<and> (extra = [] \<or> extra = [l])"
proof (cases "length (line_text l) < k")
  case True
  then have whole: "take k (line_text l @ [NL]) = line_text l @ [NL]" by simp
  have "recover_journal (file_text (header_line # base @ [l]) @ []) = Inr (recovered_as (header_line # base @ [l]) [])"
    using assms by (intro recover_whole) auto
  then show ?thesis
    unfolding whole by (intro exI [of _ "[l]"] exI [of _ "recovered_as (header_line # base @ [l]) []"]) (simp add: recovered_as_def)
next
  case False
  then have part: "take k (line_text l @ [NL]) = take k (line_text l)" by simp
  have "NL \<notin> set (take k (line_text l))"
    using assms(2) line_text_facts [of l] by (auto simp: body_line_def dest: in_set_takeD)
  from recover_whole [OF assms(1) this] show ?thesis
    unfolding part
    by (intro exI [of _ "[]"] exI [of _ "recovered_as (header_line # base) (take k (line_text l))"])
      (simp add: recovered_as_def)
qed

text \<open>
  Claim C32. No acknowledged record is ever lost. Take a journal that is open on any records, write
  any records to it while any append fails after any number of bytes, any cut back or sync fails, and then
  crash, leaving any prefix beyond the durable length: what is on the file recovers without an error to
  the old records followed by exactly the acknowledged ones in their order, and at most one more record,
  the first that was not acknowledged, which may or may not be there; none after it is. While no write
  failed, all were acknowledged.
\<close>

theorem acknowledged_records_survive:
  assumes "list_all body_line base" and "list_all body_line ls" and "open_on j base"
    and "append_all w ls j = (acked, j')" and "crashed (fj_disk j') c"
  shows "\<exists>rv extra rest. recover_journal c = Inr rv \<and> jr_has_header rv \<and> jr_lines rv = base @ acked @ extra \<and>
    length extra \<le> 1 \<and> ls = acked @ extra @ rest \<and> (fj_broken j' = None \<longrightarrow> acked = ls)"
  using assms
proof (induction ls arbitrary: base j acked)
  case Nil
  then have c: "c = take (length (file_text (header_line # base))) (file_text (header_line # base))"
    by (auto simp: crashed_def open_on_def stable_disk_def)
  have "recover_journal (file_text (header_line # base) @ []) = Inr (recovered_as (header_line # base) [])"
    using Nil.prems(1) by (intro recover_whole) auto
  with c Nil.prems(4) show ?case
    by (intro exI [of _ "recovered_as (header_line # base) []"] exI [of _ "[]"]) (simp add: recovered_as_def)
next
  case (Cons l ls)
  let ?b = "file_text (header_line # base)"
  have j: "fj_broken j = None" "fj_disk j = stable_disk ?b" "fj_len j = length ?b"
    using Cons.prems(3) by (simp_all add: open_on_def)
  obtain r j1 where step: "append_line w (line_text l) j = (r, j1)" by fastforce
  show ?case
  proof (cases r)
    case (Inr u)
    with append_line_open [OF j, where w = w and line = "line_text l"] step have next_open: "open_on j1 (base @ [l])"
      by (simp add: open_on_def)
    obtain acked' where rest: "append_all w ls j1 = (acked', j')" "acked = l # acked'"
      using Cons.prems(4) step Inr by (auto split: prod.splits)
    from Cons.IH [OF _ _ next_open rest(1) Cons.prems(5)] Cons.prems(1,2) show ?thesis
      unfolding rest(2) by auto
  next
    case (Inl e)
    with append_line_open [OF j, where w = w and line = "line_text l"] step obtain why where
      broken: "fj_broken j1 = Some why" "torn_after (fj_disk j1) ?b (line_text l @ [NL])" by auto
    have "acked = []" "j' = j1" using Cons.prems(4) step Inl append_broken [OF broken(1)] by auto
    with broken Cons.prems(5) obtain k where "c = ?b @ take k (line_text l @ [NL])" by (auto simp: torn_after_def)
    with recover_partial [OF Cons.prems(1), of l k] Cons.prems(2) obtain extra rv where
      "recover_journal c = Inr rv" "jr_lines rv = base @ extra" "jr_has_header rv" "extra = [] \<or> extra = [l]" by auto
    then show ?thesis using \<open>acked = []\<close> \<open>j' = j1\<close> broken(1) by auto
  qed
qed

text \<open>An append that stops after four bytes and cannot be cut back.\<close>

definition failing_io :: wal_io where
  "failing_io = \<lparr>io_append = AppendFailed 4 ''no space'', io_truncate = False, io_heal = False, io_sync = None\<rparr>"

theorem acknowledged_records_survive_witness:
  "\<exists>rv. recover_journal (line_text header_line @ NL # take 3 (line_text (LLedger example_attempt))) = Inr rv \<and>
     jr_lines rv \<in> {[], [LLedger example_attempt]}"
proof -
  define j where "j = fresh_journal_file (stable_disk (file_text [header_line]))"
  let ?l = "LLedger example_attempt"
  have opened: "open_on j []" by (simp add: j_def open_on_def fresh_journal_file_def stable_disk_def)
  let ?d = "wal_append (AppendFailed 4 ''no space'') (line_text ?l @ [NL]) (stable_disk (file_text [header_line]))"
  have none: "append_all (\<lambda>_. failing_io) [?l] j = ([], j\<lparr>fj_disk := ?d, fj_appends := 1,
      fj_broken := Some ''append failed: no space (tail not cleaned)''\<rparr>)"
    by (simp add: append_line_def failing_io_def j_def fresh_journal_file_def wal_truncate_def)
  have body: "list_all body_line [?l]" by (rule example_body)
  have "length (line_text ?l) \<ge> 4" by (simp add: line_text_def encode_record_def)
  then have "crashed ?d (line_text header_line @ NL # take 3 (line_text ?l))"
    unfolding crashed_def wal_append_def stable_disk_def Let_def
    by (intro bexI [of _ "file_text [header_line] @ take 4 (line_text ?l @ [NL])"]
        exI [of _ "length (file_text [header_line]) + 3"]) auto
  then have "crashed (fj_disk (j\<lparr>fj_disk := ?d, fj_appends := 1,
      fj_broken := Some ''append failed: no space (tail not cleaned)''\<rparr>))
      (line_text header_line @ NL # take 3 (line_text ?l))" by simp
  from acknowledged_records_survive [OF _ body opened none this] obtain rv extra rest where
    "recover_journal (line_text header_line @ NL # take 3 (line_text ?l)) = Inr rv" "jr_lines rv = extra"
    "[?l] = extra @ rest" by auto
  then show ?thesis by (cases extra) auto
qed

section \<open>Opening repairs what a crash left\<close>

lemma encode_header_line: "encode_header = line_text header_line"
  by (simp add: encode_header_def header_text)

lemma cut_tail_ends:
  assumes "cut_tail env (recovered_as whole part) (fresh_journal_file (stable_disk (file_text whole @ part))) = (res, j)"
  shows "(\<exists>u. res = Inr u) \<and> fj_broken j = None \<and> fj_disk j = stable_disk (file_text whole) \<and>
      fj_len j = length (file_text whole) \<or>
    (\<exists>e. res = Inl e) \<and> (\<forall>c. crashed (fj_disk j) c \<longrightarrow> (\<exists>k. c = file_text whole @ take k part))"
proof -
  have torn: "\<exists>k. c = file_text whole @ take k part" if "crashed (stable_disk (file_text whole @ part)) c" for c
    using that by (intro exI [of _ "length part"]) (auto simp: crashed_def stable_disk_def)
  have cut: "\<exists>n. c = file_text whole @ take n part"
    if c: "crashed (wal_truncate True (length (file_text whole)) (stable_disk (file_text whole @ part))) c" for c
  proof -
    have "\<exists>p \<in> {file_text whole, file_text whole @ part}. \<exists>k. length (file_text whole) \<le> k \<and> c = take k p"
      using c by (simp add: crashed_def wal_truncate_def stable_disk_def min_def split: if_splits)
    then obtain p k where p: "p = file_text whole \<or> p = file_text whole @ part" and
      k: "length (file_text whole) \<le> k" "c = take k p" by blast
    from p have "c = file_text whole @ take 0 part \<or> c = file_text whole @ take (k - length (file_text whole)) part"
      using k by auto
    then show ?thesis by blast
  qed
  have "wal_sync True (wal_truncate True (length (file_text whole)) (stable_disk (file_text whole @ part))) =
      stable_disk (file_text whole)"
    by (simp add: wal_sync_def wal_truncate_def stable_disk_def)
  moreover have "wal_truncate False n d = d" "wal_sync False d = d" for n d
    by (simp_all add: wal_truncate_def wal_sync_def)
  ultimately show ?thesis
    using assms torn cut
    by (cases "part = []"; cases "ov_truncate env"; cases "ov_cut_sync env")
      (auto simp: cut_tail_def tail_bytes_def recovered_as_def fresh_journal_file_def Let_def,
       simp_all add: stable_disk_def)
qed

lemma start_file_ends:
  assumes "start_file env has j = (res, j')" and "fj_broken j = None" and "fj_disk j = stable_disk b"
    and "fj_len j = length b"
  shows "(\<exists>u. res = Inr u) \<and> fj_broken j' = None \<and>
      (let b' = (if has then b else b @ encode_header @ [NL]) in fj_disk j' = stable_disk b' \<and> fj_len j' = length b') \<or>
    (\<exists>e. res = Inl e) \<and> \<not> has \<and> torn_after (fj_disk j') b (encode_header @ [NL])"
proof (cases has)
  case True
  then show ?thesis using assms by (auto simp: start_file_def)
next
  case False
  let ?j = "j\<lparr>fj_dir_syncs := fj_dir_syncs j + 1\<rparr>"
  have open_j: "fj_broken ?j = None" "fj_disk ?j = stable_disk b" "fj_len ?j = length b" using assms by simp_all
  have "torn_after (stable_disk b) b (encode_header @ [NL])"
    by (rule torn_afterI) (auto simp: stable_disk_def intro: exI [of _ 0])
  with append_line_open [OF open_j, where w = "ov_wal env" and line = encode_header] False assms(1,3) show ?thesis
    by (auto simp: start_file_def Let_def split: if_splits prod.splits sum.splits)
qed

definition quiet :: "open_env \<Rightarrow> bool" where
  "quiet env \<longleftrightarrow> ov_before env = None \<and> ov_file env = None \<and> ov_truncate env \<and> ov_cut_sync env \<and> ov_dir_sync env \<and>
     ov_wal env = (\<lambda>_. \<lparr>io_append = Appended, io_truncate = True, io_heal = True, io_sync = None\<rparr>)"

lemma quiet_cut: "quiet env \<Longrightarrow> \<exists>j'. cut_tail env r j = (Inr (), j') \<and> fj_broken j' = fj_broken j"
  by (simp add: quiet_def cut_tail_def Let_def)

lemma quiet_start: "quiet env \<Longrightarrow> fj_broken j = None \<Longrightarrow> \<exists>j'. start_file env has j = (Inr (), j')"
  by (simp add: quiet_def start_file_def append_line_def Let_def)

text \<open>
  Claim C33. Opening repairs whatever a crash left of a journal and no more: on a file that is any cut
  of a header and records, an open that succeeds holds a journal whose file is exactly the header and the
  longest sequence of whole records before the cut, all of it durable, with the state these records
  replay to, which is what reading without a lock shows as well. However the calls to the file system
  end, an open that fails leaves the records before the cut on the file, also after another crash; and
  when none of them fails and the records replay, it succeeds.
\<close>

theorem opening_repairs_the_file:
  assumes ls: "list_all body_line ls" and bytes: "b = take k (file_text (header_line # ls))"
  shows "\<exists>m. m \<le> length ls \<and>
    (case open_with env (stable_disk b) of
       (Inr (j, r), d) \<Rightarrow>
         open_on j (take m ls) \<and> d = fj_disk j \<and> replay_journal (take m ls) = Inr (rs_state r) \<and>
         read_only b = Inr r
     | (Inl e, d) \<Rightarrow>
         (\<forall>c. crashed d c \<longrightarrow> (\<exists>rv. recover_journal c = Inr rv \<and> jr_lines rv = take m ls)) \<and>
         \<not> (quiet env \<and> is_ok (replay_journal (take m ls))))"
proof -
  obtain m part where m: "m \<le> Suc (length ls)" "NL \<notin> set part" "b = file_text (take m (header_line # ls)) @ part"
    "m \<le> length ls \<longrightarrow> length part \<le> length (line_text ((header_line # ls) ! m))"
    "recover_journal b = Inr (recovered_as (take m (header_line # ls)) part)"
    using recover_cut [OF ls, of k] unfolding bytes by blast
  define whole where "whole = take m (header_line # ls)"
  define r where "r = recovered_as whole part"
  have lines: "jr_lines r = take (m - 1) ls" "jr_has_header r = (0 < m)"
    by (simp_all add: r_def whole_def recovered_as_take)
  have b: "b = file_text whole @ part" and rec: "recover_journal b = Inr r" using m by (simp_all add: r_def whole_def)
  have again: "\<exists>rv. recover_journal (file_text whole @ take n part) = Inr rv \<and> jr_lines rv = take (m - 1) ls" for n
  proof -
    have "NL \<notin> set (take n part)" using m(2) by (auto dest: in_set_takeD)
    from recover_prefix [OF ls this, of m] show ?thesis unfolding whole_def recovered_as_take by auto
  qed
  have self: "\<exists>rv. recover_journal c = Inr rv \<and> jr_lines rv = take (m - 1) ls" if "crashed (stable_disk b) c" for c
    using that again [of "length part"] by (auto simp: crashed_def stable_disk_def b)
  have header: "\<exists>rv. recover_journal (take n (encode_header @ [NL])) = Inr rv \<and> jr_lines rv = take (m - 1) ls"
    if "m = 0" for n
    using recover_cut [of "[]" n] that by (auto simp: encode_header_line recovered_as_take)
  have ours: "\<not> not_ours b r"
  proof (cases "m = 0")
    case True
    then have len: "length part \<le> length encode_header" and part: "part = take k (encode_header @ NL # file_text ls)"
      using m(4) bytes b by (simp_all add: encode_header_line whole_def)
    have "take (length part) encode_header = part"
      using arg_cong [OF part, of "take (length part)"] len part by (simp add: min_def split: if_splits)
    with True b show ?thesis by (simp add: not_ours_def starts_with_def r_def whole_def recovered_as_def)
  next
    case False
    then show ?thesis by (simp add: not_ours_def lines)
  qed
  have lost: "\<exists>rv. recover_journal c = Inr rv \<and> jr_lines rv = take (m - 1) ls"
    if "\<forall>c. crashed d c \<longrightarrow> (\<exists>k. c = file_text whole @ take k part)" "crashed d c" for c d
    using that again by blast
  obtain res j1 where cut: "cut_tail env r (fresh_journal_file (stable_disk b)) = (res, j1)" by fastforce
  note cut_ends = cut_tail_ends [OF cut [unfolded r_def b]]
  obtain res2 j2 where start: "start_file env (0 < m) j1 = (res2, j2)" by fastforce
  have opened: "open_on j2 (take (m - 1) ls)"
    if "res = Inr u" "res2 = Inr v" for u v
    using that cut_ends start_file_ends [OF start, of "file_text whole"]
    by (cases m) (auto simp: open_on_def whole_def encode_header_line)
  have header_lost: "\<exists>rv. recover_journal c = Inr rv \<and> jr_lines rv = take (m - 1) ls"
    if "res = Inr u" "res2 = Inl e" "crashed (fj_disk j2) c" for u e c
  proof -
    have "m = 0" "torn_after (fj_disk j2) (file_text whole) (encode_header @ [NL])"
      using that cut_ends start_file_ends [OF start, of "file_text whole"] by auto
    with that(3) obtain n where "c = take n (encode_header @ [NL])" by (auto simp: torn_after_def whole_def)
    with header [OF \<open>m = 0\<close>] show ?thesis by blast
  qed
  have quiet_ok: "(\<exists>u. res = Inr u) \<and> (\<exists>u. res2 = Inr u)" if "quiet env"
    using quiet_cut [OF that, of r "fresh_journal_file (stable_disk b)"] quiet_start [OF that, of j1 "0 < m"] cut start
    by (auto simp: fresh_journal_file_def)
  show ?thesis
  proof (intro exI [of _ "m - 1"] conjI)
    show "m - 1 \<le> length ls" using m(1) by simp
    show "case open_with env (stable_disk b) of
       (Inr (j, r), d) \<Rightarrow>
         open_on j (take (m - 1) ls) \<and> d = fj_disk j \<and> replay_journal (take (m - 1) ls) = Inr (rs_state r) \<and>
         read_only b = Inr r
     | (Inl e, d) \<Rightarrow>
         (\<forall>c. crashed d c \<longrightarrow> (\<exists>rv. recover_journal c = Inr rv \<and> jr_lines rv = take (m - 1) ls)) \<and>
         \<not> (quiet env \<and> is_ok (replay_journal (take (m - 1) ls)))"
    proof (cases "replay_journal (take (m - 1) ls)")
      case (Inl e)
      then show ?thesis
        using self rec ours lines by (cases "ov_before env") (auto simp: open_with_def stable_disk_def)
    next
      case (Inr st)
      have pre: "open_with env (stable_disk b) =
          (case ov_before env of
             Some e \<Rightarrow> (Inl e, stable_disk b)
           | None \<Rightarrow>
           (case ov_file env of
             Some e \<Rightarrow> (Inl e, stable_disk b)
           | None \<Rightarrow>
           (case res of
             Inl e \<Rightarrow> (Inl e, fj_disk j1)
           | Inr _ \<Rightarrow>
           (case res2 of
             Inl e \<Rightarrow> (Inl e, fj_disk j2)
           | Inr _ \<Rightarrow> (Inr (j2, restored_of st (jr_tail r)), fj_disk j2)))))"
        using rec ours lines Inr cut start
        by (simp add: open_with_def stable_disk_def split: option.split sum.split prod.split)
      have read: "read_only b = Inr (restored_of st (jr_tail r))"
        using rec ours lines Inr by (simp add: read_only_def)
      have st: "rs_state (restored_of st (jr_tail r)) = st" by (simp add: restored_of_def)
      show ?thesis
        unfolding pre
        using self lost [of "fj_disk j1"] header_lost opened quiet_ok cut_ends read st Inr
        by (auto simp: quiet_def split: option.split sum.split)
    qed
  qed
qed

definition quiet_env :: open_env where
  "quiet_env = \<lparr>ov_before = None, ov_file = None, ov_truncate = True, ov_cut_sync = True, ov_dir_sync = True,
     ov_wal = (\<lambda>_. \<lparr>io_append = Appended, io_truncate = True, io_heal = True, io_sync = None\<rparr>)\<rparr>"

lemma replay_nothing: "replay_journal [] = Inr jstate_empty"
  by (simp add: replay_journal_def check_logs_def check_against_def jstate_empty_def control_empty_def)

theorem opening_repairs_the_file_witness:
  "\<exists>j r d. open_with quiet_env (stable_disk []) = (Inr (j, r), d) \<and> open_on j []"
proof -
  have "quiet quiet_env" by (simp add: quiet_def quiet_env_def)
  then show ?thesis
    using opening_repairs_the_file [of "[]" "[]" 0 quiet_env] replay_nothing
    by (cases "open_with quiet_env (stable_disk [])") (auto split: sum.splits)
qed

section \<open>Startup marks once\<close>

lemma persist_same: "persist_changed w (zip ds ds) j = Some (Inr (), j)"
  by (induction ds) simp_all

text \<open>What marking persists is \<open>startup_snapshots\<close>, in order, until a write fails.\<close>

fun persist_each :: "(u64 \<Rightarrow> wal_io) \<Rightarrow> deployment list \<Rightarrow> file_journal \<Rightarrow> ((journal_error + unit) \<times> file_journal) option" where
  "persist_each w [] j = Some (Inr (), j)"
| "persist_each w (d # ds) j =
     (case fj_persist w d j of
        None \<Rightarrow> None
      | Some (Inl e, j) \<Rightarrow> Some (Inl e, j)
      | Some (Inr _, j) \<Rightarrow> persist_each w ds j)"

lemma persist_changed_each: "persist_changed w ps j = persist_each w (map snd (filter (\<lambda>(old, new). old \<noteq> new) ps)) j"
  by (induction ps arbitrary: j) (auto split: option.split prod.split sum.split)

lemma marking_persists_startup_snapshots:
  "persist_changed w (zip ds (fst (recover_on_start now ds))) j = persist_each w (startup_snapshots now ds) j"
  by (simp add: persist_changed_each startup_snapshots_def)

text \<open>
  The marking of interrupted deployments is idempotent: whatever deployments a journal
  holds, after a start that marked them every later start finds nothing to mark: it appends nothing to
  the file, reports no interrupted deployment and leaves the records as they are, whatever time it is.
\<close>

theorem second_start_writes_nothing:
  assumes "mark_interrupted w r now j = Some (Inr r', j')"
  shows "\<exists>r''. mark_interrupted w' r' later j' = Some (Inr r'', j') \<and> rs_state r'' = rs_state r' \<and>
    su_interrupted (rs_startup r'') = [] \<and> su_incomplete (rs_startup r'') = []"
proof -
  let ?marked = "map (recover_one now) (js_deployments (rs_state r))"
  have marked: "js_deployments (rs_state r') = ?marked"
    using assms by (auto simp: mark_interrupted_def recover_on_start_map Let_def bind_res_Inr_iff)
  have same: "map (recover_one later) ?marked = ?marked"
    by (simp add: recover_one_idem)
  have ended: "filter (\<lambda>d. \<not> is_terminal (d_status d)) ?marked = []"
    "\<And>P. filter (\<lambda>d. \<not> is_terminal (d_status d) \<and> P d) ?marked = []"
    by (simp_all add: filter_empty_conv)
  have "recover_on_start later ?marked = (?marked, \<lparr>su_interrupted = [], su_incomplete = []\<rparr>)"
    unfolding recover_on_start_map same using ended by simp
  then show ?thesis
    using persist_same [of w' ?marked j'] marked by (simp add: mark_interrupted_def)
qed

theorem second_start_writes_nothing_witness:
  "\<exists>r j r'. mark_interrupted (ov_wal quiet_env)
      (restored_of (jstate_empty\<lparr>js_deployments := [deployment_new (DeploymentId 7) (ApplicationId 9) Cli 12]\<rparr>) Clean) 20
      (fresh_journal_file (stable_disk (file_text [header_line]))) = Some (Inr r, j) \<and>
    mark_interrupted (ov_wal quiet_env) r 30 j = Some (Inr r', j)"
proof -
  let ?d = "deployment_new (DeploymentId 7) (ApplicationId 9) Cli 12"
  let ?r = "restored_of (jstate_empty\<lparr>js_deployments := [?d]\<rparr>) Clean"
  let ?j = "fresh_journal_file (stable_disk (file_text [header_line]))"
  have "steps_ok (recover_one 20 ?d)" by (simp add: steps_ok_recover_one) (simp add: steps_ok_def deployment_new_def step_order_def)
  then obtain l where l: "encode_snapshot (recover_one 20 ?d) = Some l"
    using all_steps_ok by (auto simp: encode_snapshot_def snapshot_fields_def)
  obtain j where j: "append_line (ov_wal quiet_env) l ?j = (Inr (), j)"
    by (simp add: append_line_def quiet_env_def fresh_journal_file_def Let_def)
  have "\<not> is_terminal (d_status ?d)" by (simp add: deployment_new_def is_terminal_def)
  then have changed: "?d \<noteq> recover_one 20 ?d" by (metis recover_one_fields(5))
  have "\<exists>r. mark_interrupted (ov_wal quiet_env) ?r 20 ?j = Some (Inr r, j)"
    using l j changed
    by (simp add: mark_interrupted_def restored_of_def fj_persist_def recover_on_start_map del: recover_one_fields)
  with second_start_writes_nothing show ?thesis by blast
qed

end
