(* ===== verification/Json.thy ===== *)
theory Json
  imports Git
begin

text \<open>
  The strict JSON reader and writer (\<open>deploy-docker/src/json.rs\<close>) on byte strings. Numbers are values of
  the type \<open>f64\<close> of Rust, which the model leaves open: a type \<open>'n\<close> with its reading \<open>num\<close> (finite values
  only) and its printing. The byte positions in error texts are left out.
\<close>

definition json_max_depth :: nat where "json_max_depth = 32"

datatype 'n json =
    JNull
  | JBool bool
  | JNum 'n
  | JStr string
  | JArr "'n json list"
  | JObj "(string \<times> 'n json) list"

definition jget :: "string \<Rightarrow> 'n json \<Rightarrow> 'n json option" where
  "jget key v = (case v of JObj m \<Rightarrow> map_option snd (List.find (\<lambda>(k, _). k = key) m) | _ \<Rightarrow> None)"

definition jas_str :: "'n json \<Rightarrow> string option" where
  "jas_str v = (case v of JStr s \<Rightarrow> Some s | _ \<Rightarrow> None)"

definition jas_bool :: "'n json \<Rightarrow> bool option" where
  "jas_bool v = (case v of JBool b \<Rightarrow> Some b | _ \<Rightarrow> None)"

definition jas_array :: "'n json \<Rightarrow> 'n json list option" where
  "jas_array v = (case v of JArr a \<Rightarrow> Some a | _ \<Rightarrow> None)"

definition jas_object :: "'n json \<Rightarrow> (string \<times> 'n json) list option" where
  "jas_object v = (case v of JObj m \<Rightarrow> Some m | _ \<Rightarrow> None)"

definition jis_null :: "'n json \<Rightarrow> bool" where
  "jis_null v = (case v of JNull \<Rightarrow> True | _ \<Rightarrow> False)"

section \<open>Reading\<close>

text \<open>A parser is at the start of what remains of the text.\<close>

abbreviation DQ :: char where "DQ \<equiv> CHR 0x22"

definition jws :: "string \<Rightarrow> string" where
  "jws s = dropWhile (\<lambda>c. c = CHR '' '' \<or> c = TAB \<or> c = NL \<or> c = CR) s"

definition jlit :: "string \<Rightarrow> 'n json \<Rightarrow> string \<Rightarrow> string + 'n json \<times> string" where
  "jlit word v s = (if starts_with s word then Inr (v, drop (length word) s) else Inl ''unexpected token'')"

text \<open>A run of digits, at least one.\<close>

definition jdigits :: "string \<Rightarrow> (string \<times> string) option" where
  "jdigits s =
     (let ds = takeWhile ascii_digit s in if ds = [] then None else Some (ds, dropWhile ascii_digit s))"

definition jfraction :: "string \<Rightarrow> (string \<times> string) option" where
  "jfraction s =
     (case s of
        c # t \<Rightarrow> if c = CHR ''.'' then map_option (\<lambda>(ds, r). (c # ds, r)) (jdigits t) else Some ([], s)
      | [] \<Rightarrow> Some ([], s))"

definition jexponent :: "string \<Rightarrow> (string \<times> string) option" where
  "jexponent s =
     (case s of
        c # t \<Rightarrow>
          if c = CHR ''e'' \<or> c = CHR ''E'' then
            (case t of
               d # u \<Rightarrow>
                 if d = CHR ''+'' \<or> d = CHR ''-'' then map_option (\<lambda>(ds, r). (c # d # ds, r)) (jdigits u)
                 else map_option (\<lambda>(ds, r). (c # ds, r)) (jdigits t)
             | [] \<Rightarrow> None)
          else Some ([], s)
      | [] \<Rightarrow> Some ([], s))"

definition jsign :: "string \<Rightarrow> string \<times> string" where
  "jsign s = (case s of c # t \<Rightarrow> if c = CHR ''-'' then ([c], t) else ([], s) | [] \<Rightarrow> ([], s))"

text \<open>The token of a number and what follows it.\<close>

definition jnumber_token :: "string \<Rightarrow> (string \<times> string) option" where
  "jnumber_token s =
     (case jsign s of
        (sg, s1) \<Rightarrow>
          (case jdigits s1 of
             None \<Rightarrow> None
           | Some (whole, s2) \<Rightarrow>
               (case jfraction s2 of
                  None \<Rightarrow> None
                | Some (fr, s3) \<Rightarrow>
                    (case jexponent s3 of
                       None \<Rightarrow> None
                     | Some (ex, s4) \<Rightarrow> Some (sg @ whole @ fr @ ex, s4)))))"

definition jnumber :: "(string \<Rightarrow> 'n option) \<Rightarrow> string \<Rightarrow> string + 'n json \<times> string" where
  "jnumber num s =
     (case jnumber_token s of
        None \<Rightarrow> Inl ''malformed number''
      | Some (t, r) \<Rightarrow> (case num t of None \<Rightarrow> Inl ''malformed number'' | Some n \<Rightarrow> Inr (JNum n, r)))"

text \<open>\<open>char::encode_utf8\<close>.\<close>

definition utf8_encode :: "nat \<Rightarrow> string" where
  "utf8_encode cp =
     (if cp < 0x80 then [char_of cp]
      else if cp < 0x800 then [char_of (0xC0 + cp div 64), char_of (0x80 + cp mod 64)]
      else if cp < 0x10000
      then [char_of (0xE0 + cp div 4096), char_of (0x80 + cp div 64 mod 64), char_of (0x80 + cp mod 64)]
      else [char_of (0xF0 + cp div 262144), char_of (0x80 + cp div 4096 mod 64), char_of (0x80 + cp div 64 mod 64),
            char_of (0x80 + cp mod 64)])"

definition jhex4 :: "string \<Rightarrow> string + nat \<times> string" where
  "jhex4 s =
     (if length s < 4 then Inl (''short '' @ BSL # ''u escape'')
      else case parse_hex 32 (take 4 s) of
          None \<Rightarrow> Inl (''bad '' @ BSL # ''u escape'') | Some v \<Rightarrow> Inr (v, drop 4 s))"

definition junicode :: "string \<Rightarrow> string + string \<times> string" where
  "junicode s =
     (case jhex4 s of
        Inl e \<Rightarrow> Inl e
      | Inr (hi, t) \<Rightarrow>
          if 0xD800 \<le> hi \<and> hi < 0xDC00 then
            (if \<not> starts_with t [BSL, CHR ''u''] then Inl ''lone surrogate''
             else case jhex4 (drop 2 t) of
                 Inl e \<Rightarrow> Inl e
               | Inr (lo, u) \<Rightarrow>
                   if \<not> (0xDC00 \<le> lo \<and> lo < 0xE000) then Inl ''bad surrogate pair''
                   else Inr (utf8_encode (0x10000 + (hi - 0xD800) * 1024 + (lo - 0xDC00)), u))
          else if 0xDC00 \<le> hi \<and> hi < 0xE000 then Inl ''lone surrogate''
          else Inr (utf8_encode hi, t))"

text \<open>The character of an escape without digits.\<close>

definition junescape :: "char \<Rightarrow> char option" where
  "junescape c =
     (if c = DQ \<or> c = BSL \<or> c = CHR ''/'' then Some c
      else if c = CHR ''b'' then Some (CHR 0x08)
      else if c = CHR ''f'' then Some (CHR 0x0C)
      else if c = CHR ''n'' then Some NL
      else if c = CHR ''r'' then Some CR
      else if c = CHR ''t'' then Some TAB
      else None)"

lemma junicode_shorter: "junicode s = Inr (c, t) \<Longrightarrow> length t < length s"
  by (auto simp: junicode_def jhex4_def split: sum.splits prod.splits if_splits option.splits)

text \<open>The loop of \<open>string\<close>, after the opening quote.\<close>

function jstring_loop :: "string \<Rightarrow> string \<Rightarrow> string + string \<times> string" where
  "jstring_loop out [] = Inl ''unterminated string''"
| "jstring_loop out (c # s) =
     (if c = DQ then (if utf8_valid out then Inr (out, s) else Inl ''string is not valid UTF-8'')
      else if c = BSL then
        (case s of
           [] \<Rightarrow> Inl ''unterminated escape''
         | d # t \<Rightarrow>
             if d = CHR ''u''
             then (case junicode t of Inl e \<Rightarrow> Inl e | Inr (ch, u) \<Rightarrow> jstring_loop (out @ ch) u)
             else (case junescape d of None \<Rightarrow> Inl ''unknown escape'' | Some ch \<Rightarrow> jstring_loop (out @ [ch]) t))
      else if byte c < 0x20 then Inl ''control character in string''
      else jstring_loop (out @ [c]) s)"
  by pat_completeness auto

termination
  by (relation "measure (\<lambda>(out, s). length s)") (auto dest: junicode_shorter)

definition jstring :: "string \<Rightarrow> string + string \<times> string" where
  "jstring s =
     (case s of
        c # t \<Rightarrow> if c = DQ then jstring_loop [] t else Inl (''expected '' @ quoted [DQ])
      | [] \<Rightarrow> Inl (''expected '' @ quoted [DQ]))"

lemma jstring_loop_shorter: "jstring_loop out s = Inr (x, r) \<Longrightarrow> length r < length s"
proof (induction out s rule: jstring_loop.induct)
  case (2 out c s)
  show ?case
  proof (cases "c = BSL")
    case True
    show ?thesis
    proof (cases s)
      case (Cons e t)
      with True 2 show ?thesis
        by (auto split: if_splits sum.splits option.splits dest!: junicode_shorter) fastforce+
    qed (use True 2(4) in simp)
  next
    case False
    then show ?thesis using 2 by (auto split: if_splits)
  qed
qed simp

lemma jstring_shorter: "jstring s = Inr (x, r) \<Longrightarrow> length r < length s"
  by (auto simp: jstring_def dest: jstring_loop_shorter split: list.splits if_splits)

lemma jws_length: "length (jws s) \<le> length s"
  by (simp add: jws_def length_dropWhile_le)

lemma jws_tail: "jws s = c # t \<Longrightarrow> length t < length s"
  using jws_length [of s] by simp

text \<open>
  \<open>value\<close> with the loops of arrays and objects, each from the item it reads next. The comparison of
  lengths after an item is always true (\<open>parser_moves_on\<close> below): reading a value consumes text.
\<close>

function (sequential) jvalue :: "(string \<Rightarrow> 'n option) \<Rightarrow> nat \<Rightarrow> string \<Rightarrow> string + 'n json \<times> string"
  and jitems :: "(string \<Rightarrow> 'n option) \<Rightarrow> nat \<Rightarrow> 'n json list \<Rightarrow> string \<Rightarrow> string + 'n json \<times> string"
  and jmembers :: "(string \<Rightarrow> 'n option) \<Rightarrow> nat \<Rightarrow> (string \<times> 'n json) list \<Rightarrow> string \<Rightarrow> string + 'n json \<times> string"
where
  "jvalue num d s =
     (if json_max_depth < d then Inl ''nesting too deep''
      else case s of
          [] \<Rightarrow> Inl ''unexpected end of input''
        | c # t \<Rightarrow>
            if c = CHR ''n'' then jlit ''null'' JNull s
            else if c = CHR ''t'' then jlit ''true'' (JBool True) s
            else if c = CHR ''f'' then jlit ''false'' (JBool False) s
            else if c = DQ then (case jstring s of Inl e \<Rightarrow> Inl e | Inr (x, r) \<Rightarrow> Inr (JStr x, r))
            else if c = CHR ''['' then
              (case jws t of
                 e # u \<Rightarrow> if e = CHR '']'' then Inr (JArr [], u) else jitems num d [] (jws t)
               | [] \<Rightarrow> jitems num d [] (jws t))
            else if c = CHR 0x7B then
              (case jws t of
                 e # u \<Rightarrow> if e = CHR 0x7D then Inr (JObj [], u) else jmembers num d [] (jws t)
               | [] \<Rightarrow> jmembers num d [] (jws t))
            else if c = CHR ''-'' \<or> ascii_digit c then jnumber num s
            else Inl ''unexpected character'')"
| "jitems num d acc s =
     (case jvalue num (d + 1) (jws s) of
        Inl e \<Rightarrow> Inl e
      | Inr (v, r) \<Rightarrow>
          (case jws r of
             c # t \<Rightarrow>
               if c = CHR '','' then
                 (if length t < length s then jitems num d (acc @ [v]) t else Inl [])
               else if c = CHR '']'' then Inr (JArr (acc @ [v]), t)
               else Inl (''expected '' @ quoted '','' @ '' or '' @ quoted '']'')
           | [] \<Rightarrow> Inl (''expected '' @ quoted '','' @ '' or '' @ quoted '']'')))"
| "jmembers num d acc s =
     (case jws s of
        [] \<Rightarrow> Inl ''expected a string key''
      | q # _ \<Rightarrow>
          if q \<noteq> DQ then Inl ''expected a string key''
          else
            (case jstring (jws s) of
               Inl e \<Rightarrow> Inl e
             | Inr (k, r) \<Rightarrow>
                 (case jws r of
                    [] \<Rightarrow> Inl (''expected '' @ quoted '':'')
                  | c # t \<Rightarrow>
                      if c \<noteq> CHR '':'' then Inl (''expected '' @ quoted '':'')
                      else if length t < length s then
                        (case jvalue num (d + 1) (jws t) of
                           Inl e \<Rightarrow> Inl e
                         | Inr (v, r2) \<Rightarrow>
                             (case jws r2 of
                                e # u \<Rightarrow>
                                  if e = CHR '','' then
                                    (if length u < length s then jmembers num d (acc @ [(k, v)]) u else Inl [])
                                  else if e = CHR 0x7D then Inr (JObj (acc @ [(k, v)]), u)
                                  else Inl (''expected '' @ quoted '','' @ '' or '' @ quoted [CHR 0x7D])
                              | [] \<Rightarrow> Inl (''expected '' @ quoted '','' @ '' or '' @ quoted [CHR 0x7D])))
                      else Inl [])))"
  by pat_completeness auto

termination
proof (relation "measure (case_sum (\<lambda>(num, d, s). 2 * length s)
    (case_sum (\<lambda>(num, d, acc, s). 2 * length s + 1) (\<lambda>(num, d, acc, s). 2 * length s + 1)))", goal_cases)
  case 1
  show ?case by simp
qed (use jws_length in \<open>auto simp: Suc_le_eq le_Suc_eq less_Suc_eq_le dest!: jws_tail
  intro: le_trans [OF jws_length]\<close>)

declare jvalue.simps [simp del] jitems.simps [simp del] jmembers.simps [simp del]

definition json_parse :: "(string \<Rightarrow> 'n option) \<Rightarrow> string \<Rightarrow> string + 'n json" where
  "json_parse num txt =
     (case jvalue num 0 (jws txt) of
        Inl e \<Rightarrow> Inl e
      | Inr (v, r) \<Rightarrow> if jws r \<noteq> [] then Inl ''trailing characters after the value'' else Inr v)"

section \<open>Reading consumes text\<close>

lemma jdigits_length: "jdigits s = Some (ds, r) \<Longrightarrow> length r < length s"
proof -
  assume a: "jdigits s = Some (ds, r)"
  then have ds: "ds \<noteq> []" "ds = takeWhile ascii_digit s" "r = dropWhile ascii_digit s"
    unfolding jdigits_def Let_def by (metis option.distinct(1) option.inject prod.inject)+
  then have "length ds + length r = length s" by (metis length_append takeWhile_dropWhile_id)
  with ds(1) show ?thesis by (cases ds) simp_all
qed

lemma jfraction_length: "jfraction s = Some (ds, r) \<Longrightarrow> length r \<le> length s"
  by (auto simp: jfraction_def dest: jdigits_length split: list.splits if_splits)

lemma jexponent_length: "jexponent s = Some (ds, r) \<Longrightarrow> length r \<le> length s"
  by (force simp: jexponent_def dest: jdigits_length split: list.splits if_splits)

lemma jsign_length: "length (snd (jsign s)) \<le> length s"
  by (simp add: jsign_def split: list.split)

lemma jnumber_shorter: "jnumber num s = Inr (v, r) \<Longrightarrow> length r < length s"
  using jsign_length [of s]
  by (fastforce simp: jnumber_def jnumber_token_def dest!: jdigits_length jfraction_length jexponent_length
      split: prod.splits option.splits)

lemma jlit_shorter: "jlit word v s = Inr (x, r) \<Longrightarrow> word \<noteq> [] \<Longrightarrow> s \<noteq> [] \<Longrightarrow> length r < length s"
  by (auto simp: jlit_def split: if_splits)

lemma jws_Cons_le: "jws t = e # u \<Longrightarrow> length u < length t"
  by (rule jws_tail)

lemma parser_moves_on:
  "jvalue num d s = Inr (v, r) \<Longrightarrow> length r < length s"
  "jitems num d acc s = Inr (v, r) \<Longrightarrow> length r < length s"
  "jmembers num d ms s = Inr (v, r) \<Longrightarrow> length r < length s"
proof (induction num d s and num d acc s and num d ms s arbitrary: v r and v r and v r
    rule: jvalue_jitems_jmembers.induct)
  case (1 num d s)
  show ?case
  proof (cases s)
    case Nil
    then show ?thesis using 1(5) by (subst (asm) jvalue.simps) (simp split: if_splits)
  next
    case (Cons c t)
    note value_Cons = 1(5) [unfolded Cons, unfolded jvalue.simps [of num d "c # t"]]
    have jws_t: "length (jws t) \<le> length t" by (rule jws_length)
    show ?thesis
    proof (cases "c = CHR ''['' \<or> c = CHR 0x7B")
      case True
      have depth: "\<not> json_max_depth < d" using value_Cons by (auto split: if_splits)
      have items: "length r < length t"
        if "jitems num d [] (jws t) = Inr (v, r)" "c = CHR ''[''" "\<forall>u. jws t \<noteq> CHR '']'' # u"
      proof -
        have "length r < length (jws t)"
          using 1(1,2) that depth Cons by (cases "jws t") auto
        with jws_t show ?thesis by simp
      qed
      have members: "length r < length t"
        if "jmembers num d [] (jws t) = Inr (v, r)" "c = CHR 0x7B" "\<forall>u. jws t \<noteq> CHR 0x7D # u"
      proof -
        have "length r < length (jws t)"
          using 1(3,4) that depth Cons by (cases "jws t") auto
        with jws_t show ?thesis by simp
      qed
      have first_items: "length r < length t" if "c = CHR ''[''"
      proof (cases "\<exists>u. jws t = CHR '']'' # u")
        case True
        then show ?thesis using value_Cons that depth jws_tail [of t] by auto
      next
        case False
        then have "jitems num d [] (jws t) = Inr (v, r)"
          using value_Cons that depth by (cases "jws t") (simp_all split: if_splits)
        with items that False show ?thesis by simp
      qed
      have first_members: "length r < length t" if "c = CHR 0x7B"
      proof (cases "\<exists>u. jws t = CHR 0x7D # u")
        case True
        then show ?thesis using value_Cons that depth jws_tail [of t] by auto
      next
        case False
        then have "jmembers num d [] (jws t) = Inr (v, r)"
          using value_Cons that depth by (cases "jws t") (simp_all split: if_splits)
        with members that False show ?thesis by simp
      qed
      from True have "length r < length t" using first_items first_members by blast
      then show ?thesis using Cons by simp
    next
      case False
      then have "jlit ''null'' JNull (c # t) = Inr (v, r) \<or> jlit ''true'' (JBool True) (c # t) = Inr (v, r) \<or>
          jlit ''false'' (JBool False) (c # t) = Inr (v, r) \<or> (\<exists>x. jstring (c # t) = Inr (x, r)) \<or>
          jnumber num (c # t) = Inr (v, r)"
        using value_Cons by (simp split: if_splits sum.splits prod.splits)
      then have "length r < length (c # t)"
        by (elim disjE exE) (blast dest: jlit_shorter jnumber_shorter jstring_shorter)+
      then show ?thesis using Cons by simp
    qed
  qed
next
  case (2 num d acc s)
  obtain w q where w: "jvalue num (d + 1) (jws s) = Inr (w, q)"
    using 2(3) by (subst (asm) jitems.simps) (auto split: sum.splits)
  have q: "length q < length s" using 2(1) [OF w] jws_length [of s] by simp
  show ?case
  proof (cases "jws q")
    case Nil
    then show ?thesis using 2(3) w by (subst (asm) jitems.simps) simp
  next
    case (Cons c t)
    have t: "length t < length s" using jws_tail [OF Cons] q by simp
    show ?thesis
    proof (cases "c = CHR '',''")
      case True
      then have "jitems num d (acc @ [w]) t = Inr (v, r)"
        using 2(3) w Cons t by (subst (asm) jitems.simps) simp
      then have "length r < length t" using 2(2) w Cons True t by auto
      with t show ?thesis by simp
    next
      case False
      then show ?thesis using 2(3) w Cons t by (subst (asm) jitems.simps) (simp split: if_splits)
    qed
  qed
next
  case (3 num d acc s)
  note step = 3(3) [unfolded jmembers.simps [of num d acc s]]
  obtain x where x: "jws s = DQ # x" using step by (auto split: list.splits if_splits)
  obtain k q where k: "jstring (jws s) = Inr (k, q)" using step x by (auto split: sum.splits)
  obtain t where t: "jws q = CHR '':'' # t" using step x k by (auto split: list.splits if_splits)
  have lt: "length t < length s"
    using jws_tail [OF t] jstring_shorter [OF k] jws_length [of s] by simp
  obtain w p where w: "jvalue num (d + 1) (jws t) = Inr (w, p)"
    using step x k t lt by (auto split: sum.splits)
  have p: "length p < length s"
    using 3(1) [OF x _ k refl t _ lt w] jws_length [of t] lt by simp
  show ?case
  proof (cases "jws p")
    case Nil
    then show ?thesis using step x k t lt w by simp
  next
    case (Cons c u)
    have u: "length u < length s" using jws_tail [OF Cons] p by simp
    show ?thesis
    proof (cases "c = CHR '',''")
      case True
      then have "jmembers num d (acc @ [(k, w)]) u = Inr (v, r)" using step x k t lt w Cons u by simp
      then have "length r < length u" using 3(2) x k t lt w Cons True u by auto
      with u show ?thesis by simp
    next
      case False
      then show ?thesis using step x k t lt w Cons u by (simp split: if_splits)
    qed
  qed
qed

section \<open>Writing\<close>

definition jesc_char :: "char \<Rightarrow> string" where
  "jesc_char c =
     (if c = DQ then [BSL, DQ] else if c = BSL then [BSL, BSL] else if c = NL then [BSL, CHR ''n'']
      else if c = CR then [BSL, CHR ''r''] else if c = TAB then [BSL, CHR ''t'']
      else if byte c < 0x20 then [BSL, CHR ''u''] @ show_hex 4 (byte c) else [c])"

definition jwrite_str :: "string \<Rightarrow> string" where
  "jwrite_str s = DQ # concat (map jesc_char s) @ [DQ]"

fun jwrite :: "('n \<Rightarrow> string) \<Rightarrow> 'n json \<Rightarrow> string"
  and jwrite_items :: "('n \<Rightarrow> string) \<Rightarrow> 'n json list \<Rightarrow> string"
  and jwrite_members :: "('n \<Rightarrow> string) \<Rightarrow> (string \<times> 'n json) list \<Rightarrow> string"
where
  "jwrite shw JNull = ''null''"
| "jwrite shw (JBool b) = (if b then ''true'' else ''false'')"
| "jwrite shw (JNum n) = shw n"
| "jwrite shw (JStr s) = jwrite_str s"
| "jwrite shw (JArr a) = ''['' @ jwrite_items shw a @ '']''"
| "jwrite shw (JObj m) = CHR 0x7B # jwrite_members shw m @ [CHR 0x7D]"
| "jwrite_items shw [] = []"
| "jwrite_items shw [v] = jwrite shw v"
| "jwrite_items shw (v # w # vs) = jwrite shw v @ '','' @ jwrite_items shw (w # vs)"
| "jwrite_members shw [] = []"
| "jwrite_members shw [(k, v)] = jwrite_str k @ '':'' @ jwrite shw v"
| "jwrite_members shw ((k, v) # w # vs) = jwrite_str k @ '':'' @ jwrite shw v @ '','' @ jwrite_members shw (w # vs)"

section \<open>What is written reads back\<close>

lemma jesc_loop:
  "jstring_loop out (concat (map jesc_char s) @ DQ # r) =
     (if utf8_valid (out @ s) then Inr (out @ s, r) else Inl ''string is not valid UTF-8'')"
proof (induction s arbitrary: out)
  case Nil
  show ?case by simp
next
  case (Cons c s)
  have "jstring_loop out (jesc_char c @ t) = jstring_loop (out @ [c]) t" for t
  proof (cases "c \<in> {DQ, BSL, NL, CR, TAB}")
    case True
    then show ?thesis by (auto simp: jesc_char_def junescape_def)
  next
    case False
    show ?thesis
    proof (cases "byte c < 0x20")
      case True
      have "parse_hex 32 (show_hex 4 (byte c)) = Some (byte c)"
        using True by (intro parse_hex_show_hex) auto
      moreover have "length (show_hex 4 (byte c)) = 4" by simp
      moreover have "char_of (byte c) = c" by (simp add: byte_def)
      ultimately have "junicode (show_hex 4 (byte c) @ t) = Inr ([c], t)"
        using True by (simp add: junicode_def jhex4_def utf8_encode_def)
      with True False show ?thesis by (simp add: jesc_char_def)
    next
      case False
      with \<open>c \<notin> _\<close> show ?thesis by (simp add: jesc_char_def)
    qed
  qed
  with Cons.IH [of "out @ [c]"] show ?case by simp
qed

lemma jstring_write: "utf8_valid s \<Longrightarrow> jstring (jwrite_str s @ r) = Inr (s, r)"
  using jesc_loop [of "[]" s r] by (simp add: jstring_def jwrite_str_def)

definition stops :: "string \<Rightarrow> bool" where
  "stops r \<longleftrightarrow> r = [] \<or> hd r \<in> {CHR '','', CHR '']'', CHR 0x7D, CHR '' '', TAB, NL, CR}"

text \<open>What a number relies on: its text reads back, wherever a value may end.\<close>

definition num_ok :: "(string \<Rightarrow> 'n option) \<Rightarrow> ('n \<Rightarrow> string) \<Rightarrow> 'n \<Rightarrow> bool" where
  "num_ok num shw n \<longleftrightarrow> num (shw n) = Some n \<and> shw n \<noteq> [] \<and> (hd (shw n) = CHR ''-'' \<or> ascii_digit (hd (shw n))) \<and>
     (\<forall>r. stops r \<longrightarrow> jnumber_token (shw n @ r) = Some (shw n, r))"

fun json_ok :: "(string \<Rightarrow> 'n option) \<Rightarrow> ('n \<Rightarrow> string) \<Rightarrow> nat \<Rightarrow> 'n json \<Rightarrow> bool" where
  "json_ok num shw d JNull = (d \<le> json_max_depth)"
| "json_ok num shw d (JBool b) = (d \<le> json_max_depth)"
| "json_ok num shw d (JNum n) = (d \<le> json_max_depth \<and> num_ok num shw n)"
| "json_ok num shw d (JStr s) = (d \<le> json_max_depth \<and> utf8_valid s)"
| "json_ok num shw d (JArr a) = (d \<le> json_max_depth \<and> (\<forall>v \<in> set a. json_ok num shw (d + 1) v))"
| "json_ok num shw d (JObj m) =
     (d \<le> json_max_depth \<and> (\<forall>p \<in> set m. utf8_valid (fst p) \<and> json_ok num shw (d + 1) (snd p)))"

lemma json_ok_depth: "json_ok num shw d v \<Longrightarrow> \<not> json_max_depth < d"
  by (cases v) auto


lemma jitems_step:
  assumes "jvalue num (Suc d) (jws s) = Inr (v, r)"
  shows "jws r = CHR '','' # t \<Longrightarrow> jitems num d acc s = jitems num d (acc @ [v]) t"
    and "jws r = CHR '']'' # t \<Longrightarrow> jitems num d acc s = Inr (JArr (acc @ [v]), t)"
proof -
  have r: "length r < length s"
    using parser_moves_on(1) [OF assms] jws_length [of s] by simp
  show "jws r = CHR '','' # t \<Longrightarrow> jitems num d acc s = jitems num d (acc @ [v]) t"
    using assms r jws_tail [of r] by (subst jitems.simps) fastforce
  show "jws r = CHR '']'' # t \<Longrightarrow> jitems num d acc s = Inr (JArr (acc @ [v]), t)"
    using assms by (subst jitems.simps) simp
qed

lemma jmembers_step:
  assumes "jws s = DQ # x" "jstring (jws s) = Inr (k, q)" "jws q = CHR '':'' # y"
    and "jvalue num (Suc d) (jws y) = Inr (v, r)"
  shows "jws r = CHR '','' # t \<Longrightarrow> jmembers num d acc s = jmembers num d (acc @ [(k, v)]) t"
    and "jws r = CHR 0x7D # t \<Longrightarrow> jmembers num d acc s = Inr (JObj (acc @ [(k, v)]), t)"
proof -
  have y: "length y < length s"
    using jws_tail [OF assms(3)] jstring_shorter [OF assms(2)] jws_length [of s] by simp
  have r: "length r < length s"
    using parser_moves_on(1) [OF assms(4)] jws_length [of y] y by simp
  show "jws r = CHR '','' # t \<Longrightarrow> jmembers num d acc s = jmembers num d (acc @ [(k, v)]) t"
    using r jws_tail [of r] by (subst jmembers.simps) (simp add: assms(1,3) assms(2) [unfolded assms(1)] assms(4) y)
  show "jws r = CHR 0x7D # t \<Longrightarrow> jmembers num d acc s = Inr (JObj (acc @ [(k, v)]), t)"
    by (subst jmembers.simps) (simp add: assms(1,3) assms(2) [unfolded assms(1)] assms(4) y)
qed

definition jfirst :: "char \<Rightarrow> bool" where
  "jfirst c \<longleftrightarrow> c \<in> {CHR ''n'', CHR ''t'', CHR ''f'', DQ, CHR ''['', CHR 0x7B, CHR ''-''} \<or> ascii_digit c"

lemma jwrite_first: "json_ok num shw d v \<Longrightarrow> \<exists>c t. jwrite shw v = c # t \<and> jfirst c"
proof (cases v)
  case (JNum n)
  assume "json_ok num shw d v"
  with JNum show ?thesis by (cases "shw n") (auto simp: num_ok_def jfirst_def)
qed (auto simp: jfirst_def jwrite_str_def)

lemma not_jfirst:
  "\<not> jfirst (CHR '' '')" "\<not> jfirst TAB" "\<not> jfirst NL" "\<not> jfirst CR" "\<not> jfirst (CHR '']'')"
  "\<not> jfirst (CHR 0x7D)"
  by (simp_all add: jfirst_def ascii_digit_def between_def byte_def)

lemma jfirst_plain: "jfirst c \<Longrightarrow> jws (c # t) = c # t \<and> c \<noteq> CHR '']'' \<and> c \<noteq> CHR 0x7D"
  using not_jfirst by (auto simp: jws_def)

lemma jws_jwrite: "json_ok num shw d v \<Longrightarrow> jws (jwrite shw v @ r) = jwrite shw v @ r"
  using jwrite_first [of num shw d v] jfirst_plain by fastforce


lemma stops_bracket: "stops (CHR '']'' # r)" "stops (CHR 0x7D # r)" "stops (CHR '','' # r)" "stops []"
  by (simp_all add: stops_def)

lemma jws_bracket:
  "jws (CHR '']'' # r) = CHR '']'' # r" "jws (CHR 0x7D # r) = CHR 0x7D # r" "jws (CHR '','' # r) = CHR '','' # r"
  "jws (CHR '':'' # r) = CHR '':'' # r" "jws (DQ # r) = DQ # r"
  by (simp_all add: jws_def)

lemma jvalue_number:
  assumes "num_ok num shw n" "stops r" "\<not> json_max_depth < d"
  shows "jvalue num d (shw n @ r) = Inr (JNum n, r)"
proof -
  obtain c t where c: "shw n = c # t" using assms(1) by (cases "shw n") (auto simp: num_ok_def)
  have first: "c = CHR ''-'' \<or> ascii_digit c" using assms(1) c by (simp add: num_ok_def)
  have other: "c \<noteq> CHR ''n''" "c \<noteq> CHR ''t''" "c \<noteq> CHR ''f''" "c \<noteq> DQ" "c \<noteq> CHR ''[''" "c \<noteq> CHR 0x7B"
    using first by (auto simp: ascii_digit_def between_def byte_def)
  have "jnumber num (shw n @ r) = Inr (JNum n, r)"
    using assms(1,2) by (simp add: jnumber_def num_ok_def)
  then have "jnumber num (c # t @ r) = Inr (JNum n, r)" by (simp add: c)
  then show ?thesis using other first assms(3) by (simp add: c jvalue.simps)
qed

lemma jmembers_written:
  assumes "utf8_valid k" "jvalue num (Suc d) (jws y) = Inr (v, r)"
  shows "jws r = CHR '','' # t \<Longrightarrow>
      jmembers num d acc (jwrite_str k @ CHR '':'' # y) = jmembers num d (acc @ [(k, v)]) t"
    and "jws r = CHR 0x7D # t \<Longrightarrow>
      jmembers num d acc (jwrite_str k @ CHR '':'' # y) = Inr (JObj (acc @ [(k, v)]), t)"
proof -
  let ?s = "jwrite_str k @ CHR '':'' # y"
  obtain x where x: "jws ?s = DQ # x" "jws ?s = ?s" by (simp add: jwrite_str_def jws_bracket)
  have k: "jstring (jws ?s) = Inr (k, CHR '':'' # y)" using jstring_write [OF assms(1)] x(2) by simp
  note steps = jmembers_step [OF x(1) k jws_bracket(4) assms(2)]
  show "jws r = CHR '','' # t \<Longrightarrow> jmembers num d acc ?s = jmembers num d (acc @ [(k, v)]) t"
    and "jws r = CHR 0x7D # t \<Longrightarrow> jmembers num d acc ?s = Inr (JObj (acc @ [(k, v)]), t)"
    by (fact steps)+
qed

lemma jwrite_reads:
  shows "json_ok num shw d v \<Longrightarrow> stops r \<Longrightarrow> jvalue num d (jwrite shw v @ r) = Inr (v, r)"
    and "\<forall>w \<in> set vs. json_ok num shw (Suc d) w \<Longrightarrow> vs \<noteq> [] \<Longrightarrow>
      jitems num d vacc (jwrite_items shw vs @ CHR '']'' # r) = Inr (JArr (vacc @ vs), r)"
    and "\<forall>p \<in> set ms. utf8_valid (fst p) \<and> json_ok num shw (Suc d) (snd p) \<Longrightarrow> ms \<noteq> [] \<Longrightarrow>
      jmembers num d macc (jwrite_members shw ms @ CHR 0x7D # r) = Inr (JObj (macc @ ms), r)"
proof (induction shw v and shw vs and shw ms arbitrary: d r and d vacc r and d macc r
    rule: jwrite_jwrite_items_jwrite_members.induct)
  case (5 shw a)
  note depth = json_ok_depth [OF 5(2)]
  show ?case
  proof (cases a)
    case Nil
    with depth show ?thesis by (simp add: jvalue.simps jws_bracket)
  next
    case (Cons w ws)
    have oks: "\<forall>w \<in> set a. json_ok num shw (Suc d) w" using 5(2) by simp
    obtain c t where c: "jwrite_items shw a = c # t" "jfirst c"
      using jwrite_first [of num shw "Suc d" w] oks Cons by (cases ws) fastforce+
    have "jitems num d [] (c # t @ CHR '']'' # r) = Inr (JArr a, r)"
      using 5(1) [of d "[]" r] oks Cons c by simp
    moreover have "jws (c # t @ CHR '']'' # r) = c # t @ CHR '']'' # r" "c \<noteq> CHR '']''"
      using jfirst_plain [OF c(2)] by simp_all
    ultimately show ?thesis using depth c by (simp add: jvalue.simps [of num d "CHR ''['' # s" for s])
  qed
next
  case (6 shw m)
  note depth = json_ok_depth [OF 6(2)]
  show ?case
  proof (cases m)
    case Nil
    with depth show ?thesis by (simp add: jvalue.simps jws_bracket)
  next
    case (Cons p ps)
    have oks: "\<forall>p \<in> set m. utf8_valid (fst p) \<and> json_ok num shw (Suc d) (snd p)" using 6(2) by simp
    obtain t where t: "jwrite_members shw m = DQ # t"
      using Cons by (cases p; cases ps) (simp_all add: jwrite_str_def)
    have "jmembers num d [] (DQ # t @ CHR 0x7D # r) = Inr (JObj m, r)"
      using 6(1) [of d "[]" r] oks Cons t by simp
    then show ?thesis using depth t by (simp add: jvalue.simps [of num d "CHR 0x7B # s" for s] jws_bracket)
  qed
next
  case (8 shw v)
  have ok: "json_ok num shw (Suc d) v" using 8(2) by simp
  have "jvalue num (Suc d) (jws (jwrite shw v @ CHR '']'' # r)) = Inr (v, CHR '']'' # r)"
    using 8(1) [OF ok stops_bracket(1)] jws_jwrite [OF ok] by simp
  then show ?case by (simp add: jitems_step(2) jws_bracket)
next
  case (9 shw v w vs)
  have ok: "json_ok num shw (Suc d) v" using 9(3) by simp
  let ?rest = "jwrite_items shw (w # vs) @ CHR '']'' # r"
  have "jvalue num (Suc d) (jws (jwrite shw v @ CHR '','' # ?rest)) = Inr (v, CHR '','' # ?rest)"
    using 9(1) [OF ok stops_bracket(3)] jws_jwrite [OF ok] by simp
  from jitems_step(1) [OF this jws_bracket(3)] show ?case
    using 9(2) [of d "vacc @ [v]" r] 9(3) by simp
next
  case (11 shw k v)
  have ok: "json_ok num shw (Suc d) v" "utf8_valid k" using 11(2) by simp_all
  have "jvalue num (Suc d) (jws (jwrite shw v @ CHR 0x7D # r)) = Inr (v, CHR 0x7D # r)"
    using 11(1) [OF ok(1) stops_bracket(2)] jws_jwrite [OF ok(1)] by simp
  from jmembers_written(2) [OF ok(2) this jws_bracket(2)] show ?case by simp
next
  case (12 shw k v w ms)
  have ok: "json_ok num shw (Suc d) v" "utf8_valid k" using 12(3) by simp_all
  let ?rest = "jwrite_members shw (w # ms) @ CHR 0x7D # r"
  have "jvalue num (Suc d) (jws (jwrite shw v @ CHR '','' # ?rest)) = Inr (v, CHR '','' # ?rest)"
    using 12(1) [OF ok(1) stops_bracket(3)] jws_jwrite [OF ok(1)] by simp
  from jmembers_written(1) [OF ok(2) this jws_bracket(3)] show ?case
    using 12(2) [of d "macc @ [(k, v)]" r] 12(3) by simp
next
  case (4 shw s)
  then show ?case using jstring_write [of s r] by (simp add: jvalue.simps [of num d "DQ # s" for s] jwrite_str_def)
next
  case (3 shw n)
  then show ?case using jvalue_number [of num shw n r d] by simp
qed (auto simp: jvalue.simps jlit_def starts_with_def)


definition json_blank :: "string \<Rightarrow> bool" where
  "json_blank s \<longleftrightarrow> list_all (\<lambda>c. c = CHR '' '' \<or> c = TAB \<or> c = NL \<or> c = CR) s"

lemma jws_blank: "json_blank a \<Longrightarrow> jws (a @ s) = jws s"
  by (induction a) (auto simp: json_blank_def jws_def)

lemma json_parse_padded:
  assumes "json_ok num shw 0 v" and "json_blank a" and "json_blank b"
  shows "json_parse num (a @ jwrite shw v @ b) = Inr v"
proof -
  have "stops b" using assms(3) by (cases b) (auto simp: stops_def json_blank_def)
  moreover have "jws (a @ jwrite shw v @ b) = jwrite shw v @ b"
    using jws_blank [OF assms(2)] jws_jwrite [OF assms(1)] by simp
  moreover have "jws b = []" using jws_blank [OF assms(3), of "[]"] by (simp add: jws_def)
  ultimately show ?thesis using jwrite_reads(1) [OF assms(1)] by (simp add: json_parse_def)
qed

text \<open>
  Claim C37. What the writer writes reads back. For a value that nests no deeper than the reader allows,
  whose strings are UTF-8 and whose numbers print to what the number reading takes back, the reader gives
  the value itself, through every escape and with any blanks around the text; two such values never have
  the same text.
\<close>

theorem json_reads_back:
  assumes "json_ok num shw 0 v" and "json_blank a" and "json_blank b"
  shows "json_parse num (a @ jwrite shw v @ b) = Inr v \<and>
    (\<forall>w. json_ok num shw 0 w \<and> jwrite shw w = jwrite shw v \<longrightarrow> w = v)"
proof (intro conjI allI impI)
  show "json_parse num (a @ jwrite shw v @ b) = Inr v" by (rule json_parse_padded [OF assms])
  fix w
  assume w: "json_ok num shw 0 w \<and> jwrite shw w = jwrite shw v"
  then have "json_parse num (a @ jwrite shw v @ b) = Inr w"
    using json_parse_padded [of num shw w a b] assms(2,3) by simp
  with json_parse_padded [OF assms] show "w = v" by simp
qed

definition json_sample :: "nat json" where
  "json_sample = JObj [(''id'', JNum 7), (''log'', JArr [JNull, JBool True, JStr [NL, DQ, CHR 0x01, BSL]])]"

definition seven :: "string \<Rightarrow> nat option" where
  "seven t = (if t = ''7'' then Some 7 else None)"

theorem json_reads_back_witness:
  "json_parse seven ([NL] @ jwrite show_nat json_sample @ '' '') = Inr json_sample"
proof -
  have seven: "show_nat 7 = ''7''" by code_simp
  have token: "jnumber_token (CHR ''7'' # r) = Some (''7'', r)" if stop: "stops r" for r
  proof -
    have digit: "ascii_digit (CHR ''7'')" by (simp add: ascii_digit_def between_def byte_def)
    show ?thesis
    proof (cases r)
      case Nil
      with digit show ?thesis
        by (simp add: jnumber_token_def jsign_def jdigits_def jfraction_def jexponent_def Let_def)
    next
      case (Cons c t)
      have "c \<in> {CHR '','', CHR '']'', CHR 0x7D, CHR '' '', TAB, NL, CR}" using stop Cons by (simp add: stops_def)
      then have "\<not> ascii_digit c" "c \<noteq> CHR ''.''" "c \<noteq> CHR ''e''" "c \<noteq> CHR ''E''"
        by (elim insertE; simp add: ascii_digit_def between_def byte_def)+
      with Cons digit show ?thesis
        by (simp add: jnumber_token_def jsign_def jdigits_def jfraction_def jexponent_def Let_def)
    qed
  qed
  have "num_ok seven show_nat 7"
    unfolding num_ok_def seven using token by (simp add: seven_def ascii_digit_def between_def byte_def)
  then have "json_ok seven show_nat 0 json_sample"
    by (simp add: json_sample_def json_max_depth_def utf8_ascii byte_def)
  then show ?thesis using json_reads_back [of seven show_nat json_sample "[NL]" "'' ''"] by (simp add: json_blank_def)
qed

end
