(* ===== verification/Sha256.thy ===== *)
theory Sha256
  imports StepLog
begin

unbundle bit_operations_syntax

text \<open>
  SHA-256, HMAC-SHA-256 and the comparison of signatures (\<open>deploy-git/src/sha256.rs\<close>) on byte strings.
\<close>

section \<open>SHA-256\<close>

text \<open>The table \<open>K\<close>, a list for each of its rows.\<close>

definition sha_k :: "u32 list" where
  "sha_k = concat
    [[0x428a2f98, 0x71374491, 0xb5c0fbcf, 0xe9b5dba5, 0x3956c25b, 0x59f111f1, 0x923f82a4, 0xab1c5ed5, 0xd807aa98],
     [0x12835b01, 0x243185be, 0x550c7dc3, 0x72be5d74, 0x80deb1fe, 0x9bdc06a7, 0xc19bf174, 0xe49b69c1, 0xefbe4786],
     [0x0fc19dc6, 0x240ca1cc, 0x2de92c6f, 0x4a7484aa, 0x5cb0a9dc, 0x76f988da, 0x983e5152, 0xa831c66d, 0xb00327c8],
     [0xbf597fc7, 0xc6e00bf3, 0xd5a79147, 0x06ca6351, 0x14292967, 0x27b70a85, 0x2e1b2138, 0x4d2c6dfc, 0x53380d13],
     [0x650a7354, 0x766a0abb, 0x81c2c92e, 0x92722c85, 0xa2bfe8a1, 0xa81a664b, 0xc24b8b70, 0xc76c51a3, 0xd192e819],
     [0xd6990624, 0xf40e3585, 0x106aa070, 0x19a4c116, 0x1e376c08, 0x2748774c, 0x34b0bcb5, 0x391c0cb3, 0x4ed8aa4a],
     [0x5b9cca4f, 0x682e6ff3, 0x748f82ee, 0x78a5636f, 0x84c87814, 0x8cc70208, 0x90befffa, 0xa4506ceb, 0xbef9a3f7],
     [0xc67178f2]]"

definition sha_start :: "u32 list" where
  "sha_start = [0x6a09e667, 0xbb67ae85, 0x3c6ef372, 0xa54ff53a, 0x510e527f, 0x9b05688c, 0x1f83d9ab, 0x5be0cd19]"

text \<open>Big-endian bytes of a word, and back.\<close>

fun be_bytes :: "nat \<Rightarrow> nat \<Rightarrow> string" where
  "be_bytes 0 n = []"
| "be_bytes (Suc k) n = char_of (n div 256 ^ k mod 256) # be_bytes k n"

definition be_word :: "string \<Rightarrow> u32" where
  "be_word bs = foldl (\<lambda>w c. w * 256 + of_nat (byte c)) 0 bs"

text \<open>The loop that fills up to 56 bytes modulo 64.\<close>

definition zeros_left :: "nat \<Rightarrow> nat" where
  "zeros_left r = (if r \<le> 56 then 56 - r else 120 - r)"

lemma zeros_left_Suc: "r < 64 \<Longrightarrow> r \<noteq> 56 \<Longrightarrow> zeros_left (if r = 63 then 0 else Suc r) < zeros_left r"
  by (auto simp: zeros_left_def)

lemma zeros_left_next: "n mod 64 \<noteq> 56 \<Longrightarrow> zeros_left (Suc n mod 64) < zeros_left (n mod 64)"
  unfolding mod_Suc using zeros_left_Suc [of "n mod 64"] by (simp split: if_splits)

function pad_zeros :: "string \<Rightarrow> string" where
  "pad_zeros m = (if length m mod 64 \<noteq> 56 then pad_zeros (m @ [CHR 0x00]) else m)"
  by pat_completeness auto

termination
  by (relation "measure (\<lambda>m. zeros_left (length m mod 64))") (simp_all del: One_nat_def add: zeros_left_next)

declare pad_zeros.simps [simp del]

text \<open>\<open>slice::chunks\<close>.\<close>

function chunks :: "nat \<Rightarrow> 'a list \<Rightarrow> 'a list list" where
  "chunks n xs = (if xs = [] \<or> n = 0 then [] else take n xs # chunks n (drop n xs))"
  by pat_completeness auto

termination
  by (relation "measure (\<lambda>(n, xs). length xs)") auto

declare chunks.simps [simp del]

definition padded :: "string \<Rightarrow> string" where
  "padded dat =
     pad_zeros (dat @ [CHR 0x80]) @ be_bytes 8 (unat ((of_nat (length dat) :: u64) * 8))"

text \<open>The message schedule of a block: the first 16 words are read, the others computed in order.\<close>

definition schedule_word :: "u32 list \<Rightarrow> nat \<Rightarrow> u32" where
  "schedule_word w i =
     (let a = w ! (i - 15); b = w ! (i - 2);
          s0 = word_rotr 7 a XOR word_rotr 18 a XOR drop_bit 3 a;
          s1 = word_rotr 17 b XOR word_rotr 19 b XOR drop_bit 10 b
      in w ! (i - 16) + s0 + w ! (i - 7) + s1)"

definition schedule :: "string \<Rightarrow> u32 list" where
  "schedule block = foldl (\<lambda>w i. w @ [schedule_word w i]) (map be_word (chunks 4 block)) [16..<64]"

definition sha_round :: "u32 list \<Rightarrow> u32 list \<Rightarrow> nat \<Rightarrow> u32 list" where
  "sha_round w v i =
     (let s1 = word_rotr 6 (v ! 4) XOR word_rotr 11 (v ! 4) XOR word_rotr 25 (v ! 4);
          ch = (v ! 4 AND v ! 5) XOR (NOT (v ! 4) AND v ! 6);
          t1 = v ! 7 + s1 + ch + sha_k ! i + w ! i;
          s0 = word_rotr 2 (v ! 0) XOR word_rotr 13 (v ! 0) XOR word_rotr 22 (v ! 0);
          maj = (v ! 0 AND v ! 1) XOR (v ! 0 AND v ! 2) XOR (v ! 1 AND v ! 2);
          t2 = s0 + maj
      in [t1 + t2, v ! 0, v ! 1, v ! 2, v ! 3 + t1, v ! 4, v ! 5, v ! 6])"

definition sha_block :: "u32 list \<Rightarrow> string \<Rightarrow> u32 list" where
  "sha_block h block = map2 (+) h (foldl (sha_round (schedule block)) h [0..<64])"

definition sha256 :: "string \<Rightarrow> string" where
  "sha256 dat = concat (map (\<lambda>x. be_bytes 4 (unat x)) (foldl sha_block sha_start (chunks 64 (padded dat))))"

section \<open>HMAC and comparison\<close>

definition xor_byte :: "nat \<Rightarrow> char \<Rightarrow> char" where
  "xor_byte k c = char_of (byte c XOR k)"

definition hmac_key :: "string \<Rightarrow> string" where
  "hmac_key key =
     (let k = (if 64 < length key then sha256 key else key) in k @ replicate (64 - length k) (CHR 0x00))"

definition hmac_sha256 :: "string \<Rightarrow> string \<Rightarrow> string" where
  "hmac_sha256 key dat =
     (let k = hmac_key key;
          ih = sha256 (map (xor_byte 0x36) k @ dat)
      in sha256 (map (xor_byte 0x5c) k @ ih))"

definition to_hex :: "string \<Rightarrow> string" where
  "to_hex bs = concat (map (\<lambda>c. show_hex 2 (byte c)) bs)"

fun from_hex_pairs :: "string \<Rightarrow> string option" where
  "from_hex_pairs [] = Some []"
| "from_hex_pairs [a] = None"
| "from_hex_pairs (a # b # s) =
     (case parse_hex 8 [a, b] of
        None \<Rightarrow> None | Some v \<Rightarrow> map_option ((#) (char_of v)) (from_hex_pairs s))"

definition from_hex :: "string \<Rightarrow> string option" where
  "from_hex s = (if length s mod 2 \<noteq> 0 then None else from_hex_pairs s)"

definition char_word :: "char \<Rightarrow> u8" where
  "char_word c = of_nat (byte c)"

definition constant_time_eq :: "string \<Rightarrow> string \<Rightarrow> bool" where
  "constant_time_eq a b =
     (if length a \<noteq> length b then False
      else fold (\<lambda>(x, y) acc. acc OR (char_word x XOR char_word y)) (zip a b) 0 = 0)"

section \<open>Lemmas\<close>

lemma length_be_bytes [simp]: "length (be_bytes k n) = k"
  by (induction k) simp_all

lemma length_chunks: "0 < n \<Longrightarrow> length xs mod n = 0 \<Longrightarrow> \<forall>c \<in> set (chunks n xs). length c = n"
proof (induction n xs rule: chunks.induct)
  case (1 n xs)
  show ?case
  proof (cases "xs = []")
    case True
    then show ?thesis by (simp add: chunks.simps)
  next
    case False
    have "n \<le> length xs"
    proof (rule ccontr)
      assume "\<not> n \<le> length xs"
      then have "length xs mod n = length xs" by simp
      with 1(3) False show False by simp
    qed
    then have "length (take n xs) = n" by simp
    have "(length xs - n) mod n = 0" using \<open>n \<le> length xs\<close> 1(3) le_mod_geq by metis
    then have "length (drop n xs) mod n = 0" by (simp only: length_drop)
    with 1(1) [OF _ 1(2)] False 1(2) have "\<forall>c \<in> set (chunks n (drop n xs)). length c = n" by blast
    moreover have "chunks n xs = take n xs # chunks n (drop n xs)" using False 1(2) by (subst chunks.simps) simp
    ultimately show ?thesis using \<open>length (take n xs) = n\<close> by simp
  qed
qed

lemma length_pad_zeros: "length (pad_zeros m) mod 64 = 56"
  by (induction m rule: pad_zeros.induct) (subst pad_zeros.simps, simp)

lemma length_padded: "length (padded dat) mod 64 = 0"
  using length_pad_zeros [of "dat @ [CHR 0x80]"] by (simp add: padded_def) presburger

lemma length_sha_round: "length (sha_round w v i) = 8"
  by (simp add: sha_round_def Let_def)

lemma length_rounds: "length v = 8 \<Longrightarrow> length (foldl (sha_round w) v is) = 8"
  by (induction "is" arbitrary: v) (simp_all add: length_sha_round)

lemma length_sha_block: "length h = 8 \<Longrightarrow> length (sha_block h b) = 8"
  by (simp add: sha_block_def length_rounds)

lemma length_sha256: "length (sha256 dat) = 32"
proof -
  have "length h = 8 \<Longrightarrow> length (foldl sha_block h bs) = 8" for h bs
    by (induction bs arbitrary: h) (simp_all add: length_sha_block)
  then have "length (foldl sha_block sha_start (chunks 64 (padded dat))) = 8" by (simp add: sha_start_def)
  moreover have "length (concat (map (\<lambda>x. be_bytes 4 (unat x)) ws)) = 4 * length ws" for ws :: "u32 list"
    by (induction ws) simp_all
  ultimately show ?thesis by (simp add: sha256_def)
qed

lemma length_hmac: "length (hmac_sha256 key dat) = 32"
  by (simp add: hmac_sha256_def Let_def length_sha256)

lemma char_word_inj: "char_word x = char_word y \<longleftrightarrow> x = y"
proof
  assume "char_word x = char_word y"
  moreover have "byte c < 2 ^ LENGTH(8)" for c
    by (simp add: byte_def)
  ultimately have "byte x = byte y" unfolding char_word_def by (metis unat_of_nat_small)
  then show "x = y" by (simp add: byte_def)
qed simp

lemma or_zero_iff: "a OR b = 0 \<longleftrightarrow> a = 0 \<and> b = 0" for a b :: u8
  by (auto simp: bit_eq_iff bit_simps)

lemma xor_zero_iff: "a XOR b = 0 \<longleftrightarrow> a = b" for a b :: u8
  by (auto simp: bit_eq_iff bit_simps)

lemma constant_time_eq_iff: "constant_time_eq a b \<longleftrightarrow> a = b"
proof -
  have "fold (\<lambda>(x, y) acc. acc OR (char_word x XOR char_word y)) (zip a b) n = 0 \<longleftrightarrow> n = 0 \<and> a = b"
    if "length a = length b" for n
    using that by (induction a b arbitrary: n rule: list_induct2) (auto simp: or_zero_iff xor_zero_iff char_word_inj)
  then show ?thesis by (auto simp: constant_time_eq_def)
qed

lemma to_hex_Cons: "to_hex (c # s) = show_hex 2 (byte c) @ to_hex s"
  by (simp add: to_hex_def)

end
