(* ===== verification/Webhook.thy ===== *)
theory Webhook
  imports Json Sha256 GitState ControlOps
begin

text \<open>
  The webhook listener (\<open>deploy-git/src/webhook.rs\<close>): reading a bounded request from a connection,
  verifying its signature or token before its body is looked at, normalising a push, and what
  \<open>accept_webhook\<close> of the command line does with it: queue it as a control event. A connection is the
  list of what its reads return, each with whether the deadline had passed before the read; when the list
  ends the peer has closed. The number reading of the JSON reader is a parameter. Byte positions of JSON
  errors are left out of the texts.
\<close>

definition hook_max_head :: nat where "hook_max_head = 16384"
definition hook_max_body :: nat where "hook_max_body = 262144"

datatype provider = GitHub | GitLab

record push_event =
  pe_provider :: provider
  pe_repository :: string
  pe_ref_name :: string
  pe_revision :: string
  pe_delivery :: string

definition push_source :: "push_event \<Rightarrow> string" where
  "push_source e = (case pe_provider e of GitHub \<Rightarrow> ''github'' | GitLab \<Rightarrow> ''gitlab'')"

definition push_branch :: "push_event \<Rightarrow> string option" where
  "push_branch e = strip_prefix ''refs/heads/'' (pe_ref_name e)"

datatype hook_reject = TooLarge | BadSignature | Malformed string | HookNotFound | MethodNotAllowed | HookTimeout

definition reject_status :: "hook_reject \<Rightarrow> nat" where
  "reject_status r =
     (case r of TooLarge \<Rightarrow> 413 | BadSignature \<Rightarrow> 401 | Malformed _ \<Rightarrow> 400 | HookNotFound \<Rightarrow> 404
      | MethodNotAllowed \<Rightarrow> 405 | HookTimeout \<Rightarrow> 408)"

type_synonym headers = "(string \<times> string) list"

definition header_get :: "string \<Rightarrow> headers \<Rightarrow> string option" where
  "header_get name h = map_option snd (List.find (\<lambda>(k, _). map to_lower k = map to_lower name) h)"

definition hook_delivery_ok :: "string \<Rightarrow> bool" where
  "hook_delivery_ok v \<longleftrightarrow> v \<noteq> [] \<and> length v \<le> 128 \<and>
     list_all (\<lambda>c. ascii_alphabetic c \<or> ascii_digit c \<or> c \<in> set ''._-:'') v"

definition all_zeros :: "string \<Rightarrow> bool" where
  "all_zeros v \<longleftrightarrow> list_all (\<lambda>b. b = CHR ''0'') v"

section \<open>Verification\<close>

definition hook_body :: "(string \<Rightarrow> 'n option) \<Rightarrow> string \<Rightarrow> hook_reject + 'n json" where
  "hook_body num body =
     (if \<not> utf8_valid body then Inl (Malformed ''the body is not UTF-8'')
      else case json_parse num body of
          Inl e \<Rightarrow> Inl (Malformed (''the body is not JSON: '' @ e)) | Inr j \<Rightarrow> Inr j)"

text \<open>\<open>j.get(k).and_then(Json::as_str)\<close>, and the repository URL under its first or second key.\<close>

definition jget_str :: "string \<Rightarrow> 'n json \<Rightarrow> string option" where
  "jget_str k j = Option.bind (jget k j) jas_str"

definition jget_url :: "string \<Rightarrow> string \<Rightarrow> string \<Rightarrow> 'n json \<Rightarrow> string" where
  "jget_url k a b j =
     (case Option.bind (Option.bind (jget k j) (\<lambda>r. case jget a r of Some v \<Rightarrow> Some v | None \<Rightarrow> jget b r)) jas_str of
        Some u \<Rightarrow> u | None \<Rightarrow> [])"

definition github_push :: "'n json \<Rightarrow> string \<Rightarrow> hook_reject + push_event option" where
  "github_push j delivery =
     (if Option.bind (jget ''deleted'' j) jas_bool = Some True then Inr None
      else case jget_str ''after'' j of
          None \<Rightarrow> Inl (Malformed (''no '' @ quoted ''after'' @ '' commit''))
        | Some after \<Rightarrow>
            if \<not> is_commit after then Inl (Malformed (quoted ''after'' @ '' is not a commit id''))
            else if all_zeros after then Inr None
            else case jget_str ''ref'' j of
                None \<Rightarrow> Inl (Malformed (''no '' @ quoted ''ref''))
              | Some r \<Rightarrow>
                  Inr (Some \<lparr>pe_provider = GitHub, pe_repository = jget_url ''repository'' ''clone_url'' ''html_url'' j,
                    pe_ref_name = r, pe_revision = after, pe_delivery = delivery\<rparr>))"

definition verify_github ::
  "(string \<Rightarrow> 'n option) \<Rightarrow> string \<Rightarrow> headers \<Rightarrow> string \<Rightarrow> hook_reject + push_event option" where
  "verify_github num secret h body =
     (case Option.bind (header_get ''X-Hub-Signature-256'' h) (\<lambda>s. Option.bind (strip_prefix ''sha256='' s) from_hex) of
        None \<Rightarrow> Inl BadSignature
      | Some want \<Rightarrow>
          if \<not> constant_time_eq (hmac_sha256 secret body) want then Inl BadSignature
          else case header_get ''X-GitHub-Event'' h of
              None \<Rightarrow> Inl (Malformed ''no X-GitHub-Event header'')
            | Some ev \<Rightarrow>
                if ev \<noteq> ''push'' then Inr None
                else case header_get ''X-GitHub-Delivery'' h of
                    None \<Rightarrow> Inl (Malformed ''no usable X-GitHub-Delivery header'')
                  | Some delivery \<Rightarrow>
                      if \<not> hook_delivery_ok delivery then Inl (Malformed ''no usable X-GitHub-Delivery header'')
                      else bind_res (hook_body num body) (\<lambda>j. github_push j delivery))"

definition gitlab_commit :: "'n json \<Rightarrow> string option" where
  "gitlab_commit j =
     (case jget_str ''checkout_sha'' j of
        Some s \<Rightarrow> if s \<noteq> [] then Some s else jget_str ''after'' j
      | None \<Rightarrow> jget_str ''after'' j)"

definition gitlab_push :: "'n json \<Rightarrow> headers \<Rightarrow> hook_reject + push_event option" where
  "gitlab_push j h =
     (case gitlab_commit j of
        None \<Rightarrow> Inl (Malformed ''no commit in the push'')
      | Some after \<Rightarrow>
          if \<not> is_commit after then Inl (Malformed ''the pushed revision is not a commit id'')
          else if all_zeros after then Inr None
          else case jget_str ''ref'' j of
              None \<Rightarrow> Inl (Malformed (''no '' @ quoted ''ref''))
            | Some r \<Rightarrow>
                bind_res
                  (case header_get ''X-Gitlab-Event-UUID'' h of
                     Some u \<Rightarrow>
                       if hook_delivery_ok u then Inr u
                       else Inl (Malformed ''X-Gitlab-Event-UUID is not usable'')
                   | None \<Rightarrow> Inr (''gitlab:'' @ after))
                  (\<lambda>delivery.
                     Inr (Some \<lparr>pe_provider = GitLab, pe_repository = jget_url ''project'' ''git_http_url'' ''web_url'' j,
                       pe_ref_name = r, pe_revision = after, pe_delivery = delivery\<rparr>)))"

definition verify_gitlab ::
  "(string \<Rightarrow> 'n option) \<Rightarrow> string \<Rightarrow> headers \<Rightarrow> string \<Rightarrow> hook_reject + push_event option" where
  "verify_gitlab num token h body =
     (case header_get ''X-Gitlab-Token'' h of
        None \<Rightarrow> Inl BadSignature
      | Some got \<Rightarrow>
          if \<not> constant_time_eq got token then Inl BadSignature
          else case header_get ''X-Gitlab-Event'' h of
              None \<Rightarrow> Inl (Malformed ''no X-Gitlab-Event header'')
            | Some ev \<Rightarrow>
                if ev \<noteq> ''Push Hook'' then Inr None
                else bind_res (hook_body num body) (\<lambda>j. gitlab_push j h))"

section \<open>Requests\<close>

record request =
  rq_method :: string
  rq_path :: string
  rq_headers :: headers
  rq_body :: string

datatype net_read = NetBytes string | NetSlow | NetError string

type_synonym connection = "(bool \<times> net_read) list"

fun head_end :: "string \<Rightarrow> nat option" where
  "head_end [] = None"
| "head_end (c # s) = (if starts_with (c # s) [CR, NL, CR, NL] then Some 0 else map_option Suc (head_end s))"

definition hook_closed :: hook_reject where
  "hook_closed = Malformed ''the connection closed before the request was complete''"

fun read_head :: "string \<Rightarrow> connection \<Rightarrow> hook_reject + nat \<times> string \<times> connection" where
  "read_head buf [] =
     (case head_end buf of
        Some i \<Rightarrow> Inr (i, buf, [])
      | None \<Rightarrow> if hook_max_head < length buf then Inl TooLarge else Inl hook_closed)"
| "read_head buf ((late, r) # rest) =
     (case head_end buf of
        Some i \<Rightarrow> Inr (i, buf, (late, r) # rest)
      | None \<Rightarrow>
          if hook_max_head < length buf then Inl TooLarge
          else if late then Inl HookTimeout
          else case r of
              NetBytes b \<Rightarrow> if b = [] then Inl hook_closed else read_head (buf @ b) rest
            | NetSlow \<Rightarrow> Inl HookTimeout
            | NetError e \<Rightarrow> Inl (Malformed (''read error: '' @ e)))"

definition short_body :: hook_reject where
  "short_body = Malformed ''the body is shorter than Content-Length''"

fun read_body :: "nat \<Rightarrow> string \<Rightarrow> connection \<Rightarrow> hook_reject + string" where
  "read_body len body [] = (if length body < len then Inl short_body else Inr body)"
| "read_body len body ((late, r) # rest) =
     (if \<not> length body < len then Inr body
      else if late then Inl HookTimeout
      else case r of
          NetBytes b \<Rightarrow>
            if b = [] then Inl short_body
            else read_body len (body @ take (min (length b) (len - length body)) b) rest
        | NetSlow \<Rightarrow> Inl HookTimeout
        | NetError e \<Rightarrow> Inl (Malformed (''read error: '' @ e)))"

text \<open>\<open>str::split("\r\n")\<close> and \<open>str::trim\<close>.\<close>

fun split_crlf :: "string \<Rightarrow> string list" where
  "split_crlf [] = [[]]"
| "split_crlf [c] = [[c]]"
| "split_crlf (c # d # s) =
     (if c = CR \<and> d = NL then [] # split_crlf s
      else case split_crlf (d # s) of [] \<Rightarrow> [[c]] | f # fs \<Rightarrow> (c # f) # fs)"

definition trim_text :: "string \<Rightarrow> string" where
  "trim_text s = concat (rev (dropWhile is_whitespace (rev (dropWhile is_whitespace (chars_of s)))))"

fun read_header_lines :: "string list \<Rightarrow> hook_reject + headers" where
  "read_header_lines [] = Inr []"
| "read_header_lines (l # ls) =
     (case split_once (CHR '':'') l of
        None \<Rightarrow> Inl (Malformed ''a malformed header'')
      | Some (k, v) \<Rightarrow> bind_res (read_header_lines ls) (\<lambda>h. Inr ((trim_text k, trim_text v) # h)))"

definition nth_part :: "nat \<Rightarrow> string list \<Rightarrow> string" where
  "nth_part k xs = (if k < length xs then xs ! k else [])"

definition content_length :: "headers \<Rightarrow> hook_reject + nat" where
  "content_length h =
     (case header_get ''Content-Length'' h of
        None \<Rightarrow> Inr 0
      | Some v \<Rightarrow>
          (case parse_word v of
             None \<Rightarrow> Inl (Malformed ''a bad Content-Length'') | Some n \<Rightarrow> Inr (unat (n :: u64))))"

definition read_request :: "connection \<Rightarrow> hook_reject + request" where
  "read_request conn =
     bind_res (read_head [] conn) (\<lambda>(i, buf, rest).
     if hook_max_head < i then Inl TooLarge
     else if \<not> utf8_valid (take i buf) then Inl (Malformed ''the headers are not text'')
     else
       (let ls = split_crlf (take i buf);
            f = split_on (CHR '' '') (hd ls)
        in if nth_part 0 f = [] \<or> \<not> starts_with (nth_part 1 f) ''/'' \<or> \<not> starts_with (nth_part 2 f) ''HTTP/1.''
           then Inl (Malformed ''not an HTTP/1.x request'')
           else bind_res (read_header_lines (tl ls)) (\<lambda>h.
             if header_get ''Transfer-Encoding'' h \<noteq> None
             then Inl (Malformed ''chunked bodies are not accepted'')
             else bind_res (content_length h) (\<lambda>len.
               if hook_max_body < len then Inl TooLarge
               else bind_res (read_body len (take len (drop (i + 4) buf)) rest) (\<lambda>body.
                 Inr \<lparr>rq_method = nth_part 0 f, rq_path = nth_part 1 f, rq_headers = h, rq_body = body\<rparr>)))))"

section \<open>Routing\<close>

type_synonym hook_routes = "string \<rightharpoonup> provider \<times> string"

definition routes_new :: hook_routes where "routes_new = Map.empty"

definition route_add :: "string \<Rightarrow> provider \<Rightarrow> string \<Rightarrow> hook_routes \<Rightarrow> hook_routes" where
  "route_add repo p secret m = m(repo \<mapsto> (p, secret))"

record inbound =
  ib_repo :: string
  ib_event :: push_event

text \<open>The three segments of a webhook path.\<close>

definition hook_path :: "string \<Rightarrow> (string \<times> string) option" where
  "hook_path p =
     (case split_on (CHR ''/'') (dropWhile (\<lambda>c. c = CHR ''/'') (takeWhile (\<lambda>c. c \<noteq> CHR ''?'') p)) of
        [w, prov, repo] \<Rightarrow> if w = ''webhook'' then Some (prov, repo) else None
      | _ \<Rightarrow> None)"

definition hook_handle ::
  "(string \<Rightarrow> 'n option) \<Rightarrow> hook_routes \<Rightarrow> request \<Rightarrow> hook_reject + inbound option" where
  "hook_handle num routes rq =
     (if rq_method rq \<noteq> ''POST'' then Inl MethodNotAllowed
      else case hook_path (rq_path rq) of
          None \<Rightarrow> Inl HookNotFound
        | Some (prov, repo) \<Rightarrow>
            (case routes repo of
               None \<Rightarrow> Inl HookNotFound
             | Some (kind, secret) \<Rightarrow>
                 bind_res
                   (if prov = ''github'' \<and> kind = GitHub then verify_github num secret (rq_headers rq) (rq_body rq)
                    else if prov = ''gitlab'' \<and> kind = GitLab
                    then verify_gitlab num secret (rq_headers rq) (rq_body rq)
                    else Inl HookNotFound)
                   (\<lambda>ev. Inr (map_option (\<lambda>e. \<lparr>ib_repo = repo, ib_event = e\<rparr>) ev))))"

definition hook_reason :: "nat \<Rightarrow> string" where
  "hook_reason status =
     (if status = 202 then ''Accepted'' else if status = 400 then ''Bad Request''
      else if status = 401 then ''Unauthorized'' else if status = 404 then ''Not Found''
      else if status = 405 then ''Method Not Allowed'' else if status = 408 then ''Request Timeout''
      else if status = 413 then ''Payload Too Large'' else ''Error'')"

definition hook_respond :: "nat \<Rightarrow> string \<Rightarrow> string" where
  "hook_respond status txt =
     ''HTTP/1.1 '' @ show_nat status @ '' '' @ hook_reason status @ [CR, NL] @ ''Content-Type: text/plain'' @ [CR, NL] @
     ''Content-Length: '' @ show_nat (length txt) @ [CR, NL] @ ''Connection: close'' @ [CR, NL, CR, NL] @ txt"

text \<open>
  One accepted connection of \<open>serve\<close>, with whether its peer is on the loopback: what is sent to the queue
  and what is written back.
\<close>

definition serve_connection ::
  "(string \<Rightarrow> 'n option) \<Rightarrow> hook_routes \<Rightarrow> bool \<times> connection \<Rightarrow> inbound list \<times> string" where
  "serve_connection num routes peer =
     (if \<not> fst peer then ([], [])
      else case bind_res (read_request (snd peer)) (hook_handle num routes) of
          Inr (Some i) \<Rightarrow> ([i], hook_respond 202 (''accepted'' @ [NL]))
        | Inr None \<Rightarrow> ([], hook_respond 202 (''ignored'' @ [NL]))
        | Inl r \<Rightarrow> ([], hook_respond (reject_status r) (''refused'' @ [NL])))"

definition serve :: "(string \<Rightarrow> 'n option) \<Rightarrow> hook_routes \<Rightarrow> (bool \<times> connection) list \<Rightarrow> inbound list" where
  "serve num routes peers = concat (map (\<lambda>p. fst (serve_connection num routes p)) peers)"

section \<open>Into the queue\<close>

datatype webhook_outcome =
    UnknownRepository | NotABranch | BranchNotWanted | WebhookQueued | WebhookDuplicate | WebhookRefused control_error

definition incoming_of_push :: "repo_rec \<Rightarrow> push_event \<Rightarrow> u64 \<Rightarrow> incoming" where
  "incoming_of_push r e now =
     \<lparr>in_app = repo_app r, in_delivery = pe_delivery e, in_source = push_source e, in_revision = pe_revision e,
      in_received_ms = now\<rparr>"

definition accept_webhook ::
  "'j writer \<Rightarrow> git_state \<Rightarrow> u64 \<Rightarrow> inbound \<Rightarrow> control_state \<Rightarrow> 'j \<Rightarrow> webhook_outcome \<times> control_state \<times> 'j" where
  "accept_webhook wr git now inb ctl j =
     (case bt_get (git_repos git) (ib_repo inb) of
        None \<Rightarrow> (UnknownRepository, ctl, j)
      | Some r \<Rightarrow>
          (case push_branch (ib_event inb) of
             None \<Rightarrow> (NotABranch, ctl, j)
           | Some branch \<Rightarrow>
               if \<not> wants_branch r branch then (BranchNotWanted, ctl, j)
               else case queue_event wr (incoming_of_push r (ib_event inb) now) ctl j of
                   (Inr NowHeld, ctl', j') \<Rightarrow> (WebhookQueued, ctl', j')
                 | (Inr _, ctl', j') \<Rightarrow> (WebhookDuplicate, ctl', j')
                 | (Inl e, ctl', j') \<Rightarrow> (WebhookRefused e, ctl', j')))"

end
