(* ===== verification/WebhookReads.thy ===== *)
theory WebhookReads
  imports Webhook
begin

text \<open>
  How a request reads does not depend on how the network cut it.
\<close>

section \<open>A request in pieces\<close>

abbreviation blank_line :: string where "blank_line \<equiv> [CR, NL, CR, NL]"

lemma blank_at_iff: "starts_with (drop k s) blank_line \<longleftrightarrow> k + 4 \<le> length s \<and> take 4 (drop k s) = blank_line"
proof -
  have "length blank_line = 4" by simp
  then have "starts_with (drop k s) blank_line \<longleftrightarrow> take 4 (drop k s) = blank_line"
    unfolding starts_with_def by (simp only:)
  moreover have "take 4 (drop k s) = blank_line \<Longrightarrow> k + 4 \<le> length s"
    by (drule arg_cong [where f = length]) simp
  ultimately show ?thesis by blast
qed

lemma head_end_Some:
  "head_end s = Some i \<longleftrightarrow> starts_with (drop i s) blank_line \<and> (\<forall>k < i. \<not> starts_with (drop k s) blank_line)"
proof (induction s arbitrary: i)
  case (Cons c s)
  then show ?case by (cases i) (auto simp: less_Suc_eq_0_disj)
qed (simp add: starts_with_def)

lemma head_end_None: "head_end s = None \<longleftrightarrow> (\<forall>k. \<not> starts_with (drop k s) blank_line)"
proof
  show "head_end s = None \<Longrightarrow> \<forall>k. \<not> starts_with (drop k s) blank_line"
  proof (induction s)
    case (Cons c s)
    show ?case
    proof
      fix k
      show "\<not> starts_with (drop k (c # s)) blank_line" using Cons by (cases k) (auto split: if_splits)
    qed
  qed (simp add: starts_with_def)
qed (metis head_end_Some option.exhaust)

lemma head_end_prefix:
  assumes "head_end (buf @ rest) = Some i"
  shows "head_end buf = (if i + 4 \<le> length buf then Some i else None)"
proof -
  have app: "starts_with (drop k buf) blank_line \<longleftrightarrow> k + 4 \<le> length buf \<and> starts_with (drop k (buf @ rest)) blank_line" for k
  proof -
    have "k + 4 \<le> length buf \<Longrightarrow> take 4 (drop k (buf @ rest)) = take 4 (drop k buf)" by simp
    then show ?thesis unfolding blank_at_iff length_append by fastforce
  qed
  have full: "starts_with (drop i (buf @ rest)) blank_line" "\<And>k. k < i \<Longrightarrow> \<not> starts_with (drop k (buf @ rest)) blank_line"
    using assms unfolding head_end_Some by blast+
  show ?thesis
  proof (cases "i + 4 \<le> length buf")
    case True
    then show ?thesis using full app [of i] app by (simp add: head_end_Some)
  next
    case False
    have "\<not> starts_with (drop k buf) blank_line" for k
      using app [of k] full(2) [of k] False by (cases "k < i") auto
    then have "head_end buf = None" by (simp add: head_end_None)
    with False show ?thesis by simp
  qed
qed

definition arriving :: "string list \<Rightarrow> connection" where
  "arriving bs = map (\<lambda>b. (False, NetBytes b)) bs"

lemma read_head_arriving:
  assumes "head_end (buf @ concat bs) = Some i" and "i + 3 \<le> hook_max_head" and "[] \<notin> set bs"
  shows "\<exists>buf' bs'. read_head buf (arriving bs) = Inr (i, buf', arriving bs') \<and> buf' @ concat bs' = buf @ concat bs \<and>
    i + 4 \<le> length buf' \<and> [] \<notin> set bs'"
  using assms
proof (induction bs arbitrary: buf)
  case Nil
  then show ?case using head_end_prefix [of buf "[]" i]
    by (intro exI [of _ buf] exI [of _ "[]"]) (simp add: arriving_def split: if_splits)
next
  case (Cons b bs)
  note before = head_end_prefix [OF Cons.prems(1)]
  show ?case
  proof (cases "i + 4 \<le> length buf")
    case True
    then show ?thesis using before Cons.prems(3)
      by (intro exI [of _ buf] exI [of _ "b # bs"]) (simp add: arriving_def)
  next
    case False
    have "b \<noteq> []" using Cons.prems(3) by auto
    then have "read_head buf (arriving (b # bs)) = read_head (buf @ b) (arriving bs)"
      using False before Cons.prems(2) by (simp add: arriving_def)
    with Cons.IH [of "buf @ b"] Cons.prems show ?thesis by simp
  qed
qed

lemma read_body_arriving:
  "[] \<notin> set bs \<Longrightarrow> length body \<le> len \<Longrightarrow>
   read_body len body (arriving bs) =
     (if length (body @ concat bs) < len then Inl short_body else Inr (take len (body @ concat bs)))"
proof (induction bs arbitrary: body)
  case (Cons b bs)
  let ?more = "take (min (length b) (len - length body)) b"
  show ?case
  proof (cases "length body < len")
    case True
    have "b \<noteq> []" using Cons.prems(1) by auto
    then have step: "read_body len body (arriving (b # bs)) = read_body len (body @ ?more) (arriving bs)"
      using True by (simp add: arriving_def)
    have "length (body @ ?more) \<le> len" using True by simp
    have "[] \<notin> set bs" using Cons.prems(1) by simp
    then have "read_body len (body @ ?more) (arriving bs) =
        (if length ((body @ ?more) @ concat bs) < len then Inl short_body else Inr (take len ((body @ ?more) @ concat bs)))"
      using \<open>length (body @ ?more) \<le> len\<close> by (rule Cons.IH)
    moreover have "take len ((body @ ?more) @ concat bs) = take len (body @ concat (b # bs))"
      by (auto simp: min_def)
    moreover have "length ((body @ ?more) @ concat bs) < len \<longleftrightarrow> length (body @ concat (b # bs)) < len"
      using True by (auto simp: min_def)
    ultimately show ?thesis using step by (simp only:)
  next
    case False
    with Cons.prems show ?thesis by (simp add: arriving_def)
  qed
qed (simp add: arriving_def)

text \<open>What the request says, once its head has an end, as a function of all the bytes.\<close>

definition request_of :: "nat \<Rightarrow> string \<Rightarrow> hook_reject + request" where
  "request_of i full =
     (if \<not> utf8_valid (take i full) then Inl (Malformed ''the headers are not text'')
      else
       (let ls = split_crlf (take i full);
            f = split_on (CHR '' '') (hd ls)
        in if nth_part 0 f = [] \<or> \<not> starts_with (nth_part 1 f) ''/'' \<or> \<not> starts_with (nth_part 2 f) ''HTTP/1.''
           then Inl (Malformed ''not an HTTP/1.x request'')
           else bind_res (read_header_lines (tl ls)) (\<lambda>h.
             if header_get ''Transfer-Encoding'' h \<noteq> None
             then Inl (Malformed ''chunked bodies are not accepted'')
             else bind_res (content_length h) (\<lambda>len.
               if hook_max_body < len then Inl TooLarge
               else if length (drop (i + 4) full) < len then Inl short_body
               else Inr \<lparr>rq_method = nth_part 0 f, rq_path = nth_part 1 f, rq_headers = h,
                 rq_body = take len (drop (i + 4) full)\<rparr>))))"

lemma request_arriving:
  assumes "head_end (concat bs) = Some i" "i + 3 \<le> hook_max_head" "[] \<notin> set bs"
  shows "read_request (arriving bs) = request_of i (concat bs)"
proof -
  obtain buf rest where head: "read_head [] (arriving bs) = Inr (i, buf, arriving rest)"
      and all: "concat bs = buf @ concat rest" and long: "i + 4 \<le> length buf" and ne: "[] \<notin> set rest"
    using read_head_arriving [of "[]" bs i] assms by force
  have head_part: "take i (concat bs) = take i buf" using all long by simp
  have drop_part: "drop (i + 4) (concat bs) = drop (i + 4) buf @ concat rest" using all long by simp
  have "\<not> hook_max_head < i" using assms(2) by simp
  have body: "bind_res (read_body len (take len (drop (i + 4) buf)) (arriving rest)) F =
      (if length (drop (i + 4) (concat bs)) < len then Inl short_body else F (take len (drop (i + 4) (concat bs))))" for len F
    using read_body_arriving [OF ne, of "take len (drop (i + 4) buf)" len]
    by (auto simp: drop_part min_def simp del: drop_drop)
  show ?thesis
    unfolding read_request_def request_of_def head bind_res.simps prod.case head_part Let_def
    using \<open>\<not> hook_max_head < i\<close> by (simp add: body cong: if_cong)
qed


text \<open>
  Claim C35. How the network cuts a request does not matter: when its head, with the blank line, ends
  within the limit and one byte short of it, every way to cut its bytes into reads without a pause gives
  the same answer.
\<close>

theorem request_independent_of_reads:
  assumes "head_end (concat bs) = Some i" and "i + 3 \<le> hook_max_head"
    and "concat cs = concat bs" and "[] \<notin> set bs" and "[] \<notin> set cs"
  shows "read_request (arriving bs) = read_request (arriving cs)"
  using request_arriving [of bs i] request_arriving [of cs i] assms by simp

definition sample_head :: string where
  "sample_head = ''POST /webhook/gitlab/shop HTTP/1.1'' @ [CR, NL] @ ''Content-Length: 2'' @ [CR, NL, CR]"

theorem request_independent_of_reads_witness:
  "head_end (sample_head @ NL # ''ok'') = Some 53 \<and>
   read_request (arriving [sample_head, [NL], ''o'', ''k'']) = read_request (arriving [sample_head @ NL # ''ok''])"
proof -
  have "head_end (sample_head @ NL # ''ok'') = Some 53" by code_simp
  moreover from this have "read_request (arriving [sample_head, [NL], ''o'', ''k'']) = read_request (arriving [sample_head @ NL # ''ok''])"
    by (intro request_independent_of_reads [where i = 53]) (simp_all add: hook_max_head_def sample_head_def)
  ultimately show ?thesis by blast
qed

end
