(* ===== verification/WebhookProps.thy ===== *)
theory WebhookProps
  imports WebhookReads ControlCodec GitGlob
begin

text \<open>
  What the webhook listener lets through: pushes for registered repositories whose body or sender is
  authenticated by the shared secret of the route, each of which the control queue accepts once.
\<close>

section \<open>Events that can be queued\<close>

definition push_ok :: "push_event \<Rightarrow> bool" where
  "push_ok e \<longleftrightarrow> hook_delivery_ok (pe_delivery e) \<and> is_commit (pe_revision e) \<and> \<not> all_zeros (pe_revision e)"

lemma token_char_mono: "token_char [] c \<Longrightarrow> token_char extra c"
  by (auto simp: token_char_def)

lemma commit_char: "ascii_digit c \<or> between 97 c 102 \<Longrightarrow> token_char [] c"
  by (auto simp: token_char_def ascii_alphabetic_def ascii_digit_def between_def)

lemma commit_token: "is_commit r \<Longrightarrow> token_ok extra r"
  unfolding is_commit_def token_ok_def max_token_def list_all_iff
  using commit_char token_char_mono by fastforce

lemma hook_delivery_token: "hook_delivery_ok d \<longleftrightarrow> token_ok '':'' d"
  by (auto simp: hook_delivery_ok_def token_ok_def max_token_def list_all_iff token_char_def)

lemma push_ok_queueable: "push_ok e \<Longrightarrow> check_incoming (incoming_of_push r e now) = Inr ()"
proof -
  assume "push_ok e"
  then have "delivery_ok (pe_delivery e)" "revision_ok (pe_revision e)"
    by (simp_all add: push_ok_def delivery_ok_def hook_delivery_token revision_ok_def commit_token)
  moreover have "source_ok (push_source e)"
    by (simp add: push_source_def source_ok_def token_ok_def max_token_def token_char_def ascii_alphabetic_def
        between_def byte_def split: provider.split)
  ultimately show ?thesis by (simp add: check_incoming_def incoming_of_push_def bind_res_Inr_iff)
qed

section \<open>Verification\<close>

definition github_signed :: "string \<Rightarrow> headers \<Rightarrow> string \<Rightarrow> bool" where
  "github_signed secret h body \<longleftrightarrow>
     (\<exists>sig. header_get ''X-Hub-Signature-256'' h = Some (''sha256='' @ sig) \<and> from_hex sig = Some (hmac_sha256 secret body))"

definition authentic :: "provider \<Rightarrow> string \<Rightarrow> request \<Rightarrow> bool" where
  "authentic p secret rq =
     (case p of
        GitHub \<Rightarrow> github_signed secret (rq_headers rq) (rq_body rq)
      | GitLab \<Rightarrow> header_get ''X-Gitlab-Token'' (rq_headers rq) = Some secret)"

lemma github_signed_case:
  "Option.bind (header_get ''X-Hub-Signature-256'' h) (\<lambda>s. Option.bind (strip_prefix ''sha256='' s) from_hex) = Some w \<longleftrightarrow>
   (\<exists>sig. header_get ''X-Hub-Signature-256'' h = Some (''sha256='' @ sig) \<and> from_hex sig = Some w)"
  by (auto simp: bind_eq_Some_conv strip_prefix_Some_iff)

lemma github_push_ok:
  "github_push j d = Inr (Some e) \<Longrightarrow> hook_delivery_ok d \<Longrightarrow> push_ok e \<and> pe_provider e = GitHub"
  by (auto simp: github_push_def push_ok_def split: if_splits option.splits)

lemma gitlab_delivery: "is_commit c \<Longrightarrow> hook_delivery_ok (''gitlab:'' @ c)"
  by (auto simp: is_commit_def hook_delivery_ok_def list_all_iff ascii_alphabetic_def between_def byte_def)

lemma gitlab_push_ok: "gitlab_push j h = Inr (Some e) \<Longrightarrow> push_ok e \<and> pe_provider e = GitLab"
  using gitlab_delivery
  by (auto simp: gitlab_push_def push_ok_def bind_res_Inr_iff split: if_splits option.splits)

lemma body_errors:
  "hook_body num body \<noteq> Inl BadSignature" "github_push j d \<noteq> Inl BadSignature" "gitlab_push j h \<noteq> Inl BadSignature"
  by (auto simp: hook_body_def github_push_def gitlab_push_def split: sum.splits option.splits)

lemma bind_res_Inl_iff: "bind_res m f = Inl e \<longleftrightarrow> m = Inl e \<or> (\<exists>x. m = Inr x \<and> f x = Inl e)"
  by (cases m) auto

lemma verify_github_signature: "verify_github num secret h body = Inl BadSignature \<longleftrightarrow> \<not> github_signed secret h body"
proof -
  let ?w = "Option.bind (header_get ''X-Hub-Signature-256'' h) (\<lambda>s. Option.bind (strip_prefix ''sha256='' s) from_hex)"
  have "github_signed secret h body \<longleftrightarrow> ?w = Some (hmac_sha256 secret body)"
    unfolding github_signed_case github_signed_def ..
  then show ?thesis
    by (auto simp: verify_github_def constant_time_eq_iff bind_res_Inl_iff body_errors split: option.splits)
qed

lemma verify_github_ok:
  fixes num :: "string \<Rightarrow> 'n option"
  assumes "verify_github num secret h body = Inr (Some e)"
  shows "github_signed secret h body \<and> push_ok e \<and> pe_provider e = GitHub"
proof -
  have "github_signed secret h body" using verify_github_signature [of num secret h body] assms by auto
  moreover obtain j :: "'n json" and d where "github_push j d = Inr (Some e)" "hook_delivery_ok d"
    using assms by (auto simp: verify_github_def bind_res_Inr_iff split: option.splits if_splits)
  ultimately show ?thesis using github_push_ok by blast
qed

lemma verify_gitlab_token:
  "verify_gitlab num token h body = Inl BadSignature \<longleftrightarrow> header_get ''X-Gitlab-Token'' h \<noteq> Some token"
  by (auto simp: verify_gitlab_def constant_time_eq_iff bind_res_Inl_iff body_errors split: option.splits)

lemma verify_gitlab_ok:
  fixes num :: "string \<Rightarrow> 'n option"
  assumes "verify_gitlab num token h body = Inr (Some e)"
  shows "header_get ''X-Gitlab-Token'' h = Some token \<and> push_ok e \<and> pe_provider e = GitLab"
proof -
  have "header_get ''X-Gitlab-Token'' h = Some token"
    using verify_gitlab_token [of num token h body] assms by auto
  moreover obtain j :: "'n json" where "gitlab_push j h = Inr (Some e)"
    using assms by (auto simp: verify_gitlab_def bind_res_Inr_iff split: option.splits if_splits)
  ultimately show ?thesis using gitlab_push_ok by blast
qed

lemma handle_ok:
  assumes "hook_handle num routes rq = Inr (Some i)"
  shows "rq_method rq = ''POST'' \<and>
    (\<exists>secret. routes (ib_repo i) = Some (pe_provider (ib_event i), secret) \<and>
       authentic (pe_provider (ib_event i)) secret rq) \<and> push_ok (ib_event i)"
proof -
  obtain p repo kind secret where r: "rq_method rq = ''POST''" "hook_path (rq_path rq) = Some (p, repo)"
      "routes repo = Some (kind, secret)"
    using assms by (auto simp: hook_handle_def split: if_splits option.splits)
  have handled: "bind_res
      (if p = ''github'' \<and> kind = GitHub then verify_github num secret (rq_headers rq) (rq_body rq)
       else if p = ''gitlab'' \<and> kind = GitLab then verify_gitlab num secret (rq_headers rq) (rq_body rq)
       else Inl HookNotFound) (\<lambda>ev. Inr (map_option (\<lambda>e. \<lparr>ib_repo = repo, ib_event = e\<rparr>) ev)) = Inr (Some i)"
    using assms by (simp add: hook_handle_def r)
  consider (gh) "p = ''github''" "kind = GitHub" | (gl) "p = ''gitlab''" "kind = GitLab"
    using handled by (auto split: if_splits)
  then show ?thesis
  proof cases
    case gh
    then obtain e where e: "verify_github num secret (rq_headers rq) (rq_body rq) = Inr (Some e)"
      and i: "i = \<lparr>ib_repo = repo, ib_event = e\<rparr>"
      using handled by (auto simp: bind_res_Inr_iff)
    then show ?thesis using verify_github_ok [OF e] r gh by (auto simp: authentic_def i)
  next
    case gl
    then obtain e where e: "verify_gitlab num secret (rq_headers rq) (rq_body rq) = Inr (Some e)"
      and i: "i = \<lparr>ib_repo = repo, ib_event = e\<rparr>"
      using handled by (auto simp: bind_res_Inr_iff)
    then show ?thesis using verify_gitlab_ok [OF e] r gl by (auto simp: authentic_def i)
  qed
qed

section \<open>Requests are bounded\<close>

lemma read_body_length:
  "read_body len body conn = Inr b \<Longrightarrow> length body \<le> len \<Longrightarrow> length b = len"
proof (induction len body conn rule: read_body.induct)
  case (2 len body late r rest)
  then show ?case by (auto split: if_splits net_read.splits)
qed (auto split: if_splits)

lemma request_length:
  assumes "read_request conn = Inr rq"
  shows "content_length (rq_headers rq) = Inr (length (rq_body rq)) \<and> length (rq_body rq) \<le> hook_max_body"
proof -
  obtain h len rest body buf i where *: "content_length h = Inr len" "\<not> hook_max_body < len"
      "read_body len (take len (drop (i + 4) buf)) rest = Inr body" "rq_headers rq = h" "rq_body rq = body"
    using assms by (auto simp: read_request_def bind_res_Inr_iff Let_def split: if_splits)
  with read_body_length [OF *(3)] show ?thesis by simp
qed


lemma served_from:
  assumes "i \<in> set (serve num routes peers)"
  shows "\<exists>conn rq. (True, conn) \<in> set peers \<and> read_request conn = Inr rq \<and>
    hook_handle num routes rq = Inr (Some i)"
proof -
  obtain p where p: "p \<in> set peers" "i \<in> set (fst (serve_connection num routes p))"
    using assms by (auto simp: serve_def)
  obtain local conn where lc: "p = (local, conn)" by (cases p)
  then show ?thesis
    using p by (cases "read_request conn")
      (auto simp: serve_connection_def split: if_splits sum.splits option.splits)
qed

section \<open>A request as it arrives\<close>

definition hook_commit :: string where "hook_commit = replicate 40 (CHR ''b'')"

definition hook_push :: "unit json" where
  "hook_push = JObj [(''ref'', JStr ''refs/heads/main''), (''after'', JStr hook_commit)]"

definition hook_text :: string where "hook_text = jwrite (\<lambda>_. []) hook_push"

definition hook_lines :: string where
  "hook_lines = ''POST /webhook/gitlab/shop HTTP/1.1'' @ [CR, NL] @ ''Content-Length: 76'' @ [CR, NL] @
    ''X-Gitlab-Token: tok'' @ [CR, NL] @ ''X-Gitlab-Event: Push Hook''"

definition hook_bytes :: string where "hook_bytes = hook_lines @ [CR, NL, CR, NL] @ hook_text"

definition hook_headers :: headers where
  "hook_headers = [(''Content-Length'', ''76''), (''X-Gitlab-Token'', ''tok''), (''X-Gitlab-Event'', ''Push Hook'')]"

definition hook_sample_request :: request where
  "hook_sample_request =
     \<lparr>rq_method = ''POST'', rq_path = ''/webhook/gitlab/shop'', rq_headers = hook_headers, rq_body = hook_text\<rparr>"

definition hook_sample_routes :: hook_routes where "hook_sample_routes = route_add ''shop'' GitLab ''tok'' routes_new"

definition hook_sample_push :: inbound where
  "hook_sample_push = \<lparr>ib_repo = ''shop'', ib_event = \<lparr>pe_provider = GitLab, pe_repository = [],
     pe_ref_name = ''refs/heads/main'', pe_revision = hook_commit, pe_delivery = ''gitlab:'' @ hook_commit\<rparr>\<rparr>"

lemma hook_bytes_facts:
  "length hook_lines = 102" "head_end hook_bytes = Some 102" "length hook_text = 76"
  "split_crlf hook_lines = [''POST /webhook/gitlab/shop HTTP/1.1'', ''Content-Length: 76'', ''X-Gitlab-Token: tok'',
     ''X-Gitlab-Event: Push Hook'']"
  by (simp_all add: hook_bytes_def hook_lines_def starts_with_def hook_text_def hook_push_def hook_commit_def
      jwrite_str_def jesc_char_def byte_def)

lemma hook_text_ascii: "utf8_valid hook_lines" "utf8_valid hook_text" "utf8_valid hook_commit"
  by (rule utf8_ascii, simp add: hook_lines_def hook_text_def hook_push_def hook_commit_def jwrite_str_def
      jesc_char_def byte_def)+

lemma hook_headers_read:
  "read_header_lines [''Content-Length: 76'', ''X-Gitlab-Token: tok'', ''X-Gitlab-Event: Push Hook''] = Inr hook_headers"
  by (simp add: hook_headers_def trim_text_def chars_of_ascii byte_def is_whitespace_def)

lemma hook_headers_get:
  "header_get ''Transfer-Encoding'' hook_headers = None" "header_get ''X-Gitlab-Token'' hook_headers = Some ''tok''"
  "header_get ''X-Gitlab-Event'' hook_headers = Some ''Push Hook''" "header_get ''Content-Length'' hook_headers = Some ''76''"
  "header_get ''X-Gitlab-Event-UUID'' hook_headers = None"
  by (simp_all add: hook_headers_def header_get_def to_lower_def between_def byte_def)

lemma hook_sample_read: "read_request (arriving [hook_bytes]) = Inr hook_sample_request"
proof -
  have "parse_word ''76'' = Some (76 :: u64)"
    by (simp add: parse_word_def parse_dec_def digit_val_def byte_def)
  then have len: "content_length hook_headers = Inr 76" by (simp add: content_length_def hook_headers_get)
  have "take 102 hook_bytes = hook_lines" "drop (102 + 4) hook_bytes = hook_text"
    by (simp_all add: hook_bytes_def hook_bytes_facts)
  then have "request_of 102 hook_bytes = Inr hook_sample_request"
    by (simp add: request_of_def hook_text_ascii hook_bytes_facts Let_def nth_part_def starts_with_def
        hook_headers_read hook_headers_get len hook_max_body_def hook_sample_request_def del: drop_drop read_header_lines.simps)
  then show ?thesis
    using request_arriving [of "[hook_bytes]" 102] by (simp add: hook_bytes_facts hook_max_head_def) (auto simp: hook_bytes_def)
qed

lemma hook_text_parses: "json_parse num hook_text = Inr hook_push"
proof -
  have "json_ok num (\<lambda>_. []) 0 hook_push"
    by (simp add: hook_push_def hook_text_ascii json_max_depth_def utf8_ascii byte_def)
  from json_parse_padded [OF this, of "[]" "[]"] show ?thesis by (simp add: hook_text_def json_blank_def)
qed

lemma hook_commit_ok: "is_commit hook_commit" "\<not> all_zeros hook_commit"
  by (simp_all add: hook_commit_def is_commit_def all_zeros_def list_all_iff between_def byte_def)

lemma hook_sample_handled:
  fixes num :: "string \<Rightarrow> unit option"
  shows "hook_handle num hook_sample_routes hook_sample_request = Inr (Some hook_sample_push)"
proof -
  have "hook_path ''/webhook/gitlab/shop'' = Some (''gitlab'', ''shop'')" by (simp add: hook_path_def)
  moreover have "gitlab_push hook_push hook_headers = Inr (Some (ib_event hook_sample_push))"
    by (simp add: gitlab_push_def gitlab_commit_def jget_str_def jget_def hook_push_def jas_str_def hook_commit_ok
        hook_headers_get hook_sample_push_def jget_url_def)
  then have "verify_gitlab num ''tok'' hook_headers hook_text = Inr (Some (ib_event hook_sample_push))"
    by (simp add: verify_gitlab_def hook_headers_get constant_time_eq_iff hook_body_def hook_text_ascii hook_text_parses)
  ultimately show ?thesis
    by (simp add: hook_handle_def hook_sample_request_def hook_sample_routes_def route_add_def hook_sample_push_def)
qed

definition shop_repo :: repo_rec where
  "shop_repo = \<lparr>repo_name = ''shop'', repo_url = ''https://git.example/shop'', repo_username = None,
     repo_cred = CredNone, repo_known_host = None, repo_webhook = None, repo_app = ApplicationId 7,
     repo_project = None, repo_environment = None, repo_branch = ''main'', repo_filters = [], repo_container_port = 80,
     repo_dockerfile = None, repo_context = None, repo_target = None, repo_health_path = None, repo_at_ms = 5\<rparr>"

section \<open>What the listener sends on\<close>

text \<open>
  Claim C34. Whatever connections arrive, a push that the listener sends on came over the loopback in one
  POST request for a registered repository, read in full and of at most 256 KiB: for GitHub the hexadecimal
  signature of its header is the HMAC-SHA-256 of the body as received under the secret of that repository,
  for GitLab its token header is that secret. Its delivery id, source name and commit pass the checks of
  the control queue, and the commit is not the all-zero id of a deletion.
\<close>

theorem forwarded_pushes_are_authentic:
  assumes "i \<in> set (serve num routes peers)"
  shows "(\<exists>conn rq secret. (True, conn) \<in> set peers \<and> read_request conn = Inr rq \<and> rq_method rq = ''POST'' \<and>
      content_length (rq_headers rq) = Inr (length (rq_body rq)) \<and> length (rq_body rq) \<le> hook_max_body \<and>
      routes (ib_repo i) = Some (pe_provider (ib_event i), secret) \<and>
      (case pe_provider (ib_event i) of
         GitHub \<Rightarrow> \<exists>sig. header_get ''X-Hub-Signature-256'' (rq_headers rq) = Some (''sha256='' @ sig) \<and>
           from_hex sig = Some (hmac_sha256 secret (rq_body rq))
       | GitLab \<Rightarrow> header_get ''X-Gitlab-Token'' (rq_headers rq) = Some secret)) \<and>
    check_incoming (incoming_of_push r (ib_event i) now) = Inr () \<and> is_commit (pe_revision (ib_event i)) \<and>
    \<not> all_zeros (pe_revision (ib_event i))"
proof -
  obtain conn rq where c: "(True, conn) \<in> set peers" "read_request conn = Inr rq"
      "hook_handle num routes rq = Inr (Some i)"
    using served_from [OF assms] by blast
  obtain secret where s: "rq_method rq = ''POST''" "routes (ib_repo i) = Some (pe_provider (ib_event i), secret)"
      "authentic (pe_provider (ib_event i)) secret rq" "push_ok (ib_event i)"
    using handle_ok [OF c(3)] by blast
  have "\<exists>conn rq secret. (True, conn) \<in> set peers \<and> read_request conn = Inr rq \<and> rq_method rq = ''POST'' \<and>
      content_length (rq_headers rq) = Inr (length (rq_body rq)) \<and> length (rq_body rq) \<le> hook_max_body \<and>
      routes (ib_repo i) = Some (pe_provider (ib_event i), secret) \<and>
      (case pe_provider (ib_event i) of
         GitHub \<Rightarrow> \<exists>sig. header_get ''X-Hub-Signature-256'' (rq_headers rq) = Some (''sha256='' @ sig) \<and>
           from_hex sig = Some (hmac_sha256 secret (rq_body rq))
       | GitLab \<Rightarrow> header_get ''X-Gitlab-Token'' (rq_headers rq) = Some secret)"
    using c(1,2) s(1,2) request_length [OF c(2)] s(3) [unfolded authentic_def github_signed_def] by blast
  then show ?thesis using push_ok_queueable [OF s(4)] s(4) unfolding push_ok_def by blast
qed

theorem forwarded_pushes_are_authentic_witness:
  "hook_sample_push \<in> set (serve (\<lambda>_. None :: unit option) hook_sample_routes [(True, arriving [hook_bytes])]) \<and>
   (\<exists>conn rq. read_request conn = Inr rq \<and> header_get ''X-Gitlab-Token'' (rq_headers rq) = Some ''tok'') \<and>
   check_incoming (incoming_of_push shop_repo (ib_event hook_sample_push) 9) = Inr ()"
proof -
  let ?peers = "[(True, arriving [hook_bytes])]"
  have sent: "hook_sample_push \<in> set (serve (\<lambda>_. None :: unit option) hook_sample_routes ?peers)"
    by (simp add: serve_def serve_connection_def hook_sample_read hook_sample_handled)
  have route: "hook_sample_routes ''shop'' = Some (GitLab, ''tok'')" "ib_repo hook_sample_push = ''shop''"
      "pe_provider (ib_event hook_sample_push) = GitLab"
    by (simp_all add: hook_sample_routes_def route_add_def hook_sample_push_def)
  show ?thesis
    using sent forwarded_pushes_are_authentic [OF sent, where r = shop_repo and now = 9] by (auto simp: route)
qed

text \<open>
  The secret decides before anything in the body does. For a POST to the route of a registered
  repository with its provider, the answer is the refusal of a bad signature exactly when the header is not
  there, does not read, or is not the signature of the body (or the token): no other error, and no event,
  comes out of a request that is not authentic, whatever its body and event headers say.
\<close>

theorem secret_decides_first:
  assumes "rq_method rq = ''POST''" and "hook_path (rq_path rq) = Some (prov, repo)"
    and "routes repo = Some (kind, secret)"
    and "prov = (case kind of GitHub \<Rightarrow> ''github'' | GitLab \<Rightarrow> ''gitlab'')"
  shows "hook_handle num routes rq = Inl BadSignature \<longleftrightarrow> \<not> authentic kind secret rq"
  using assms verify_github_signature [of num secret] verify_gitlab_token [of num secret]
  by (cases kind) (simp_all add: hook_handle_def authentic_def bind_res_Inl_iff)

theorem secret_decides_first_witness:
  "hook_handle (\<lambda>_. None :: unit option) hook_sample_routes (hook_sample_request\<lparr>rq_headers := []\<rparr>) = Inl BadSignature"
proof -
  have "hook_path ''/webhook/gitlab/shop'' = Some (''gitlab'', ''shop'')" by (simp add: hook_path_def)
  moreover have "\<not> authentic GitLab ''tok'' (hook_sample_request\<lparr>rq_headers := []\<rparr>)"
    by (simp add: authentic_def header_get_def)
  ultimately show ?thesis
    using secret_decides_first [where rq = "hook_sample_request\<lparr>rq_headers := []\<rparr>" and kind = GitLab and repo = "''shop''"
        and secret = "''tok''" and prov = "''gitlab''" and routes = hook_sample_routes and num = "\<lambda>_. None :: unit option"]
    by (simp add: hook_sample_request_def hook_sample_routes_def route_add_def)
qed

section \<open>A push that comes again\<close>

lemma queued_is_known:
  assumes "queue_event wr ev ctl j = (Inr NowHeld, ctl', j')"
  shows "\<exists>x. cs_event ctl' (in_app ev) (in_delivery ev) = Some x \<and> ev_rec x = rec_of_incoming ev"
    and "check_incoming ev = Inr ()"
proof -
  have new: "cs_event ctl (in_app ev) (in_delivery ev) = None" "check_incoming ev = Inr ()"
      "write_control wr (EventR (rec_of_incoming ev)) ctl j = (Inr (), ctl', j')"
    using assms by (auto simp: queue_event_def hold_event_def split: sum.splits option.splits if_splits prod.splits)
  then have "control_apply (EventR (rec_of_incoming ev)) ctl = Inr ctl'"
    by (auto simp: write_control_def split: sum.splits)
  then show "\<exists>x. cs_event ctl' (in_app ev) (in_delivery ev) = Some x \<and> ev_rec x = rec_of_incoming ev"
    using new(1) by (auto simp: rec_of_incoming_def cs_event_def is_event_def find_append split: option.splits)
  show "check_incoming ev = Inr ()" by (fact new(2))
qed


text \<open>
  Claim C36. A verified push is queued once. After it was queued, the same push again, whenever it
  comes, is a duplicate: nothing is written and nothing in memory changes. A push of the same source and
  delivery id for a branch the repository wants that names another commit is refused as a conflict, and
  changes nothing either.
\<close>

theorem replayed_push_is_queued_once:
  assumes "accept_webhook wr git now inb ctl j = (WebhookQueued, ctl', j')"
  shows "accept_webhook wr git later inb ctl' j' = (WebhookDuplicate, ctl', j') \<and>
    (\<forall>other r b. ib_repo other = ib_repo inb \<and> pe_delivery (ib_event other) = pe_delivery (ib_event inb) \<and>
       pe_provider (ib_event other) = pe_provider (ib_event inb) \<and> is_commit (pe_revision (ib_event other)) \<and>
       pe_revision (ib_event other) \<noteq> pe_revision (ib_event inb) \<and> bt_get (git_repos git) (ib_repo inb) = Some r \<and>
       push_branch (ib_event other) = Some b \<and> wants_branch r b \<longrightarrow>
     (\<exists>m. accept_webhook wr git later other ctl' j' = (WebhookRefused (Conflict m), ctl', j')))"
proof (intro conjI allI impI)
  obtain r b where r: "bt_get (git_repos git) (ib_repo inb) = Some r" "push_branch (ib_event inb) = Some b" "wants_branch r b"
      "queue_event wr (incoming_of_push r (ib_event inb) now) ctl j = (Inr NowHeld, ctl', j')"
    using assms by (auto simp: accept_webhook_def split: option.splits if_splits prod.splits sum.splits ingress.splits)
  obtain x where x: "cs_event ctl' (repo_app r) (pe_delivery (ib_event inb)) = Some x"
      "er_source (ev_rec x) = push_source (ib_event inb)" "er_revision (ev_rec x) = pe_revision (ib_event inb)"
    using queued_is_known(1) [OF r(4)] by (auto simp: incoming_of_push_def rec_of_incoming_def)
  have ok: "check_incoming (incoming_of_push r (ib_event inb) later) = Inr ()"
    using queued_is_known(2) [OF r(4)] by (simp add: check_incoming_def incoming_of_push_def)
  then show "accept_webhook wr git later inb ctl' j' = (WebhookDuplicate, ctl', j')"
    using r(1-3) x by (simp add: accept_webhook_def queue_event_def) (simp add: incoming_of_push_def)
  fix other :: inbound and r2 b2
  assume "ib_repo other = ib_repo inb \<and> pe_delivery (ib_event other) = pe_delivery (ib_event inb) \<and>
       pe_provider (ib_event other) = pe_provider (ib_event inb) \<and> is_commit (pe_revision (ib_event other)) \<and>
       pe_revision (ib_event other) \<noteq> pe_revision (ib_event inb) \<and> bt_get (git_repos git) (ib_repo inb) = Some r2 \<and>
       push_branch (ib_event other) = Some b2 \<and> wants_branch r2 b2"
  then have same: "ib_repo other = ib_repo inb" "pe_delivery (ib_event other) = pe_delivery (ib_event inb)"
      "push_source (ib_event other) = push_source (ib_event inb)" "push_branch (ib_event other) = Some b2" "wants_branch r b2"
      and differs: "is_commit (pe_revision (ib_event other))" "pe_revision (ib_event inb) \<noteq> pe_revision (ib_event other)"
    using r(1) by (auto simp: push_source_def)
  then have "check_incoming (incoming_of_push r (ib_event other) later) = Inr ()"
    using ok by (simp add: check_incoming_def incoming_of_push_def bind_res_Inr_iff revision_ok_def commit_token)
  then show "\<exists>m. accept_webhook wr git later other ctl' j' = (WebhookRefused (Conflict m), ctl', j')"
    using r(1) x same differs(2) by (simp add: accept_webhook_def queue_event_def) (simp add: incoming_of_push_def)
qed


definition shop_git :: git_state where
  "shop_git = git_empty\<lparr>git_repos := [(''shop'', shop_repo)]\<rparr>"

theorem replayed_push_is_queued_once_witness:
  "\<exists>ctl j. accept_webhook j_control shop_git 9 hook_sample_push control_empty fresh_journal = (WebhookQueued, ctl, j) \<and>
     accept_webhook j_control shop_git 11 hook_sample_push ctl j = (WebhookDuplicate, ctl, j)"
proof -
  have repo: "bt_get (git_repos shop_git) (ib_repo hook_sample_push) = Some shop_repo"
      "push_branch (ib_event hook_sample_push) = Some ''main''" "wants_branch shop_repo ''main''"
    by (simp_all add: shop_git_def hook_sample_push_def bt_get_def push_branch_def wants_branch_def shop_repo_def)
  have "push_ok (ib_event hook_sample_push)"
    using gitlab_delivery [OF hook_commit_ok(1)] by (simp add: push_ok_def hook_sample_push_def hook_commit_ok)
  from push_ok_queueable [OF this] obtain ctl j where
      "queue_event j_control (incoming_of_push shop_repo (ib_event hook_sample_push) 9) control_empty fresh_journal =
        (Inr NowHeld, ctl, j)"
    by (simp add: queue_event_def hold_event_def write_control_def j_control_def j_gate_def fresh_journal_def
        cs_event_def control_empty_def)
  then have "accept_webhook j_control shop_git 9 hook_sample_push control_empty fresh_journal = (WebhookQueued, ctl, j)"
    by (simp add: accept_webhook_def repo)
  with replayed_push_is_queued_once [OF this] show ?thesis by blast
qed

end
