(* ===== verification/BuildInput.thy ===== *)
theory BuildInput
  imports GitGlob
begin

text \<open>
  What is checked about a build before it starts: the bundled Buildx (\<open>deploy/src/buildx.rs\<close>), the images
  that a Dockerfile needs (\<open>deploy-docker/src/dockerfile.rs\<close>), the ignore file and the size of the context
  (\<open>ignore.rs\<close>, \<open>preflight.rs\<close>), and the confinement of the context to the project folder (\<open>confine.rs\<close>).
  A path is its text; a folder tree is a datatype, what the file system answers to the confinement is a
  parameter. Texts that quote their input are shortened to what is fixed in them.
\<close>

section \<open>Lines, words and letters of a text\<close>

text \<open>\<open>str::lines\<close>: a line feed, or a carriage return and a line feed, ends a line.\<close>

definition strip_cr :: "string \<Rightarrow> string" where
  "strip_cr l = (if l \<noteq> [] \<and> last l = CR then butlast l else l)"

definition text_lines :: "string \<Rightarrow> string list" where
  "text_lines s =
     (let ls = split_on NL s in map strip_cr (butlast ls) @ (if last ls = [] then [] else [last ls]))"

definition trim_str :: "string \<Rightarrow> string" where
  "trim_str s = concat (rev (dropWhile is_whitespace (rev (dropWhile is_whitespace (chars_of s)))))"

text \<open>\<open>str::split_whitespace\<close>, over the characters of the text.\<close>

fun words_of :: "string \<Rightarrow> string list \<Rightarrow> string list" where
  "words_of w [] = (if w = [] then [] else [w])"
| "words_of w (g # gs) =
     (if is_whitespace g then (if w = [] then words_of [] gs else w # words_of [] gs) else words_of (w @ g) gs)"

definition split_whitespace :: "string \<Rightarrow> string list" where
  "split_whitespace s = words_of [] (chars_of s)"

definition to_upper :: "char \<Rightarrow> char" where
  "to_upper c = (if between 97 c 122 then char_of (byte c - 32) else c)"

abbreviation lower_text :: "string \<Rightarrow> string" where "lower_text s \<equiv> map to_lower s"

section \<open>The bundled Buildx\<close>

datatype file_kind = MissingFile | DirectoryFile | SymlinkFile | RegularFile bool

datatype buildx_error =
    NoResourcesDir | BuildxMissing string | BuildxNotAFile string | BuildxSymlink string | BuildxNotExecutable string

definition bundled_relative :: string where "bundled_relative = ''harpoon/bin/docker-buildx''"

text \<open>\<open>Path::join\<close> on the text of a path.\<close>

definition path_join :: "string \<Rightarrow> string \<Rightarrow> string" where
  "path_join d p =
     (if starts_with p ''/'' then p else if d = [] \<or> last d = CHR ''/'' then d @ p else d @ ''/'' @ p)"

definition buildx_resolve :: "string option \<Rightarrow> (string \<Rightarrow> file_kind) \<Rightarrow> buildx_error + string" where
  "buildx_resolve resources probe =
     (case resources of
        None \<Rightarrow> Inl NoResourcesDir
      | Some d \<Rightarrow>
          if d = [] then Inl NoResourcesDir
          else (let path = path_join d bundled_relative in
            case probe path of
              RegularFile True \<Rightarrow> Inr path
            | RegularFile False \<Rightarrow> Inl (BuildxNotExecutable path)
            | MissingFile \<Rightarrow> Inl (BuildxMissing path)
            | SymlinkFile \<Rightarrow> Inl (BuildxSymlink path)
            | DirectoryFile \<Rightarrow> Inl (BuildxNotAFile path)))"

definition isolated_env :: "string \<Rightarrow> string \<Rightarrow> (string \<times> string) list" where
  "isolated_env harpoon_socket scratch =
     [(''PATH'', ''/usr/bin:/bin''), (''HOME'', scratch), (''DOCKER_CONFIG'', scratch),
      (''DOCKER_HOST'', ''unix://'' @ harpoon_socket)]"

section \<open>The images of a Dockerfile\<close>

datatype dockerfile_problem = ExternalFrontend string | VariableImage string | EmptyDockerfile

record dockerfile_scan =
  df_stages :: "string set"
  df_images :: "string set"
  df_seen_from :: bool
  df_directives :: bool
  df_count :: nat

definition scan_start :: dockerfile_scan where
  "scan_start = \<lparr>df_stages = {}, df_images = {}, df_seen_from = False, df_directives = True, df_count = 0\<rparr>"

text \<open>A \<open>FROM\<close> line, from the words after it.\<close>

definition scan_from :: "string \<Rightarrow> string list \<Rightarrow> dockerfile_scan \<Rightarrow> dockerfile_problem + dockerfile_scan" where
  "scan_from line ws k =
     (let k1 = k\<lparr>df_seen_from := True\<rparr>; rest = filter (\<lambda>w. \<not> starts_with w ''--'') ws
      in case rest of
          [] \<Rightarrow> Inr k1
        | img # more_words \<Rightarrow>
            if CHR ''$'' \<in> set img then Inl (VariableImage line)
            else Inr (k1\<lparr>
              df_images :=
                (if lower_text img \<noteq> ''scratch'' \<and> lower_text img \<notin> df_stages k
                 then insert img (df_images k) else df_images k),
              df_stages :=
                (if 3 \<le> length rest \<and> lower_text (rest ! 1) = ''as'' then insert (lower_text (rest ! 2)) (df_stages k)
                 else df_stages k),
              df_count := df_count k + 1\<rparr>))"

fun scan_copy :: "string \<Rightarrow> string list \<Rightarrow> dockerfile_scan \<Rightarrow> dockerfile_problem + dockerfile_scan" where
  "scan_copy line [] k = Inr k"
| "scan_copy line (w # ws) k =
     (case strip_prefix ''--from='' w of
        None \<Rightarrow> scan_copy line ws k
      | Some from_stage \<Rightarrow>
          if CHR ''$'' \<in> set from_stage then Inl (VariableImage line)
          else if lower_text from_stage \<in> df_stages k \<or>
              (case parse_word from_stage of None \<Rightarrow> False | Some n \<Rightarrow> unat (n :: u64) < df_count k)
          then scan_copy line ws k
          else scan_copy line ws (k\<lparr>df_images := insert from_stage (df_images k)\<rparr>))"

definition scan_line :: "string \<Rightarrow> dockerfile_scan \<Rightarrow> dockerfile_problem + dockerfile_scan" where
  "scan_line raw k =
     (let line = trim_str raw
      in if line = [] then Inr (k\<lparr>df_directives := False\<rparr>)
         else case strip_prefix ''#'' line of
             Some c \<Rightarrow>
               if df_directives k \<and> starts_with (filter (\<lambda>x. x \<noteq> CHR '' '') (lower_text (trim_str c))) ''syntax=''
               then Inl (ExternalFrontend line) else Inr k
           | None \<Rightarrow>
               (let k1 = k\<lparr>df_directives := False\<rparr>
                in case split_whitespace line of
                    [] \<Rightarrow> Inr k1
                  | w # ws \<Rightarrow>
                      (let op_word = map to_upper w
                       in if op_word = ''FROM'' then scan_from line ws k1
                          else if op_word = ''COPY'' \<or> op_word = ''ADD'' then scan_copy line ws k1
                          else Inr k1)))"

fun scan_lines :: "string list \<Rightarrow> dockerfile_scan \<Rightarrow> dockerfile_problem + dockerfile_scan" where
  "scan_lines [] k = Inr k"
| "scan_lines (l # ls) k = bind_res (scan_line l k) (scan_lines ls)"

definition required_images :: "string \<Rightarrow> dockerfile_problem + string set" where
  "required_images txt =
     bind_res (scan_lines (text_lines txt) scan_start) (\<lambda>k.
       if \<not> df_seen_from k then Inl EmptyDockerfile else Inr (df_images k))"

section \<open>The ignore file\<close>

record ignore_rules =
  ig_patterns :: "string list list"
  ig_notes :: nat
  ig_disabled :: bool

definition no_rules :: ignore_rules where
  "no_rules = \<lparr>ig_patterns = [], ig_notes = 0, ig_disabled = False\<rparr>"

definition has_double_star :: "string \<Rightarrow> bool" where
  "has_double_star s \<longleftrightarrow> (\<exists>i \<in> {..< length s}. starts_with (drop i s) ''**'')"

definition segment_understood :: "string \<Rightarrow> bool" where
  "segment_understood s \<longleftrightarrow> s \<noteq> ''.'' \<and> s \<noteq> ''..'' \<and>
     list_all (\<lambda>c. c \<notin> {CHR ''?'', CHR ''['', CHR 0x5C, CHR 0x7B}) s \<and> (s = ''**'' \<or> \<not> has_double_star s)"

definition ignore_line :: "ignore_rules \<Rightarrow> string \<Rightarrow> ignore_rules" where
  "ignore_line r raw =
     (let line = trim_str raw
      in if line = [] \<or> starts_with line ''#'' then r
         else if starts_with line ''!'' then r\<lparr>ig_disabled := True, ig_notes := ig_notes r + 1\<rparr>
         else (let segs = filter (\<lambda>s. s \<noteq> []) (split_on (CHR ''/'') (dropWhile (\<lambda>c. c = CHR ''/'') line))
           in if segs \<noteq> [] \<and> list_all segment_understood segs then r\<lparr>ig_patterns := ig_patterns r @ [segs]\<rparr>
              else r\<lparr>ig_notes := ig_notes r + 1\<rparr>))"

definition ignore_parse :: "string \<Rightarrow> ignore_rules" where
  "ignore_parse txt =
     (let r = foldl ignore_line no_rules (text_lines txt) in if ig_disabled r then r\<lparr>ig_patterns := []\<rparr> else r)"

text \<open>The two searches of \<open>(0..=n).any\<close> are over the suffixes.\<close>

function seg_glob :: "string \<Rightarrow> string \<Rightarrow> bool" where
  "seg_glob [] s = (s = [])"
| "seg_glob (c # p) s =
     (if c = CHR ''*'' then (\<exists>n \<in> {0 .. length s}. seg_glob p (drop n s))
      else s \<noteq> [] \<and> hd s = c \<and> seg_glob p (tl s))"
  by pat_completeness auto

termination
  by (relation "measure (\<lambda>(p, s). length p)") auto

function seg_match :: "string list \<Rightarrow> string list \<Rightarrow> bool" where
  "seg_match [] path = (path = [])"
| "seg_match (p # rest) path =
     (if p = ''**'' then (\<exists>n \<in> {0 .. length path}. seg_match rest (drop n path))
      else case path of s # more_path \<Rightarrow> seg_glob p s \<and> seg_match rest more_path | [] \<Rightarrow> False)"
  by pat_completeness auto

termination
  by (relation "measure (\<lambda>(p, s). length p)") auto

definition excludes :: "ignore_rules \<Rightarrow> string list \<Rightarrow> bool" where
  "excludes r rel \<longleftrightarrow> (\<exists>p \<in> set (ig_patterns r). \<exists>k \<in> {1 .. length rel}. seg_match p (take k rel))"

section \<open>The size of the context\<close>

text \<open>What a folder walk sees; \<open>Other\<close> is a symbolic link or a special file.\<close>

datatype tree = FileOf u64 | Folder "(string \<times> tree) list" | OtherEntry

definition counted :: "ignore_rules \<Rightarrow> string list list \<Rightarrow> string list \<Rightarrow> tree \<Rightarrow> bool" where
  "counted rules keep r t \<longleftrightarrow>
     \<not> (excludes rules r \<and> r \<notin> set keep \<and>
        \<not> ((case t of Folder _ \<Rightarrow> True | _ \<Rightarrow> False) \<and> list_ex (\<lambda>k. take (length r) k = r) keep))"


type_synonym walk_stack = "((string \<times> tree) list \<times> string list) list"

text \<open>One folder: \<open>Inl\<close> is the return inside the loop.\<close>

fun walk_entries ::
  "u64 \<Rightarrow> ignore_rules \<Rightarrow> string list list \<Rightarrow> string list \<Rightarrow> (string \<times> tree) list \<Rightarrow> u64 \<Rightarrow> walk_stack \<Rightarrow>
   u64 + u64 \<times> walk_stack"
where
  "walk_entries limit rules keep rel [] so_far st = Inr (so_far, st)"
| "walk_entries limit rules keep rel ((nm, t) # es) so_far st =
     (if \<not> counted rules keep (rel @ [nm]) t then walk_entries limit rules keep rel es so_far st
      else case t of
          Folder sub \<Rightarrow> walk_entries limit rules keep rel es so_far ((sub, rel @ [nm]) # st)
        | FileOf n \<Rightarrow>
            (let now = sat_add so_far n
             in if limit < now then Inl now else walk_entries limit rules keep rel es now st)
        | OtherEntry \<Rightarrow> walk_entries limit rules keep rel es so_far st)"

fun tree_nodes :: "tree \<Rightarrow> nat" where
  "tree_nodes (FileOf n) = 1"
| "tree_nodes OtherEntry = 1"
| "tree_nodes (Folder es) = 1 + sum_list (map (\<lambda>e. tree_nodes (snd e)) es)"

definition stack_nodes :: "walk_stack \<Rightarrow> nat" where
  "stack_nodes st = sum_list (map (\<lambda>(es, rel). 1 + sum_list (map (\<lambda>e. tree_nodes (snd e)) es)) st)"

lemma walk_entries_nodes:
  "walk_entries limit rules keep rel es so_far st = Inr (now, st') \<Longrightarrow>
   stack_nodes st' \<le> stack_nodes st + sum_list (map (\<lambda>e. tree_nodes (snd e)) es)"
proof (induction limit rules keep rel es so_far st rule: walk_entries.induct)
  case (2 limit rules keep rel nm t es so_far st)
  then show ?case
    by (cases t) (force simp: stack_nodes_def Let_def split: if_splits)+
qed simp

function walk :: "u64 \<Rightarrow> ignore_rules \<Rightarrow> string list list \<Rightarrow> walk_stack \<Rightarrow> u64 \<Rightarrow> u64" where
  "walk limit rules keep [] so_far = so_far"
| "walk limit rules keep ((es, rel) # st) so_far =
     (case walk_entries limit rules keep rel es so_far st of
        Inl now \<Rightarrow> now | Inr (now, st') \<Rightarrow> walk limit rules keep st' now)"
  by pat_completeness auto

termination
  by (relation "measure (\<lambda>(limit, rules, keep, st, so_far). stack_nodes st)")
    (fastforce dest: walk_entries_nodes simp: stack_nodes_def)+

definition context_size_with :: "(string \<times> tree) list \<Rightarrow> u64 \<Rightarrow> ignore_rules \<Rightarrow> string list list \<Rightarrow> u64" where
  "context_size_with dir limit rules keep = walk limit rules keep [(dir, [])] 0"

definition context_size :: "(string \<times> tree) list \<Rightarrow> u64 \<Rightarrow> u64" where
  "context_size dir limit = context_size_with dir limit no_rules []"

definition parse_df :: "string \<Rightarrow> string + u64" where
  "parse_df txt =
     (let ls = text_lines txt
      in if length ls \<le> 1 then Inl ''df printed no data line''
         else (let cols = split_whitespace (ls ! 1)
           in if length cols \<le> 3 then Inl ''df line has too few columns''
              else case parse_word (cols ! 3) of
                  None \<Rightarrow> Inl ''df available column is not a number''
                | Some kb \<Rightarrow>
                    if unat kb * 1024 < 2 ^ 64 then Inr (kb * 1024) else Inl ''df value overflows''))"

section \<open>Confinement\<close>

text \<open>\<open>Path::components\<close>: the root, the names, and a dot only where it leads a relative path.\<close>

definition path_components :: "string \<Rightarrow> string list" where
  "path_components p =
     (let segs = filter (\<lambda>s. s \<noteq> []) (split_on (CHR ''/'') p)
      in if starts_with p ''/'' then ''/'' # filter (\<lambda>s. s \<noteq> ''.'') segs
         else case segs of [] \<Rightarrow> [] | s # ss \<Rightarrow> s # filter (\<lambda>s. s \<noteq> ''.'') ss)"

definition path_inside :: "string \<Rightarrow> string \<Rightarrow> bool" where
  "path_inside p dir \<longleftrightarrow> take (length (path_components dir)) (path_components p) = path_components dir"

definition plain_relative :: "string \<Rightarrow> bool" where
  "plain_relative name \<longleftrightarrow> name \<noteq> [] \<and> CHR 0x00 \<notin> set name \<and> \<not> starts_with name ''/'' \<and>
     list_all (\<lambda>c. c \<noteq> ''.'' \<and> c \<noteq> ''..'' \<and> c \<noteq> ''/'') (path_components name)"

datatype confine_error =
    RootMissing string string | RootNotDirectory string
  | ContextMissing string string | ContextNotDirectory string | ContextEscapes string string
  | DockerfileName string | DockerfileMissing string | DockerfileNotFile string | DockerfileEscapes string string
  | Unreadable string string | IgnoreEscapes string string

text \<open>
  What the file system answers: the real path or the kind of failure with its text, whether a real path is
  a folder or a regular file, and the text of a file (its failure also when it is not UTF-8).
\<close>

datatype fs_failure = FsNotFound string | FsOther string

record file_system =
  fs_canonical :: "string \<Rightarrow> fs_failure + string"
  fs_is_dir :: "string \<Rightarrow> bool"
  fs_is_file :: "string \<Rightarrow> bool"
  fs_read :: "string \<Rightarrow> string + string"

fun failure_text :: "fs_failure \<Rightarrow> string" where
  "failure_text (FsNotFound e) = e"
| "failure_text (FsOther e) = e"

definition max_text_file :: nat where "max_text_file = 1048576"

definition read_capped :: "file_system \<Rightarrow> string \<Rightarrow> confine_error + string" where
  "read_capped fs p =
     (case fs_read fs p of
        Inl e \<Rightarrow> Inl (Unreadable p e)
      | Inr s \<Rightarrow> if max_text_file < length s then Inl (Unreadable p ''larger than 1024 KiB'') else Inr s)"

definition optional_inside :: "file_system \<Rightarrow> string \<Rightarrow> string \<Rightarrow> confine_error + (string \<times> string) option" where
  "optional_inside fs path ctx =
     (case fs_canonical fs path of
        Inr real \<Rightarrow>
          if \<not> path_inside real ctx then Inl (IgnoreEscapes real ctx)
          else if \<not> fs_is_file fs real then Inl (Unreadable real ''not a regular file'')
          else bind_res (read_capped fs real) (\<lambda>t. Inr (Some (real, t)))
      | Inl (FsNotFound _) \<Rightarrow> Inr None
      | Inl (FsOther e) \<Rightarrow> Inl (Unreadable path e))"

record build_source =
  bs_root :: string
  bs_context :: string
  bs_dockerfile :: string
  bs_dockerfile_text :: string
  bs_ignore :: "(string \<times> string) option"

definition confine_context :: "file_system \<Rightarrow> string \<Rightarrow> string \<Rightarrow> confine_error + string \<times> string" where
  "confine_context fs root ctx =
     bind_res (map_err (\<lambda>e. RootMissing root (failure_text e)) (fs_canonical fs root)) (\<lambda>root_real.
     if \<not> fs_is_dir fs root_real then Inl (RootNotDirectory root_real)
     else bind_res (map_err (\<lambda>e. ContextMissing ctx (failure_text e)) (fs_canonical fs ctx)) (\<lambda>ctx_real.
       if \<not> path_inside ctx_real root_real then Inl (ContextEscapes ctx_real root_real)
       else if \<not> fs_is_dir fs ctx_real then Inl (ContextNotDirectory ctx_real)
       else Inr (root_real, ctx_real)))"

definition confine_dockerfile :: "file_system \<Rightarrow> string \<Rightarrow> string \<Rightarrow> confine_error + string \<times> string" where
  "confine_dockerfile fs ctx_real wanted =
     (case fs_canonical fs wanted of
        Inl (FsNotFound _) \<Rightarrow> Inl (DockerfileMissing wanted)
      | Inl (FsOther e) \<Rightarrow> Inl (Unreadable wanted e)
      | Inr real \<Rightarrow>
          if \<not> path_inside real ctx_real then Inl (DockerfileEscapes real ctx_real)
          else if \<not> fs_is_file fs real then Inl (DockerfileNotFile real)
          else bind_res (read_capped fs real) (\<lambda>t. Inr (real, t)))"

definition confine_ignore :: "file_system \<Rightarrow> string \<Rightarrow> string \<Rightarrow> confine_error + (string \<times> string) option" where
  "confine_ignore fs ctx_real wanted =
     bind_res (optional_inside fs (wanted @ ''.dockerignore'') ctx_real) (\<lambda>found.
       case found of
         Some i \<Rightarrow> Inr (Some i)
       | None \<Rightarrow> optional_inside fs (path_join ctx_real ''.dockerignore'') ctx_real)"

definition confine :: "file_system \<Rightarrow> string \<Rightarrow> string \<Rightarrow> string \<Rightarrow> confine_error + build_source" where
  "confine fs root ctx dockerfile =
     bind_res (confine_context fs root ctx) (\<lambda>(root_real, ctx_real).
     if \<not> plain_relative dockerfile then Inl (DockerfileName dockerfile)
     else bind_res (confine_dockerfile fs ctx_real (path_join ctx_real dockerfile)) (\<lambda>(real, t).
       bind_res (confine_ignore fs ctx_real (path_join ctx_real dockerfile)) (\<lambda>ig.
         Inr \<lparr>bs_root = root_real, bs_context = ctx_real, bs_dockerfile = real, bs_dockerfile_text = t,
           bs_ignore = ig\<rparr>)))"

definition dockerfile_rel :: "build_source \<Rightarrow> string list" where
  "dockerfile_rel s =
     (if path_inside (bs_dockerfile s) (bs_context s)
      then drop (length (path_components (bs_context s))) (path_components (bs_dockerfile s)) else [])"

end
