(* ===== verification/BuildProps.thy ===== *)
theory BuildProps
  imports BuildInput
begin

text \<open>
  The ignore file never hides a file that Docker would send from the size limit, the walk adds up exactly
  what is counted, and a confined build stays inside the project folder.
\<close>

section \<open>The size of the context\<close>

text \<open>The sum of the counted files, folder by folder.\<close>

fun counted_size :: "ignore_rules \<Rightarrow> string list list \<Rightarrow> string list \<Rightarrow> tree \<Rightarrow> nat" where
  "counted_size rules keep r (FileOf n) = (if counted rules keep r (FileOf n) then unat n else 0)"
| "counted_size rules keep r OtherEntry = 0"
| "counted_size rules keep r (Folder es) =
     (if counted rules keep r (Folder es)
      then sum_list (map (\<lambda>e. counted_size rules keep (r @ [fst e]) (snd e)) es) else 0)"

definition folder_size :: "ignore_rules \<Rightarrow> string list list \<Rightarrow> string list \<Rightarrow> (string \<times> tree) list \<Rightarrow> nat" where
  "folder_size rules keep r es = sum_list (map (\<lambda>e. counted_size rules keep (r @ [fst e]) (snd e)) es)"

definition stack_size :: "ignore_rules \<Rightarrow> string list list \<Rightarrow> walk_stack \<Rightarrow> nat" where
  "stack_size rules keep st = sum_list (map (\<lambda>(es, r). folder_size rules keep r es) st)"

lemma counted_size_folder:
  "counted_size rules keep r t =
     (if counted rules keep r t
      then (case t of FileOf n \<Rightarrow> unat n | OtherEntry \<Rightarrow> 0 | Folder es \<Rightarrow> folder_size rules keep r es) else 0)"
  by (cases t) (simp_all add: folder_size_def)

lemma sat_add_below:
  assumes "limit < (- 1 :: u64)" "\<not> limit < sat_add a b"
  shows "unat (sat_add a b) = unat a + unat b"
proof -
  have "unat (sat_add a b) < 2 ^ 64 - 1"
    using assms unat_all_ones [where 'a = 64] by (simp add: word_less_nat_alt not_less)
  then show ?thesis by (simp add: unat_sat_add)
qed

text \<open>Either the walk has stopped above the limit, or it has counted all it has passed.\<close>

lemma walk_entries_size:
  assumes "limit < - 1"
  shows "case walk_entries limit rules keep rel es so_far st of
       Inl now \<Rightarrow> limit < now \<and> unat now \<le> unat so_far + folder_size rules keep rel es
     | Inr (now, st') \<Rightarrow>
         unat now + stack_size rules keep st' = unat so_far + folder_size rules keep rel es + stack_size rules keep st \<and>
         (now \<le> limit \<or> now = so_far)"
  using assms
proof (induction limit rules keep rel es so_far st rule: walk_entries.induct)
  case (2 limit rules keep rel nm t es so_far st)
  have head: "folder_size rules keep rel ((nm, t) # es) =
      counted_size rules keep (rel @ [nm]) t + folder_size rules keep rel es"
    by (simp add: folder_size_def)
  show ?case
  proof (cases "counted rules keep (rel @ [nm]) t")
    case False
    then show ?thesis using 2(1) 2(5) head by (auto simp: counted_size_folder split: sum.splits)
  next
    case counted: True
    show ?thesis
    proof (cases t)
      case (FileOf n)
      have size: "counted_size rules keep (rel @ [nm]) t = unat n" using counted FileOf by simp
      let ?now = "sat_add so_far n"
      show ?thesis
      proof (cases "limit < ?now")
        case True
        moreover have "unat ?now \<le> unat so_far + unat n" by (simp add: unat_sat_add)
        ultimately show ?thesis using counted FileOf head size by (simp add: Let_def)
      next
        case False
        with 2(2) [OF _ FileOf refl False 2(5)] counted sat_add_below [OF 2(5) False] head size FileOf show ?thesis
          by (auto simp: Let_def split: sum.splits)
      qed
    next
      case (Folder sub)
      then show ?thesis using 2(3) [OF _ Folder 2(5)] counted head
        by (auto simp: counted_size_folder stack_size_def split: sum.splits)
    next
      case OtherEntry
      then show ?thesis using 2(4) [OF _ OtherEntry 2(5)] counted head by (auto simp: counted_size_folder split: sum.splits)
    qed
  qed
qed (simp add: folder_size_def)


lemma walk_size:
  assumes "limit < - 1" and "so_far \<le> limit"
  shows "if unat so_far + stack_size rules keep st \<le> unat limit
    then unat (walk limit rules keep st so_far) = unat so_far + stack_size rules keep st
    else limit < walk limit rules keep st so_far \<and>
      unat (walk limit rules keep st so_far) \<le> unat so_far + stack_size rules keep st"
  using assms
proof (induction limit rules keep st so_far rule: walk.induct)
  case (1 limit rules keep so_far)
  then show ?case by (simp add: stack_size_def word_le_nat_alt)
next
  case (2 limit rules keep es rel st so_far)
  have stack: "stack_size rules keep ((es, rel) # st) = folder_size rules keep rel es + stack_size rules keep st"
    by (simp add: stack_size_def)
  note step = walk_entries_size [OF 2(2), where rules = rules and keep = keep and rel = rel and es = es and so_far = so_far and st = st]
  show ?case
  proof (cases "walk_entries limit rules keep rel es so_far st")
    case (Inl now)
    then have "limit < now" "unat now \<le> unat so_far + folder_size rules keep rel es" using step by simp_all
    then have "unat limit < unat so_far + folder_size rules keep rel es" by (simp add: word_less_nat_alt)
    with Inl \<open>limit < now\<close> \<open>unat now \<le> _\<close> show ?thesis by (simp add: stack)
  next
    case (Inr p)
    obtain now st' where p: "p = (now, st')" by (cases p)
    have sum: "unat now + stack_size rules keep st' = unat so_far + stack_size rules keep ((es, rel) # st)"
      using step Inr p by (simp add: stack)
    have "now \<le> limit" using step Inr p 2(3) by auto
    from 2(1) [OF Inr p [symmetric] 2(2) this] show ?thesis using Inr p sum by (auto split: if_splits)
  qed
qed

text \<open>The file at a path below a folder.\<close>

fun file_at :: "(string \<times> tree) list \<Rightarrow> string list \<Rightarrow> u64 option" where
  "file_at es [] = None"
| "file_at es [nm] = (case map_of es nm of Some (FileOf n) \<Rightarrow> Some n | _ \<Rightarrow> None)"
| "file_at es (nm # m # ms) = (case map_of es nm of Some (Folder sub) \<Rightarrow> file_at sub (m # ms) | _ \<Rightarrow> None)"

lemma counted_in_folder: "(nm, t) \<in> set es \<Longrightarrow> counted_size rules keep (r @ [nm]) t \<le> folder_size rules keep r es"
  unfolding folder_size_def by (rule member_le_sum_list) (force | simp)+

lemma kept_file_counted:
  "file_at es p = Some n \<Longrightarrow> r @ p \<in> set keep \<Longrightarrow> unat n \<le> folder_size rules keep r es"
proof (induction es p arbitrary: r rule: file_at.induct)
  case (2 es nm)
  then have "(nm, FileOf n) \<in> set es" by (auto split: option.splits tree.splits dest: map_of_SomeD)
  moreover have "counted rules keep (r @ [nm]) (FileOf n)" using 2(2) by (simp add: counted_def)
  ultimately show ?case using counted_in_folder [of nm "FileOf n" es rules keep r] by simp
next
  case (3 es nm m ms)
  then obtain sub where sub: "map_of es nm = Some (Folder sub)" "file_at sub (m # ms) = Some n"
    by (auto split: option.splits tree.splits)
  have "list_ex (\<lambda>k. take (length (r @ [nm])) k = r @ [nm]) keep"
    using 3(3) by (auto simp: list_ex_iff intro: bexI [of _ "r @ nm # m # ms"])
  then have "counted rules keep (r @ [nm]) (Folder sub)" by (simp add: counted_def)
  then have "folder_size rules keep (r @ [nm]) sub \<le> folder_size rules keep r es"
    using counted_in_folder [OF map_of_SomeD [OF sub(1)], of rules keep r] by (simp add: counted_size_folder)
  moreover have "unat n \<le> folder_size rules keep (r @ [nm]) sub"
    using 3(1) [OF sub(1) refl sub(2), of "r @ [nm]"] 3(3) by simp
  ultimately show ?case by simp
qed simp

text \<open>
  Claim C38. The walk that sizes a build context never counts less than it should. For every limit below
  the largest number, it returns exactly the sum of the counted files when that is at most the limit, and
  otherwise a number above the limit; and the Dockerfile and the ignore files, which Docker always sends,
  are in the sum whatever the ignore file says.
\<close>

theorem context_size_is_exact:
  assumes "limit < - 1"
  shows "(if folder_size rules keep [] dir \<le> unat limit
      then unat (context_size_with dir limit rules keep) = folder_size rules keep [] dir
      else limit < context_size_with dir limit rules keep) \<and>
    (\<forall>p n. p \<in> set keep \<and> file_at dir p = Some n \<longrightarrow> unat n \<le> folder_size rules keep [] dir)"
  using walk_size [OF assms, of 0 rules keep "[(dir, [])]"] kept_file_counted [of dir _ _ "[]" keep rules]
  by (auto simp: context_size_with_def stack_size_def split: if_splits)

theorem context_size_is_exact_witness:
  "unat (context_size_with [(''a'', FileOf 3), (''b'', Folder [(''Dockerfile'', FileOf 4)])] 100
     (ignore_parse ''b'') [[''b'', ''Dockerfile'']]) =
   folder_size (ignore_parse ''b'') [[''b'', ''Dockerfile'']] [] [(''a'', FileOf 3), (''b'', Folder [(''Dockerfile'', FileOf 4)])]"
proof -
  have "folder_size rules keep [] [(''a'', FileOf 3), (''b'', Folder [(''Dockerfile'', FileOf 4)])] \<le> unat (100 :: u64)"
    for rules keep by (simp add: folder_size_def)
  moreover have "(100 :: u64) < - 1" by (simp add: word_less_nat_alt unat_all_ones)
  ultimately show ?thesis
    using context_size_is_exact [of 100 "ignore_parse ''b''" "[[''b'', ''Dockerfile'']]"
        "[(''a'', FileOf 3), (''b'', Folder [(''Dockerfile'', FileOf 4)])]"] by simp
qed

section \<open>What the ignore file excludes\<close>

text \<open>
  A pattern and a path match when the path falls into one part for each part of the pattern: a double star
  takes any run of names, any other part one name that it matches.
\<close>

definition part_matches :: "string \<Rightarrow> string list \<Rightarrow> bool" where
  "part_matches p part \<longleftrightarrow> p = ''**'' \<or> (\<exists>s. part = [s] \<and> seg_glob p s)"

definition pattern_matches :: "string list \<Rightarrow> string list \<Rightarrow> bool" where
  "pattern_matches pat path \<longleftrightarrow> (\<exists>parts. concat parts = path \<and> list_all2 part_matches pat parts)"

lemma seg_match_iff: "seg_match pat path \<longleftrightarrow> pattern_matches pat path"
proof (induction pat path rule: seg_match.induct)
  case (1 path)
  show ?case by (auto simp: pattern_matches_def)
next
  case (2 p rest path)
  show ?case
  proof (cases "p = ''**''")
    case True
    have "pattern_matches (p # rest) path \<longleftrightarrow> (\<exists>n \<in> {0 .. length path}. pattern_matches rest (drop n path))"
    proof
      assume "pattern_matches (p # rest) path"
      then obtain a parts where "path = a @ concat parts" "list_all2 part_matches rest parts"
        by (auto simp: pattern_matches_def list_all2_Cons1)
      then show "\<exists>n \<in> {0 .. length path}. pattern_matches rest (drop n path)"
        by (intro bexI [of _ "length a"]) (auto simp: pattern_matches_def)
    next
      assume "\<exists>n \<in> {0 .. length path}. pattern_matches rest (drop n path)"
      then obtain n parts where "concat parts = drop n path" "list_all2 part_matches rest parts"
        by (auto simp: pattern_matches_def)
      then show "pattern_matches (p # rest) path"
        unfolding pattern_matches_def using True
        by (intro exI [of _ "take n path # parts"]) (simp add: part_matches_def)
    qed
    with True 2(1) [OF True] show ?thesis by simp
  next
    case False
    have "pattern_matches (p # rest) path \<longleftrightarrow>
        (case path of s # ss \<Rightarrow> seg_glob p s \<and> pattern_matches rest ss | [] \<Rightarrow> False)"
      using False
      by (cases path) (auto simp: pattern_matches_def part_matches_def list_all2_Cons1 Cons_eq_append_conv
          intro: exI [of _ "[_] # _"])
    with False 2(2) [OF False] show ?thesis by (simp split: list.split)
  qed
qed


text \<open>The line of an exception, and the pattern of a line that means one.\<close>

definition exception_line :: "string \<Rightarrow> bool" where
  "exception_line raw \<longleftrightarrow> starts_with (trim_str raw) ''!''"

definition line_pattern :: "string \<Rightarrow> string list option" where
  "line_pattern raw =
     (let line = trim_str raw;
          segs = filter (\<lambda>s. s \<noteq> []) (split_on (CHR ''/'') (dropWhile (\<lambda>c. c = CHR ''/'') line))
      in if line = [] \<or> starts_with line ''#'' \<or> starts_with line ''!'' \<or> segs = [] \<or> \<not> list_all segment_understood segs
         then None else Some segs)"

lemma ignore_line_disabled: "ig_disabled (ignore_line r raw) \<longleftrightarrow> ig_disabled r \<or> exception_line raw"
  by (cases "trim_str raw") (auto simp: ignore_line_def exception_line_def Let_def starts_with_def)

lemma ignore_line_patterns:
  "set (ig_patterns (ignore_line r raw)) = set (ig_patterns r) \<union> set_option (line_pattern raw)"
  by (auto simp: ignore_line_def line_pattern_def Let_def)

lemma ignore_lines:
  "ig_disabled (foldl ignore_line r ls) \<longleftrightarrow> ig_disabled r \<or> (\<exists>raw \<in> set ls. exception_line raw)"
  "set (ig_patterns (foldl ignore_line r ls)) = set (ig_patterns r) \<union> (\<Union>raw \<in> set ls. set_option (line_pattern raw))"
  by (induction ls arbitrary: r) (auto simp: ignore_line_disabled ignore_line_patterns)

text \<open>
  Claim C39. A path of the context is left out of the size exactly when the ignore file has no
  exception line at all, and one of its lines is a pattern of understood parts that some beginning of the
  path matches, part by part: a line with anything else in it leaves nothing out.
\<close>

theorem excluded_exactly:
  "excludes (ignore_parse txt) rel \<longleftrightarrow>
     \<not> (\<exists>raw \<in> set (text_lines txt). exception_line raw) \<and>
     (\<exists>raw \<in> set (text_lines txt). \<exists>pat k. line_pattern raw = Some pat \<and> 1 \<le> k \<and> k \<le> length rel \<and>
        pattern_matches pat (take k rel))"
proof (cases "\<exists>raw \<in> set (text_lines txt). exception_line raw")
  case True
  then show ?thesis by (simp add: excludes_def ignore_parse_def Let_def ignore_lines)
next
  case False
  then have "set (ig_patterns (ignore_parse txt)) = (\<Union>raw \<in> set (text_lines txt). set_option (line_pattern raw))"
    by (simp add: ignore_parse_def Let_def ignore_lines no_rules_def)
  then have "excludes (ignore_parse txt) rel \<longleftrightarrow> (\<exists>raw \<in> set (text_lines txt). \<exists>pat. line_pattern raw = Some pat \<and>
      (\<exists>k \<in> {1 .. length rel}. pattern_matches pat (take k rel)))"
    unfolding excludes_def seg_match_iff by auto
  with False show ?thesis by fastforce
qed

section \<open>Confinement\<close>

lemma read_capped_length: "read_capped fs p = Inr t \<Longrightarrow> fs_read fs p = Inr t \<and> length t \<le> max_text_file"
  by (auto simp: read_capped_def split: sum.splits if_splits)

lemma optional_inside_ok:
  "optional_inside fs p ctx = Inr (Some (f, t)) \<Longrightarrow>
   path_inside f ctx \<and> fs_canonical fs p = Inr f \<and> fs_is_file fs f \<and> fs_read fs f = Inr t \<and> length t \<le> max_text_file"
  by (auto simp: optional_inside_def bind_res_Inr_iff dest: read_capped_length split: sum.splits fs_failure.splits if_splits)

lemma path_inside_trans: "path_inside p q \<Longrightarrow> path_inside q r \<Longrightarrow> path_inside p r"
  unfolding path_inside_def by (metis min_def take_all_iff take_take nle_le)

text \<open>
  Whatever the file system answers, the context, the Dockerfile and the ignore file of an
  accepted build are real paths inside the real project folder, part by part and not letter by letter;
  the context is a folder, the other two are regular files of at most 1 MiB inside the context, and their
  texts are what was read from these real paths.
\<close>

theorem confined_stays_inside:
  assumes "confine fs root ctx dockerfile = Inr s"
  shows "fs_canonical fs root = Inr (bs_root s) \<and> fs_canonical fs ctx = Inr (bs_context s) \<and>
    fs_is_dir fs (bs_root s) \<and> fs_is_dir fs (bs_context s) \<and> path_inside (bs_context s) (bs_root s) \<and>
    (\<forall>f t. (f, t) = (bs_dockerfile s, bs_dockerfile_text s) \<or> bs_ignore s = Some (f, t) \<longrightarrow>
       path_inside f (bs_context s) \<and> path_inside f (bs_root s) \<and> (\<exists>p. fs_canonical fs p = Inr f) \<and>
       fs_is_file fs f \<and> fs_read fs f = Inr t \<and> length t \<le> max_text_file)"
proof -
  obtain root_real ctx_real real t ig where c: "confine_context fs root ctx = Inr (root_real, ctx_real)"
    and d: "confine_dockerfile fs ctx_real (path_join ctx_real dockerfile) = Inr (real, t)"
    and i: "confine_ignore fs ctx_real (path_join ctx_real dockerfile) = Inr ig"
    and s: "s = \<lparr>bs_root = root_real, bs_context = ctx_real, bs_dockerfile = real, bs_dockerfile_text = t, bs_ignore = ig\<rparr>"
    using assms by (auto simp: confine_def bind_res_Inr_iff split: prod.splits if_splits)
  have ctx: "fs_canonical fs root = Inr root_real" "fs_canonical fs ctx = Inr ctx_real" "fs_is_dir fs root_real"
      "fs_is_dir fs ctx_real" "path_inside ctx_real root_real"
    using c by (auto simp: confine_context_def bind_res_Inr_iff split: if_splits)
  have df: "path_inside real ctx_real" "\<exists>p. fs_canonical fs p = Inr real" "fs_is_file fs real" "fs_read fs real = Inr t"
      "length t \<le> max_text_file"
    using d by (auto simp: confine_dockerfile_def bind_res_Inr_iff dest: read_capped_length
        split: sum.splits fs_failure.splits if_splits)
  have ign: "path_inside f ctx_real \<and> (\<exists>p. fs_canonical fs p = Inr f) \<and> fs_is_file fs f \<and> fs_read fs f = Inr u \<and>
      length u \<le> max_text_file" if "ig = Some (f, u)" for f u
    using i that by (auto simp: confine_ignore_def bind_res_Inr_iff dest: optional_inside_ok split: option.splits)
  show ?thesis using ctx df ign path_inside_trans by (auto simp: s)
qed


definition sample_files :: file_system where
  "sample_files =
     \<lparr>fs_canonical = (\<lambda>p.
        if p \<in> {''/p'', ''/p/app'', ''/p/app/Dockerfile'', ''/p/app/.dockerignore''} then Inr p
        else if p = ''/link'' then Inr ''/p/app'' else Inl (FsNotFound ''no such file'')),
      fs_is_dir = (\<lambda>p. p \<in> {''/p'', ''/p/app''}),
      fs_is_file = (\<lambda>p. p \<in> {''/p/app/Dockerfile'', ''/p/app/.dockerignore''}),
      fs_read = (\<lambda>p. Inr ''FROM base'')\<rparr>"

theorem confined_stays_inside_witness:
  "\<exists>s. confine sample_files ''/p'' ''/link'' ''Dockerfile'' = Inr s \<and> path_inside (bs_dockerfile s) ''/p'' \<and>
     path_inside ''/p/app/Dockerfile'' (bs_root s)"
proof -
  have ok: "confine sample_files ''/p'' ''/link'' ''Dockerfile'' = Inr \<lparr>bs_root = ''/p'', bs_context = ''/p/app'',
      bs_dockerfile = ''/p/app/Dockerfile'', bs_dockerfile_text = ''FROM base'',
      bs_ignore = Some (''/p/app/.dockerignore'', ''FROM base'')\<rparr>"
    by (simp add: confine_def confine_context_def confine_dockerfile_def confine_ignore_def optional_inside_def
        read_capped_def max_text_file_def sample_files_def path_inside_def path_components_def starts_with_def
        plain_relative_def path_join_def)
  show ?thesis using confined_stays_inside [OF ok] ok by auto
qed

text \<open>
  The comment of \<open>plain_relative\<close> and the text of its refusal exclude parts that are a dot; the components
  of a path leave such parts out before they are looked at, so a name that has one is accepted.
\<close>

lemma interior_dot_is_plain: "plain_relative ''a/./Dockerfile'' \<and> \<not> plain_relative ''./Dockerfile''"
  by (simp add: plain_relative_def path_components_def starts_with_def)

text \<open>A project folder beside one whose name starts like it is not inside it.\<close>

lemma inside_is_by_parts: "\<not> path_inside ''/p/app2'' ''/p/app'' \<and> path_inside ''/p/app/sub'' ''/p/app''"
  by (simp add: path_inside_def path_components_def starts_with_def)

end
