(* ===== verification/Attribution.thy ===== *)
theory Attribution
  imports BuildProps
begin

text \<open>
  Who answers on a published port: the reading of \<open>lsof\<close> and the check of the host listener
  (\<open>deploy-docker/src/forwarder.rs\<close>), and the proof that the path from the host leads to the engine's own
  guest (\<open>attribution.rs\<close>). The traits of the proof are programs over an arbitrary world; the three fixed
  command lines run in the guest are constructors, an address is its text. Texts that quote their input
  are shortened to what is fixed in them.
\<close>

section \<open>The host listener\<close>

record listener =
  ln_pid :: u32
  ln_command :: string
  ln_address :: string

text \<open>\<open>rsplit_once(':')\<close>.\<close>

definition rsplit_colon :: "string \<Rightarrow> (string \<times> string) option" where
  "rsplit_colon s = map_option (\<lambda>(b, a). (rev a, rev b)) (split_once (CHR '':'') (rev s))"

definition listener_port :: "listener \<Rightarrow> u16 option" where
  "listener_port l = Option.bind (rsplit_colon (ln_address l)) (\<lambda>(_, p). parse_word p)"

definition listener_host :: "listener \<Rightarrow> string" where
  "listener_host l = (case rsplit_colon (ln_address l) of Some (h, _) \<Rightarrow> h | None \<Rightarrow> [])"

definition lsof_error :: "nat \<Rightarrow> string \<Rightarrow> string" where
  "lsof_error n what = ''line '' @ show_nat n @ '': '' @ what"

text \<open>The loop over the lines, with the process seen last.\<close>

fun lsof_lines ::
  "string list \<Rightarrow> nat \<Rightarrow> u32 option \<Rightarrow> string option \<Rightarrow> listener list \<Rightarrow> string + listener list" where
  "lsof_lines [] n pid cmd found = Inr found"
| "lsof_lines (l # ls) n pid cmd found =
     (let tag = (case chars_of l of [] \<Rightarrow> [] | g # _ \<Rightarrow> g); rest = drop (length tag) l
      in if tag = ''p'' then
           (case parse_word rest of
              None \<Rightarrow> Inl (lsof_error n ''bad pid'') | Some p \<Rightarrow> lsof_lines ls (n + 1) (Some p) None found)
         else if tag = ''c'' then lsof_lines ls (n + 1) pid (Some rest) found
         else if tag = ''n'' then
           (case (pid, cmd) of
              (Some p, Some c) \<Rightarrow>
                if rest = [] then Inl (lsof_error n ''empty address'')
                else lsof_lines ls (n + 1) pid cmd (found @ [\<lparr>ln_pid = p, ln_command = c, ln_address = rest\<rparr>])
            | _ \<Rightarrow> Inl (lsof_error n ''an address before its process''))
         else if tag = ''f'' \<or> tag = ''P'' \<or> tag = ''T'' then lsof_lines ls (n + 1) pid cmd found
         else if tag = [] then Inl (lsof_error n ''empty line'')
         else Inl (lsof_error n ''unexpected field''))"

definition parse_lsof_f :: "string \<Rightarrow> string + listener list" where
  "parse_lsof_f txt = lsof_lines (text_lines txt) 1 None None []"

definition command_matches :: "string \<Rightarrow> string \<Rightarrow> bool" where
  "command_matches seen expected \<longleftrightarrow> take 9 (chars_of seen) = take 9 (chars_of expected)"

definition listener_problems :: "u32 \<Rightarrow> string \<Rightarrow> listener \<Rightarrow> string list" where
  "listener_problems pid cmd l =
     (if listener_host l \<noteq> ''127.0.0.1''
      then [''pid '' @ show_word (ln_pid l) @ '' ('' @ ln_command l @ '') listens on '' @ ln_address l @
        '', not on 127.0.0.1: that is not loopback-only''] else []) @
     (if ln_pid l \<noteq> pid \<or> \<not> command_matches (ln_command l) cmd
      then [''pid '' @ show_word (ln_pid l) @ '' ('' @ ln_command l @ '') listens on '' @ ln_address l @
        '', but the Harpoon forwarder is pid '' @ show_word pid @ '' ('' @ cmd @ '')''] else [])"

definition verify_forwarder :: "listener list \<Rightarrow> u16 \<Rightarrow> u32 \<Rightarrow> string \<Rightarrow> string list + unit" where
  "verify_forwarder ls port pid cmd =
     (let here = filter (\<lambda>l. listener_port l = Some port) ls;
          problems =
            (if here = [] then [''nothing listens on port '' @ show_word port @
               '' on this host (the forwarder has not bound it yet, or lost it)''] else []) @
            concat (map (listener_problems pid cmd) here) @
            (if 1 < length here then [show_nat (length here) @ '' listeners share port '' @ show_word port @
               ''; exactly one is required''] else [])
      in if problems = [] then Inr () else Inl problems)"

text \<open>The check with what \<open>lsof\<close> printed, or why it could not be run.\<close>

definition lsof_verify :: "string + string \<Rightarrow> u16 \<Rightarrow> u32 \<Rightarrow> string \<Rightarrow> string + unit" where
  "lsof_verify printed port pid cmd =
     bind_res (bind_res printed (\<lambda>t. map_err (\<lambda>e. ''cannot read lsof output: '' @ e) (parse_lsof_f t))) (\<lambda>ls.
       map_err (join_with ''; '') (verify_forwarder ls port pid cmd))"

definition unix_sockets_of :: "string + string \<Rightarrow> string + string list" where
  "unix_sockets_of printed =
     bind_res printed (\<lambda>t. Inr (List.map_filter (strip_prefix ''n'') (text_lines t)))"

section \<open>The path to the guest\<close>

definition challenge_port :: u16 where "challenge_port = 2378"
definition relay_vsock_base :: u32 where "relay_vsock_base = 65536"

datatype guest_route = GuestAddress | GuestLoopbackRelay

record published =
  pb_container_port :: u16
  pb_proto :: string
  pb_host_ip :: string
  pb_host_port :: u16

definition host_route :: "string \<Rightarrow> guest_route option" where
  "host_route ip =
     (if ip = [] \<or> ip = ''0.0.0.0'' \<or> ip = ''::'' then Some GuestAddress
      else if ip = ''127.0.0.1'' then Some GuestLoopbackRelay else None)"

fun route_loop :: "published list \<Rightarrow> guest_route option \<Rightarrow> guest_route option" where
  "route_loop [] route = route"
| "route_loop (p # ps) route =
     (case host_route (pb_host_ip p) of
        None \<Rightarrow> None
      | Some r \<Rightarrow> if route \<noteq> None \<and> route \<noteq> Some r then None else route_loop ps (Some r))"

definition route_of :: "published list \<Rightarrow> u16 \<Rightarrow> guest_route option" where
  "route_of ps port = route_loop (filter (\<lambda>p. pb_proto p = ''tcp'' \<and> pb_container_port p = port) ps) None"

record exec_result =
  er_exit :: int
  er_stdout :: string
  er_stderr :: string

datatype guest_command = StartListener string u16 nat | StopListener u16 | RelayPresent u32

record 'w host_proof =
  hp_listener :: "u16 \<Rightarrow> 'w \<Rightarrow> (string + unit) \<times> 'w"
  hp_pid :: u32
  hp_sockets :: "u32 \<Rightarrow> 'w \<Rightarrow> (string + string list) \<times> 'w"
  hp_docker_socket :: string
  hp_mgmt_socket :: string
  hp_exec :: "guest_command \<Rightarrow> 'w \<Rightarrow> (string + exec_result) \<times> 'w"
  hp_address :: "string option"
  hp_dial :: "string \<Rightarrow> u16 \<Rightarrow> 'w \<Rightarrow> (string + string) \<times> 'w"
  hp_fresh :: "'w \<Rightarrow> (string + string) \<times> 'w"

definition is_challenge :: "string \<Rightarrow> bool" where
  "is_challenge t \<longleftrightarrow> length t = 32 \<and> list_all (\<lambda>c. ascii_digit c \<or> between 97 c 102) t"

definition norm_path :: "string \<Rightarrow> string" where
  "norm_path p =
     (let q = rev (dropWhile (\<lambda>c. c = CHR ''/'') (rev p))
      in case strip_prefix ''/private'' q of
          Some rest \<Rightarrow> if starts_with rest ''/tmp'' \<or> starts_with rest ''/var'' then rest else q
        | None \<Rightarrow> q)"

definition same_path :: "string \<Rightarrow> string \<Rightarrow> bool" where
  "same_path a b \<longleftrightarrow> norm_path a = norm_path b"

definition listener_lifetime :: nat where "listener_lifetime = 20"

text \<open>The answer of the machine at the address, once the guest has started its listener.\<close>

definition challenge_answer ::
  "'w host_proof \<Rightarrow> string \<Rightarrow> string \<Rightarrow> 'w \<Rightarrow> (string + string) \<times> 'w" where
  "challenge_answer p addr token w =
     (case hp_exec p (StartListener token challenge_port listener_lifetime) w of
        (Inr r, w') \<Rightarrow>
          if er_exit r = 0 then hp_dial p addr challenge_port w'
          else (Inl (''the guest could not start its identity listener: '' @ trim_str (er_stderr r)), w')
      | (Inl e, w') \<Rightarrow> (Inl e, w'))"

definition challenge_verdict :: "string \<Rightarrow> string \<Rightarrow> string + string \<Rightarrow> string + unit" where
  "challenge_verdict addr token answer =
     (case answer of
        Inr a \<Rightarrow>
          if a = token then Inr ()
          else Inl (''the machine at '' @ addr @ '' did not answer the identity challenge as the Harpoon VM does, so it is not that VM'')
      | Inl e \<Rightarrow> Inl (''the machine at '' @ addr @ '' could not be proven to be the Harpoon VM: '' @ e))"

definition challenge_address :: "'w host_proof \<Rightarrow> 'w \<Rightarrow> (string + unit) \<times> 'w" where
  "challenge_address p w =
     (case hp_address p of
        None \<Rightarrow> (Inl ''the Harpoon engine did not publish a guest address it discovered'', w)
      | Some addr \<Rightarrow>
          (case hp_fresh p w of
             (Inl e, w1) \<Rightarrow> (Inl e, w1)
           | (Inr token, w1) \<Rightarrow>
               if \<not> is_challenge token
               then (Inl ''internal error: the identity challenge is not 32 hex digits'', w1)
               else (case challenge_answer p addr token w1 of
                   (answer, w2) \<Rightarrow>
                     (case hp_exec p (StopListener challenge_port) w2 of
                        (_, w3) \<Rightarrow> (challenge_verdict addr token answer, w3)))))"

definition relay_present :: "'w host_proof \<Rightarrow> u16 \<Rightarrow> 'w \<Rightarrow> (string + unit) \<times> 'w" where
  "relay_present p port w =
     (case hp_exec p (RelayPresent (relay_vsock_base + ucast port)) w of
        (Inl e, w') \<Rightarrow> (Inl e, w')
      | (Inr r, w') \<Rightarrow>
          (if er_exit r = 0 \<and> trim_str (er_stdout r) = ''present'' then Inr ()
           else Inl (''the engine's guest relay for port '' @ show_word port @
             '' is not running, so the loopback-bound port cannot be attributed''), w'))"

definition socket_missing :: "'w host_proof \<Rightarrow> string \<Rightarrow> string \<Rightarrow> string" where
  "socket_missing p what path =
     ''the '' @ what @ '' socket '' @ path @ '' is not owned by the forwarder process '' @ show_word (hp_pid p) @
     '', so they are not the same engine''"

definition prove :: "'w host_proof \<Rightarrow> u16 \<Rightarrow> guest_route \<Rightarrow> 'w \<Rightarrow> (string + unit) \<times> 'w" where
  "prove p port route w =
     (case hp_listener p port w of
        (Inl e, w1) \<Rightarrow> (Inl (''host listener: '' @ e), w1)
      | (Inr _, w1) \<Rightarrow>
          (case hp_sockets p (hp_pid p) w1 of
             (Inl e, w2) \<Rightarrow> (Inl (''socket ownership: '' @ e), w2)
           | (Inr owned, w2) \<Rightarrow>
               if \<not> list_ex (\<lambda>x. same_path x (hp_docker_socket p)) owned
               then (Inl (socket_missing p ''Docker'' (hp_docker_socket p)), w2)
               else if \<not> list_ex (\<lambda>x. same_path x (hp_mgmt_socket p)) owned
               then (Inl (socket_missing p ''management'' (hp_mgmt_socket p)), w2)
               else (case route of
                   GuestAddress \<Rightarrow> challenge_address p w2
                 | GuestLoopbackRelay \<Rightarrow> relay_present p port w2)))"

section \<open>What a proof rests on\<close>

lemma listener_problems_none:
  "listener_problems pid cmd l = [] \<longleftrightarrow>
   listener_host l = ''127.0.0.1'' \<and> ln_pid l = pid \<and> command_matches (ln_command l) cmd"
  by (simp add: listener_problems_def)

lemma verify_forwarder_ok:
  "verify_forwarder ls port pid cmd = Inr () \<longleftrightarrow>
   (\<exists>l. filter (\<lambda>l. listener_port l = Some port) ls = [l] \<and> listener_host l = ''127.0.0.1'' \<and> ln_pid l = pid \<and>
      command_matches (ln_command l) cmd)"
proof -
  define here where "here = filter (\<lambda>l. listener_port l = Some port) ls"
  have "verify_forwarder ls port pid cmd = Inr () \<longleftrightarrow>
      here \<noteq> [] \<and> (\<forall>l \<in> set here. listener_problems pid cmd l = []) \<and> \<not> 1 < length here"
    by (simp add: verify_forwarder_def Let_def here_def [symmetric])
  also have "\<dots> \<longleftrightarrow> (\<exists>l. here = [l] \<and> listener_problems pid cmd l = [])"
    by (cases here; cases "tl here") auto
  finally show ?thesis by (simp add: listener_problems_none here_def)
qed

lemma route_loop_Some:
  "route_loop ps r0 = Some r \<longleftrightarrow>
   (r0 = None \<and> ps \<noteq> [] \<or> r0 = Some r) \<and> (\<forall>p \<in> set ps. host_route (pb_host_ip p) = Some r)"
  by (induction ps r0 rule: route_loop.induct) (auto split: option.splits)


lemma route_of_Some:
  "route_of ps port = Some r \<longleftrightarrow>
   (\<exists>p \<in> set ps. pb_proto p = ''tcp'' \<and> pb_container_port p = port) \<and>
   (\<forall>p \<in> set ps. pb_proto p = ''tcp'' \<and> pb_container_port p = port \<longrightarrow> host_route (pb_host_ip p) = Some r)"
  by (auto simp: route_of_def route_loop_Some filter_empty_conv)

lemma challenge_ok:
  "challenge_address p w = (Inr (), w') \<longleftrightarrow>
   (\<exists>addr token w1 r w2 w3 stopped. hp_address p = Some addr \<and> hp_fresh p w = (Inr token, w1) \<and> is_challenge token \<and>
      hp_exec p (StartListener token challenge_port listener_lifetime) w1 = (Inr r, w2) \<and> er_exit r = 0 \<and>
      hp_dial p addr challenge_port w2 = (Inr token, w3) \<and>
      hp_exec p (StopListener challenge_port) w3 = (stopped, w'))"
  by (auto simp: challenge_address_def challenge_answer_def challenge_verdict_def
      split: option.splits sum.splits prod.splits if_splits)

lemma relay_ok:
  "relay_present p port w = (Inr (), w') \<longleftrightarrow>
   (\<exists>r. hp_exec p (RelayPresent (relay_vsock_base + ucast port)) w = (Inr r, w') \<and> er_exit r = 0 \<and>
      trim_str (er_stdout r) = ''present'')"
  by (auto simp: relay_present_def split: sum.splits prod.splits if_splits)

text \<open>
  Claim C40. A path is attributed only with every link of the chain. When the listener of the proof is
  the \<open>lsof\<close> check, a proof that succeeds has seen exactly one listener on the port, on 127.0.0.1, of the
  forwarder's process and command; both sockets of the engine among those of that process; and then, for
  a port on the guest's address, a fresh challenge of 32 hexadecimal digits given to the guest and read
  back unchanged from the published address, with the listener stopped after it; for a port on the
  guest's loopback, the relay of exactly this port running. Nothing else makes it succeed.
\<close>

theorem attribution_has_every_link:
  assumes "hp_listener p = (\<lambda>port w. (lsof_verify (printed w) port (hp_pid p) cmd, w))"
  shows "prove p port route w = (Inr (), w') \<longleftrightarrow>
    (\<exists>out ls l. printed w = Inr out \<and> parse_lsof_f out = Inr ls \<and>
       filter (\<lambda>l. listener_port l = Some port) ls = [l] \<and> listener_host l = ''127.0.0.1'' \<and> ln_pid l = hp_pid p \<and>
       command_matches (ln_command l) cmd) \<and>
    (\<exists>owned w2. hp_sockets p (hp_pid p) w = (Inr owned, w2) \<and>
       (\<exists>x \<in> set owned. same_path x (hp_docker_socket p)) \<and> (\<exists>x \<in> set owned. same_path x (hp_mgmt_socket p)) \<and>
       (case route of
          GuestAddress \<Rightarrow>
            \<exists>addr token w3 r w4 w5 stopped. hp_address p = Some addr \<and> hp_fresh p w2 = (Inr token, w3) \<and>
              is_challenge token \<and>
              hp_exec p (StartListener token challenge_port listener_lifetime) w3 = (Inr r, w4) \<and> er_exit r = 0 \<and>
              hp_dial p addr challenge_port w4 = (Inr token, w5) \<and>
              hp_exec p (StopListener challenge_port) w5 = (stopped, w')
        | GuestLoopbackRelay \<Rightarrow>
            \<exists>r. hp_exec p (RelayPresent (relay_vsock_base + ucast port)) w2 = (Inr r, w') \<and> er_exit r = 0 \<and>
              trim_str (er_stdout r) = ''present''))"
proof -
  have listener: "lsof_verify (printed w) port (hp_pid p) cmd = Inr () \<longleftrightarrow>
      (\<exists>out ls. printed w = Inr out \<and> parse_lsof_f out = Inr ls \<and> verify_forwarder ls port (hp_pid p) cmd = Inr ())"
    by (auto simp: lsof_verify_def bind_res_Inr_iff)
  have "prove p port route w = (Inr (), w') \<longleftrightarrow> lsof_verify (printed w) port (hp_pid p) cmd = Inr () \<and>
      (\<exists>owned w2. hp_sockets p (hp_pid p) w = (Inr owned, w2) \<and>
         (\<exists>x \<in> set owned. same_path x (hp_docker_socket p)) \<and> (\<exists>x \<in> set owned. same_path x (hp_mgmt_socket p)) \<and>
         (case route of GuestAddress \<Rightarrow> challenge_address p w2 | GuestLoopbackRelay \<Rightarrow> relay_present p port w2) = (Inr (), w'))"
    by (auto simp: prove_def assms list_ex_iff split: sum.splits prod.splits if_splits)
  then show ?thesis
    unfolding listener verify_forwarder_ok by (cases route) (simp_all add: challenge_ok relay_ok)
qed


definition sample_token :: string where "sample_token = replicate 32 (CHR ''a'')"

definition sample_lsof :: string where
  "sample_lsof = ''p7'' @ [NL] @ ''cHarpoon'' @ [NL] @ ''n127.0.0.1:38000'' @ [NL]"

text \<open>A world in which the guest shows its challenge: the state is what its listener answers.\<close>

definition sample_proof :: "string option host_proof" where
  "sample_proof =
     \<lparr>hp_listener = (\<lambda>port w. (lsof_verify (Inr sample_lsof) port 7 ''Harpoon'', w)), hp_pid = 7,
      hp_sockets = (\<lambda>pid w. (Inr [''/private/tmp/docker.sock'', ''/tmp/mgmt.sock''], w)),
      hp_docker_socket = ''/tmp/docker.sock'', hp_mgmt_socket = ''/tmp/mgmt.sock'',
      hp_exec = (\<lambda>c w. (Inr \<lparr>er_exit = 0, er_stdout = [], er_stderr = []\<rparr>,
        case c of StartListener t _ _ \<Rightarrow> Some t | StopListener _ \<Rightarrow> None | RelayPresent _ \<Rightarrow> w)),
      hp_address = Some ''192.168.64.2'',
      hp_dial = (\<lambda>a port w. (case w of Some t \<Rightarrow> Inr t | None \<Rightarrow> Inl ''refused'', w)),
      hp_fresh = (\<lambda>w. (Inr sample_token, w))\<rparr>"

theorem attribution_has_every_link_witness:
  "prove sample_proof 38000 GuestAddress None = (Inr (), None) \<and>
   (\<exists>ls l. parse_lsof_f sample_lsof = Inr ls \<and> filter (\<lambda>l. listener_port l = Some 38000) ls = [l])"
proof -
  have parsed: "parse_lsof_f sample_lsof = Inr [\<lparr>ln_pid = 7, ln_command = ''Harpoon'', ln_address = ''127.0.0.1:38000''\<rparr>]"
    by (simp add: parse_lsof_f_def sample_lsof_def text_lines_def strip_cr_def Let_def chars_of_ascii byte_def
        parse_word_def parse_dec_def digit_val_def)
  have port: "listener_port \<lparr>ln_pid = 7, ln_command = ''Harpoon'', ln_address = ''127.0.0.1:38000''\<rparr> = Some 38000"
    by (simp add: listener_port_def rsplit_colon_def parse_word_def parse_dec_def digit_val_def byte_def)
  have "verify_forwarder [\<lparr>ln_pid = 7, ln_command = ''Harpoon'', ln_address = ''127.0.0.1:38000''\<rparr>] 38000 7 ''Harpoon'' = Inr ()"
    by (simp add: verify_forwarder_ok port listener_host_def rsplit_colon_def command_matches_def)
  then have proved: "prove sample_proof 38000 GuestAddress None = (Inr (), None)"
    by (simp add: prove_def sample_proof_def lsof_verify_def parsed same_path_def norm_path_def starts_with_def
        challenge_address_def is_challenge_def sample_token_def ascii_digit_def between_def byte_def
        challenge_answer_def challenge_verdict_def list_all_iff)
  have "hp_listener sample_proof = (\<lambda>port w. (lsof_verify ((\<lambda>_. Inr sample_lsof) w) port (hp_pid sample_proof) ''Harpoon'', w))"
    by (simp add: sample_proof_def)
  from attribution_has_every_link [OF this, of 38000 GuestAddress None None] proved show ?thesis by blast
qed

end
