(* ===== verification/Spec2Isabelle.thy ===== *)
theory Spec2Isabelle
  imports Prelude Ids AppQueue Health Release Logs DeployState
    Ledger LedgerPlan LedgerCodec Ports Serving Backend FakeBackend Engine EngineRun
    EngineRules EngineTriples EngineParts EngineFlow EngineEnds EngineHistory EngineProps EngineCleanup
    EnvVars ReleaseCodec Redaction LogStream Route StepLog Control ControlState ControlOps ControlCodec ControlProps
    BTree Config ConfigState ConfigCodec ConfigProps
    Git GitGlob GitUrl GitState GitCodec GitProps JournalFormat JournalCodec JournalRecovery JournalProps DurableJournal
    Json Sha256 Webhook WebhookReads WebhookProps BuildInput BuildProps Attribution
begin

text \<open>
  Verification of the deployment system of Harpoon: the crates \<open>deploy\<close> (the engine and everything it
  records), \<open>deploy-journal\<close> (the file the records are kept in), and the parts of \<open>deploy-git\<close> and
  \<open>deploy-docker\<close> that decide without talking to a service.

  \<^bold>\<open>How the program works.\<close> A deployment of an application is a record with a status, six steps, a cutover
  and a recovery (\<open>state.rs\<close>). The engine (\<open>engine.rs\<close>) takes it from the queue (\<open>queue.rs\<close>), reserves a port
  (\<open>ports.rs\<close>), checks its configuration (\<open>config.rs\<close>, \<open>envvars.rs\<close>, \<open>release.rs\<close>), lets a backend build
  and start it (\<open>backend.rs\<close>), judges the health evidence (\<open>health.rs\<close>), switches over, and on a failure
  restores the release that served before (\<open>serving.rs\<close>, \<open>rollback.rs\<close>). Every object it creates is
  announced in a write-ahead ledger (\<open>ledger.rs\<close>); what is left over is removed from what the ledger
  proves. Its output passes a redactor into bounded logs (\<open>logs.rs\<close>, \<open>steplog.rs\<close>). Deliveries of triggers
  are held, selected or superseded as control events (\<open>control.rs\<close>); they come from polls of registered
  repositories (\<open>git.rs\<close>) and from webhooks (\<open>deploy-git\<close>). All records share one journal
  (\<open>journal_format.rs\<close>), which the next start replays.

  \<^bold>\<open>How it is modelled.\<close> Structures are records, enumerations datatypes, machine integers words of their
  width (counters and sizes that only index lists are \<open>nat\<close>), texts byte lists with UTF-8 validity as a
  predicate, \<open>Result\<close> a sum with the error on the left, a panic \<open>None\<close>. The ordered maps are association
  lists (\<open>BTree\<close>) where their order can be seen and maps elsewhere. Code that talks to the outside is a
  function of what the outside answers: the backend is a record of programs over an arbitrary world, a
  journal write can fail at any point and a failed one can be a crash, clocks and entropy are inputs, a
  network connection is the list of what its reads return, a file system is a record of its answers.

  \<^bold>\<open>The theories.\<close>

  \<^item> Shared: \<open>Prelude\<close> (integers, results, decimal and hexadecimal text, splitting, the interface
    \<open>token_codec\<close> of printed enumerations), \<open>BTree\<close>, \<open>Ids\<close> (\<open>ids.rs\<close>, \<open>time.rs\<close>).
  \<^item> The engine's data: \<open>AppQueue\<close>, \<open>Health\<close>, \<open>Release\<close> and \<open>ReleaseCodec\<close>, \<open>EnvVars\<close>, \<open>DeployState\<close>,
    \<open>Ledger\<close>, \<open>LedgerPlan\<close>, \<open>LedgerCodec\<close>, \<open>Ports\<close>, \<open>Serving\<close> (with \<open>rollback.rs\<close>), \<open>Route\<close>.
  \<^item> Output: \<open>Logs\<close>, \<open>Redaction\<close>, \<open>LogStream\<close>, \<open>StepLog\<close>.
  \<^item> The engine: \<open>Backend\<close> (the seam and \<open>StepIo\<close> as instructions of the backend's programs), \<open>FakeBackend\<close>
    (the crate's own deterministic backend), \<open>Engine\<close> and \<open>EngineRun\<close> (the run, its parts named as in
    \<open>engine.rs\<close>); \<open>EngineRules\<close> to \<open>EngineHistory\<close> are the rules for reasoning about a run;
    \<open>EngineProps\<close> and \<open>EngineCleanup\<close> hold what is proved of it.
  \<^item> Triggers and configuration: \<open>Control\<close>, \<open>ControlState\<close>, \<open>ControlOps\<close>, \<open>ControlCodec\<close>, \<open>ControlProps\<close>;
    \<open>Config\<close>, \<open>ConfigState\<close>, \<open>ConfigCodec\<close>, \<open>ConfigProps\<close>; \<open>Git\<close>, \<open>GitGlob\<close>, \<open>GitUrl\<close>, \<open>GitState\<close>,
    \<open>GitCodec\<close>, \<open>GitProps\<close>.
  \<^item> The journal: \<open>JournalFormat\<close>, \<open>JournalCodec\<close>, \<open>JournalRecovery\<close>, \<open>JournalProps\<close>
    (\<open>journal_format.rs\<close>), \<open>DurableJournal\<close> (\<open>deploy-journal/src/lib.rs\<close>).
  \<^item> At the edges: \<open>Sha256\<close>, \<open>Webhook\<close>, \<open>WebhookReads\<close>, \<open>WebhookProps\<close> (\<open>deploy-git\<close>: signatures, requests, and
    \<open>accept_webhook\<close> of the command line), \<open>Json\<close> (\<open>deploy-docker/src/json.rs\<close>), \<open>BuildInput\<close>, \<open>BuildProps\<close>
    (what is checked of a build before it starts), \<open>Attribution\<close> (who answers on a published port).

  \<^bold>\<open>What is proved.\<close>

  \<^item> Of a run, for every backend, clock, cancellation and confirmation, and for a journal that fails at any
    write: the sequences of calls it can make with the record each leaves; that nothing is stopped,
    removed or restored without its durable justification, and at most once; that journal, ledger and
    record agree at every moment; that an interrupted replacement is visible after any crash. The triples
    of \<open>EngineRules\<close> speak about every way a run ends, a crash included, so none of this is conditional on
    the run being finished.
  \<^item> Of each store: an invariant of every state that its records can rebuild, and that memory is what the
    journal replays to. Of the whole journal: every line whose record the text form can express reads back,
    a file cut at any byte recovers the whole records before the cut, acknowledged records survive every
    failure and crash (with at most the first refused one beside them), and what startup and an explicit
    recovery append replays. Where a property follows the program's own order, precedence or comparison, it
    is stated with a reference that does not use the code's function (\<open>header_names\<close> of \<open>Route\<close>, \<open>decides\<close>
    and \<open>specificity\<close> of \<open>ConfigProps\<close>, the fields of a record one by one in \<open>JournalProps\<close>).
  \<^item> Of parsers and codecs: round trips over all values that keep to the checks, and where a check is
    weaker than the text form, a lemma with the value that does not survive.
  \<^item> Of optimised loops: that they compute their reference (redaction and log capture for any chunks,
    branch filters, ignore patterns, the size walk, requests cut anywhere by the network).
  \<^item> Of what comes from outside: a push reaches the queue only if it is authenticated and only once; a path
    is attributed only with every link of its chain; a build stays in the project folder.

  \<^bold>\<open>Interfaces.\<close> Contracts between components are locales, each interpreted on the model's own
  definitions: \<open>token_codec\<close>, \<open>line_codec\<close> (the text forms of step logs, control, configuration and git
  records), \<open>serial_queue\<close>, \<open>paced_env\<close> (an environment whose clock moves, from which the probe loop
  returns), \<open>replayed\<close> (a state rebuilt from records), \<open>run_invariant\<close> (what every instruction of a run has
  to keep) and \<open>control_writer\<close> (a journal that the control operations write to).

  \<^bold>\<open>Loops.\<close> Recursion is structural or has a proved measure; no fuel is used. The one loop that may not end,
  the health probe, is a \<open>partial_function\<close>, and \<open>Health.run_health_returns\<close> shows that it returns in every
  environment whose clock moves.

  \<^bold>\<open>Not modelled.\<close> Wording of error texts where they quote their input (said in the theory concerned); the
  bytes of secrets in memory and the keychain; the SQLite store, which keeps the same lines behind a
  foreign interface; running \<open>git\<close>, \<open>docker buildx\<close>, \<open>lsof\<close> and \<open>df\<close>; the Docker API client and the live
  backend, which the engine reaches only through the seam that the theorems quantify over; the
  command line (but \<open>accept_webhook\<close>) and the desktop application, which parse arguments, print, and wire
  the components above to files, windows and processes. The race between checking a path and using it
  is outside the model, as it is outside the code. The theorems on opening a journal file start from content
  that is durable; reading and printing of JSON numbers is a parameter.
\<close>

end
